(* ===== verification/Prelude.thy ===== *)
theory Prelude
  imports Main "HOL-Library.Sublist" "HOL-Library.Code_Target_Nat"
begin

text \<open>
  The vocabulary the components share.

  A Rust \<open>&str\<close> or \<open>String\<close> is a sequence of Unicode scalar values; it is
  modelled as the list of their code points (\<open>rstr\<close>), so that
  \<open>char::is_whitespace\<close> and the typographic substitutions of \<open>seek_sequence.rs\<close>
  are the real ones and not an ASCII approximation. Where the code counts bytes
  (\<open>str::len\<close>), the model counts \<open>len_utf8\<close>. A Rust \<open>Result<T, E>\<close> is
  \<open>'e + 'a\<close>, with \<open>Inl\<close> the error.

  The functions below are the parts of Rust's standard library the components
  call: \<open>trim\<close>, \<open>split\<close>, \<open>lines\<close>, \<open>join\<close>, \<open>strip_prefix\<close>,
  \<open>ends_with\<close>, \<open>find\<close>, \<open>saturating_sub\<close>.
\<close>

named_theorems lit_eval \<open>evaluation of string literals\<close>
named_theorems rust_str \<open>laws of the string functions\<close>

type_synonym rchar = nat
type_synonym rstr = "rchar list"

abbreviation Ok :: "'a \<Rightarrow> 'e + 'a" where
  "Ok \<equiv> Inr"

abbreviation Err :: "'e \<Rightarrow> 'e + 'a" where
  "Err \<equiv> Inl"

section \<open>Literals and characters\<close>

definition lit :: "string \<Rightarrow> rstr" where
  "lit s = map of_char s"

lemma lit_Nil [lit_eval]: "lit [] = []"
  by (simp add: lit_def)

lemma lit_Cons [lit_eval]: "lit (c # cs) = of_char c # lit cs"
  by (simp add: lit_def)

abbreviation chr_nl :: rchar where "chr_nl \<equiv> 10"
abbreviation chr_cr :: rchar where "chr_cr \<equiv> 13"

text \<open>Unicode property White\_Space, as \<open>char::is_whitespace\<close>.\<close>

definition is_whitespace :: "rchar \<Rightarrow> bool" where
  "is_whitespace c \<longleftrightarrow>
     (9 \<le> c \<and> c \<le> 13) \<or> c = 32 \<or> c = 133 \<or> c = 160 \<or> c = 5760 \<or>
     (8192 \<le> c \<and> c \<le> 8202) \<or> c = 8232 \<or> c = 8233 \<or> c = 8239 \<or> c = 8287 \<or> c = 12288"

definition is_ascii_digit :: "rchar \<Rightarrow> bool" where
  "is_ascii_digit c \<longleftrightarrow> 48 \<le> c \<and> c \<le> 57"

definition to_ascii_lower :: "rchar \<Rightarrow> rchar" where
  "to_ascii_lower c = (if 65 \<le> c \<and> c \<le> 90 then c + 32 else c)"

definition to_ascii_lowercase :: "rstr \<Rightarrow> rstr" where
  "to_ascii_lowercase s = map to_ascii_lower s"

definition eq_ignore_ascii_case :: "rstr \<Rightarrow> rstr \<Rightarrow> bool" where
  "eq_ignore_ascii_case a b \<longleftrightarrow> to_ascii_lowercase a = to_ascii_lowercase b"

lemma to_ascii_lower_idem [simp]: "to_ascii_lower (to_ascii_lower c) = to_ascii_lower c"
  by (simp add: to_ascii_lower_def)

lemma to_ascii_lower_iff:
  "c \<notin> {65..90} \<Longrightarrow> c \<notin> {97..122} \<Longrightarrow> to_ascii_lower d = c \<longleftrightarrow> d = c"
  by (auto simp: to_ascii_lower_def)

lemma is_whitespace_lower [simp]: "is_whitespace (to_ascii_lower c) = is_whitespace c"
  by (auto simp: is_whitespace_def to_ascii_lower_def)

section \<open>Trimming\<close>

definition trim_start :: "rstr \<Rightarrow> rstr" where
  "trim_start s = dropWhile is_whitespace s"

definition trim_end :: "rstr \<Rightarrow> rstr" where
  "trim_end s = rev (dropWhile is_whitespace (rev s))"

definition trim :: "rstr \<Rightarrow> rstr" where
  "trim s = trim_end (trim_start s)"

text \<open>\<open>str::trim_end_matches(c)\<close> and \<open>str::trim_matches(c)\<close> for one character.\<close>

definition trim_end_matches :: "rchar \<Rightarrow> rstr \<Rightarrow> rstr" where
  "trim_end_matches c s = rev (dropWhile ((=) c) (rev s))"

definition trim_matches :: "rchar \<Rightarrow> rstr \<Rightarrow> rstr" where
  "trim_matches c s = trim_end_matches c (dropWhile ((=) c) s)"

lemma trim_end_Nil [simp]: "trim_end [] = []"
  and trim_start_Nil [simp]: "trim_start [] = []"
  and trim_Nil [simp]: "trim [] = []"
  by (simp_all add: trim_end_def trim_start_def trim_def)

lemma trim_end_id: "s = [] \<or> \<not> is_whitespace (last s) \<Longrightarrow> trim_end s = s"
  by (cases s rule: rev_cases) (auto simp: trim_end_def)

lemma trim_start_id: "s = [] \<or> \<not> is_whitespace (hd s) \<Longrightarrow> trim_start s = s"
  by (cases s) (auto simp: trim_start_def)

lemma trim_end_prefix: "\<exists>w. s = trim_end s @ w \<and> (\<forall>c \<in> set w. is_whitespace c)"
proof -
  have "rev s = takeWhile is_whitespace (rev s) @ dropWhile is_whitespace (rev s)"
    by simp
  then have "s = trim_end s @ rev (takeWhile is_whitespace (rev s))"
    by (metis trim_end_def rev_append rev_rev_ident)
  moreover have "\<forall>c \<in> set (rev (takeWhile is_whitespace (rev s))). is_whitespace c"
    by (auto dest: set_takeWhileD)
  ultimately show ?thesis by blast
qed

lemma trim_end_snoc_ws [simp]: "is_whitespace c \<Longrightarrow> trim_end (s @ [c]) = trim_end s"
  by (simp add: trim_end_def)

lemma last_trim_end: "trim_end s \<noteq> [] \<Longrightarrow> \<not> is_whitespace (last (trim_end s))"
  using hd_dropWhile [of is_whitespace "rev s"]
  by (auto simp: trim_end_def last_rev simp del: dropWhile_eq_Nil_conv)

lemma trim_end_idem [simp]: "trim_end (trim_end s) = trim_end s"
  by (rule trim_end_id) (use last_trim_end in blast)

lemma trim_id: "s = [] \<or> \<not> is_whitespace (hd s) \<and> \<not> is_whitespace (last s) \<Longrightarrow> trim s = s"
  by (auto simp: trim_def trim_start_id trim_end_id)

lemma hd_trim_end: "trim_end s \<noteq> [] \<Longrightarrow> hd (trim_end s) = hd s"
  by (metis trim_end_prefix hd_append2)

lemma trim_end_Cons_nonws:
  "\<not> is_whitespace c \<Longrightarrow> trim_end (c # s) = c # trim_end s"
proof -
  assume c: "\<not> is_whitespace c"
  have "dropWhile is_whitespace (rev s @ [c]) = dropWhile is_whitespace (rev s) @ [c]"
    using c by (cases "\<forall>x \<in> set (rev s). is_whitespace x")
      (auto simp: dropWhile_append dropWhile_eq_Nil_conv [THEN iffD2])
  then show ?thesis by (simp add: trim_end_def)
qed

section \<open>Prefixes, suffixes and searching\<close>

fun strip_prefix :: "'a list \<Rightarrow> 'a list \<Rightarrow> 'a list option" where
  "strip_prefix [] s = Some s"
| "strip_prefix (p # ps) [] = None"
| "strip_prefix (p # ps) (x # xs) = (if p = x then strip_prefix ps xs else None)"

lemma strip_prefix_Some [rust_str]: "strip_prefix p s = Some r \<longleftrightarrow> s = p @ r"
  by (induction p s rule: strip_prefix.induct) auto

lemma strip_prefix_append [simp]: "strip_prefix p (p @ r) = Some r"
  by (simp add: strip_prefix_Some)

lemma strip_prefix_None: "strip_prefix p s = None \<longleftrightarrow> \<not> prefix p s"
  by (induction p s rule: strip_prefix.induct) auto

definition starts_with :: "'a list \<Rightarrow> 'a list \<Rightarrow> bool" where
  "starts_with s p \<longleftrightarrow> strip_prefix p s \<noteq> None"

lemma starts_with_prefix [rust_str]: "starts_with s p \<longleftrightarrow> prefix p s"
  by (simp add: starts_with_def strip_prefix_None)

definition strip_suffix :: "'a list \<Rightarrow> 'a list \<Rightarrow> 'a list option" where
  "strip_suffix p s = map_option rev (strip_prefix (rev p) (rev s))"

lemma strip_suffix_Some [rust_str]: "strip_suffix p s = Some r \<longleftrightarrow> s = r @ p"
  by (auto simp: strip_suffix_def strip_prefix_Some) (metis rev_append rev_rev_ident)+

definition ends_with :: "'a list \<Rightarrow> 'a list \<Rightarrow> bool" where
  "ends_with s p \<longleftrightarrow> strip_suffix p s \<noteq> None"

lemma ends_with_suffix [rust_str]: "ends_with s p \<longleftrightarrow> suffix p s"
  by (auto simp: ends_with_def suffix_def strip_suffix_Some)

text \<open>\<open>str::find\<close>: the least position of an occurrence.\<close>

fun find_sub :: "'a list \<Rightarrow> 'a list \<Rightarrow> nat option" where
  "find_sub p [] = (if p = [] then Some 0 else None)"
| "find_sub p (x # xs) =
     (if starts_with (x # xs) p then Some 0 else map_option Suc (find_sub p xs))"

definition contains :: "'a list \<Rightarrow> 'a list \<Rightarrow> bool" where
  "contains s p \<longleftrightarrow> find_sub p s \<noteq> None"

lemma find_sub_SomeD:
  "find_sub p s = Some i \<Longrightarrow>
     i + length p \<le> length s \<and> prefix p (drop i s) \<and> (\<forall>j < i. \<not> prefix p (drop j s))"
proof (induction s arbitrary: i)
  case Nil
  then show ?case by (simp split: if_splits)
next
  case (Cons x xs)
  show ?case
  proof (cases "prefix p (x # xs)")
    case True
    with Cons.prems show ?thesis
      by (auto simp: starts_with_prefix dest: prefix_length_le)
  next
    case False
    with Cons.prems obtain k where k: "find_sub p xs = Some k" "i = Suc k"
      by (auto simp: starts_with_prefix)
    from Cons.IH [OF k(1)] False k(2) show ?thesis
      by (auto simp: less_Suc_eq_0_disj)
  qed
qed

lemma find_sub_None:
  "find_sub p s = None \<longleftrightarrow> (\<forall>j \<le> length s. \<not> prefix p (drop j s))"
proof (induction s)
  case Nil
  then show ?case by simp
next
  case (Cons x xs)
  have "(\<forall>j \<le> length (x # xs). \<not> prefix p (drop j (x # xs))) \<longleftrightarrow>
      \<not> prefix p (x # xs) \<and> (\<forall>j \<le> length xs. \<not> prefix p (drop j xs))"
    by (auto simp: le_Suc_eq less_Suc_eq_0_disj le_eq_less_or_eq drop_Cons split: nat.splits)
  with Cons.IH show ?case by (auto simp: starts_with_prefix)
qed

lemma find_sub_SomeI:
  assumes "prefix p (drop i s)" and "\<forall>j < i. \<not> prefix p (drop j s)" and "i \<le> length s"
  shows "find_sub p s = Some i"
proof (cases "find_sub p s")
  case None
  with assms show ?thesis by (auto simp: find_sub_None)
next
  case (Some k)
  from find_sub_SomeD [OF this] assms have "k = i" by (meson linorder_neqE_nat)
  with Some show ?thesis by simp
qed

section \<open>Splitting and joining\<close>

fun split_on :: "'a \<Rightarrow> 'a list \<Rightarrow> 'a list list" where
  "split_on c [] = [[]]"
| "split_on c (x # xs) =
     (if x = c then [] # split_on c xs
      else (case split_on c xs of [] \<Rightarrow> [[x]] | y # ys \<Rightarrow> (x # y) # ys))"

text \<open>\<open>str::split_once\<close> and \<open>str::rsplit_once\<close> for one character.\<close>

definition split_once :: "rchar \<Rightarrow> rstr \<Rightarrow> (rstr \<times> rstr) option" where
  "split_once c s =
     (if c \<in> set s then Some (takeWhile (\<lambda>x. x \<noteq> c) s, tl (dropWhile (\<lambda>x. x \<noteq> c) s)) else None)"

definition rsplit_once :: "rchar \<Rightarrow> rstr \<Rightarrow> (rstr \<times> rstr) option" where
  "rsplit_once c s =
     (if c \<in> set s
      then Some (rev (tl (dropWhile (\<lambda>x. x \<noteq> c) (rev s))), rev (takeWhile (\<lambda>x. x \<noteq> c) (rev s)))
      else None)"

lemma split_once_sep: "c \<notin> set a \<Longrightarrow> split_once c (a @ c # b) = Some (a, b)"
  by (auto simp: split_once_def takeWhile_append dropWhile_append)

lemma split_once_none: "c \<notin> set a \<Longrightarrow> split_once c a = None"
  by (simp add: split_once_def)

fun join_with :: "'a list \<Rightarrow> 'a list list \<Rightarrow> 'a list" where
  "join_with sep [] = []"
| "join_with sep [x] = x"
| "join_with sep (x # y # ys) = x @ sep @ join_with sep (y # ys)"

lemma split_on_not_Nil [simp]: "split_on c s \<noteq> []"
  by (induction s) (auto split: list.splits)

lemma join_with_Cons: "ys \<noteq> [] \<Longrightarrow> join_with sep (x # ys) = x @ sep @ join_with sep ys"
  by (cases ys) auto

lemma join_split_on [simp]: "join_with [c] (split_on c s) = s"
proof (induction s)
  case Nil
  then show ?case by simp
next
  case (Cons x xs)
  obtain y ys where yys: "split_on c xs = y # ys"
    by (metis split_on_not_Nil neq_Nil_conv)
  with Cons.IH show ?case
    by (cases ys) (auto simp: join_with_Cons)
qed

lemma split_on_append_sep:
  "c \<notin> set x \<Longrightarrow> split_on c (x @ c # s) = x # split_on c s"
  by (induction x) auto

lemma split_on_no_sep: "c \<notin> set x \<Longrightarrow> split_on c x = [x]"
  by (induction x) auto

lemma split_on_join:
  "xs \<noteq> [] \<Longrightarrow> \<forall>x \<in> set xs. c \<notin> set x \<Longrightarrow> split_on c (join_with [c] xs) = xs"
proof (induction xs rule: induct_list012)
  case 1
  then show ?case by simp
next
  case (2 x)
  then show ?case by (simp add: split_on_no_sep)
next
  case (3 x y zs)
  then show ?case by (simp add: split_on_append_sep)
qed

text \<open>
  \<open>str::lines\<close>: the pieces of \<open>split_inclusive('\n')\<close>, each without its final
  \<open>\n\<close> or \<open>\r\n\<close>. A last piece with no \<open>\n\<close> keeps a final \<open>\r\<close>.
\<close>

fun split_inclusive_nl :: "rstr \<Rightarrow> rstr list" where
  "split_inclusive_nl [] = []"
| "split_inclusive_nl (x # xs) =
     (if x = chr_nl then [x] # split_inclusive_nl xs
      else (case split_inclusive_nl xs of [] \<Rightarrow> [[x]] | y # ys \<Rightarrow> (x # y) # ys))"

definition strip_line_ending :: "rstr \<Rightarrow> rstr" where
  "strip_line_ending l =
     (case strip_suffix [chr_nl] l of
        None \<Rightarrow> l
      | Some l1 \<Rightarrow> (case strip_suffix [chr_cr] l1 of None \<Rightarrow> l1 | Some l2 \<Rightarrow> l2))"

definition str_lines :: "rstr \<Rightarrow> rstr list" where
  "str_lines s = map strip_line_ending (split_inclusive_nl s)"

lemma split_inclusive_nl_append:
  "chr_nl \<notin> set x \<Longrightarrow>
     split_inclusive_nl (x @ chr_nl # s) = (x @ [chr_nl]) # split_inclusive_nl s"
  by (induction x) auto

lemma split_inclusive_nl_last:
  "chr_nl \<notin> set x \<Longrightarrow> split_inclusive_nl x = (if x = [] then [] else [x])"
  by (induction x) auto

lemma strip_line_ending_nl:
  "x = [] \<or> last x \<noteq> chr_cr \<Longrightarrow> strip_line_ending (x @ [chr_nl]) = x"
proof -
  assume x: "x = [] \<or> last x \<noteq> chr_cr"
  have 1: "strip_suffix [chr_nl] (x @ [chr_nl]) = Some x"
    by (simp add: strip_suffix_Some)
  have "strip_suffix [chr_cr] x = None"
    using x by (cases x rule: rev_cases) (simp_all add: strip_suffix_def)
  with 1 show ?thesis by (simp add: strip_line_ending_def)
qed

lemma strip_line_ending_no_nl: "chr_nl \<notin> set x \<Longrightarrow> strip_line_ending x = x"
  by (cases "strip_suffix [chr_nl] x") (auto simp: strip_line_ending_def strip_suffix_Some)

lemma str_lines_join:
  assumes "xs \<noteq> []" and "\<forall>x \<in> set xs. chr_nl \<notin> set x"
    and "\<forall>x \<in> set (butlast xs). x = [] \<or> last x \<noteq> chr_cr" and "last xs \<noteq> []"
  shows "str_lines (join_with [chr_nl] xs) = xs"
  using assms
proof (induction xs rule: induct_list012)
  case 1
  then show ?case by simp
next
  case (2 x)
  then show ?case
    by (simp add: str_lines_def split_inclusive_nl_last strip_line_ending_no_nl)
next
  case (3 x y zs)
  from 3 have "str_lines (join_with [chr_nl] (y # zs)) = y # zs" by simp
  moreover from 3 have "strip_line_ending (x @ [chr_nl]) = x"
    by (intro strip_line_ending_nl) auto
  ultimately show ?case
    using 3 by (simp add: str_lines_def split_inclusive_nl_append)
qed

text \<open>Decimal digits, as \<open>Display\<close> prints an unsigned integer.\<close>

fun show_nat :: "nat \<Rightarrow> rstr" where
  "show_nat n = (if n < 10 then [48 + n] else show_nat (n div 10) @ [48 + n mod 10])"

declare show_nat.simps [simp del]

section \<open>Lists\<close>

text \<open>\<open>slice::last\<close> and in-place change of the last element (\<open>last_mut\<close>).\<close>

definition last_opt :: "'a list \<Rightarrow> 'a option" where
  "last_opt xs = (if xs = [] then None else Some (last xs))"

definition set_last :: "'a list \<Rightarrow> 'a \<Rightarrow> 'a list" where
  "set_last xs y = (if xs = [] then [] else butlast xs @ [y])"

lemma last_opt_Nil [simp]: "last_opt [] = None"
  and last_opt_snoc [simp]: "last_opt (xs @ [x]) = Some x"
  by (simp_all add: last_opt_def)

lemma last_opt_single [simp]: "last_opt [x] = Some x"
  by (simp add: last_opt_def)

lemma last_opt_None [simp]: "last_opt xs = None \<longleftrightarrow> xs = []"
  by (simp add: last_opt_def)

lemma last_opt_Some: "last_opt xs = Some x \<longleftrightarrow> (\<exists>ys. xs = ys @ [x])"
  by (cases xs rule: rev_cases) auto

lemma set_last_snoc [simp]: "set_last (xs @ [x]) y = xs @ [y]"
  by (simp add: set_last_def)

lemma set_last_single [simp]: "set_last [x] y = [y]"
  by (simp add: set_last_def)

lemma length_set_last [simp]: "length (set_last xs y) = length xs"
  by (cases xs rule: rev_cases) (auto simp: set_last_def)

text \<open>\<open>str::len\<close> counts the bytes of the UTF-8 encoding.\<close>

definition char_len_utf8 :: "rchar \<Rightarrow> nat" where
  "char_len_utf8 c = (if c < 128 then 1 else if c < 2048 then 2 else if c < 65536 then 3 else 4)"

definition len_utf8 :: "rstr \<Rightarrow> nat" where
  "len_utf8 s = sum_list (map char_len_utf8 s)"

lemma char_len_utf8_pos [simp]: "0 < char_len_utf8 c"
  by (simp add: char_len_utf8_def)

lemma len_utf8_simps [simp]:
  "len_utf8 [] = 0" "len_utf8 (c # s) = char_len_utf8 c + len_utf8 s"
  "len_utf8 (s @ t) = len_utf8 s + len_utf8 t"
  by (simp_all add: len_utf8_def)

lemma len_utf8_eq_0 [simp]: "len_utf8 s = 0 \<longleftrightarrow> s = []"
  by (cases s) (simp_all add: char_len_utf8_def)

lemma length_le_len_utf8: "length s \<le> len_utf8 s"
  by (induction s) (auto simp: char_len_utf8_def)

lemma in_map_filter: "x \<in> set (List.map_filter f xs) \<longleftrightarrow> (\<exists>y \<in> set xs. f y = Some x)"
  by (force simp: List.map_filter_def)

lemma strict_sorted_remdups_adj:
  fixes xs :: "'a::linorder list"
  shows "sorted xs \<Longrightarrow> sorted_wrt (<) (remdups_adj xs)"
  by (induction xs rule: remdups_adj.induct) (auto simp: order.strict_iff_order)

section \<open>I/O errors\<close>

text \<open>The I/O errors of \<open>std::io\<close>: the kinds the code distinguishes, and a message.\<close>

datatype io_kind = NotFound | InvalidInput | AlreadyExists | OtherKind

record io_error =
  io_kind_of :: io_kind
  io_message :: rstr


section \<open>Machine integers\<close>

text \<open>\<open>usize\<close> on a 64-bit target, and the saturating operations on it.\<close>

definition usize_max :: nat where
  "usize_max = 18446744073709551615"

definition sat_add :: "nat \<Rightarrow> nat \<Rightarrow> nat" where
  "sat_add a b = min (a + b) usize_max"

definition sat_mul :: "nat \<Rightarrow> nat \<Rightarrow> nat" where
  "sat_mul a b = min (a * b) usize_max"

lemma sat_add_min [simp]:
  "sat_add (min a usize_max) b = min (a + b) usize_max"
  "sat_add a (min b usize_max) = min (a + b) usize_max"
  by (auto simp: sat_add_def min_def)

end
