(* ===== verification/Patch_Hunks.thy ===== *)
theory Patch_Hunks
  imports Prelude
begin

text \<open>
  The data of the apply-patch language, from \<open>apply-patch/src/parser.rs\<close>: the
  markers, the hunks and their chunks, the parse errors, and the invariant of a
  chunk that the file-update code relies on (its context-line indices pair the
  same lines of both sides in increasing order).
\<close>

section \<open>Markers\<close>

definition BEGIN_PATCH_MARKER :: rstr where
  "BEGIN_PATCH_MARKER = lit ''*** Begin Patch''"

definition END_PATCH_MARKER :: rstr where
  "END_PATCH_MARKER = lit ''*** End Patch''"

definition ADD_FILE_MARKER :: rstr where
  "ADD_FILE_MARKER = lit ''*** Add File: ''"

definition DELETE_FILE_MARKER :: rstr where
  "DELETE_FILE_MARKER = lit ''*** Delete File: ''"

definition UPDATE_FILE_MARKER :: rstr where
  "UPDATE_FILE_MARKER = lit ''*** Update File: ''"

definition MOVE_TO_MARKER :: rstr where
  "MOVE_TO_MARKER = lit ''*** Move to: ''"

definition EOF_MARKER :: rstr where
  "EOF_MARKER = lit ''*** End of File''"

definition CHANGE_CONTEXT_MARKER :: rstr where
  "CHANGE_CONTEXT_MARKER = lit ''@@ ''"

definition EMPTY_CHANGE_CONTEXT_MARKER :: rstr where
  "EMPTY_CHANGE_CONTEXT_MARKER = lit ''@@''"

definition ENVIRONMENT_ID_MARKER :: rstr where
  "ENVIRONMENT_ID_MARKER = lit ''*** Environment ID:''"

lemmas marker_defs =
  BEGIN_PATCH_MARKER_def END_PATCH_MARKER_def ADD_FILE_MARKER_def DELETE_FILE_MARKER_def
  UPDATE_FILE_MARKER_def MOVE_TO_MARKER_def EOF_MARKER_def CHANGE_CONTEXT_MARKER_def
  EMPTY_CHANGE_CONTEXT_MARKER_def ENVIRONMENT_ID_MARKER_def

section \<open>Hunks and errors\<close>

datatype ParseError =
    InvalidPatchError rstr
  | InvalidHunkError rstr nat

record update_file_chunk =
  change_context :: "rstr option"
  old_lines :: "rstr list"
  new_lines :: "rstr list"
  context_line_indices :: "(nat \<times> nat) list"
  is_end_of_file :: bool

datatype Hunk =
    AddFile rstr rstr
  | DeleteFile rstr
  | UpdateFile rstr "rstr option" "update_file_chunk list"

fun hunk_path :: "Hunk \<Rightarrow> rstr" where
  "hunk_path (AddFile path contents) = path"
| "hunk_path (DeleteFile path) = path"
| "hunk_path (UpdateFile path (Some dest) chunks) = dest"
| "hunk_path (UpdateFile path None chunks) = path"

text \<open>
  The path a hunk is resolved from (\<open>Hunk::resolve_path\<close> before \<open>cwd.join\<close>): the
  source of a rename, unlike \<open>hunk_path\<close>.
\<close>

fun hunk_source_path :: "Hunk \<Rightarrow> rstr" where
  "hunk_source_path (UpdateFile path move_path chunks) = path"
| "hunk_source_path (AddFile path contents) = hunk_path (AddFile path contents)"
| "hunk_source_path (DeleteFile path) = hunk_path (DeleteFile path)"

definition default_chunk :: update_file_chunk where
  "default_chunk =
     \<lparr>change_context = None, old_lines = [], new_lines = [],
      context_line_indices = [], is_end_of_file = False\<rparr>"

definition push_context_line :: "update_file_chunk \<Rightarrow> rstr \<Rightarrow> update_file_chunk" where
  "push_context_line ch line =
     ch\<lparr>context_line_indices :=
          context_line_indices ch @ [(length (old_lines ch), length (new_lines ch))],
        old_lines := old_lines ch @ [line],
        new_lines := new_lines ch @ [line]\<rparr>"

definition push_new_line :: "update_file_chunk \<Rightarrow> rstr \<Rightarrow> update_file_chunk" where
  "push_new_line ch line = ch\<lparr>new_lines := new_lines ch @ [line]\<rparr>"

definition push_old_line :: "update_file_chunk \<Rightarrow> rstr \<Rightarrow> update_file_chunk" where
  "push_old_line ch line = ch\<lparr>old_lines := old_lines ch @ [line]\<rparr>"

section \<open>The chunk invariant\<close>

text \<open>A chunk with no line on either side: it says nothing to change or to find.\<close>

definition chunk_empty :: "update_file_chunk \<Rightarrow> bool" where
  "chunk_empty ch \<longleftrightarrow> old_lines ch = [] \<and> new_lines ch = []"

text \<open>
  The index pairs are strictly increasing in both components from a lower bound
  (the first unpaired line of each side) and stay within both sides.
\<close>

fun index_pairs_ok :: "nat \<Rightarrow> nat \<Rightarrow> (nat \<times> nat) list \<Rightarrow> nat \<Rightarrow> nat \<Rightarrow> bool" where
  "index_pairs_ok i j [] m n \<longleftrightarrow> i \<le> m \<and> j \<le> n"
| "index_pairs_ok i j ((a, b) # ps) m n \<longleftrightarrow>
     i \<le> a \<and> j \<le> b \<and> a < m \<and> b < n \<and> index_pairs_ok (Suc a) (Suc b) ps m n"

definition chunk_ok :: "update_file_chunk \<Rightarrow> bool" where
  "chunk_ok ch \<longleftrightarrow>
     index_pairs_ok 0 0 (context_line_indices ch) (length (old_lines ch)) (length (new_lines ch)) \<and>
     (\<forall>(a, b) \<in> set (context_line_indices ch). old_lines ch ! a = new_lines ch ! b)"

lemma index_pairs_ok_mono:
  "index_pairs_ok i j ps m n \<Longrightarrow> m \<le> m' \<Longrightarrow> n \<le> n' \<Longrightarrow> index_pairs_ok i j ps m' n'"
  by (induction i j ps m n rule: index_pairs_ok.induct) auto

lemma index_pairs_ok_snoc:
  "index_pairs_ok i j ps m n \<Longrightarrow> index_pairs_ok i j (ps @ [(m, n)]) (Suc m) (Suc n)"
  by (induction i j ps m n rule: index_pairs_ok.induct) auto

lemma index_pairs_ok_bounds:
  "index_pairs_ok i j ps m n \<Longrightarrow> (a, b) \<in> set ps \<Longrightarrow> a < m \<and> b < n"
  by (induction i j ps m n rule: index_pairs_ok.induct) auto

lemma index_pairs_ok_le: "index_pairs_ok i j ps m n \<Longrightarrow> i \<le> m \<and> j \<le> n"
  by (induction i j ps m n rule: index_pairs_ok.induct) auto

lemma chunk_ok_default [simp]: "chunk_ok default_chunk"
  by (simp add: chunk_ok_def default_chunk_def)

lemma chunk_ok_context [simp]: "chunk_ok (default_chunk\<lparr>change_context := c\<rparr>)"
  by (simp add: chunk_ok_def default_chunk_def)

lemma chunk_ok_eof [simp]: "chunk_ok (ch\<lparr>is_end_of_file := b\<rparr>) = chunk_ok ch"
  by (simp add: chunk_ok_def)

lemma chunk_ok_push_new [simp]: "chunk_ok ch \<Longrightarrow> chunk_ok (push_new_line ch l)"
  by (auto simp: chunk_ok_def push_new_line_def nth_append
      dest: index_pairs_ok_bounds elim!: index_pairs_ok_mono)

lemma chunk_ok_push_old [simp]: "chunk_ok ch \<Longrightarrow> chunk_ok (push_old_line ch l)"
  by (auto simp: chunk_ok_def push_old_line_def nth_append
      dest: index_pairs_ok_bounds elim!: index_pairs_ok_mono)

lemma chunk_ok_push_context [simp]: "chunk_ok ch \<Longrightarrow> chunk_ok (push_context_line ch l)"
  by (auto simp: chunk_ok_def push_context_line_def nth_append index_pairs_ok_snoc
      dest: index_pairs_ok_bounds)

lemma chunk_empty_simps [simp]:
  "chunk_empty default_chunk" "chunk_empty (ch\<lparr>change_context := c\<rparr>) = chunk_empty ch"
  "chunk_empty (ch\<lparr>is_end_of_file := b\<rparr>) = chunk_empty ch"
  "\<not> chunk_empty (push_new_line ch l)" "\<not> chunk_empty (push_old_line ch l)"
  "\<not> chunk_empty (push_context_line ch l)"
  by (simp_all add: chunk_empty_def default_chunk_def push_new_line_def push_old_line_def
      push_context_line_def)

text \<open>
  What the consumers of a parsed patch may assume of a hunk: an update has chunks,
  each chunk names at least one line, and its context indices are sound.
\<close>

fun hunk_ok :: "Hunk \<Rightarrow> bool" where
  "hunk_ok (UpdateFile path move_path chunks) \<longleftrightarrow>
     chunks \<noteq> [] \<and> (\<forall>ch \<in> set chunks. chunk_ok ch \<and> \<not> chunk_empty ch)"
| "hunk_ok _ \<longleftrightarrow> True"

end
