(* ===== verification/Streaming_Parser.thy ===== *)
theory Streaming_Parser
  imports Patch_Hunks
begin

text \<open>
  The line-driven state machine of \<open>apply-patch/src/streaming_parser.rs\<close>.

  \<open>process_line\<close> either fails and leaves the parser as it was, or returns the next
  parser (the Rust code mutates \<open>self\<close> only on the branches that return \<open>Ok\<close>), so it
  is a sum. \<open>push_delta\<close> and \<open>finish\<close> consume the line buffer and count the line
  before they can fail, so they return the result beside the parser they leave.
\<close>

section \<open>State\<close>

datatype StreamingParserMode =
    NotStarted
  | StartedPatch
  | ModeAddFile
  | ModeDeleteFile
  | ModeUpdateFile nat
  | EndedPatch

record streaming_patch_parser =
  line_buffer :: rstr
  mode :: StreamingParserMode
  hunks :: "Hunk list"
  environment_id :: "rstr option"
  line_number :: nat

definition default_parser :: streaming_patch_parser where
  "default_parser =
     \<lparr>line_buffer = [], mode = NotStarted, hunks = [], environment_id = None, line_number = 0\<rparr>"

section \<open>Messages\<close>

text \<open>\<open>[39]\<close> is the apostrophe that a literal cannot end or start with.\<close>

definition msg_first_line :: rstr where
  "msg_first_line = lit ''The first line of the patch must be '*** Begin Patch'' @ [39]"

definition msg_last_line :: rstr where
  "msg_last_line = lit ''The last line of the patch must be '*** End Patch'' @ [39]"

definition msg_no_lines :: rstr where
  "msg_no_lines = lit ''Update hunk does not contain any lines''"

definition msg_unexpected_line :: "rstr \<Rightarrow> rstr" where
  "msg_unexpected_line line =
     lit ''Unexpected line found in update hunk: '' @ [39] @ line @ [39] @
     lit ''. Every line should start with ' ' (context line), '+' (added line), or '-' (removed line)''"

definition msg_expected_context :: "rstr \<Rightarrow> rstr" where
  "msg_expected_context line =
     lit ''Expected update hunk to start with a @@ context marker, got: '' @ [39] @ line @ [39]"

definition msg_empty_update :: "rstr \<Rightarrow> rstr" where
  "msg_empty_update path =
     lit ''Update file hunk for path '' @ [39] @ path @ [39] @ lit '' is empty''"

definition msg_bad_header :: "rstr \<Rightarrow> rstr" where
  "msg_bad_header trimmed =
     [39] @ trimmed @ [39] @
     lit '' is not a valid hunk header. Valid hunk headers: '*** Add File: {path}', '*** Delete File: {path}', '*** Update File: {path}'' @ [39]"

definition msg_env_twice :: rstr where
  "msg_env_twice = lit ''apply_patch environment_id cannot be specified more than once''"

definition msg_env_empty :: rstr where
  "msg_env_empty = lit ''apply_patch environment_id cannot be empty''"

section \<open>Headers\<close>

definition ensure_update_hunk_is_not_empty ::
    "streaming_patch_parser \<Rightarrow> rstr \<Rightarrow> ParseError + unit" where
  "ensure_update_hunk_is_not_empty p line =
     (case last_opt (hunks p) of
        Some (UpdateFile path move_path chunks) \<Rightarrow>
          (case (chunks, mode p) of
             ([], ModeUpdateFile hunk_line_number) \<Rightarrow>
               Err (InvalidHunkError (msg_empty_update path) hunk_line_number)
           | _ \<Rightarrow>
               (case last_opt chunks of
                  Some chunk \<Rightarrow>
                    if old_lines chunk = [] \<and> new_lines chunk = [] then
                      if line = END_PATCH_MARKER
                      then Err (InvalidHunkError msg_no_lines (line_number p))
                      else Err (InvalidHunkError (msg_unexpected_line line) (line_number p))
                    else Ok ()
                | None \<Rightarrow> Ok ()))
      | _ \<Rightarrow> Ok ())"

text \<open>The four headers that close the previous hunk share the emptiness check.\<close>

definition after_ensure ::
    "streaming_patch_parser \<Rightarrow> rstr \<Rightarrow> streaming_patch_parser \<Rightarrow>
       ParseError + (bool \<times> streaming_patch_parser)" where
  "after_ensure p trimmed q =
     (case ensure_update_hunk_is_not_empty p trimmed of
        Inl e \<Rightarrow> Err e
      | Inr _ \<Rightarrow> Ok (True, q))"

definition handle_hunk_headers_and_end_patch ::
    "streaming_patch_parser \<Rightarrow> rstr \<Rightarrow> ParseError + (bool \<times> streaming_patch_parser)" where
  "handle_hunk_headers_and_end_patch p trimmed =
     (case (if mode p = StartedPatch then strip_prefix ENVIRONMENT_ID_MARKER trimmed else None) of
        Some env \<Rightarrow>
          if environment_id p \<noteq> None then Err (InvalidPatchError msg_env_twice)
          else if trim env = [] then Err (InvalidPatchError msg_env_empty)
          else Ok (True, p\<lparr>environment_id := Some (trim env)\<rparr>)
      | None \<Rightarrow>
          if trimmed = END_PATCH_MARKER then
            after_ensure p trimmed (p\<lparr>mode := EndedPatch\<rparr>)
          else
            (case strip_prefix ADD_FILE_MARKER trimmed of
               Some path \<Rightarrow>
                 after_ensure p trimmed
                   (p\<lparr>hunks := hunks p @ [AddFile path []], mode := ModeAddFile\<rparr>)
             | None \<Rightarrow>
                 (case strip_prefix DELETE_FILE_MARKER trimmed of
                    Some path \<Rightarrow>
                      after_ensure p trimmed
                        (p\<lparr>hunks := hunks p @ [DeleteFile path], mode := ModeDeleteFile\<rparr>)
                  | None \<Rightarrow>
                      (case strip_prefix UPDATE_FILE_MARKER trimmed of
                         Some path \<Rightarrow>
                           after_ensure p trimmed
                             (p\<lparr>hunks := hunks p @ [UpdateFile path None []],
                                mode := ModeUpdateFile (line_number p)\<rparr>)
                       | None \<Rightarrow> Ok (False, p)))))"

section \<open>Lines of an update hunk\<close>

text \<open>\<open>if chunks.is_empty() { push default }\<close>, then a change of \<open>chunks.last_mut()\<close>.\<close>

definition edit_last_chunk ::
    "(update_file_chunk \<Rightarrow> update_file_chunk) \<Rightarrow> update_file_chunk list \<Rightarrow> update_file_chunk list"
where
  "edit_last_chunk f chunks =
     (let cs = (if chunks = [] then [default_chunk] else chunks) in set_last cs (f (last cs)))"

definition last_chunk_empty :: "update_file_chunk list \<Rightarrow> bool" where
  "last_chunk_empty chunks \<longleftrightarrow>
     (case last_opt chunks of
        Some chunk \<Rightarrow> old_lines chunk = [] \<and> new_lines chunk = []
      | None \<Rightarrow> False)"

definition last_chunk_eof :: "update_file_chunk list \<Rightarrow> bool" where
  "last_chunk_eof chunks \<longleftrightarrow>
     (case last_opt chunks of Some chunk \<Rightarrow> is_end_of_file chunk | None \<Rightarrow> False)"

text \<open>
  One line inside \<open>UpdateFile { move_path, chunks }\<close>, the last hunk, after the header
  test: the new \<open>move_path\<close> and \<open>chunks\<close>, or the error. \<open>n\<close> is \<open>self.line_number\<close>.
\<close>

definition update_hunk_line ::
    "nat \<Rightarrow> rstr \<Rightarrow> rstr option \<Rightarrow> update_file_chunk list \<Rightarrow>
       ParseError + (rstr option \<times> update_file_chunk list)" where
  "update_hunk_line n line move_path chunks =
     (let update_line = trim_end line;
          is_context = (update_line = EMPTY_CHANGE_CONTEXT_MARKER \<or>
                        starts_with update_line CHANGE_CONTEXT_MARKER) in
      if last_chunk_eof chunks \<and> update_line = [] then Ok (move_path, chunks)
      else if last_chunk_eof chunks \<and> \<not> is_context then
        Err (InvalidHunkError (msg_expected_context line) n)
      else if chunks = [] \<and> move_path = None \<and> starts_with update_line MOVE_TO_MARKER then
        Ok (strip_prefix MOVE_TO_MARKER update_line, chunks)
      else if is_context \<and> last_chunk_empty chunks then
        Err (InvalidHunkError (msg_unexpected_line line) n)
      else if update_line = EMPTY_CHANGE_CONTEXT_MARKER then
        Ok (move_path, chunks @ [default_chunk])
      else if starts_with update_line CHANGE_CONTEXT_MARKER then
        Ok (move_path,
            chunks @ [default_chunk\<lparr>change_context :=
                        strip_prefix CHANGE_CONTEXT_MARKER update_line\<rparr>])
      else if update_line = EOF_MARKER then
        if last_chunk_empty chunks then Err (InvalidHunkError msg_no_lines n)
        else Ok (move_path,
                 if chunks = [] then []
                 else set_last chunks ((last chunks)\<lparr>is_end_of_file := True\<rparr>))
      else
        (case line of
           [] \<Rightarrow> Ok (move_path, edit_last_chunk (\<lambda>ch. push_context_line ch []) chunks)
         | c # rest \<Rightarrow>
             if c = 32 then
               Ok (move_path, edit_last_chunk (\<lambda>ch. push_context_line ch rest) chunks)
             else if c = 43 then
               Ok (move_path, edit_last_chunk (\<lambda>ch. push_new_line ch rest) chunks)
             else if c = 45 then
               Ok (move_path, edit_last_chunk (\<lambda>ch. push_old_line ch rest) chunks)
             else if chunks \<noteq> [] \<and> \<not> last_chunk_empty chunks then
               Err (InvalidHunkError (msg_expected_context line) n)
             else Err (InvalidHunkError (msg_unexpected_line line) n)))"

section \<open>The step and the public operations\<close>

definition process_line ::
    "streaming_patch_parser \<Rightarrow> rstr \<Rightarrow> ParseError + streaming_patch_parser" where
  "process_line p line =
     (let trimmed = trim line in
      case mode p of
        NotStarted \<Rightarrow>
          if trimmed = BEGIN_PATCH_MARKER then Ok (p\<lparr>mode := StartedPatch\<rparr>)
          else Err (InvalidPatchError msg_first_line)
      | StartedPatch \<Rightarrow>
          (case handle_hunk_headers_and_end_patch p trimmed of
             Inl e \<Rightarrow> Err e
           | Inr (handled, q) \<Rightarrow>
               if handled then Ok q
               else Err (InvalidHunkError (msg_bad_header trimmed) (line_number p)))
      | ModeAddFile \<Rightarrow>
          (case handle_hunk_headers_and_end_patch p trimmed of
             Inl e \<Rightarrow> Err e
           | Inr (handled, q) \<Rightarrow>
               if handled then Ok q
               else
                 (case (strip_prefix [43] line, last_opt (hunks p)) of
                    (Some line_to_add, Some (AddFile path contents)) \<Rightarrow>
                      Ok (p\<lparr>hunks :=
                              set_last (hunks p) (AddFile path (contents @ line_to_add @ [chr_nl]))\<rparr>)
                  | _ \<Rightarrow> Err (InvalidHunkError (msg_bad_header trimmed) (line_number p))))
      | ModeDeleteFile \<Rightarrow>
          (case handle_hunk_headers_and_end_patch p trimmed of
             Inl e \<Rightarrow> Err e
           | Inr (handled, q) \<Rightarrow>
               if handled then Ok q
               else Err (InvalidHunkError (msg_bad_header trimmed) (line_number p)))
      | ModeUpdateFile hunk_line_number \<Rightarrow>
          (case handle_hunk_headers_and_end_patch p (trim_end line) of
             Inl e \<Rightarrow> Err e
           | Inr (handled, q) \<Rightarrow>
               if handled then Ok q
               else
                 (case last_opt (hunks p) of
                    Some (UpdateFile path move_path chunks) \<Rightarrow>
                      (case update_hunk_line (line_number p) line move_path chunks of
                         Inl e \<Rightarrow> Err e
                       | Inr (move_path', chunks') \<Rightarrow>
                           Ok (p\<lparr>hunks := set_last (hunks p) (UpdateFile path move_path' chunks'),
                                 mode := ModeUpdateFile hunk_line_number\<rparr>))
                  | _ \<Rightarrow> Err (InvalidHunkError (msg_unexpected_line line) (line_number p))))
      | EndedPatch \<Rightarrow>
          if trimmed = [] then Ok p else Err (InvalidPatchError msg_last_line))"

text \<open>The line a newline completes: the buffer, without a final carriage return.\<close>

definition complete_line :: "rstr \<Rightarrow> rstr" where
  "complete_line buf = (case strip_suffix [chr_cr] buf of Some l \<Rightarrow> l | None \<Rightarrow> buf)"

definition take_line :: "streaming_patch_parser \<Rightarrow> streaming_patch_parser" where
  "take_line p = p\<lparr>line_buffer := [], line_number := Suc (line_number p)\<rparr>"

fun push_delta ::
    "streaming_patch_parser \<Rightarrow> rstr \<Rightarrow> (ParseError + Hunk list) \<times> streaming_patch_parser" where
  "push_delta p [] = (Ok (hunks p), p)"
| "push_delta p (ch # delta) =
     (if ch = chr_nl then
        (case process_line (take_line p) (complete_line (line_buffer p)) of
           Inl e \<Rightarrow> (Err e, take_line p)
         | Inr q \<Rightarrow> push_delta q delta)
      else push_delta (p\<lparr>line_buffer := line_buffer p @ [ch]\<rparr>) delta)"

definition finish_line ::
    "streaming_patch_parser \<Rightarrow> (ParseError + unit) \<times> streaming_patch_parser" where
  "finish_line p =
     (if line_buffer p \<noteq> [] then
        (let line = line_buffer p; q = take_line p in
         if trim line = END_PATCH_MARKER then
           (case ensure_update_hunk_is_not_empty q (trim line) of
              Inl e \<Rightarrow> (Err e, q)
            | Inr _ \<Rightarrow> (Ok (), q\<lparr>mode := EndedPatch\<rparr>))
         else
           (case process_line q line of
              Inl e \<Rightarrow> (Err e, q)
            | Inr r \<Rightarrow> (Ok (), r)))
      else (Ok (), p))"

definition finish ::
    "streaming_patch_parser \<Rightarrow> (ParseError + Hunk list) \<times> streaming_patch_parser" where
  "finish p =
     (case finish_line p of
        (Inl e, q) \<Rightarrow> (Err e, q)
      | (Inr _, q) \<Rightarrow>
          if mode q \<noteq> EndedPatch then (Err (InvalidPatchError msg_last_line), q)
          else (Ok (hunks q), q))"

section \<open>Chunking of the input\<close>

text \<open>Feeding a text in two deltas is feeding it at once, errors and state included.\<close>

lemma push_delta_append:
  "push_delta p (a @ b) =
     (case push_delta p a of
        (Inl e, q) \<Rightarrow> (Err e, q)
      | (Inr _, q) \<Rightarrow> push_delta q b)"
  by (induction p a rule: push_delta.induct) (auto split: sum.splits)

text \<open>The lines of a text, one \<open>process_line\<close> each, as the reference the deltas refine.\<close>

fun run_lines :: "streaming_patch_parser \<Rightarrow> rstr list \<Rightarrow> ParseError + streaming_patch_parser" where
  "run_lines p [] = Ok p"
| "run_lines p (l # ls) =
     (case process_line (take_line p) l of Inl e \<Rightarrow> Err e | Inr q \<Rightarrow> run_lines q ls)"

lemma run_lines_append:
  "run_lines p (xs @ ys) = (case run_lines p xs of Inl e \<Rightarrow> Err e | Inr q \<Rightarrow> run_lines q ys)"
  by (induction p xs rule: run_lines.induct) (auto split: sum.splits)

lemma handle_headers_frame:
  "handle_hunk_headers_and_end_patch p t = Inr (b, q) \<Longrightarrow>
     line_buffer q = line_buffer p \<and> line_number q = line_number p \<and> (\<not> b \<longrightarrow> q = p)"
  by (auto simp: handle_hunk_headers_and_end_patch_def after_ensure_def
      split: if_splits option.splits sum.splits)

lemma process_line_frame:
  assumes "process_line p l = Inr q"
  shows "line_buffer q = line_buffer p \<and> line_number q = line_number p"
proof (cases "mode p")
  case NotStarted
  with assms show ?thesis by (auto simp: process_line_def Let_def split: if_splits)
next
  case EndedPatch
  with assms show ?thesis by (auto simp: process_line_def Let_def split: if_splits)
qed (use assms in \<open>auto simp: process_line_def Let_def dest: handle_headers_frame
      split: if_splits option.splits sum.splits prod.splits Hunk.splits\<close>)

lemma push_delta_chars:
  "chr_nl \<notin> set s \<Longrightarrow>
     push_delta p (s @ t) = push_delta (p\<lparr>line_buffer := line_buffer p @ s\<rparr>) t"
  by (induction s arbitrary: p) auto

lemma complete_line_id: "l = [] \<or> last l \<noteq> chr_cr \<Longrightarrow> complete_line l = l"
  by (cases l rule: rev_cases) (auto simp: complete_line_def strip_suffix_def)

lemma take_line_buffer [simp]: "take_line (p\<lparr>line_buffer := b\<rparr>) = take_line p"
  and take_line_simps [simp]: "line_buffer (take_line p) = []" "mode (take_line p) = mode p"
    "hunks (take_line p) = hunks p" "environment_id (take_line p) = environment_id p"
    "line_number (take_line p) = Suc (line_number p)"
  by (simp_all add: take_line_def)

lemma push_delta_one_line:
  assumes "line_buffer p = []" and "chr_nl \<notin> set l" and "l = [] \<or> last l \<noteq> chr_cr"
  shows "push_delta p (l @ chr_nl # t) =
     (case process_line (take_line p) l of
        Inl e \<Rightarrow> (Err e, take_line p)
      | Inr q \<Rightarrow> push_delta q t)"
  using assms by (simp add: push_delta_chars complete_line_id split: sum.split)

text \<open>A text of complete lines drives \<open>process_line\<close> once per line.\<close>

lemma push_delta_run_lines:
  assumes "run_lines p ls = Inr q" and "line_buffer p = []"
    and "\<forall>l \<in> set ls. chr_nl \<notin> set l \<and> (l = [] \<or> last l \<noteq> chr_cr)"
  shows "push_delta p (concat (map (\<lambda>l. l @ [chr_nl]) ls) @ t) = push_delta q t \<and> line_buffer q = []"
  using assms
proof (induction p ls rule: run_lines.induct)
  case (1 p)
  then show ?case by simp
next
  case (2 p l ls)
  then obtain r where r: "process_line (take_line p) l = Inr r" "run_lines r ls = Inr q"
    by (auto split: sum.splits)
  then have "line_buffer r = []" using process_line_frame [OF r(1)] by simp
  with 2 r show ?case by (simp add: push_delta_one_line)
qed

section \<open>Progress: parsed hunks only grow\<close>

text \<open>
  A consumer redraws the hunks after every delta. What it has seen stays: all hunks
  but the last are final, and the last one only gains lines.
\<close>

definition list_grows :: "('a \<Rightarrow> 'a \<Rightarrow> bool) \<Rightarrow> 'a list \<Rightarrow> 'a list \<Rightarrow> bool" where
  "list_grows R xs ys \<longleftrightarrow>
     xs = [] \<or> (\<exists>y zs. ys = butlast xs @ y # zs \<and> R (last xs) y)"

text \<open>An order of progress on values lifts to lists that grow at their end.\<close>

locale growth =
  fixes grows :: "'a \<Rightarrow> 'a \<Rightarrow> bool"
  assumes grows_refl: "grows x x"
    and grows_trans: "grows x y \<Longrightarrow> grows y z \<Longrightarrow> grows x z"
begin

lemma list_refl: "list_grows grows xs xs"
  by (cases xs rule: rev_cases) (auto simp: list_grows_def grows_refl)

lemma list_trans:
  assumes "list_grows grows xs ys" and "list_grows grows ys zs"
  shows "list_grows grows xs zs"
proof (cases "xs = []")
  case True
  then show ?thesis by (simp add: list_grows_def)
next
  case False
  with assms(1) obtain y r where y: "ys = butlast xs @ y # r" "grows (last xs) y"
    by (auto simp: list_grows_def)
  with assms(2) obtain z r' where z: "zs = butlast ys @ z # r'" "grows (last ys) z"
    by (auto simp: list_grows_def)
  show ?thesis
  proof (cases r rule: rev_cases)
    case Nil
    with y z show ?thesis by (auto simp: list_grows_def butlast_append intro: grows_trans)
  next
    case (snoc r1 w)
    with y z have "zs = butlast xs @ y # (r1 @ z # r')" by (simp add: butlast_append)
    with y show ?thesis by (auto simp: list_grows_def)
  qed
qed

lemma list_snoc: "list_grows grows xs (xs @ ys)"
  by (cases xs rule: rev_cases) (auto simp: list_grows_def grows_refl)

lemma list_set_last: "grows (last xs) y \<Longrightarrow> list_grows grows xs (set_last xs y)"
  by (cases xs rule: rev_cases) (auto simp: list_grows_def)

lemma list_length: "list_grows grows xs ys \<Longrightarrow> length xs \<le> length ys"
  by (cases xs rule: rev_cases) (auto simp: list_grows_def)

lemma list_done: "list_grows grows xs ys \<Longrightarrow> prefix (butlast xs) ys"
  by (auto simp: list_grows_def)

end

definition chunk_grows :: "update_file_chunk \<Rightarrow> update_file_chunk \<Rightarrow> bool" where
  "chunk_grows c d \<longleftrightarrow>
     change_context d = change_context c \<and> prefix (old_lines c) (old_lines d) \<and>
     prefix (new_lines c) (new_lines d) \<and>
     prefix (context_line_indices c) (context_line_indices d) \<and>
     (is_end_of_file c \<longrightarrow> d = c)"

interpretation chunk_growth: growth chunk_grows
  by unfold_locales (auto simp: chunk_grows_def intro: prefix_order.trans)

fun hunk_grows :: "Hunk \<Rightarrow> Hunk \<Rightarrow> bool" where
  "hunk_grows (AddFile p c) (AddFile p' c') \<longleftrightarrow> p' = p \<and> prefix c c'"
| "hunk_grows (DeleteFile p) (DeleteFile p') \<longleftrightarrow> p' = p"
| "hunk_grows (UpdateFile p m cs) (UpdateFile p' m' cs') \<longleftrightarrow>
     p' = p \<and> (m' = m \<or> m = None \<and> cs = []) \<and> list_grows chunk_grows cs cs'"
| "hunk_grows _ _ \<longleftrightarrow> False"

lemma hunk_grows_refl: "hunk_grows h h"
  by (cases h) (auto simp: chunk_growth.list_refl)

lemma list_grows_Nil: "list_grows R xs [] \<longleftrightarrow> xs = []"
  by (auto simp: list_grows_def)

lemma hunk_grows_trans: "hunk_grows h i \<Longrightarrow> hunk_grows i j \<Longrightarrow> hunk_grows h j"
  by (cases h; cases i; cases j)
    (auto simp: list_grows_Nil intro: chunk_growth.list_trans prefix_order.trans)

interpretation hunk_growth: growth hunk_grows
  by unfold_locales (rule hunk_grows_refl, erule (1) hunk_grows_trans)

abbreviation hunks_grow :: "Hunk list \<Rightarrow> Hunk list \<Rightarrow> bool" where
  "hunks_grow \<equiv> list_grows hunk_grows"

lemma edit_last_chunk_grows:
  "(\<And>c. \<not> is_end_of_file c \<Longrightarrow> chunk_grows c (f c)) \<Longrightarrow> \<not> last_chunk_eof cs \<Longrightarrow>
     list_grows chunk_grows cs (edit_last_chunk f cs)"
  by (cases cs rule: rev_cases)
    (auto simp: edit_last_chunk_def Let_def last_chunk_eof_def list_grows_def)

lemma push_grows [simp]:
  "\<not> is_end_of_file c \<Longrightarrow> chunk_grows c (push_new_line c l)"
  "\<not> is_end_of_file c \<Longrightarrow> chunk_grows c (push_old_line c l)"
  "\<not> is_end_of_file c \<Longrightarrow> chunk_grows c (push_context_line c l)"
  "chunk_grows c (c\<lparr>is_end_of_file := True\<rparr>)"
  by (auto simp: chunk_grows_def push_new_line_def push_old_line_def push_context_line_def)

lemma set_last_eof_grows:
  "list_grows chunk_grows cs
     (if cs = [] then [] else set_last cs ((last cs)\<lparr>is_end_of_file := True\<rparr>))"
  by (simp add: chunk_growth.list_refl chunk_growth.list_set_last)

text \<open>The four ways a line of an update hunk can succeed.\<close>

lemma update_hunk_line_cases:
  assumes "update_hunk_line n line m cs = Inr (m', cs')"
  obtains (same) "m' = m" "cs' = cs" "last_chunk_eof cs"
    | (move) "m = None" "cs = []" "cs' = []"
    | (chunk) c where "m' = m" "cs' = cs @ [default_chunk\<lparr>change_context := c\<rparr>]"
        "\<not> last_chunk_empty cs"
    | (eof) "m' = m" "\<not> last_chunk_empty cs"
        "cs' = (if cs = [] then [] else set_last cs ((last cs)\<lparr>is_end_of_file := True\<rparr>))"
    | (edit) f where "m' = m" "cs' = edit_last_chunk f cs" "\<not> last_chunk_eof cs"
        "f \<in> {\<lambda>ch. push_context_line ch l | l. True} \<union> {\<lambda>ch. push_new_line ch l | l. True}
            \<union> {\<lambda>ch. push_old_line ch l | l. True}"
proof -
  let ?u = "trim_end line"
  let ?ctx = "?u = EMPTY_CHANGE_CONTEXT_MARKER \<or> starts_with ?u CHANGE_CONTEXT_MARKER"
  note up = assms [unfolded update_hunk_line_def Let_def]
  have d: "default_chunk = default_chunk\<lparr>change_context := None\<rparr>"
    by (simp add: default_chunk_def)
  consider "last_chunk_eof cs" "?u = []" | "last_chunk_eof cs" "?u \<noteq> []" "\<not> ?ctx"
    | "?ctx" "\<not> (last_chunk_eof cs \<and> ?u = [])"
    | "\<not> ?ctx" "\<not> last_chunk_eof cs" by blast
  then show ?thesis
  proof cases
    case 1
    with up show ?thesis by (intro same) simp_all
  next
    case 2
    with up show ?thesis by simp
  next
    case 3
    with up show ?thesis
      by (auto split: if_splits intro: move chunk [OF _ _] chunk [where c = None, folded d])
  next
    case 4
    note noctx = 4
    show ?thesis
    proof (cases line)
      case Nil
      with noctx up show ?thesis
        by (auto split: if_splits intro: move eof edit)
    next
      case (Cons c rest)
      with noctx up show ?thesis
        by (auto split: if_splits intro: move eof edit)
    qed
  qed
qed

lemma update_hunk_line_grows:
  assumes "update_hunk_line n line m cs = Inr (m', cs')"
  shows "hunk_grows (UpdateFile path m cs) (UpdateFile path m' cs')"
  using assms
proof (cases rule: update_hunk_line_cases)
  case same
  then show ?thesis by (simp add: chunk_growth.list_refl)
next
  case move
  then show ?thesis by (simp add: chunk_growth.list_refl)
next
  case (chunk c)
  then show ?thesis by (simp add: chunk_growth.list_snoc)
next
  case eof
  then show ?thesis using set_last_eof_grows by simp
next
  case (edit f)
  then have "list_grows chunk_grows cs (edit_last_chunk f cs)"
    by (intro edit_last_chunk_grows) auto
  with edit show ?thesis by simp
qed

lemma handle_headers_grow:
  "handle_hunk_headers_and_end_patch p t = Inr (b, q) \<Longrightarrow> hunks_grow (hunks p) (hunks q)"
  by (auto simp: handle_hunk_headers_and_end_patch_def after_ensure_def
      hunk_growth.list_refl hunk_growth.list_snoc split: if_splits option.splits sum.splits)

lemma process_line_grows:
  assumes "process_line p l = Inr q"
  shows "hunks_grow (hunks p) (hunks q)"
proof (cases "mode p")
  case (ModeUpdateFile n)
  obtain b r where h: "handle_hunk_headers_and_end_patch p (trim_end l) = Inr (b, r)"
    using assms ModeUpdateFile by (auto simp: process_line_def Let_def split: sum.splits)
  show ?thesis
  proof (cases b)
    case True
    with assms ModeUpdateFile h show ?thesis
      by (simp add: process_line_def Let_def handle_headers_grow)
  next
    case False
    with assms ModeUpdateFile h obtain path m cs m' cs' where
        last: "last_opt (hunks p) = Some (UpdateFile path m cs)"
      and up: "update_hunk_line (line_number p) l m cs = Inr (m', cs')"
      and q: "hunks q = set_last (hunks p) (UpdateFile path m' cs')"
      by (auto simp: process_line_def Let_def split: sum.splits option.splits Hunk.splits)
    from last have "last (hunks p) = UpdateFile path m cs"
      by (auto simp: last_opt_def split: if_splits)
    with update_hunk_line_grows [OF up] show ?thesis
      unfolding q by (intro hunk_growth.list_set_last) simp
  qed
next
  case ModeAddFile
  obtain b r where h: "handle_hunk_headers_and_end_patch p (trim l) = Inr (b, r)"
    using assms ModeAddFile by (auto simp: process_line_def Let_def split: sum.splits)
  show ?thesis
  proof (cases b)
    case True
    with assms ModeAddFile h show ?thesis
      by (simp add: process_line_def Let_def handle_headers_grow)
  next
    case False
    with assms ModeAddFile h obtain path c w where
        last: "last_opt (hunks p) = Some (AddFile path c)"
      and q: "hunks q = set_last (hunks p) (AddFile path (c @ w @ [chr_nl]))"
      by (auto simp: process_line_def Let_def split: sum.splits option.splits Hunk.splits)
    from last have "last (hunks p) = AddFile path c"
      by (auto simp: last_opt_def split: if_splits)
    then show ?thesis
      unfolding q by (intro hunk_growth.list_set_last) simp
  qed
qed (use assms in \<open>auto simp: process_line_def Let_def hunk_growth.list_refl
      dest: handle_headers_grow split: if_splits sum.splits\<close>)

lemma push_delta_grows:
  "push_delta p d = (r, q) \<Longrightarrow> hunks_grow (hunks p) (hunks q)"
proof (induction p d rule: push_delta.induct)
  case (1 p)
  then show ?case by (simp add: hunk_growth.list_refl)
next
  case (2 p ch d)
  show ?case
  proof (cases "ch = chr_nl")
    case False
    with 2 show ?thesis by simp
  next
    case True
    show ?thesis
    proof (cases "process_line (take_line p) (complete_line (line_buffer p))")
      case (Inl e)
      with True "2.prems" show ?thesis by (auto simp: hunk_growth.list_refl)
    next
      case (Inr s)
      with 2 True have "hunks_grow (hunks s) (hunks q)" by simp
      with process_line_grows [OF Inr] show ?thesis
        by (auto intro: hunk_growth.list_trans)
    qed
  qed
qed

section \<open>The parser invariant\<close>

text \<open>Chunks still being read: all sound, and all but the last name a line.\<close>

definition chunks_open :: "update_file_chunk list \<Rightarrow> bool" where
  "chunks_open cs \<longleftrightarrow>
     (\<forall>ch \<in> set cs. chunk_ok ch) \<and> (\<forall>ch \<in> set (butlast cs). \<not> chunk_empty ch)"

fun mode_inv :: "StreamingParserMode \<Rightarrow> Hunk list \<Rightarrow> bool" where
  "mode_inv NotStarted hs \<longleftrightarrow> hs = []"
| "mode_inv StartedPatch hs \<longleftrightarrow> hs = []"
| "mode_inv ModeAddFile hs \<longleftrightarrow> (case last_opt hs of Some (AddFile _ _) \<Rightarrow> True | _ \<Rightarrow> False)"
| "mode_inv ModeDeleteFile hs \<longleftrightarrow> (case last_opt hs of Some (DeleteFile _) \<Rightarrow> True | _ \<Rightarrow> False)"
| "mode_inv (ModeUpdateFile n) hs \<longleftrightarrow>
     (case last_opt hs of Some (UpdateFile _ _ cs) \<Rightarrow> chunks_open cs | _ \<Rightarrow> False)"
| "mode_inv EndedPatch hs \<longleftrightarrow> list_all hunk_ok hs"

definition parser_inv :: "streaming_patch_parser \<Rightarrow> bool" where
  "parser_inv p \<longleftrightarrow> mode_inv (mode p) (hunks p) \<and> list_all hunk_ok (butlast (hunks p))"

lemma parser_inv_default: "parser_inv default_parser"
  by (simp add: parser_inv_def default_parser_def)

lemma parser_inv_frame [simp]:
  "parser_inv (take_line p) = parser_inv p"
  "parser_inv (p\<lparr>line_buffer := b\<rparr>) = parser_inv p"
  "parser_inv (p\<lparr>environment_id := e\<rparr>) = parser_inv p"
  by (simp_all add: parser_inv_def take_line_def)

lemma last_chunk_empty_snoc [simp]: "last_chunk_empty (cs @ [c]) = chunk_empty c"
  "\<not> last_chunk_empty []"
  by (simp_all add: last_chunk_empty_def chunk_empty_def)

lemma chunks_open_snoc [simp]:
  "chunks_open (cs @ [c]) \<longleftrightarrow> (\<forall>ch \<in> set cs. chunk_ok ch \<and> \<not> chunk_empty ch) \<and> chunk_ok c"
  "chunks_open []" "chunks_open [c] = chunk_ok c"
  by (auto simp: chunks_open_def)

lemma update_hunk_line_open:
  assumes "update_hunk_line n line m cs = Inr (m', cs')" and "chunks_open cs"
  shows "chunks_open cs'"
  using assms(1)
proof (cases rule: update_hunk_line_cases)
  case (chunk c)
  with assms(2) show ?thesis
    by (cases cs rule: rev_cases) (auto simp: chunks_open_def butlast_append)
next
  case eof
  with assms(2) show ?thesis by (cases cs rule: rev_cases) auto
next
  case (edit f)
  with assms(2) show ?thesis
    by (cases cs rule: rev_cases) (auto simp: edit_last_chunk_def Let_def set_last_def)
qed (use assms(2) in simp_all)

text \<open>The emptiness check closes the last hunk: after it every hunk is well formed.\<close>

lemma ensure_closes:
  assumes "parser_inv p" and "ensure_update_hunk_is_not_empty p line = Inr u"
  shows "list_all hunk_ok (hunks p)"
proof (cases "hunks p" rule: rev_cases)
  case Nil
  then show ?thesis by simp
next
  case (snoc hs h)
  with assms(1) have hs: "list_all hunk_ok hs" by (simp add: parser_inv_def)
  have "hunk_ok h"
  proof (cases h)
    case (UpdateFile path m cs)
    show ?thesis
    proof (cases cs rule: rev_cases)
      case Nil
      with UpdateFile snoc assms show ?thesis
        by (cases "mode p") (auto simp: parser_inv_def ensure_update_hunk_is_not_empty_def)
    next
      case (snoc cs' c)
      with UpdateFile \<open>hunks p = hs @ [h]\<close> assms show ?thesis
        by (cases "mode p"; cases cs')
          (auto simp: parser_inv_def ensure_update_hunk_is_not_empty_def chunk_empty_def
            last_opt_def chunks_open_def butlast_append split: if_splits)
    qed
  qed simp_all
  with hs snoc show ?thesis by simp
qed

lemma after_ensure_closes:
  "after_ensure p t q = Inr (b, r) \<Longrightarrow> parser_inv p \<Longrightarrow>
     b \<and> r = q \<and> list_all hunk_ok (hunks p)"
  by (auto simp: after_ensure_def dest: ensure_closes split: sum.splits)

lemma handle_headers_inv:
  "handle_hunk_headers_and_end_patch p t = Inr (b, q) \<Longrightarrow> parser_inv p \<Longrightarrow> parser_inv q"
  by (auto simp: handle_hunk_headers_and_end_patch_def parser_inv_def [of q] parser_inv_def [of p]
      split: if_splits option.splits
      dest!: after_ensure_closes [unfolded parser_inv_def])

lemma process_line_inv:
  assumes "process_line p l = Inr q" and "parser_inv p"
  shows "parser_inv q"
proof (cases "mode p")
  case (ModeUpdateFile n)
  obtain b r where h: "handle_hunk_headers_and_end_patch p (trim_end l) = Inr (b, r)"
    using assms ModeUpdateFile by (auto simp: process_line_def Let_def split: sum.splits)
  show ?thesis
  proof (cases b)
    case True
    with assms ModeUpdateFile h show ?thesis
      by (auto simp: process_line_def Let_def intro: handle_headers_inv)
  next
    case False
    with assms ModeUpdateFile h obtain hs path m cs m' cs' where
        last: "hunks p = hs @ [UpdateFile path m cs]"
      and up: "update_hunk_line (line_number p) l m cs = Inr (m', cs')"
      and q: "q = p\<lparr>hunks := set_last (hunks p) (UpdateFile path m' cs'), mode := ModeUpdateFile n\<rparr>"
      by (auto simp: process_line_def Let_def last_opt_Some
          split: sum.splits option.splits Hunk.splits)
    with assms(2) ModeUpdateFile have "chunks_open cs'"
      by (auto simp: parser_inv_def intro: update_hunk_line_open)
    with last q assms(2) show ?thesis by (simp add: parser_inv_def)
  qed
next
  case ModeAddFile
  obtain b r where h: "handle_hunk_headers_and_end_patch p (trim l) = Inr (b, r)"
    using assms ModeAddFile by (auto simp: process_line_def Let_def split: sum.splits)
  show ?thesis
  proof (cases b)
    case True
    with assms ModeAddFile h show ?thesis
      by (auto simp: process_line_def Let_def intro: handle_headers_inv)
  next
    case False
    with assms ModeAddFile h show ?thesis
      by (auto simp: process_line_def Let_def parser_inv_def last_opt_Some
          split: sum.splits option.splits Hunk.splits)
  qed
next
  case NotStarted
  with assms show ?thesis by (auto simp: process_line_def Let_def parser_inv_def split: if_splits)
qed (use assms in \<open>auto simp: process_line_def Let_def intro: handle_headers_inv
      split: if_splits sum.splits\<close>)

lemma push_delta_inv: "push_delta p d = (r, q) \<Longrightarrow> parser_inv p \<Longrightarrow> parser_inv q"
  by (induction p d rule: push_delta.induct)
    (auto split: if_splits sum.splits dest: process_line_inv [of "take_line _", simplified])

lemma finish_hunks_ok:
  assumes "parser_inv p" and "finish p = (Inr hs, q)"
  shows "list_all hunk_ok hs"
proof -
  from assms(2) obtain u where fl: "finish_line p = (Inr u, q)"
    and q: "mode q = EndedPatch" "hs = hunks q"
    by (auto simp: finish_def split: prod.splits sum.splits if_splits)
  have "mode_inv (mode q) (hunks q)"
    using fl assms(1)
    by (auto simp: finish_line_def Let_def parser_inv_def [of q] split: if_splits sum.splits
        dest: ensure_closes [of "take_line p", simplified] process_line_inv [of "take_line p", simplified])
  with q show ?thesis by simp
qed

section \<open>Properties\<close>


text \<open>
  Progress is never taken back: whatever a delta brings, errors included, the hunks
  shown so far stay, but for the last one, which may only grow (text appended to an added
  file, lines and chunks appended to an update, a destination set before the first chunk).
\<close>

theorem push_delta_monotone:
  assumes "push_delta p d = (r, q)"
  shows "list_grows hunk_grows (hunks p) (hunks q)"
  using assms by (rule push_delta_grows)

theorem push_delta_monotone_witness:
  "\<exists>r q. push_delta default_parser (lit ''*** Begin Patch'' @ [10] @ lit ''*** Add File: a'' @ [10]) = (r, q) \<and>
     hunks q = [AddFile (lit ''a'') []] \<and> list_grows hunk_grows (hunks default_parser) (hunks q)"
proof -
  let ?r = "push_delta default_parser (lit ''*** Begin Patch'' @ [10] @ lit ''*** Add File: a'' @ [10])"
  have "hunks (snd ?r) = [AddFile (lit ''a'') []]" by code_simp
  with push_delta_monotone [of default_parser _ "fst ?r" "snd ?r"] show ?thesis
    by (metis prod.collapse)
qed

end
