(* ===== verification/Patch_Parser.thy ===== *)
theory Patch_Parser
  imports Streaming_Parser
begin

text \<open>
  \<open>parse_patch\<close> of \<open>apply-patch/src/parser.rs\<close>: the boundary checks, the lenient
  heredoc unwrapping, and the run of the streaming parser on the normalised text.
\<close>

section \<open>Boundaries\<close>

datatype ParseMode = Strict | Lenient

record apply_patch_args =
  args_patch :: rstr
  args_hunks :: "Hunk list"
  args_workdir :: "rstr option"
  args_environment_id :: "rstr option"

definition PARSE_IN_STRICT_MODE :: bool where
  "PARSE_IN_STRICT_MODE = False"

definition check_start_and_end_lines_strict ::
    "rstr option \<Rightarrow> rstr option \<Rightarrow> ParseError + unit" where
  "check_start_and_end_lines_strict first_line last_line =
     (case (map_option trim first_line, map_option trim last_line) of
        (Some first, Some final) \<Rightarrow>
          if first = BEGIN_PATCH_MARKER \<and> final = END_PATCH_MARKER then Ok ()
          else if first \<noteq> BEGIN_PATCH_MARKER then Err (InvalidPatchError msg_first_line)
          else Err (InvalidPatchError msg_last_line)
      | (Some first, None) \<Rightarrow>
          if first \<noteq> BEGIN_PATCH_MARKER then Err (InvalidPatchError msg_first_line)
          else Err (InvalidPatchError msg_last_line)
      | (None, _) \<Rightarrow> Err (InvalidPatchError msg_last_line))"

definition check_patch_boundaries_strict :: "rstr list \<Rightarrow> ParseError + rstr list" where
  "check_patch_boundaries_strict ls =
     (case check_start_and_end_lines_strict
             (case ls of [] \<Rightarrow> None | x # _ \<Rightarrow> Some x) (last_opt ls) of
        Inl e \<Rightarrow> Err e
      | Inr _ \<Rightarrow> Ok ls)"

text \<open>
  \<open>[first, .., last]\<close> needs two elements; the guard asks for four. The inner lines are
  \<open>original_lines[1..len - 1]\<close>.
\<close>

definition is_heredoc_open :: "rstr \<Rightarrow> bool" where
  "is_heredoc_open first \<longleftrightarrow>
     first = lit ''<<EOF'' \<or> first = lit ''<<'' @ [39] @ lit ''EOF'' @ [39] \<or>
     first = lit ''<<'' @ [34] @ lit ''EOF'' @ [34]"

definition check_patch_boundaries_lenient :: "rstr list \<Rightarrow> ParseError + rstr list" where
  "check_patch_boundaries_lenient original_lines =
     (case check_patch_boundaries_strict original_lines of
        Inr ls \<Rightarrow> Ok ls
      | Inl original_parse_error \<Rightarrow>
          (case original_lines of
             first # second # rest \<Rightarrow>
               if is_heredoc_open first \<and> ends_with (last original_lines) (lit ''EOF'') \<and>
                  4 \<le> length original_lines
               then check_patch_boundaries_strict (butlast (tl original_lines))
               else Err original_parse_error
           | _ \<Rightarrow> Err original_parse_error))"

section \<open>Parsing\<close>

definition parse_patch_text :: "rstr \<Rightarrow> ParseMode \<Rightarrow> ParseError + apply_patch_args" where
  "parse_patch_text patch pmode =
     (let ls = str_lines (trim patch) in
      case (case pmode of
              Strict \<Rightarrow> check_patch_boundaries_strict ls
            | Lenient \<Rightarrow> check_patch_boundaries_lenient ls) of
        Inl e \<Rightarrow> Err e
      | Inr patch_lines \<Rightarrow>
          (let patch' = join_with [chr_nl] patch_lines in
           case push_delta default_parser patch' of
             (Inl e, _) \<Rightarrow> Err e
           | (Inr _, parser1) \<Rightarrow>
               (case finish parser1 of
                  (Inl e, _) \<Rightarrow> Err e
                | (Inr hs, parser2) \<Rightarrow>
                    Ok \<lparr>args_patch = patch', args_hunks = hs, args_workdir = None,
                        args_environment_id = environment_id parser2\<rparr>)))"

definition parse_patch :: "rstr \<Rightarrow> ParseError + apply_patch_args" where
  "parse_patch patch =
     parse_patch_text patch (if PARSE_IN_STRICT_MODE then Strict else Lenient)"

section \<open>Well-formedness of the result\<close>

lemma parse_patch_text_hunks_ok:
  assumes "parse_patch_text patch m = Inr a"
  shows "list_all hunk_ok (args_hunks a)"
proof -
  from assms obtain d r p hs q where
      d: "push_delta default_parser d = (Inr r, p)" and f: "finish p = (Inr hs, q)"
    and a: "args_hunks a = hs"
    by (auto simp: parse_patch_text_def Let_def split: sum.splits prod.splits)
  from push_delta_inv [OF d parser_inv_default] have "parser_inv p" .
  with f a show ?thesis by (auto dest: finish_hunks_ok)
qed

text \<open>
  Lenient parsing extends strict parsing: what the strict mode accepts, the lenient
  mode accepts with the same result.
\<close>

lemma boundaries_strict_imp_lenient:
  "check_patch_boundaries_strict ls = Inr ls' \<Longrightarrow> check_patch_boundaries_lenient ls = Inr ls'"
  by (simp add: check_patch_boundaries_lenient_def)

lemma parse_strict_imp_parse_patch:
  "parse_patch_text patch Strict = Inr a \<Longrightarrow> parse_patch patch = Inr a"
  by (auto simp: parse_patch_def parse_patch_text_def PARSE_IN_STRICT_MODE_def Let_def
      boundaries_strict_imp_lenient split: sum.splits)

section \<open>Properties\<close>

text \<open>
  C36. Every hunk of a parsed patch is well formed: an update has at least one chunk, no
  chunk is empty, and the recorded context indices are increasing, within bounds and point
  at equal old and new lines.
\<close>

theorem parsed_hunks_well_formed:
  assumes "parse_patch_text patch m = Inr a"
  shows "list_all hunk_ok (args_hunks a)"
  using assms by (rule parse_patch_text_hunks_ok)

definition sample_text :: rstr where
  "sample_text = join_with [10]
     [lit ''*** Begin Patch'', lit ''*** Update File: a'', lit ''@@'', lit '' k'', lit ''-x'', lit ''+y'',
      lit ''*** End Patch'']"

theorem parsed_hunks_well_formed_witness:
  "\<exists>a. parse_patch_text sample_text Strict = Inr a \<and> args_hunks a \<noteq> [] \<and> list_all hunk_ok (args_hunks a)"
proof -
  have "case parse_patch_text sample_text Strict of Inr a \<Rightarrow> args_hunks a \<noteq> [] | Inl e \<Rightarrow> False"
    by code_simp
  then obtain a where "parse_patch_text sample_text Strict = Inr a" "args_hunks a \<noteq> []"
    by (auto split: sum.splits)
  with parsed_hunks_well_formed [of sample_text Strict a] show ?thesis by blast
qed

text \<open>
  The lenient entry point extends the strict one: a patch the strict mode accepts is
  parsed by \<open>parse_patch\<close> to the same arguments.
\<close>

theorem lenient_extends_strict:
  assumes "parse_patch_text patch Strict = Inr a"
  shows "parse_patch patch = Inr a"
  using assms by (rule parse_strict_imp_parse_patch)

theorem lenient_extends_strict_witness:
  "\<exists>a. parse_patch_text sample_text Strict = Inr a \<and> parse_patch sample_text = Inr a"
proof -
  have "case parse_patch_text sample_text Strict of Inr a \<Rightarrow> True | Inl e \<Rightarrow> False"
    by code_simp
  then obtain a where "parse_patch_text sample_text Strict = Inr a" by (auto split: sum.splits)
  with lenient_extends_strict [of sample_text a] show ?thesis by blast
qed

end
