(* ===== verification/Patch_Grammar.thy ===== *)
theory Patch_Grammar
  imports Patch_Parser
begin

text \<open>
  The grammar of the patch language, as the header comment of
  \<open>apply-patch/src/parser.rs\<close> documents it, as an abstract syntax with a printer, and
  the round trip: the parser reads every printed patch back, hunk for hunk.
\<close>

section \<open>Abstract syntax and printer\<close>

datatype edit_line = Context rstr | Remove rstr | Insert rstr

record chunk_text =
  ct_context :: "rstr option"
  ct_edits :: "edit_line list"
  ct_eof :: bool

datatype hunk_text =
    AddText rstr "rstr list"
  | DeleteText rstr
  | UpdateText rstr "rstr option" "chunk_text list"

fun print_edit :: "edit_line \<Rightarrow> rstr" where
  "print_edit (Context l) = 32 # l"
| "print_edit (Insert l) = 43 # l"
| "print_edit (Remove l) = 45 # l"

definition print_chunk :: "chunk_text \<Rightarrow> rstr list" where
  "print_chunk c =
     (case ct_context c of
        None \<Rightarrow> EMPTY_CHANGE_CONTEXT_MARKER
      | Some x \<Rightarrow> CHANGE_CONTEXT_MARKER @ x)
     # map print_edit (ct_edits c) @ (if ct_eof c then [EOF_MARKER] else [])"

fun print_hunk :: "hunk_text \<Rightarrow> rstr list" where
  "print_hunk (AddText path ls) = (ADD_FILE_MARKER @ path) # map ((#) 43) ls"
| "print_hunk (DeleteText path) = [DELETE_FILE_MARKER @ path]"
| "print_hunk (UpdateText path dest cs) =
     (UPDATE_FILE_MARKER @ path)
     # (case dest of None \<Rightarrow> [] | Some d \<Rightarrow> [MOVE_TO_MARKER @ d]) @ concat (map print_chunk cs)"

definition print_patch :: "rstr option \<Rightarrow> hunk_text list \<Rightarrow> rstr" where
  "print_patch env hs =
     join_with [chr_nl]
       (BEGIN_PATCH_MARKER
        # (case env of None \<Rightarrow> [] | Some e \<Rightarrow> [ENVIRONMENT_ID_MARKER @ 32 # e])
        @ concat (map print_hunk hs) @ [END_PATCH_MARKER])"

section \<open>Meaning\<close>

fun apply_edit :: "update_file_chunk \<Rightarrow> edit_line \<Rightarrow> update_file_chunk" where
  "apply_edit ch (Context l) = push_context_line ch l"
| "apply_edit ch (Insert l) = push_new_line ch l"
| "apply_edit ch (Remove l) = push_old_line ch l"

definition chunk_of :: "chunk_text \<Rightarrow> update_file_chunk" where
  "chunk_of c =
     (foldl apply_edit (default_chunk\<lparr>change_context := ct_context c\<rparr>) (ct_edits c))
       \<lparr>is_end_of_file := ct_eof c\<rparr>"

fun hunk_of :: "hunk_text \<Rightarrow> Hunk" where
  "hunk_of (AddText path ls) = AddFile path (concat (map (\<lambda>l. l @ [chr_nl]) ls))"
| "hunk_of (DeleteText path) = DeleteFile path"
| "hunk_of (UpdateText path dest cs) = UpdateFile path dest (map chunk_of cs)"

text \<open>
  What can be printed: lines without a newline or a final carriage return, and
  non-empty names that do not end in white space (the parser trims them).
\<close>

definition line_ok :: "rstr \<Rightarrow> bool" where
  "line_ok l \<longleftrightarrow> chr_nl \<notin> set l \<and> (l = [] \<or> last l \<noteq> chr_cr)"

definition name_ok :: "rstr \<Rightarrow> bool" where
  "name_ok s \<longleftrightarrow> s \<noteq> [] \<and> chr_nl \<notin> set s \<and> \<not> is_whitespace (last s)"

definition opt_name_ok :: "rstr option \<Rightarrow> bool" where
  "opt_name_ok s \<longleftrightarrow> (case s of None \<Rightarrow> True | Some x \<Rightarrow> name_ok x)"

fun edit_ok :: "edit_line \<Rightarrow> bool" where
  "edit_ok (Context l) = line_ok l"
| "edit_ok (Insert l) = line_ok l"
| "edit_ok (Remove l) = line_ok l"

definition chunk_text_ok :: "chunk_text \<Rightarrow> bool" where
  "chunk_text_ok c \<longleftrightarrow> opt_name_ok (ct_context c) \<and> ct_edits c \<noteq> [] \<and> list_all edit_ok (ct_edits c)"

fun hunk_text_ok :: "hunk_text \<Rightarrow> bool" where
  "hunk_text_ok (AddText path ls) \<longleftrightarrow> name_ok path \<and> list_all line_ok ls"
| "hunk_text_ok (DeleteText path) \<longleftrightarrow> name_ok path"
| "hunk_text_ok (UpdateText path dest cs) \<longleftrightarrow>
     name_ok path \<and> opt_name_ok dest \<and> cs \<noteq> [] \<and> list_all chunk_text_ok cs"

definition env_ok :: "rstr option \<Rightarrow> bool" where
  "env_ok env \<longleftrightarrow> (case env of None \<Rightarrow> True | Some e \<Rightarrow> name_ok e \<and> \<not> is_whitespace (hd e))"

section \<open>Recognising lines\<close>

lemma marker_heads:
  "hd BEGIN_PATCH_MARKER = 42" "hd END_PATCH_MARKER = 42" "hd EOF_MARKER = 42"
  "\<exists>r. ADD_FILE_MARKER = 42 # r" "\<exists>r. DELETE_FILE_MARKER = 42 # r"
  "\<exists>r. UPDATE_FILE_MARKER = 42 # r" "\<exists>r. ENVIRONMENT_ID_MARKER = 42 # r"
  "END_PATCH_MARKER \<noteq> []"
  by (simp_all add: marker_defs lit_eval)

lemma strip_prefix_hd: "u = [] \<or> hd u \<noteq> c \<Longrightarrow> strip_prefix (c # r) u = None"
  by (cases u) auto

text \<open>Only a line that starts with an asterisk can be a header.\<close>

lemma not_a_header:
  assumes "u = [] \<or> hd u \<noteq> 42"
  shows "handle_hunk_headers_and_end_patch p u = Inr (False, p)"
proof -
  obtain a d v e where m: "ADD_FILE_MARKER = 42 # a" "DELETE_FILE_MARKER = 42 # d"
      "UPDATE_FILE_MARKER = 42 # v" "ENVIRONMENT_ID_MARKER = 42 # e"
    using marker_heads by blast
  have "u \<noteq> END_PATCH_MARKER" using assms marker_heads by auto
  with assms show ?thesis
    by (simp add: handle_hunk_headers_and_end_patch_def m strip_prefix_hd)
qed

lemma trim_end_Cons_head: "trim_end (c # l) = [] \<or> hd (trim_end (c # l)) = c"
  using hd_trim_end [of "c # l"] by auto

lemma trim_marker:
  assumes "name_ok s" and "\<not> is_whitespace (hd m)" and "m \<noteq> []"
  shows "trim (m @ s) = m @ s" "trim_end (m @ s) = m @ s"
  using assms by (auto simp: name_ok_def intro!: trim_id trim_end_id)

lemma ws_star [simp]: "\<not> is_whitespace 42" "\<not> is_whitespace 64"
  by (simp_all add: is_whitespace_def)

section \<open>The ready parser\<close>

text \<open>Between two hunks: every hunk is complete and a header may follow.\<close>

definition ready :: "streaming_patch_parser \<Rightarrow> Hunk list \<Rightarrow> rstr option \<Rightarrow> bool" where
  "ready p hs env \<longleftrightarrow>
     line_buffer p = [] \<and> hunks p = hs \<and> environment_id p = env \<and>
     mode p \<noteq> NotStarted \<and> mode p \<noteq> EndedPatch \<and> list_all hunk_ok hs"

lemma ensure_ready:
  assumes "list_all hunk_ok (hunks p)"
  shows "ensure_update_hunk_is_not_empty p l = Inr ()"
proof (cases "hunks p" rule: rev_cases)
  case (snoc hs h)
  with assms have h: "hunk_ok h" by simp
  show ?thesis
  proof (cases h)
    case (UpdateFile path m cs)
    with h have "cs \<noteq> []" "\<not> chunk_empty (last cs)" by auto
    then show ?thesis
      using snoc UpdateFile
      by (cases cs)
        (auto simp: ensure_update_hunk_is_not_empty_def last_opt_def chunk_empty_def)
  qed (simp_all add: ensure_update_hunk_is_not_empty_def snoc)
qed (simp add: ensure_update_hunk_is_not_empty_def)

lemma process_header:
  assumes "ready p hs env" and "trim l = l" and "trim_end l = l"
    and "handle_hunk_headers_and_end_patch p l = Inr (True, q)"
  shows "process_line p l = Inr q"
  using assms by (cases "mode p") (auto simp: ready_def process_line_def Let_def)

lemma ready_take_line: "ready p hs env \<Longrightarrow> ready (take_line p) hs env"
  by (simp add: ready_def)

lemma add_header:
  assumes "ready p hs env" and "name_ok path"
  shows "process_line (take_line p) (ADD_FILE_MARKER @ path) =
     Inr ((take_line p)\<lparr>hunks := hs @ [AddFile path []], mode := ModeAddFile\<rparr>)"
  using assms ready_take_line [OF assms(1)]
  by (intro process_header trim_marker)
    (auto simp: handle_hunk_headers_and_end_patch_def after_ensure_def ensure_ready ready_def
      marker_defs lit_eval)

lemma delete_header:
  assumes "ready p hs env" and "name_ok path"
  shows "process_line (take_line p) (DELETE_FILE_MARKER @ path) =
     Inr ((take_line p)\<lparr>hunks := hs @ [DeleteFile path], mode := ModeDeleteFile\<rparr>)"
  using assms ready_take_line [OF assms(1)]
  by (intro process_header trim_marker)
    (auto simp: handle_hunk_headers_and_end_patch_def after_ensure_def ensure_ready ready_def
      marker_defs lit_eval)

lemma update_header:
  assumes "ready p hs env" and "name_ok path"
  shows "process_line (take_line p) (UPDATE_FILE_MARKER @ path) =
     Inr ((take_line p)\<lparr>hunks := hs @ [UpdateFile path None []],
                         mode := ModeUpdateFile (Suc (line_number p))\<rparr>)"
  using assms ready_take_line [OF assms(1)]
  by (intro process_header trim_marker)
    (auto simp: handle_hunk_headers_and_end_patch_def after_ensure_def ensure_ready ready_def
      marker_defs lit_eval)

section \<open>Lines of added files\<close>

lemma add_line:
  assumes "mode p = ModeAddFile" and "hunks p = hs @ [AddFile path c]"
  shows "process_line (take_line p) (43 # l) =
     Inr ((take_line p)\<lparr>hunks := hs @ [AddFile path (c @ l @ [chr_nl])]\<rparr>)"
proof -
  have t: "trim (43 # l) = 43 # trim_end l"
    by (simp add: trim_def trim_start_def is_whitespace_def trim_end_Cons_nonws)
  have "handle_hunk_headers_and_end_patch (take_line p) (trim (43 # l)) =
      Inr (False, take_line p)"
    by (rule not_a_header) (simp add: t)
  with assms show ?thesis by (simp add: process_line_def Let_def)
qed

lemma add_lines:
  assumes "mode p = ModeAddFile" and "hunks p = hs @ [AddFile path c]"
    and "line_buffer p = []" and "environment_id p = env" and "list_all hunk_ok hs"
  shows "\<exists>q. run_lines p (map ((#) 43) ls) = Inr q \<and>
     ready q (hs @ [AddFile path (c @ concat (map (\<lambda>l. l @ [chr_nl]) ls))]) env"
  using assms
proof (induction ls arbitrary: p c)
  case Nil
  then show ?case by (simp add: ready_def)
next
  case (Cons l ls)
  let ?q = "(take_line p)\<lparr>hunks := hs @ [AddFile path (c @ l @ [chr_nl])]\<rparr>"
  have "\<exists>q. run_lines ?q (map ((#) 43) ls) = Inr q \<and>
     ready q (hs @ [AddFile path ((c @ l @ [chr_nl]) @ concat (map (\<lambda>l. l @ [chr_nl]) ls))]) env"
    by (rule Cons.IH) (use Cons.prems in simp_all)
  with Cons.prems show ?case by (simp add: add_line)
qed

section \<open>Lines of updated files\<close>

text \<open>Inside an update hunk, with the hunk read so far.\<close>

definition updating ::
    "streaming_patch_parser \<Rightarrow> Hunk list \<Rightarrow> rstr option \<Rightarrow> rstr \<Rightarrow> rstr option \<Rightarrow>
       update_file_chunk list \<Rightarrow> bool" where
  "updating p hs env path m cs \<longleftrightarrow>
     (\<exists>n. mode p = ModeUpdateFile n) \<and> hunks p = hs @ [UpdateFile path m cs] \<and>
     line_buffer p = [] \<and> environment_id p = env"

lemma updating_step:
  assumes "updating p hs env path m cs"
    and "handle_hunk_headers_and_end_patch (take_line p) (trim_end line) = Inr (False, take_line p)"
    and "update_hunk_line (Suc (line_number p)) line m cs = Inr (m', cs')"
  shows "\<exists>q. process_line (take_line p) line = Inr q \<and> updating q hs env path m' cs'"
  using assms by (auto simp: updating_def process_line_def Let_def)

lemma not_context:
  assumes "u = [] \<or> hd u \<noteq> 64"
  shows "u \<noteq> EMPTY_CHANGE_CONTEXT_MARKER" "\<not> starts_with u CHANGE_CONTEXT_MARKER"
  using assms by (cases u; auto simp: marker_defs lit_eval starts_with_def)+

lemma not_star:
  assumes "u = [] \<or> hd u \<noteq> 42"
  shows "u \<noteq> EOF_MARKER" "\<not> starts_with u MOVE_TO_MARKER"
  using assms by (cases u; auto simp: marker_defs lit_eval starts_with_def)+

lemma edit_step:
  assumes "updating p hs env path m cs" and "cs \<noteq> []" and "\<not> is_end_of_file (last cs)"
  shows "\<exists>q. process_line (take_line p) (print_edit e) = Inr q \<and>
     updating q hs env path m (butlast cs @ [apply_edit (last cs) e])"
proof (rule updating_step [OF assms(1)])
  let ?u = "trim_end (print_edit e)"
  have u: "?u = [] \<or> hd ?u \<noteq> 42" "?u = [] \<or> hd ?u \<noteq> 64"
    by (cases e; use trim_end_Cons_head in force)+
  then show "handle_hunk_headers_and_end_patch (take_line p) ?u = Inr (False, take_line p)"
    by (intro not_a_header)
  have "\<not> last_chunk_eof cs" using assms by (simp add: last_chunk_eof_def last_opt_def)
  then show "update_hunk_line (Suc (line_number p)) (print_edit e) m cs =
      Inr (m, butlast cs @ [apply_edit (last cs) e])"
    using not_context [OF u(2)] not_star [OF u(1)] assms(2)
    by (cases e) (auto simp: update_hunk_line_def Let_def edit_last_chunk_def set_last_def)
qed

lemma apply_edit_eof [simp]: "is_end_of_file (apply_edit ch e) = is_end_of_file ch"
  by (cases e) (simp_all add: push_context_line_def push_new_line_def push_old_line_def)

lemma edit_steps:
  assumes "updating p hs env path m (cs @ [ch])" and "\<not> is_end_of_file ch"
  shows "\<exists>q. run_lines p (map print_edit es) = Inr q \<and>
     updating q hs env path m (cs @ [foldl apply_edit ch es])"
  using assms
proof (induction es arbitrary: p ch)
  case Nil
  then show ?case by simp
next
  case (Cons e es)
  from edit_step [OF Cons.prems(1)] Cons.prems(2) obtain q where
    "process_line (take_line p) (print_edit e) = Inr q"
    "updating q hs env path m (cs @ [apply_edit ch e])" by auto
  with Cons.IH [of q "apply_edit ch e"] Cons.prems(2) show ?case by simp
qed

lemma not_empty_apply_edit [simp]: "\<not> chunk_empty (apply_edit ch e)"
  by (cases e) simp_all

lemma foldl_apply_edit:
  "es \<noteq> [] \<Longrightarrow> \<not> chunk_empty (foldl apply_edit ch es)"
  "is_end_of_file (foldl apply_edit ch es) = is_end_of_file ch"
  "chunk_ok ch \<Longrightarrow> chunk_ok (foldl apply_edit ch es)"
proof -
  show "es \<noteq> [] \<Longrightarrow> \<not> chunk_empty (foldl apply_edit ch es)"
    by (cases es rule: rev_cases) simp_all
  show "is_end_of_file (foldl apply_edit ch es) = is_end_of_file ch"
    by (induction es arbitrary: ch) simp_all
  show "chunk_ok ch \<Longrightarrow> chunk_ok (foldl apply_edit ch es)"
  proof (induction es arbitrary: ch)
    case (Cons e es)
    then show ?case by (cases e) simp_all
  qed simp
qed

lemma chunk_of_ok: "chunk_text_ok c \<Longrightarrow> chunk_ok (chunk_of c) \<and> \<not> chunk_empty (chunk_of c)"
  by (simp add: chunk_text_ok_def chunk_of_def foldl_apply_edit)

lemma context_step:
  assumes "updating p hs env path m cs" and "opt_name_ok c" and "\<not> last_chunk_empty cs"
  shows "\<exists>q. process_line (take_line p)
        (case c of None \<Rightarrow> EMPTY_CHANGE_CONTEXT_MARKER | Some x \<Rightarrow> CHANGE_CONTEXT_MARKER @ x)
      = Inr q \<and> updating q hs env path m (cs @ [default_chunk\<lparr>change_context := c\<rparr>])"
proof (rule updating_step [OF assms(1)])
  let ?l = "case c of None \<Rightarrow> EMPTY_CHANGE_CONTEXT_MARKER | Some x \<Rightarrow> CHANGE_CONTEXT_MARKER @ x"
  have l: "trim_end ?l = ?l" "hd ?l = 64" "?l \<noteq> []"
    using assms(2)
    by (auto simp: opt_name_ok_def name_ok_def marker_defs lit_eval split: option.splits
        intro!: trim_end_id)
  then show "handle_hunk_headers_and_end_patch (take_line p) (trim_end ?l) = Inr (False, take_line p)"
    by (intro not_a_header) simp
  have "\<not> starts_with ?l MOVE_TO_MARKER" using not_star(2) [of ?l] l by simp
  moreover have "?l = EMPTY_CHANGE_CONTEXT_MARKER \<or> starts_with ?l CHANGE_CONTEXT_MARKER"
    by (auto simp: starts_with_def split: option.splits)
  moreover have "default_chunk\<lparr>change_context := None\<rparr> = default_chunk"
    by (simp add: default_chunk_def)
  ultimately show "update_hunk_line (Suc (line_number p)) ?l m cs =
      Inr (m, cs @ [default_chunk\<lparr>change_context := c\<rparr>])"
    using l assms(2,3)
    by (cases c)
      (auto simp: update_hunk_line_def Let_def opt_name_ok_def name_ok_def starts_with_def
        EMPTY_CHANGE_CONTEXT_MARKER_def CHANGE_CONTEXT_MARKER_def lit_eval)
qed

lemma eof_step:
  assumes "updating p hs env path m (cs @ [ch])" and "\<not> chunk_empty ch" and "\<not> is_end_of_file ch"
  shows "\<exists>q. process_line (take_line p) EOF_MARKER = Inr q \<and>
     updating q hs env path m (cs @ [ch\<lparr>is_end_of_file := True\<rparr>])"
proof (rule updating_step [OF assms(1)])
  have l: "trim_end EOF_MARKER = EOF_MARKER"
    by (rule trim_end_id) (simp add: marker_defs lit_eval is_whitespace_def)
  show "handle_hunk_headers_and_end_patch (take_line p) (trim_end EOF_MARKER) =
      Inr (False, take_line p)"
    using assms(1)
    by (auto simp: l updating_def handle_hunk_headers_and_end_patch_def)
      (simp_all add: marker_defs lit_eval)
  have "\<not> last_chunk_eof (cs @ [ch])" using assms(3) by (simp add: last_chunk_eof_def)
  moreover have "EOF_MARKER \<noteq> EMPTY_CHANGE_CONTEXT_MARKER"
      "\<not> starts_with EOF_MARKER CHANGE_CONTEXT_MARKER"
    by (simp_all add: marker_defs lit_eval starts_with_def)
  ultimately show "update_hunk_line (Suc (line_number p)) EOF_MARKER m (cs @ [ch]) =
      Inr (m, cs @ [ch\<lparr>is_end_of_file := True\<rparr>])"
    using assms(2) by (simp add: update_hunk_line_def Let_def l)
qed

lemma move_step:
  assumes "updating p hs env path None []" and "name_ok d"
  shows "\<exists>q. process_line (take_line p) (MOVE_TO_MARKER @ d) = Inr q \<and>
     updating q hs env path (Some d) []"
proof (rule updating_step [OF assms(1)])
  have l: "trim_end (MOVE_TO_MARKER @ d) = MOVE_TO_MARKER @ d"
    by (rule trim_marker [OF assms(2)]) (simp_all add: marker_defs lit_eval)
  show "handle_hunk_headers_and_end_patch (take_line p) (trim_end (MOVE_TO_MARKER @ d)) =
      Inr (False, take_line p)"
    using assms(1)
    by (auto simp: l updating_def handle_hunk_headers_and_end_patch_def)
      (simp_all add: marker_defs lit_eval)
  show "update_hunk_line (Suc (line_number p)) (MOVE_TO_MARKER @ d) None [] = Inr (Some d, [])"
    by (simp add: update_hunk_line_def Let_def l last_chunk_eof_def starts_with_def)
qed

lemma chunk_steps:
  assumes "updating p hs env path m cs" and "chunk_text_ok c" and "\<not> last_chunk_empty cs"
  shows "\<exists>q. run_lines p (print_chunk c) = Inr q \<and> updating q hs env path m (cs @ [chunk_of c])"
proof -
  let ?ch = "default_chunk\<lparr>change_context := ct_context c\<rparr>"
  let ?es = "foldl apply_edit ?ch (ct_edits c)"
  have ch: "\<not> is_end_of_file ?ch" by (simp add: default_chunk_def)
  from assms(2) have c: "opt_name_ok (ct_context c)" "ct_edits c \<noteq> []"
    by (simp_all add: chunk_text_ok_def)
  from context_step [OF assms(1) c(1) assms(3)] obtain q1 where q1:
    "process_line (take_line p) (case ct_context c of None \<Rightarrow> EMPTY_CHANGE_CONTEXT_MARKER
        | Some x \<Rightarrow> CHANGE_CONTEXT_MARKER @ x) = Inr q1"
    "updating q1 hs env path m (cs @ [?ch])" by blast
  from edit_steps [OF q1(2) ch] obtain q2 where q2:
    "run_lines q1 (map print_edit (ct_edits c)) = Inr q2"
    "updating q2 hs env path m (cs @ [?es])" by blast
  have es: "\<not> chunk_empty ?es" "\<not> is_end_of_file ?es"
    using c(2) ch by (simp_all add: foldl_apply_edit)
  show ?thesis
  proof (cases "ct_eof c")
    case True
    from eof_step [OF q2(2) es] obtain q3 where
      "process_line (take_line q2) EOF_MARKER = Inr q3"
      "updating q3 hs env path m (cs @ [?es\<lparr>is_end_of_file := True\<rparr>])" by blast
    with q1 q2 True show ?thesis by (simp add: print_chunk_def run_lines_append chunk_of_def)
  next
    case False
    moreover have "?es\<lparr>is_end_of_file := False\<rparr> = ?es" using es(2) by (cases ?es) simp
    ultimately show ?thesis using q1 q2
      by (simp add: print_chunk_def run_lines_append chunk_of_def)
  qed
qed

lemma chunks_steps:
  assumes "updating p hs env path m cs" and "list_all chunk_text_ok ts" and "\<not> last_chunk_empty cs"
  shows "\<exists>q. run_lines p (concat (map print_chunk ts)) = Inr q \<and>
     updating q hs env path m (cs @ map chunk_of ts)"
  using assms
proof (induction ts arbitrary: p cs)
  case Nil
  then show ?case by simp
next
  case (Cons t ts)
  from chunk_steps [OF Cons.prems(1) _ Cons.prems(3)] Cons.prems(2) obtain q where
    "run_lines p (print_chunk t) = Inr q" "updating q hs env path m (cs @ [chunk_of t])"
    by auto
  with Cons.IH [of q "cs @ [chunk_of t]"] Cons.prems(2) show ?case
    by (simp add: run_lines_append chunk_of_ok)
qed

section \<open>Whole hunks and patches\<close>

lemma hunk_steps:
  assumes "ready p hs env" and "hunk_text_ok h"
  shows "\<exists>q. run_lines p (print_hunk h) = Inr q \<and> ready q (hs @ [hunk_of h]) env"
proof (cases h)
  case (AddText path ls)
  let ?q = "(take_line p)\<lparr>hunks := hs @ [AddFile path []], mode := ModeAddFile\<rparr>"
  have "\<exists>q. run_lines ?q (map ((#) 43) ls) = Inr q \<and>
      ready q (hs @ [AddFile path ([] @ concat (map (\<lambda>l. l @ [chr_nl]) ls))]) env"
    by (rule add_lines) (use assms(1) in \<open>simp_all add: ready_def\<close>)
  with AddText assms add_header [OF assms(1)] show ?thesis by simp
next
  case (DeleteText path)
  with assms delete_header [OF assms(1)] show ?thesis by (simp add: ready_def)
next
  case (UpdateText path dest cs)
  let ?q = "(take_line p)\<lparr>hunks := hs @ [UpdateFile path None []],
                           mode := ModeUpdateFile (Suc (line_number p))\<rparr>"
  have h: "process_line (take_line p) (UPDATE_FILE_MARKER @ path) = Inr ?q"
    using UpdateText assms by (simp add: update_header)
  have 0: "updating ?q hs env path None []" using assms(1) by (simp add: updating_def ready_def)
  have "\<exists>q. run_lines ?q (case dest of None \<Rightarrow> [] | Some d \<Rightarrow> [MOVE_TO_MARKER @ d]) = Inr q \<and>
      updating q hs env path dest []"
  proof (cases dest)
    case None
    with 0 show ?thesis by simp
  next
    case (Some d)
    with UpdateText assms(2) move_step [OF 0, of d] show ?thesis
      by (auto simp: opt_name_ok_def)
  qed
  then obtain q1 where q1:
    "run_lines ?q (case dest of None \<Rightarrow> [] | Some d \<Rightarrow> [MOVE_TO_MARKER @ d]) = Inr q1"
    "updating q1 hs env path dest []" by blast
  from chunks_steps [OF q1(2), of cs] UpdateText assms(2) obtain q2 where q2:
    "run_lines q1 (concat (map print_chunk cs)) = Inr q2"
    "updating q2 hs env path dest (map chunk_of cs)" by auto
  then have "ready q2 (hs @ [hunk_of h]) env"
    using assms UpdateText
    by (auto simp: ready_def updating_def list_all_iff dest: chunk_of_ok)
  with UpdateText h q1 q2 show ?thesis by (simp add: run_lines_append)
qed

lemma hunks_steps:
  "ready p hs env \<Longrightarrow> list_all hunk_text_ok ts \<Longrightarrow>
     \<exists>q. run_lines p (concat (map print_hunk ts)) = Inr q \<and> ready q (hs @ map hunk_of ts) env"
proof (induction ts arbitrary: p hs)
  case Nil
  then show ?case by simp
next
  case (Cons t ts)
  from hunk_steps [OF Cons.prems(1)] Cons.prems(2) obtain q where
    "run_lines p (print_hunk t) = Inr q" "ready q (hs @ [hunk_of t]) env" by auto
  with Cons.IH [of q "hs @ [hunk_of t]"] Cons.prems(2) show ?case
    by (simp add: run_lines_append)
qed

text \<open>The lines of a printed patch, without the closing marker.\<close>

definition body_lines :: "rstr option \<Rightarrow> hunk_text list \<Rightarrow> rstr list" where
  "body_lines env hs =
     BEGIN_PATCH_MARKER
     # (case env of None \<Rightarrow> [] | Some e \<Rightarrow> [ENVIRONMENT_ID_MARKER @ 32 # e])
     @ concat (map print_hunk hs)"

lemma print_patch_body:
  "print_patch env hs = join_with [chr_nl] (body_lines env hs @ [END_PATCH_MARKER])"
  by (simp add: print_patch_def body_lines_def)

lemma join_with_snoc:
  "join_with [c] (ls @ [x]) = concat (map (\<lambda>l. l @ [c]) ls) @ x"
proof (induction ls)
  case (Cons l ls)
  then show ?case by (cases ls) simp_all
qed simp

lemma line_ok_append:
  "line_ok l \<Longrightarrow> l \<noteq> [] \<Longrightarrow> chr_nl \<notin> set m \<Longrightarrow> line_ok (m @ l)"
  by (simp add: line_ok_def)

lemma name_ok_line: "name_ok s \<Longrightarrow> chr_nl \<notin> set m \<Longrightarrow> line_ok (m @ s)"
  by (auto simp: line_ok_def name_ok_def is_whitespace_def)

lemma marker_lines [simp]:
  "chr_nl \<notin> set ADD_FILE_MARKER" "chr_nl \<notin> set DELETE_FILE_MARKER"
  "chr_nl \<notin> set UPDATE_FILE_MARKER" "chr_nl \<notin> set MOVE_TO_MARKER"
  "chr_nl \<notin> set CHANGE_CONTEXT_MARKER" "chr_nl \<notin> set ENVIRONMENT_ID_MARKER"
  "line_ok EMPTY_CHANGE_CONTEXT_MARKER" "line_ok EOF_MARKER" "line_ok BEGIN_PATCH_MARKER"
  "line_ok END_PATCH_MARKER"
  by (simp_all add: marker_defs lit_eval line_ok_def)

lemma print_edit_line: "edit_ok e \<Longrightarrow> line_ok (print_edit e)"
  by (cases e) (auto simp: line_ok_def)

lemma print_chunk_lines: "chunk_text_ok c \<Longrightarrow> list_all line_ok (print_chunk c)"
  by (auto simp: chunk_text_ok_def print_chunk_def opt_name_ok_def list_all_iff
      intro: print_edit_line name_ok_line split: option.splits)

lemma line_ok_Cons: "line_ok l \<Longrightarrow> c \<noteq> chr_nl \<Longrightarrow> c \<noteq> chr_cr \<Longrightarrow> line_ok (c # l)"
  by (auto simp: line_ok_def)

lemma print_hunk_lines: "hunk_text_ok h \<Longrightarrow> list_all line_ok (print_hunk h)"
  by (cases h) (use print_chunk_lines in \<open>auto simp: list_all_iff opt_name_ok_def
      intro: name_ok_line line_ok_Cons split: option.splits\<close>)

lemma body_lines_ok:
  assumes "env_ok env" and "list_all hunk_text_ok hs"
  shows "list_all line_ok (body_lines env hs)"
proof -
  have "name_ok e \<Longrightarrow> line_ok (ENVIRONMENT_ID_MARKER @ 32 # e)" for e
    using name_ok_line [of "32 # e" ENVIRONMENT_ID_MARKER] by (simp add: name_ok_def)
  with assms show ?thesis
    using print_hunk_lines
    by (auto simp: body_lines_def env_ok_def list_all_iff split: option.splits)
qed

lemma body_steps:
  assumes "env_ok env" and "list_all hunk_text_ok hs"
  shows "\<exists>q. run_lines default_parser (body_lines env hs) = Inr q \<and> ready q (map hunk_of hs) env"
proof -
  let ?p = "(take_line default_parser)\<lparr>mode := StartedPatch\<rparr>"
  have b: "process_line (take_line default_parser) BEGIN_PATCH_MARKER = Inr ?p"
  proof -
    have "trim BEGIN_PATCH_MARKER = BEGIN_PATCH_MARKER"
      by (rule trim_id) (simp add: marker_defs lit_eval is_whitespace_def)
    then show ?thesis by (simp add: process_line_def default_parser_def)
  qed
  have p: "ready ?p [] None" by (simp add: ready_def default_parser_def)
  have "\<exists>q. run_lines ?p (case env of None \<Rightarrow> [] | Some e \<Rightarrow> [ENVIRONMENT_ID_MARKER @ 32 # e]) = Inr q
      \<and> ready q [] env"
  proof (cases env)
    case None
    with p show ?thesis by simp
  next
    case (Some e)
    with assms(1) have e': "name_ok e" "\<not> is_whitespace (hd e)" by (simp_all add: env_ok_def)
    then have e: "name_ok (32 # e)" "e \<noteq> []" "trim e = e"
      by (simp_all add: name_ok_def trim_id)
    have "is_whitespace 32" by (simp add: is_whitespace_def)
    then have e3: "trim (32 # e) = e"
      using e(3) by (simp add: trim_def trim_start_def)
    have m: "\<not> is_whitespace (hd ENVIRONMENT_ID_MARKER)" "ENVIRONMENT_ID_MARKER \<noteq> []"
      by (simp_all add: ENVIRONMENT_ID_MARKER_def lit_eval)
    have "handle_hunk_headers_and_end_patch (take_line ?p) (ENVIRONMENT_ID_MARKER @ 32 # e) =
        Inr (True, (take_line ?p)\<lparr>environment_id := Some e\<rparr>)"
      using e(2) e3 by (simp add: handle_hunk_headers_and_end_patch_def default_parser_def)
    then have "process_line (take_line ?p) (ENVIRONMENT_ID_MARKER @ 32 # e) =
        Inr ((take_line ?p)\<lparr>environment_id := Some e\<rparr>)"
      by (rule process_header [OF ready_take_line [OF p] trim_marker [OF e(1) m]])
    with Some p show ?thesis by (simp add: ready_def)
  qed
  then obtain q where q: "run_lines ?p
      (case env of None \<Rightarrow> [] | Some e \<Rightarrow> [ENVIRONMENT_ID_MARKER @ 32 # e]) = Inr q"
      "ready q [] env" by blast
  from hunks_steps [OF q(2) assms(2)] q(1) b show ?thesis
    by (simp add: body_lines_def run_lines_append)
qed

lemma finish_ready:
  assumes "ready p hs env"
  shows "\<exists>q. finish (p\<lparr>line_buffer := END_PATCH_MARKER\<rparr>) = (Inr hs, q) \<and> environment_id q = env"
proof -
  have "trim END_PATCH_MARKER = END_PATCH_MARKER" "END_PATCH_MARKER \<noteq> []"
    by (rule trim_id) (simp_all add: marker_defs lit_eval is_whitespace_def)
  with assms show ?thesis
    by (simp add: finish_def finish_line_def Let_def ready_def ensure_ready)
qed

lemma push_delta_print:
  assumes "env_ok env" and "list_all hunk_text_ok hs"
  shows "\<exists>q. push_delta default_parser (print_patch env hs) =
       (Inr (map hunk_of hs), q\<lparr>line_buffer := END_PATCH_MARKER\<rparr>) \<and> ready q (map hunk_of hs) env"
proof -
  from body_steps [OF assms] obtain q where q:
    "run_lines default_parser (body_lines env hs) = Inr q" "ready q (map hunk_of hs) env" by blast
  have "\<forall>l \<in> set (body_lines env hs). chr_nl \<notin> set l \<and> (l = [] \<or> last l \<noteq> chr_cr)"
    using body_lines_ok [OF assms] by (auto simp: list_all_iff line_ok_def)
  from push_delta_run_lines [OF q(1) _ this, of END_PATCH_MARKER]
  have "push_delta default_parser (print_patch env hs) = push_delta q END_PATCH_MARKER"
    by (simp add: default_parser_def print_patch_body join_with_snoc)
  also have "\<dots> = push_delta (q\<lparr>line_buffer := END_PATCH_MARKER\<rparr>) []"
    using push_delta_chars [of END_PATCH_MARKER q "[]"] q(2)
    by (simp add: ready_def line_ok_def [symmetric] marker_lines(10) [unfolded line_ok_def])
  finally show ?thesis using q(2) by (auto simp: ready_def)
qed

lemma print_patch_lines:
  assumes "env_ok env" and "list_all hunk_text_ok hs"
  shows "trim (print_patch env hs) = print_patch env hs"
    and "str_lines (print_patch env hs) = body_lines env hs @ [END_PATCH_MARKER]"
proof -
  have j: "print_patch env hs =
      concat (map (\<lambda>l. l @ [chr_nl]) (body_lines env hs)) @ END_PATCH_MARKER"
    by (simp add: print_patch_body join_with_snoc)
  have h: "hd (print_patch env hs) = 42"
    unfolding j by (simp add: body_lines_def marker_defs lit_eval)
  have l: "last (print_patch env hs) = 104"
    unfolding j by (simp add: marker_defs lit_eval)
  show "trim (print_patch env hs) = print_patch env hs"
    by (rule trim_id) (use h l in \<open>simp add: is_whitespace_def\<close>)
  show "str_lines (print_patch env hs) = body_lines env hs @ [END_PATCH_MARKER]"
    unfolding print_patch_body
    by (rule str_lines_join)
      (use body_lines_ok [OF assms] marker_lines marker_heads in
        \<open>auto simp: list_all_iff line_ok_def\<close>)
qed

lemma boundaries_print:
  "check_patch_boundaries_strict (body_lines env hs @ [END_PATCH_MARKER]) =
     Inr (body_lines env hs @ [END_PATCH_MARKER])"
proof -
  have "trim BEGIN_PATCH_MARKER = BEGIN_PATCH_MARKER" "trim END_PATCH_MARKER = END_PATCH_MARKER"
    by (rule trim_id, simp add: marker_defs lit_eval is_whitespace_def)+
  then show ?thesis
    by (simp add: check_patch_boundaries_strict_def check_start_and_end_lines_strict_def
        body_lines_def last_opt_def)
qed

lemma parse_print_strict:
  assumes "env_ok env" and "list_all hunk_text_ok hs"
  shows "parse_patch_text (print_patch env hs) Strict =
     Inr \<lparr>args_patch = print_patch env hs, args_hunks = map hunk_of hs, args_workdir = None,
          args_environment_id = env\<rparr>"
proof -
  from push_delta_print [OF assms] obtain q where
      d: "push_delta default_parser (print_patch env hs) =
          (Inr (map hunk_of hs), q\<lparr>line_buffer := END_PATCH_MARKER\<rparr>)"
    and q: "ready q (map hunk_of hs) env" by blast
  from finish_ready [OF q] obtain r where
    "finish (q\<lparr>line_buffer := END_PATCH_MARKER\<rparr>) = (Inr (map hunk_of hs), r)"
    "environment_id r = env" by blast
  with d show ?thesis
    by (simp add: parse_patch_text_def print_patch_lines [OF assms] boundaries_print
        print_patch_body [symmetric])
qed

section \<open>Properties\<close>

text \<open>
  C2. Parsing inverts printing: the text of any well-formed patch (an optional
  environment, added, deleted, updated and renamed files with their chunks) is parsed back
  to exactly the hunks it denotes.
\<close>

theorem parse_print_roundtrip:
  assumes "env_ok env" and "list_all hunk_text_ok hs"
  shows "parse_patch (print_patch env hs) =
     Inr \<lparr>args_patch = print_patch env hs, args_hunks = map hunk_of hs, args_workdir = None,
          args_environment_id = env\<rparr>"
  using assms by (intro parse_strict_imp_parse_patch parse_print_strict)

theorem parse_print_roundtrip_witness:
  "parse_patch (print_patch (Some (lit ''e'')) [DeleteText (lit ''a''), AddText (lit ''b'') [lit ''x'', []]]) =
     Inr \<lparr>args_patch = print_patch (Some (lit ''e'')) [DeleteText (lit ''a''), AddText (lit ''b'') [lit ''x'', []]],
          args_hunks = [DeleteFile (lit ''a''), AddFile (lit ''b'') (lit ''x'' @ [10, 10])],
          args_workdir = None, args_environment_id = Some (lit ''e'')\<rparr>"
proof -
  have "env_ok (Some (lit ''e''))"
    "list_all hunk_text_ok [DeleteText (lit ''a''), AddText (lit ''b'') [lit ''x'', []]]" by code_simp+
  from parse_print_roundtrip [OF this] show ?thesis by simp
qed

end
