(* ===== verification/Seek_Sequence.thy ===== *)
theory Seek_Sequence
  imports Prelude
begin

text \<open>
  \<open>apply-patch/src/seek_sequence.rs\<close>: where in a file the lines of a chunk are found,
  in four passes of decreasing strictness.
\<close>

section \<open>Model\<close>

text \<open>\<open>ApplyPatchFileUpdateMode\<close> of \<open>lib.rs\<close>.\<close>

datatype ApplyPatchFileUpdateMode = NormalizeToLf | PreserveLineEndings

definition normalise_char :: "rchar \<Rightarrow> rchar" where
  "normalise_char c =
     (if c \<in> {8208, 8209, 8210, 8211, 8212, 8213, 8722} then 45
      else if c \<in> {8216, 8217, 8218, 8219} then 39
      else if c \<in> {8220, 8221, 8222, 8223} then 34
      else if c \<in> {160, 8194, 8195, 8196, 8197, 8198, 8199, 8200, 8201, 8202, 8239, 8287, 12288}
        then 32
      else c)"

definition normalise :: "rstr \<Rightarrow> rstr" where
  "normalise s = map normalise_char (trim s)"

text \<open>
  \<open>lines[i + p_idx]\<close> against \<open>pattern[p_idx]\<close> for every \<open>p_idx\<close>; the loop bounds keep
  \<open>i + pattern.len()\<close> within \<open>lines\<close>, so no index is out of range.
\<close>

definition match_at :: "(rstr \<Rightarrow> rstr \<Rightarrow> bool) \<Rightarrow> rstr list \<Rightarrow> rstr list \<Rightarrow> nat \<Rightarrow> bool" where
  "match_at eq ls pattern i \<longleftrightarrow> list_all2 eq (take (length pattern) (drop i ls)) pattern"

text \<open>One \<open>for i in search_start..=last\<close> pass.\<close>

definition seek_pass ::
    "(rstr \<Rightarrow> rstr \<Rightarrow> bool) \<Rightarrow> rstr list \<Rightarrow> rstr list \<Rightarrow> nat \<Rightarrow> nat option" where
  "seek_pass eq ls pattern search_start =
     List.find (match_at eq ls pattern) [search_start ..< Suc (length ls - length pattern)]"

definition rstrip_eq :: "rstr \<Rightarrow> rstr \<Rightarrow> bool" where
  "rstrip_eq a b \<longleftrightarrow> trim_end a = trim_end b"

definition trim_eq :: "rstr \<Rightarrow> rstr \<Rightarrow> bool" where
  "trim_eq a b \<longleftrightarrow> trim a = trim b"

definition normalise_eq :: "rstr \<Rightarrow> rstr \<Rightarrow> bool" where
  "normalise_eq a b \<longleftrightarrow> normalise a = normalise b"

definition search_start ::
    "rstr list \<Rightarrow> rstr list \<Rightarrow> nat \<Rightarrow> bool \<Rightarrow> ApplyPatchFileUpdateMode \<Rightarrow> nat" where
  "search_start ls pattern start eof update_file_mode =
     (if eof \<and> length pattern \<le> length ls then
        (let eof_start = length ls - length pattern in
         case update_file_mode of
           NormalizeToLf \<Rightarrow> eof_start
         | PreserveLineEndings \<Rightarrow> max eof_start start)
      else start)"

definition seek_sequence ::
    "rstr list \<Rightarrow> rstr list \<Rightarrow> nat \<Rightarrow> bool \<Rightarrow> ApplyPatchFileUpdateMode \<Rightarrow> nat option" where
  "seek_sequence ls pattern start eof update_file_mode =
     (if pattern = [] then Some start
      else if length ls < length pattern then None
      else
        (let s = search_start ls pattern start eof update_file_mode in
         case seek_pass (=) ls pattern s of
           Some i \<Rightarrow> Some i
         | None \<Rightarrow>
             (case seek_pass rstrip_eq ls pattern s of
                Some i \<Rightarrow> Some i
              | None \<Rightarrow>
                  (case seek_pass trim_eq ls pattern s of
                     Some i \<Rightarrow> Some i
                   | None \<Rightarrow> seek_pass normalise_eq ls pattern s))))"

section \<open>The comparisons are ordered by strictness\<close>

lemma trim_end_Cons:
  "trim_end (x # xs) = (if trim_end xs = [] \<and> is_whitespace x then [] else x # trim_end xs)"
proof (cases "is_whitespace x")
  case False
  then show ?thesis by (simp add: trim_end_Cons_nonws)
next
  case True
  show ?thesis
  proof (cases "\<forall>y \<in> set xs. is_whitespace y")
    case all: True
    with True show ?thesis by (simp add: trim_end_def)
  next
    case False
    then obtain y where "y \<in> set (rev xs)" "\<not> is_whitespace y" by auto
    then have "dropWhile is_whitespace (rev xs @ [x]) = dropWhile is_whitespace (rev xs) @ [x]"
      by (rule dropWhile_append1)
    moreover from False have "trim_end xs \<noteq> []" by (simp add: trim_end_def)
    ultimately show ?thesis by (simp add: trim_end_def)
  qed
qed

lemma trim_commute: "trim s = trim_start (trim_end s)"
  unfolding trim_def
  by (induction s) (auto simp: trim_start_def trim_end_Cons)

lemma rstrip_imp_trim: "rstrip_eq a b \<Longrightarrow> trim_eq a b"
  by (simp add: rstrip_eq_def trim_eq_def trim_commute)

lemma trim_imp_normalise: "trim_eq a b \<Longrightarrow> normalise_eq a b"
  by (simp add: trim_eq_def normalise_eq_def normalise_def)

text \<open>The four comparisons, strictest first.\<close>

definition strictness :: "(rstr \<Rightarrow> rstr \<Rightarrow> bool) list" where
  "strictness = [(=), rstrip_eq, trim_eq, normalise_eq]"

lemma strictness_imp_normalise:
  "k < 4 \<Longrightarrow> (strictness ! k) a b \<Longrightarrow> normalise_eq a b"
proof -
  assume "k < 4" and k: "(strictness ! k) a b"
  then consider "k = 0" | "k = 1" | "k = 2" | "k = 3" by linarith
  then show ?thesis
    using k by cases (simp_all add: strictness_def trim_imp_normalise rstrip_imp_trim,
        simp add: normalise_eq_def)
qed

lemma match_at_normalise:
  "k < 4 \<Longrightarrow> match_at (strictness ! k) ls pattern i \<Longrightarrow> match_at normalise_eq ls pattern i"
  unfolding match_at_def by (erule list_all2_mono) (rule strictness_imp_normalise)

section \<open>What a search returns\<close>

lemma find_upt_Some:
  "List.find P [a ..< b] = Some i \<longleftrightarrow> a \<le> i \<and> i < b \<and> P i \<and> (\<forall>j. a \<le> j \<and> j < i \<longrightarrow> \<not> P j)"
proof (induction "b - a" arbitrary: a)
  case 0
  then show ?case by simp
next
  case (Suc d)
  from Suc.hyps(2) have "[a ..< b] = a # [Suc a ..< b]" by (simp add: upt_conv_Cons)
  moreover have "List.find P [Suc a ..< b] = Some i \<longleftrightarrow>
      Suc a \<le> i \<and> i < b \<and> P i \<and> (\<forall>j. Suc a \<le> j \<and> j < i \<longrightarrow> \<not> P j)"
    using Suc.hyps(2) by (intro Suc.hyps(1)) simp
  moreover have "a < b" using Suc.hyps(2) by simp
  moreover have "(\<forall>j. a \<le> j \<and> j < i \<longrightarrow> \<not> P j) \<longleftrightarrow>
      (a < i \<longrightarrow> \<not> P a) \<and> (\<forall>j. Suc a \<le> j \<and> j < i \<longrightarrow> \<not> P j)"
    by (metis Suc_leD Suc_leI le_neq_implies_less order_refl order_le_less_trans)
  moreover have "a \<le> i \<longleftrightarrow> a = i \<or> Suc a \<le> i" by auto
  ultimately show ?case by (cases "P a") auto
qed

lemma find_upt_None: "List.find P [a ..< b] = None \<longleftrightarrow> (\<forall>j. a \<le> j \<and> j < b \<longrightarrow> \<not> P j)"
  by (auto simp: find_None_iff)

lemma seek_pass_Some:
  "seek_pass eq ls pattern s = Some i \<longleftrightarrow>
     s \<le> i \<and> i \<le> length ls - length pattern \<and> match_at eq ls pattern i \<and>
     (\<forall>j. s \<le> j \<and> j < i \<longrightarrow> \<not> match_at eq ls pattern j)"
  by (auto simp: seek_pass_def find_upt_Some simp del: upt_Suc)

lemma seek_pass_None:
  "seek_pass eq ls pattern s = None \<longleftrightarrow>
     (\<forall>j. s \<le> j \<and> j \<le> length ls - length pattern \<longrightarrow> \<not> match_at eq ls pattern j)"
  by (auto simp: seek_pass_def find_upt_None simp del: upt_Suc)

lemma seek_sequence_bounds:
  assumes "seek_sequence ls pattern start eof m = Some i" and "pattern \<noteq> []"
  shows "search_start ls pattern start eof m \<le> i" and "i + length pattern \<le> length ls"
proof -
  have len: "length pattern \<le> length ls"
    using assms by (auto simp: seek_sequence_def split: if_splits)
  have "search_start ls pattern start eof m \<le> i \<and> i \<le> length ls - length pattern"
    using assms
    by (auto simp: seek_sequence_def Let_def seek_pass_Some split: if_splits option.splits)
  with len show "search_start ls pattern start eof m \<le> i" and "i + length pattern \<le> length ls"
    by auto
qed

lemma search_start_preserve: "start \<le> search_start ls pattern start eof PreserveLineEndings"
  by (simp add: search_start_def Let_def)

lemma search_start_no_eof: "search_start ls pattern start False m = start"
  by (simp add: search_start_def)

lemma seek_preserve_bounds:
  assumes "seek_sequence ls pattern start eof PreserveLineEndings = Some i" and "start \<le> length ls"
  shows "start \<le> i \<and> i + length pattern \<le> length ls"
proof (cases "pattern = []")
  case True
  with assms show ?thesis by (simp add: seek_sequence_def)
next
  case False
  with seek_sequence_bounds [OF assms(1)] search_start_preserve [of start ls pattern eof]
  show ?thesis by force
qed

lemma seek_normalize_bounds:
  assumes "seek_sequence ls pattern start eof m = Some i" and "start \<le> length ls"
  shows "i + length pattern \<le> length ls"
  using assms seek_sequence_bounds(2) by (cases "pattern = []") (auto simp: seek_sequence_def)

text \<open>
  The result at full strength: which pass found it, that it is the first match of that
  pass, and that no stricter pass matches anywhere in the searched range.
\<close>

lemma seek_sequence_Some:
  assumes "pattern \<noteq> []"
  shows "seek_sequence ls pattern start eof m = Some i \<longleftrightarrow>
     (let s = search_start ls pattern start eof m in
      s \<le> i \<and> i + length pattern \<le> length ls \<and>
      (\<exists>k < 4. match_at (strictness ! k) ls pattern i \<and>
         (\<forall>j. s \<le> j \<and> j < i \<longrightarrow> \<not> match_at (strictness ! k) ls pattern j) \<and>
         (\<forall>k' < k. \<forall>j. s \<le> j \<and> j + length pattern \<le> length ls \<longrightarrow>
            \<not> match_at (strictness ! k') ls pattern j)))"
    (is "?l \<longleftrightarrow> ?r")
proof (cases "length ls < length pattern")
  case True
  with assms show ?thesis by (simp add: seek_sequence_def Let_def)
next
  case False
  let ?s = "search_start ls pattern start eof m"
  have idx: "i \<le> length ls - length pattern \<longleftrightarrow> i + length pattern \<le> length ls" for i
    using False by auto
  have ex4: "(\<exists>k < 4. P k) \<longleftrightarrow> P 0 \<or> P 1 \<or> P 2 \<or> P (3::nat)" for P :: "nat \<Rightarrow> bool"
    using less_Suc_eq by (auto simp: numeral_eq_Suc)
  have all: "(\<forall>k < (1::nat). Q k) \<longleftrightarrow> Q 0" "(\<forall>k < (2::nat). Q k) \<longleftrightarrow> Q 0 \<and> Q 1"
      "(\<forall>k < (3::nat). Q k) \<longleftrightarrow> Q 0 \<and> Q 1 \<and> Q 2" for Q :: "nat \<Rightarrow> bool"
    by (auto simp: numeral_eq_Suc less_Suc_eq)
  have some: "seek_pass eq ls pattern ?s = Some i \<longleftrightarrow>
     ?s \<le> i \<and> i + length pattern \<le> length ls \<and> match_at eq ls pattern i \<and>
     (\<forall>j. ?s \<le> j \<and> j < i \<longrightarrow> \<not> match_at eq ls pattern j)" for eq i
    by (simp add: seek_pass_Some idx)
  have none: "seek_pass eq ls pattern ?s = None \<longleftrightarrow>
     (\<forall>j. ?s \<le> j \<and> j + length pattern \<le> length ls \<longrightarrow> \<not> match_at eq ls pattern j)" for eq
    by (simp add: seek_pass_None idx)
  have "?l \<longleftrightarrow> seek_pass (=) ls pattern ?s = Some i
     \<or> seek_pass (=) ls pattern ?s = None \<and> seek_pass rstrip_eq ls pattern ?s = Some i
     \<or> seek_pass (=) ls pattern ?s = None \<and> seek_pass rstrip_eq ls pattern ?s = None
         \<and> seek_pass trim_eq ls pattern ?s = Some i
     \<or> seek_pass (=) ls pattern ?s = None \<and> seek_pass rstrip_eq ls pattern ?s = None
         \<and> seek_pass trim_eq ls pattern ?s = None \<and> seek_pass normalise_eq ls pattern ?s = Some i"
    using assms False by (auto simp: seek_sequence_def Let_def split: option.splits)
  then show ?thesis
    unfolding some none ex4 all Let_def by (simp add: strictness_def) blast
qed

lemma seek_sequence_None:
  assumes "pattern \<noteq> []"
  shows "seek_sequence ls pattern start eof m = None \<longleftrightarrow>
     (\<forall>j. search_start ls pattern start eof m \<le> j \<and> j + length pattern \<le> length ls \<longrightarrow>
        \<not> match_at normalise_eq ls pattern j)"
proof (cases "length ls < length pattern")
  case True
  with assms show ?thesis by (auto simp: seek_sequence_def)
next
  case False
  let ?s = "search_start ls pattern start eof m"
  have none: "seek_pass eq ls pattern ?s = None \<longleftrightarrow>
     (\<forall>j. ?s \<le> j \<and> j + length pattern \<le> length ls \<longrightarrow> \<not> match_at eq ls pattern j)" for eq
    using False by (auto simp: seek_pass_None)
  have "seek_sequence ls pattern start eof m = None \<longleftrightarrow>
     (\<forall>eq \<in> set strictness. seek_pass eq ls pattern ?s = None)"
    using assms False by (auto simp: seek_sequence_def Let_def strictness_def split: option.splits)
  also have "\<dots> \<longleftrightarrow> seek_pass normalise_eq ls pattern ?s = None"
    unfolding none
    using match_at_normalise [of 0] match_at_normalise [of 1] match_at_normalise [of 2]
    by (auto simp: strictness_def)
  finally show ?thesis unfolding none .
qed

section \<open>Properties\<close>

text \<open>
  What the search finds: the position returned lies within the file from the search
  start on, matches under the strictest comparison (equal, equal up to trailing white
  space, up to surrounding white space, up to typographic characters) under which any
  position matches, and is the first to do so.
\<close>

theorem seek_sequence_first_strictest:
  assumes "pattern \<noteq> []"
  shows "seek_sequence ls pattern start eof m = Some i \<longleftrightarrow>
     (let s = search_start ls pattern start eof m in
      s \<le> i \<and> i + length pattern \<le> length ls \<and>
      (\<exists>k < 4. match_at (strictness ! k) ls pattern i \<and>
         (\<forall>j. s \<le> j \<and> j < i \<longrightarrow> \<not> match_at (strictness ! k) ls pattern j) \<and>
         (\<forall>k' < k. \<forall>j. s \<le> j \<and> j + length pattern \<le> length ls \<longrightarrow>
            \<not> match_at (strictness ! k') ls pattern j)))"
  using assms by (rule seek_sequence_Some)

theorem seek_sequence_first_strictest_witness:
  "seek_sequence [[97, 32], [97]] [[97]] 0 False NormalizeToLf = Some 1 \<and>
   (\<exists>k < 4. match_at (strictness ! k) [[97, 32], [97]] [[97]] 1)"
proof -
  have "seek_sequence [[97, 32], [97]] [[97]] 0 False NormalizeToLf = Some 1" by code_simp
  then show ?thesis
    using seek_sequence_first_strictest [of "[[97]]" "[[97, 32], [97]]" 0 False NormalizeToLf 1]
    unfolding Let_def by blast
qed

text \<open>
  The search fails exactly when no position from the search start on matches even
  under the loosest comparison.
\<close>

theorem seek_sequence_fails_iff:
  assumes "pattern \<noteq> []"
  shows "seek_sequence ls pattern start eof m = None \<longleftrightarrow>
     (\<forall>j. search_start ls pattern start eof m \<le> j \<and> j + length pattern \<le> length ls \<longrightarrow>
        \<not> match_at normalise_eq ls pattern j)"
  using assms by (rule seek_sequence_None)

theorem seek_sequence_fails_iff_witness:
  "seek_sequence [[97]] [[98]] 0 False NormalizeToLf = None \<and> \<not> match_at normalise_eq [[97]] [[98]] 0"
proof -
  have 1: "seek_sequence [[97]] [[98]] 0 False NormalizeToLf = None" by code_simp
  have "search_start [[97]] [[98]] 0 False NormalizeToLf \<le> 0 \<and> 0 + length [[98]] \<le> length [[97]]"
    by code_simp
  with 1 seek_sequence_fails_iff [of "[[98]]" "[[97]]" 0 False NormalizeToLf] show ?thesis by blast
qed

end
