(* ===== verification/Text_File.thy ===== *)
theory Text_File
  imports Prelude
begin

text \<open>
  \<open>apply-patch/src/text_file.rs\<close>: a file as lines that keep their own line ending, the
  splice of replacements, and the round trip of parsing and printing.
\<close>

section \<open>Model\<close>

type_synonym replacement = "nat \<times> nat \<times> rstr list"

datatype LineEnding = Lf | CrLf | Cr

fun ending_str :: "LineEnding \<Rightarrow> rstr" where
  "ending_str Lf = [chr_nl]"
| "ending_str CrLf = [chr_cr, chr_nl]"
| "ending_str Cr = [chr_cr]"

record source_line =
  line_text :: rstr
  ending :: "LineEnding option"

record source_file =
  sf_lines :: "source_line list"
  preferred_ending :: LineEnding

text \<open>The match on \<open>contents.as_bytes()[cursor]\<close>: the ending and its length, if any.\<close>

fun ending_at :: "rstr \<Rightarrow> (LineEnding \<times> nat) option" where
  "ending_at [] = None"
| "ending_at (c # rest) =
     (if c = chr_cr \<and> starts_with rest [chr_nl] then Some (CrLf, 2)
      else if c = chr_cr then Some (Cr, 1)
      else if c = chr_nl then Some (Lf, 1)
      else None)"

lemma ending_at_Some:
  "ending_at s = Some (e, n) \<Longrightarrow> n = length (ending_str e) \<and> s = ending_str e @ drop n s \<and> s \<noteq> [] \<and> 1 \<le> n"
  by (cases s) (auto simp: starts_with_prefix split: if_splits elim!: prefixE)

text \<open>
  The \<open>while cursor < contents.len()\<close> loop: \<open>cur\<close> is \<open>contents[line_start..cursor]\<close>,
  the list \<open>contents[cursor..]\<close>.
\<close>

function parse_loop ::
    "LineEnding option \<Rightarrow> rstr \<Rightarrow> rstr \<Rightarrow> source_line list \<times> LineEnding option" where
  "parse_loop pref cur [] =
     (if cur = [] then ([], pref) else ([\<lparr>line_text = cur, ending = None\<rparr>], pref))"
| "parse_loop pref cur (c # rest) =
     (case ending_at (c # rest) of
        None \<Rightarrow> parse_loop pref (cur @ [c]) rest
      | Some (e, ending_len) \<Rightarrow>
          (let (ls, pref') =
             parse_loop (case pref of None \<Rightarrow> Some e | Some p \<Rightarrow> Some p) []
               (drop ending_len (c # rest))
           in (\<lparr>line_text = cur, ending = Some e\<rparr> # ls, pref')))"
  by pat_completeness auto
termination
  by (relation "measure (\<lambda>(pref, cur, s). length s)")
    (auto dest: ending_at_Some simp del: ending_at.simps)

definition parse_source :: "rstr \<Rightarrow> source_file" where
  "parse_source contents =
     (let (ls, pref) = parse_loop None [] contents in
      \<lparr>sf_lines = ls, preferred_ending = (case pref of None \<Rightarrow> Lf | Some p \<Rightarrow> p)\<rparr>)"

definition line_texts :: "source_file \<Rightarrow> rstr list" where
  "line_texts f = map line_text (sf_lines f)"

text \<open>
  The loop of \<open>SourceFile::apply_replacements\<close> over the iterator of source lines.
  \<open>None\<close> is the failed \<open>debug_assert!(start_idx >= source_index)\<close>, the point where
  \<open>start_idx - source_index\<close> would underflow.
\<close>

fun splice ::
    "LineEnding \<Rightarrow> nat \<Rightarrow> source_line list \<Rightarrow> replacement list \<Rightarrow> source_line list option" where
  "splice pref source_index src [] = Some src"
| "splice pref source_index src ((start_idx, old_len, new_segment) # rs) =
     (if start_idx < source_index then None
      else
        (let kept = take (start_idx - source_index) src;
             rest = drop old_len (drop (start_idx - source_index) src) in
         map_option
           (\<lambda>tail. kept @ map (\<lambda>t. \<lparr>line_text = t, ending = Some pref\<rparr>) new_segment @ tail)
           (splice pref (start_idx + old_len) rest rs)))"

definition ensure_ending :: "LineEnding \<Rightarrow> source_line \<Rightarrow> source_line" where
  "ensure_ending pref l =
     l\<lparr>ending := Some (case ending l of None \<Rightarrow> pref | Some e \<Rightarrow> e)\<rparr>"

definition sf_apply_replacements :: "source_file \<Rightarrow> replacement list \<Rightarrow> source_file option" where
  "sf_apply_replacements f rs =
     map_option
       (\<lambda>ls. f\<lparr>sf_lines := map (ensure_ending (preferred_ending f)) ls\<rparr>)
       (splice (preferred_ending f) 0 (sf_lines f) rs)"

definition line_str :: "source_line \<Rightarrow> rstr" where
  "line_str l = line_text l @ (case ending l of None \<Rightarrow> [] | Some e \<Rightarrow> ending_str e)"

definition into_contents :: "source_file \<Rightarrow> rstr" where
  "into_contents f = concat (map line_str (sf_lines f))"

section \<open>Parsing and printing\<close>

lemma line_str_mk [simp]:
  "line_str \<lparr>line_text = t, ending = e\<rparr> = t @ (case e of None \<Rightarrow> [] | Some x \<Rightarrow> ending_str x)"
  by (simp add: line_str_def)

lemma parse_loop_ending:
  assumes "ending_at (c # rest) = Some (e, n)"
  shows "fst (parse_loop pref cur (c # rest)) =
     \<lparr>line_text = cur, ending = Some e\<rparr>
     # fst (parse_loop (case pref of None \<Rightarrow> Some e | Some p \<Rightarrow> Some p) [] (drop n (c # rest)))"
  using assms
  by (simp add: Let_def del: ending_at.simps drop_Cons' split: prod.split)

lemma parse_loop_print:
  "concat (map line_str (fst (parse_loop pref cur s))) = cur @ s"
proof (induction pref cur s rule: parse_loop.induct)
  case (1 pref cur)
  then show ?case by (simp add: line_str_def)
next
  case (2 pref cur c rest)
  show ?case
  proof (cases "ending_at (c # rest)")
    case None
    with 2 show ?thesis by simp
  next
    case (Some en)
    obtain e n where en: "en = (e, n)" by (cases en)
    let ?r = "parse_loop (case pref of None \<Rightarrow> Some e | Some p \<Rightarrow> Some p) [] (drop n (c # rest))"
    have s: "c # rest = ending_str e @ drop n (c # rest)"
      using ending_at_Some Some en by blast
    have "concat (map line_str (fst ?r)) = drop n (c # rest)"
      using "2.IH"(2) [OF Some] en by simp
    with Some en s show ?thesis
      by (simp add: parse_loop_ending del: ending_at.simps parse_loop.simps)
  qed
qed

lemma parse_loop_endings:
  "\<forall>l \<in> set (butlast (fst (parse_loop pref cur s))). ending l \<noteq> None"
proof (induction pref cur s rule: parse_loop.induct)
  case (1 pref cur)
  then show ?case by simp
next
  case (2 pref cur c rest)
  then show ?case
    by (auto split: option.splits prod.splits simp: split_beta simp del: ending_at.simps)
qed

text \<open>No line text holds a line ending.\<close>

lemma parse_loop_texts:
  "chr_nl \<notin> set cur \<Longrightarrow> chr_cr \<notin> set cur \<Longrightarrow>
     \<forall>l \<in> set (fst (parse_loop pref cur s)). chr_nl \<notin> set (line_text l) \<and> chr_cr \<notin> set (line_text l)"
proof (induction pref cur s rule: parse_loop.induct)
  case (1 pref cur)
  then show ?case by simp
next
  case (2 pref cur c rest)
  show ?case
  proof (cases "ending_at (c # rest)")
    case None
    then have "c \<noteq> chr_nl" "c \<noteq> chr_cr" by (auto split: if_splits)
    with 2 None show ?thesis by simp
  next
    case (Some en)
    with 2 show ?thesis
      by (cases en) (simp add: parse_loop_ending del: ending_at.simps parse_loop.simps)
  qed
qed

section \<open>Splicing\<close>

text \<open>
  Replacements in order: each starts at or after the end of the one before and all lie
  within \<open>n\<close> lines.
\<close>

fun spans_ok :: "nat \<Rightarrow> replacement list \<Rightarrow> nat \<Rightarrow> bool" where
  "spans_ok i [] n \<longleftrightarrow> i \<le> n"
| "spans_ok i ((s, l, seg) # rs) n \<longleftrightarrow> i \<le> s \<and> spans_ok (s + l) rs n"

text \<open>What a splice means on plain lines.\<close>

fun splice_lines :: "nat \<Rightarrow> 'a list \<Rightarrow> (nat \<times> nat \<times> 'a list) list \<Rightarrow> 'a list" where
  "splice_lines i src [] = src"
| "splice_lines i src ((s, l, seg) # rs) =
     take (s - i) src @ seg @ splice_lines (s + l) (drop l (drop (s - i) src)) rs"

lemma spans_ok_le: "spans_ok i rs n \<Longrightarrow> i \<le> n"
  by (induction rs arbitrary: i) (auto, force)

lemma splice_total:
  "spans_ok i rs n \<Longrightarrow>
     \<exists>ls. splice pref i src rs = Some ls \<and> map line_text ls = splice_lines i (map line_text src) rs"
proof (induction rs arbitrary: i src)
  case Nil
  then show ?case by simp
next
  case (Cons r rs)
  obtain s l seg where r: "r = (s, l, seg)" by (cases r)
  from Cons r have "spans_ok (s + l) rs n" by simp
  from Cons.IH [OF this, of "drop l (drop (s - i) src)"] Cons.prems r
  show ?case by (auto simp: take_map drop_map comp_def)
qed

lemma sf_apply_replacements_total:
  assumes "spans_ok 0 rs n"
  shows "\<exists>g. sf_apply_replacements f rs = Some g \<and>
     line_texts g = splice_lines 0 (line_texts f) rs \<and>
     preferred_ending g = preferred_ending f \<and> (\<forall>l \<in> set (sf_lines g). ending l \<noteq> None)"
proof -
  have t: "line_text \<circ> ensure_ending e = line_text" for e
    by (auto simp: ensure_ending_def)
  from splice_total [OF assms, of "preferred_ending f" "sf_lines f"] show ?thesis
    by (auto simp: sf_apply_replacements_def line_texts_def t) (simp add: ensure_ending_def)
qed

section \<open>Files with plain line feeds\<close>

definition unlines :: "rstr list \<Rightarrow> rstr" where
  "unlines ls = concat (map (\<lambda>l. l @ [chr_nl]) ls)"

definition lf_line :: "rstr \<Rightarrow> source_line" where
  "lf_line t = \<lparr>line_text = t, ending = Some Lf\<rparr>"

lemma parse_loop_lf:
  assumes "chr_nl \<notin> set l" and "chr_cr \<notin> set l"
  shows "parse_loop pref cur (l @ chr_nl # rest) =
     (let (ls, p) = parse_loop (case pref of None \<Rightarrow> Some Lf | Some p \<Rightarrow> Some p) [] rest
      in (lf_line (cur @ l) # ls, p))"
  using assms
proof (induction l arbitrary: cur)
  case (Cons c l)
  then have "ending_at (c # l @ chr_nl # rest) = None" by auto
  with Cons show ?case by (simp del: ending_at.simps)
qed (simp add: lf_line_def)

lemma parse_loop_unlines:
  "\<forall>l \<in> set ls. chr_nl \<notin> set l \<and> chr_cr \<notin> set l \<Longrightarrow>
     fst (parse_loop pref [] (unlines ls)) = map lf_line ls \<and>
     snd (parse_loop pref [] (unlines ls)) = (if ls = [] then pref else
       (case pref of None \<Rightarrow> Some Lf | Some p \<Rightarrow> Some p))"
proof (induction ls arbitrary: pref)
  case (Cons l ls)
  have "unlines (l # ls) = l @ chr_nl # unlines ls" by (simp add: unlines_def)
  with Cons.prems Cons.IH [of "case pref of None \<Rightarrow> Some Lf | Some p \<Rightarrow> Some p"] show ?case
    by (auto simp: parse_loop_lf split_beta Let_def split: option.splits)
qed (simp add: unlines_def)

lemma parse_source_unlines:
  assumes "\<forall>l \<in> set ls. chr_nl \<notin> set l \<and> chr_cr \<notin> set l"
  shows "parse_source (unlines ls) = \<lparr>sf_lines = map lf_line ls, preferred_ending = Lf\<rparr>"
  using parse_loop_unlines [OF assms, of None]
  by (auto simp: parse_source_def split_beta Let_def split: option.splits if_splits)

lemma splice_lf:
  "spans_ok i rs n \<Longrightarrow> splice Lf i (map lf_line src) rs = Some (map lf_line (splice_lines i src rs))"
proof (induction rs arbitrary: i src)
  case (Cons r rs)
  obtain s l seg where r: "r = (s, l, seg)" by (cases r)
  from Cons r have "spans_ok (s + l) rs n" by simp
  from Cons.IH [OF this, of "drop l (drop (s - i) src)"] Cons.prems r show ?case
    by (simp add: take_map drop_map lf_line_def)
qed simp

lemma into_contents_lf: "into_contents \<lparr>sf_lines = map lf_line ls, preferred_ending = p\<rparr> = unlines ls"
  by (simp add: into_contents_def unlines_def lf_line_def o_def)

lemma ensure_ending_lf [simp]: "ensure_ending p (lf_line t) = lf_line t"
  by (simp add: ensure_ending_def lf_line_def)

section \<open>Properties\<close>

text \<open>
  Reading a file into lines and writing it back is the identity, whatever mixture of
  line endings it has and whether or not it ends in one; the lines hold no line ending and
  all but the last have one.
\<close>

theorem source_file_roundtrip:
  "into_contents (parse_source s) = s \<and>
   (\<forall>l. l \<in> set (sf_lines (parse_source s)) \<longrightarrow>
      chr_nl \<notin> set (line_text l) \<and> chr_cr \<notin> set (line_text l)) \<and>
   (\<forall>l. l \<in> set (butlast (sf_lines (parse_source s))) \<longrightarrow> ending l \<noteq> None)"
  using parse_loop_print [of None "[]" s] parse_loop_texts [of "[]" None s]
    parse_loop_endings [of None "[]" s]
  by (simp add: parse_source_def into_contents_def split_beta Let_def)

theorem source_file_roundtrip_witness:
  "into_contents (parse_source [97, 13, 10, 98, 13, 99, 10, 100]) = [97, 13, 10, 98, 13, 99, 10, 100]
   \<and> line_texts (parse_source [97, 13, 10, 98, 13, 99, 10, 100]) = [[97], [98], [99], [100]]"
proof -
  have "line_texts (parse_source [97, 13, 10, 98, 13, 99, 10, 100]) = [[97], [98], [99], [100]]"
    by code_simp
  with source_file_roundtrip [of "[97, 13, 10, 98, 13, 99, 10, 100]"] show ?thesis by blast
qed

end
