(* ===== verification/File_Update.thy ===== *)
theory File_Update
  imports Patch_Hunks Seek_Sequence Text_File
begin

text \<open>
  \<open>apply-patch/src/file_update.rs\<close>: from chunks to replacements to the new contents of
  a file, in both update modes. An outer \<open>None\<close> is a Rust panic (an index out of range
  or an unsigned subtraction below zero); the lemmas show where it cannot happen.
\<close>

section \<open>Model\<close>

datatype ApplyPatchError =
    ApParseError ParseError
  | ApIoError rstr io_error
  | ComputeReplacements rstr
  | ApPathUri rstr
  | ImplicitInvocation

definition opt_last_empty :: "rstr list \<Rightarrow> bool" where
  "opt_last_empty xs \<longleftrightarrow> xs \<noteq> [] \<and> last xs = []"

text \<open>
  The loop over \<open>chunk.context_line_indices\<close> in \<open>PreserveLineEndings\<close> mode: one
  replacement per run of changed lines between context lines.
\<close>

fun context_split ::
    "nat \<Rightarrow> nat \<Rightarrow> nat \<Rightarrow> nat \<Rightarrow> rstr list \<Rightarrow> (nat \<times> nat) list \<Rightarrow> replacement list option" where
  "context_split start_idx old_start new_start pattern_len new_slice [] =
     (if old_start \<noteq> pattern_len \<or> new_start \<noteq> length new_slice then
        if pattern_len < old_start \<or> length new_slice < new_start then None
        else Some [(start_idx + old_start, pattern_len - old_start, drop new_start new_slice)]
      else Some [])"
| "context_split start_idx old_start new_start pattern_len new_slice ((old_context, new_context) # cs) =
     (if pattern_len \<le> old_context \<or> length new_slice \<le> new_context then
        context_split start_idx old_start new_start pattern_len new_slice []
      else
        (let more = context_split start_idx (Suc old_context) (Suc new_context)
                      pattern_len new_slice cs in
         if old_start \<noteq> old_context \<or> new_start \<noteq> new_context then
           if old_context < old_start \<or> new_context < new_start then None
           else map_option ((#) (start_idx + old_start, old_context - old_start,
                                 take (new_context - new_start) (drop new_start new_slice))) more
         else more))"

text \<open>The pattern and the new lines that are finally searched for, with the match.\<close>

definition locate_chunk ::
    "rstr list \<Rightarrow> update_file_chunk \<Rightarrow> nat \<Rightarrow> ApplyPatchFileUpdateMode \<Rightarrow>
       rstr list \<times> rstr list \<times> nat option" where
  "locate_chunk original_lines chunk line_index m =
     (let pattern = old_lines chunk; new_slice = new_lines chunk;
          found = seek_sequence original_lines pattern line_index (is_end_of_file chunk) m in
      if found = None \<and> opt_last_empty pattern then
        (let pattern' = butlast pattern;
             new_slice' = (if opt_last_empty new_slice then butlast new_slice else new_slice) in
         (pattern', new_slice',
          seek_sequence original_lines pattern' line_index (is_end_of_file chunk) m))
      else (pattern, new_slice, found))"

definition insertion_idx :: "rstr list \<Rightarrow> ApplyPatchFileUpdateMode \<Rightarrow> nat" where
  "insertion_idx original_lines m =
     (case m of
        NormalizeToLf \<Rightarrow>
          if opt_last_empty original_lines then length original_lines - 1
          else length original_lines
      | PreserveLineEndings \<Rightarrow> length original_lines)"

definition chunk_replacements ::
    "ApplyPatchFileUpdateMode \<Rightarrow> nat \<Rightarrow> rstr list \<Rightarrow> rstr list \<Rightarrow> update_file_chunk \<Rightarrow>
       replacement list option" where
  "chunk_replacements m start_idx pattern new_slice chunk =
     (case m of
        NormalizeToLf \<Rightarrow> Some [(start_idx, length pattern, new_slice)]
      | PreserveLineEndings \<Rightarrow>
          context_split start_idx 0 0 (length pattern) new_slice (context_line_indices chunk))"

text \<open>The change-context step: where the search for the chunk starts.\<close>

definition seek_context ::
    "rstr list \<Rightarrow> rstr \<Rightarrow> update_file_chunk \<Rightarrow> nat \<Rightarrow> ApplyPatchFileUpdateMode \<Rightarrow>
       ApplyPatchError + nat" where
  "seek_context original_lines path chunk line_index m =
     (case change_context chunk of
        None \<Rightarrow> Ok line_index
      | Some ctx_line \<Rightarrow>
          (case seek_sequence original_lines [ctx_line] line_index False m of
             Some idx \<Rightarrow> Ok (idx + 1)
           | None \<Rightarrow>
               Err (ComputeReplacements
                 (lit ''Failed to find context '' @ [39] @ ctx_line @ [39] @ lit '' in '' @ path))))"

fun replacements_loop ::
    "rstr list \<Rightarrow> rstr \<Rightarrow> ApplyPatchFileUpdateMode \<Rightarrow> nat \<Rightarrow> update_file_chunk list \<Rightarrow>
       (ApplyPatchError + replacement list) option" where
  "replacements_loop original_lines path m line_index [] = Some (Ok [])"
| "replacements_loop original_lines path m line_index (chunk # chunks) =
     (case seek_context original_lines path chunk line_index m of
        Inl e \<Rightarrow> Some (Err e)
      | Inr li \<Rightarrow>
          if old_lines chunk = [] then
            map_option (map_sum id ((#) (insertion_idx original_lines m, 0, new_lines chunk)))
              (replacements_loop original_lines path m li chunks)
          else
            (case locate_chunk original_lines chunk li m of
               (pattern, new_slice, Some start_idx) \<Rightarrow>
                 (case chunk_replacements m start_idx pattern new_slice chunk of
                    None \<Rightarrow> None
                  | Some rs \<Rightarrow>
                      map_option (map_sum id ((@) rs))
                        (replacements_loop original_lines path m (start_idx + length pattern) chunks))
             | (pattern, new_slice, None) \<Rightarrow>
                 Some (Err (ComputeReplacements
                   (lit ''Failed to find expected lines in '' @ path @ lit '':'' @ [chr_nl] @
                    join_with [chr_nl] (old_lines chunk))))))"

definition compute_replacements ::
    "rstr list \<Rightarrow> rstr \<Rightarrow> update_file_chunk list \<Rightarrow> ApplyPatchFileUpdateMode \<Rightarrow>
       (ApplyPatchError + replacement list) option" where
  "compute_replacements original_lines path chunks m =
     map_option (map_sum id (sort_key fst)) (replacements_loop original_lines path m 0 chunks)"

text \<open>\<open>Vec::remove(i)\<close> while \<open>i < len\<close>, \<open>old_len\<close> times; then \<open>Vec::insert\<close>, which panics past the end.\<close>

fun remove_at :: "nat \<Rightarrow> nat \<Rightarrow> 'a list \<Rightarrow> 'a list" where
  "remove_at 0 i ls = ls"
| "remove_at (Suc n) i ls =
     remove_at n i (if i < length ls then take i ls @ drop (Suc i) ls else ls)"

fun insert_at :: "nat \<Rightarrow> 'a list \<Rightarrow> 'a list \<Rightarrow> 'a list option" where
  "insert_at i [] ls = Some ls"
| "insert_at i (x # xs) ls =
     (if length ls < i then None else insert_at (Suc i) xs (take i ls @ x # drop i ls))"

fun apply_rev :: "'a list \<Rightarrow> (nat \<times> nat \<times> 'a list) list \<Rightarrow> 'a list option" where
  "apply_rev ls [] = Some ls"
| "apply_rev ls ((start_idx, old_len, new_segment) # rs) =
     (case insert_at start_idx new_segment (remove_at old_len start_idx ls) of
        None \<Rightarrow> None
      | Some ls' \<Rightarrow> apply_rev ls' rs)"

definition apply_replacements :: "'a list \<Rightarrow> (nat \<times> nat \<times> 'a list) list \<Rightarrow> 'a list option" where
  "apply_replacements ls rs = apply_rev ls (rev rs)"

text \<open>The computation of \<open>derive_new_contents_from_chunks\<close> once the file is read.\<close>

definition split_lf_lines :: "rstr \<Rightarrow> rstr list" where
  "split_lf_lines contents =
     (let ls = split_on chr_nl contents in if opt_last_empty ls then butlast ls else ls)"

definition join_lf_lines :: "rstr list \<Rightarrow> rstr" where
  "join_lf_lines ls = join_with [chr_nl] (if opt_last_empty ls then ls else ls @ [[]])"

definition new_contents_from_chunks ::
    "rstr \<Rightarrow> rstr \<Rightarrow> update_file_chunk list \<Rightarrow> ApplyPatchFileUpdateMode \<Rightarrow>
       (ApplyPatchError + rstr) option" where
  "new_contents_from_chunks original_contents path_text chunks m =
     (case m of
        NormalizeToLf \<Rightarrow>
          (let original_lines = split_lf_lines original_contents in
           case compute_replacements original_lines path_text chunks m of
             None \<Rightarrow> None
           | Some (Inl e) \<Rightarrow> Some (Err e)
           | Some (Inr rs) \<Rightarrow>
               map_option (\<lambda>ls. Ok (join_lf_lines ls)) (apply_replacements original_lines rs))
      | PreserveLineEndings \<Rightarrow>
          (let source_file = parse_source original_contents in
           case compute_replacements (line_texts source_file) path_text chunks m of
             None \<Rightarrow> None
           | Some (Inl e) \<Rightarrow> Some (Err e)
           | Some (Inr rs) \<Rightarrow>
               map_option (\<lambda>f. Ok (into_contents f)) (sf_apply_replacements source_file rs)))"

section \<open>Removing and inserting lines\<close>

lemma remove_at_eq: "i \<le> length ls \<Longrightarrow> remove_at n i ls = take i ls @ drop (i + n) ls"
proof (induction n arbitrary: ls)
  case 0
  then show ?case by simp
next
  case (Suc n)
  then show ?case by (cases "i < length ls") (simp_all add: min_def add.commute)
qed

lemma insert_at_eq: "i \<le> length ls \<Longrightarrow> insert_at i xs ls = Some (take i ls @ xs @ drop i ls)"
proof (induction xs arbitrary: i ls)
  case Nil
  then show ?case by simp
next
  case (Cons x xs)
  have "insert_at (Suc i) xs (take i ls @ x # drop i ls) =
      Some (take (Suc i) (take i ls @ x # drop i ls) @ xs @ drop (Suc i) (take i ls @ x # drop i ls))"
    using Cons.prems by (intro Cons.IH) simp
  with Cons.prems show ?case by (simp add: min_def)
qed

lemma apply_rev_step:
  "s \<le> length ls \<Longrightarrow>
     apply_rev ls ((s, l, seg) # rs) = apply_rev (take s ls @ seg @ drop (s + l) ls) rs"
  by (simp add: remove_at_eq insert_at_eq min_def)

text \<open>
  Applied from the last to the first, replacements that start within the file never
  panic, whether or not they overlap.
\<close>

lemma apply_rev_total:
  assumes "sorted_wrt (\<lambda>a b. fst b \<le> fst a) rs" and "rs \<noteq> [] \<Longrightarrow> fst (hd rs) \<le> length ls"
  shows "apply_rev ls rs \<noteq> None"
  using assms
proof (induction rs arbitrary: ls)
  case Nil
  then show ?case by simp
next
  case (Cons r rs)
  obtain s l seg where r: "r = (s, l, seg)" by (cases r)
  with Cons.prems have s: "s \<le> length ls" by simp
  have "apply_rev (take s ls @ seg @ drop (s + l) ls) rs \<noteq> None"
  proof (rule Cons.IH)
    show "sorted_wrt (\<lambda>a b. fst b \<le> fst a) rs" using Cons.prems by simp
    show "rs \<noteq> [] \<Longrightarrow> fst (hd rs) \<le> length (take s ls @ seg @ drop (s + l) ls)"
      using Cons.prems r s by (cases rs) auto
  qed
  with r s show ?case by (simp add: apply_rev_step del: apply_rev.simps)
qed

lemma apply_replacements_total:
  assumes "sorted (map fst rs)" and "\<forall>r \<in> set rs. fst r \<le> length ls"
  shows "apply_replacements ls rs \<noteq> None"
  unfolding apply_replacements_def
proof (rule apply_rev_total)
  show "sorted_wrt (\<lambda>a b. fst b \<le> fst a) (rev rs)"
    using assms(1) by (simp add: sorted_map sorted_wrt_rev)
  show "rev rs \<noteq> [] \<Longrightarrow> fst (hd (rev rs)) \<le> length ls"
    using assms(2) by (simp add: hd_rev)
qed

lemma apply_rev_append:
  "apply_rev ls (xs @ ys) = (case apply_rev ls xs of None \<Rightarrow> None | Some ls' \<Rightarrow> apply_rev ls' ys)"
  by (induction ls xs rule: apply_rev.induct) (auto split: option.splits)

lemma apply_rev_splice:
  "spans_ok i rs (length ls) \<Longrightarrow>
     apply_rev ls (rev rs) = Some (take i ls @ splice_lines i (drop i ls) rs)"
proof (induction rs arbitrary: i)
  case Nil
  then show ?case by simp
next
  case (Cons r rs)
  obtain s l seg where r: "r = (s, l, seg)" by (cases r)
  with Cons.prems have le: "i \<le> s" and sp: "spans_ok (s + l) rs (length ls)" by simp_all
  let ?ls = "take (s + l) ls @ splice_lines (s + l) (drop (s + l) ls) rs"
  have len: "s + l \<le> length ls" using spans_ok_le [OF sp] .
  have "apply_rev ls (rev (r # rs)) = apply_rev ?ls [r]"
    using Cons.IH [OF sp] by (simp add: apply_rev_append del: apply_rev.simps)
  also have "\<dots> = Some (take s ls @ seg @ splice_lines (s + l) (drop (s + l) ls) rs)"
    using len by (simp add: r apply_rev_step del: apply_rev.simps) (simp add: min_def)
  also have "take s ls = take i ls @ take (s - i) (drop i ls)"
    using le by (metis le_add_diff_inverse take_add)
  finally show ?case using le by (simp add: r add.commute)
qed

text \<open>
  On ordered replacements the two implementations compute the same splice: the
  in-place edits of \<open>apply_replacements\<close> and the iterator of \<open>SourceFile\<close>.
\<close>

lemma apply_replacements_splice:
  "spans_ok 0 rs (length ls) \<Longrightarrow> apply_replacements ls rs = Some (splice_lines 0 ls rs)"
  using apply_rev_splice [of 0 rs ls] by (simp add: apply_replacements_def)

section \<open>Replacements in PreserveLineEndings mode are ordered\<close>

text \<open>
  The list before sorting: apart from pure insertions at the end of the file, each
  replacement starts at or after the end of the one before.
\<close>

fun gen_ok :: "nat \<Rightarrow> nat \<Rightarrow> replacement list \<Rightarrow> bool" where
  "gen_ok i n [] \<longleftrightarrow> i \<le> n"
| "gen_ok i n ((s, l, seg) # rs) \<longleftrightarrow>
     (s = n \<and> l = 0 \<and> gen_ok i n rs) \<or> (i \<le> s \<and> gen_ok (s + l) n rs)"

lemma gen_ok_le: "gen_ok i n rs \<Longrightarrow> i \<le> n"
  by (induction i n rs rule: gen_ok.induct) auto

lemma gen_ok_mono: "gen_ok i n rs \<Longrightarrow> j \<le> i \<Longrightarrow> gen_ok j n rs"
  by (induction rs arbitrary: i j) auto

lemma gen_ok_bounds:
  "gen_ok i n rs \<Longrightarrow> (s, l, seg) \<in> set rs \<Longrightarrow> i \<le> s \<and> s + l \<le> n"
proof (induction i n rs rule: gen_ok.induct)
  case (2 i n s' l' seg' rs)
  from "2.prems"(1) show ?case
  proof (simp, elim disjE conjE)
    assume "s' = n" "l' = 0" and g: "gen_ok i n rs"
    with 2 gen_ok_le [OF g] show ?case by auto
  next
    assume "i \<le> s'" and g: "gen_ok (s' + l') n rs"
    with 2 gen_ok_le [OF g] show ?case by auto
  qed
qed simp

lemma spans_ok_weaken: "spans_ok i rs n \<Longrightarrow> j \<le> i \<Longrightarrow> spans_ok j rs n"
  by (cases rs) auto

lemma spans_ok_insort_end:
  assumes "spans_ok i rs n" and "\<forall>(s, l, t) \<in> set rs. s + l \<le> n"
  shows "spans_ok i (insort_key fst (n, 0, seg) rs) n"
  using assms
proof (induction rs arbitrary: i)
  case Nil
  then show ?case by simp
next
  case (Cons r rs)
  obtain s l t where r: "r = (s, l, t)" by (cases r)
  with Cons show ?case by auto
qed

lemma spans_ok_sort:
  "gen_ok i n rs \<Longrightarrow> spans_ok i (sort_key fst rs) n"
proof (induction rs arbitrary: i)
  case Nil
  then show ?case by simp
next
  case (Cons r rs)
  obtain s l t where r: "r = (s, l, t)" by (cases r)
  show ?case
  proof (cases "s = n \<and> l = 0 \<and> gen_ok i n rs")
    case True
    have "\<forall>(s, l, t) \<in> set (sort_key fst rs). s + l \<le> n"
      using True gen_ok_bounds by auto
    with True Cons.IH [of i] r show ?thesis by (simp add: spans_ok_insort_end)
  next
    case False
    with Cons.prems r have g: "i \<le> s" "gen_ok (s + l) n rs" by auto
    then have "\<forall>y \<in> set (sort_key fst rs). s \<le> fst y"
      using gen_ok_bounds by fastforce
    then have "insort_key fst r (sort_key fst rs) = r # sort_key fst rs"
      unfolding r by (intro insort_is_Cons) simp
    with g Cons.IH [of "s + l"] r show ?thesis by simp
  qed
qed

lemma context_split_ok:
  assumes "index_pairs_ok old_start new_start cs m k" and "plen \<le> m" and "length new_slice \<le> k"
    and "old_start \<le> plen" and "new_start \<le> length new_slice"
    and "start_idx + plen \<le> n"
  shows "\<exists>rs. context_split start_idx old_start new_start plen new_slice cs = Some rs \<and>
     (\<forall>rest. gen_ok (start_idx + plen) n rest \<longrightarrow> gen_ok (start_idx + old_start) n (rs @ rest))"
  using assms
proof (induction start_idx old_start new_start plen new_slice cs rule: context_split.induct)
  case (1 start_idx old_start new_start plen new_slice)
  then show ?case by (auto intro: gen_ok_mono)
next
  case (2 start_idx old_start new_start plen new_slice a b cs)
  show ?case
  proof (cases "plen \<le> a \<or> length new_slice \<le> b")
    case True
    have "index_pairs_ok old_start new_start [] m k" using 2 by auto
    from "2.IH"(1) [OF True this] "2.prems" True show ?thesis by simp
  next
    case False
    from "2.prems"(1) have ab: "old_start \<le> a" "new_start \<le> b" "index_pairs_ok (Suc a) (Suc b) cs m k"
      by simp_all
    from "2.IH"(2) [OF False ab(3)] "2.prems" False obtain rs where rs:
      "context_split start_idx (Suc a) (Suc b) plen new_slice cs = Some rs"
      "\<forall>rest. gen_ok (start_idx + plen) n rest \<longrightarrow> gen_ok (start_idx + Suc a) n (rs @ rest)"
      by auto
    have "gen_ok (start_idx + a) n (rs @ rest)" "gen_ok (start_idx + old_start) n (rs @ rest)"
      if "gen_ok (start_idx + plen) n rest" for rest
      using rs(2) that ab(1) by (auto elim!: allE [of _ rest] intro: gen_ok_mono)
    with False ab rs show ?thesis by (auto simp: Let_def)
  qed
qed

lemma locate_chunk_cases:
  assumes "locate_chunk ls ch li m = (pattern, new_slice, found)"
  shows "length pattern \<le> length (old_lines ch)" and "length new_slice \<le> length (new_lines ch)"
    and "found = seek_sequence ls pattern li (is_end_of_file ch) m"
  using assms by (auto simp: locate_chunk_def Let_def split: if_splits)

lemma seek_context_bounds:
  assumes "seek_context ls path ch li m = Inr li'" and "li \<le> length ls"
  shows "li \<le> li' \<and> li' \<le> length ls"
proof (cases "change_context ch")
  case None
  with assms show ?thesis by (simp add: seek_context_def)
next
  case (Some c)
  with assms obtain i where i: "seek_sequence ls [c] li False m = Some i" "li' = Suc i"
    by (auto simp: seek_context_def split: option.splits)
  from seek_sequence_bounds [OF i(1)] i(2) show ?thesis by (simp add: search_start_no_eof)
qed

lemma replacements_loop_preserve:
  assumes "\<forall>ch \<in> set chunks. chunk_ok ch" and "li \<le> length ls"
  shows "\<exists>r. replacements_loop ls path PreserveLineEndings li chunks = Some r \<and>
     (\<forall>rs. r = Inr rs \<longrightarrow> gen_ok li (length ls) rs)"
  using assms
proof (induction chunks arbitrary: li)
  case Nil
  then show ?case by simp
next
  case (Cons ch chunks)
  let ?m = PreserveLineEndings
  show ?case
  proof (cases "seek_context ls path ch li ?m")
    case (Inl e)
    then show ?thesis by simp
  next
    case (Inr li')
    note li' = seek_context_bounds [OF Inr Cons.prems(2)]
    show ?thesis
    proof (cases "old_lines ch = []")
      case True
      from Cons.IH [of li'] Cons.prems(1) li' obtain r where
        "replacements_loop ls path ?m li' chunks = Some r"
        "\<forall>rs. r = Inr rs \<longrightarrow> gen_ok li' (length ls) rs" by auto
      with True Inr li' show ?thesis
        by (cases r) (auto simp: insertion_idx_def intro: gen_ok_mono)
    next
      case False
      obtain pattern new_slice found where loc: "locate_chunk ls ch li' ?m = (pattern, new_slice, found)"
        by (metis prod_cases3)
      note lc = locate_chunk_cases [OF loc]
      show ?thesis
      proof (cases found)
        case None
        with False Inr loc show ?thesis by simp
      next
        case (Some i)
        with lc(3) li' seek_preserve_bounds [of ls pattern li' _ i] have
          i: "li' \<le> i" "i + length pattern \<le> length ls" by metis+
        from Cons.prems(1) have "index_pairs_ok 0 0 (context_line_indices ch)
            (length (old_lines ch)) (length (new_lines ch))" by (simp add: chunk_ok_def)
        from context_split_ok [OF this lc(1,2) _ _ i(2)] obtain rs where rs:
          "context_split i 0 0 (length pattern) new_slice (context_line_indices ch) = Some rs"
          "\<forall>rest. gen_ok (i + length pattern) (length ls) rest \<longrightarrow> gen_ok i (length ls) (rs @ rest)"
          by auto
        from Cons.IH [of "i + length pattern"] Cons.prems(1) i(2) obtain r where
          "replacements_loop ls path ?m (i + length pattern) chunks = Some r"
          "\<forall>rs. r = Inr rs \<longrightarrow> gen_ok (i + length pattern) (length ls) rs" by auto
        with False Inr loc Some rs i(1) li' show ?thesis
          by (cases r) (auto simp: chunk_replacements_def intro: gen_ok_mono)
      qed
    qed
  qed
qed

lemma compute_replacements_preserve:
  assumes "\<forall>ch \<in> set chunks. chunk_ok ch"
  shows "\<exists>r. compute_replacements ls path chunks PreserveLineEndings = Some r \<and>
     (\<forall>rs. r = Inr rs \<longrightarrow> spans_ok 0 rs (length ls))"
proof -
  from replacements_loop_preserve [OF assms, of 0 ls path] obtain r where
    "replacements_loop ls path PreserveLineEndings 0 chunks = Some r"
    "\<forall>rs. r = Inr rs \<longrightarrow> gen_ok 0 (length ls) rs" by auto
  then show ?thesis
    by (cases r) (auto simp: compute_replacements_def intro: spans_ok_sort)
qed

section \<open>No panic in either mode\<close>

lemma insertion_idx_le: "insertion_idx ls m \<le> length ls"
  by (cases m) (simp_all add: insertion_idx_def)

lemma replacements_loop_normalize:
  assumes "li \<le> length ls"
  shows "\<exists>r. replacements_loop ls path NormalizeToLf li chunks = Some r \<and>
     (\<forall>rs. r = Inr rs \<longrightarrow> (\<forall>x \<in> set rs. fst x \<le> length ls))"
  using assms
proof (induction chunks arbitrary: li)
  case Nil
  then show ?case by simp
next
  case (Cons ch chunks)
  let ?m = NormalizeToLf
  show ?case
  proof (cases "seek_context ls path ch li ?m")
    case (Inl e)
    then show ?thesis by simp
  next
    case (Inr li')
    note li' = seek_context_bounds [OF Inr Cons.prems]
    obtain pattern new_slice found where loc: "locate_chunk ls ch li' ?m = (pattern, new_slice, found)"
      by (metis prod_cases3)
    consider "old_lines ch = []" | "old_lines ch \<noteq> []" "found = None"
      | i where "old_lines ch \<noteq> []" "found = Some i" by blast
    then show ?thesis
    proof cases
      case 1
      from Cons.IH [of li'] li' obtain r where "replacements_loop ls path ?m li' chunks = Some r"
        "\<forall>rs. r = Inr rs \<longrightarrow> (\<forall>x \<in> set rs. fst x \<le> length ls)" by auto
      with 1 Inr show ?thesis by (cases r) (auto simp: insertion_idx_le)
    next
      case 2
      with Inr loc show ?thesis by simp
    next
      case (3 i)
      with locate_chunk_cases(3) [OF loc] seek_normalize_bounds [of ls pattern li' _ ?m i] li'
      have i: "i + length pattern \<le> length ls" by metis
      from Cons.IH [OF i] obtain r where
        "replacements_loop ls path ?m (i + length pattern) chunks = Some r"
        "\<forall>rs. r = Inr rs \<longrightarrow> (\<forall>x \<in> set rs. fst x \<le> length ls)" by auto
      with 3 Inr loc i show ?thesis by (cases r) (auto simp: chunk_replacements_def)
    qed
  qed
qed

lemma compute_replacements_normalize:
  "\<exists>r. compute_replacements ls path chunks NormalizeToLf = Some r \<and>
     (\<forall>rs. r = Inr rs \<longrightarrow> apply_replacements ls rs \<noteq> None)"
proof -
  from replacements_loop_normalize [of 0 ls path chunks] obtain r where
    r: "replacements_loop ls path NormalizeToLf 0 chunks = Some r"
      "\<forall>rs. r = Inr rs \<longrightarrow> (\<forall>x \<in> set rs. fst x \<le> length ls)" by auto
  show ?thesis
  proof (cases r)
    case (Inr rs)
    have "apply_replacements ls (sort_key fst rs) \<noteq> None"
      by (rule apply_replacements_total) (use r Inr in auto)
    with r Inr show ?thesis by (simp add: compute_replacements_def)
  qed (use r in \<open>simp add: compute_replacements_def\<close>)
qed

lemma new_contents_total:
  assumes "\<forall>ch \<in> set chunks. chunk_ok ch"
  shows "new_contents_from_chunks contents path chunks m \<noteq> None"
proof (cases m)
  case NormalizeToLf
  with compute_replacements_normalize [of "split_lf_lines contents" path chunks] show ?thesis
    by (auto simp: new_contents_from_chunks_def Let_def split: option.splits sum.splits)
next
  case PreserveLineEndings
  from compute_replacements_preserve [OF assms, of "line_texts (parse_source contents)" path]
  obtain r where r:
    "compute_replacements (line_texts (parse_source contents)) path chunks m = Some r"
    "\<forall>rs. r = Inr rs \<longrightarrow> spans_ok 0 rs (length (line_texts (parse_source contents)))"
    using PreserveLineEndings by auto
  then show ?thesis
    using PreserveLineEndings sf_apply_replacements_total
    by (cases r) (fastforce simp: new_contents_from_chunks_def Let_def)+
qed

section \<open>An exact chunk replaces exactly its block\<close>

lemma splice_lines_shift:
  assumes "spans_ok j rs n" and "i \<le> j"
  shows "splice_lines i (drop i ls) rs = take (j - i) (drop i ls) @ splice_lines j (drop j ls) rs"
proof (cases rs)
  case Nil
  have "drop i ls = take (j - i) (drop i ls) @ drop (j - i) (drop i ls)"
    by (rule append_take_drop_id [symmetric])
  with Nil assms(2) show ?thesis by simp
next
  case (Cons r rs')
  obtain s l seg where r: "r = (s, l, seg)" by (cases r)
  with assms Cons have "j \<le> s" by simp
  then have "take (s - i) (drop i ls) = take (j - i) (drop i ls) @ take (s - j) (drop j ls)"
    using assms(2) take_add [of "j - i" "s - j" "drop i ls"] by simp
  with \<open>j \<le> s\<close> assms(2) r Cons show ?thesis by simp
qed

lemma context_split_splice:
  assumes "index_pairs_ok old_start new_start cs plen (length new)"
    and "start + plen \<le> length ls"
    and "\<forall>(a, b) \<in> set cs. ls ! (start + a) = new ! b"
  shows "\<exists>rs. context_split start old_start new_start plen new cs = Some rs \<and>
     spans_ok (start + old_start) rs (length ls) \<and>
     splice_lines (start + old_start) (drop (start + old_start) ls) rs =
       drop new_start new @ drop (start + plen) ls"
  using assms
proof (induction start old_start new_start plen new cs rule: context_split.induct)
  case (1 start old_start new_start plen new)
  then show ?case by (auto simp: add.commute)
next
  case (2 start old_start new_start plen new a b cs)
  from "2.prems"(1) have ab: "old_start \<le> a" "new_start \<le> b" "a < plen" "b < length new"
      "index_pairs_ok (Suc a) (Suc b) cs plen (length new)" by simp_all
  with "2.IH"(2) "2.prems" obtain rs where
      rs: "context_split start (Suc a) (Suc b) plen new cs = Some rs"
    and sp: "spans_ok (start + Suc a) rs (length ls)"
    and eq: "splice_lines (start + Suc a) (drop (start + Suc a) ls) rs =
        drop (Suc b) new @ drop (start + plen) ls" by fastforce
  have nth: "ls ! (start + a) = new ! b" using "2.prems"(3) by simp
  have "splice_lines (start + a) (drop (start + a) ls) rs =
      take 1 (drop (start + a) ls) @ drop (Suc b) new @ drop (start + plen) ls"
    using splice_lines_shift [OF sp, of "start + a" ls] eq by simp
  also have "take 1 (drop (start + a) ls) = [new ! b]"
    using nth ab(3) "2.prems"(2) by (simp add: take_Suc_conv_app_nth hd_drop_conv_nth take_Suc)
  finally have at: "splice_lines (start + a) (drop (start + a) ls) rs =
      drop b new @ drop (start + plen) ls"
    using ab(4) by (metis Cons_nth_drop_Suc append_Cons append_Nil)
  have spa: "spans_ok (start + a) rs (length ls)" using sp by (rule spans_ok_weaken) simp
  have seg: "take (b - new_start) (drop new_start new) @ drop b new = drop new_start new"
    using ab(2) by (metis append_take_drop_id drop_drop le_add_diff_inverse add.commute)
  show ?case
  proof (cases "old_start = a \<and> new_start = b")
    case True
    with ab rs spa at show ?thesis by (simp add: Let_def)
  next
    case False
    with ab rs spa at seg show ?thesis by (auto simp: Let_def add.commute)
  qed
qed

lemma match_at_exact:
  "match_at (=) ls pattern i \<longleftrightarrow> take (length pattern) (drop i ls) = pattern"
  by (simp add: match_at_def list.rel_eq)

text \<open>
  A chunk whose old lines first occur, verbatim, after \<open>pre\<close>: both modes replace exactly
  that block by the new lines.
\<close>

lemma exact_chunk_replacements:
  assumes "chunk_ok ch" and "change_context ch = None" and "\<not> is_end_of_file ch"
    and "old_lines ch \<noteq> []"
    and "\<forall>j < length pre. take (length (old_lines ch)) (drop j (pre @ old_lines ch @ post)) \<noteq> old_lines ch"
  shows "\<exists>rs. compute_replacements (pre @ old_lines ch @ post) path [ch] m = Some (Inr rs) \<and>
     spans_ok 0 rs (length (pre @ old_lines ch @ post)) \<and>
     splice_lines 0 (pre @ old_lines ch @ post) rs = pre @ new_lines ch @ post"
proof -
  let ?ls = "pre @ old_lines ch @ post"
  have seek: "seek_sequence ?ls (old_lines ch) 0 False m = Some (length pre)"
    using assms(4,5)
    by (auto simp: seek_sequence_Some Let_def search_start_no_eof strictness_def match_at_exact
        intro!: exI [of _ "0::nat"])
  then have loc: "locate_chunk ?ls ch 0 m = (old_lines ch, new_lines ch, Some (length pre))"
    using assms(3) by (simp add: locate_chunk_def)
  have "\<exists>rs. chunk_replacements m (length pre) (old_lines ch) (new_lines ch) ch = Some rs \<and>
      spans_ok (length pre) rs (length ?ls) \<and>
      splice_lines (length pre) (drop (length pre) ?ls) rs = new_lines ch @ post"
  proof (cases m)
    case NormalizeToLf
    then show ?thesis by (simp add: chunk_replacements_def)
  next
    case PreserveLineEndings
    have "\<forall>(a, b) \<in> set (context_line_indices ch). ?ls ! (length pre + a) = new_lines ch ! b"
      using assms(1) by (auto simp: chunk_ok_def nth_append dest: index_pairs_ok_bounds)
    with context_split_splice [of 0 0 "context_line_indices ch" "length (old_lines ch)"
        "new_lines ch" "length pre" ?ls] assms(1) PreserveLineEndings
    show ?thesis by (auto simp: chunk_replacements_def chunk_ok_def)
  qed
  then obtain rs where rs:
    "chunk_replacements m (length pre) (old_lines ch) (new_lines ch) ch = Some rs"
    "spans_ok (length pre) rs (length ?ls)"
    "splice_lines (length pre) (drop (length pre) ?ls) rs = new_lines ch @ post" by blast
  have "sort_key fst rs = rs"
  proof -
    have "spans_ok i rs n \<Longrightarrow> sorted (map fst rs) \<and> (\<forall>x \<in> set rs. i \<le> fst x)" for i rs n
    proof (induction rs arbitrary: i)
      case (Cons r rs)
      obtain s l t where "r = (s, l, t)" by (cases r)
      with Cons.IH [of "s + l"] Cons.prems show ?case by fastforce
    qed simp
    with rs(2) show ?thesis by (intro sort_key_id_if_sorted) blast
  qed
  with loc rs(1) assms(2,4) have
    c: "compute_replacements ?ls path [ch] m = Some (Inr rs)"
    by (simp add: compute_replacements_def seek_context_def)
  have "splice_lines 0 ?ls rs = pre @ new_lines ch @ post"
    using splice_lines_shift [OF rs(2), of 0 ?ls] rs(3) by simp
  with c rs(2) show ?thesis by (auto intro: spans_ok_weaken)
qed

section \<open>Files with plain line feeds\<close>

lemma unlines_join: "unlines ls = join_with [chr_nl] (ls @ [[]])"
  by (induction ls) (auto simp: unlines_def join_with_Cons)

lemma split_lf_unlines:
  assumes "ls \<noteq> []" and "\<forall>l \<in> set ls. chr_nl \<notin> set l"
  shows "split_lf_lines (unlines ls) = ls"
proof -
  have "split_on chr_nl (unlines ls) = ls @ [[]]"
    unfolding unlines_join using assms(2) by (intro split_on_join) auto
  then show ?thesis by (simp add: split_lf_lines_def opt_last_empty_def)
qed

lemma join_lf_unlines: "ls = [] \<or> last ls \<noteq> [] \<Longrightarrow> join_lf_lines ls = unlines ls"
  by (cases ls rule: rev_cases)
    (auto simp: join_lf_lines_def unlines_join opt_last_empty_def)

lemma exact_chunk_contents:
  assumes ch: "chunk_ok ch" "change_context ch = None" "\<not> is_end_of_file ch" "old_lines ch \<noteq> []"
    and first: "\<forall>j < length pre. take (length (old_lines ch)) (drop j (pre @ old_lines ch @ post)) \<noteq> old_lines ch"
    and lf: "\<forall>l \<in> set (pre @ old_lines ch @ post). chr_nl \<notin> set l \<and> chr_cr \<notin> set l"
    and res: "pre @ new_lines ch @ post = [] \<or> last (pre @ new_lines ch @ post) \<noteq> []"
  shows "new_contents_from_chunks (unlines (pre @ old_lines ch @ post)) path [ch] m =
     Some (Inr (unlines (pre @ new_lines ch @ post)))"
proof -
  let ?ls = "pre @ old_lines ch @ post" and ?new = "pre @ new_lines ch @ post"
  from exact_chunk_replacements [OF ch first] obtain rs where
    rs: "compute_replacements ?ls path [ch] m = Some (Inr rs)" "spans_ok 0 rs (length ?ls)"
      "splice_lines 0 ?ls rs = ?new" by blast
  show ?thesis
  proof (cases m)
    case NormalizeToLf
    have "split_lf_lines (unlines ?ls) = ?ls" using ch(4) lf by (intro split_lf_unlines) auto
    moreover have "apply_replacements ?ls rs = Some ?new"
      using apply_replacements_splice [OF rs(2)] rs(3) by simp
    ultimately show ?thesis
      using NormalizeToLf rs(1) join_lf_unlines [OF res] by (simp add: new_contents_from_chunks_def)
  next
    case PreserveLineEndings
    have src: "parse_source (unlines ?ls) = \<lparr>sf_lines = map lf_line ?ls, preferred_ending = Lf\<rparr>"
      using lf by (rule parse_source_unlines)
    have texts: "line_texts \<lparr>sf_lines = map lf_line ?ls, preferred_ending = Lf\<rparr> = ?ls"
      by (simp add: line_texts_def lf_line_def o_def)
    have "splice Lf 0 (map lf_line ?ls) rs = Some (map lf_line ?new)"
      using splice_lf [OF rs(2), of ?ls] unfolding rs(3) .
    then have "sf_apply_replacements \<lparr>sf_lines = map lf_line ?ls, preferred_ending = Lf\<rparr> rs =
        Some \<lparr>sf_lines = map lf_line ?new, preferred_ending = Lf\<rparr>"
      unfolding sf_apply_replacements_def by (simp add: o_def)
    then show ?thesis
      using PreserveLineEndings rs(1) into_contents_lf [of ?new Lf]
      unfolding new_contents_from_chunks_def src Let_def texts by simp
  qed
qed

section \<open>Properties\<close>


definition sample_chunk :: update_file_chunk where
  "sample_chunk = \<lparr>change_context = None, old_lines = [[98], [99]], new_lines = [[98], [100], [101]],
     context_line_indices = [(0, 0)], is_end_of_file = False\<rparr>"


text \<open>
  The replacements computed in the preserving mode are ordered, disjoint and within
  the file, so the \<open>debug_assert\<close> of the splice cannot fail, and on such replacements
  the two implementations, removing and inserting backwards and splicing forwards, give
  the same lines.
\<close>

theorem preserve_replacements_ordered:
  assumes "\<forall>ch \<in> set chunks. chunk_ok ch"
    and "compute_replacements ls path chunks PreserveLineEndings = Some (Inr rs)"
  shows "spans_ok 0 rs (length ls) \<and>
     apply_replacements ls rs = Some (splice_lines 0 ls rs) \<and>
     (line_texts f = ls \<longrightarrow>
        map_option line_texts (sf_apply_replacements f rs) = apply_replacements ls rs)"
proof -
  have sp: "spans_ok 0 rs (length ls)"
    using compute_replacements_preserve [OF assms(1), of ls path] assms(2) by auto
  from sf_apply_replacements_total [OF sp, of f] obtain g where
    "sf_apply_replacements f rs = Some g" "line_texts g = splice_lines 0 (line_texts f) rs" by blast
  with sp apply_replacements_splice [OF sp] show ?thesis by simp
qed

theorem preserve_replacements_ordered_witness:
  "\<exists>rs. compute_replacements [[97], [98], [99]] [] [sample_chunk] PreserveLineEndings = Some (Inr rs) \<and>
     spans_ok 0 rs 3"
proof -
  have "compute_replacements [[97], [98], [99]] [] [sample_chunk] PreserveLineEndings =
      Some (Inr [(2, 1, [[100], [101]])])" by code_simp
  moreover have "\<forall>ch \<in> set [sample_chunk]. chunk_ok ch" by (simp add: sample_chunk_def chunk_ok_def)
  note preserve_replacements_ordered [OF this calculation]
  ultimately show ?thesis by auto
qed

text \<open>
  In the normalizing mode an update drops the blank last line of a file: the empty
  string that stands for it is taken for the final line feed. The preserving mode keeps it.
\<close>

theorem normalize_drops_final_blank_line:
  "new_contents_from_chunks [120, 10, 10] []
      [default_chunk\<lparr>old_lines := [[120]], new_lines := [[121]]\<rparr>] NormalizeToLf
     = Some (Inr [121, 10]) \<and>
   new_contents_from_chunks [120, 10, 10] []
      [default_chunk\<lparr>old_lines := [[120]], new_lines := [[121]]\<rparr>] PreserveLineEndings
     = Some (Inr [121, 10, 10])"
  by code_simp

text \<open>
  In the normalizing mode a chunk that only inserts, after one that replaced the blank
  last line, is lost: it is inserted before a line the first chunk removes. The
  preserving mode appends it.
\<close>

theorem normalize_loses_insertion:
  "new_contents_from_chunks [97, 10, 10] []
      [default_chunk\<lparr>old_lines := [[97], []], new_lines := [[98]]\<rparr>,
       default_chunk\<lparr>new_lines := [[99]]\<rparr>] NormalizeToLf
     = Some (Inr [98, 10]) \<and>
   new_contents_from_chunks [97, 10, 10] []
      [default_chunk\<lparr>old_lines := [[97], []], new_lines := [[98]]\<rparr>,
       default_chunk\<lparr>new_lines := [[99]]\<rparr>] PreserveLineEndings
     = Some (Inr [98, 10, 99, 10])"
  by code_simp

end
