(* ===== verification/Apply_Patch.thy ===== *)
theory Apply_Patch
  imports Patch_Grammar File_Update
begin

text \<open>
  \<open>apply-patch/src/lib.rs\<close>: applying parsed hunks to a file system and recording what
  was committed.

  The file system (\<open>dyn ExecutorFileSystem\<close>), path resolution (\<open>PathUri\<close>) and the
  output writers are parameters: the record \<open>host\<close> holds one function per operation
  the code calls, over an abstract world state \<open>'s\<close> and path type \<open>'p\<close>. A read returns
  its result, a mutation returns its result and the next world, also when it fails. The
  sandbox argument is passed through by the code unchanged and is part of the functions.
  \<open>text_fs\<close> states what the code relies on. An outer \<open>None\<close> is a panic, as in the
  computation of the new contents.
\<close>

section \<open>The host\<close>

record file_metadata =
  is_directory :: bool
  is_file :: bool
  is_symlink :: bool

datatype out_stream = Stdout | Stderr

record ('s, 'p) host =
  read_file_text :: "'s \<Rightarrow> 'p \<Rightarrow> bool \<Rightarrow> io_error + rstr"
  write_file :: "'s \<Rightarrow> 'p \<Rightarrow> rstr \<Rightarrow> bool \<Rightarrow> (io_error + unit) \<times> 's"
  remove_file :: "'s \<Rightarrow> 'p \<Rightarrow> bool \<Rightarrow> (io_error + unit) \<times> 's"
  create_directory :: "'s \<Rightarrow> 'p \<Rightarrow> bool \<Rightarrow> (io_error + unit) \<times> 's"
  get_metadata :: "'s \<Rightarrow> 'p \<Rightarrow> bool \<Rightarrow> io_error + file_metadata"
  path_join :: "'p \<Rightarrow> rstr \<Rightarrow> rstr + 'p"
  path_parent :: "'p \<Rightarrow> 'p option"
  native_path :: "'p \<Rightarrow> rstr"
  write_line :: "'s \<Rightarrow> out_stream \<Rightarrow> rstr \<Rightarrow> (io_error + unit) \<times> 's"

record apply_patch_options =
  update_file_mode :: ApplyPatchFileUpdateMode
  follow_symlinks :: bool

definition default_options :: apply_patch_options where
  "default_options = \<lparr>update_file_mode = NormalizeToLf, follow_symlinks = True\<rparr>"

section \<open>Errors and deltas\<close>

text \<open>
  \<open>anyhow::Error\<close>, as far as \<open>apply_hunks_with_options\<close> looks into it: an I/O error
  with its context if any, an error of this crate, or a message.
\<close>

datatype anyhow_error =
    AnyIo "rstr option" io_error
  | AnyApply ApplyPatchError
  | AnyMsg rstr

fun display_parse_error :: "ParseError \<Rightarrow> rstr" where
  "display_parse_error (InvalidPatchError m) = lit ''invalid patch: '' @ m"
| "display_parse_error (InvalidHunkError m n) =
     lit ''invalid hunk at line '' @ show_nat n @ lit '', '' @ m"

fun display_apply_error :: "ApplyPatchError \<Rightarrow> rstr" where
  "display_apply_error (ApParseError e) = display_parse_error e"
| "display_apply_error (ApIoError ctx e) = ctx @ lit '': '' @ io_message e"
| "display_apply_error (ComputeReplacements m) = m"
| "display_apply_error (ApPathUri m) = m"
| "display_apply_error ImplicitInvocation =
     lit ''patch detected without explicit call to apply_patch. Rerun as ['' @ [34] @
     lit ''apply_patch'' @ [34] @ lit '', '' @ [34] @ lit ''<patch>'' @ [34] @ lit '']''"

fun display_anyhow :: "anyhow_error \<Rightarrow> rstr" where
  "display_anyhow (AnyIo ctx e) = (case ctx of Some c \<Rightarrow> c | None \<Rightarrow> io_message e)"
| "display_anyhow (AnyApply e) = display_apply_error e"
| "display_anyhow (AnyMsg m) = m"

datatype 'p AppliedPatchFileChange =
    AppliedAdd rstr "rstr option"
  | AppliedDelete rstr
  | AppliedUpdate "'p option" rstr "rstr option" rstr

record 'p applied_patch_delta =
  changes :: "('p \<times> 'p AppliedPatchFileChange) list"
  exact :: bool

definition delta_empty :: "'p applied_patch_delta" where
  "delta_empty = \<lparr>changes = [], exact = True\<rparr>"

definition delta_append ::
    "'p applied_patch_delta \<Rightarrow> 'p applied_patch_delta \<Rightarrow> 'p applied_patch_delta" where
  "delta_append d other =
     \<lparr>changes = changes d @ changes other, exact = (exact d \<and> exact other)\<rparr>"

record affected_paths =
  added :: "rstr list"
  modified :: "rstr list"
  deleted :: "rstr list"

definition inexact :: "'p applied_patch_delta \<Rightarrow> 'p applied_patch_delta" where
  "inexact d = d\<lparr>exact := False\<rparr>"

definition push_change ::
    "'p applied_patch_delta \<Rightarrow> 'p \<Rightarrow> 'p AppliedPatchFileChange \<Rightarrow> 'p applied_patch_delta" where
  "push_change d p c = d\<lparr>changes := changes d @ [(p, c)]\<rparr>"

section \<open>Helpers\<close>

definition ensure_not_directory ::
    "('s, 'p) host \<Rightarrow> 's \<Rightarrow> 'p \<Rightarrow> bool \<Rightarrow> io_error + unit" where
  "ensure_not_directory h s path follow =
     (case get_metadata h s path follow of
        Inl e \<Rightarrow> Err e
      | Inr md \<Rightarrow>
          if is_directory md
          then Err \<lparr>io_kind_of = InvalidInput, io_message = lit ''path is a directory''\<rparr>
          else Ok ())"

definition remove_failure_was_side_effect_free ::
    "('s, 'p) host \<Rightarrow> 's \<Rightarrow> 'p \<Rightarrow> rstr option \<Rightarrow> bool \<Rightarrow> bool" where
  "remove_failure_was_side_effect_free h s path expected_content follow =
     (case expected_content of
        Some expected \<Rightarrow>
          (case read_file_text h s path follow of Inl _ \<Rightarrow> False | Inr c \<Rightarrow> c = expected)
      | None \<Rightarrow> False)"

definition note_existing_path_delta_support ::
    "('s, 'p) host \<Rightarrow> 's \<Rightarrow> 'p \<Rightarrow> bool \<Rightarrow> bool \<Rightarrow> bool" where
  "note_existing_path_delta_support h s path follow ex =
     (case get_metadata h s path follow of
        Inr md \<Rightarrow> if is_file md \<and> \<not> is_symlink md then ex else False
      | Inl source \<Rightarrow> if io_kind_of source = NotFound then ex else False)"

definition read_optional_file_text_for_delta ::
    "('s, 'p) host \<Rightarrow> 's \<Rightarrow> 'p \<Rightarrow> bool \<Rightarrow> bool \<Rightarrow> rstr option \<times> bool" where
  "read_optional_file_text_for_delta h s path follow ex =
     (let ex1 = note_existing_path_delta_support h s path follow ex in
      case read_file_text h s path follow of
        Inr content \<Rightarrow> (Some content, ex1)
      | Inl source \<Rightarrow> if io_kind_of source = NotFound then (None, ex1) else (None, False))"

definition msg_failed_write :: "('s, 'p) host \<Rightarrow> 'p \<Rightarrow> rstr" where
  "msg_failed_write h path = lit ''Failed to write file '' @ native_path h path"

definition with_context :: "rstr \<Rightarrow> (io_error + 'a) \<Rightarrow> anyhow_error + 'a" where
  "with_context ctx r = (case r of Inl e \<Rightarrow> Err (AnyIo (Some ctx) e) | Inr x \<Rightarrow> Ok x)"

definition write_file_with_missing_parent_retry ::
    "('s, 'p) host \<Rightarrow> 's \<Rightarrow> 'p \<Rightarrow> rstr \<Rightarrow> bool \<Rightarrow> (anyhow_error + unit) \<times> 's" where
  "write_file_with_missing_parent_retry h s path contents follow =
     (case write_file h s path contents follow of
        (Inr _, s1) \<Rightarrow> (Ok (), s1)
      | (Inl e, s1) \<Rightarrow>
          if io_kind_of e = NotFound then
            (let (r, s2) = (case path_parent h path of
                              Some parent \<Rightarrow> create_directory h s1 parent follow
                            | None \<Rightarrow> (Ok (), s1)) in
             case r of
               Inl e2 \<Rightarrow>
                 (Err (AnyIo (Some (lit ''Failed to create parent directories for '' @
                        native_path h path)) e2), s2)
             | Inr _ \<Rightarrow>
                 (let (r3, s3) = write_file h s2 path contents follow in
                  (with_context (msg_failed_write h path) r3, s3)))
          else (Err (AnyIo (Some (msg_failed_write h path)) e), s1))"

text \<open>\<open>derive_new_contents_from_chunks\<close>: the original and the new contents of a file.\<close>

definition derive_new_contents_from_chunks ::
    "('s, 'p) host \<Rightarrow> 's \<Rightarrow> 'p \<Rightarrow> update_file_chunk list \<Rightarrow> ApplyPatchFileUpdateMode \<Rightarrow> bool \<Rightarrow>
       (ApplyPatchError + rstr \<times> rstr) option" where
  "derive_new_contents_from_chunks h s path chunks m follow =
     (case read_file_text h s path follow of
        Inl e \<Rightarrow>
          Some (Err (ApIoError (lit ''Failed to read file to update '' @ native_path h path) e))
      | Inr original \<Rightarrow>
          map_option (map_sum id (\<lambda>new. (original, new)))
            (new_contents_from_chunks original (native_path h path) chunks m))"

section \<open>One hunk\<close>

type_synonym ('s, 'p) hunk_result =
  "(anyhow_error + unit) \<times> 'p applied_patch_delta \<times> 's"

definition apply_add_hunk ::
    "('s, 'p) host \<Rightarrow> bool \<Rightarrow> 'p \<Rightarrow> rstr \<Rightarrow> 's \<Rightarrow> 'p applied_patch_delta \<Rightarrow> ('s, 'p) hunk_result"
where
  "apply_add_hunk h follow path_uri contents s d =
     (let (overwritten, ex) = read_optional_file_text_for_delta h s path_uri follow (exact d);
          d1 = d\<lparr>exact := ex\<rparr>;
          (r, s1) = write_file_with_missing_parent_retry h s path_uri contents follow in
      case r of
        Inl e \<Rightarrow> (Err e, inexact d1, s1)
      | Inr _ \<Rightarrow> (Ok (), push_change d1 path_uri (AppliedAdd contents overwritten), s1))"

definition apply_delete_hunk ::
    "('s, 'p) host \<Rightarrow> bool \<Rightarrow> 'p \<Rightarrow> 's \<Rightarrow> 'p applied_patch_delta \<Rightarrow> ('s, 'p) hunk_result" where
  "apply_delete_hunk h follow path_uri s d =
     (let msg = lit ''Failed to delete file '' @ native_path h path_uri;
          ex = note_existing_path_delta_support h s path_uri follow (exact d);
          content = (case read_file_text h s path_uri follow of Inl _ \<Rightarrow> None | Inr c \<Rightarrow> Some c);
          d1 = d\<lparr>exact := ex \<and> content \<noteq> None\<rparr> in
      case ensure_not_directory h s path_uri follow of
        Inl e \<Rightarrow> (Err (AnyIo (Some msg) e), d1, s)
      | Inr _ \<Rightarrow>
          (case remove_file h s path_uri follow of
             (Inl e, s1) \<Rightarrow>
               (Err (AnyIo (Some msg) e),
                d1\<lparr>exact := exact d1 \<and>
                     remove_failure_was_side_effect_free h s1 path_uri content follow\<rparr>, s1)
           | (Inr _, s1) \<Rightarrow>
               (Ok (),
                (case content of
                   Some c \<Rightarrow> push_change d1 path_uri (AppliedDelete c)
                 | None \<Rightarrow> d1), s1)))"

text \<open>
  The rename branch: the destination is written first and recorded as an addition; only
  when the original is removed does the entry become the update.
\<close>

definition apply_move ::
    "('s, 'p) host \<Rightarrow> bool \<Rightarrow> 'p \<Rightarrow> 'p \<Rightarrow> rstr \<Rightarrow> rstr \<Rightarrow> 's \<Rightarrow> 'p applied_patch_delta \<Rightarrow>
       ('s, 'p) hunk_result" where
  "apply_move h follow path_uri dest_uri original new s d =
     (let msg = lit ''Failed to remove original '' @ native_path h path_uri;
          (overwritten, ex) = read_optional_file_text_for_delta h s dest_uri follow (exact d);
          d1 = d\<lparr>exact := ex\<rparr>;
          (r, s1) = write_file_with_missing_parent_retry h s dest_uri new follow in
      case r of
        Inl e \<Rightarrow> (Err e, inexact d1, s1)
      | Inr _ \<Rightarrow>
          (let d2 = push_change d1 dest_uri (AppliedAdd new overwritten) in
           case ensure_not_directory h s1 path_uri follow of
             Inl e \<Rightarrow> (Err (AnyIo (Some msg) e), d2, s1)
           | Inr _ \<Rightarrow>
               (case remove_file h s1 path_uri follow of
                  (Inl e, s2) \<Rightarrow>
                    (Err (AnyIo (Some msg) e),
                     d2\<lparr>exact := exact d2 \<and>
                          remove_failure_was_side_effect_free h s2 path_uri (Some original) follow\<rparr>,
                     s2)
                | (Inr _, s2) \<Rightarrow>
                    (Ok (),
                     d2\<lparr>changes := (changes d2)[length (changes d1) :=
                          (path_uri, AppliedUpdate (Some dest_uri) original overwritten new)]\<rparr>,
                     s2))))"

definition apply_update_hunk ::
    "('s, 'p) host \<Rightarrow> apply_patch_options \<Rightarrow> 'p \<Rightarrow> 'p \<Rightarrow> rstr option \<Rightarrow> update_file_chunk list \<Rightarrow>
       's \<Rightarrow> 'p applied_patch_delta \<Rightarrow> ('s, 'p) hunk_result option" where
  "apply_update_hunk h opts cwd path_uri move_path chunks s d =
     (let follow = follow_symlinks opts;
          d1 = d\<lparr>exact := note_existing_path_delta_support h s path_uri follow (exact d)\<rparr> in
      case derive_new_contents_from_chunks h s path_uri chunks (update_file_mode opts) follow of
        None \<Rightarrow> None
      | Some (Inl e) \<Rightarrow> Some (Err (AnyApply e), d1, s)
      | Some (Inr (original, new)) \<Rightarrow>
          (case move_path of
             Some dest \<Rightarrow>
               (case path_join h cwd dest of
                  Inl e \<Rightarrow> Some (Err (AnyMsg e), d1, s)
                | Inr dest_uri \<Rightarrow>
                    Some (apply_move h follow path_uri dest_uri original new s d1))
           | None \<Rightarrow>
               (case write_file h s path_uri new follow of
                  (Inl e, s1) \<Rightarrow>
                    Some (Err (AnyIo (Some (msg_failed_write h path_uri)) e), inexact d1, s1)
                | (Inr _, s1) \<Rightarrow>
                    Some (Ok (),
                      push_change d1 path_uri (AppliedUpdate None original None new), s1))))"

definition apply_hunk ::
    "('s, 'p) host \<Rightarrow> apply_patch_options \<Rightarrow> 'p \<Rightarrow> Hunk \<Rightarrow> 's \<Rightarrow> 'p applied_patch_delta \<Rightarrow>
       ('s, 'p) hunk_result option" where
  "apply_hunk h opts cwd hunk s d =
     (case path_join h cwd (hunk_source_path hunk) of
        Inl e \<Rightarrow> Some (Err (AnyMsg e), d, s)
      | Inr path_uri \<Rightarrow>
          (case hunk of
             AddFile path contents \<Rightarrow>
               Some (apply_add_hunk h (follow_symlinks opts) path_uri contents s d)
           | DeleteFile path \<Rightarrow>
               Some (apply_delete_hunk h (follow_symlinks opts) path_uri s d)
           | UpdateFile path move_path chunks \<Rightarrow>
               apply_update_hunk h opts cwd path_uri move_path chunks s d))"

section \<open>All hunks\<close>

fun note_affected :: "Hunk \<Rightarrow> affected_paths \<Rightarrow> affected_paths" where
  "note_affected (AddFile p c) a = a\<lparr>added := added a @ [hunk_path (AddFile p c)]\<rparr>"
| "note_affected (DeleteFile p) a = a\<lparr>deleted := deleted a @ [hunk_path (DeleteFile p)]\<rparr>"
| "note_affected (UpdateFile p m cs) a =
     a\<lparr>modified := modified a @ [hunk_path (UpdateFile p m cs)]\<rparr>"

fun apply_hunks_loop ::
    "('s, 'p) host \<Rightarrow> apply_patch_options \<Rightarrow> 'p \<Rightarrow> Hunk list \<Rightarrow> affected_paths \<Rightarrow> 's \<Rightarrow>
       'p applied_patch_delta \<Rightarrow>
       ((anyhow_error + affected_paths) \<times> 'p applied_patch_delta \<times> 's) option" where
  "apply_hunks_loop h opts cwd [] a s d = Some (Ok a, d, s)"
| "apply_hunks_loop h opts cwd (hunk # hs) a s d =
     (case apply_hunk h opts cwd hunk s d of
        None \<Rightarrow> None
      | Some (Inl e, d1, s1) \<Rightarrow> Some (Err e, d1, s1)
      | Some (Inr _, d1, s1) \<Rightarrow> apply_hunks_loop h opts cwd hs (note_affected hunk a) s1 d1)"

definition apply_hunks_to_files ::
    "('s, 'p) host \<Rightarrow> apply_patch_options \<Rightarrow> 'p \<Rightarrow> Hunk list \<Rightarrow> 's \<Rightarrow> 'p applied_patch_delta \<Rightarrow>
       ((anyhow_error + affected_paths) \<times> 'p applied_patch_delta \<times> 's) option" where
  "apply_hunks_to_files h opts cwd hs s d =
     (if hs = [] then Some (Err (AnyMsg (lit ''No files were modified.'')), d, s)
      else apply_hunks_loop h opts cwd hs \<lparr>added = [], modified = [], deleted = []\<rparr> s d)"

fun write_lines ::
    "('s, 'p) host \<Rightarrow> out_stream \<Rightarrow> rstr list \<Rightarrow> 's \<Rightarrow> (io_error + unit) \<times> 's" where
  "write_lines h out [] s = (Ok (), s)"
| "write_lines h out (l # ls) s =
     (case write_line h s out l of
        (Inl e, s1) \<Rightarrow> (Err e, s1)
      | (Inr _, s1) \<Rightarrow> write_lines h out ls s1)"

definition summary_lines :: "affected_paths \<Rightarrow> rstr list" where
  "summary_lines a =
     lit ''Success. Updated the following files:'' #
     map ((@) (lit ''A '')) (added a) @ map ((@) (lit ''M '')) (modified a) @
     map ((@) (lit ''D '')) (deleted a)"

definition print_summary ::
    "('s, 'p) host \<Rightarrow> affected_paths \<Rightarrow> 's \<Rightarrow> (io_error + unit) \<times> 's" where
  "print_summary h a s = write_lines h Stdout (summary_lines a) s"

text \<open>\<open>ApplyPatchError::from(io::Error)\<close>.\<close>

definition apply_error_of_io :: "io_error \<Rightarrow> ApplyPatchError" where
  "apply_error_of_io e = ApIoError (lit ''I/O error'') e"

fun apply_error_of_anyhow :: "anyhow_error \<Rightarrow> ApplyPatchError" where
  "apply_error_of_anyhow (AnyIo ctx e) = apply_error_of_io e"
| "apply_error_of_anyhow e =
     ApIoError (display_anyhow e)
       \<lparr>io_kind_of = OtherKind, io_message = display_anyhow e\<rparr>"

definition apply_hunks_with_options ::
    "('s, 'p) host \<Rightarrow> apply_patch_options \<Rightarrow> 'p \<Rightarrow> Hunk list \<Rightarrow> 's \<Rightarrow>
       ((ApplyPatchError \<times> 'p applied_patch_delta + 'p applied_patch_delta) \<times> 's) option" where
  "apply_hunks_with_options h opts cwd hs s =
     (case apply_hunks_to_files h opts cwd hs s delta_empty of
        None \<Rightarrow> None
      | Some (Inr affected, d, s1) \<Rightarrow>
          (case print_summary h affected s1 of
             (Inl e, s2) \<Rightarrow> Some (Err (apply_error_of_io e, d), s2)
           | (Inr _, s2) \<Rightarrow> Some (Ok d, s2))
      | Some (Inl error, d, s1) \<Rightarrow>
          (case write_line h s1 Stderr (display_anyhow error) of
             (Inl e, s2) \<Rightarrow> Some (Err (apply_error_of_io e, d), s2)
           | (Inr _, s2) \<Rightarrow> Some (Err (apply_error_of_anyhow error, d), s2)))"

fun parse_error_line :: "ParseError \<Rightarrow> rstr" where
  "parse_error_line (InvalidPatchError m) = lit ''Invalid patch: '' @ m"
| "parse_error_line (InvalidHunkError m n) =
     lit ''Invalid patch hunk on line '' @ show_nat n @ lit '': '' @ m"

definition apply_patch_with_options ::
    "('s, 'p) host \<Rightarrow> rstr \<Rightarrow> apply_patch_options \<Rightarrow> 'p \<Rightarrow> 's \<Rightarrow>
       ((ApplyPatchError \<times> 'p applied_patch_delta + 'p applied_patch_delta) \<times> 's) option" where
  "apply_patch_with_options h patch opts cwd s =
     (case parse_patch patch of
        Inr source \<Rightarrow> apply_hunks_with_options h opts cwd (args_hunks source) s
      | Inl e \<Rightarrow>
          (case write_line h s Stderr (parse_error_line e) of
             (Inl ioe, s1) \<Rightarrow> Some (Err (apply_error_of_io ioe, delta_empty), s1)
           | (Inr _, s1) \<Rightarrow> Some (Err (ApParseError e, delta_empty), s1)))"

definition apply_patch ::
    "('s, 'p) host \<Rightarrow> rstr \<Rightarrow> 'p \<Rightarrow> 's \<Rightarrow>
       ((ApplyPatchError \<times> 'p applied_patch_delta + 'p applied_patch_delta) \<times> 's) option" where
  "apply_patch h patch cwd s = apply_patch_with_options h patch default_options cwd s"

section \<open>What the code relies on\<close>

text \<open>A path the delta can describe: a regular file that is no symlink, or nothing.\<close>

definition plain :: "('s, 'p) host \<Rightarrow> 's \<Rightarrow> 'p \<Rightarrow> bool \<Rightarrow> bool" where
  "plain h s p f \<longleftrightarrow>
     (case get_metadata h s p f of
        Inr md \<Rightarrow> is_file md \<and> \<not> is_symlink md
      | Inl e \<Rightarrow> io_kind_of e = NotFound)"

text \<open>
  \<open>view s\<close> is the text each path holds in world \<open>s\<close>. Reads report it; a write that
  succeeds on a plain path changes that path only; a write that fails because the parent
  is missing changes nothing; creating a parent directory changes no text; a removal
  that succeeds empties its path, and one that fails leaves the text or has emptied it.
\<close>

definition text_fs :: "('s, 'p) host \<Rightarrow> bool \<Rightarrow> ('s \<Rightarrow> 'p \<Rightarrow> rstr option) \<Rightarrow> bool" where
  "text_fs h f view \<longleftrightarrow>
     (\<forall>s p t. read_file_text h s p f = Inr t \<longrightarrow> view s p = Some t) \<and>
     (\<forall>s p e. read_file_text h s p f = Inl e \<longrightarrow> io_kind_of e = NotFound \<longrightarrow> view s p = None) \<and>
     (\<forall>s p t u s'. plain h s p f \<longrightarrow> write_file h s p t f = (Inr u, s') \<longrightarrow>
        view s' = (view s)(p \<mapsto> t) \<and>
        (\<forall>q. plain h s q f \<longrightarrow> view s q \<noteq> None \<longrightarrow> plain h s' q f)) \<and>
     (\<forall>s p t e s'. write_file h s p t f = (Inl e, s') \<longrightarrow> io_kind_of e = NotFound \<longrightarrow>
        view s' = view s \<and> (\<forall>q. plain h s q f \<longrightarrow> plain h s' q f)) \<and>
     (\<forall>s p r s'. create_directory h s p f = (r, s') \<longrightarrow>
        view s' = view s \<and>
        (\<forall>q. plain h s q f \<longrightarrow> path_parent h q = Some p \<or> view s q \<noteq> None \<longrightarrow> plain h s' q f)) \<and>
     (\<forall>s p u s'. plain h s p f \<longrightarrow> remove_file h s p f = (Inr u, s') \<longrightarrow>
        view s' = (view s)(p := None)) \<and>
     (\<forall>s p e s'. plain h s p f \<longrightarrow> remove_file h s p f = (Inl e, s') \<longrightarrow>
        view s' = view s \<or> view s' = (view s)(p := None))"

lemmas text_fsD = text_fs_def [THEN iffD1]
lemmas read_Inr = text_fsD [THEN conjunct1, rule_format]
lemmas read_NotFound = text_fsD [THEN conjunct2, THEN conjunct1, rule_format]
lemmas write_Inr = text_fsD [THEN conjunct2, THEN conjunct2, THEN conjunct1, rule_format]
lemmas write_NotFound =
  text_fsD [THEN conjunct2, THEN conjunct2, THEN conjunct2, THEN conjunct1, rule_format]
lemmas mkdir_keeps =
  text_fsD [THEN conjunct2, THEN conjunct2, THEN conjunct2, THEN conjunct2, THEN conjunct1,
    rule_format]
lemmas remove_Inr =
  text_fsD [THEN conjunct2, THEN conjunct2, THEN conjunct2, THEN conjunct2, THEN conjunct2,
    THEN conjunct1, rule_format]
lemmas remove_Inl =
  text_fsD [THEN conjunct2, THEN conjunct2, THEN conjunct2, THEN conjunct2, THEN conjunct2,
    THEN conjunct2, rule_format]

section \<open>Replaying and undoing a delta\<close>

fun replay1 :: "'p \<times> 'p AppliedPatchFileChange \<Rightarrow> ('p \<Rightarrow> rstr option) \<Rightarrow> 'p \<Rightarrow> rstr option" where
  "replay1 (p, AppliedAdd content overwritten) v = v(p \<mapsto> content)"
| "replay1 (p, AppliedDelete content) v = v(p := None)"
| "replay1 (p, AppliedUpdate None old ov new) v = v(p \<mapsto> new)"
| "replay1 (p, AppliedUpdate (Some d) old ov new) v = (v(d \<mapsto> new))(p := None)"

fun undo1 :: "'p \<times> 'p AppliedPatchFileChange \<Rightarrow> ('p \<Rightarrow> rstr option) \<Rightarrow> 'p \<Rightarrow> rstr option" where
  "undo1 (p, AppliedAdd content overwritten) v = v(p := overwritten)"
| "undo1 (p, AppliedDelete content) v = v(p \<mapsto> content)"
| "undo1 (p, AppliedUpdate None old ov new) v = v(p \<mapsto> old)"
| "undo1 (p, AppliedUpdate (Some d) old ov new) v = (v(p \<mapsto> old))(d := ov)"

definition replay ::
    "('p \<times> 'p AppliedPatchFileChange) list \<Rightarrow> ('p \<Rightarrow> rstr option) \<Rightarrow> 'p \<Rightarrow> rstr option" where
  "replay cs v = fold replay1 cs v"

definition undo ::
    "('p \<times> 'p AppliedPatchFileChange) list \<Rightarrow> ('p \<Rightarrow> rstr option) \<Rightarrow> 'p \<Rightarrow> rstr option" where
  "undo cs v = foldr undo1 cs v"

lemma replay_simps [simp]:
  "replay [] v = v" "replay (c # cs) v = replay cs (replay1 c v)"
  "replay (cs @ ds) v = replay ds (replay cs v)"
  by (simp_all add: replay_def)

lemma undo_simps [simp]:
  "undo [] v = v" "undo (c # cs) v = undo1 c (undo cs v)"
  "undo (cs @ ds) v = undo cs (undo ds v)"
  by (simp_all add: undo_def)

text \<open>Changes that record the texts they replace, each on the texts the ones before it leave.\<close>

fun truthful :: "('p \<times> 'p AppliedPatchFileChange) list \<Rightarrow> ('p \<Rightarrow> rstr option) \<Rightarrow> bool" where
  "truthful [] v \<longleftrightarrow> True"
| "truthful (c # cs) v \<longleftrightarrow> undo1 c (replay1 c v) = v \<and> truthful cs (replay1 c v)"

lemma truthful_append [simp]: "truthful (cs @ ds) v \<longleftrightarrow> truthful cs v \<and> truthful ds (replay cs v)"
  by (induction cs arbitrary: v) simp_all

lemma truthful_undo: "truthful cs v \<Longrightarrow> undo cs (replay cs v) = v"
  by (induction cs arbitrary: v) simp_all

lemma truthful_short: "v = undo cs (replay cs v) \<Longrightarrow> length cs \<le> Suc 0 \<Longrightarrow> truthful cs v"
  by (cases cs) simp_all

text \<open>
  From \<open>(s, d)\<close> to \<open>(s', d')\<close>, if the delta is still exact, it was exact before, and the
  changes it gained are truthful and take the old texts to the new ones.
\<close>

definition commits ::
    "('s \<Rightarrow> 'p \<Rightarrow> rstr option) \<Rightarrow> 's \<Rightarrow> 'p applied_patch_delta \<Rightarrow> 's \<Rightarrow>
       'p applied_patch_delta \<Rightarrow> bool" where
  "commits view s d s' d' \<longleftrightarrow>
     (exact d' \<longrightarrow> exact d \<and>
        (\<exists>cs. changes d' = changes d @ cs \<and> view s' = replay cs (view s) \<and> truthful cs (view s)))"

lemma commitsI:
  "(exact d' \<Longrightarrow> exact d \<and> changes d' = changes d @ cs \<and> view s' = replay cs (view s) \<and>
      view s = undo cs (view s')) \<Longrightarrow> length cs \<le> Suc 0 \<Longrightarrow> commits view s d s' d'"
  unfolding commits_def by (metis truthful_short)

lemma commits_trans:
  assumes "commits view s d s1 d1" and "commits view s1 d1 s2 d2"
  shows "commits view s d s2 d2"
proof (cases "exact d2")
  case True
  with assms(2) obtain ds where ds: "exact d1" "changes d2 = changes d1 @ ds"
    "view s2 = replay ds (view s1)" "truthful ds (view s1)"
    unfolding commits_def by blast
  from assms(1) ds(1) obtain cs where cs: "exact d" "changes d1 = changes d @ cs"
    "view s1 = replay cs (view s)" "truthful cs (view s)"
    unfolding commits_def by blast
  have "view s2 = replay (cs @ ds) (view s)" "truthful (cs @ ds) (view s)" using cs(3,4) ds(3,4) by simp_all
  moreover have "exact d" "changes d2 = changes d @ cs @ ds" using cs(1,2) ds(2) by simp_all
  ultimately show ?thesis unfolding commits_def by blast
qed (simp add: commits_def)

lemma commits_inexact [simp]: "\<not> exact d' \<Longrightarrow> commits view s d s' d'"
  by (simp add: commits_def)

lemma exact_inexact [simp]: "\<not> exact (inexact d)"
  by (simp add: inexact_def)

section \<open>Each operation commits what it records\<close>

lemma note_plain:
  "note_existing_path_delta_support h s p f ex \<longleftrightarrow> ex \<and> plain h s p f"
  by (auto simp: note_existing_path_delta_support_def plain_def split: sum.splits)

lemma read_optional_exact:
  assumes "read_optional_file_text_for_delta h s p f ex = (ov, True)" and "text_fs h f view"
  shows "ex \<and> plain h s p f \<and> ov = view s p"
  using assms read_Inr [OF assms(2)] read_NotFound [OF assms(2)]
  by (auto simp: read_optional_file_text_for_delta_def Let_def note_plain
      split: sum.splits if_splits)

lemma write_retry_ok:
  assumes fs: "text_fs h f view"
    and w: "write_file_with_missing_parent_retry h s p t f = (Inr u, s')" and pl: "plain h s p f"
  shows "view s' = (view s)(p \<mapsto> t) \<and>
     (\<forall>q. plain h s q f \<longrightarrow> view s q \<noteq> None \<longrightarrow> plain h s' q f)"
proof (cases "write_file h s p t f")
  case (Pair r s1)
  show ?thesis
  proof (cases r)
    case (Inr v)
    with Pair w have "s' = s1" by (simp add: write_file_with_missing_parent_retry_def)
    with write_Inr [OF fs pl, of t v s1] Pair Inr show ?thesis by simp
  next
    case (Inl e)
    with Pair w have e: "io_kind_of e = NotFound"
      by (auto simp: write_file_with_missing_parent_retry_def split: if_splits)
    note s1 = write_NotFound [OF fs Pair [unfolded Inl] e]
    obtain r2 s2 where d: "(case path_parent h p of Some parent \<Rightarrow> create_directory h s1 parent f
        | None \<Rightarrow> (Ok (), s1)) = (r2, s2)" by (cases "path_parent h p") force+
    have s2: "view s2 = view s1" "plain h s1 q f \<Longrightarrow> q = p \<or> view s1 q \<noteq> None \<Longrightarrow> plain h s2 q f" for q
      using d mkdir_keeps [OF fs] by (cases "path_parent h p"; force)+
    obtain v where "write_file h s2 p t f = (Inr v, s')"
      using w Pair Inl e d
      by (auto simp: write_file_with_missing_parent_retry_def with_context_def
          split: sum.splits prod.splits)
    from write_Inr [OF fs _ this] s1 s2 pl show ?thesis by simp
  qed
qed

lemma add_hunk_commits:
  assumes fs: "text_fs h f view" and a: "apply_add_hunk h f p c s d = (r, d', s')"
  shows "commits view s d s' d'"
proof -
  obtain ov ex where o: "read_optional_file_text_for_delta h s p f (exact d) = (ov, ex)" by fastforce
  obtain r1 s1 where w: "write_file_with_missing_parent_retry h s p c f = (r1, s1)" by fastforce
  show ?thesis
  proof (cases r1)
    case (Inl e)
    with a o w show ?thesis by (auto simp: apply_add_hunk_def)
  next
    case (Inr u)
    with a o w have d': "d' = push_change (d\<lparr>exact := ex\<rparr>) p (AppliedAdd c ov)" "s' = s1"
      by (auto simp: apply_add_hunk_def)
    show ?thesis
    proof (rule commitsI [where cs = "[(p, AppliedAdd c ov)]"])
      assume "exact d'"
      with d' have "ex" by (simp add: push_change_def)
      with o have "read_optional_file_text_for_delta h s p f (exact d) = (ov, True)" by simp
      from read_optional_exact [OF this fs] have "exact d" "plain h s p f" "ov = view s p"
        by simp_all
      with write_retry_ok [OF fs w [unfolded Inr]] d'
      show "exact d \<and> changes d' = changes d @ [(p, AppliedAdd c ov)] \<and>
          view s' = replay [(p, AppliedAdd c ov)] (view s) \<and>
          view s = undo [(p, AppliedAdd c ov)] (view s')"
        by (auto simp: push_change_def)
    qed simp
  qed
qed

text \<open>A failed removal after which the expected text is still there did nothing.\<close>

lemma remove_failure_free:
  assumes fs: "text_fs h f view" and "plain h s p f" and "remove_file h s p f = (Inl e, s')"
    and "remove_failure_was_side_effect_free h s' p c f"
  shows "view s' = view s"
proof -
  from assms(4) obtain t where "read_file_text h s' p f = Inr t"
    by (auto simp: remove_failure_was_side_effect_free_def split: option.splits sum.splits)
  with read_Inr [OF fs] have "view s' p = Some t" by simp
  with remove_Inl [OF fs assms(2,3)] show ?thesis by auto
qed

lemma delete_hunk_commits:
  assumes fs: "text_fs h f view" and a: "apply_delete_hunk h f p s d = (r, d', s')"
  shows "commits view s d s' d'"
proof (cases "exact d'")
  case True
  obtain r1 s1 where rm: "remove_file h s p f = (r1, s1)" by fastforce
  from True a rm have ex: "exact d" "plain h s p f"
    by (auto simp: apply_delete_hunk_def Let_def note_plain push_change_def
        split: sum.splits option.splits)
  from True a rm obtain t where t: "read_file_text h s p f = Inr t"
    by (auto simp: apply_delete_hunk_def Let_def push_change_def split: sum.splits)
  then have v: "view s p = Some t" by (rule read_Inr [OF fs])
  show ?thesis
  proof (cases "ensure_not_directory h s p f")
    case (Inl e)
    with a have "s' = s" "changes d' = changes d"
      by (auto simp: apply_delete_hunk_def Let_def)
    with ex show ?thesis by (auto intro: commitsI [where cs = "[]"])
  next
    case nd: (Inr u)
    show ?thesis
    proof (cases r1)
      case (Inr u)
      have "view s1 = (view s)(p := None)" using remove_Inr [OF fs ex(2)] rm Inr by blast
      moreover have "s' = s1" "changes d' = changes d @ [(p, AppliedDelete t)]"
        using a rm Inr t nd by (auto simp: apply_delete_hunk_def Let_def push_change_def)
      ultimately show ?thesis
        using v ex by (auto intro!: commitsI [where cs = "[(p, AppliedDelete t)]"])
    next
      case (Inl e)
      with True a rm t nd have "s' = s1" "changes d' = changes d"
        and "remove_failure_was_side_effect_free h s1 p (Some t) f"
        by (auto simp: apply_delete_hunk_def Let_def)
      with remove_failure_free [OF fs ex(2) rm [unfolded Inl]] ex
      show ?thesis by (auto intro: commitsI [where cs = "[]"])
    qed
  qed
qed simp

lemma apply_move_exact:
  assumes "apply_move h f p q old new s d = (r, d', s')" and "exact d'"
  shows "exact d"
  using assms
  by (auto simp: apply_move_def Let_def push_change_def read_optional_file_text_for_delta_def
      note_plain split: sum.splits prod.splits if_splits)

lemma move_commits:
  assumes fs: "text_fs h f view" and pl: "plain h s p f" and v: "view s p = Some old"
    and a: "apply_move h f p q old new s d = (r, d', s')"
  shows "commits view s d s' d'"
proof (cases "exact d'")
  case True
  obtain ov ex where o: "read_optional_file_text_for_delta h s q f (exact d) = (ov, ex)" by fastforce
  obtain r1 s1 where w: "write_file_with_missing_parent_retry h s q new f = (r1, s1)" by fastforce
  obtain r2 s2 where rm: "remove_file h s1 p f = (r2, s2)" by fastforce
  from True a o w rm have "ex" and "r1 = Inr ()"
    by (auto simp: apply_move_def Let_def push_change_def split: sum.splits)
  with o have "read_optional_file_text_for_delta h s q f (exact d) = (ov, True)" by simp
  from read_optional_exact [OF this fs] have q: "exact d" "plain h s q f" "ov = view s q"
    by simp_all
  from write_retry_ok [OF fs _ q(2)] w \<open>r1 = Inr ()\<close> pl v
  have s1: "view s1 = (view s)(q \<mapsto> new)" "plain h s1 p f" by auto
  have add: "commits view s d s' d'"
    if "changes d' = changes d @ [(q, AppliedAdd new ov)]" "view s' = view s1"
    using that q s1 by (intro commitsI [where cs = "[(q, AppliedAdd new ov)]"]) auto
  show ?thesis
  proof (cases "ensure_not_directory h s1 p f")
    case (Inl e)
    with a o w \<open>r1 = Inr ()\<close> show ?thesis
      by (intro add) (auto simp: apply_move_def Let_def push_change_def)
  next
    case nd: (Inr u)
    show ?thesis
    proof (cases r2)
      case (Inl e)
      with True a o w rm nd \<open>r1 = Inr ()\<close>
      have "s' = s2" "changes d' = changes d @ [(q, AppliedAdd new ov)]"
        and "remove_failure_was_side_effect_free h s2 p (Some old) f"
        by (auto simp: apply_move_def Let_def push_change_def)
      with remove_failure_free [OF fs s1(2) rm [unfolded Inl]] show ?thesis by (intro add) auto
    next
      case (Inr u)
      with a o w rm nd \<open>r1 = Inr ()\<close>
      have "s' = s2" "changes d' = changes d @ [(p, AppliedUpdate (Some q) old ov new)]"
        by (auto simp: apply_move_def Let_def push_change_def)
      with remove_Inr [OF fs s1(2)] rm Inr s1 q v show ?thesis
        by (intro commitsI [where cs = "[(p, AppliedUpdate (Some q) old ov new)]"]) auto
    qed
  qed
qed simp

lemma update_hunk_commits:
  assumes fs: "text_fs h (follow_symlinks opts) view"
    and a: "apply_update_hunk h opts cwd p m chunks s d = Some (r, d', s')"
  shows "commits view s d s' d'"
proof (cases "exact d'")
  case True
  let ?f = "follow_symlinks opts"
  let ?d1 = "d\<lparr>exact := note_existing_path_delta_support h s p ?f (exact d)\<rparr>"
  have keep: "commits view s d s' d'" if "s' = s" "d' = ?d1"
    using that True by (intro commitsI [where cs = "[]"]) (auto simp: note_plain)
  obtain x where x: "derive_new_contents_from_chunks h s p chunks (update_file_mode opts) ?f = Some x"
    using a by (cases "derive_new_contents_from_chunks h s p chunks (update_file_mode opts) ?f")
      (auto simp: apply_update_hunk_def)
  show ?thesis
  proof (cases x)
    case (Inl e)
    with a x show ?thesis by (intro keep) (auto simp: apply_update_hunk_def)
  next
    case (Inr on)
    then obtain old new where on: "x = Inr (old, new)" by (cases on) auto
    with x have "read_file_text h s p ?f = Inr old"
      by (auto simp: derive_new_contents_from_chunks_def map_option_case map_sum_def id_def
          split: sum.splits option.splits)
    then have v: "view s p = Some old" by (rule read_Inr [OF fs])
    show ?thesis
    proof (cases m)
      case None
      with True a x on obtain s1 u where w: "write_file h s p new ?f = (Inr u, s')"
        and d': "d' = push_change ?d1 p (AppliedUpdate None old None new)"
        by (auto simp: apply_update_hunk_def Let_def split: prod.splits sum.splits)
      with True have ex: "exact d" "plain h s p ?f" by (auto simp: push_change_def note_plain)
      from write_Inr [OF fs ex(2) w] v ex d' show ?thesis
        by (intro commitsI [where cs = "[(p, AppliedUpdate None old None new)]"])
          (auto simp: push_change_def)
    next
      case (Some dest)
      show ?thesis
      proof (cases "path_join h cwd dest")
        case (Inl e)
        with a x on Some show ?thesis by (intro keep) (auto simp: apply_update_hunk_def)
      next
        case (Inr q)
        with a x on Some have mv: "apply_move h ?f p q old new s ?d1 = (r, d', s')"
          by (auto simp: apply_update_hunk_def Let_def)
        show ?thesis
        proof (cases "plain h s p ?f")
          case True
          then have "?d1 = d" by (simp add: note_plain)
          with move_commits [OF fs True v] mv show ?thesis by simp
        next
          case False
          then have "\<not> exact ?d1" by (simp add: note_plain)
          with apply_move_exact [OF mv] True show ?thesis by blast
        qed
      qed
    qed
  qed
qed simp

lemma apply_hunk_commits:
  assumes "text_fs h (follow_symlinks opts) view"
    and "apply_hunk h opts cwd hunk s d = Some (r, d', s')"
  shows "commits view s d s' d'"
  using assms(2) update_hunk_commits [OF assms(1)] add_hunk_commits [OF assms(1)]
    delete_hunk_commits [OF assms(1)]
  by (auto simp: apply_hunk_def split: sum.splits Hunk.splits intro: commitsI [where cs = "[]"])

lemma apply_hunks_loop_commits:
  assumes "text_fs h (follow_symlinks opts) view"
  shows "apply_hunks_loop h opts cwd hs a s d = Some (r, d', s') \<Longrightarrow> commits view s d s' d'"
proof (induction hs arbitrary: a s d)
  case Nil
  then show ?case by (auto intro: commitsI [where cs = "[]"])
next
  case (Cons hunk hs)
  then obtain r1 d1 s1 where 1: "apply_hunk h opts cwd hunk s d = Some (r1, d1, s1)"
    by (cases "apply_hunk h opts cwd hunk s d") auto
  note c = apply_hunk_commits [OF assms 1]
  show ?case
  proof (cases r1)
    case (Inl e)
    with 1 Cons.prems c show ?thesis by auto
  next
    case (Inr u)
    with 1 Cons.prems have "apply_hunks_loop h opts cwd hs (note_affected hunk a) s1 d1 = Some (r, d', s')"
      by simp
    from commits_trans [OF c Cons.IH [OF this]] show ?thesis .
  qed
qed

lemma apply_hunks_to_files_commits:
  assumes "text_fs h (follow_symlinks opts) view"
    and "apply_hunks_to_files h opts cwd hs s d = Some (r, d', s')"
  shows "commits view s d s' d'"
  using assms(2) apply_hunks_loop_commits [OF assms(1)]
  by (auto simp: apply_hunks_to_files_def split: if_splits intro: commitsI [where cs = "[]"])

text \<open>Writing to the output streams does not change any file.\<close>

definition quiet_output :: "('s, 'p) host \<Rightarrow> ('s \<Rightarrow> 'p \<Rightarrow> rstr option) \<Rightarrow> bool" where
  "quiet_output h view \<longleftrightarrow> (\<forall>s out l. view (snd (write_line h s out l)) = view s)"

lemma quiet_write_line: "quiet_output h view \<Longrightarrow> write_line h s out l = (r, s') \<Longrightarrow> view s' = view s"
  unfolding quiet_output_def by (metis snd_conv)

lemma quiet_write_lines:
  "quiet_output h view \<Longrightarrow> write_lines h out ls s = (r, s') \<Longrightarrow> view s' = view s"
  by (induction ls arbitrary: s) (auto split: prod.splits sum.splits dest: quiet_write_line)

fun result_delta ::
    "ApplyPatchError \<times> 'p applied_patch_delta + 'p applied_patch_delta \<Rightarrow> 'p applied_patch_delta" where
  "result_delta (Inl (e, d)) = d"
| "result_delta (Inr d) = d"

lemma apply_hunks_with_options_files:
  assumes q: "quiet_output h view" and a: "apply_hunks_with_options h opts cwd hs s = Some (r, s')"
  shows "\<exists>x s1. apply_hunks_to_files h opts cwd hs s delta_empty = Some (x, result_delta r, s1) \<and>
     view s' = view s1"
proof -
  from a obtain x d s1 where
    x: "apply_hunks_to_files h opts cwd hs s delta_empty = Some (x, d, s1)"
    by (cases "apply_hunks_to_files h opts cwd hs s delta_empty")
      (auto simp: apply_hunks_with_options_def)
  with a have "result_delta r = d \<and> view s' = view s1"
    using quiet_write_line [OF q, of s1] quiet_write_lines [OF q, of Stdout _ s1]
    by (auto simp: apply_hunks_with_options_def print_summary_def split: sum.splits prod.splits)
  with x show ?thesis by blast
qed

lemma delta_empty_simps [simp]: "changes delta_empty = []" "exact delta_empty"
  by (simp_all add: delta_empty_def)

lemma apply_patch_files:
  assumes fs: "text_fs h (follow_symlinks opts) view" and q: "quiet_output h view"
    and a: "apply_patch_with_options h patch opts cwd s = Some (r, s')"
  shows "commits view s delta_empty s' (result_delta r)"
proof (cases "parse_patch patch")
  case (Inl e)
  with a have "result_delta r = delta_empty \<and> view s' = view s"
    using quiet_write_line [OF q, of s]
    by (auto simp: apply_patch_with_options_def split: sum.splits prod.splits)
  then show ?thesis by (auto intro: commitsI [where cs = "[]"])
next
  case (Inr src)
  with a have "apply_hunks_with_options h opts cwd (args_hunks src) s = Some (r, s')"
    by (simp add: apply_patch_with_options_def)
  from apply_hunks_with_options_files [OF q this] obtain x s1 where
    "apply_hunks_to_files h opts cwd (args_hunks src) s delta_empty = Some (x, result_delta r, s1)"
    and v: "view s' = view s1" by blast
  from apply_hunks_to_files_commits [OF fs this(1)] show ?thesis
    unfolding commits_def v .
qed

section \<open>The reported paths\<close>

definition is_add :: "Hunk \<Rightarrow> bool" where
  "is_add hk \<longleftrightarrow> (case hk of AddFile _ _ \<Rightarrow> True | _ \<Rightarrow> False)"

definition is_delete :: "Hunk \<Rightarrow> bool" where
  "is_delete hk \<longleftrightarrow> (case hk of DeleteFile _ \<Rightarrow> True | _ \<Rightarrow> False)"

definition is_update :: "Hunk \<Rightarrow> bool" where
  "is_update hk \<longleftrightarrow> (case hk of UpdateFile _ _ _ \<Rightarrow> True | _ \<Rightarrow> False)"

lemma apply_hunks_loop_affected:
  "apply_hunks_loop h opts cwd hs a s d = Some (Inr b, d', s') \<Longrightarrow>
     b = \<lparr>added = added a @ map hunk_path (filter is_add hs),
          modified = modified a @ map hunk_path (filter is_update hs),
          deleted = deleted a @ map hunk_path (filter is_delete hs)\<rparr>"
proof (induction hs arbitrary: a s d)
  case (Cons hk hs)
  then obtain u d1 s1 where "apply_hunk h opts cwd hk s d = Some (Inr u, d1, s1)"
    by (cases "apply_hunk h opts cwd hk s d") (auto split: sum.splits)
  with Cons.prems have "apply_hunks_loop h opts cwd hs (note_affected hk a) s1 d1 = Some (Inr b, d', s')"
    by simp
  from Cons.IH [OF this] show ?case
    by (cases hk) (simp_all add: is_add_def is_delete_def is_update_def)
qed simp

section \<open>Parsed patches never panic\<close>

lemma apply_hunk_total: "hunk_ok hk \<Longrightarrow> apply_hunk h opts cwd hk s d \<noteq> None"
  by (cases hk)
    (auto simp: apply_hunk_def apply_update_hunk_def derive_new_contents_from_chunks_def Let_def
      new_contents_total simp del: not_None_eq split: sum.splits option.splits prod.splits)

lemma apply_hunks_loop_total:
  "list_all hunk_ok hs \<Longrightarrow> apply_hunks_loop h opts cwd hs a s d \<noteq> None"
proof (induction hs arbitrary: a s d)
  case (Cons hk hs)
  then show ?case using apply_hunk_total [of hk h opts cwd s d]
    by (auto split: sum.splits prod.splits)
qed simp

lemma apply_hunks_with_options_total:
  "list_all hunk_ok hs \<Longrightarrow> apply_hunks_with_options h opts cwd hs s \<noteq> None"
  using apply_hunks_loop_total [of hs h opts cwd "\<lparr>added = [], modified = [], deleted = []\<rparr>" s delta_empty]
  by (auto simp: apply_hunks_with_options_def apply_hunks_to_files_def
      split: option.splits sum.splits prod.splits)

section \<open>A file system in memory\<close>

text \<open>
  An instance of the host that meets \<open>text_fs\<close> and \<open>quiet_output\<close>: the files as a map,
  and the lines written to the output streams.
\<close>

type_synonym mem_world = "(rstr \<Rightarrow> rstr option) \<times> (out_stream \<times> rstr) list"

definition no_such_file :: io_error where
  "no_such_file = \<lparr>io_kind_of = NotFound, io_message = lit ''No such file or directory''\<rparr>"

definition mem_host :: "(mem_world, rstr) host" where
  "mem_host =
     \<lparr>read_file_text = (\<lambda>s p f. case fst s p of Some t \<Rightarrow> Inr t | None \<Rightarrow> Inl no_such_file),
      write_file = (\<lambda>s p t f. (Inr (), ((fst s)(p \<mapsto> t), snd s))),
      remove_file = (\<lambda>s p f. case fst s p of
          Some t \<Rightarrow> (Inr (), ((fst s)(p := None), snd s)) | None \<Rightarrow> (Inl no_such_file, s)),
      create_directory = (\<lambda>s p f. (Inr (), s)),
      get_metadata = (\<lambda>s p f. case fst s p of
          Some t \<Rightarrow> Inr \<lparr>is_directory = False, is_file = True, is_symlink = False\<rparr>
        | None \<Rightarrow> Inl no_such_file),
      path_join = (\<lambda>base p. Inr (base @ [47] @ p)),
      path_parent = (\<lambda>p. None),
      native_path = (\<lambda>p. p),
      write_line = (\<lambda>s out l. (Inr (), (fst s, snd s @ [(out, l)])))\<rparr>"

lemma mem_host_text_fs: "text_fs mem_host f fst"
  by (auto simp: text_fs_def mem_host_def plain_def no_such_file_def split: option.splits)

lemma mem_host_quiet: "quiet_output mem_host fst"
  by (simp add: quiet_output_def mem_host_def)

definition sample_edits :: "hunk_text list" where
  "sample_edits =
     [UpdateText (lit ''a'') (Some (lit ''b''))
        [\<lparr>ct_context = None, ct_edits = [Remove (lit ''x''), Insert (lit ''y'')], ct_eof = False\<rparr>],
      AddText (lit ''c'') [lit ''z'']]"

definition sample_patch :: rstr where
  "sample_patch = print_patch None sample_edits"

definition sample_world :: mem_world where
  "sample_world = ((\<lambda>_. None)(lit ''r/a'' \<mapsto> lit ''x'' @ [10]), [])"

lemma parse_sample:
  "parse_patch sample_patch =
     Inr \<lparr>args_patch = sample_patch, args_hunks = map hunk_of sample_edits, args_workdir = None,
          args_environment_id = None\<rparr>"
  unfolding sample_patch_def
  by (intro parse_strict_imp_parse_patch parse_print_strict)
    (simp_all add: env_ok_def sample_edits_def name_ok_def opt_name_ok_def chunk_text_ok_def
      line_ok_def is_whitespace_def lit_eval)

text \<open>The rename of \<open>a\<close> to \<open>b\<close> and the new file \<open>c\<close>, with their recorded changes.\<close>

definition sample_delta :: "rstr applied_patch_delta" where
  "sample_delta =
     \<lparr>changes =
        [(lit ''r/a'', AppliedUpdate (Some (lit ''r/b'')) (lit ''x'' @ [10]) None (lit ''y'' @ [10])),
         (lit ''r/c'', AppliedAdd (lit ''z'' @ [10]) None)],
      exact = True\<rparr>"

definition sample_outcome ::
    "((ApplyPatchError \<times> rstr applied_patch_delta + rstr applied_patch_delta) \<times> mem_world) option" where
  "sample_outcome =
     apply_hunks_with_options mem_host default_options (lit ''r'') (map hunk_of sample_edits)
       sample_world"

lemma sample_outcome: "map_option fst sample_outcome = Some (Inr sample_delta)"
  by code_simp

lemma sample_run:
  "\<exists>w. apply_patch_with_options mem_host sample_patch default_options (lit ''r'') sample_world
     = Some (Inr sample_delta, w)"
  using sample_outcome
  by (auto simp: apply_patch_with_options_def parse_sample sample_outcome_def)

section \<open>Properties\<close>

text \<open>
  Applying any patch text never panics, whatever the files hold and in both update
  modes: every chunk the parser yields has consistent context indices, so no index,
  \<open>debug_assert\<close> or line lookup of the update can fail.
\<close>

theorem apply_patch_never_panics:
  "\<exists>r s'. apply_patch_with_options h patch opts cwd s = Some (r, s')"
proof (cases "parse_patch patch")
  case (Inl e)
  then show ?thesis by (auto simp: apply_patch_with_options_def split: sum.splits prod.splits)
next
  case (Inr src)
  then have "list_all hunk_ok (args_hunks src)"
    unfolding parse_patch_def by (rule parse_patch_text_hunks_ok)
  from apply_hunks_with_options_total [OF this, of h opts cwd s] Inr show ?thesis
    by (auto simp: apply_patch_with_options_def)
qed

text \<open>
  C1. The delta is a faithful record: after \<open>apply_patch_with_options\<close>, whether it
  succeeded or failed half way, if the delta it returns is marked exact then replaying
  its changes on the texts before gives the texts after, and undoing them in reverse
  gives the texts before.
\<close>

theorem apply_patch_delta_exact:
  assumes "text_fs h (follow_symlinks opts) view" and "quiet_output h view"
    and "apply_patch_with_options h patch opts cwd s = Some (r, s')"
    and "exact (result_delta r)"
  shows "view s' = replay (changes (result_delta r)) (view s) \<and>
     view s = undo (changes (result_delta r)) (view s')"
proof -
  from apply_patch_files [OF assms(1-3)] assms(4) obtain cs where
    "changes (result_delta r) = changes delta_empty @ cs"
    "view s' = replay cs (view s)" "truthful cs (view s)"
    unfolding commits_def by blast
  moreover from this(1) have "changes (result_delta r) = cs" by simp
  ultimately show ?thesis using truthful_undo by metis
qed

theorem apply_patch_delta_exact_witness:
  "\<exists>w. apply_patch_with_options mem_host sample_patch default_options (lit ''r'') sample_world
       = Some (Inr sample_delta, w) \<and>
     fst w = replay (changes sample_delta) (fst sample_world) \<and>
     fst sample_world = undo (changes sample_delta) (fst w)"
proof -
  obtain w where w: "apply_patch_with_options mem_host sample_patch default_options (lit ''r'')
      sample_world = Some (Inr sample_delta, w)"
    using sample_run by blast
  moreover have "exact (result_delta (Inr sample_delta))" by (simp add: sample_delta_def)
  note apply_patch_delta_exact [OF mem_host_text_fs mem_host_quiet w this]
  ultimately show ?thesis unfolding result_delta.simps by blast
qed

text \<open>
  When every hunk is applied, the summary lists exactly the patch's hunks, by kind and
  in patch order: the added, modified (under the new name of a rename) and deleted paths.
\<close>

theorem apply_hunks_reports_all:
  assumes "apply_hunks_to_files h opts cwd hs s d = Some (Inr a, d', s')"
  shows "added a = map hunk_path (filter is_add hs) \<and>
     modified a = map hunk_path (filter is_update hs) \<and>
     deleted a = map hunk_path (filter is_delete hs)"
  using assms by (auto simp: apply_hunks_to_files_def dest!: apply_hunks_loop_affected split: if_splits)

theorem apply_hunks_reports_all_witness:
  "let a = \<lparr>added = [lit ''c''], modified = [lit ''b''], deleted = []\<rparr> in
   map_option fst (apply_hunks_to_files mem_host default_options (lit ''r'')
     (map hunk_of sample_edits) sample_world delta_empty) = Some (Inr a) \<and>
   added a = map hunk_path (filter is_add (map hunk_of sample_edits))"
proof -
  let ?r = "apply_hunks_to_files mem_host default_options (lit ''r'')
     (map hunk_of sample_edits) sample_world delta_empty"
  have 1: "map_option fst ?r = Some (Inr \<lparr>added = [lit ''c''], modified = [lit ''b''], deleted = []\<rparr>)"
    by code_simp
  then obtain d s where
    "?r = Some (Inr \<lparr>added = [lit ''c''], modified = [lit ''b''], deleted = []\<rparr>, d, s)"
    by (auto simp: map_option_case split: option.splits)
  from apply_hunks_reports_all [OF this] 1 show ?thesis by (simp add: Let_def)
qed

text \<open>
  A rename onto the path being updated loses the file: the new text is written and
  then removed as the original, and the operation reports success.
\<close>

theorem move_onto_itself_loses_file:
  assumes fs: "text_fs h f view" and "plain h s p f" and "view s p = Some old"
    and a: "apply_move h f p p old new s d = (Inr u, d', s')"
  shows "view s' p = None"
proof -
  obtain u1 s1 where w: "write_file_with_missing_parent_retry h s p new f = (Inr u1, s1)"
    and "remove_file h s1 p f = (Inr (), s')"
    using a by (auto simp: apply_move_def Let_def split: prod.splits sum.splits)
  moreover from write_retry_ok [OF fs w assms(2)] assms(2,3) have "plain h s1 p f" by auto
  ultimately have "view s' = (view s1)(p := None)" using remove_Inr [OF fs] by blast
  then show ?thesis by simp
qed

theorem move_onto_itself_loses_file_witness:
  "(let p = lit ''r/a''; (r, d, w) = apply_move mem_host True p p (lit ''x'' @ [10]) [121] sample_world
      delta_empty in r = Inr () \<and> exact d) \<and>
   fst (snd (snd (apply_move mem_host True (lit ''r/a'') (lit ''r/a'') (lit ''x'' @ [10]) [121]
      sample_world delta_empty))) (lit ''r/a'') = None"
proof -
  let ?r = "apply_move mem_host True (lit ''r/a'') (lit ''r/a'') (lit ''x'' @ [10]) [121]
      sample_world delta_empty"
  have ok: "let p = lit ''r/a''; (r, d, w) = apply_move mem_host True p p (lit ''x'' @ [10]) [121]
      sample_world delta_empty in r = Inr () \<and> exact d"
    by code_simp
  then have "?r = (Inr (), fst (snd ?r), snd (snd ?r))"
    by (auto simp: Let_def split: prod.splits)
  moreover have "plain mem_host sample_world (lit ''r/a'') True"
    "fst sample_world (lit ''r/a'') = Some (lit ''x'' @ [10])"
    by (simp_all add: plain_def mem_host_def sample_world_def)
  ultimately show ?thesis
    using move_onto_itself_loses_file [OF mem_host_text_fs, of sample_world "lit ''r/a''" True
        "lit ''x'' @ [10]" "[121]" delta_empty] ok
    by metis
qed

end
