(* ===== verification/Stream_Text.thy ===== *)
theory Stream_Text
  imports Prelude
begin

text \<open>
  \<open>utils/stream-parser/src/stream_text.rs\<close>: the result of one pushed chunk, and the
  interface \<open>StreamTextParser\<close> as a locale. Its law is that the way a text is cut into
  chunks does not matter; what follows for whole streams is proved here once, for every
  parser that meets it.
\<close>

record 'x stream_text_chunk =
  visible_text :: rstr
  extracted :: "'x list"

definition chunk_default :: "'x stream_text_chunk" where
  "chunk_default = \<lparr>visible_text = [], extracted = []\<rparr>"

definition chunk_is_empty :: "'x stream_text_chunk \<Rightarrow> bool" where
  "chunk_is_empty c \<longleftrightarrow> visible_text c = [] \<and> extracted c = []"

text \<open>\<open>out.visible_text.push_str(...)\<close> and \<open>out.extracted.extend(...)\<close>.\<close>

definition chunk_append ::
    "'x stream_text_chunk \<Rightarrow> 'x stream_text_chunk \<Rightarrow> 'x stream_text_chunk" where
  "chunk_append a b =
     \<lparr>visible_text = visible_text a @ visible_text b, extracted = extracted a @ extracted b\<rparr>"

lemma chunk_append_simps [simp]:
  "visible_text (chunk_append a b) = visible_text a @ visible_text b"
  "extracted (chunk_append a b) = extracted a @ extracted b"
  "chunk_append chunk_default b = b" "chunk_append a chunk_default = a"
  "chunk_append (chunk_append a b) c = chunk_append a (chunk_append b c)"
  "visible_text chunk_default = []" "extracted chunk_default = []"
  by (simp_all add: chunk_append_def chunk_default_def)

text \<open>Pushing the chunks of a stream one by one, and then finishing.\<close>

fun push_all ::
    "('p \<Rightarrow> rstr \<Rightarrow> 'x stream_text_chunk \<times> 'p) \<Rightarrow> 'p \<Rightarrow> rstr list \<Rightarrow> 'x stream_text_chunk \<times> 'p" where
  "push_all push p [] = (chunk_default, p)"
| "push_all push p (c # cs) =
     (let (o1, p1) = push p c; (o2, p2) = push_all push p1 cs in (chunk_append o1 o2, p2))"

definition collect_stream ::
    "('p \<Rightarrow> rstr \<Rightarrow> 'x stream_text_chunk \<times> 'p) \<Rightarrow> ('p \<Rightarrow> 'x stream_text_chunk \<times> 'p) \<Rightarrow> 'p \<Rightarrow>
       rstr list \<Rightarrow> 'x stream_text_chunk" where
  "collect_stream push finish p cs =
     (let (o1, p1) = push_all push p cs in chunk_append o1 (fst (finish p1)))"

text \<open>
  \<open>meaning\<close> reads a list of payloads up to the merging of neighbours that a parser may do
  within one call; \<open>ok\<close> is the invariant of the parser between calls.
\<close>

locale stream_text_parser =
  fixes push :: "'p \<Rightarrow> rstr \<Rightarrow> 'x stream_text_chunk \<times> 'p"
    and finish :: "'p \<Rightarrow> 'x stream_text_chunk \<times> 'p"
    and ok :: "'p \<Rightarrow> bool"
    and meaning :: "'x list \<Rightarrow> 'y list"
  assumes push_ok: "ok p \<Longrightarrow> push p s = (c, q) \<Longrightarrow> ok q"
    and push_Nil: "ok p \<Longrightarrow> push p [] = (chunk_default, p)"
    and push_append: "ok p \<Longrightarrow> push p a = (c, q) \<Longrightarrow> push q b = (d, r) \<Longrightarrow>
        \<exists>e. push p (a @ b) = (e, r) \<and> visible_text e = visible_text c @ visible_text d \<and>
            meaning (extracted e) = meaning (extracted c) @ meaning (extracted d)"
    and meaning_append: "meaning (xs @ ys) = meaning xs @ meaning ys"
begin

lemma meaning_Nil: "meaning [] = []"
  using meaning_append [of "[]" "[]"] by simp

lemma push_all_concat:
  "ok p \<Longrightarrow> push_all push p cs = (c, q) \<Longrightarrow>
     \<exists>e. push p (concat cs) = (e, q) \<and> visible_text e = visible_text c \<and>
         meaning (extracted e) = meaning (extracted c)"
proof (induction cs arbitrary: p c)
  case Nil
  then show ?case by (auto simp: push_Nil)
next
  case (Cons x xs)
  obtain o1 p1 where 1: "push p x = (o1, p1)" by fastforce
  obtain o2 where 2: "push_all push p1 xs = (o2, q)" and c: "c = chunk_append o1 o2"
    using Cons.prems(2) 1 by (auto simp: Let_def split: prod.splits)
  from Cons.IH [OF push_ok [OF Cons.prems(1) 1] 2] obtain e where e: "push p1 (concat xs) = (e, q)"
    "visible_text e = visible_text o2" "meaning (extracted e) = meaning (extracted o2)" by blast
  from push_append [OF Cons.prems(1) 1 e(1)] e(2,3) show ?case by (auto simp: c meaning_append)
qed

lemma collect_chunking:
  assumes "ok p"
  shows "visible_text (collect_stream push finish p cs) =
       visible_text (collect_stream push finish p [concat cs]) \<and>
     meaning (extracted (collect_stream push finish p cs)) =
       meaning (extracted (collect_stream push finish p [concat cs]))"
proof -
  obtain c q where c: "push_all push p cs = (c, q)" by fastforce
  from push_all_concat [OF assms c] obtain e where "push p (concat cs) = (e, q)"
    "visible_text e = visible_text c" "meaning (extracted e) = meaning (extracted c)" by blast
  with c show ?thesis by (simp add: collect_stream_def Let_def meaning_append)
qed

end

end
