(* ===== verification/Inline_Hidden_Tag.thy ===== *)
theory Inline_Hidden_Tag
  imports Stream_Text
begin

text \<open>
  \<open>utils/stream-parser/src/inline_hidden_tag.rs\<close> and \<open>citation.rs\<close>: tags hidden from a
  stream, and the citation parser built on them.

  Positions and lengths are counted in characters where the code counts bytes; the
  needles are found at character boundaries in both. The loop of \<open>push_str\<close> is a partial
  function whose \<open>None\<close> is not returning: with an empty delimiter, which \<open>new\<close> refuses, it
  would not. That it returns for the delimiters \<open>new\<close> accepts is proved.
\<close>

section \<open>Model\<close>

record 't extracted_inline_tag =
  et_tag :: 't
  et_content :: rstr

record 't inline_tag_spec =
  spec_tag :: 't
  spec_open :: rstr
  spec_close :: rstr

record 't active_tag =
  at_tag :: 't
  at_close :: rstr
  at_content :: rstr

record 't inline_hidden_tag_parser =
  ih_specs :: "'t inline_tag_spec list"
  ih_pending :: rstr
  ih_active :: "'t active_tag option"

text \<open>\<open>new\<close>: a failed assertion is \<open>None\<close>.\<close>

definition inline_new :: "'t inline_tag_spec list \<Rightarrow> 't inline_hidden_tag_parser option" where
  "inline_new specs =
     (if specs = [] \<or> list_ex (\<lambda>s. spec_open s = [] \<or> spec_close s = []) specs then None
      else Some \<lparr>ih_specs = specs, ih_pending = [], ih_active = None\<rparr>)"

text \<open>The earliest position, then the longest delimiter, then the first specification.\<close>

definition open_better :: "nat \<times> nat \<times> nat \<Rightarrow> nat \<times> nat \<times> nat \<Rightarrow> bool" where
  "open_better a b \<longleftrightarrow>
     (case (a, b) of ((pa, la, ia), (pb, lb, ib)) \<Rightarrow>
        pa < pb \<or> pa = pb \<and> (lb < la \<or> la = lb \<and> ia < ib))"

fun min_open :: "(nat \<times> nat \<times> nat) list \<Rightarrow> (nat \<times> nat \<times> nat) option" where
  "min_open [] = None"
| "min_open (c # cs) = Some (foldl (\<lambda>best x. if open_better x best then x else best) c cs)"

definition find_next_open :: "'t inline_tag_spec list \<Rightarrow> rstr \<Rightarrow> (nat \<times> nat) option" where
  "find_next_open specs pending =
     map_option (\<lambda>(pos, len, idx). (pos, idx))
       (min_open (List.map_filter
          (\<lambda>(idx, spec). map_option (\<lambda>pos. (pos, len_utf8 (spec_open spec), idx))
             (find_sub (spec_open spec) pending))
          (enumerate 0 specs)))"

text \<open>\<open>for k in (1..=max).rev()\<close>.\<close>

definition longest_suffix_prefix_len :: "rstr \<Rightarrow> rstr \<Rightarrow> nat" where
  "longest_suffix_prefix_len s needle =
     (let m = min (length s) (length needle - 1) in
      case List.find (\<lambda>k. ends_with s (take k needle)) (rev [1 ..< Suc m]) of
        Some k \<Rightarrow> k
      | None \<Rightarrow> 0)"

definition max_open_prefix_suffix_len :: "'t inline_tag_spec list \<Rightarrow> rstr \<Rightarrow> nat" where
  "max_open_prefix_suffix_len specs pending =
     foldr max (map (\<lambda>s. longest_suffix_prefix_len pending (spec_open s)) specs) 0"

type_synonym 't inline_out = "'t extracted_inline_tag stream_text_chunk"

definition push_visible :: "rstr \<Rightarrow> 't inline_out \<Rightarrow> 't inline_out" where
  "push_visible t out = out\<lparr>visible_text := visible_text out @ t\<rparr>"

definition push_extracted :: "'t \<Rightarrow> rstr \<Rightarrow> 't inline_out \<Rightarrow> 't inline_out" where
  "push_extracted tag content out =
     out\<lparr>extracted := extracted out @ [\<lparr>et_tag = tag, et_content = content\<rparr>]\<rparr>"

partial_function (option) inline_loop ::
    "'t inline_tag_spec list \<Rightarrow> rstr \<Rightarrow> 't active_tag option \<Rightarrow> 't inline_out \<Rightarrow>
       (rstr \<times> 't active_tag option \<times> 't inline_out) option" where
  "inline_loop specs pending active out =
     (case active of
        Some act \<Rightarrow>
          (case find_sub (at_close act) pending of
             Some close_idx \<Rightarrow>
               inline_loop specs (drop (close_idx + length (at_close act)) pending) None
                 (push_extracted (at_tag act) (at_content act @ take close_idx pending) out)
           | None \<Rightarrow>
               let keep = longest_suffix_prefix_len pending (at_close act);
                   tak = length pending - keep in
               Some (drop tak pending,
                     Some (act\<lparr>at_content := at_content act @ take tak pending\<rparr>), out))
      | None \<Rightarrow>
          (case find_next_open specs pending of
             Some (open_idx, spec_idx) \<Rightarrow>
               let spec = specs ! spec_idx in
               inline_loop specs (drop (open_idx + length (spec_open spec)) pending)
                 (Some \<lparr>at_tag = spec_tag spec, at_close = spec_close spec, at_content = []\<rparr>)
                 (push_visible (take open_idx pending) out)
           | None \<Rightarrow>
               let tak = length pending - max_open_prefix_suffix_len specs pending in
               Some (drop tak pending, None, push_visible (take tak pending) out)))"

definition inline_push_str ::
    "'t inline_hidden_tag_parser \<Rightarrow> rstr \<Rightarrow> ('t inline_out \<times> 't inline_hidden_tag_parser) option" where
  "inline_push_str p chunk =
     map_option (\<lambda>(pending, active, out). (out, p\<lparr>ih_pending := pending, ih_active := active\<rparr>))
       (inline_loop (ih_specs p) (ih_pending p @ chunk) (ih_active p) chunk_default)"

definition inline_finish ::
    "'t inline_hidden_tag_parser \<Rightarrow> 't inline_out \<times> 't inline_hidden_tag_parser" where
  "inline_finish p =
     (case ih_active p of
        Some act \<Rightarrow>
          (push_extracted (at_tag act) (at_content act @ ih_pending p) chunk_default,
           p\<lparr>ih_pending := [], ih_active := None\<rparr>)
      | None \<Rightarrow> (push_visible (ih_pending p) chunk_default, p\<lparr>ih_pending := []\<rparr>))"

section \<open>Citations\<close>

datatype CitationTag = Citation

definition CITATION_OPEN :: rstr where
  "CITATION_OPEN = lit ''<oai-mem-citation>''"

definition CITATION_CLOSE :: rstr where
  "CITATION_CLOSE = lit ''</oai-mem-citation>''"

type_synonym citation_parser = "CitationTag inline_hidden_tag_parser"

definition citation_specs :: "CitationTag inline_tag_spec list" where
  "citation_specs =
     [\<lparr>spec_tag = Citation, spec_open = CITATION_OPEN, spec_close = CITATION_CLOSE\<rparr>]"

definition citation_new :: "citation_parser option" where
  "citation_new = inline_new citation_specs"

definition citation_chunk :: "CitationTag inline_out \<Rightarrow> rstr stream_text_chunk" where
  "citation_chunk c = \<lparr>visible_text = visible_text c, extracted = map et_content (extracted c)\<rparr>"

definition citation_push_str ::
    "citation_parser \<Rightarrow> rstr \<Rightarrow> (rstr stream_text_chunk \<times> citation_parser) option" where
  "citation_push_str p chunk = map_option (map_prod citation_chunk id) (inline_push_str p chunk)"

definition citation_finish :: "citation_parser \<Rightarrow> rstr stream_text_chunk \<times> citation_parser" where
  "citation_finish p = map_prod citation_chunk id (inline_finish p)"

definition strip_citations :: "rstr \<Rightarrow> (rstr \<times> rstr list) option" where
  "strip_citations t =
     (case citation_new of
        None \<Rightarrow> None
      | Some p \<Rightarrow>
          (case citation_push_str p t of
             None \<Rightarrow> None
           | Some (out, p1) \<Rightarrow>
               let tail = fst (citation_finish p1) in
               Some (visible_text out @ visible_text tail, extracted out @ extracted tail)))"

section \<open>Searching for one delimiter\<close>

text \<open>
  What the loop does with a needle: find it, or keep the longest end of the text that may
  still become it.
\<close>

datatype scan_result = Found rstr rstr | Partial rstr rstr

definition scan :: "rstr \<Rightarrow> rstr \<Rightarrow> scan_result" where
  "scan needle x =
     (case find_sub needle x of
        Some i \<Rightarrow> Found (take i x) (drop (i + length needle) x)
      | None \<Rightarrow> let n = length x - longest_suffix_prefix_len x needle in Partial (take n x) (drop n x))"

fun prepend :: "rstr \<Rightarrow> scan_result \<Rightarrow> scan_result" where
  "prepend u (Found a b) = Found (u @ a) b"
| "prepend u (Partial a b) = Partial (u @ a) b"

lemma find_rev_upt:
  "List.find P (rev [1 ..< Suc m]) = Some k \<longleftrightarrow> 1 \<le> k \<and> k \<le> m \<and> P k \<and> (\<forall>j. k < j \<and> j \<le> m \<longrightarrow> \<not> P j)"
proof (induction m)
  case (Suc m)
  then show ?case by (auto simp: le_Suc_eq)
qed auto

lemma find_rev_upt_None:
  "List.find P (rev [1 ..< Suc m]) = None \<longleftrightarrow> (\<forall>j. 1 \<le> j \<and> j \<le> m \<longrightarrow> \<not> P j)"
  by (auto simp: find_None_iff)

text \<open>The length is that of the longest suffix that is a proper prefix of the needle.\<close>

lemma lsp_spec:
  fixes s needle :: rstr
  defines "k \<equiv> longest_suffix_prefix_len s needle"
  assumes "needle \<noteq> []"
  shows "k \<le> length s \<and> k < length needle \<and> suffix (take k needle) s \<and>
    (\<forall>j. j \<le> length s \<longrightarrow> j < length needle \<longrightarrow> suffix (take j needle) s \<longrightarrow> j \<le> k)"
proof -
  let ?m = "min (length s) (length needle - 1)"
  have m: "j \<le> ?m \<longleftrightarrow> j \<le> length s \<and> j < length needle" for j
    using assms(2) by (cases needle) auto
  show ?thesis
  proof (cases "List.find (\<lambda>k. ends_with s (take k needle)) (rev [1 ..< Suc ?m])")
    case None
    then have "k = 0" by (simp add: k_def longest_suffix_prefix_len_def)
    moreover have "\<not> suffix (take j needle) s" if "1 \<le> j" "j \<le> length s" "j < length needle" for j
      using None that m [of j] unfolding find_rev_upt_None ends_with_suffix by blast
    ultimately show ?thesis using assms(2) by (auto simp: not_less_eq_eq [symmetric] intro: Suc_leI)
  next
    case (Some i)
    then have "k = i" by (simp add: k_def longest_suffix_prefix_len_def)
    with Some m show ?thesis
      unfolding find_rev_upt ends_with_suffix by (metis linorder_le_less_linear)
  qed
qed

lemma find_sub_append: "find_sub T x = Some i \<Longrightarrow> find_sub T (x @ b) = Some i"
proof -
  assume "find_sub T x = Some i"
  from find_sub_SomeD [OF this] have i: "i + length T \<le> length x" "prefix T (drop i x)"
    and no: "\<forall>j < i. \<not> prefix T (drop j x)" by blast+
  show ?thesis
  proof (rule find_sub_SomeI)
    show "prefix T (drop i (x @ b))" using i by simp
    show "\<forall>j < i. \<not> prefix T (drop j (x @ b))"
    proof (intro allI impI notI)
      fix j assume "j < i" and p: "prefix T (drop j (x @ b))"
      with i(1) have "prefix T (drop j x @ b)" "length T \<le> length (drop j x)" by auto
      then have "prefix T (drop j x)"
        using append_prefixD prefix_length_prefix [of T "drop j x @ b" "drop j x"] by auto
      with no \<open>j < i\<close> show False by blast
    qed
    show "i \<le> length (x @ b)" using i by simp
  qed
qed

text \<open>An occurrence that a longer text adds begins in the kept end.\<close>

lemma occurrence_in_kept:
  assumes "T \<noteq> []" and "find_sub T x = None" and "prefix T (drop j (x @ b))"
  shows "length x - longest_suffix_prefix_len x T \<le> j"
proof (cases "j \<le> length x")
  case True
  with assms(3) have p: "prefix T (drop j x @ b)" by simp
  have "\<not> length T \<le> length (drop j x)"
  proof
    assume "length T \<le> length (drop j x)"
    with p have "prefix T (drop j x)" using prefix_length_prefix [of T "drop j x @ b" "drop j x"] by auto
    with assms(2) True show False by (simp add: find_sub_None)
  qed
  with p have "prefix (drop j x) T" using prefix_length_prefix [of "drop j x" "drop j x @ b" T] by auto
  then have "drop j x = take (length x - j) T" by (auto simp: prefix_def)
  then have "suffix (take (length x - j) T) x" by (metis suffix_drop)
  with \<open>\<not> length T \<le> length (drop j x)\<close> lsp_spec [OF assms(1), of x]
  have "length x - j \<le> longest_suffix_prefix_len x T" by simp
  then show ?thesis by linarith
qed simp

lemma find_sub_shift:
  assumes "T \<noteq> []" and "find_sub T x = None" and n: "n = length x - longest_suffix_prefix_len x T"
  shows "find_sub T (x @ b) = map_option ((+) n) (find_sub T (drop n x @ b))"
proof -
  have d: "drop (n + j) (x @ b) = drop j (drop n x @ b)" for j
    using n by (simp add: add.commute)
  show ?thesis
  proof (cases "find_sub T (drop n x @ b)")
    case None
    have "\<not> prefix T (drop j (x @ b))" if "j \<le> length (x @ b)" for j
    proof
      assume p: "prefix T (drop j (x @ b))"
      from occurrence_in_kept [OF assms(1,2) p] n have "j = n + (j - n)" by simp
      with p d [of "j - n"] have "prefix T (drop (j - n) (drop n x @ b))" by simp
      moreover from that have "j - n \<le> length (drop n x @ b)" using n by simp
      ultimately show False using None unfolding find_sub_None by blast
    qed
    then have "find_sub T (x @ b) = None" unfolding find_sub_None by blast
    with None show ?thesis by simp
  next
    case (Some i)
    from find_sub_SomeD [OF this] have i: "i + length T \<le> length (drop n x @ b)"
      "prefix T (drop i (drop n x @ b))" "\<forall>j < i. \<not> prefix T (drop j (drop n x @ b))" by blast+
    have "find_sub T (x @ b) = Some (n + i)"
    proof (rule find_sub_SomeI)
      show "prefix T (drop (n + i) (x @ b))" using i(2) unfolding d .
      show "\<forall>j < n + i. \<not> prefix T (drop j (x @ b))"
      proof (intro allI impI notI)
        fix j assume "j < n + i" and p: "prefix T (drop j (x @ b))"
        from occurrence_in_kept [OF assms(1,2) p] n have "j = n + (j - n)" by simp
        with p d [of "j - n"] have "prefix T (drop (j - n) (drop n x @ b))" by simp
        with i(3) \<open>j < n + i\<close> \<open>j = n + (j - n)\<close> show False by (metis add_less_cancel_left)
      qed
      show "n + i \<le> length (x @ b)" using i(1) n by simp
    qed
    with Some show ?thesis by simp
  qed
qed

lemma suffix_of_tail:
  assumes "suffix u (x @ b)" and "length u \<le> length (drop n x @ b)" and "n \<le> length x"
  shows "suffix u (drop n x @ b)"
proof -
  have "x @ b = take n x @ (drop n x @ b)" by simp
  with assms(1) have "suffix u (take n x @ (drop n x @ b))" by simp
  moreover have "suffix (drop n x @ b) (take n x @ (drop n x @ b))" by (simp add: suffix_def)
  ultimately show ?thesis using assms(2) suffix_length_suffix by blast
qed

lemma lsp_shift:
  assumes "T \<noteq> []" and n: "n = length x - longest_suffix_prefix_len x T"
  shows "longest_suffix_prefix_len (x @ b) T = longest_suffix_prefix_len (drop n x @ b) T"
    (is "?k1 = ?k2")
proof (rule antisym)
  let ?k = "longest_suffix_prefix_len x T"
  note k = lsp_spec [OF assms(1), of x] and k1 = lsp_spec [OF assms(1), of "x @ b"]
    and k2 = lsp_spec [OF assms(1), of "drop n x @ b"]
  have len: "length (drop n x) = ?k" using k n by simp
  have "?k1 \<le> length (drop n x @ b)"
  proof (rule ccontr)
    assume "\<not> ?k1 \<le> length (drop n x @ b)"
    then have big: "?k + length b < ?k1" using len by simp
    have s: "suffix (take ?k1 T) (x @ b)" and l: "?k1 < length T" using k1 by auto
    from s have "(\<exists>u. take ?k1 T = u @ b \<and> suffix u x) \<or> suffix (take ?k1 T) b"
      unfolding suffix_append by blast
    then obtain u where u: "take ?k1 T = u @ b" "suffix u x"
      using big l suffix_length_le [of "take ?k1 T" b] by auto
    then have "u = take (length u) T" "length u = ?k1 - length b"
      using l by (metis append_eq_conv_conj take_take min.absorb1 le_add1 length_append length_take min_def)
        (metis add_diff_cancel_right' length_append length_take min.absorb4 l u(1))
    with k u(2) l have "length u \<le> ?k"
      by (metis suffix_length_le le_less_trans diff_le_self)
    with \<open>length u = ?k1 - length b\<close> big show False by linarith
  qed
  with k1 n have "suffix (take ?k1 T) (drop n x @ b)" by (intro suffix_of_tail) auto
  with k1 k2 \<open>?k1 \<le> length (drop n x @ b)\<close> show "?k1 \<le> ?k2" by blast
  have "suffix (drop n x @ b) (x @ b)" by (metis append_assoc append_take_drop_id suffixI)
  with k2 have "suffix (take ?k2 T) (x @ b)" by (meson suffix_order.trans)
  moreover have "?k2 \<le> length (x @ b)"
    by (rule order.trans [OF conjunct1 [OF k2]]) simp
  ultimately show "?k2 \<le> ?k1" using k1 k2 by blast
qed

lemma scan_append_Found:
  assumes "scan T x = Found u v"
  shows "scan T (x @ b) = Found u (v @ b)"
proof -
  from assms obtain i where i: "find_sub T x = Some i" "u = take i x" "v = drop (i + length T) x"
    by (auto simp: scan_def Let_def split: option.splits)
  from find_sub_SomeD [OF i(1)] have "i + length T \<le> length x" by blast
  with i find_sub_append [OF i(1), of b] show ?thesis by (simp add: scan_def)
qed

lemma scan_append_Partial:
  assumes "T \<noteq> []" and "scan T x = Partial u v"
  shows "scan T (x @ b) = prepend u (scan T (v @ b))"
proof -
  let ?n = "length x - longest_suffix_prefix_len x T"
  from assms(2) have f: "find_sub T x = None" and u: "u = take ?n x" and v: "v = drop ?n x"
    by (auto simp: scan_def Let_def split: option.splits)
  note sh = find_sub_shift [OF assms(1) f refl, of b] and l = lsp_shift [OF assms(1) refl, of x b]
  have x: "x @ b = u @ (v @ b)" and lu: "length u = ?n" by (simp_all add: u v)
  show ?thesis
  proof (cases "find_sub T (v @ b)")
    case (Some i)
    with sh lu have "find_sub T (x @ b) = Some (length u + i)" by (simp add: v)
    moreover have "take (length u + i) (x @ b) = u @ take i (v @ b)"
      "drop (length u + i + length T) (x @ b) = drop (i + length T) (v @ b)"
      unfolding x by (simp_all add: add.assoc)
    ultimately show ?thesis using Some by (simp add: scan_def)
  next
    case None
    with sh have "find_sub T (x @ b) = None" by (simp add: v)
    have "longest_suffix_prefix_len (v @ b) T \<le> length (v @ b)"
      using lsp_spec [OF assms(1), of "v @ b"] by blast
    moreover have "longest_suffix_prefix_len (x @ b) T = longest_suffix_prefix_len (v @ b) T"
      using l by (simp add: v)
    ultimately have "length (x @ b) - longest_suffix_prefix_len (x @ b) T =
        length u + (length (v @ b) - longest_suffix_prefix_len (v @ b) T)"
      unfolding x by simp
    then show ?thesis using None \<open>find_sub T (x @ b) = None\<close> unfolding x
      by (simp add: scan_def Let_def)
  qed
qed

section \<open>The loop with one specification\<close>

definition good_spec :: "'t inline_tag_spec \<Rightarrow> bool" where
  "good_spec sp \<longleftrightarrow> spec_open sp \<noteq> [] \<and> spec_close sp \<noteq> []"

definition active_ok :: "'t inline_tag_spec \<Rightarrow> 't active_tag option \<Rightarrow> bool" where
  "active_ok sp a \<longleftrightarrow> (case a of None \<Rightarrow> True | Some act \<Rightarrow> at_close act = spec_close sp)"

definition opened :: "'t inline_tag_spec \<Rightarrow> 't active_tag" where
  "opened sp = \<lparr>at_tag = spec_tag sp, at_close = spec_close sp, at_content = []\<rparr>"

lemma active_ok_simps [simp]:
  "active_ok sp None" "at_close (opened sp) = spec_close sp"
  "active_ok sp (Some act) \<longleftrightarrow> at_close act = spec_close sp"
  by (simp_all add: active_ok_def opened_def)

lemma loop_active:
  "inline_loop [sp] x (Some act) out =
     (case scan (at_close act) x of
        Found u v \<Rightarrow> inline_loop [sp] v None (push_extracted (at_tag act) (at_content act @ u) out)
      | Partial u v \<Rightarrow> Some (v, Some (act\<lparr>at_content := at_content act @ u\<rparr>), out))"
  by (subst inline_loop.simps) (auto simp: scan_def Let_def split: option.splits)

lemma loop_inactive:
  "inline_loop [sp] x None out =
     (case scan (spec_open sp) x of
        Found u v \<Rightarrow> inline_loop [sp] v (Some (opened sp)) (push_visible u out)
      | Partial u v \<Rightarrow> Some (v, None, push_visible u out))"
  by (subst inline_loop.simps)
    (auto simp: scan_def Let_def find_next_open_def List.map_filter_simps opened_def
      max_open_prefix_suffix_len_def split: option.splits)

lemma scan_Found_length:
  assumes "scan T x = Found u v" and "T \<noteq> []"
  shows "length v < length x"
proof -
  from assms(1) obtain i where "find_sub T x = Some i" and v: "v = drop (i + length T) x"
    by (auto simp: scan_def Let_def split: option.splits)
  from find_sub_SomeD [OF this(1)] have "i + length T \<le> length x" by blast
  moreover have "0 < length T" using assms(2) by simp
  ultimately show ?thesis unfolding v length_drop by linarith
qed

lemma scan_Partial_prefix:
  assumes "scan T x = Partial u v" and "T \<noteq> []"
  shows "x = u @ v \<and> prefix v T \<and> length v < length T"
proof -
  let ?k = "longest_suffix_prefix_len x T"
  from assms(1) have v: "u = take (length x - ?k) x" "v = drop (length x - ?k) x"
    by (auto simp: scan_def Let_def split: option.splits)
  from lsp_spec [OF assms(2), of x] have k: "?k \<le> length x" "?k < length T" "suffix (take ?k T) x"
    by blast+
  then obtain zs where "x = zs @ take ?k T" by (auto simp: suffix_def)
  moreover from this have "length x - ?k = length zs"
    using k(2) by (metis add_diff_cancel_right' length_append length_take min.absorb4)
  ultimately have "v = take ?k T" using v(2) by (metis append_eq_conv_conj)
  then have "prefix v T" by (simp add: take_is_prefix)
  with k v show ?thesis by simp
qed

text \<open>The steps of the loop, as an induction rule.\<close>

lemma loop_induct [consumes 2, case_names open_found open_partial close_found close_partial]:
  assumes good: "good_spec sp" and "active_ok sp a"
    and "\<And>x out u v. scan (spec_open sp) x = Found u v \<Longrightarrow>
        P v (Some (opened sp)) (push_visible u out) \<Longrightarrow> P x None out"
    and "\<And>x out u v. scan (spec_open sp) x = Partial u v \<Longrightarrow> P x None out"
    and "\<And>x act out u v. at_close act = spec_close sp \<Longrightarrow> scan (spec_close sp) x = Found u v \<Longrightarrow>
        P v None (push_extracted (at_tag act) (at_content act @ u) out) \<Longrightarrow> P x (Some act) out"
    and "\<And>x act out u v. at_close act = spec_close sp \<Longrightarrow> scan (spec_close sp) x = Partial u v \<Longrightarrow>
        P x (Some act) out"
  shows "P x a out"
  using assms(2)
proof (induction "length x" arbitrary: x a out rule: less_induct)
  case (less x a out)
  show ?case
  proof (cases a)
    case None
    show ?thesis
    proof (cases "scan (spec_open sp) x")
      case (Found u v)
      have "length v < length x" using scan_Found_length [OF Found] good by (simp add: good_spec_def)
      then have "P v (Some (opened sp)) (push_visible u out)" by (rule less.hyps) simp
      with assms(3) [OF Found] None show ?thesis by simp
    qed (use assms(4) None in blast)
  next
    case (Some act)
    with less.prems have c: "at_close act = spec_close sp" by simp
    show ?thesis
    proof (cases "scan (spec_close sp) x")
      case (Found u v)
      have "length v < length x" using scan_Found_length [OF Found] good by (simp add: good_spec_def)
      then have "P v None (push_extracted (at_tag act) (at_content act @ u) out)"
        by (rule less.hyps) simp
      with assms(5) [OF c Found] Some show ?thesis by simp
    qed (use assms(6) [OF c] Some in blast)
  qed
qed

lemmas loop_steps = loop_active loop_inactive

lemma loop_total:
  assumes "good_spec sp" and "active_ok sp a"
  shows "\<exists>x' a' out'. inline_loop [sp] x a out = Some (x', a', out')"
  using assms by (induction x a out rule: loop_induct) (simp_all add: loop_steps)

text \<open>Looping on a longer text is looping on the text and going on with what is kept.\<close>

lemma loop_append:
  assumes "good_spec sp" and "active_ok sp a"
  shows "inline_loop [sp] x a out = Some (x', a', out') \<Longrightarrow>
     inline_loop [sp] (x @ b) a out = inline_loop [sp] (x' @ b) a' out'"
  using assms
proof (induction x a out rule: loop_induct)
  case (open_found x out u v)
  then show ?case by (simp add: loop_inactive scan_append_Found)
next
  case (open_partial x out u v)
  with assms(1) scan_append_Partial [of "spec_open sp" x u v b] show ?case
    by (cases "scan (spec_open sp) (v @ b)")
      (auto simp: loop_inactive good_spec_def push_visible_def)
next
  case (close_found x act out u v)
  then show ?case by (simp add: loop_active scan_append_Found)
next
  case (close_partial x act out u v)
  with assms(1) scan_append_Partial [of "spec_close sp" x u v b] show ?case
    by (cases "scan (spec_close sp) (v @ b)") (auto simp: loop_active good_spec_def)
qed

lemma push_append_out [simp]:
  "push_visible t (chunk_append c d) = chunk_append c (push_visible t d)"
  "push_extracted g t (chunk_append c d) = chunk_append c (push_extracted g t d)"
  by (simp_all add: push_visible_def push_extracted_def chunk_append_def)

lemma loop_out:
  assumes "good_spec sp" and "active_ok sp a"
  shows "inline_loop [sp] x a d = Some (x', a', out') \<Longrightarrow>
     inline_loop [sp] x a (chunk_append c d) = Some (x', a', chunk_append c out')"
  using assms by (induction x a d rule: loop_induct) (auto simp: loop_steps)

text \<open>What is kept may still become the delimiter that is looked for.\<close>

definition kept_ok :: "'t inline_tag_spec \<Rightarrow> rstr \<Rightarrow> 't active_tag option \<Rightarrow> bool" where
  "kept_ok sp x a \<longleftrightarrow> active_ok sp a \<and>
     (let T = (if a = None then spec_open sp else spec_close sp) in
      prefix x T \<and> length x < length T)"

lemma loop_kept:
  assumes "good_spec sp" and "active_ok sp a"
  shows "inline_loop [sp] x a d = Some (x', a', out') \<Longrightarrow> kept_ok sp x' a'"
  using assms
proof (induction x a d rule: loop_induct)
  case (open_partial x out u v)
  with assms(1) scan_Partial_prefix [of "spec_open sp" x u v] show ?case
    by (auto simp: loop_inactive kept_ok_def good_spec_def)
next
  case (close_partial x act out u v)
  with assms(1) scan_Partial_prefix [of "spec_close sp" x u v] show ?case
    by (auto simp: loop_active kept_ok_def good_spec_def)
qed (simp_all add: loop_steps)

lemma scan_kept:
  assumes "prefix x T" and "length x < length T"
  shows "scan T x = Partial [] x"
proof -
  have T: "T \<noteq> []" using assms by auto
  have "find_sub T x = None"
  proof (rule ccontr)
    assume "find_sub T x \<noteq> None"
    then obtain i where "find_sub T x = Some i" by auto
    from find_sub_SomeD [OF this] assms(2) show False by linarith
  qed
  moreover have "longest_suffix_prefix_len x T = length x"
    using lsp_spec [OF T, of x] assms by (auto simp: prefix_def intro!: antisym)
  ultimately show ?thesis by (simp add: scan_def)
qed

section \<open>The citation parser meets the interface\<close>

definition citation_spec :: "CitationTag inline_tag_spec" where
  "citation_spec = \<lparr>spec_tag = Citation, spec_open = CITATION_OPEN, spec_close = CITATION_CLOSE\<rparr>"

definition citation_ok :: "citation_parser \<Rightarrow> bool" where
  "citation_ok p \<longleftrightarrow> ih_specs p = [citation_spec] \<and> kept_ok citation_spec (ih_pending p) (ih_active p)"

lemma citation_good: "good_spec citation_spec"
  by (simp add: good_spec_def citation_spec_def CITATION_OPEN_def CITATION_CLOSE_def lit_eval)

lemma citation_new_Some:
  "citation_new = Some \<lparr>ih_specs = [citation_spec], ih_pending = [], ih_active = None\<rparr>"
  by (simp add: citation_new_def inline_new_def citation_specs_def citation_spec_def CITATION_OPEN_def
      CITATION_CLOSE_def lit_eval)

lemma citation_ok_new: "citation_new = Some p \<Longrightarrow> citation_ok p"
  using citation_good by (auto simp: citation_new_Some citation_ok_def kept_ok_def good_spec_def)

text \<open>The result of a push that returns; that it always does is \<open>citation_push_total\<close>.\<close>

definition citation_push :: "citation_parser \<Rightarrow> rstr \<Rightarrow> rstr stream_text_chunk \<times> citation_parser" where
  "citation_push p chunk = the (citation_push_str p chunk)"

lemma citation_push_eq:
  assumes "citation_ok p"
  shows "\<exists>x a c. inline_loop [citation_spec] (ih_pending p @ s) (ih_active p) chunk_default = Some (x, a, c) \<and>
     citation_push_str p s = Some (citation_chunk c, p\<lparr>ih_pending := x, ih_active := a\<rparr>)"
  using assms loop_total [OF citation_good, of "ih_active p" "ih_pending p @ s" chunk_default]
  by (auto simp: citation_ok_def kept_ok_def citation_push_str_def inline_push_str_def)

lemma citation_push_total: "citation_ok p \<Longrightarrow> citation_push_str p s = Some (citation_push p s)"
  using citation_push_eq [of p s] by (auto simp: citation_push_def)

lemma citation_chunk_append:
  "citation_chunk (chunk_append c d) = chunk_append (citation_chunk c) (citation_chunk d)"
  by (simp add: citation_chunk_def chunk_append_def)

interpretation citation: stream_text_parser citation_push citation_finish citation_ok "\<lambda>xs. xs"
proof
  fix p s c q
  assume "citation_ok p" and "citation_push p s = (c, q)"
  with citation_push_eq [of p s] show "citation_ok q"
    by (auto simp: citation_push_def citation_ok_def kept_ok_def [of _ "ih_pending p"]
        dest!: loop_kept [OF citation_good, rotated])
next
  fix p
  assume ok: "citation_ok p"
  then have "inline_loop [citation_spec] (ih_pending p) (ih_active p) chunk_default =
      Some (ih_pending p, ih_active p, chunk_default)"
    by (cases "ih_active p")
      (auto simp: citation_ok_def kept_ok_def Let_def loop_steps scan_kept push_visible_def
        chunk_default_def)
  with ok show "citation_push p [] = (chunk_default, p)"
    by (simp add: citation_push_def citation_push_str_def inline_push_str_def citation_ok_def
        citation_chunk_def chunk_default_def)
next
  fix p a c q b d r
  assume ok: "citation_ok p" and 1: "citation_push p a = (c, q)" and 2: "citation_push q b = (d, r)"
  from citation_push_eq [OF ok, of a] 1 obtain x act k where
    l1: "inline_loop [citation_spec] (ih_pending p @ a) (ih_active p) chunk_default = Some (x, act, k)"
    and c: "c = citation_chunk k" and q: "q = p\<lparr>ih_pending := x, ih_active := act\<rparr>"
    by (auto simp: citation_push_def)
  have act: "active_ok citation_spec (ih_active p)" using ok by (simp add: citation_ok_def kept_ok_def)
  have okq: "citation_ok q" using loop_kept [OF citation_good act l1] ok q by (simp add: citation_ok_def)
  from citation_push_eq [OF okq, of b] 2 q obtain y act2 m where
    l2: "inline_loop [citation_spec] (x @ b) act chunk_default = Some (y, act2, m)"
    and d: "d = citation_chunk m" and r: "r = p\<lparr>ih_pending := y, ih_active := act2\<rparr>"
    by (auto simp: citation_push_def)
  have "inline_loop [citation_spec] (x @ b) act k = Some (y, act2, chunk_append k m)"
    using loop_out [OF citation_good _ l2, of k] okq q by (simp add: citation_ok_def kept_ok_def)
  with loop_append [OF citation_good act l1, of b]
  have "citation_push p (a @ b) = (citation_chunk (chunk_append k m), r)"
    using ok r by (simp add: citation_push_def citation_push_str_def inline_push_str_def citation_ok_def)
  then show "\<exists>e. citation_push p (a @ b) = (e, r) \<and> visible_text e = visible_text c @ visible_text d \<and>
      extracted e = extracted c @ extracted d"
    by (simp add: c d citation_chunk_append)
qed auto

section \<open>A reference for stripping\<close>

text \<open>
  The text up to an opening delimiter is visible; from there to the next closing
  delimiter, or to the end, it is a citation; and so on.
\<close>

function citation_reference :: "rstr \<Rightarrow> rstr \<times> rstr list" where
  "citation_reference t =
     (case find_sub CITATION_OPEN t of
        None \<Rightarrow> (t, [])
      | Some i \<Rightarrow>
          let rest = drop (i + length CITATION_OPEN) t in
          (case find_sub CITATION_CLOSE rest of
             None \<Rightarrow> (take i t, [rest])
           | Some j \<Rightarrow>
               let (visible, cites) = citation_reference (drop (j + length CITATION_CLOSE) rest) in
               (take i t @ visible, take j rest # cites)))"
  by pat_completeness auto
termination
proof (relation "measure length")
  fix t i rest j
  assume "find_sub CITATION_OPEN t = Some i" "rest = drop (i + length CITATION_OPEN) t"
  moreover have "0 < length CITATION_OPEN" by (simp add: CITATION_OPEN_def lit_eval)
  ultimately have "length rest < length t"
    using find_sub_SomeD [of CITATION_OPEN t i] unfolding \<open>rest = _\<close> length_drop by linarith
  then show "(drop (j + length CITATION_CLOSE) rest, t) \<in> measure length" by simp
qed simp

declare citation_reference.simps [simp del]

lemma citation_reference_scan:
  "citation_reference t =
     (case scan CITATION_OPEN t of
        Partial u v \<Rightarrow> (t, [])
      | Found u rest \<Rightarrow>
          (case scan CITATION_CLOSE rest of
             Partial a b \<Rightarrow> (u, [rest])
           | Found a b \<Rightarrow>
               let (visible, cites) = citation_reference b in (u @ visible, a # cites)))"
  by (subst citation_reference.simps) (simp add: scan_def Let_def split: option.split)

text \<open>What the loop and the final flush yield together.\<close>

definition flushed :: "rstr \<times> CitationTag active_tag option \<times> CitationTag inline_out \<Rightarrow> rstr \<times> rstr list"
where
  "flushed r = (case r of (x, a, out) \<Rightarrow>
     (case a of
        None \<Rightarrow> (visible_text out @ x, map et_content (extracted out))
      | Some act \<Rightarrow> (visible_text out, map et_content (extracted out) @ [at_content act @ x])))"

lemma citation_tags [simp]:
  "spec_open citation_spec = CITATION_OPEN" "spec_close citation_spec = CITATION_CLOSE"
  by (simp_all add: citation_spec_def)

lemma scan_Partial_concat: "scan T x = Partial u v \<Longrightarrow> u @ v = x"
  by (auto simp: scan_def Let_def split: option.splits)

lemma opened_content [simp]: "at_content (opened sp) = []"
  by (simp add: opened_def)

lemma loop_reference:
  assumes "active_ok citation_spec a"
  shows "inline_loop [citation_spec] x a out = Some r \<Longrightarrow>
     flushed r =
       (case a of
          None \<Rightarrow> (visible_text out @ fst (citation_reference x),
                   map et_content (extracted out) @ snd (citation_reference x))
        | Some act \<Rightarrow>
            (case scan CITATION_CLOSE x of
               Partial u v \<Rightarrow> (visible_text out, map et_content (extracted out) @ [at_content act @ x])
             | Found u v \<Rightarrow>
                 (visible_text out @ fst (citation_reference v),
                  map et_content (extracted out) @ (at_content act @ u) # snd (citation_reference v))))"
  using citation_good assms
proof (induction x a out rule: loop_induct)
  case (open_found x out u v)
  then show ?case
    by (auto simp: loop_inactive push_visible_def citation_reference_scan [of x] split_beta Let_def
        split: scan_result.splits)
next
  case (open_partial x out u v)
  then show ?case
    by (auto simp: loop_inactive push_visible_def citation_reference_scan [of x] flushed_def
        dest: scan_Partial_concat)
next
  case (close_found x act out u v)
  then show ?case by (auto simp: loop_active push_extracted_def)
next
  case (close_partial x act out u v)
  then show ?case by (auto simp: loop_active flushed_def dest: scan_Partial_concat)
qed

lemma strip_citations_flushed:
  assumes "inline_loop [citation_spec] t None chunk_default = Some r"
  shows "strip_citations t = Some (flushed r)"
  using assms
  by (cases r)
    (auto simp: strip_citations_def citation_new_Some citation_push_str_def inline_push_str_def
      citation_finish_def inline_finish_def flushed_def citation_chunk_def push_visible_def
      push_extracted_def chunk_default_def split: option.splits)

lemma collect_citation_flushed:
  assumes "citation_new = Some p" and "inline_loop [citation_spec] t None chunk_default = Some r"
  shows "(visible_text (collect_stream citation_push citation_finish p [t]),
     extracted (collect_stream citation_push citation_finish p [t])) = flushed r"
  using assms
  by (cases r) (auto simp: collect_stream_def citation_push_def citation_push_str_def
      inline_push_str_def citation_new_Some citation_finish_def inline_finish_def flushed_def
      citation_chunk_def push_visible_def push_extracted_def chunk_append_def chunk_default_def
      split: option.splits)

section \<open>Properties\<close>

text \<open>
  Stripping citations returns for every text, and yields what the plain reading of the
  markup says: visible text outside the tags, one citation for each opening tag up to the
  next closing tag, the last one closed by the end of the text.
\<close>

theorem strip_citations_reference: "strip_citations t = Some (citation_reference t)"
proof -
  obtain r where r: "inline_loop [citation_spec] t None chunk_default = Some r"
    using loop_total [OF citation_good, of None t chunk_default] by auto
  have "flushed r = citation_reference t"
    using loop_reference [of None, OF _ r] by simp
  with strip_citations_flushed [OF r] show ?thesis by simp
qed

text \<open>
  Citations may be split anywhere across the chunks of a stream: pushing the chunks
  one by one and finishing gives the visible text and the citations of the whole text.
\<close>

theorem citation_chunking:
  assumes "citation_new = Some p"
  shows "(let out = collect_stream citation_push citation_finish p cs in
     (visible_text out, extracted out)) = citation_reference (concat cs)"
proof -
  have ok: "citation_ok p" using assms by (rule citation_ok_new)
  obtain r where r: "inline_loop [citation_spec] (concat cs) None chunk_default = Some r"
    using loop_total [OF citation_good, of None "concat cs" chunk_default] by auto
  have "flushed r = citation_reference (concat cs)"
    using loop_reference [of None, OF _ r] by simp
  with collect_citation_flushed [OF assms r] citation.collect_chunking [OF ok, of cs]
  show ?thesis by (simp add: Let_def)
qed

theorem citation_chunking_witness:
  "\<exists>p. citation_new = Some p \<and>
     (let out = collect_stream citation_push citation_finish p
        [lit ''a<oai-mem-'', lit ''citation>b</oai-mem-citati'', lit ''on>c''] in
      (visible_text out, extracted out)) = (lit ''ac'', [lit ''b''])"
proof -
  obtain p where p: "citation_new = Some p" using citation_new_Some by blast
  have "citation_reference (concat [lit ''a<oai-mem-'', lit ''citation>b</oai-mem-citati'', lit ''on>c'']) =
      (lit ''ac'', [lit ''b''])" by code_simp
  with citation_chunking [OF p] p show ?thesis by metis
qed

end
