(* ===== verification/Utf8_Stream.thy ===== *)
theory Utf8_Stream
  imports Inline_Hidden_Tag
begin

text \<open>
  \<open>utils/stream-parser/src/utf8_stream.rs\<close>: a text parser fed with bytes, buffering a
  code point that is split across chunks. Bytes are numbers below 256; \<open>from_utf8\<close> is that
  of the standard library, with the position and length it reports for an error. The inner
  parser's \<open>push_str\<close> and \<open>finish\<close> are arguments, as the type parameter is in the code.
\<close>

section \<open>Decoding UTF-8\<close>

type_synonym byte = nat

definition is_cont :: "byte \<Rightarrow> bool" where
  "is_cont b \<longleftrightarrow> 128 \<le> b \<and> b \<le> 191"

text \<open>The length a leading byte announces and the range of the byte after it.\<close>

definition lead_byte :: "byte \<Rightarrow> (nat \<times> nat \<times> nat) option" where
  "lead_byte b =
     (if 194 \<le> b \<and> b \<le> 223 then Some (2, 128, 191)
      else if b = 224 then Some (3, 160, 191)
      else if b = 237 then Some (3, 128, 159)
      else if 225 \<le> b \<and> b \<le> 239 then Some (3, 128, 191)
      else if b = 240 then Some (4, 144, 191)
      else if 241 \<le> b \<and> b \<le> 243 then Some (4, 128, 191)
      else if b = 244 then Some (4, 128, 143)
      else None)"

datatype utf8_step_result = Utf8Char rchar nat | Utf8Invalid nat | Utf8Incomplete

definition utf8_step :: "byte list \<Rightarrow> utf8_step_result" where
  "utf8_step bs =
     (case bs of
        [] \<Rightarrow> Utf8Incomplete
      | b0 # r0 \<Rightarrow>
          if b0 < 128 then Utf8Char b0 1
          else (case lead_byte b0 of
                  None \<Rightarrow> Utf8Invalid 1
                | Some (n, lo, hi) \<Rightarrow>
                    (case r0 of
                       [] \<Rightarrow> Utf8Incomplete
                     | b1 # r1 \<Rightarrow>
                         if b1 < lo \<or> hi < b1 then Utf8Invalid 1
                         else if n = 2 then Utf8Char ((b0 - 192) * 64 + (b1 - 128)) 2
                         else (case r1 of
                                 [] \<Rightarrow> Utf8Incomplete
                               | b2 # r2 \<Rightarrow>
                                   if \<not> is_cont b2 then Utf8Invalid 2
                                   else if n = 3
                                   then Utf8Char ((b0 - 224) * 4096 + (b1 - 128) * 64 + (b2 - 128)) 3
                                   else (case r2 of
                                           [] \<Rightarrow> Utf8Incomplete
                                         | b3 # r3 \<Rightarrow>
                                             if \<not> is_cont b3 then Utf8Invalid 3
                                             else Utf8Char ((b0 - 240) * 262144 + (b1 - 128) * 4096 +
                                                    (b2 - 128) * 64 + (b3 - 128)) 4)))))"

lemma utf8_step_Char: "utf8_step bs = Utf8Char c n \<Longrightarrow> 1 \<le> n \<and> n \<le> length bs"
  by (auto simp: utf8_step_def split: list.splits option.splits if_splits)

datatype utf8_status = Done | Bad nat | Truncated

function utf8_decode :: "byte list \<Rightarrow> rstr \<times> nat \<times> utf8_status" where
  "utf8_decode bs =
     (if bs = [] then ([], 0, Done)
      else (case utf8_step bs of
              Utf8Char c n \<Rightarrow>
                (case utf8_decode (drop n bs) of (cs, m, st) \<Rightarrow> (c # cs, n + m, st))
            | Utf8Invalid k \<Rightarrow> ([], 0, Bad k)
            | Utf8Incomplete \<Rightarrow> ([], 0, Truncated)))"
  by pat_completeness auto
termination
  by (relation "measure length") (auto dest: utf8_step_Char)

declare utf8_decode.simps [simp del]

text \<open>\<open>std::str::from_utf8\<close>: the text, or \<open>valid_up_to\<close> and \<open>error_len\<close>.\<close>

definition from_utf8 :: "byte list \<Rightarrow> nat \<times> nat option + rstr" where
  "from_utf8 bs =
     (case utf8_decode bs of
        (cs, m, Done) \<Rightarrow> Inr cs
      | (cs, m, Bad k) \<Rightarrow> Inl (m, Some k)
      | (cs, m, Truncated) \<Rightarrow> Inl (m, None))"

section \<open>The parser\<close>

datatype Utf8StreamParserError = InvalidUtf8 nat nat | IncompleteUtf8AtEof

record 'p utf8_parser =
  u8_inner :: 'p
  pending_utf8 :: "byte list"

definition utf8_new :: "'p \<Rightarrow> 'p utf8_parser" where
  "utf8_new inner = \<lparr>u8_inner = inner, pending_utf8 = []\<rparr>"

type_synonym ('p, 'x) push_fn = "'p \<Rightarrow> rstr \<Rightarrow> 'x stream_text_chunk \<times> 'p"

definition push_bytes ::
    "('p, 'x) push_fn \<Rightarrow> 'p utf8_parser \<Rightarrow> byte list \<Rightarrow>
       (Utf8StreamParserError + 'x stream_text_chunk) \<times> 'p utf8_parser" where
  "push_bytes push p chunk =
     (let old_len = length (pending_utf8 p);
          p1 = p\<lparr>pending_utf8 := pending_utf8 p @ chunk\<rparr> in
      case from_utf8 (pending_utf8 p1) of
        Inr t \<Rightarrow>
          (let (out, inner) = push (u8_inner p1) t in
           (Ok out, p1\<lparr>u8_inner := inner, pending_utf8 := []\<rparr>))
      | Inl (valid_up_to, Some error_len) \<Rightarrow>
          (Err (InvalidUtf8 valid_up_to error_len),
           p1\<lparr>pending_utf8 := take old_len (pending_utf8 p1)\<rparr>)
      | Inl (valid_up_to, None) \<Rightarrow>
          if valid_up_to = 0 then (Ok chunk_default, p1)
          else (case from_utf8 (take valid_up_to (pending_utf8 p1)) of
                  Inr t \<Rightarrow>
                    (let (out, inner) = push (u8_inner p1) t in
                     (Ok out, p1\<lparr>u8_inner := inner, pending_utf8 := drop valid_up_to (pending_utf8 p1)\<rparr>))
                | Inl (prefix_valid, prefix_len) \<Rightarrow>
                    (Err (InvalidUtf8 prefix_valid (case prefix_len of Some n \<Rightarrow> n | None \<Rightarrow> 0)),
                     p1\<lparr>pending_utf8 := take old_len (pending_utf8 p1)\<rparr>)))"

definition utf8_finish ::
    "('p, 'x) push_fn \<Rightarrow> ('p \<Rightarrow> 'x stream_text_chunk \<times> 'p) \<Rightarrow> 'p utf8_parser \<Rightarrow>
       (Utf8StreamParserError + 'x stream_text_chunk) \<times> 'p utf8_parser" where
  "utf8_finish push finish p =
     (if pending_utf8 p = [] then
        (let (tail, inner) = finish (u8_inner p) in
         (Ok (chunk_append chunk_default tail), p\<lparr>u8_inner := inner\<rparr>))
      else
        (case from_utf8 (pending_utf8 p) of
           Inl (valid_up_to, Some error_len) \<Rightarrow> (Err (InvalidUtf8 valid_up_to error_len), p)
         | Inl (valid_up_to, None) \<Rightarrow> (Err IncompleteUtf8AtEof, p)
         | Inr t \<Rightarrow>
             (let (out, inner) = push (u8_inner p) t; (tail, inner2) = finish inner in
              (Ok (chunk_append out tail), p\<lparr>u8_inner := inner2, pending_utf8 := []\<rparr>))))"

definition into_inner :: "'p utf8_parser \<Rightarrow> Utf8StreamParserError + 'p" where
  "into_inner p =
     (if pending_utf8 p = [] then Ok (u8_inner p)
      else (case from_utf8 (pending_utf8 p) of
              Inr t \<Rightarrow> Ok (u8_inner p)
            | Inl (valid_up_to, Some error_len) \<Rightarrow> Err (InvalidUtf8 valid_up_to error_len)
            | Inl (valid_up_to, None) \<Rightarrow> Err IncompleteUtf8AtEof))"

fun push_all_bytes ::
    "('p, 'x) push_fn \<Rightarrow> 'p utf8_parser \<Rightarrow> byte list list \<Rightarrow>
       (Utf8StreamParserError + 'x stream_text_chunk) \<times> 'p utf8_parser" where
  "push_all_bytes push p [] = (Ok chunk_default, p)"
| "push_all_bytes push p (b # bs) =
     (case push_bytes push p b of
        (Inl e, q) \<Rightarrow> (Err e, q)
      | (Inr c, q) \<Rightarrow>
          (case push_all_bytes push q bs of
             (Inl e, r) \<Rightarrow> (Err e, r)
           | (Inr d, r) \<Rightarrow> (Ok (chunk_append c d), r)))"

definition collect_bytes ::
    "('p, 'x) push_fn \<Rightarrow> ('p \<Rightarrow> 'x stream_text_chunk \<times> 'p) \<Rightarrow> 'p \<Rightarrow> byte list list \<Rightarrow>
       Utf8StreamParserError + 'x stream_text_chunk" where
  "collect_bytes push finish p bs =
     (case push_all_bytes push (utf8_new p) bs of
        (Inl e, q) \<Rightarrow> Err e
      | (Inr c, q) \<Rightarrow>
          (case fst (utf8_finish push finish q) of
             Inl e \<Rightarrow> Err e
           | Inr d \<Rightarrow> Ok (chunk_append c d)))"

section \<open>Decoding in pieces\<close>

text \<open>The byte strings up to the length that matters, and the leading byte.\<close>

lemma step_cases:
  obtains (nil) "bs = []"
    | (ascii) b0 r where "bs = b0 # r" "b0 < 128"
    | (bad) b0 r where "bs = b0 # r" "\<not> b0 < 128" "lead_byte b0 = None"
    | (one) b0 n lo hi where "bs = [b0]" "\<not> b0 < 128" "lead_byte b0 = Some (n, lo, hi)"
    | (two) b0 b1 n lo hi where "bs = [b0, b1]" "\<not> b0 < 128" "lead_byte b0 = Some (n, lo, hi)"
    | (three) b0 b1 b2 n lo hi where "bs = [b0, b1, b2]" "\<not> b0 < 128" "lead_byte b0 = Some (n, lo, hi)"
    | (four) b0 b1 b2 b3 r n lo hi where "bs = b0 # b1 # b2 # b3 # r" "\<not> b0 < 128"
        "lead_byte b0 = Some (n, lo, hi)"
proof (cases bs)
  case (Cons b0 r0)
  show ?thesis
  proof (cases "b0 < 128 \<or> lead_byte b0 = None")
    case False
    then obtain n lo hi where l: "\<not> b0 < 128" "lead_byte b0 = Some (n, lo, hi)" by auto
    consider "r0 = []" | b1 where "r0 = [b1]" | b1 b2 where "r0 = [b1, b2]"
      | b1 b2 b3 r where "r0 = b1 # b2 # b3 # r"
      by (metis list.exhaust)
    then show ?thesis using that l Cons by cases auto
  qed (use that Cons in auto)
qed (use that in auto)

lemma utf8_step_append:
  "utf8_step a \<noteq> Utf8Incomplete \<Longrightarrow> utf8_step (a @ b) = utf8_step a"
  by (cases a rule: step_cases) (auto simp: utf8_step_def split: if_splits)

lemma utf8_step_take: "utf8_step a = Utf8Char c n \<Longrightarrow> utf8_step (take n a) = Utf8Char c n"
  by (cases a rule: step_cases) (auto simp: utf8_step_def split: if_splits)

lemma utf8_decode_length: "utf8_decode a = (cs, m, st) \<Longrightarrow> m \<le> length a"
proof (induction a arbitrary: cs m st rule: utf8_decode.induct)
  case (1 bs)
  then show ?case
    by (subst (asm) (2) utf8_decode.simps)
      (fastforce split: if_splits utf8_step_result.splits prod.splits dest: utf8_step_Char)
qed

lemma utf8_decode_append:
  "utf8_decode a = (cs, m, st) \<Longrightarrow>
     utf8_decode (a @ b) =
       (case st of
          Bad k \<Rightarrow> (cs, m, Bad k)
        | _ \<Rightarrow> (case utf8_decode (drop m a @ b) of (ds, n, st') \<Rightarrow> (cs @ ds, m + n, st')))"
proof (induction a arbitrary: cs m st rule: utf8_decode.induct)
  case (1 bs)
  show ?case
  proof (cases "bs = []")
    case True
    with 1(2) show ?thesis by (auto simp: utf8_decode.simps [of "[]"] split: prod.splits)
  next
    case False
    show ?thesis
    proof (cases "utf8_step bs")
      case (Utf8Char c n)
      obtain ds k st' where d: "utf8_decode (drop n bs) = (ds, k, st')" by (metis prod_cases3)
      with 1(2) False Utf8Char have r: "cs = c # ds" "m = n + k" "st = st'"
        by (auto simp: utf8_decode.simps [of bs])
      have "utf8_step (bs @ b) = Utf8Char c n" using utf8_step_append [of bs b] Utf8Char by simp
      with False utf8_step_Char [OF Utf8Char] have
        "utf8_decode (bs @ b) = (case utf8_decode (drop n bs @ b) of (es, j, s) \<Rightarrow> (c # es, n + j, s))"
        by (simp add: utf8_decode.simps [of "bs @ b"])
      with 1(1) [OF False Utf8Char d] r show ?thesis
        by (auto simp: add.commute split: utf8_status.splits prod.splits)
    next
      case (Utf8Invalid k)
      with 1(2) False utf8_step_append [of bs b] show ?thesis
        by (auto simp: utf8_decode.simps [of bs] utf8_decode.simps [of "bs @ b"])
    next
      case Utf8Incomplete
      with 1(2) False show ?thesis
        by (auto simp: utf8_decode.simps [of bs] split: prod.splits)
    qed
  qed
qed

lemma utf8_decode_Done:
  "utf8_decode a = (cs, m, Done) \<Longrightarrow> m = length a"
proof (induction a arbitrary: cs m rule: utf8_decode.induct)
  case (1 bs)
  then show ?case
    by (subst (asm) (2) utf8_decode.simps)
      (fastforce split: if_splits utf8_step_result.splits prod.splits dest: utf8_step_Char)
qed

text \<open>The valid part alone decodes to the same characters.\<close>

lemma utf8_decode_valid:
  "utf8_decode a = (cs, m, st) \<Longrightarrow> utf8_decode (take m a) = (cs, m, Done)"
proof (induction a arbitrary: cs m st rule: utf8_decode.induct)
  case (1 bs)
  show ?case
  proof (cases "bs = [] \<or> (\<forall>c n. utf8_step bs \<noteq> Utf8Char c n)")
    case True
    with 1(2) show ?thesis
      by (cases "utf8_step bs")
        (auto simp: utf8_decode.simps [of bs] utf8_decode.simps [of "[]"] split: if_splits)
  next
    case False
    then obtain c n where s: "utf8_step bs = Utf8Char c n" and ne: "bs \<noteq> []" by auto
    obtain ds k st' where d: "utf8_decode (drop n bs) = (ds, k, st')" by (metis prod_cases3)
    with 1(2) ne s have r: "cs = c # ds" "m = n + k" by (auto simp: utf8_decode.simps [of bs])
    have n: "1 \<le> n" "n \<le> length bs" using utf8_step_Char [OF s] by auto
    have "utf8_step (take n bs @ take k (drop n bs)) = Utf8Char c n"
      using utf8_step_append [of "take n bs"] utf8_step_take [OF s] by simp
    moreover have "take m bs = take n bs @ take k (drop n bs)" by (simp add: r take_add)
    ultimately show ?thesis
      using 1(1) [OF ne s d] n r
      by (subst utf8_decode.simps) auto
  qed
qed

lemma utf8_decode_rest:
  assumes "utf8_decode a = (cs, m, st)"
  shows "utf8_decode (drop m a) = ([], 0, st)"
proof -
  have "m \<le> length a" using utf8_decode_length [OF assms] .
  with utf8_decode_append [OF utf8_decode_valid [OF assms], of "drop m a"] assms show ?thesis
    by (auto split: prod.splits)
qed

lemma utf8_decode_zero: "utf8_decode a = (cs, 0, st) \<Longrightarrow> cs = []"
  using utf8_decode_valid [of a cs 0 st] by (simp add: utf8_decode.simps)

lemma drop_tail: "m \<le> length a \<Longrightarrow> drop n (drop m a @ b) = drop (m + n) (a @ b)"
  by (simp add: add.commute)

section \<open>Pushing bytes is pushing the decoded text\<close>

text \<open>
  The one case of \<open>push_bytes\<close> that can fail is an invalid sequence; otherwise the decoded
  characters are pushed and the rest is kept. Pushing nothing does nothing, so the early
  return is the same.
\<close>

context stream_text_parser
begin

lemma push_bytes_ok:
  assumes "ok (u8_inner p)" and "utf8_decode (pending_utf8 p @ b) = (cs, m, st)" and "\<forall>k. st \<noteq> Bad k"
  shows "push_bytes push p b =
     (let (out, inner) = push (u8_inner p) cs in
      (Ok out, p\<lparr>u8_inner := inner, pending_utf8 := drop m (pending_utf8 p @ b)\<rparr>))"
proof (cases st)
  case Done
  with assms(2) utf8_decode_Done [of "pending_utf8 p @ b" cs m]
  have "m = length (pending_utf8 p @ b)" by simp
  with Done assms(2) show ?thesis by (simp add: push_bytes_def from_utf8_def Let_def)
next
  case Truncated
  show ?thesis
  proof (cases "m = 0")
    case True
    with utf8_decode_zero assms(2) have "cs = []" by blast
    with True Truncated assms(1,2) show ?thesis
      by (simp add: push_bytes_def from_utf8_def Let_def push_Nil)
  next
    case False
    have "from_utf8 (take m (pending_utf8 p @ b)) = Inr cs"
      using utf8_decode_valid [OF assms(2)] by (simp add: from_utf8_def)
    with False Truncated assms(2) show ?thesis
      by (simp add: push_bytes_def from_utf8_def [of "pending_utf8 p @ b"] Let_def)
  qed
qed (use assms(3) in simp)

text \<open>A chunk that is not rejected can be split; the kept bytes decode to nothing yet.\<close>

lemma push_all_bytes_ok:
  assumes "ok (u8_inner p)" and "utf8_decode (pending_utf8 p) = ([], 0, st0)" and "\<forall>k. st0 \<noteq> Bad k"
    and "utf8_decode (pending_utf8 p @ concat bs) = (cs, m, st)" and "\<forall>k. st \<noteq> Bad k"
  shows "\<exists>out q. push_all_bytes push p bs = (Ok out, q) \<and>
     (\<exists>e. push (u8_inner p) cs = (e, u8_inner q) \<and> visible_text e = visible_text out \<and>
          meaning (extracted e) = meaning (extracted out)) \<and>
     ok (u8_inner q) \<and> pending_utf8 q = drop m (pending_utf8 p @ concat bs)"
  using assms
proof (induction bs arbitrary: p cs m st0)
  case Nil
  then show ?case by (auto simp: push_Nil)
next
  case (Cons b bs)
  obtain cs1 m1 st1 where d1: "utf8_decode (pending_utf8 p @ b) = (cs1, m1, st1)" by (metis prod_cases3)
  have all: "(pending_utf8 p @ b) @ concat bs = pending_utf8 p @ concat (b # bs)" by simp
  have st1: "\<forall>k. st1 \<noteq> Bad k"
    using utf8_decode_append [OF d1, of "concat bs"] Cons.prems(4,5) unfolding all
    by (auto split: utf8_status.splits)
  obtain e1 q1 where e1: "push (u8_inner p) cs1 = (e1, q1)" by fastforce
  let ?q = "p\<lparr>u8_inner := q1, pending_utf8 := drop m1 (pending_utf8 p @ b)\<rparr>"
  have p1: "push_bytes push p b = (Ok e1, ?q)"
    using push_bytes_ok [OF Cons.prems(1) d1 st1] e1 by simp
  have m1: "m1 \<le> length (pending_utf8 p @ b)" using utf8_decode_length [OF d1] .
  obtain cs2 m2 st2 where d2: "utf8_decode (pending_utf8 ?q @ concat bs) = (cs2, m2, st2)"
    by (metis prod_cases3)
  have r: "cs = cs1 @ cs2" "m = m1 + m2" "st = st2"
    using utf8_decode_append [OF d1, of "concat bs"] Cons.prems(4) d2 st1 unfolding all
    by (auto split: utf8_status.splits)
  have "utf8_decode (pending_utf8 ?q) = ([], 0, st1)"
    using utf8_decode_rest [OF d1] by simp
  moreover have "ok (u8_inner ?q)" using push_ok [OF Cons.prems(1) e1] by simp
  ultimately obtain out q where ih: "push_all_bytes push ?q bs = (Ok out, q)"
    "ok (u8_inner q)" "pending_utf8 q = drop m2 (pending_utf8 ?q @ concat bs)"
    and e: "\<exists>e. push q1 cs2 = (e, u8_inner q) \<and> visible_text e = visible_text out \<and>
          meaning (extracted e) = meaning (extracted out)"
    using Cons.IH [of ?q st1 cs2 m2] st1 d2 Cons.prems(5) r(3) by auto
  from e obtain e2 where e2: "push q1 cs2 = (e2, u8_inner q)" "visible_text e2 = visible_text out"
    "meaning (extracted e2) = meaning (extracted out)" by blast
  from push_append [OF Cons.prems(1) e1 e2(1)] obtain e3 where e3: "push (u8_inner p) cs = (e3, u8_inner q)"
    "visible_text e3 = visible_text e1 @ visible_text e2"
    "meaning (extracted e3) = meaning (extracted e1) @ meaning (extracted e2)" by (auto simp: r)
  have "drop m2 (drop m1 (pending_utf8 p @ b) @ concat bs) = drop m (pending_utf8 p @ concat (b # bs))"
    using drop_tail [OF m1, of m2 "concat bs"] unfolding r(2) all [symmetric] .
  with ih p1 e2 e3 show ?case by (auto simp: meaning_append)
qed

end

section \<open>Encoding\<close>

definition utf8_encode_char :: "rchar \<Rightarrow> byte list" where
  "utf8_encode_char c =
     (if c < 128 then [c]
      else if c < 2048 then [192 + c div 64, 128 + c mod 64]
      else if c < 65536 then [224 + c div 4096, 128 + c div 64 mod 64, 128 + c mod 64]
      else [240 + c div 262144, 128 + c div 4096 mod 64, 128 + c div 64 mod 64, 128 + c mod 64])"

text \<open>The values a \<open>char\<close> can have: no surrogates, nothing above the last code point.\<close>

definition is_scalar :: "rchar \<Rightarrow> bool" where
  "is_scalar c \<longleftrightarrow> c < 1114112 \<and> \<not> (55296 \<le> c \<and> c \<le> 57343)"

definition utf8_encode :: "rstr \<Rightarrow> byte list" where
  "utf8_encode s = concat (map utf8_encode_char s)"

lemma join_3: "(c div 4096) * 4096 + (c div 64 mod 64) * 64 + c mod 64 = (c::nat)"
proof -
  have "(c div 64 div 64) * 64 + c div 64 mod 64 = c div 64" by simp
  moreover have "c div 64 * 64 + c mod 64 = c" by simp
  ultimately show ?thesis unfolding div_mult2_eq [of c 64 64, simplified] by linarith
qed

lemma join_4:
  "(c div 262144) * 262144 + (c div 4096 mod 64) * 4096 + (c div 64 mod 64) * 64 + c mod 64 = (c::nat)"
proof -
  have "(c div 4096 div 64) * 64 + c div 4096 mod 64 = c div 4096" by simp
  with join_3 [of c] show ?thesis unfolding div_mult2_eq [of c 4096 64, simplified] by linarith
qed

lemma mod_64_cont: "is_cont (128 + c mod 64)"
  using mod_less_divisor [of 64 c] by (simp add: is_cont_def)

lemma lead_2:
  assumes "\<not> c < 128" and "c < 2048"
  shows "lead_byte (192 + c div 64) = Some (2, 128, 191)"
proof -
  have "2 \<le> c div 64" using assms(1) div_le_mono [of 128 c 64] by simp
  moreover have "c div 64 < 32" using assms(2) by (simp add: less_mult_imp_div_less)
  ultimately show ?thesis by (simp add: lead_byte_def)
qed

lemma lead_3:
  assumes "\<not> c < 2048" and "c < 65536" and "is_scalar c"
  shows "\<exists>lo hi. lead_byte (224 + c div 4096) = Some (3, lo, hi) \<and>
     lo \<le> 128 + c div 64 mod 64 \<and> 128 + c div 64 mod 64 \<le> hi"
proof -
  let ?y = "c div 64"
  have d: "c div 4096 = ?y div 64" by (simp add: div_mult2_eq [symmetric])
  have y: "?y div 64 * 64 + ?y mod 64 = ?y" by simp
  have m: "?y mod 64 < 64" by simp
  have hi: "c div 4096 < 16" using assms(2) by (simp add: less_mult_imp_div_less)
  consider "c div 4096 = 0" | "c div 4096 = 13" | "c div 4096 \<noteq> 0" "c div 4096 \<noteq> 13" by blast
  then show ?thesis
  proof cases
    case 1
    have "32 \<le> ?y" using assms(1) div_le_mono [of 2048 c 64] by simp
    with 1 d y m have "32 \<le> ?y mod 64" by simp
    with 1 m show ?thesis by (simp add: lead_byte_def)
  next
    case 2
    have "c < 57344" using 2 by linarith
    with assms(3) have "c < 55296" by (simp add: is_scalar_def)
    then have "?y < 864" by (simp add: less_mult_imp_div_less)
    with 2 d y have "?y mod 64 < 32" by linarith
    with 2 show ?thesis by (simp add: lead_byte_def)
  next
    case 3
    with hi m show ?thesis by (simp add: lead_byte_def)
  qed
qed

lemma lead_4:
  assumes "\<not> c < 65536" and "is_scalar c"
  shows "\<exists>lo hi. lead_byte (240 + c div 262144) = Some (4, lo, hi) \<and>
     lo \<le> 128 + c div 4096 mod 64 \<and> 128 + c div 4096 mod 64 \<le> hi"
proof -
  let ?y = "c div 4096"
  have d: "c div 262144 = ?y div 64" by (simp add: div_mult2_eq [symmetric])
  have y: "?y div 64 * 64 + ?y mod 64 = ?y" by simp
  have m: "?y mod 64 < 64" by simp
  have c: "c < 1114112" using assms(2) by (simp add: is_scalar_def)
  then have yh: "?y < 272" by (simp add: less_mult_imp_div_less)
  have hi: "c div 262144 < 5" using c by linarith
  consider "c div 262144 = 0" | "c div 262144 = 4" | "c div 262144 \<noteq> 0" "c div 262144 < 4"
    using hi by linarith
  then show ?thesis
  proof cases
    case 1
    have "16 \<le> ?y" using assms(1) div_le_mono [of 65536 c 4096] by simp
    with 1 d y have "16 \<le> ?y mod 64" by simp
    with 1 m show ?thesis by (simp add: lead_byte_def)
  next
    case 2
    with d y yh have "?y mod 64 < 16" by linarith
    with 2 show ?thesis by (simp add: lead_byte_def)
  next
    case 3
    with m show ?thesis by (simp add: lead_byte_def)
  qed
qed

lemma utf8_step_encode:
  assumes "is_scalar c"
  shows "utf8_step (utf8_encode_char c @ r) = Utf8Char c (length (utf8_encode_char c))"
proof -
  consider "c < 128" | "\<not> c < 128" "c < 2048" | "\<not> c < 2048" "c < 65536" | "\<not> c < 65536" by linarith
  then show ?thesis
  proof cases
    case 1
    then show ?thesis by (simp add: utf8_step_def utf8_encode_char_def)
  next
    case 2
    with lead_2 [OF 2] mod_64_cont [of c] show ?thesis
      by (simp add: utf8_step_def utf8_encode_char_def is_cont_def)
  next
    case 3
    with lead_3 [OF 3 assms] mod_64_cont [of c] join_3 [of c] show ?thesis
      by (auto simp: utf8_step_def utf8_encode_char_def)
  next
    case 4
    with lead_4 [OF 4 assms] mod_64_cont [of c] mod_64_cont [of "c div 64"] join_4 [of c] show ?thesis
      by (auto simp: utf8_step_def utf8_encode_char_def)
  qed
qed

lemma utf8_encode_char_not_Nil: "utf8_encode_char c \<noteq> []"
  by (simp add: utf8_encode_char_def)

lemma utf8_decode_encode:
  "list_all is_scalar t \<Longrightarrow> utf8_decode (utf8_encode t) = (t, length (utf8_encode t), Done)"
proof (induction t)
  case (Cons c t)
  have "utf8_encode (c # t) = utf8_encode_char c @ utf8_encode t" by (simp add: utf8_encode_def)
  with Cons utf8_step_encode [of c "utf8_encode t"] show ?case
    by (subst utf8_decode.simps) (simp add: utf8_encode_char_not_Nil)
qed (simp add: utf8_encode_def utf8_decode.simps)

section \<open>Properties\<close>

text \<open>
  Decoding inverts encoding: the UTF-8 bytes of any text are valid and decode to it.
\<close>

theorem from_utf8_encode:
  assumes "list_all is_scalar t"
  shows "from_utf8 (utf8_encode t) = Inr t"
  using utf8_decode_encode [OF assms] by (simp add: from_utf8_def)

theorem from_utf8_encode_witness:
  "from_utf8 (utf8_encode [65, 233, 8364, 128512]) = Inr [65, 233, 8364, 128512]"
  by (rule from_utf8_encode) (simp add: is_scalar_def)

text \<open>
  A rejected chunk is rolled back entirely: when \<open>push_bytes\<close> reports invalid UTF-8, the
  parser is as before the call, the inner one included.
\<close>

theorem push_bytes_rollback:
  assumes "push_bytes push p chunk = (Inl e, q)"
  shows "q = p"
  using assms
  by (auto simp: push_bytes_def Let_def split: sum.splits prod.splits option.splits if_splits)

theorem push_bytes_rollback_witness:
  "\<exists>q. push_bytes citation_push (utf8_new (the citation_new)) [97, 255] = (Inl (InvalidUtf8 1 1), q) \<and>
     q = utf8_new (the citation_new)"
proof -
  let ?r = "push_bytes citation_push (utf8_new (the citation_new)) [97, 255]"
  have "utf8_decode [97, 255] = ([97], 1, Bad 1)" by code_simp
  then have "fst ?r = Inl (InvalidUtf8 1 1)"
    by (simp add: push_bytes_def utf8_new_def from_utf8_def Let_def)
  then have "?r = (Inl (InvalidUtf8 1 1), snd ?r)" by (metis prod.collapse)
  with push_bytes_rollback [OF this] show ?thesis by blast
qed

text \<open>
  A code point may be split across chunks of bytes: whatever way the UTF-8 bytes of a
  text are cut into chunks, the citation parser behind \<open>Utf8StreamParser\<close> reports no error
  and yields the visible text and the citations of the text.
\<close>

theorem utf8_citation_chunking:
  assumes "citation_new = Some p" and "list_all is_scalar t" and "concat bs = utf8_encode t"
  shows "\<exists>out. collect_bytes citation_push citation_finish p bs = Inr out \<and>
     (visible_text out, extracted out) = citation_reference t"
proof -
  have ok: "citation_ok p" using assms(1) by (rule citation_ok_new)
  have "utf8_decode (pending_utf8 (utf8_new p)) = ([], 0, Done)"
    by (simp add: utf8_new_def utf8_decode.simps)
  moreover have "utf8_decode (pending_utf8 (utf8_new p) @ concat bs) = (t, length (utf8_encode t), Done)"
    using utf8_decode_encode [OF assms(2)] assms(3) by (simp add: utf8_new_def)
  ultimately obtain out q e where run: "push_all_bytes citation_push (utf8_new p) bs = (Ok out, q)"
    "citation_push p t = (e, u8_inner q)" "visible_text e = visible_text out"
    "extracted e = extracted out" "pending_utf8 q = []"
    using citation.push_all_bytes_ok [of "utf8_new p" Done bs t "length (utf8_encode t)" Done] ok assms(3)
    by (auto simp: utf8_new_def)
  obtain tail r where tail: "citation_finish (u8_inner q) = (tail, r)" by fastforce
  obtain l where l: "inline_loop [citation_spec] t None chunk_default = Some l"
    using loop_total [OF citation_good, of None t chunk_default] by auto
  have "(visible_text e @ visible_text tail, extracted e @ extracted tail) = citation_reference t"
    using collect_citation_flushed [OF assms(1) l] loop_reference [of None, OF _ l] run(2) tail
    by (simp add: collect_stream_def)
  with run tail show ?thesis by (simp add: collect_bytes_def utf8_finish_def)
qed

theorem utf8_citation_chunking_witness:
  "\<exists>p out. citation_new = Some p \<and>
     collect_bytes citation_push citation_finish p [[195], [169]] = Inr out \<and> visible_text out = [233]"
proof -
  obtain p where p: "citation_new = Some p" using citation_new_Some by blast
  have "concat [[195], [169]] = utf8_encode [233]" "list_all is_scalar [233]"
    "citation_reference [233] = ([233], [])" by code_simp+
  with utf8_citation_chunking [OF p, of "[233]" "[[195], [169]]"] p show ?thesis by auto
qed

end
