(* ===== verification/Absolute_Path.thy ===== *)
theory Absolute_Path
  imports Prelude
begin

text \<open>
  \<open>utils/absolute-path/src\<close>: \<open>AbsolutePathBuf\<close> on Unix. A \<open>PathBuf\<close> is the list of its
  components (\<open>Path\<close> compares by components); \<open>path_components\<close> is \<open>Path::components\<close>.
  The home directory and the current directory are arguments: the first is the
  thread-local override or \<open>dirs::home_dir\<close>, the second \<open>std::env::current_dir\<close>, which
  can fail.
\<close>

section \<open>Paths of the standard library\<close>

datatype path_component = RootDir | CurDir | ParentDir | Normal rstr

type_synonym path_buf = "path_component list"

definition chr_slash :: rchar where
  "chr_slash = 47"

definition dot :: rstr where
  "dot = [46]"

definition dot_dot :: rstr where
  "dot_dot = [46, 46]"

definition body_components :: "rstr list \<Rightarrow> path_component list" where
  "body_components parts =
     map (\<lambda>x. if x = dot_dot then ParentDir else Normal x)
       (filter (\<lambda>x. x \<noteq> [] \<and> x \<noteq> dot) parts)"

text \<open>Repeated slashes and inner dots vanish; a leading dot of a relative path is kept.\<close>

definition path_components :: "rstr \<Rightarrow> path_buf" where
  "path_components s =
     (if starts_with s [chr_slash] then RootDir # body_components (split_on chr_slash s)
      else (if hd (split_on chr_slash s) = dot then [CurDir] else []) @
           body_components (split_on chr_slash s))"

fun is_absolute :: "path_buf \<Rightarrow> bool" where
  "is_absolute (RootDir # _) = True"
| "is_absolute _ = False"

definition path_buf_join :: "path_buf \<Rightarrow> path_buf \<Rightarrow> path_buf" where
  "path_buf_join base p =
     (if is_absolute p \<or> base = [] then p else base @ filter (\<lambda>c. c \<noteq> CurDir) p)"

text \<open>\<open>PathBuf::pop\<close> and \<open>PathBuf::push\<close> of one component; the root has no parent.\<close>

definition path_pop :: "path_buf \<Rightarrow> path_buf" where
  "path_pop p = (if p = [] \<or> last p = RootDir then p else butlast p)"

definition path_push :: "path_buf \<Rightarrow> path_component \<Rightarrow> path_buf" where
  "path_push p c = (if c = RootDir then [RootDir] else p @ [c])"

definition path_file_name :: "path_buf \<Rightarrow> rstr option" where
  "path_file_name p = (case last_opt p of Some (Normal n) \<Rightarrow> Some n | _ \<Rightarrow> None)"

section \<open>AbsolutePathBuf\<close>

text \<open>\<open>absolutize.rs\<close>.\<close>

definition normalize_step :: "path_buf \<Rightarrow> path_component \<Rightarrow> path_buf" where
  "normalize_step acc c =
     (case c of
        CurDir \<Rightarrow> acc
      | ParentDir \<Rightarrow> path_pop acc
      | _ \<Rightarrow> path_push acc c)"

definition normalize_path :: "path_buf \<Rightarrow> path_buf" where
  "normalize_path p =
     (let normalized = foldl normalize_step [] p in
      if normalized = [] then [CurDir] else normalized)"

definition path_with_base :: "path_buf \<Rightarrow> path_buf \<Rightarrow> path_buf" where
  "path_with_base p base = (if is_absolute p then p else path_buf_join base p)"

definition absolutize_from :: "path_buf \<Rightarrow> path_buf \<Rightarrow> path_buf" where
  "absolutize_from p base = normalize_path (path_with_base p base)"

definition absolutize :: "path_buf option \<Rightarrow> path_buf \<Rightarrow> path_buf option" where
  "absolutize cwd p =
     (if is_absolute p then Some (normalize_path p)
      else map_option (absolutize_from p) cwd)"

text \<open>\<open>lib.rs\<close>.\<close>

definition maybe_expand_home_directory :: "path_buf option \<Rightarrow> rstr \<Rightarrow> path_buf" where
  "maybe_expand_home_directory home s =
     (case (strip_prefix [126] s, home) of
        (Some rest, Some h) \<Rightarrow>
          (if rest = [] then h
           else (case strip_prefix [chr_slash] rest of
                   Some r \<Rightarrow> path_buf_join h (path_components (dropWhile (\<lambda>c. c = chr_slash) r))
                 | None \<Rightarrow> path_components s))
      | _ \<Rightarrow> path_components s)"

definition resolve_path_against_base :: "path_buf option \<Rightarrow> rstr \<Rightarrow> path_buf \<Rightarrow> path_buf" where
  "resolve_path_against_base home s base =
     absolutize_from (maybe_expand_home_directory home s) base"

definition from_absolute_path ::
    "path_buf option \<Rightarrow> path_buf option \<Rightarrow> rstr \<Rightarrow> path_buf option" where
  "from_absolute_path home cwd s = absolutize cwd (maybe_expand_home_directory home s)"

definition from_absolute_path_checked :: "path_buf option \<Rightarrow> rstr \<Rightarrow> path_buf option" where
  "from_absolute_path_checked home s =
     (let expanded = maybe_expand_home_directory home s in
      if \<not> is_absolute expanded then None
      else Some (absolutize_from expanded [RootDir]))"

text \<open>The path as text, as \<open>display\<close> prints an absolute one.\<close>

definition component_name :: "path_component \<Rightarrow> rstr" where
  "component_name c =
     (case c of Normal n \<Rightarrow> n | ParentDir \<Rightarrow> dot_dot | CurDir \<Rightarrow> dot | RootDir \<Rightarrow> [])"

definition path_string :: "path_buf \<Rightarrow> rstr" where
  "path_string p = chr_slash # join_with [chr_slash] (map component_name (tl p))"

section \<open>What an AbsolutePathBuf is\<close>

definition name_part_ok :: "rstr \<Rightarrow> bool" where
  "name_part_ok n \<longleftrightarrow> n \<noteq> [] \<and> n \<noteq> dot \<and> n \<noteq> dot_dot \<and> chr_slash \<notin> set n"

definition component_ok :: "path_component \<Rightarrow> bool" where
  "component_ok c \<longleftrightarrow> (case c of Normal n \<Rightarrow> name_part_ok n | _ \<Rightarrow> True)"

text \<open>A root followed by plain names: absolute and normalized.\<close>

definition normal_abs :: "path_buf \<Rightarrow> bool" where
  "normal_abs p \<longleftrightarrow> (\<exists>ns. p = RootDir # map Normal ns \<and> list_all name_part_ok ns)"

lemma split_on_parts: "x \<in> set (split_on c s) \<Longrightarrow> c \<notin> set x"
  by (induction s arbitrary: x) (auto split: list.splits if_splits)

lemma components_ok: "list_all component_ok (path_components s)"
  using split_on_parts [of _ chr_slash s]
  by (auto simp: path_components_def body_components_def component_ok_def name_part_ok_def list_all_iff)

lemma normalize_step_abs:
  "normal_abs acc \<Longrightarrow> component_ok c \<Longrightarrow> normal_abs (normalize_step acc c)"
proof -
  assume "normal_abs acc" and c: "component_ok c"
  then obtain ns where ns: "acc = RootDir # map Normal ns" "list_all name_part_ok ns"
    by (auto simp: normal_abs_def)
  show ?thesis
  proof (cases c)
    case (Normal n)
    then have "normalize_step acc c = RootDir # map Normal (ns @ [n])"
      using ns by (simp add: normalize_step_def path_push_def)
    with ns c Normal show ?thesis
      unfolding normal_abs_def by (intro exI [of _ "ns @ [n]"]) (simp add: component_ok_def)
  next
    case ParentDir
    show ?thesis
    proof (cases ns rule: rev_cases)
      case (snoc ms m)
      with ns ParentDir show ?thesis
        unfolding normal_abs_def
        by (intro exI [of _ ms]) (simp add: normalize_step_def path_pop_def butlast_append)
    qed (use ns ParentDir in \<open>auto simp: normal_abs_def normalize_step_def path_pop_def\<close>)
  qed (use ns in \<open>auto simp: normal_abs_def normalize_step_def path_push_def\<close>)
qed

lemma normalize_fold_abs:
  "normal_abs acc \<Longrightarrow> list_all component_ok p \<Longrightarrow> normal_abs (foldl normalize_step acc p)"
  by (induction p arbitrary: acc) (auto intro: normalize_step_abs)

lemma normal_abs_root [simp]: "normal_abs [RootDir]"
  by (simp add: normal_abs_def)

lemma normal_abs_not_Nil: "normal_abs p \<Longrightarrow> p \<noteq> []"
  by (auto simp: normal_abs_def)

lemma normalize_path_abs:
  assumes "is_absolute p" and "list_all component_ok p"
  shows "normal_abs (normalize_path p)"
proof -
  from assms(1) obtain q where q: "p = RootDir # q" by (cases p rule: is_absolute.cases) auto
  have "foldl normalize_step [] p = foldl normalize_step [RootDir] q"
    by (simp add: q normalize_step_def path_push_def)
  moreover have "normal_abs (foldl normalize_step [RootDir] q)"
    using assms(2) q by (intro normalize_fold_abs) auto
  ultimately show ?thesis by (simp add: normalize_path_def normal_abs_not_Nil)
qed

lemma normal_absD: "normal_abs p \<Longrightarrow> is_absolute p \<and> list_all component_ok p"
  by (auto simp: normal_abs_def list_all_iff component_ok_def)

lemma is_absolute_append: "is_absolute p \<Longrightarrow> is_absolute (p @ q)"
  by (cases p rule: is_absolute.cases) auto

lemma join_abs:
  assumes "normal_abs base" and "list_all component_ok p"
  shows "is_absolute (path_buf_join base p) \<and> list_all component_ok (path_buf_join base p)"
  using normal_absD [OF assms(1)] normal_abs_not_Nil [OF assms(1)] assms(2)
  by (auto simp: path_buf_join_def is_absolute_append list_all_iff)

lemma absolutize_from_abs:
  assumes "normal_abs base" and "list_all component_ok p"
  shows "normal_abs (absolutize_from p base)"
  using join_abs [OF assms] assms(2)
  by (auto simp: absolutize_from_def path_with_base_def intro!: normalize_path_abs)

lemma expand_home_ok:
  assumes "\<forall>h. home = Some h \<longrightarrow> normal_abs h"
  shows "list_all component_ok (maybe_expand_home_directory home s)"
  using assms join_abs components_ok normal_absD
  by (fastforce simp: maybe_expand_home_directory_def split: option.splits if_splits)

text \<open>Normalizing does not change a path that is absolute and normalized.\<close>

lemma normalize_fold_id:
  "foldl normalize_step (RootDir # map Normal ms) (map Normal ns) = RootDir # map Normal (ms @ ns)"
proof (induction ns arbitrary: ms)
  case (Cons n ns)
  have "normalize_step (RootDir # map Normal ms) (Normal n) = RootDir # map Normal (ms @ [n])"
    by (simp add: normalize_step_def path_push_def)
  with Cons [of "ms @ [n]"] show ?case by simp
qed simp

lemma normalize_path_id:
  assumes "normal_abs p"
  shows "normalize_path p = p"
proof -
  from assms obtain ns where "p = RootDir # map Normal ns" by (auto simp: normal_abs_def)
  then show ?thesis
    using normalize_fold_id [of "[]" ns]
    by (simp add: normalize_path_def normalize_step_def path_push_def)
qed

lemma body_components_names:
  "list_all name_part_ok ns \<Longrightarrow> body_components ns = map Normal ns"
  by (induction ns) (auto simp: body_components_def name_part_ok_def)

lemma body_components_Nil_Cons [simp]: "body_components ([] # ps) = body_components ps"
  by (simp add: body_components_def)

lemma path_components_string:
  assumes "normal_abs p"
  shows "path_components (path_string p) = p"
proof -
  from assms obtain ns where p: "p = RootDir # map Normal ns" and ns: "list_all name_part_ok ns"
    by (auto simp: normal_abs_def)
  have "map component_name (map Normal ns) = ns" by (simp add: component_name_def o_def)
  with p have s: "path_string p = chr_slash # join_with [chr_slash] ns"
    by (simp add: path_string_def)
  have "body_components (split_on chr_slash (join_with [chr_slash] ns)) = map Normal ns"
  proof (cases "ns = []")
    case True
    then show ?thesis by (simp add: body_components_def)
  next
    case False
    with ns have "split_on chr_slash (join_with [chr_slash] ns) = ns"
      by (intro split_on_join) (auto simp: list_all_iff name_part_ok_def)
    with ns show ?thesis by (simp add: body_components_names)
  qed
  then show ?thesis
    unfolding s by (simp add: p path_components_def starts_with_prefix)
qed

lemma strip_tilde_path_string [simp]: "strip_prefix [126] (path_string p) = None"
  by (simp add: strip_prefix_None path_string_def chr_slash_def)

section \<open>Properties\<close>

text \<open>
  Whatever text \<open>AbsolutePathBuf::try_from\<close> accepts, the path it yields is absolute
  and normalized (a root and plain names, no dots, no empty parts), provided the home and
  the current directory are: parent steps never climb above the root.
\<close>

theorem from_absolute_path_normal:
  assumes "\<forall>h. home = Some h \<longrightarrow> normal_abs h" and "\<forall>d. cwd = Some d \<longrightarrow> normal_abs d"
    and "from_absolute_path home cwd s = Some p"
  shows "normal_abs p"
  using assms(2,3) expand_home_ok [OF assms(1), of s]
  by (auto simp: from_absolute_path_def absolutize_def
      intro: normalize_path_abs absolutize_from_abs split: if_splits)

theorem from_absolute_path_normal_witness:
  "from_absolute_path None None (lit ''/a/../../b/./c'') =
     Some [RootDir, Normal (lit ''b''), Normal (lit ''c'')] \<and>
   normal_abs [RootDir, Normal (lit ''b''), Normal (lit ''c'')]"
proof -
  have 1: "from_absolute_path None None (lit ''/a/../../b/./c'') =
     Some [RootDir, Normal (lit ''b''), Normal (lit ''c'')]"
    by code_simp
  from from_absolute_path_normal [OF _ _ 1] 1 show ?thesis by simp
qed

text \<open>
  An absolute path survives being printed and read back: \<open>try_from\<close> of the text of a
  normalized absolute path is that path, whatever the home and the current directory.
\<close>

theorem from_absolute_path_string:
  assumes "normal_abs p"
  shows "from_absolute_path home cwd (path_string p) = Some p"
  using assms normal_absD [OF assms]
  by (simp add: from_absolute_path_def maybe_expand_home_directory_def path_components_string
      absolutize_def normalize_path_id split: option.splits)

theorem from_absolute_path_string_witness:
  "normal_abs [RootDir, Normal (lit ''usr'')] \<and>
   from_absolute_path None None (path_string [RootDir, Normal (lit ''usr'')]) =
     Some [RootDir, Normal (lit ''usr'')]"
proof -
  have "normal_abs [RootDir, Normal (lit ''usr'')]"
    unfolding normal_abs_def
    by (intro exI [of _ "[lit ''usr'']"]) (simp add: name_part_ok_def lit_eval dot_def dot_dot_def chr_slash_def)
  with from_absolute_path_string [OF this, of None None] show ?thesis by simp
qed

end
