(* ===== verification/Path_Uri.thy ===== *)
theory Path_Uri
  imports Utf8_Stream Absolute_Path "HOL-Library.Sublist"
begin

text \<open>
  \<open>utils/path-uri/src\<close>: paths of any platform as \<open>file:\<close> URIs.

  A \<open>Url\<close> of the crate \<open>url\<close> with the scheme \<open>file\<close> is its host and the list of its path segments, in the
  percent-encoded spelling in which it is stored; the path is the segments with a slash before each of
  them, so the root has one empty segment. The record \<open>uri_lib\<close> holds what the crates \<open>url\<close>, \<open>urlencoding\<close>
  and \<open>base64\<close> compute: the spelling of a pushed segment, the parsing of a host, percent decoding, and the
  encoding of bytes.
\<close>

section \<open>Conventions\<close>

datatype PathConvention = Posix | Windows

fun is_separator :: "PathConvention \<Rightarrow> rchar \<Rightarrow> bool" where
  "is_separator Posix c \<longleftrightarrow> c = 47"
| "is_separator Windows c \<longleftrightarrow> c = 47 \<or> c = 92"

fun split_at :: "('a \<Rightarrow> bool) \<Rightarrow> 'a list \<Rightarrow> 'a list list" where
  "split_at P [] = [[]]"
| "split_at P (x # xs) =
     (if P x then [] # split_at P xs else (case split_at P xs of [] \<Rightarrow> [[x]] | y # ys \<Rightarrow> (x # y) # ys))"

definition path_segments :: "PathConvention \<Rightarrow> rstr \<Rightarrow> rstr list" where
  "path_segments convention path = split_at (is_separator convention) path"

definition home_relative_suffix :: "PathConvention \<Rightarrow> rstr \<Rightarrow> rstr option" where
  "home_relative_suffix convention path =
     (case strip_prefix [126] path of
        None \<Rightarrow> None
      | Some rest \<Rightarrow>
          if rest = [] \<or> starts_with rest [47] \<or> convention = Windows \<and> starts_with rest [92] then Some rest else None)"

section \<open>URLs\<close>

record file_url =
  url_host :: "rstr option"
  url_segments :: "rstr list"

record any_url = file_url +
  url_scheme :: rstr
  url_username :: rstr
  url_password :: "rstr option"
  url_port :: "nat option"
  url_query :: "rstr option"
  url_fragment :: "rstr option"

record uri_lib =
  parse_url :: "rstr \<Rightarrow> rstr + any_url"
  from_file_path :: "rstr \<Rightarrow> any_url option"
  push_segment :: "rstr \<Rightarrow> rstr list \<Rightarrow> rstr list"
  parse_host :: "rstr \<Rightarrow> rstr option"
  percent_decode :: "rstr \<Rightarrow> byte list"
  b64_decode :: "rstr \<Rightarrow> byte list option"
  b64_encode :: "byte list \<Rightarrow> rstr"

definition url_path :: "file_url \<Rightarrow> rstr" where
  "url_path url = 47 # join_with [47] (url_segments url)"

definition url_as_str :: "file_url \<Rightarrow> rstr" where
  "url_as_str url = lit ''file://'' @ (case url_host url of Some h \<Rightarrow> h | None \<Rightarrow> []) @ url_path url"

definition pop_segment :: "rstr list \<Rightarrow> rstr list" where
  "pop_segment segments = (if length segments \<le> 1 then [[]] else butlast segments)"

definition pop_if_empty :: "rstr list \<Rightarrow> rstr list" where
  "pop_if_empty segments = (if 1 < length segments \<and> last segments = [] then butlast segments else segments)"

definition names :: "file_url \<Rightarrow> rstr list" where
  "names url = filter (\<lambda>segment. segment \<noteq> []) (url_segments url)"

datatype PathUriParseError =
    InvalidUri rstr
  | UnsupportedScheme rstr
  | InvalidFileUriPath rstr
  | CredentialsNotAllowed
  | PortNotAllowed
  | QueryNotAllowed
  | FragmentNotAllowed
  | JoinPathMustBeDescendant rstr

section \<open>Inspection\<close>

definition BAD_PATH_URI_PREFIX :: rstr where
  "BAD_PATH_URI_PREFIX = lit ''file:///%00/bad/path/''"

definition decode_uri_path :: "uri_lib \<Rightarrow> rstr \<Rightarrow> rstr" where
  "decode_uri_path lb path = (case from_utf8 (percent_decode lb path) of Inr s \<Rightarrow> s | Inl _ \<Rightarrow> path)"

definition decode_bad_path_uri :: "uri_lib \<Rightarrow> file_url \<Rightarrow> byte list option" where
  "decode_bad_path_uri lb url =
     (case strip_prefix BAD_PATH_URI_PREFIX (url_as_str url) of
        None \<Rightarrow> None
      | Some encoded \<Rightarrow>
          if encoded = [] \<or> 47 \<in> set encoded then None
          else
            (case b64_decode lb encoded of
               None \<Rightarrow> None
             | Some bytes \<Rightarrow> if b64_encode lb bytes = encoded then Some bytes else None))"

definition is_opaque :: "uri_lib \<Rightarrow> file_url \<Rightarrow> bool" where
  "is_opaque lb url \<longleftrightarrow> decode_bad_path_uri lb url \<noteq> None"

definition is_ascii_alphabetic :: "rchar \<Rightarrow> bool" where
  "is_ascii_alphabetic c \<longleftrightarrow> 65 \<le> c \<and> c \<le> 90 \<or> 97 \<le> c \<and> c \<le> 122"

definition is_windows_drive_uri_segment :: "rstr \<Rightarrow> bool" where
  "is_windows_drive_uri_segment segment =
     (case segment of
        [drive, c] \<Rightarrow> c = 58 \<and> is_ascii_alphabetic drive
      | [drive, p, t, a] \<Rightarrow> p = 37 \<and> t = 51 \<and> (a = 65 \<or> a = 97) \<and> is_ascii_alphabetic drive
      | _ \<Rightarrow> False)"

definition infer_opaque_path_convention :: "byte list \<Rightarrow> PathConvention option" where
  "infer_opaque_path_convention bytes =
     (if starts_with bytes [47] then Some Posix
      else if odd (length bytes) then None
      else
        (case bytes of
           a # b # c # d # _ \<Rightarrow>
             (let first = a + 256 * b; second = c + 256 * d in
              if first < 256 \<and> is_ascii_alphabetic first \<and> second = 58 \<or> first = 92 \<and> second = 92 then Some Windows else None)
         | _ \<Rightarrow> None))"

definition infer_convention :: "uri_lib \<Rightarrow> file_url \<Rightarrow> PathConvention option" where
  "infer_convention lb url =
     (case decode_bad_path_uri lb url of
        Some bytes \<Rightarrow> infer_opaque_path_convention bytes
      | None \<Rightarrow>
          if url_host url \<noteq> None then Some Windows
          else
            (case names url of
               segment # _ \<Rightarrow> if is_windows_drive_uri_segment segment then Some Windows else Some Posix
             | [] \<Rightarrow> Some Posix))"

definition encoded_separator :: "uri_lib \<Rightarrow> PathConvention \<Rightarrow> rstr \<Rightarrow> bool" where
  "encoded_separator lb convention segment \<longleftrightarrow>
     list_ex (\<lambda>byte. byte = 47 \<or> convention = Windows \<and> byte = 92) (percent_decode lb segment)"

definition containment_path_segments :: "uri_lib \<Rightarrow> file_url \<Rightarrow> PathConvention \<Rightarrow> rstr list option" where
  "containment_path_segments lb url convention =
     (if list_ex (encoded_separator lb convention) (names url) then None else Some (names url))"

definition same_segment :: "uri_lib \<Rightarrow> PathConvention \<Rightarrow> rstr \<Rightarrow> rstr \<Rightarrow> bool" where
  "same_segment lb convention path base =
     (case convention of
        Posix \<Rightarrow> percent_decode lb path = percent_decode lb base
      | Windows \<Rightarrow> eq_ignore_ascii_case path base \<or> eq_ignore_ascii_case (decode_uri_path lb path) (decode_uri_path lb base))"

definition native_path_segments_start_with :: "uri_lib \<Rightarrow> rstr list \<Rightarrow> rstr list \<Rightarrow> PathConvention \<Rightarrow> bool" where
  "native_path_segments_start_with lb path base convention \<longleftrightarrow>
     length base \<le> length path \<and> list_all (\<lambda>(p, b). same_segment lb convention p b) (zip path base)"

definition windows_identity_path_bytes :: "uri_lib \<Rightarrow> file_url \<Rightarrow> byte list option" where
  "windows_identity_path_bytes lb url =
     (if infer_convention lb url \<noteq> Some Windows \<or> is_opaque lb url \<or>
         list_ex (\<lambda>segment. list_ex (\<lambda>byte. byte = 47 \<or> byte = 92) (percent_decode lb segment)) (url_segments url)
      then None else Some (percent_decode lb (url_path url)))"

text \<open>The equality of \<open>PathUri\<close>.\<close>

definition uri_eq :: "uri_lib \<Rightarrow> file_url \<Rightarrow> file_url \<Rightarrow> bool" where
  "uri_eq lb a b \<longleftrightarrow>
     a = b \<or>
     (case (windows_identity_path_bytes lb a, windows_identity_path_bytes lb b) of
        (Some p, Some q) \<Rightarrow> url_host a = url_host b \<and> eq_ignore_ascii_case p q
      | _ \<Rightarrow> False)"

definition uri_starts_with :: "uri_lib \<Rightarrow> file_url \<Rightarrow> file_url \<Rightarrow> bool" where
  "uri_starts_with lb url base =
     (if uri_eq lb url base then True
      else if is_opaque lb url \<or> is_opaque lb base then False
      else if url_host url \<noteq> url_host base then False
      else if infer_convention lb url \<noteq> infer_convention lb base then False
      else
        (let convention = (case infer_convention lb url of Some c \<Rightarrow> c | None \<Rightarrow> Posix) in
         case (containment_path_segments lb url convention, containment_path_segments lb base convention) of
           (Some p, Some b) \<Rightarrow> native_path_segments_start_with lb p b convention
         | _ \<Rightarrow> False))"

definition lexical_depth :: "uri_lib \<Rightarrow> file_url \<Rightarrow> nat option" where
  "lexical_depth lb url =
     (if is_opaque lb url then None
      else Option.bind (infer_convention lb url) (\<lambda>c. map_option length (containment_path_segments lb url c)))"

definition overlaps :: "uri_lib \<Rightarrow> file_url \<Rightarrow> file_url \<Rightarrow> bool option" where
  "overlaps lb a b =
     (if uri_eq lb a b then Some True
      else if lexical_depth lb a = None \<or> lexical_depth lb b = None then None
      else Some (uri_starts_with lb a b \<or> uri_starts_with lb b a))"

definition uri_basename :: "uri_lib \<Rightarrow> file_url \<Rightarrow> rstr option" where
  "uri_basename lb url = (if is_opaque lb url then None else map_option (decode_uri_path lb) (last_opt (names url)))"

definition anchor_depth :: "PathConvention \<Rightarrow> nat" where
  "anchor_depth convention = (if convention = Windows then 1 else 0)"

definition uri_parent :: "uri_lib \<Rightarrow> file_url \<Rightarrow> file_url option" where
  "uri_parent lb url =
     (if is_opaque lb url then None
      else
        (case infer_convention lb url of
           None \<Rightarrow> None
         | Some convention \<Rightarrow>
             if length (names url) \<le> anchor_depth convention then None
             else Some (url\<lparr>url_segments := pop_segment (pop_if_empty (url_segments url))\<rparr>)))"

definition relative_path_from :: "uri_lib \<Rightarrow> file_url \<Rightarrow> file_url \<Rightarrow> rstr option" where
  "relative_path_from lb url base =
     (if uri_eq lb url base then Some []
      else if is_opaque lb url \<or> is_opaque lb base \<or> url_host url \<noteq> url_host base \<or>
              infer_convention lb url \<noteq> infer_convention lb base then None
      else
        (case infer_convention lb url of
           None \<Rightarrow> None
         | Some convention \<Rightarrow>
             (case (containment_path_segments lb url convention, containment_path_segments lb base convention) of
                (Some p, Some b) \<Rightarrow>
                  if \<not> native_path_segments_start_with lb p b convention then None
                  else Some (join_with (if convention = Posix then [47] else [92]) (map (decode_uri_path lb) (drop (length b) p)))
              | _ \<Rightarrow> None)))"

section \<open>Ancestors\<close>

definition weight :: "rstr list \<Rightarrow> nat" where
  "weight segments = length (concat segments) + length segments"

lemma weight_butlast: "segments \<noteq> [] \<Longrightarrow> weight (butlast segments) < weight segments"
  by (cases segments rule: rev_cases) (auto simp: weight_def)

lemma weight_short: "length segments \<le> 1 \<Longrightarrow> filter (\<lambda>s. s \<noteq> []) segments \<noteq> [] \<Longrightarrow> weight [[]] < weight segments"
  by (cases segments) (auto simp: weight_def split: if_splits)

lemma pop_smaller:
  assumes "names url \<noteq> []"
  shows "weight (pop_segment (pop_if_empty (url_segments url))) < weight (url_segments url)"
proof -
  define segments where "segments = url_segments url"
  have some: "filter (\<lambda>s. s \<noteq> []) segments \<noteq> []" using assms by (simp add: names_def segments_def)
  hence ne: "segments \<noteq> []" by auto
  have "weight (pop_segment (pop_if_empty segments)) < weight segments"
  proof (cases "1 < length segments \<and> last segments = []")
    case True
    define short where "short = butlast segments"
    have less: "weight short < weight segments" using ne by (simp add: short_def weight_butlast)
    have "filter (\<lambda>s. s \<noteq> []) short \<noteq> []"
      using some True ne by (cases segments rule: rev_cases) (auto simp: short_def)
    moreover from this have "short \<noteq> []" by auto
    ultimately have "weight (pop_segment short) < weight short"
      using weight_short [of short] weight_butlast [of short] by (cases "length short \<le> 1") (auto simp: pop_segment_def)
    thus ?thesis using True less by (simp add: pop_if_empty_def short_def)
  next
    case False
    thus ?thesis
      using weight_short [OF _ some] weight_butlast [OF ne] by (cases "length segments \<le> 1") (auto simp: pop_segment_def pop_if_empty_def)
  qed
  thus ?thesis by (simp add: segments_def)
qed

lemma uri_parent_smaller: "uri_parent lb url = Some up \<Longrightarrow> weight (url_segments up) < weight (url_segments url)"
  using pop_smaller [of url] by (cases "names url = []") (auto simp: uri_parent_def split: if_splits option.splits)

function ancestors :: "uri_lib \<Rightarrow> file_url \<Rightarrow> file_url list" where
  "ancestors lb url = url # (case uri_parent lb url of Some up \<Rightarrow> ancestors lb up | None \<Rightarrow> [])"
  by pat_completeness auto

termination
  by (relation "measure (\<lambda>(_, url). weight (url_segments url))")
    (auto dest: uri_parent_smaller)

declare ancestors.simps [simp del]

section \<open>Parsing\<close>

definition validate_common_known_uri :: "any_url \<Rightarrow> PathUriParseError + unit" where
  "validate_common_known_uri url =
     (if url_username url \<noteq> [] \<or> url_password url \<noteq> None then Err CredentialsNotAllowed
      else if url_port url \<noteq> None then Err PortNotAllowed
      else if url_query url \<noteq> None then Err QueryNotAllowed
      else if url_fragment url \<noteq> None then Err FragmentNotAllowed
      else Ok ())"

text \<open>A URL that passes the common checks is its scheme, host and path, which is what \<open>file_url\<close> keeps.\<close>

definition file_part :: "any_url \<Rightarrow> file_url" where
  "file_part url = \<lparr>url_host = url_host url, url_segments = url_segments url\<rparr>"

definition validate_file_url :: "uri_lib \<Rightarrow> any_url \<Rightarrow> PathUriParseError + unit" where
  "validate_file_url lb url =
     (case validate_common_known_uri url of
        Inl e \<Rightarrow> Err e
      | Inr _ \<Rightarrow>
          if 0 \<in> set (percent_decode lb (url_path (file_part url))) \<and> decode_bad_path_uri lb (file_part url) = None
          then Err (InvalidFileUriPath (url_as_str (file_part url))) else Ok ())"

definition without_localhost_authority :: "file_url \<Rightarrow> file_url" where
  "without_localhost_authority url = (if url_host url = Some (lit ''localhost'') then url\<lparr>url_host := None\<rparr> else url)"

definition is_ascii_uppercase :: "rchar \<Rightarrow> bool" where
  "is_ascii_uppercase c \<longleftrightarrow> 65 \<le> c \<and> c \<le> 90"

definition to_ascii_upper :: "rchar \<Rightarrow> rchar" where
  "to_ascii_upper c = (if 97 \<le> c \<and> c \<le> 122 then c - 32 else c)"

fun upper_drive :: "rstr list \<Rightarrow> rstr list" where
  "upper_drive [] = []"
| "upper_drive ([] # segments) = [] # upper_drive segments"
| "upper_drive ((c # rest) # segments) =
     (if is_windows_drive_uri_segment (c # rest) \<and> \<not> is_ascii_uppercase c then (to_ascii_upper c # rest) # segments
      else (c # rest) # segments)"

definition with_normalized_windows_drive_letter :: "file_url \<Rightarrow> file_url" where
  "with_normalized_windows_drive_letter url =
     (if url_host url \<noteq> None then url else url\<lparr>url_segments := upper_drive (url_segments url)\<rparr>)"

definition FILE_SCHEME :: rstr where
  "FILE_SCHEME = lit ''file''"

definition try_from_url :: "uri_lib \<Rightarrow> any_url \<Rightarrow> PathUriParseError + file_url" where
  "try_from_url lb url =
     (if url_scheme url \<noteq> FILE_SCHEME then Err (UnsupportedScheme (url_scheme url))
      else
        (case validate_file_url lb url of
           Inl e \<Rightarrow> Err e
         | Inr _ \<Rightarrow> Ok (with_normalized_windows_drive_letter (without_localhost_authority (file_part url)))))"

definition parse_uri :: "uri_lib \<Rightarrow> rstr \<Rightarrow> PathUriParseError + file_url" where
  "parse_uri lb uri = (case parse_url lb uri of Inl e \<Rightarrow> Err (InvalidUri e) | Inr url \<Rightarrow> try_from_url lb url)"

text \<open>A URL with the scheme \<open>file\<close> whose host and segments the code has just set.\<close>

definition file_only :: "file_url \<Rightarrow> any_url" where
  "file_only url =
     \<lparr>url_host = url_host url, url_segments = url_segments url, url_scheme = FILE_SCHEME, url_username = [],
      url_password = None, url_port = None, url_query = None, url_fragment = None\<rparr>"

section \<open>Native paths\<close>

text \<open>
  The segments of \<open>path_uri_from_segments\<close> after the dots are resolved, their number, and whether the last
  segment was empty.
\<close>

fun resolve_dots :: "nat \<Rightarrow> rstr list \<Rightarrow> nat \<Rightarrow> bool \<Rightarrow> rstr list \<Rightarrow> rstr list \<times> nat \<times> bool" where
  "resolve_dots anchor normalized depth trailing [] = (normalized, depth, trailing)"
| "resolve_dots anchor normalized depth trailing (segment # segments) =
     (if segment = [] then resolve_dots anchor normalized depth True segments
      else if segment = lit ''.'' then resolve_dots anchor normalized depth False segments
      else if segment = lit ''..'' then
        (if depth > anchor then resolve_dots anchor (butlast normalized) (depth - 1) False segments
         else resolve_dots anchor normalized depth False segments)
      else resolve_dots anchor (normalized @ [segment]) (depth + 1) False segments)"

definition ok_of :: "'e + 'a \<Rightarrow> 'a option" where
  "ok_of r = (case r of Inr x \<Rightarrow> Some x | Inl _ \<Rightarrow> None)"

definition path_uri_from_segments :: "uri_lib \<Rightarrow> PathConvention \<Rightarrow> rstr option \<Rightarrow> rstr list \<Rightarrow> file_url option" where
  "path_uri_from_segments lb convention host segments =
     (case (case host of None \<Rightarrow> Some None | Some h \<Rightarrow> map_option Some (parse_host lb h)) of
        None \<Rightarrow> None
      | Some url_host' \<Rightarrow>
          (case resolve_dots (anchor_depth convention) [] 0 False segments of
             (normalized, depth, trailing) \<Rightarrow>
               (let normalized' =
                      (if trailing \<or> convention = Windows \<and> host = None \<and> depth = anchor_depth convention then normalized @ [[]]
                       else normalized)
                in ok_of (try_from_url lb (file_only
                     \<lparr>url_host = url_host', url_segments = fold (push_segment lb) normalized' [[]]\<rparr>)))))"

definition from_opaque_path_bytes :: "uri_lib \<Rightarrow> byte list \<Rightarrow> file_url" where
  "from_opaque_path_bytes lb bytes =
     \<lparr>url_host = None, url_segments = [lit ''%00'', lit ''bad'', lit ''path'', b64_encode lb bytes]\<rparr>"

definition encode_utf16 :: "rstr \<Rightarrow> nat list" where
  "encode_utf16 s =
     concat (map (\<lambda>c. if c < 65536 then [c] else [55296 + (c - 65536) div 1024, 56320 + (c - 65536) mod 1024]) s)"

definition windows_opaque_path_uri :: "uri_lib \<Rightarrow> rstr \<Rightarrow> file_url" where
  "windows_opaque_path_uri lb path =
     from_opaque_path_bytes lb (concat (map (\<lambda>u. [u mod 256, u div 256]) (encode_utf16 path)))"

definition parse_posix_path :: "uri_lib \<Rightarrow> rstr \<Rightarrow> file_url option" where
  "parse_posix_path lb path =
     (case strip_prefix [47] path of
        None \<Rightarrow> None
      | Some rest \<Rightarrow>
          if 0 \<in> set rest then Some (from_opaque_path_bytes lb (utf8_encode (47 # rest)))
          else path_uri_from_segments lb Posix None (split_on 47 rest))"

definition is_windows_drive_absolute_path :: "rstr \<Rightarrow> bool" where
  "is_windows_drive_absolute_path path =
     (case path of
        drive # c # s # _ \<Rightarrow> is_ascii_alphabetic drive \<and> c = 58 \<and> is_separator Windows s
      | _ \<Rightarrow> False)"

definition normalize_windows_device_path :: "rstr \<Rightarrow> rstr option" where
  "normalize_windows_device_path path =
     (case strip_prefix ([92, 92, 63, 92] @ lit ''UNC'' @ [92]) path of
        Some unc \<Rightarrow> Some ([92, 92] @ unc)
      | None \<Rightarrow>
     (case strip_prefix ([92, 92, 46, 92] @ lit ''UNC'' @ [92]) path of
        Some unc \<Rightarrow> Some ([92, 92] @ unc)
      | None \<Rightarrow>
     (case Option.bind (strip_prefix [92, 92, 63, 92] path) (\<lambda>p. if is_windows_drive_absolute_path p then Some p else None) of
        Some p \<Rightarrow> Some p
      | None \<Rightarrow>
          Option.bind (strip_prefix [92, 92, 46, 92] path) (\<lambda>p. if is_windows_drive_absolute_path p then Some p else None))))"

definition is_dot_name :: "rstr \<Rightarrow> bool" where
  "is_dot_name s \<longleftrightarrow> s = lit ''.'' \<or> s = lit ''..''"

definition uses_namespace :: "rstr \<Rightarrow> bool" where
  "uses_namespace path =
     (case path of
        a # b # n # s # _ \<Rightarrow>
          is_separator Windows a \<and> is_separator Windows b \<and> is_separator Windows s \<and> (n = 46 \<or> n = 63)
      | _ \<Rightarrow> False)"

definition is_unc_path :: "rstr \<Rightarrow> bool" where
  "is_unc_path path = (case path of a # b # _ \<Rightarrow> is_separator Windows a \<and> is_separator Windows b | _ \<Rightarrow> False)"

definition parse_unc_path :: "uri_lib \<Rightarrow> rstr \<Rightarrow> file_url option" where
  "parse_unc_path lb path =
     (case path_segments Windows (drop 2 path) of
        host # share # components \<Rightarrow>
          if host = [] \<or> share = [] then None
          else if is_dot_name host \<or> is_dot_name share then Some (windows_opaque_path_uri lb path)
          else
            (case path_uri_from_segments lb Windows (Some host) (share # components) of
               Some uri \<Rightarrow>
                 (case url_host uri of
                    Some parsed \<Rightarrow> if eq_ignore_ascii_case parsed host then Some uri else Some (windows_opaque_path_uri lb path)
                  | None \<Rightarrow> Some (windows_opaque_path_uri lb path))
             | None \<Rightarrow> Some (windows_opaque_path_uri lb path))
      | _ \<Rightarrow> None)"

definition parse_unnormalized_windows_path :: "uri_lib \<Rightarrow> rstr \<Rightarrow> file_url option" where
  "parse_unnormalized_windows_path lb path =
     (if uses_namespace path \<or> 0 \<in> set path then Some (windows_opaque_path_uri lb path)
      else if is_windows_drive_absolute_path path then
        path_uri_from_segments lb Windows None (take 2 path # path_segments Windows (drop 3 path))
      else if is_unc_path path then parse_unc_path lb path
      else None)"

text \<open>The first two parts of a UNC path must be names.\<close>

definition bad_unc_anchor :: "rstr \<Rightarrow> bool" where
  "bad_unc_anchor unc =
     (case path_segments Windows unc of
        host # share # _ \<Rightarrow> host = [] \<or> is_dot_name host \<or> share = [] \<or> is_dot_name share
      | _ \<Rightarrow> True)"

definition parse_windows_path :: "uri_lib \<Rightarrow> rstr \<Rightarrow> file_url option" where
  "parse_windows_path lb path =
     (case normalize_windows_device_path path of
        Some normalized \<Rightarrow>
          if (case strip_prefix [92, 92] normalized of Some unc \<Rightarrow> bad_unc_anchor unc | None \<Rightarrow> False)
          then Some (windows_opaque_path_uri lb path)
          else
            (case parse_unnormalized_windows_path lb normalized of
               Some uri \<Rightarrow>
                 if infer_convention lb uri = Some Windows \<and> \<not> is_opaque lb uri \<and>
                    (\<not> starts_with normalized [92, 92] \<or> (url_host uri \<noteq> None \<and> url_host uri \<noteq> Some []))
                 then Some uri else Some (windows_opaque_path_uri lb path)
             | None \<Rightarrow> Some (windows_opaque_path_uri lb path))
      | None \<Rightarrow> parse_unnormalized_windows_path lb path)"

definition from_absolute_native_path :: "uri_lib \<Rightarrow> rstr \<Rightarrow> PathConvention \<Rightarrow> file_url option" where
  "from_absolute_native_path lb path convention =
     (case (case convention of Posix \<Rightarrow> parse_posix_path lb path | Windows \<Rightarrow> parse_windows_path lb path) of
        None \<Rightarrow> None
      | Some uri \<Rightarrow>
          if url_host uri \<noteq> Some [] \<and> infer_convention lb uri = Some convention then Some uri
          else Some (case convention of
                       Posix \<Rightarrow> from_opaque_path_bytes lb (utf8_encode path)
                     | Windows \<Rightarrow> windows_opaque_path_uri lb path))"

definition native :: PathConvention where
  "native = Posix"

text \<open>On a Unix host the bytes of a path are its UTF-8 text.\<close>

definition from_abs_path :: "uri_lib \<Rightarrow> path_buf \<Rightarrow> file_url" where
  "from_abs_path lb path =
     (case Option.bind (from_file_path lb (path_string path)) (\<lambda>url. ok_of (try_from_url lb url)) of
        Some uri \<Rightarrow>
          if url_host uri \<noteq> Some [] \<and> infer_convention lb uri = Some native then uri
          else from_opaque_path_bytes lb (utf8_encode (path_string path))
      | None \<Rightarrow> from_opaque_path_bytes lb (utf8_encode (path_string path)))"

definition from_host_native_path :: "uri_lib \<Rightarrow> path_buf option \<Rightarrow> rstr \<Rightarrow> file_url option" where
  "from_host_native_path lb home path = map_option (from_abs_path lb) (from_absolute_path_checked home path)"

section \<open>Joining\<close>

definition is_drive_relative :: "rstr \<Rightarrow> bool" where
  "is_drive_relative path = (case path of drive # c # _ \<Rightarrow> c = 58 \<and> is_ascii_alphabetic drive | _ \<Rightarrow> False)"

definition same_drive :: "file_url \<Rightarrow> rstr \<Rightarrow> bool" where
  "same_drive url path =
     (case names url of
        segment # _ \<Rightarrow> is_windows_drive_uri_segment segment \<and> to_ascii_lower (hd segment) = to_ascii_lower (hd path)
      | [] \<Rightarrow> False)"

definition windows_root_relative :: "rstr \<Rightarrow> bool" where
  "windows_root_relative path =
     (case path of
        c # rest \<Rightarrow> is_separator Windows c \<and> \<not> (case rest of d # _ \<Rightarrow> is_separator Windows d | [] \<Rightarrow> False)
      | [] \<Rightarrow> False)"

fun push_components :: "uri_lib \<Rightarrow> nat \<Rightarrow> nat \<Rightarrow> rstr list \<Rightarrow> rstr list \<Rightarrow> rstr list" where
  "push_components lb anchor depth segments [] = segments"
| "push_components lb anchor depth segments (component # components) =
     (if component = [] \<or> component = lit ''.'' then push_components lb anchor depth segments components
      else if component = lit ''..'' then
        (if depth > anchor then push_components lb anchor (depth - 1) (pop_segment segments) components
         else push_components lb anchor depth segments components)
      else push_components lb anchor (depth + 1) (push_segment lb component segments) components)"

definition join_components :: "uri_lib \<Rightarrow> file_url \<Rightarrow> PathConvention \<Rightarrow> rstr \<Rightarrow> PathUriParseError + file_url" where
  "join_components lb url convention path =
     (if is_opaque lb url then Err (InvalidFileUriPath (url_as_str url))
      else
        (let anchor = anchor_depth convention;
             depth = length (names url);
             segments = pop_if_empty (url_segments url);
             to_root = convention = Windows \<and> windows_root_relative path;
             segments' = (if to_root then (pop_segment ^^ (depth - anchor)) segments else segments);
             depth' = (if to_root then min depth anchor else depth);
             components = (case convention of Posix \<Rightarrow> split_on 47 path | Windows \<Rightarrow> path_segments Windows path)
         in try_from_url lb (file_only (url\<lparr>url_segments := push_components lb anchor depth' segments' components\<rparr>))))"

definition join_uri :: "uri_lib \<Rightarrow> file_url \<Rightarrow> rstr \<Rightarrow> PathUriParseError + file_url" where
  "join_uri lb url path =
     (if 0 \<in> set path then Err (InvalidFileUriPath path)
      else if path = [] then Ok url
      else
        (case infer_convention lb url of
           None \<Rightarrow> Err (InvalidFileUriPath (url_as_str url))
         | Some convention \<Rightarrow>
             (case from_absolute_native_path lb path convention of
                Some absolute \<Rightarrow> Ok absolute
              | None \<Rightarrow>
                  if convention = Windows \<and> is_drive_relative path then
                    (if same_drive url path then join_components lb url convention (drop 2 path)
                     else Err (InvalidFileUriPath path))
                  else join_components lb url convention path)))"

definition join_descendant :: "uri_lib \<Rightarrow> file_url \<Rightarrow> rstr \<Rightarrow> PathUriParseError + file_url" where
  "join_descendant lb url path =
     (case join_uri lb url path of
        Inl e \<Rightarrow> Err e
      | Inr descendant \<Rightarrow>
          if starts_with path [47] \<or>
             infer_convention lb url = Some Windows \<and>
               (starts_with path [92] \<or> list_ex (\<lambda>segment. 58 \<in> set segment) (path_segments Windows path)) \<or>
             \<not> uri_starts_with lb descendant url
          then Err (JoinPathMustBeDescendant path) else Ok descendant)"

section \<open>Containment of POSIX paths\<close>

text \<open>
  A POSIX path with unambiguous components is its list of decoded components, and containment is the
  prefix order on them.
\<close>

definition components :: "uri_lib \<Rightarrow> file_url \<Rightarrow> byte list list" where
  "components lb url = map (percent_decode lb) (names url)"

definition posix_lexical :: "uri_lib \<Rightarrow> file_url \<Rightarrow> bool" where
  "posix_lexical lb url \<longleftrightarrow> infer_convention lb url = Some Posix \<and> lexical_depth lb url \<noteq> None"

lemma posix_lexical_iff:
  "posix_lexical lb url \<longleftrightarrow>
     \<not> is_opaque lb url \<and> url_host url = None \<and> \<not> list_ex (encoded_separator lb Posix) (names url) \<and>
     (names url \<noteq> [] \<longrightarrow> \<not> is_windows_drive_uri_segment (hd (names url)))"
  by (auto simp: posix_lexical_def lexical_depth_def infer_convention_def is_opaque_def containment_path_segments_def
      split: option.splits list.splits if_splits)

lemma lexical_depth_posix: "posix_lexical lb url \<Longrightarrow> lexical_depth lb url = Some (length (components lb url))"
  by (auto simp: posix_lexical_def lexical_depth_def containment_path_segments_def components_def split: if_splits)

lemma uri_eq_posix: "infer_convention lb a = Some Posix \<Longrightarrow> uri_eq lb a b \<longleftrightarrow> a = b"
  by (simp add: uri_eq_def windows_identity_path_bytes_def)

lemma all_same_iff_prefix:
  "length b \<le> length a \<Longrightarrow> list_all (\<lambda>(x, y). f x = f y) (zip a b) \<longleftrightarrow> prefix (map f b) (map f a)"
  by (induction a b rule: list_induct2') auto

lemma start_with_posix:
  "native_path_segments_start_with lb a b Posix \<longleftrightarrow> prefix (map (percent_decode lb) b) (map (percent_decode lb) a)"
  using all_same_iff_prefix [of b a "percent_decode lb"] prefix_length_le [of "map (percent_decode lb) b" "map (percent_decode lb) a"]
  by (auto simp: native_path_segments_start_with_def same_segment_def)

lemma posix_lexicalD:
  assumes "posix_lexical lb url"
  shows "infer_convention lb url = Some Posix" and "\<not> is_opaque lb url" and "url_host url = None"
    and "containment_path_segments lb url Posix = Some (names url)"
  using assms posix_lexical_iff [of lb url] by (auto simp: posix_lexical_def containment_path_segments_def)

lemma starts_with_posix:
  assumes "posix_lexical lb a" and "posix_lexical lb b"
  shows "uri_starts_with lb a b \<longleftrightarrow> prefix (components lb b) (components lb a)"
  using uri_eq_posix [of lb a b]
  by (simp add: uri_starts_with_def posix_lexicalD [OF assms(1)] posix_lexicalD [OF assms(2)] start_with_posix components_def)

lemma starts_with_posix_base:
  assumes "posix_lexical lb a" and "uri_starts_with lb a b"
  shows "posix_lexical lb b"
  using assms uri_eq_posix [of lb a b]
  by (auto simp: uri_starts_with_def posix_lexical_def lexical_depth_def Let_def split: if_splits option.splits)

section \<open>What the crates promise\<close>

definition plain_name :: "rstr \<Rightarrow> bool" where
  "plain_name s \<longleftrightarrow>
     s \<noteq> lit ''.'' \<and> s \<noteq> lit ''..'' \<and>
     list_all (\<lambda>c. is_ascii_alphabetic c \<or> is_ascii_digit c \<or> c = 45 \<or> c = 46 \<or> c = 95) s"

text \<open>
  Percent decoding works byte by byte between the percent signs and an escape has no slash; a pushed segment
  that needs no escape is appended as it is, to the root as its only segment.
\<close>

definition uri_laws :: "uri_lib \<Rightarrow> bool" where
  "uri_laws lb \<longleftrightarrow>
     (\<forall>a b. percent_decode lb (a @ 47 # b) = percent_decode lb a @ 47 # percent_decode lb b) \<and>
     (\<forall>s. 37 \<notin> set s \<longrightarrow> percent_decode lb s = utf8_encode s) \<and>
     percent_decode lb (lit ''%00'') = [0] \<and>
     (\<forall>s segments. plain_name s \<longrightarrow> push_segment lb s segments = (if segments = [[]] then [s] else segments @ [s]))"

definition nul_free :: "uri_lib \<Rightarrow> file_url \<Rightarrow> bool" where
  "nul_free lb url \<longleftrightarrow> 0 \<notin> set (percent_decode lb (url_path url))"

lemma decode_slash: "uri_laws lb \<Longrightarrow> percent_decode lb (a @ 47 # b) = percent_decode lb a @ 47 # percent_decode lb b"
  by (simp add: uri_laws_def)

lemma decode_nil: "uri_laws lb \<Longrightarrow> percent_decode lb [] = []"
  by (simp add: uri_laws_def utf8_encode_def)

lemma plain_ascii: "plain_name s \<Longrightarrow> c \<in> set s \<Longrightarrow> 45 \<le> c \<and> c \<noteq> 47 \<and> c \<noteq> 58 \<and> c < 128"
  by (auto simp: plain_name_def list_all_iff is_ascii_alphabetic_def is_ascii_digit_def)

lemma utf8_encode_ascii: "(\<And>c. c \<in> set s \<Longrightarrow> c < 128) \<Longrightarrow> utf8_encode s = s"
  by (induction s) (auto simp: utf8_encode_def utf8_encode_char_def)

lemma decode_plain: "uri_laws lb \<Longrightarrow> plain_name s \<Longrightarrow> percent_decode lb s = s"
  using plain_ascii [of s] utf8_encode_ascii [of s] by (fastforce simp: uri_laws_def)

lemma push_plain: "uri_laws lb \<Longrightarrow> plain_name s \<Longrightarrow> push_segment lb s segments = (if segments = [[]] then [s] else segments @ [s])"
  by (simp add: uri_laws_def)

lemma nul_free_not_opaque:
  assumes laws: "uri_laws lb" and free: "nul_free lb url" and host: "url_host url = None"
  shows "\<not> is_opaque lb url"
proof
  assume "is_opaque lb url"
  then obtain enc where enc: "url_as_str url = BAD_PATH_URI_PREFIX @ enc"
    by (auto simp: is_opaque_def decode_bad_path_uri_def strip_prefix_Some split: option.splits)
  have "url_path url = [] @ 47 # (lit ''%00'' @ 47 # (lit ''bad/path/'' @ enc))"
    using enc host by (simp add: url_as_str_def BAD_PATH_URI_PREFIX_def lit_def)
  hence "0 \<in> set (percent_decode lb (url_path url))"
    using laws by (simp add: decode_slash del: append_Nil) (simp add: uri_laws_def)
  with free show False by (simp add: nul_free_def)
qed

section \<open>Joining a name\<close>

lemma names_append [simp]:
  "names (url\<lparr>url_segments := xs @ ys\<rparr>) = names (url\<lparr>url_segments := xs\<rparr>) @ names (url\<lparr>url_segments := ys\<rparr>)"
  by (simp add: names_def)

lemma names_pop_if_empty [simp]: "names (url\<lparr>url_segments := pop_if_empty (url_segments url)\<rparr>) = names url"
  by (cases "url_segments url" rule: rev_cases) (auto simp: names_def pop_if_empty_def)

lemma join_with_last: "xs \<noteq> [] \<Longrightarrow> join_with sep (xs @ [x]) = join_with sep xs @ sep @ x"
  by (induction sep xs rule: join_with.induct) auto

lemma url_path_snoc:
  "segments \<noteq> [] \<Longrightarrow> url_path (url\<lparr>url_segments := segments @ [s]\<rparr>) = url_path (url\<lparr>url_segments := segments\<rparr>) @ 47 # s"
  by (simp add: url_path_def join_with_last)

lemma nul_free_snoc:
  assumes "uri_laws lb" and "segments \<noteq> []"
  shows "nul_free lb (url\<lparr>url_segments := segments @ [s]\<rparr>) \<longleftrightarrow>
         nul_free lb (url\<lparr>url_segments := segments\<rparr>) \<and> 0 \<notin> set (percent_decode lb s)"
  by (simp add: nul_free_def url_path_snoc [OF assms(2)] decode_slash [OF assms(1)])

lemma nul_free_pop_if_empty:
  assumes "uri_laws lb" and "nul_free lb url"
  shows "nul_free lb (url\<lparr>url_segments := pop_if_empty (url_segments url)\<rparr>)"
proof (cases "1 < length (url_segments url) \<and> last (url_segments url) = []")
  case True
  then obtain xs where xs: "url_segments url = xs @ [[]]" "xs \<noteq> []" by (cases "url_segments url" rule: rev_cases) auto
  have "nul_free lb (url\<lparr>url_segments := xs @ [[]]\<rparr>)" using assms(2) xs(1) by (simp add: nul_free_def url_path_def)
  thus ?thesis using nul_free_snoc [OF assms(1) xs(2)] xs by (simp add: pop_if_empty_def)
next
  case False
  thus ?thesis using assms(2) by (auto simp: pop_if_empty_def)
qed

lemma upper_drive_same:
  "(filter (\<lambda>s. s \<noteq> []) segments \<noteq> [] \<longrightarrow> \<not> is_windows_drive_uri_segment (hd (filter (\<lambda>s. s \<noteq> []) segments))) \<Longrightarrow>
   upper_drive segments = segments"
  by (induction segments rule: upper_drive.induct) auto

lemma try_from_posix:
  assumes laws: "uri_laws lb" and host: "url_host url = None" and free: "nul_free lb url"
    and drive: "names url \<noteq> [] \<Longrightarrow> \<not> is_windows_drive_uri_segment (hd (names url))"
  shows "try_from_url lb (file_only url) = Ok url"
proof -
  have "file_part (file_only url) = url" by (simp add: file_part_def file_only_def)
  moreover have "upper_drive (url_segments url) = url_segments url"
    using drive by (intro upper_drive_same) (auto simp: names_def)
  ultimately show ?thesis
    using host free by (simp add: try_from_url_def validate_file_url_def validate_common_known_uri_def nul_free_def
        without_localhost_authority_def with_normalized_windows_drive_letter_def file_only_def)
qed

lemma plain_not_drive: "plain_name s \<Longrightarrow> \<not> is_windows_drive_uri_segment s"
  using plain_ascii [of s 37] plain_ascii [of s 58]
  by (auto simp: is_windows_drive_uri_segment_def split: list.splits)

lemma plain_no_separator: "uri_laws lb \<Longrightarrow> plain_name s \<Longrightarrow> \<not> encoded_separator lb Posix s"
  using plain_ascii [of s] by (auto simp: encoded_separator_def decode_plain list_ex_iff)

lemma posix_lexical_snoc:
  assumes laws: "uri_laws lb" and name: "plain_name s" "s \<noteq> []" and host: "url_host url = None"
    and free: "nul_free lb url" and lexical: "posix_lexical lb base" and names: "names url = names base @ [s]"
  shows "posix_lexical lb url" and "components lb url = components lb base @ [s]"
proof -
  have "\<not> is_opaque lb url" by (rule nul_free_not_opaque [OF laws free host])
  thus "posix_lexical lb url"
    using lexical plain_no_separator [OF laws name(1)] plain_not_drive [OF name(1)] host
    by (cases "names base") (auto simp: posix_lexical_iff names)
  show "components lb url = components lb base @ [s]"
    by (simp add: components_def names decode_plain [OF laws name(1)])
qed

lemma no_absolute_posix: "\<not> starts_with path [47] \<Longrightarrow> from_absolute_native_path lb path Posix = None"
proof -
  assume "\<not> starts_with path [47]"
  hence "strip_prefix [47] path = None" by (simp add: strip_prefix_None starts_with_def)
  thus ?thesis by (simp add: from_absolute_native_path_def parse_posix_path_def)
qed

lemma split_on_none: "c \<notin> set s \<Longrightarrow> split_on c s = [s]"
  by (induction s) auto

lemma join_name:
  assumes laws: "uri_laws lb" and name: "plain_name s" "s \<noteq> []" and base: "posix_lexical lb base" "nul_free lb base"
    and segments: "url_segments base \<noteq> []"
  shows "\<exists>url. join_uri lb base s = Ok url \<and> posix_lexical lb url \<and> nul_free lb url \<and> components lb url = components lb base @ [s]"
proof -
  have chars: "47 \<notin> set s" "0 \<notin> set s" "58 \<notin> set s" using plain_ascii [OF name(1)] by fastforce+
  define segs where "segs = pop_if_empty (url_segments base)"
  define url where "url = base\<lparr>url_segments := (if segs = [[]] then [s] else segs @ [s])\<rparr>"
  have ne: "segs \<noteq> []" using segments by (cases "url_segments base" rule: rev_cases) (auto simp: segs_def pop_if_empty_def)
  have free_segs: "nul_free lb (base\<lparr>url_segments := segs\<rparr>)" using nul_free_pop_if_empty [OF laws base(2)] by (simp add: segs_def)
  have names: "names url = names base @ [s]"
    using name(2) names_pop_if_empty [of base] by (auto simp: url_def segs_def [symmetric] names_def)
  have host: "url_host url = None" using posix_lexicalD(3) [OF base(1)] by (simp add: url_def)
  have zero: "0 \<notin> set (percent_decode lb s)" using chars(2) by (simp add: decode_plain [OF laws name(1)])
  have free: "nul_free lb url"
  proof (cases "segs = [[]]")
    case True
    have "url_path url = [] @ 47 # s" using True by (simp add: url_def url_path_def)
    thus ?thesis using zero by (simp add: nul_free_def decode_slash [OF laws] decode_nil [OF laws] del: append_Nil)
  next
    case False
    thus ?thesis using nul_free_snoc [OF laws ne] free_segs zero by (simp add: url_def)
  qed
  have lexical: "posix_lexical lb url" "components lb url = components lb base @ [s]"
    using posix_lexical_snoc [OF laws name host free base(1) names] by auto
  have dots: "s \<noteq> lit ''.''" "s \<noteq> lit ''..''" using name(1) by (auto simp: plain_name_def)
  have abs: "\<not> starts_with s [47]" using chars(1) name(2) by (cases s) (auto simp: starts_with_def)
  have "try_from_url lb (file_only url) = Ok url"
    using lexical(1) by (intro try_from_posix [OF laws host free]) (auto simp: posix_lexical_iff)
  moreover have "join_components lb base Posix s = try_from_url lb (file_only url)"
    using chars(1) posix_lexicalD(2) [OF base(1)] name dots
    by (simp add: join_components_def split_on_none anchor_depth_def segs_def [symmetric] Let_def push_plain [OF laws] url_def)
  ultimately have "join_components lb base Posix s = Ok url" by simp
  hence "join_uri lb base s = Ok url"
    using chars(2) name(2) posix_lexicalD(1) [OF base(1)] by (simp add: join_uri_def no_absolute_posix [OF abs])
  thus ?thesis using lexical free by blast
qed

lemma join_descendant_name:
  assumes "uri_laws lb" and "plain_name s" "s \<noteq> []" and "posix_lexical lb base" "nul_free lb base" and "url_segments base \<noteq> []"
  obtains url where "join_descendant lb base s = Ok url" "posix_lexical lb url" "nul_free lb url"
    "components lb url = components lb base @ [s]"
proof -
  obtain url where url: "join_uri lb base s = Ok url" "posix_lexical lb url" "nul_free lb url" "components lb url = components lb base @ [s]"
    using join_name [OF assms] by blast
  have "\<not> starts_with s [47]" using plain_ascii [OF assms(2)] assms(3) by (cases s) (auto simp: starts_with_def)
  moreover have "uri_starts_with lb url base" using url by (simp add: starts_with_posix assms(4))
  ultimately have "join_descendant lb base s = Ok url"
    using url(1) posix_lexicalD(1) [OF assms(4)] by (simp add: join_descendant_def)
  thus ?thesis using that url by blast
qed

section \<open>The root of a POSIX path\<close>

lemma names_butlast: "prefix (filter P (butlast xs)) (filter P xs)"
  by (cases xs rule: rev_cases) auto

lemma nul_free_butlast:
  assumes "uri_laws lb" and "nul_free lb (url\<lparr>url_segments := xs\<rparr>)" and "1 < length xs"
  shows "nul_free lb (url\<lparr>url_segments := butlast xs\<rparr>)"
proof -
  obtain ys y where "xs = ys @ [y]" "ys \<noteq> []" using assms(3) by (cases xs rule: rev_cases) auto
  thus ?thesis using assms(2) nul_free_snoc [OF assms(1)] by auto
qed

lemma nul_free_root: "uri_laws lb \<Longrightarrow> nul_free lb (url\<lparr>url_segments := [[]]\<rparr>)"
  using decode_slash [of lb "[]" "[]"] by (simp add: nul_free_def url_path_def decode_nil)

lemma posix_parent:
  assumes laws: "uri_laws lb" and url: "posix_lexical lb url" "nul_free lb url" and up: "uri_parent lb url = Some up"
  shows "posix_lexical lb up" and "nul_free lb up"
proof -
  define segs where "segs = pop_if_empty (url_segments url)"
  have up_def: "up = url\<lparr>url_segments := pop_segment segs\<rparr>"
    using up by (auto simp: uri_parent_def segs_def split: if_splits option.splits)
  have free_segs: "nul_free lb (url\<lparr>url_segments := segs\<rparr>)" using nul_free_pop_if_empty [OF laws url(2)] by (simp add: segs_def)
  show free: "nul_free lb up"
    using nul_free_root [OF laws] nul_free_butlast [OF laws free_segs] by (simp add: up_def pop_segment_def)
  have host: "url_host up = None" using posix_lexicalD(3) [OF url(1)] by (simp add: up_def)
  have "names (url\<lparr>url_segments := segs\<rparr>) = names url" by (simp add: segs_def)
  hence "prefix (names up) (names url)"
    using names_butlast [of "\<lambda>s. s \<noteq> []" segs] by (auto simp: up_def names_def pop_segment_def)
  then obtain rest where rest: "names url = names up @ rest" by (auto elim: prefixE)
  show "posix_lexical lb up"
    using url(1) nul_free_not_opaque [OF laws free host] host rest
    by (cases "names up") (auto simp: posix_lexical_iff)
qed

lemma posix_root:
  "uri_laws lb \<Longrightarrow> posix_lexical lb url \<Longrightarrow> nul_free lb url \<Longrightarrow>
   posix_lexical lb (last (ancestors lb url)) \<and> components lb (last (ancestors lb url)) = []"
proof (induction lb url rule: ancestors.induct)
  case (1 lb url)
  show ?case
  proof (cases "uri_parent lb url")
    case None
    hence "names url = []" using posix_lexicalD [OF 1(3)] by (auto simp: uri_parent_def anchor_depth_def split: if_splits)
    moreover have "ancestors lb url = [url]" using None by (simp add: ancestors.simps)
    ultimately show ?thesis using 1(3) by (simp add: components_def)
  next
    case (Some up)
    have "ancestors lb up \<noteq> []" by (subst ancestors.simps) simp
    moreover have "ancestors lb url = url # ancestors lb up" using Some by (subst ancestors.simps) simp
    ultimately have "last (ancestors lb url) = last (ancestors lb up)" by simp
    thus ?thesis using 1(1) [OF Some 1(2) posix_parent [OF 1(2-4) Some]] by simp
  qed
qed

lemma join_slash_tmp:
  assumes laws: "uri_laws lb" and base: "posix_lexical lb base"
  shows "\<exists>url. join_uri lb base (lit ''/tmp'') = Ok url \<and> posix_lexical lb url \<and> components lb url = [lit ''tmp'']"
proof -
  define url where "url = \<lparr>url_host = None, url_segments = [lit ''tmp'']\<rparr>"
  have name: "plain_name (lit ''tmp'')" by (simp add: plain_name_def lit_def is_ascii_alphabetic_def)
  have names: "names url = [lit ''tmp'']" by (simp add: url_def names_def lit_def)
  have "url_path url = [] @ 47 # lit ''tmp''" by (simp add: url_def url_path_def)
  hence free: "nul_free lb url"
    using plain_ascii [OF name, of 0] by (auto simp: nul_free_def decode_slash [OF laws] decode_nil [OF laws] decode_plain [OF laws name] simp del: append_Nil)
  have host: "url_host url = None" by (simp add: url_def)
  have lexical: "posix_lexical lb url"
    using nul_free_not_opaque [OF laws free host] plain_no_separator [OF laws name] plain_not_drive [OF name]
    by (simp add: posix_lexical_iff names host)
  have "try_from_url lb (file_only url) = Ok url"
    using plain_not_drive [OF name] by (intro try_from_posix [OF laws host free]) (simp add: names)
  hence "parse_posix_path lb (lit ''/tmp'') = Some url"
    using push_plain [OF laws name, of "[[]]"]
    by (simp add: parse_posix_path_def path_uri_from_segments_def lit_def url_def ok_of_def anchor_depth_def)
  hence "join_uri lb base (lit ''/tmp'') = Ok url"
    using posix_lexicalD(1) [OF base] posix_lexicalD(1) [OF lexical] host
    by (simp add: join_uri_def from_absolute_native_path_def lit_def)
  thus ?thesis using lexical names by (auto simp: components_def decode_plain [OF laws name])
qed

section \<open>The containment interface\<close>

text \<open>
  What the permission rules need of paths: being below is reflexive and transitive, goes up in depth, and the
  paths above one path are in a line ordered by depth.
\<close>

locale containment =
  fixes lexical :: "'p \<Rightarrow> bool" and below :: "'p \<Rightarrow> 'p \<Rightarrow> bool" and depth :: "'p \<Rightarrow> nat"
  assumes below_refl: "lexical p \<Longrightarrow> below p p"
    and below_trans: "lexical p \<Longrightarrow> below p a \<Longrightarrow> below a b \<Longrightarrow> below p b"
    and below_lexical: "lexical p \<Longrightarrow> below p a \<Longrightarrow> lexical a"
    and below_depth: "lexical p \<Longrightarrow> below p a \<Longrightarrow> depth a \<le> depth p"
    and below_line: "lexical p \<Longrightarrow> below p a \<Longrightarrow> below p b \<Longrightarrow> depth b \<le> depth a \<Longrightarrow> below a b"
begin

lemma line_iff: "lexical p \<Longrightarrow> below p a \<Longrightarrow> below p b \<Longrightarrow> below a b \<longleftrightarrow> depth b \<le> depth a"
  using below_line below_depth below_lexical by blast

lemma deepest_governs:
  fixes entries :: "('p \<times> 'm::linorder) list"
  assumes path: "lexical path" and chosen: "(r, a) \<in> set entries" "below path r"
    and largest: "\<And>q b. (q, b) \<in> set entries \<Longrightarrow> below path q \<Longrightarrow> depth q < depth r \<or> depth q = depth r \<and> b \<le> a"
    and other: "(q, b) \<in> set entries" "below path q"
  shows "below r q" and "below q r \<Longrightarrow> b \<le> a"
proof -
  from largest [OF other] show "below r q" using line_iff [OF path chosen(2) other(2)] by auto
  assume "below q r"
  hence "depth r \<le> depth q" using line_iff [OF path other(2) chosen(2)] by simp
  with largest [OF other] show "b \<le> a" by auto
qed

end

interpretation posix: containment "posix_lexical lb" "uri_starts_with lb" "\<lambda>url. length (components lb url)" for lb
proof
  fix p a b
  assume p: "posix_lexical lb p"
  show "uri_starts_with lb p p" using p by (simp add: starts_with_posix)
  assume pa: "uri_starts_with lb p a"
  show a: "posix_lexical lb a" by (rule starts_with_posix_base [OF p pa])
  have pre: "prefix (components lb a) (components lb p)" using pa p a by (simp add: starts_with_posix)
  show "length (components lb a) \<le> length (components lb p)" by (rule prefix_length_le [OF pre])
  {
    assume ab: "uri_starts_with lb a b"
    note b = starts_with_posix_base [OF a ab]
    have "prefix (components lb b) (components lb a)" using ab a b by (simp add: starts_with_posix)
    thus "uri_starts_with lb p b" using pre p b by (simp add: starts_with_posix)
  }
  assume pb: "uri_starts_with lb p b" and deep: "length (components lb b) \<le> length (components lb a)"
  note b = starts_with_posix_base [OF p pb]
  have "prefix (components lb b) (components lb p)" using pb p b by (simp add: starts_with_posix)
  hence "prefix (components lb b) (components lb a)" using pre deep prefix_length_prefix by blast
  thus "uri_starts_with lb a b" using a b by (simp add: starts_with_posix)
qed

section \<open>Names in a base name\<close>

lemma utf8_step_ascii: "utf8_step bs = Utf8Char c n \<Longrightarrow> c < 128 \<Longrightarrow> n = 1 \<and> bs = c # drop 1 bs"
  by (auto simp: utf8_step_def lead_byte_def split: list.splits option.splits if_splits)

lemma utf8_decode_ascii:
  "utf8_decode bs = (cs, m, Done) \<Longrightarrow> (\<And>c. c \<in> set cs \<Longrightarrow> c < 128) \<Longrightarrow> bs = cs"
proof (induction bs arbitrary: cs m rule: utf8_decode.induct)
  case (1 bs)
  show ?case
  proof (cases "bs = []")
    case True
    thus ?thesis using 1(2) by (simp add: utf8_decode.simps)
  next
    case False
    then obtain c n cs' m' where step: "utf8_step bs = Utf8Char c n" "utf8_decode (drop n bs) = (cs', m', Done)" "cs = c # cs'"
      using 1(2) by (subst (asm) utf8_decode.simps) (auto split: utf8_step_result.splits prod.splits)
    have "n = 1" "bs = c # drop 1 bs" using utf8_step_ascii [OF step(1)] 1(3) step(3) by auto
    moreover have "drop n bs = cs'" using 1(1) [OF False step(1,2)] 1(3) step(3) by auto
    ultimately show ?thesis using step(3) by simp
  qed
qed

lemma basename_plain:
  assumes laws: "uri_laws lb" and base: "uri_basename lb url = Some s" and name: "plain_name s"
  shows "components lb url \<noteq> []" and "last (components lb url) = s"
proof -
  obtain n where n: "names url \<noteq> []" "n = last (names url)" "decode_uri_path lb n = s"
    using base by (auto simp: uri_basename_def last_opt_def split: if_splits)
  have ascii: "c < 128" if "c \<in> set s" for c using plain_ascii [OF name that] by simp
  have "percent_decode lb n = s"
  proof (cases "from_utf8 (percent_decode lb n)")
    case (Inl e)
    hence "n = s" using n(3) by (simp add: decode_uri_path_def)
    thus ?thesis by (simp add: decode_plain [OF laws name])
  next
    case (Inr t)
    hence "t = s" using n(3) by (simp add: decode_uri_path_def)
    with Inr obtain m where "utf8_decode (percent_decode lb n) = (s, m, Done)"
      by (auto simp: from_utf8_def split: prod.splits utf8_status.splits)
    thus ?thesis using utf8_decode_ascii ascii by blast
  qed
  thus "last (components lb url) = s" "components lb url \<noteq> []" using n by (auto simp: components_def last_map)
qed

end
