(* ===== verification/Invocation.thy ===== *)
theory Invocation
  imports Apply_Patch Path_Uri
begin

text \<open>
  \<open>apply-patch/src/invocation.rs\<close>: recognizing a call of \<open>apply_patch\<close> in a command, and verifying it
  against the files before anybody is asked to approve it.

  The \<open>tree-sitter\<close> parser with the query of the file, the convention of a \<open>PathUri\<close> and the diff
  printer of \<open>similar\<close> are in the record \<open>invocation_env\<close>. A match of the query is its list of captures,
  each with the name and the text of the node, or the error of its decoding.
\<close>

section \<open>Shells\<close>

definition APPLY_PATCH_COMMANDS :: "rstr list" where
  "APPLY_PATCH_COMMANDS = [lit ''apply_patch'', lit ''applypatch'']"

datatype ApplyPatchShell = UnixShell | PowerShellShell | CmdShell

datatype ExtractHeredocError =
    CommandDidNotStartWithApplyPatch
  | FailedToLoadBashGrammar rstr
  | HeredocNotUtf8 rstr
  | FailedToParsePatchIntoAst
  | FailedToFindHeredocBody

datatype MaybeApplyPatch =
    PatchBody apply_patch_args
  | PatchShellParseError ExtractHeredocError
  | PatchParseError ParseError
  | PatchNotApplyPatch

record ('t, 'p) invocation_env =
  load_grammar :: "rstr + unit"
  parse_bash :: "rstr \<Rightarrow> 't option"
  query_matches :: "'t \<Rightarrow> rstr \<Rightarrow> (rstr \<times> (rstr + rstr)) list list"
  infer_path_convention :: "'p \<Rightarrow> PathConvention option"
  text_diff :: "nat \<Rightarrow> rstr \<Rightarrow> rstr \<Rightarrow> rstr"

text \<open>The last item of \<open>path_segments\<close>, which always exists.\<close>

definition last_segment :: "PathConvention \<Rightarrow> rstr \<Rightarrow> rstr" where
  "last_segment convention path = rev (takeWhile (\<lambda>c. \<not> is_separator convention c) (rev path))"

definition classify_shell_name :: "rstr \<Rightarrow> PathConvention \<Rightarrow> rstr option" where
  "classify_shell_name shell convention =
     (let basename = last_segment convention shell;
          stem = (case rsplit_once 46 basename of
              Some (stem, extension) \<Rightarrow> if stem = [] then basename else stem
            | None \<Rightarrow> basename)
      in Some (to_ascii_lowercase stem))"

definition classify_shell :: "rstr \<Rightarrow> rstr \<Rightarrow> PathConvention \<Rightarrow> ApplyPatchShell option" where
  "classify_shell shell flag convention =
     Option.bind (classify_shell_name shell convention)
       (\<lambda>name.
          if (name = lit ''bash'' \<or> name = lit ''zsh'' \<or> name = lit ''sh'') \<and> (flag = lit ''-lc'' \<or> flag = lit ''-c'')
          then Some UnixShell
          else if (name = lit ''pwsh'' \<or> name = lit ''powershell'') \<and> eq_ignore_ascii_case flag (lit ''-command'')
          then Some PowerShellShell
          else if name = lit ''cmd'' \<and> eq_ignore_ascii_case flag (lit ''/c'') then Some CmdShell
          else None)"

definition can_skip_flag :: "rstr \<Rightarrow> rstr \<Rightarrow> PathConvention \<Rightarrow> bool" where
  "can_skip_flag shell flag convention =
     (case classify_shell_name shell convention of
        None \<Rightarrow> False
      | Some name \<Rightarrow> (name = lit ''pwsh'' \<or> name = lit ''powershell'') \<and> eq_ignore_ascii_case flag (lit ''-noprofile''))"

fun shell_script_of :: "PathConvention \<Rightarrow> rstr list \<Rightarrow> (ApplyPatchShell \<times> rstr) option" where
  "shell_script_of convention [shell, flag, script] =
     map_option (\<lambda>shell_type. (shell_type, script)) (classify_shell shell flag convention)"
| "shell_script_of convention [shell, skip_flag, flag, script] =
     (if \<not> can_skip_flag shell skip_flag convention then None
      else map_option (\<lambda>shell_type. (shell_type, script)) (classify_shell shell flag convention))"
| "shell_script_of convention argv = None"

definition parse_shell_script :: "('t, 'p) invocation_env \<Rightarrow> rstr list \<Rightarrow> 'p \<Rightarrow> (ApplyPatchShell \<times> rstr) option" where
  "parse_shell_script env argv cwd =
     Option.bind (infer_path_convention env cwd) (\<lambda>convention. shell_script_of convention argv)"

section \<open>Scripts\<close>

text \<open>The captures of one match: the body of the heredoc and the directory of a leading \<open>cd\<close>.\<close>

fun read_captures :: "(rstr \<times> (rstr + rstr)) list \<Rightarrow> rstr option \<times> rstr option \<Rightarrow>
    ExtractHeredocError + (rstr option \<times> rstr option)" where
  "read_captures [] found = Ok found"
| "read_captures ((name, content) # captures) (heredoc_text, cd_path) =
     (if name = lit ''heredoc'' then
        (case content of
           Inl e \<Rightarrow> Err (HeredocNotUtf8 e)
         | Inr t \<Rightarrow> read_captures captures (Some (trim_end_matches chr_nl t), cd_path))
      else if name = lit ''cd_path'' then
        (case content of
           Inl e \<Rightarrow> Err (HeredocNotUtf8 e)
         | Inr t \<Rightarrow> read_captures captures (heredoc_text, Some t))
      else if name = lit ''cd_raw_string'' then
        (case content of
           Inl e \<Rightarrow> Err (HeredocNotUtf8 e)
         | Inr raw \<Rightarrow>
             (let trimmed = (case Option.bind (strip_prefix [39] raw) (strip_suffix [39]) of Some t \<Rightarrow> t | None \<Rightarrow> raw) in
              read_captures captures (heredoc_text, Some trimmed)))
      else read_captures captures (heredoc_text, cd_path))"

fun first_heredoc :: "(rstr \<times> (rstr + rstr)) list list \<Rightarrow> ExtractHeredocError + (rstr \<times> rstr option)" where
  "first_heredoc [] = Err CommandDidNotStartWithApplyPatch"
| "first_heredoc (m # matches) =
     (case read_captures m (None, None) of
        Inl e \<Rightarrow> Err e
      | Inr (Some heredoc, cd_path) \<Rightarrow> Ok (heredoc, cd_path)
      | Inr (None, _) \<Rightarrow> first_heredoc matches)"

definition extract_apply_patch_from_bash :: "('t, 'p) invocation_env \<Rightarrow> rstr \<Rightarrow> ExtractHeredocError + (rstr \<times> rstr option)" where
  "extract_apply_patch_from_bash env src =
     (case load_grammar env of
        Inl e \<Rightarrow> Err (FailedToLoadBashGrammar e)
      | Inr _ \<Rightarrow>
          (case parse_bash env src of
             None \<Rightarrow> Err FailedToParsePatchIntoAst
           | Some tree \<Rightarrow> first_heredoc (query_matches env tree src)))"

definition extract_apply_patch_from_shell :: "('t, 'p) invocation_env \<Rightarrow> ApplyPatchShell \<Rightarrow> rstr \<Rightarrow>
    ExtractHeredocError + (rstr \<times> rstr option)" where
  "extract_apply_patch_from_shell env shell script =
     (case shell of
        UnixShell \<Rightarrow> extract_apply_patch_from_bash env script
      | PowerShellShell \<Rightarrow> extract_apply_patch_from_bash env script
      | CmdShell \<Rightarrow> extract_apply_patch_from_bash env script)"

text \<open>The second arm of \<open>maybe_parse_apply_patch\<close>.\<close>

definition parse_shell_form :: "('t, 'p) invocation_env \<Rightarrow> rstr list \<Rightarrow> 'p \<Rightarrow> MaybeApplyPatch" where
  "parse_shell_form env argv cwd =
     (case parse_shell_script env argv cwd of
        None \<Rightarrow> PatchNotApplyPatch
      | Some (shell, script) \<Rightarrow>
          (case extract_apply_patch_from_shell env shell script of
             Inr (body, workdir) \<Rightarrow>
               (case parse_patch body of
                  Inr source \<Rightarrow> PatchBody (source\<lparr>args_workdir := workdir\<rparr>)
                | Inl e \<Rightarrow> PatchParseError e)
           | Inl CommandDidNotStartWithApplyPatch \<Rightarrow> PatchNotApplyPatch
           | Inl e \<Rightarrow> PatchShellParseError e))"

definition maybe_parse_apply_patch :: "('t, 'p) invocation_env \<Rightarrow> rstr list \<Rightarrow> 'p \<Rightarrow> MaybeApplyPatch" where
  "maybe_parse_apply_patch env argv cwd =
     (case argv of
        [cmd, body] \<Rightarrow>
          if cmd \<in> set APPLY_PATCH_COMMANDS then
            (case parse_patch body of Inr source \<Rightarrow> PatchBody source | Inl e \<Rightarrow> PatchParseError e)
          else parse_shell_form env argv cwd
      | _ \<Rightarrow> parse_shell_form env argv cwd)"

section \<open>Verification\<close>

datatype 'p ApplyPatchFileChange =
    ChangeAdd rstr
  | ChangeDelete rstr
  | ChangeUpdate rstr "'p option" rstr

record 'p apply_patch_action =
  act_changes :: "'p \<rightharpoonup> 'p ApplyPatchFileChange"
  act_mode :: ApplyPatchFileUpdateMode
  act_patch :: rstr
  act_cwd :: 'p

datatype 'p MaybeApplyPatchVerified =
    VerifiedBody "'p apply_patch_action"
  | VerifiedShellParseError ExtractHeredocError
  | VerifiedCorrectnessError ApplyPatchError
  | VerifiedNotApplyPatch

record apply_patch_file_update =
  upd_unified_diff :: rstr
  upd_original_content :: rstr
  upd_content :: rstr

definition unified_diff_from_chunks_with_context_and_mode :: "('t, 'p) invocation_env \<Rightarrow> ('s, 'p) host \<Rightarrow> 's \<Rightarrow> 'p \<Rightarrow>
    update_file_chunk list \<Rightarrow> nat \<Rightarrow> ApplyPatchFileUpdateMode \<Rightarrow> (ApplyPatchError + apply_patch_file_update) option" where
  "unified_diff_from_chunks_with_context_and_mode env h s path chunks context_lines m =
     (case derive_new_contents_from_chunks h s path chunks m True of
        None \<Rightarrow> None
      | Some (Inl e) \<Rightarrow> Some (Err e)
      | Some (Inr (original_contents, new_contents)) \<Rightarrow>
          Some (Ok \<lparr>upd_unified_diff = text_diff env context_lines original_contents new_contents,
                    upd_original_content = original_contents, upd_content = new_contents\<rparr>))"

definition unified_diff_from_chunks_with_mode :: "('t, 'p) invocation_env \<Rightarrow> ('s, 'p) host \<Rightarrow> 's \<Rightarrow> 'p \<Rightarrow>
    update_file_chunk list \<Rightarrow> ApplyPatchFileUpdateMode \<Rightarrow> (ApplyPatchError + apply_patch_file_update) option" where
  "unified_diff_from_chunks_with_mode env h s path chunks m =
     unified_diff_from_chunks_with_context_and_mode env h s path chunks 1 m"

definition unified_diff_from_chunks_with_context :: "('t, 'p) invocation_env \<Rightarrow> ('s, 'p) host \<Rightarrow> 's \<Rightarrow> 'p \<Rightarrow>
    update_file_chunk list \<Rightarrow> nat \<Rightarrow> (ApplyPatchError + apply_patch_file_update) option" where
  "unified_diff_from_chunks_with_context env h s path chunks context_lines =
     unified_diff_from_chunks_with_context_and_mode env h s path chunks context_lines NormalizeToLf"

definition unified_diff_from_chunks :: "('t, 'p) invocation_env \<Rightarrow> ('s, 'p) host \<Rightarrow> 's \<Rightarrow> 'p \<Rightarrow>
    update_file_chunk list \<Rightarrow> (ApplyPatchError + apply_patch_file_update) option" where
  "unified_diff_from_chunks env h s path chunks = unified_diff_from_chunks_with_mode env h s path chunks NormalizeToLf"

text \<open>The change of one hunk, the body of the loop of \<open>try_verify_apply_patch_args\<close>.\<close>

definition verify_change :: "('t, 'p) invocation_env \<Rightarrow> ('s, 'p) host \<Rightarrow> 's \<Rightarrow> ApplyPatchFileUpdateMode \<Rightarrow> 'p \<Rightarrow> 'p \<Rightarrow> Hunk \<Rightarrow>
    (ApplyPatchError + 'p ApplyPatchFileChange) option" where
  "verify_change env h s m effective_cwd path hunk =
     (case hunk of
        AddFile _ contents \<Rightarrow> Some (Ok (ChangeAdd contents))
      | DeleteFile _ \<Rightarrow>
          (case read_file_text h s path True of
             Inl source \<Rightarrow> Some (Err (ApIoError (lit ''Failed to read '' @ native_path h path) source))
           | Inr content \<Rightarrow> Some (Ok (ChangeDelete content)))
      | UpdateFile _ move_path chunks \<Rightarrow>
          (case unified_diff_from_chunks_with_mode env h s path chunks m of
             None \<Rightarrow> None
           | Some (Inl e) \<Rightarrow> Some (Err e)
           | Some (Inr u) \<Rightarrow>
               (case move_path of
                  None \<Rightarrow> Some (Ok (ChangeUpdate (upd_unified_diff u) None (upd_content u)))
                | Some dest \<Rightarrow>
                    (case path_join h effective_cwd dest of
                       Inl e \<Rightarrow> Some (Err (ApPathUri e))
                     | Inr q \<Rightarrow> Some (Ok (ChangeUpdate (upd_unified_diff u) (Some q) (upd_content u)))))))"

fun verify_hunks :: "('t, 'p) invocation_env \<Rightarrow> ('s, 'p) host \<Rightarrow> 's \<Rightarrow> ApplyPatchFileUpdateMode \<Rightarrow> 'p \<Rightarrow> Hunk list \<Rightarrow>
    ('p \<rightharpoonup> 'p ApplyPatchFileChange) \<Rightarrow> (ApplyPatchError + ('p \<rightharpoonup> 'p ApplyPatchFileChange)) option" where
  "verify_hunks env h s m effective_cwd [] ch = Some (Ok ch)"
| "verify_hunks env h s m effective_cwd (hunk # hs) ch =
     (case path_join h effective_cwd (hunk_source_path hunk) of
        Inl e \<Rightarrow> Some (Err (ApPathUri e))
      | Inr path \<Rightarrow>
          if ch path \<noteq> None then
            Some (Err (ApParseError (InvalidPatchError (lit ''multiple operations target '' @ native_path h path))))
          else
            (case verify_change env h s m effective_cwd path hunk of
               None \<Rightarrow> None
             | Some (Inl e) \<Rightarrow> Some (Err e)
             | Some (Inr change) \<Rightarrow> verify_hunks env h s m effective_cwd hs (ch(path \<mapsto> change))))"

definition try_verify_apply_patch_args :: "('t, 'p) invocation_env \<Rightarrow> ('s, 'p) host \<Rightarrow> 's \<Rightarrow> apply_patch_args \<Rightarrow> 'p \<Rightarrow>
    ApplyPatchFileUpdateMode \<Rightarrow> (ApplyPatchError + 'p apply_patch_action) option" where
  "try_verify_apply_patch_args env h s args cwd m =
     (case (case args_workdir args of None \<Rightarrow> Inr cwd | Some dir \<Rightarrow> path_join h cwd dir) of
        Inl e \<Rightarrow> Some (Err (ApPathUri e))
      | Inr effective_cwd \<Rightarrow>
          (case verify_hunks env h s m effective_cwd (args_hunks args) Map.empty of
             None \<Rightarrow> None
           | Some (Inl e) \<Rightarrow> Some (Err e)
           | Some (Inr ch) \<Rightarrow>
               Some (Ok \<lparr>act_changes = ch, act_mode = m, act_patch = args_patch args, act_cwd = effective_cwd\<rparr>)))"

definition verify_apply_patch_args_with_mode :: "('t, 'p) invocation_env \<Rightarrow> ('s, 'p) host \<Rightarrow> 's \<Rightarrow> apply_patch_args \<Rightarrow> 'p \<Rightarrow>
    ApplyPatchFileUpdateMode \<Rightarrow> 'p MaybeApplyPatchVerified option" where
  "verify_apply_patch_args_with_mode env h s args cwd m =
     map_option (\<lambda>r. case r of Inr action \<Rightarrow> VerifiedBody action | Inl err \<Rightarrow> VerifiedCorrectnessError err)
       (try_verify_apply_patch_args env h s args cwd m)"

definition verify_apply_patch_args :: "('t, 'p) invocation_env \<Rightarrow> ('s, 'p) host \<Rightarrow> 's \<Rightarrow> apply_patch_args \<Rightarrow> 'p \<Rightarrow>
    'p MaybeApplyPatchVerified option" where
  "verify_apply_patch_args env h s args cwd = verify_apply_patch_args_with_mode env h s args cwd NormalizeToLf"

text \<open>A raw patch as the whole command, or as the whole script of a shell.\<close>

definition implicit_invocation :: "('t, 'p) invocation_env \<Rightarrow> rstr list \<Rightarrow> 'p \<Rightarrow> bool" where
  "implicit_invocation env argv cwd \<longleftrightarrow>
     (case argv of [body] \<Rightarrow> \<not> isl (parse_patch body) | _ \<Rightarrow> False) \<or>
     (case parse_shell_script env argv cwd of Some (_, script) \<Rightarrow> \<not> isl (parse_patch script) | None \<Rightarrow> False)"

definition maybe_parse_apply_patch_verified_with_mode :: "('t, 'p) invocation_env \<Rightarrow> ('s, 'p) host \<Rightarrow> 's \<Rightarrow> rstr list \<Rightarrow> 'p \<Rightarrow>
    ApplyPatchFileUpdateMode \<Rightarrow> 'p MaybeApplyPatchVerified option" where
  "maybe_parse_apply_patch_verified_with_mode env h s argv cwd m =
     (if implicit_invocation env argv cwd then Some (VerifiedCorrectnessError ImplicitInvocation)
      else
        (case maybe_parse_apply_patch env argv cwd of
           PatchBody args \<Rightarrow> verify_apply_patch_args_with_mode env h s args cwd m
         | PatchShellParseError e \<Rightarrow> Some (VerifiedShellParseError e)
         | PatchParseError e \<Rightarrow> Some (VerifiedCorrectnessError (ApParseError e))
         | PatchNotApplyPatch \<Rightarrow> Some VerifiedNotApplyPatch))"

definition maybe_parse_apply_patch_verified :: "('t, 'p) invocation_env \<Rightarrow> ('s, 'p) host \<Rightarrow> 's \<Rightarrow> rstr list \<Rightarrow> 'p \<Rightarrow>
    'p MaybeApplyPatchVerified option" where
  "maybe_parse_apply_patch_verified env h s argv cwd =
     maybe_parse_apply_patch_verified_with_mode env h s argv cwd NormalizeToLf"

section \<open>The patch of an action parses again\<close>

lemma split_inclusive_nl_butlast: "x \<in> set (split_inclusive_nl s) \<Longrightarrow> chr_nl \<notin> set (butlast x)"
  by (induction s arbitrary: x) (auto split: list.splits if_splits)

lemma str_lines_no_nl:
  assumes "x \<in> set (str_lines s)"
  shows "chr_nl \<notin> set x"
proof -
  from assms obtain l where l: "l \<in> set (split_inclusive_nl s)" "x = strip_line_ending l"
    by (auto simp: str_lines_def)
  note b = split_inclusive_nl_butlast [OF l(1)]
  show ?thesis
  proof (cases "strip_suffix [chr_nl] l")
    case None
    then have "l = [] \<or> last l \<noteq> chr_nl"
      by (cases l rule: rev_cases) (auto simp: strip_suffix_def)
    with b l(2) None show ?thesis by (cases l rule: rev_cases) (auto simp: strip_line_ending_def)
  next
    case (Some l1)
    then have "l = l1 @ [chr_nl]" by (simp add: strip_suffix_Some)
    with b have "chr_nl \<notin> set l1" by simp
    with l(2) Some show ?thesis
      by (auto simp: strip_line_ending_def strip_suffix_Some split: option.splits)
  qed
qed

lemma boundaries_strict_shape:
  assumes "check_patch_boundaries_strict ls = Inr ls'"
  shows "ls' = ls \<and> (\<exists>f mid l. ls = f # mid @ [l] \<and> trim f = BEGIN_PATCH_MARKER \<and> trim l = END_PATCH_MARKER)"
proof -
  have ne: "BEGIN_PATCH_MARKER \<noteq> END_PATCH_MARKER" by code_simp
  from assms obtain f rest where ls: "ls = f # rest" "ls' = ls" "trim f = BEGIN_PATCH_MARKER"
    "trim (last ls) = END_PATCH_MARKER"
    by (auto simp: check_patch_boundaries_strict_def check_start_and_end_lines_strict_def last_opt_def
        split: sum.splits list.splits if_splits)
  with ne have "rest \<noteq> []" by auto
  then have "rest = butlast rest @ [last rest]" by simp
  with ls \<open>rest \<noteq> []\<close> show ?thesis by (metis last_ConsR)
qed

lemma boundaries_lenient_strict:
  assumes "check_patch_boundaries_lenient ls = Inr ls'"
  shows "check_patch_boundaries_strict ls' = Inr ls' \<and> set ls' \<subseteq> set ls"
proof (cases "check_patch_boundaries_strict ls")
  case (Inr x)
  with assms boundaries_strict_shape [OF Inr] show ?thesis by (simp add: check_patch_boundaries_lenient_def)
next
  case (Inl e)
  with assms have "check_patch_boundaries_strict (butlast (tl ls)) = Inr ls'"
    by (auto simp: check_patch_boundaries_lenient_def split: list.splits if_splits)
  moreover from boundaries_strict_shape [OF this] have "ls' = butlast (tl ls)" by simp
  ultimately show ?thesis by (cases ls) (auto dest: in_set_butlastD)
qed

abbreviation line_texts :: "rstr list \<Rightarrow> rstr" where
  "line_texts ls \<equiv> concat (map (\<lambda>l. l @ [chr_nl]) ls)"

lemma join_lines: "join_with [chr_nl] (ls @ [l]) = line_texts ls @ l"
  by (induction ls) (simp_all add: join_with_Cons)

lemma no_final_cr: "chr_cr \<notin> set x \<Longrightarrow> x = [] \<or> last x \<noteq> chr_cr"
  using last_in_set by metis

lemma trim_start_idem: "trim_start (trim_start s) = trim_start s"
  by (rule trim_start_id) (use hd_dropWhile [of is_whitespace s] in \<open>auto simp: trim_start_def\<close>)

lemma trim_start_of_append: "trim_start f \<noteq> [] \<Longrightarrow> trim_start (f @ r) = trim_start f @ r"
  by (induction f) (auto simp: trim_start_def)

lemma trim_end_append:
  assumes "trim_end l \<noteq> []"
  shows "trim_end (r @ l) = r @ trim_end l"
proof -
  from assms have "\<exists>c \<in> set (rev l). \<not> is_whitespace c" by (auto simp: trim_end_def)
  then show ?thesis by (auto simp: trim_end_def dropWhile_append)
qed

lemma push_lines_buffer:
  assumes "push_delta p (line_texts ls) = (Inr r, q)" "line_buffer p = []"
    "\<forall>l \<in> set ls. chr_nl \<notin> set l \<and> (l = [] \<or> last l \<noteq> chr_cr)"
  shows "line_buffer q = []"
  using assms
proof (induction ls arbitrary: p)
  case (Cons l ls)
  then obtain p1 where p1: "process_line (take_line p) l = Inr p1" "push_delta p1 (line_texts ls) = (Inr r, q)"
    by (auto simp: push_delta_one_line split: sum.splits)
  moreover have "line_buffer p1 = []" using process_line_frame [OF p1(1)] by simp
  ultimately show ?case using Cons by simp
qed simp

text \<open>What the streaming parser makes of the whole text depends on the outer lines only up to blanks.\<close>

lemma finish_trim:
  assumes "line_buffer q = []" "l \<noteq> []" "l' \<noteq> []" "trim l = END_PATCH_MARKER" "trim l' = END_PATCH_MARKER"
  shows "finish (q\<lparr>line_buffer := l\<rparr>) = finish (q\<lparr>line_buffer := l'\<rparr>)"
  using assms by (simp add: finish_def finish_line_def Let_def)

lemma push_first_line:
  assumes "chr_nl \<notin> set f" "f = [] \<or> last f \<noteq> chr_cr" "trim f = BEGIN_PATCH_MARKER"
  shows "push_delta default_parser (f @ chr_nl # t) = push_delta ((take_line default_parser)\<lparr>mode := StartedPatch\<rparr>) t"
  using assms by (simp add: push_delta_one_line default_parser_def process_line_def take_line_def)

lemma trim_marker_line:
  "trim f = BEGIN_PATCH_MARKER \<Longrightarrow> trim_start f \<noteq> [] \<and> trim (trim_start f) = BEGIN_PATCH_MARKER"
  "trim l = END_PATCH_MARKER \<Longrightarrow> l \<noteq> [] \<and> trim_end l \<noteq> [] \<and> trim (trim_end l) = END_PATCH_MARKER"
proof -
  assume f: "trim f = BEGIN_PATCH_MARKER"
  have "BEGIN_PATCH_MARKER \<noteq> []" by code_simp
  with f show "trim_start f \<noteq> [] \<and> trim (trim_start f) = BEGIN_PATCH_MARKER"
    by (cases "trim_start f = []") (simp_all add: trim_def trim_start_idem)
next
  assume l: "trim l = END_PATCH_MARKER"
  have ne: "END_PATCH_MARKER \<noteq> []" by code_simp
  with l have "trim_start l \<noteq> []" by (auto simp: trim_def)
  then have "\<exists>c \<in> set l. \<not> is_whitespace c" by (auto simp: trim_start_def)
  then have "trim_end l \<noteq> []" by (auto simp: trim_end_def)
  moreover have "trim (trim_end l) = trim l"
  proof -
    obtain w where w: "l = trim_end l @ w" "\<forall>c \<in> set w. is_whitespace c" using trim_end_prefix by blast
    have "trim_start (trim_end l) \<noteq> []"
      using \<open>trim_end l \<noteq> []\<close> last_trim_end by (auto simp: trim_start_def dest: last_in_set)
    then have "trim_start l = trim_start (trim_end l) @ w" using trim_start_of_append w(1) by metis
    moreover have "trim_end (x @ w) = trim_end x" for x
      using w(2) by (simp add: trim_end_def dropWhile_append)
    ultimately show ?thesis by (simp add: trim_def)
  qed
  ultimately show "l \<noteq> [] \<and> trim_end l \<noteq> [] \<and> trim (trim_end l) = END_PATCH_MARKER" using l by auto
qed

lemma parse_patch_again:
  assumes "parse_patch patch = Inr a" "chr_cr \<notin> set (args_patch a)"
  shows "\<exists>b. parse_patch (args_patch a) = Inr b \<and> args_hunks b = args_hunks a"
proof -
  from assms(1) obtain ls where ls: "check_patch_boundaries_lenient (str_lines (trim patch)) = Inr ls"
    and a: "args_patch a = join_with [chr_nl] ls"
    by (auto simp: parse_patch_def PARSE_IN_STRICT_MODE_def parse_patch_text_def Let_def split: sum.splits prod.splits)
  from boundaries_lenient_strict [OF ls] boundaries_strict_shape [of ls ls] obtain f mid l where
    s: "ls = f # mid @ [l]" "trim f = BEGIN_PATCH_MARKER" "trim l = END_PATCH_MARKER" and
    sub: "set ls \<subseteq> set (str_lines (trim patch))" by blast
  let ?f = "trim_start f" and ?l = "trim_end l"
  have whole: "args_patch a = f @ chr_nl # line_texts mid @ l"
    using a s(1) join_lines [of "f # mid" l] by simp
  have nl: "\<forall>x \<in> set ls. chr_nl \<notin> set x" using sub str_lines_no_nl by blast
  have cr: "\<forall>x \<in> set ls. chr_cr \<notin> set x" using assms(2) whole s(1) by (auto split: if_splits)
  have fl: "?f \<noteq> []" "?l \<noteq> []" "trim ?f = BEGIN_PATCH_MARKER" "trim ?l = END_PATCH_MARKER" "l \<noteq> []"
    using s(2,3) trim_marker_line by auto
  have no: "chr_nl \<notin> set ?f" "chr_cr \<notin> set ?f" "chr_nl \<notin> set ?l" "chr_cr \<notin> set ?l"
    using nl cr s(1) by (auto simp: trim_start_def trim_end_def dest: set_dropWhileD)
  let ?ls = "?f # mid @ [?l]"
  have join: "join_with [chr_nl] ?ls = ?f @ chr_nl # line_texts mid @ ?l"
    using join_lines [of "?f # mid" ?l] by simp
  have "trim (args_patch a) = join_with [chr_nl] ?ls"
    unfolding join trim_def whole trim_start_of_append [OF fl(1)]
    using trim_end_append [OF fl(2), of "?f @ chr_nl # line_texts mid"] by simp
  moreover have "str_lines (join_with [chr_nl] ?ls) = ?ls"
  proof (rule str_lines_join)
    show "\<forall>x \<in> set ?ls. chr_nl \<notin> set x" using nl no s(1) by simp
    show "\<forall>x \<in> set (butlast ?ls). x = [] \<or> last x \<noteq> chr_cr" using cr no s(1) no_final_cr by (simp add: butlast_append)
  qed (use fl(2) in simp_all)
  ultimately have lines: "str_lines (trim (args_patch a)) = ?ls" by simp
  have strict: "check_patch_boundaries_strict ?ls = Inr ?ls"
    using fl(3,4) by (simp add: check_patch_boundaries_strict_def check_start_and_end_lines_strict_def last_opt_def)
  let ?p = "(take_line default_parser)\<lparr>mode := StartedPatch\<rparr>"
  have first: "push_delta default_parser (g @ chr_nl # t) = push_delta ?p t"
    if "g = f \<or> g = ?f" for g t
  proof (rule push_first_line)
    show "chr_nl \<notin> set g" using that nl no s(1) by auto
    show "g = [] \<or> last g \<noteq> chr_cr" using that cr no s(1) no_final_cr by auto
    show "trim g = BEGIN_PATCH_MARKER" using that s(2) fl(3) by auto
  qed
  from assms(1) ls a obtain r p1 hs p2 where
    run: "push_delta default_parser (args_patch a) = (Inr r, p1)" "finish p1 = (Inr hs, p2)" "args_hunks a = hs"
    by (auto simp: parse_patch_def PARSE_IN_STRICT_MODE_def parse_patch_text_def Let_def split: sum.splits prod.splits)
  from run(1) obtain r0 q where q: "push_delta ?p (line_texts mid) = (Inr r0, q)" "push_delta q l = (Inr r, p1)"
    unfolding whole first [OF disjI1 [OF refl]] push_delta_append [of ?p] by (auto split: sum.splits prod.splits)
  have buf: "line_buffer q = []"
    using push_lines_buffer [OF q(1)] nl cr s(1) no_final_cr by (simp add: default_parser_def take_line_def)
  have p1: "p1 = q\<lparr>line_buffer := l\<rparr>"
    using q(2) nl s(1) push_delta_chars [of l q "[]"] buf by simp
  have "push_delta default_parser (join_with [chr_nl] ?ls) = (Inr (hunks q), q\<lparr>line_buffer := ?l\<rparr>)"
    unfolding join first [OF disjI2 [OF refl]] push_delta_append [of ?p] q(1)
    using no(3) push_delta_chars [of ?l q "[]"] buf by simp
  moreover have "finish (q\<lparr>line_buffer := ?l\<rparr>) = (Inr hs, p2)"
    using finish_trim [OF buf fl(5,2) s(3) fl(4)] run(2) p1 by simp
  ultimately show ?thesis
    using lines boundaries_strict_imp_lenient [OF strict] run(3)
    by (simp add: parse_patch_def PARSE_IN_STRICT_MODE_def parse_patch_text_def Let_def)
qed

section \<open>Applying what was verified\<close>

fun change_effect :: "'p \<times> 'p ApplyPatchFileChange \<Rightarrow> ('p \<Rightarrow> rstr option) \<Rightarrow> 'p \<Rightarrow> rstr option" where
  "change_effect (p, ChangeAdd content) v = v(p \<mapsto> content)"
| "change_effect (p, ChangeDelete content) v = v(p := None)"
| "change_effect (p, ChangeUpdate diff None new) v = v(p \<mapsto> new)"
| "change_effect (p, ChangeUpdate diff (Some q) new) v = (v(q \<mapsto> new))(p := None)"

fun touched :: "'p \<times> 'p ApplyPatchFileChange \<Rightarrow> 'p list" where
  "touched (p, ChangeUpdate diff (Some q) new) = [p, q]"
| "touched (p, c) = [p]"

lemma change_effect_other: "q \<notin> set (touched pc) \<Longrightarrow> change_effect pc v q = v q"
  by (cases pc rule: touched.cases) auto

lemma fst_touched: "fst pc \<in> set (touched pc)"
  by (cases pc rule: touched.cases) auto

lemma add_hunk_ok:
  assumes "apply_add_hunk h f p c s d = (Inr u, d', s')"
  shows "\<exists>ov. changes d' = changes d @ [(p, AppliedAdd c ov)]"
  using assms by (auto simp: apply_add_hunk_def Let_def push_change_def split: sum.splits prod.splits)

lemma delete_hunk_ok:
  assumes "apply_delete_hunk h f p s d = (Inr u, d', s')" "exact d'"
  shows "\<exists>c. changes d' = changes d @ [(p, AppliedDelete c)]"
  using assms by (auto simp: apply_delete_hunk_def Let_def push_change_def split: sum.splits prod.splits option.splits)

lemma move_ok:
  assumes "apply_move h f p q old new s d = (Inr u, d', s')"
  shows "\<exists>ov. changes d' = changes d @ [(p, AppliedUpdate (Some q) old ov new)]"
  using assms by (auto simp: apply_move_def Let_def push_change_def split: sum.splits prod.splits)

lemma derive_new_contents_same:
  assumes fs: "text_fs h True view" and "derive_new_contents_from_chunks h s p chunks m True = Some (Inr (old, new))"
    "derive_new_contents_from_chunks h s' p chunks m True = Some (Inr (old', new'))" and "view s' p = view s p"
  shows "old' = old \<and> new' = new"
proof -
  from assms(2,3) have r: "read_file_text h s p True = Inr old" "read_file_text h s' p True = Inr old'"
    by (auto simp: derive_new_contents_from_chunks_def map_option_case map_sum_def id_def split: sum.splits option.splits)
  with read_Inr [OF fs] assms(4) have "old' = old" by (metis option.inject)
  with r assms(2,3) show ?thesis
    by (auto simp: derive_new_contents_from_chunks_def map_option_case map_sum_def id_def split: sum.splits option.splits)
qed

text \<open>A successful and exact step has the effect that was verified, if the file is as it was then.\<close>

lemma verified_hunk_effect:
  assumes fs: "text_fs h True view" and opts: "follow_symlinks opts"
    and j: "path_join h cwd (hunk_source_path hunk) = Inr p"
    and ver: "verify_change env h s0 (update_file_mode opts) cwd p hunk = Some (Inr c)"
    and ap: "apply_hunk h opts cwd hunk s d = Some (Inr u, d', s')" and ex: "exact d'"
    and same: "view s p = view s0 p"
  shows "view s' = change_effect (p, c) (view s)"
proof -
  have "commits view s d s' d'" using apply_hunk_commits [of h opts view] fs opts ap by simp
  with ex obtain cs where cs: "changes d' = changes d @ cs" "view s' = replay cs (view s)"
    by (auto simp: commits_def)
  show ?thesis
  proof (cases hunk)
    case (AddFile path contents)
    with ap j have "apply_add_hunk h (follow_symlinks opts) p contents s d = (Inr u, d', s')"
      by (simp add: apply_hunk_def)
    from add_hunk_ok [OF this] cs AddFile ver show ?thesis by (auto simp: verify_change_def)
  next
    case (DeleteFile path)
    with ap j have "apply_delete_hunk h (follow_symlinks opts) p s d = (Inr u, d', s')"
      by (simp add: apply_hunk_def)
    from delete_hunk_ok [OF this ex] cs DeleteFile ver show ?thesis
      by (auto simp: verify_change_def split: sum.splits)
  next
    case (UpdateFile path dest chunks)
    let ?m = "update_file_mode opts"
    from ver UpdateFile obtain old new where
      o: "derive_new_contents_from_chunks h s0 p chunks ?m True = Some (Inr (old, new))"
      by (auto simp: verify_change_def unified_diff_from_chunks_with_mode_def
          unified_diff_from_chunks_with_context_and_mode_def split: option.splits sum.splits prod.splits)
    from ap j UpdateFile have up: "apply_update_hunk h opts cwd p dest chunks s d = Some (Inr u, d', s')"
      by (simp add: apply_hunk_def)
    then obtain old' new' where
      o': "derive_new_contents_from_chunks h s p chunks ?m True = Some (Inr (old', new'))"
      using opts by (auto simp: apply_update_hunk_def Let_def split: option.splits sum.splits prod.splits)
    have new: "new' = new"
      using derive_new_contents_same [OF fs o o' same] by simp
    show ?thesis
    proof (cases dest)
      case None
      with up o' opts have "changes d' = changes d @ [(p, AppliedUpdate None old' None new')]"
        by (auto simp: apply_update_hunk_def Let_def push_change_def split: sum.splits prod.splits)
      with cs new None ver UpdateFile o show ?thesis
        by (auto simp: verify_change_def unified_diff_from_chunks_with_mode_def
            unified_diff_from_chunks_with_context_and_mode_def)
    next
      case (Some t)
      with up o' opts obtain q where q: "path_join h cwd t = Inr q"
        by (auto simp: apply_update_hunk_def Let_def split: sum.splits)
      let ?d = "d\<lparr>exact := note_existing_path_delta_support h s p True (exact d)\<rparr>"
      from up o' opts Some q have "apply_move h True p q old' new' s ?d = (Inr u, d', s')"
        by (auto simp: apply_update_hunk_def Let_def)
      from move_ok [OF this] obtain ov where "changes d' = changes d @ [(p, AppliedUpdate (Some q) old' ov new')]" by auto
      with cs new Some ver UpdateFile o q show ?thesis
        by (auto simp: verify_change_def unified_diff_from_chunks_with_mode_def
            unified_diff_from_chunks_with_context_and_mode_def)
    qed
  qed
qed

definition verified_as :: "('t, 'p) invocation_env \<Rightarrow> ('s, 'p) host \<Rightarrow> 's \<Rightarrow> ApplyPatchFileUpdateMode \<Rightarrow> 'p \<Rightarrow> Hunk \<Rightarrow>
    'p \<times> 'p ApplyPatchFileChange \<Rightarrow> bool" where
  "verified_as env h s m cwd hunk pc \<longleftrightarrow>
     path_join h cwd (hunk_source_path hunk) = Inr (fst pc) \<and>
     verify_change env h s m cwd (fst pc) hunk = Some (Inr (snd pc))"

lemma verify_hunks_list:
  assumes "verify_hunks env h s m cwd hs ch = Some (Inr ch')"
  shows "\<exists>pcs. list_all2 (verified_as env h s m cwd) hs pcs \<and> distinct (map fst pcs) \<and>
     (\<forall>pc \<in> set pcs. ch (fst pc) = None) \<and> ch' = ch ++ map_of pcs"
  using assms
proof (induction hs arbitrary: ch)
  case (Cons hunk hs)
  then obtain p c where p: "path_join h cwd (hunk_source_path hunk) = Inr p" "ch p = None"
    "verify_change env h s m cwd p hunk = Some (Inr c)" "verify_hunks env h s m cwd hs (ch(p \<mapsto> c)) = Some (Inr ch')"
    by (auto split: sum.splits option.splits if_splits)
  from Cons.IH [OF p(4)] obtain pcs where pcs: "list_all2 (verified_as env h s m cwd) hs pcs" "distinct (map fst pcs)"
    "\<forall>pc \<in> set pcs. (ch(p \<mapsto> c)) (fst pc) = None" "ch' = ch(p \<mapsto> c) ++ map_of pcs" by blast
  have "p \<notin> fst ` set pcs" using pcs(3) by force
  then have "map_of pcs p = None" by (simp add: map_of_eq_None_iff)
  then have ch': "ch' = ch ++ map_of ((p, c) # pcs)"
    unfolding pcs(4) by (intro ext) (auto simp: map_add_def split: option.splits)
  have "list_all2 (verified_as env h s m cwd) (hunk # hs) ((p, c) # pcs)"
    using pcs(1) p(1,3) by (simp add: verified_as_def [of env h s m cwd hunk])
  moreover have "distinct (map fst ((p, c) # pcs))" using pcs(2) \<open>p \<notin> fst ` set pcs\<close> by simp
  moreover have "\<forall>pc \<in> set ((p, c) # pcs). ch (fst pc) = None" using pcs(3) p(2) by (auto split: if_splits)
  ultimately show ?case using ch' by blast
qed simp

lemma verified_run_effect:
  assumes fs: "text_fs h True view" and opts: "follow_symlinks opts"
    and "list_all2 (verified_as env h s0 (update_file_mode opts) cwd) hs pcs"
    and "apply_hunks_loop h opts cwd hs a s d = Some (Inr b, d', s')" and ex: "exact d'"
    and "distinct (concat (map touched pcs))" and "\<forall>q \<in> set (concat (map touched pcs)). view s q = view s0 q"
  shows "view s' = fold change_effect pcs (view s)"
  using assms(3,4,6,7)
proof (induction hs arbitrary: pcs a s d)
  case (Cons hunk hs)
  then obtain pc pcs' where pcs: "pcs = pc # pcs'" "verified_as env h s0 (update_file_mode opts) cwd hunk pc"
    "list_all2 (verified_as env h s0 (update_file_mode opts) cwd) hs pcs'" by (auto simp: list_all2_Cons1)
  from Cons.prems(2) obtain u d1 s1 where st: "apply_hunk h opts cwd hunk s d = Some (Inr u, d1, s1)"
    "apply_hunks_loop h opts cwd hs (note_affected hunk a) s1 d1 = Some (Inr b, d', s')"
    by (auto split: option.splits sum.splits)
  have "commits view s1 d1 s' d'" using apply_hunks_loop_commits [of h opts view] fs opts st(2) by simp
  with ex have "exact d1" by (simp add: commits_def)
  moreover have "view s (fst pc) = view s0 (fst pc)" using Cons.prems(4) pcs(1) fst_touched [of pc] by auto
  ultimately have e: "view s1 = change_effect pc (view s)"
    using verified_hunk_effect [OF fs opts _ _ st(1), of "fst pc" env s0 "snd pc"] pcs(2) by (simp add: verified_as_def)
  have "\<forall>q \<in> set (concat (map touched pcs')). view s1 q = view s0 q"
  proof
    fix q assume q: "q \<in> set (concat (map touched pcs'))"
    with Cons.prems(3) pcs(1) have "q \<notin> set (touched pc)" by auto
    with q Cons.prems(4) pcs(1) e show "view s1 q = view s0 q" by (simp add: change_effect_other)
  qed
  from Cons.IH [OF pcs(3) st(2) _ this] Cons.prems(3) pcs(1) e show ?case by simp
qed simp

text \<open>No move goes to a file that another hunk changes, and no two moves to the same file.\<close>

definition moves_apart :: "('p \<rightharpoonup> 'p ApplyPatchFileChange) \<Rightarrow> bool" where
  "moves_apart ch \<longleftrightarrow>
     (\<forall>p diff q new. ch p = Some (ChangeUpdate diff (Some q) new) \<longrightarrow>
        ch q = None \<and> (\<forall>p' diff' new'. ch p' = Some (ChangeUpdate diff' (Some q) new') \<longrightarrow> p' = p))"

lemma touched_cases: "q \<in> set (touched (p, c)) \<Longrightarrow> q = p \<or> (\<exists>diff new. c = ChangeUpdate diff (Some q) new)"
  by (cases "(p, c)" rule: touched.cases) auto

lemma moves_apart_sub:
  assumes "moves_apart ch" and sub: "\<And>p c. ch' p = Some c \<Longrightarrow> ch p = Some c"
  shows "moves_apart ch'"
  unfolding moves_apart_def
proof (intro allI impI conjI)
  fix p diff q new assume "ch' p = Some (ChangeUpdate diff (Some q) new)"
  from sub [OF this] assms(1) have q: "ch q = None"
    and u: "ch p' = Some (ChangeUpdate diff' (Some q) new') \<Longrightarrow> p' = p" for p' diff' new'
    unfolding moves_apart_def by blast+
  from q sub [of q] show "ch' q = None" by (cases "ch' q") auto
  show "p' = p" if "ch' p' = Some (ChangeUpdate diff' (Some q) new')" for p' diff' new'
    using u [OF sub [OF that]] .
qed

lemma touched_apart:
  assumes "moves_apart ch" "ch p = Some c" "ch p' = Some c'" "p \<noteq> p'" "q \<in> set (touched (p, c))" "q \<in> set (touched (p', c'))"
  shows False
  using touched_cases [OF assms(5)] touched_cases [OF assms(6)] assms(1-4)
  unfolding moves_apart_def by (elim disjE exE) (simp, (metis option.distinct(1))+)

lemma moves_apartD: "moves_apart ch \<Longrightarrow> ch p = Some (ChangeUpdate diff (Some q) new) \<Longrightarrow> ch q = None"
  unfolding moves_apart_def by blast

lemma touched_distinct:
  assumes "moves_apart ch" "ch p = Some c"
  shows "distinct (touched (p, c))"
proof (cases "(p, c)" rule: touched.cases)
  case (1 p' diff q new)
  with assms(2) have c: "ch p = Some (ChangeUpdate diff (Some q) new)" by simp
  from moves_apartD [OF assms(1) c] c 1 show ?thesis by auto
qed auto

lemma moves_apart_distinct:
  assumes "moves_apart (map_of pcs)" "distinct (map fst pcs)"
  shows "distinct (concat (map touched pcs))"
  using assms
proof (induction pcs)
  case (Cons pc pcs)
  obtain p c where pc: "pc = (p, c)" by fastforce
  have p: "map_of pcs p = None" using Cons.prems(2) pc by (simp add: map_of_eq_None_iff)
  have disj: "False" if q: "q \<in> set (touched (p, c))" "(p', c') \<in> set pcs" "q \<in> set (touched (p', c'))" for q p' c'
  proof -
    have m: "map_of pcs p' = Some c'" "p' \<noteq> p" using q(2) Cons.prems(2) pc by auto force
    then have "map_of (pc # pcs) p' = Some c'" "map_of (pc # pcs) p = Some c" using pc by simp_all
    with touched_apart [OF Cons.prems(1) _ _ m(2) q(3,1)] show False by blast
  qed
  have "moves_apart (map_of pcs)"
    by (rule moves_apart_sub [OF Cons.prems(1)]) (use p pc in auto)
  moreover have "distinct (touched pc)"
    unfolding pc by (rule touched_distinct [OF Cons.prems(1)]) (simp add: pc)
  moreover have "set (touched pc) \<inter> set (concat (map touched pcs)) = {}" using disj pc by auto
  ultimately show ?case using Cons.IH Cons.prems(2) by simp
qed simp

lemma change_effect_touched: "q \<in> set (touched pc) \<Longrightarrow> change_effect pc v q = change_effect pc w q"
  by (cases pc rule: touched.cases) auto

lemma fold_effect_other: "q \<notin> set (concat (map touched pcs)) \<Longrightarrow> fold change_effect pcs v q = v q"
  by (induction pcs arbitrary: v) (simp_all add: change_effect_other)

lemma fold_effect_touched:
  assumes "distinct (concat (map touched pcs))" "pc \<in> set pcs" "q \<in> set (touched pc)"
  shows "fold change_effect pcs v q = change_effect pc v q"
proof -
  from assms(2) obtain xs ys where pcs: "pcs = xs @ pc # ys" by (auto dest: split_list)
  with assms(1,3) have "q \<notin> set (concat (map touched ys))" by auto
  then have "fold change_effect pcs v q = change_effect pc (fold change_effect xs v) q"
    by (simp add: pcs fold_effect_other)
  with change_effect_touched [OF assms(3)] show ?thesis by metis
qed

lemma apply_hunks_with_options_ok:
  assumes "quiet_output h view" "apply_hunks_with_options h opts cwd hs s = Some (Inr d, s')"
  shows "\<exists>a s1. apply_hunks_loop h opts cwd hs \<lparr>added = [], modified = [], deleted = []\<rparr> s delta_empty = Some (Inr a, d, s1) \<and>
     view s' = view s1"
  using assms(2) quiet_write_lines [OF assms(1)]
  by (auto simp: apply_hunks_with_options_def apply_hunks_to_files_def print_summary_def
      split: option.splits sum.splits prod.splits if_splits)

lemma verified_action:
  assumes "maybe_parse_apply_patch_verified_with_mode env h s argv cwd m = Some (VerifiedBody action)"
  shows "\<exists>body args. parse_patch body = Inr args \<and> act_patch action = args_patch args \<and> act_mode action = m \<and>
     verify_hunks env h s m (act_cwd action) (args_hunks args) Map.empty = Some (Inr (act_changes action))"
proof -
  from assms obtain args where "maybe_parse_apply_patch env argv cwd = PatchBody args"
    and v: "verify_apply_patch_args_with_mode env h s args cwd m = Some (VerifiedBody action)"
    by (auto simp: maybe_parse_apply_patch_verified_with_mode_def split: if_splits MaybeApplyPatch.splits)
  then obtain body source where b: "parse_patch body = Inr source" "args_patch args = args_patch source"
    "args_hunks args = args_hunks source"
    by (auto simp: maybe_parse_apply_patch_def parse_shell_form_def
        split: list.splits if_splits sum.splits option.splits prod.splits ExtractHeredocError.splits)
  from v have "act_patch action = args_patch args \<and> act_mode action = m \<and>
      verify_hunks env h s m (act_cwd action) (args_hunks args) Map.empty = Some (Inr (act_changes action))"
    by (auto simp: verify_apply_patch_args_with_mode_def try_verify_apply_patch_args_def map_option_case
        split: sum.splits option.splits)
  with b show ?thesis by auto
qed

lemma verify_change_total: "hunk_ok hk \<Longrightarrow> verify_change env h s m cwd p hk \<noteq> None"
  by (cases hk)
    (auto simp: verify_change_def unified_diff_from_chunks_with_mode_def unified_diff_from_chunks_with_context_and_mode_def
      derive_new_contents_from_chunks_def new_contents_total simp del: not_None_eq split: sum.splits option.splits prod.splits)

lemma verify_hunks_total: "list_all hunk_ok hs \<Longrightarrow> verify_hunks env h s m cwd hs ch \<noteq> None"
proof (induction hs arbitrary: ch)
  case (Cons hk hs)
  then show ?case using verify_change_total [of hk env h s m cwd]
    by (auto simp del: not_None_eq split: sum.splits option.splits)
qed simp

section \<open>Properties\<close>

text \<open>
  C6. What was verified is what is applied: when a command was verified and its action is then applied
  to the same files, and that succeeds with an exact delta, every file the action lists has the
  verified content afterwards, moved files are at their destination, and no other file has changed.
  The moves must not end on other files of the patch, and the patch must have no carriage returns.
\<close>

theorem verified_action_is_applied:
  assumes "text_fs h True view" "quiet_output h view"
    and "maybe_parse_apply_patch_verified_with_mode env h s argv cwd m = Some (VerifiedBody action)"
    and "apply_patch_with_options h (act_patch action) \<lparr>update_file_mode = act_mode action, follow_symlinks = True\<rparr>
           (act_cwd action) s = Some (Inr d, s')"
    and "exact d" "moves_apart (act_changes action)" "chr_cr \<notin> set (act_patch action)"
  shows "(\<forall>p c q. act_changes action p = Some c \<longrightarrow> q \<in> set (touched (p, c)) \<longrightarrow>
            view s' q = change_effect (p, c) (view s) q) \<and>
    (\<forall>q. (\<forall>p c. act_changes action p = Some c \<longrightarrow> q \<notin> set (touched (p, c))) \<longrightarrow> view s' q = view s q)"
proof -
  let ?opts = "\<lparr>update_file_mode = act_mode action, follow_symlinks = True\<rparr>"
  from verified_action [OF assms(3)] obtain body args where v: "parse_patch body = Inr args"
    "act_patch action = args_patch args" "act_mode action = m"
    "verify_hunks env h s m (act_cwd action) (args_hunks args) Map.empty = Some (Inr (act_changes action))" by blast
  from verify_hunks_list [OF v(4)] obtain pcs where
    pcs: "list_all2 (verified_as env h s m (act_cwd action)) (args_hunks args) pcs" "distinct (map fst pcs)"
    "act_changes action = map_of pcs" by auto
  have apart: "distinct (concat (map touched pcs))" using moves_apart_distinct assms(6) pcs(2,3) by metis
  from parse_patch_again [OF v(1)] v(2) assms(7) obtain b where "parse_patch (act_patch action) = Inr b"
    "args_hunks b = args_hunks args" by auto
  with assms(4) have "apply_hunks_with_options h ?opts (act_cwd action) (args_hunks args) s = Some (Inr d, s')"
    by (simp add: apply_patch_with_options_def)
  from apply_hunks_with_options_ok [OF assms(2) this] obtain a s1 where
    run: "apply_hunks_loop h ?opts (act_cwd action) (args_hunks args) \<lparr>added = [], modified = [], deleted = []\<rparr> s delta_empty =
      Some (Inr a, d, s1)" "view s' = view s1" by blast
  have "view s' = fold change_effect pcs (view s)"
    using verified_run_effect [OF assms(1) _ _ run(1) assms(5) apart, of env s] pcs(1) v(3) run(2) by simp
  moreover have "(p, c) \<in> set pcs \<longleftrightarrow> act_changes action p = Some c" for p c
    using pcs(2,3) by simp
  moreover have "q \<notin> set (concat (map touched pcs))"
    if "\<forall>p c. (p, c) \<in> set pcs \<longrightarrow> q \<notin> set (touched (p, c))" for q
    using that by auto
  ultimately show ?thesis using fold_effect_touched [OF apart] fold_effect_other [of _ pcs "view s"] by simp
qed

definition sample_invocation :: "(unit, rstr) invocation_env" where
  "sample_invocation =
     \<lparr>load_grammar = Inr (), parse_bash = (\<lambda>_. Some ()),
      query_matches = (\<lambda>_ _. [[(lit ''apply_name'', Inr (lit ''apply_patch'')), (lit ''heredoc'', Inr (sample_patch @ [10]))]]),
      infer_path_convention = (\<lambda>_. Some Posix), text_diff = (\<lambda>_ _ _. [])\<rparr>"

definition sample_argv :: "rstr list" where
  "sample_argv = [lit ''/bin/bash'', lit ''-lc'', lit ''apply_patch <<EOF'']"

definition sample_action :: "rstr apply_patch_action" where
  "sample_action =
     \<lparr>act_changes = [lit ''r/a'' \<mapsto> ChangeUpdate [] (Some (lit ''r/b'')) (lit ''y'' @ [10]), lit ''r/c'' \<mapsto> ChangeAdd (lit ''z'' @ [10])],
      act_mode = NormalizeToLf, act_patch = sample_patch, act_cwd = lit ''r''\<rparr>"

lemma sample_changes:
  "verify_hunks sample_invocation mem_host sample_world NormalizeToLf (lit ''r'') (map hunk_of sample_edits) Map.empty =
     Some (Inr (act_changes sample_action))"
proof -
  obtain e1 e2 where e: "sample_edits = [e1, e2]" "e1 = hd sample_edits" "e2 = sample_edits ! 1"
    by (simp add: sample_edits_def)
  have "verify_change sample_invocation mem_host sample_world NormalizeToLf (lit ''r'') (lit ''r/a'') (hunk_of (hd sample_edits)) =
      Some (Inr (ChangeUpdate [] (Some (lit ''r/b'')) (lit ''y'' @ [10])))"
    "verify_change sample_invocation mem_host sample_world NormalizeToLf (lit ''r'') (lit ''r/c'') (hunk_of (sample_edits ! 1)) =
      Some (Inr (ChangeAdd (lit ''z'' @ [10])))"
    "path_join mem_host (lit ''r'') (hunk_source_path (hunk_of (hd sample_edits))) = Inr (lit ''r/a'')"
    "path_join mem_host (lit ''r'') (hunk_source_path (hunk_of (sample_edits ! 1))) = Inr (lit ''r/c'')"
    "lit ''r/a'' \<noteq> lit ''r/c''"
    by code_simp+
  then show ?thesis unfolding e(1) by (simp add: e(2,3) [symmetric] sample_action_def)
qed

lemma sample_verified:
  "maybe_parse_apply_patch_verified_with_mode sample_invocation mem_host sample_world sample_argv (lit ''r'') NormalizeToLf =
     Some (VerifiedBody sample_action)"
proof -
  have s: "parse_shell_script sample_invocation sample_argv (lit ''r'') = Some (UnixShell, lit ''apply_patch <<EOF'')"
    "isl (parse_patch (lit ''apply_patch <<EOF''))"
    "extract_apply_patch_from_shell sample_invocation UnixShell (lit ''apply_patch <<EOF'') = Inr (sample_patch, None)"
    by code_simp+
  then have "\<not> implicit_invocation sample_invocation sample_argv (lit ''r'')"
    by (simp add: implicit_invocation_def sample_argv_def)
  with s sample_changes show ?thesis
    by (simp add: maybe_parse_apply_patch_verified_with_mode_def maybe_parse_apply_patch_def parse_shell_form_def
        sample_argv_def parse_sample verify_apply_patch_args_with_mode_def try_verify_apply_patch_args_def)
      (simp add: sample_action_def)
qed

lemma sample_apart: "moves_apart (act_changes sample_action)"
proof -
  have "lit ''r/a'' \<noteq> lit ''r/b''" "lit ''r/c'' \<noteq> lit ''r/b''" by code_simp+
  then show ?thesis by (simp add: moves_apart_def sample_action_def)
qed

theorem verified_action_is_applied_witness:
  "\<exists>w. apply_patch_with_options mem_host sample_patch \<lparr>update_file_mode = NormalizeToLf, follow_symlinks = True\<rparr>
         (lit ''r'') sample_world = Some (Inr sample_delta, w) \<and>
     fst w (lit ''r/b'') = Some (lit ''y'' @ [10]) \<and> fst w (lit ''r/a'') = None"
proof -
  let ?opts = "\<lparr>update_file_mode = NormalizeToLf, follow_symlinks = True\<rparr>"
  let ?c = "ChangeUpdate [] (Some (lit ''r/b'')) (lit ''y'' @ [10])"
  obtain w where w: "apply_patch_with_options mem_host sample_patch ?opts (lit ''r'') sample_world = Some (Inr sample_delta, w)"
    using sample_run by (auto simp: default_options_def)
  have a: "apply_patch_with_options mem_host (act_patch sample_action)
      \<lparr>update_file_mode = act_mode sample_action, follow_symlinks = True\<rparr> (act_cwd sample_action) sample_world =
      Some (Inr sample_delta, w)"
    using w by (simp add: sample_action_def)
  have e: "exact sample_delta" by (simp add: sample_delta_def)
  have c: "chr_cr \<notin> set (act_patch sample_action)" by code_simp
  have l: "act_changes sample_action (lit ''r/a'') = Some ?c" "lit ''r/a'' \<noteq> lit ''r/b''" by code_simp+
  have "fst w q = change_effect (lit ''r/a'', ?c) (fst sample_world) q" if "q \<in> set (touched (lit ''r/a'', ?c))" for q
    using verified_action_is_applied [OF mem_host_text_fs mem_host_quiet sample_verified a e sample_apart c] l(1) that
    by blast
  from this [of "lit ''r/a''"] this [of "lit ''r/b''"] l(2) w show ?thesis by simp
qed

text \<open>Verification never panics: what the parser yields has consistent context indices.\<close>

theorem verification_never_panics:
  "\<exists>r. maybe_parse_apply_patch_verified_with_mode env h s argv cwd m = Some r"
proof (cases "maybe_parse_apply_patch env argv cwd")
  case (PatchBody args)
  then have "list_all hunk_ok (args_hunks args)"
    by (auto simp: maybe_parse_apply_patch_def parse_shell_form_def parse_patch_def dest: parse_patch_text_hunks_ok
        split: list.splits if_splits sum.splits option.splits prod.splits ExtractHeredocError.splits)
  then have "try_verify_apply_patch_args env h s args cwd m \<noteq> None"
    using verify_hunks_total [of "args_hunks args" env h s m]
    by (auto simp: try_verify_apply_patch_args_def simp del: not_None_eq split: sum.splits option.splits)
  with PatchBody show ?thesis
    by (auto simp: maybe_parse_apply_patch_verified_with_mode_def verify_apply_patch_args_with_mode_def)
qed (simp_all add: maybe_parse_apply_patch_verified_with_mode_def)

definition two_on_one :: apply_patch_args where
  "two_on_one =
     \<lparr>args_patch = [],
      args_hunks =
        [UpdateFile (lit ''a'') (Some (lit ''b'')) [push_new_line (push_old_line default_chunk (lit ''x'')) (lit ''y'')],
         UpdateFile (lit ''b'') None [push_new_line (push_old_line default_chunk (lit ''y'')) (lit ''w'')]],
      args_workdir = None, args_environment_id = None\<rparr>"

definition two_files :: mem_world where
  "two_files = (((\<lambda>_. None)(lit ''r/a'' \<mapsto> lit ''x'' @ [10]))(lit ''r/b'' \<mapsto> lit ''y'' @ [10] @ lit ''z'' @ [10]), [])"


definition cr_patch :: rstr where
  "cr_patch = join_with [10] [lit ''*** Begin Patch'', lit ''*** Add File: a'', lit ''+x'' @ [13, 13, 13], lit ''*** End Patch'']"

text \<open>
  The condition on carriage returns is needed as well: each parse of a patch takes two carriage returns
  off the end of a line, and the patch of an action has been parsed once before.
\<close>

theorem parse_again_loses_carriage_return:
  "case parse_patch cr_patch of
     Inl e \<Rightarrow> False
   | Inr args \<Rightarrow>
       args_hunks args = [AddFile (lit ''a'') (lit ''x'' @ [13, 10])] \<and>
       (case parse_patch (args_patch args) of
          Inl e \<Rightarrow> False
        | Inr again \<Rightarrow> args_hunks again = [AddFile (lit ''a'') (lit ''x'' @ [10])])"
  by code_simp

end
