(* ===== verification/Turn_Diff.thy ===== *)
theory Turn_Diff
  imports Apply_Patch Utf8_Stream "HOL-Library.AList" "HOL-Library.List_Lexorder"
begin

text \<open>
  \<open>core/src/turn_diff_tracker.rs\<close>: the net diff of a turn, computed from the deltas of its patches
  without reading the files again.

  A \<open>HashMap\<close> is an association list with distinct keys. The order in which the code iterates over one
  is unspecified; it is the parameter \<open>hash_order\<close> of the record \<open>diff_env\<close>, which also holds what
  \<open>PathUri\<close>, \<open>sha1\<close> and \<open>similar\<close> compute. The counter of revisions is a natural number: a turn does not
  reach \<open>2 ^ 64\<close> of them.
\<close>

section \<open>State\<close>

definition ZERO_OID :: rstr where
  "ZERO_OID = lit ''0000000000000000000000000000000000000000''"

definition DEV_NULL :: rstr where
  "DEV_NULL = lit ''/dev/null''"

definition REGULAR_FILE_MODE :: rstr where
  "REGULAR_FILE_MODE = lit ''100644''"

record TrackedContent =
  tc_content :: rstr
  tc_revision :: nat

record 'p TrackedPath =
  tp_environment_id :: rstr
  tp_path :: 'p

record 'p DiffCacheKey =
  left_path :: "'p TrackedPath"
  left_revision :: "nat option"
  right_path :: "'p TrackedPath"
  right_revision :: "nat option"

record 'p TurnDiffTracker =
  td_valid :: bool
  td_display_roots :: "(rstr \<times> 'p) list"
  td_baseline :: "('p TrackedPath \<times> TrackedContent) list"
  td_current :: "('p TrackedPath \<times> TrackedContent) list"
  td_origin :: "('p TrackedPath \<times> 'p TrackedPath) list"
  td_next_revision :: nat
  td_rendered :: "('p DiffCacheKey \<times> rstr option) list"
  td_unified_diff :: "rstr option"

record 'p diff_env =
  relative_path_from :: "'p \<Rightarrow> 'p \<Rightarrow> rstr option"
  native_path_string :: "'p \<Rightarrow> rstr"
  sha1_hex :: "byte list \<Rightarrow> rstr"
  diff_lines :: "rstr \<Rightarrow> rstr \<Rightarrow> rstr \<Rightarrow> rstr \<Rightarrow> rstr"
  hash_order :: "'p TrackedPath list \<Rightarrow> 'p TrackedPath list"

definition new_tracker :: "'p TurnDiffTracker" where
  "new_tracker =
     \<lparr>td_valid = True, td_display_roots = [], td_baseline = [], td_current = [], td_origin = [],
      td_next_revision = 0, td_rendered = [], td_unified_diff = None\<rparr>"

definition with_environment_display_roots :: "(rstr \<times> 'p) list \<Rightarrow> 'p TurnDiffTracker" where
  "with_environment_display_roots display_roots =
     new_tracker\<lparr>td_display_roots := foldl (\<lambda>m (e, root). AList.update e root m) [] display_roots\<rparr>"

section \<open>Changes\<close>

definition tracked_content :: "rstr \<Rightarrow> 'p TurnDiffTracker \<Rightarrow> TrackedContent \<times> 'p TurnDiffTracker" where
  "tracked_content content tr =
     (\<lparr>tc_content = content, tc_revision = td_next_revision tr\<rparr>, tr\<lparr>td_next_revision := td_next_revision tr + 1\<rparr>)"

definition insert_baseline :: "'p TrackedPath \<Rightarrow> rstr \<Rightarrow> 'p TurnDiffTracker \<Rightarrow> 'p TurnDiffTracker" where
  "insert_baseline path content tr =
     (let (c, tr1) = tracked_content content tr in tr1\<lparr>td_baseline := AList.update path c (td_baseline tr1)\<rparr>)"

definition insert_current :: "'p TrackedPath \<Rightarrow> rstr \<Rightarrow> 'p TurnDiffTracker \<Rightarrow> 'p TurnDiffTracker" where
  "insert_current path content tr =
     (let (c, tr1) = tracked_content content tr in tr1\<lparr>td_current := AList.update path c (td_current tr1)\<rparr>)"

definition untracked :: "'p TrackedPath \<Rightarrow> 'p TurnDiffTracker \<Rightarrow> bool" where
  "untracked path tr \<longleftrightarrow> map_of (td_current tr) path = None \<and> map_of (td_baseline tr) path = None"

definition apply_add :: "'p TrackedPath \<Rightarrow> rstr \<Rightarrow> rstr option \<Rightarrow> 'p TurnDiffTracker \<Rightarrow> 'p TurnDiffTracker" where
  "apply_add path content overwritten_content tr =
     (let tr1 = tr\<lparr>td_origin := AList.delete path (td_origin tr)\<rparr>;
          tr2 = (case overwritten_content of
              Some overwritten \<Rightarrow> if untracked path tr1 then insert_baseline path overwritten tr1 else tr1
            | None \<Rightarrow> tr1)
      in insert_current path content tr2)"

definition apply_delete :: "'p TrackedPath \<Rightarrow> rstr \<Rightarrow> 'p TurnDiffTracker \<Rightarrow> 'p TurnDiffTracker" where
  "apply_delete path content tr =
     (let tr1 = tr\<lparr>td_current := AList.delete path (td_current tr)\<rparr>;
          tr2 = (if untracked path tr then insert_baseline path content tr1 else tr1)
      in tr2\<lparr>td_origin := AList.delete path (td_origin tr2)\<rparr>)"

definition apply_rename :: "'p TrackedPath \<Rightarrow> 'p TrackedPath \<Rightarrow> rstr option \<Rightarrow> rstr \<Rightarrow> 'p TurnDiffTracker \<Rightarrow> 'p TurnDiffTracker" where
  "apply_rename source_path dest_path overwritten_move_content new_content tr =
     (let tr1 = (case overwritten_move_content of
              Some overwritten \<Rightarrow> if untracked dest_path tr then insert_baseline dest_path overwritten tr else tr
            | None \<Rightarrow> tr);
          origin = (case map_of (td_origin tr1) source_path of Some path \<Rightarrow> path | None \<Rightarrow> source_path);
          tr2 = tr1\<lparr>td_origin := AList.delete source_path (td_origin tr1),
                    td_current := AList.delete source_path (td_current tr1)\<rparr>;
          tr3 = insert_current dest_path new_content tr2;
          tr4 = tr3\<lparr>td_origin := AList.delete dest_path (td_origin tr3)\<rparr>
      in if dest_path \<noteq> origin then tr4\<lparr>td_origin := AList.update dest_path origin (td_origin tr4)\<rparr> else tr4)"

definition apply_update :: "'p TrackedPath \<Rightarrow> 'p TrackedPath option \<Rightarrow> rstr \<Rightarrow> rstr option \<Rightarrow> rstr \<Rightarrow>
    'p TurnDiffTracker \<Rightarrow> 'p TurnDiffTracker" where
  "apply_update source_path move_path old_content overwritten_move_content new_content tr =
     (let tr1 = (if untracked source_path tr then insert_baseline source_path old_content tr else tr) in
      case move_path of
        Some dest_path \<Rightarrow> apply_rename source_path dest_path overwritten_move_content new_content tr1
      | None \<Rightarrow> insert_current source_path new_content tr1)"

fun apply_change :: "rstr \<Rightarrow> 'p \<times> 'p AppliedPatchFileChange \<Rightarrow> 'p TurnDiffTracker \<Rightarrow> 'p TurnDiffTracker" where
  "apply_change e (p, AppliedAdd content overwritten_content) tr =
     apply_add \<lparr>tp_environment_id = e, tp_path = p\<rparr> content overwritten_content tr"
| "apply_change e (p, AppliedDelete content) tr = apply_delete \<lparr>tp_environment_id = e, tp_path = p\<rparr> content tr"
| "apply_change e (p, AppliedUpdate move_path old_content overwritten_move_content new_content) tr =
     apply_update \<lparr>tp_environment_id = e, tp_path = p\<rparr>
       (map_option (\<lambda>q. \<lparr>tp_environment_id = e, tp_path = q\<rparr>) move_path) old_content overwritten_move_content new_content tr"

section \<open>Rendering\<close>

definition git_blob_oid :: "'p diff_env \<Rightarrow> rstr \<Rightarrow> rstr" where
  "git_blob_oid env content =
     (let data = utf8_encode content in sha1_hex env (lit ''blob '' @ show_nat (length data) @ [0] @ data))"

definition display_path :: "'p diff_env \<Rightarrow> (rstr \<times> 'p) list \<Rightarrow> 'p TrackedPath \<Rightarrow> rstr" where
  "display_path env roots path =
     (let display = (case Option.bind (map_of roots (tp_environment_id path)) (relative_path_from env (tp_path path)) of
              Some relative \<Rightarrow> relative
            | None \<Rightarrow> native_path_string env (tp_path path))
      in if 1 < length roots \<and> tp_environment_id path \<noteq> [] then tp_environment_id path @ [47] @ display else display)"

definition slashes :: "rstr \<Rightarrow> rstr" where
  "slashes s = map (\<lambda>c. if c = 92 then 47 else c) s"

definition oid_or_zero :: "'p diff_env \<Rightarrow> rstr option \<Rightarrow> rstr" where
  "oid_or_zero env content = (case content of None \<Rightarrow> ZERO_OID | Some c \<Rightarrow> git_blob_oid env c)"

definition mode_line :: "rstr option \<Rightarrow> rstr option \<Rightarrow> rstr" where
  "mode_line left_content right_content =
     (case (left_content, right_content) of
        (None, Some _) \<Rightarrow> lit ''new file mode '' @ REGULAR_FILE_MODE @ [10]
      | (Some _, None) \<Rightarrow> lit ''deleted file mode '' @ REGULAR_FILE_MODE @ [10]
      | _ \<Rightarrow> [])"

definition or_empty :: "rstr option \<Rightarrow> rstr" where
  "or_empty content = (case content of Some c \<Rightarrow> c | None \<Rightarrow> [])"

definition render_diff :: "'p diff_env \<Rightarrow> (rstr \<times> 'p) list \<Rightarrow> 'p TrackedPath \<Rightarrow> rstr option \<Rightarrow> 'p TrackedPath \<Rightarrow> rstr option \<Rightarrow>
    rstr option" where
  "render_diff env roots lpath left_content rpath right_content =
     (if left_content = right_content then None
      else
        (let left_display = slashes (display_path env roots lpath);
             right_display = slashes (display_path env roots rpath);
             old_header = (if left_content \<noteq> None then lit ''a/'' @ left_display else DEV_NULL);
             new_header = (if right_content \<noteq> None then lit ''b/'' @ right_display else DEV_NULL)
         in Some (lit ''diff --git a/'' @ left_display @ lit '' b/'' @ right_display @ [10] @
              mode_line left_content right_content @
              lit ''index '' @ oid_or_zero env left_content @ lit ''..'' @ oid_or_zero env right_content @ [10] @
              diff_lines env old_header new_header (or_empty left_content) (or_empty right_content))))"

definition hash_keys :: "'p diff_env \<Rightarrow> ('p TrackedPath \<times> 'v) list \<Rightarrow> 'p TrackedPath list" where
  "hash_keys env m = hash_order env (map fst m)"

text \<open>The filter and the collection of \<open>rename_pairs\<close>: a later pair of the same origin wins.\<close>

definition renamed_from :: "'p TurnDiffTracker \<Rightarrow> 'p TrackedPath \<Rightarrow> 'p TrackedPath option" where
  "renamed_from tr dest_path =
     (case map_of (td_origin tr) dest_path of
        None \<Rightarrow> None
      | Some origin_path \<Rightarrow>
          if dest_path = origin_path \<or> map_of (td_current tr) origin_path \<noteq> None \<or>
             map_of (td_current tr) dest_path = None \<or> map_of (td_baseline tr) origin_path = None \<or>
             map_of (td_baseline tr) dest_path \<noteq> None
          then None else Some origin_path)"

definition rename_pairs :: "'p diff_env \<Rightarrow> 'p TurnDiffTracker \<Rightarrow> ('p TrackedPath \<times> 'p TrackedPath) list" where
  "rename_pairs env tr =
     foldl (\<lambda>pairs dest_path. case renamed_from tr dest_path of
           Some origin_path \<Rightarrow> AList.update origin_path dest_path pairs
         | None \<Rightarrow> pairs)
       [] (hash_keys env (td_origin tr))"

definition push_section :: "rstr option \<Rightarrow> rstr \<Rightarrow> rstr" where
  "push_section rendered aggregated =
     (case rendered of
        None \<Rightarrow> aggregated
      | Some diff \<Rightarrow>
          (let agg = aggregated @ diff in if ends_with agg [10] then agg else agg @ [10]))"

fun refresh_loop :: "'p diff_env \<Rightarrow> 'p TurnDiffTracker \<Rightarrow> ('p TrackedPath \<times> 'p TrackedPath) list \<Rightarrow> 'p TrackedPath list \<Rightarrow>
    'p TrackedPath set \<Rightarrow> ('p DiffCacheKey \<times> rstr option) list \<Rightarrow> ('p DiffCacheKey \<times> rstr option) list \<Rightarrow> rstr \<Rightarrow>
    ('p DiffCacheKey \<times> rstr option) list \<times> rstr" where
  "refresh_loop env tr pairs [] handled previous rendered_diffs aggregated = (rendered_diffs, aggregated)"
| "refresh_loop env tr pairs (path # paths) handled previous rendered_diffs aggregated =
     (if path \<in> handled then refresh_loop env tr pairs paths handled previous rendered_diffs aggregated
      else if path \<in> snd ` set pairs then
        refresh_loop env tr pairs paths (insert path handled) previous rendered_diffs aggregated
      else
        (let dest = (case map_of pairs path of Some d \<Rightarrow> d | None \<Rightarrow> path);
             left_content = map_of (td_baseline tr) path;
             right_content = map_of (td_current tr) dest;
             key = \<lparr>left_path = path, left_revision = map_option tc_revision left_content,
                    right_path = dest, right_revision = map_option tc_revision right_content\<rparr>;
             rendered = (case map_of previous key of
                 Some r \<Rightarrow> r
               | None \<Rightarrow> render_diff env (td_display_roots tr) path (map_option tc_content left_content)
                   dest (map_option tc_content right_content))
         in refresh_loop env tr pairs paths (insert dest (insert path handled)) (AList.delete key previous)
              (AList.update key rendered rendered_diffs) (push_section rendered aggregated)))"

definition diff_paths :: "'p diff_env \<Rightarrow> 'p TurnDiffTracker \<Rightarrow> 'p TrackedPath list" where
  "diff_paths env tr =
     remdups_adj (sort_key (display_path env (td_display_roots tr)) (hash_keys env (td_baseline tr) @ hash_keys env (td_current tr)))"

definition refresh_unified_diff :: "'p diff_env \<Rightarrow> 'p TurnDiffTracker \<Rightarrow> 'p TurnDiffTracker" where
  "refresh_unified_diff env tr =
     (let (rendered_diffs, aggregated) =
            refresh_loop env tr (rename_pairs env tr) (diff_paths env tr) {} (td_rendered tr) [] []
      in tr\<lparr>td_rendered := rendered_diffs, td_unified_diff := if aggregated = [] then None else Some aggregated\<rparr>)"

section \<open>Interface\<close>

definition invalidate :: "'p TurnDiffTracker \<Rightarrow> 'p TurnDiffTracker" where
  "invalidate tr = tr\<lparr>td_valid := False, td_rendered := [], td_unified_diff := None\<rparr>"

definition track_delta :: "'p diff_env \<Rightarrow> rstr \<Rightarrow> 'p applied_patch_delta \<Rightarrow> 'p TurnDiffTracker \<Rightarrow> 'p TurnDiffTracker" where
  "track_delta env e delta tr =
     (if \<not> td_valid tr then tr
      else if \<not> exact delta then invalidate tr
      else refresh_unified_diff env (fold (apply_change e) (changes delta) tr))"

definition get_unified_diff :: "'p TurnDiffTracker \<Rightarrow> rstr option" where
  "get_unified_diff tr = td_unified_diff tr"

definition has_unified_diff :: "'p TurnDiffTracker \<Rightarrow> bool" where
  "has_unified_diff tr \<longleftrightarrow> td_unified_diff tr \<noteq> None"

section \<open>The tracker follows the files\<close>

lemmas alist_simps = update_conv' delete_conv'

lemma set_update_subset: "set (AList.update k v al) \<subseteq> insert (k, v) (set al)"
  by (induction al) auto

definition base :: "'p TurnDiffTracker \<Rightarrow> 'p TrackedPath \<Rightarrow> rstr option" where
  "base tr k = map_option tc_content (map_of (td_baseline tr) k)"

definition cur :: "'p TurnDiffTracker \<Rightarrow> 'p TrackedPath \<Rightarrow> rstr option" where
  "cur tr k = map_option tc_content (map_of (td_current tr) k)"

lemma map_simps [simp]:
  "base (insert_baseline k x tr) j = (if j = k then Some x else base tr j)" "cur (insert_baseline k x tr) j = cur tr j"
  "base (insert_current k x tr) j = base tr j" "cur (insert_current k x tr) j = (if j = k then Some x else cur tr j)"
  "base (tr\<lparr>td_origin := m\<rparr>) j = base tr j" "cur (tr\<lparr>td_origin := m\<rparr>) j = cur tr j"
  "base (tr\<lparr>td_current := c\<rparr>) j = base tr j"
  "cur (tr\<lparr>td_current := AList.delete k (td_current tr')\<rparr>) j = (if j = k then None else cur tr' j)"
  by (simp_all add: base_def cur_def insert_baseline_def insert_current_def tracked_content_def alist_simps)

lemma untracked_iff: "untracked k tr \<longleftrightarrow> cur tr k = None \<and> base tr k = None"
  by (simp add: untracked_def base_def cur_def)

type_synonym 'p views = "rstr \<Rightarrow> 'p \<Rightarrow> rstr option"

definition text_at :: "'p views \<Rightarrow> 'p TrackedPath \<Rightarrow> rstr option" where
  "text_at v k = v (tp_environment_id k) (tp_path k)"

lemma text_at_upd:
  "text_at (v(e := (v e)(p := x))) k = (if k = \<lparr>tp_environment_id = e, tp_path = p\<rparr> then x else text_at v k)"
  by (cases k) (simp add: text_at_def)

text \<open>
  The texts at the start of the turn are the baseline, and those of now the current ones: a file that is
  in one of them only was added or removed, and one in neither has not changed.
\<close>

definition linked :: "rstr option \<Rightarrow> rstr option \<Rightarrow> rstr option \<Rightarrow> rstr option \<Rightarrow> bool" where
  "linked old now b c \<longleftrightarrow>
     (if b = None \<and> c = None then now = old else old = b \<and> now = c)"

lemma linked_write: "linked old now b c \<Longrightarrow> linked old (Some x) (if b = None \<and> c = None then now else b) (Some x)"
  by (cases b; cases c) (auto simp: linked_def)

lemma linked_remove: "linked old (Some x) b c \<Longrightarrow> linked old None (if b = None \<and> c = None then Some x else b) None"
  by (cases b; cases c) (auto simp: linked_def)

definition tracks :: "'p views \<Rightarrow> 'p views \<Rightarrow> 'p TurnDiffTracker \<Rightarrow> bool" where
  "tracks v0 v tr \<longleftrightarrow> (\<forall>k. linked (text_at v0 k) (text_at v k) (base tr k) (cur tr k))"

lemma apply_add_maps:
  "base (apply_add k x ov tr) j = (if j = k \<and> untracked k tr then ov else base tr j)"
  "cur (apply_add k x ov tr) j = (if j = k then Some x else cur tr j)"
  by (auto simp: apply_add_def Let_def untracked_iff split: option.splits)

lemma apply_delete_maps:
  "base (apply_delete k x tr) j = (if j = k \<and> untracked k tr then Some x else base tr j)"
  "cur (apply_delete k x tr) j = (if j = k then None else cur tr j)"
  by (auto simp: apply_delete_def Let_def untracked_iff)

lemma apply_rename_maps:
  assumes "k \<noteq> l"
  shows "base (apply_rename k l ov x tr) j = (if j = l \<and> untracked l tr then ov else base tr j)"
    "cur (apply_rename k l ov x tr) j = (if j = l then Some x else if j = k then None else cur tr j)"
  using assms by (auto simp: apply_rename_def Let_def untracked_iff split: option.splits)

lemma apply_update_maps:
  "base (apply_update k None old ov x tr) j = (if j = k \<and> untracked k tr then Some old else base tr j)"
  "cur (apply_update k None old ov x tr) j = (if j = k then Some x else cur tr j)"
  by (auto simp: apply_update_def Let_def untracked_iff)

lemma apply_move_maps:
  assumes "k \<noteq> l"
  shows "base (apply_update k (Some l) old ov x tr) j =
      (if j = k \<and> untracked k tr then Some old else if j = l \<and> untracked l tr then ov else base tr j)"
    "cur (apply_update k (Some l) old ov x tr) j = (if j = l then Some x else if j = k then None else cur tr j)"
  using assms by (auto simp: apply_update_def Let_def apply_rename_maps untracked_iff)

fun self_move :: "'p \<times> 'p AppliedPatchFileChange \<Rightarrow> bool" where
  "self_move (p, AppliedUpdate (Some q) old ov new) \<longleftrightarrow> q = p"
| "self_move pc \<longleftrightarrow> False"

lemma undo_texts:
  "undo1 (p, AppliedAdd x ov) (replay1 (p, AppliedAdd x ov) v) = v \<Longrightarrow> v p = ov"
  "undo1 (p, AppliedDelete x) (replay1 (p, AppliedDelete x) v) = v \<Longrightarrow> v p = Some x"
  "undo1 (p, AppliedUpdate None old ov x) (replay1 (p, AppliedUpdate None old ov x) v) = v \<Longrightarrow> v p = Some old"
  "undo1 (p, AppliedUpdate (Some q) old ov x) (replay1 (p, AppliedUpdate (Some q) old ov x) v) = v \<Longrightarrow> q \<noteq> p \<Longrightarrow>
     v p = Some old \<and> v q = ov"
  by (auto dest: fun_cong [of _ _ p] fun_cong [of _ _ q])

lemma tracks_keep: "tracks v0 v tr \<Longrightarrow> linked (text_at v0 k) (text_at v k) (base tr k) (cur tr k)"
  by (simp add: tracks_def)

lemma tracks_write:
  "tracks v0 v tr \<Longrightarrow> linked (text_at v0 k) (Some x) (if untracked k tr then text_at v k else base tr k) (Some x)"
  using linked_write [OF tracks_keep, of v0 v tr k x] by (simp add: untracked_iff conj_commute)

lemma tracks_remove:
  "tracks v0 v tr \<Longrightarrow> text_at v k = Some x \<Longrightarrow>
   linked (text_at v0 k) None (if untracked k tr then Some x else base tr k) None"
  using linked_remove [of "text_at v0 k" x "base tr k" "cur tr k"] tracks_keep [of v0 v tr k]
  by (simp add: untracked_iff conj_commute)

lemma tracks_move:
  assumes tr: "tracks v0 v tr" and t: "v e p = Some old" "v e q = ov" and ne: "q \<noteq> p"
  shows "tracks v0 (v(e := ((v e)(q \<mapsto> x))(p := None)))
     (apply_update \<lparr>tp_environment_id = e, tp_path = p\<rparr> (Some \<lparr>tp_environment_id = e, tp_path = q\<rparr>) old ov x tr)"
    (is "tracks v0 ?v (apply_update ?k (Some ?l) old ov x tr)")
  unfolding tracks_def
proof
  fix j
  have kl: "?k \<noteq> ?l" using ne by simp
  have at: "text_at v ?k = Some old" "text_at v ?l = ov" using t by (simp_all add: text_at_def)
  have "text_at ?v j = (if j = ?k then None else if j = ?l then Some x else text_at v j)"
    using ne by (cases j) (simp add: text_at_def)
  with tracks_remove [OF tr at(1)] tracks_write [OF tr, of ?l x] tracks_keep [OF tr, of j] at kl
  show "linked (text_at v0 j) (text_at ?v j) (base (apply_update ?k (Some ?l) old ov x tr) j)
      (cur (apply_update ?k (Some ?l) old ov x tr) j)"
    unfolding apply_move_maps [OF kl] by (cases "j = ?k"; cases "j = ?l") (simp_all split: if_splits)
qed

lemma tracks_change:
  assumes tr: "tracks v0 v tr" and u: "undo1 pc (replay1 pc (v e)) = v e" and "\<not> self_move pc"
  shows "tracks v0 (v(e := replay1 pc (v e))) (apply_change e pc tr)"
proof -
  obtain p c where pc: "pc = (p, c)" by fastforce
  let ?k = "\<lparr>tp_environment_id = e, tp_path = p\<rparr>"
  have at: "text_at v ?k = v e p" by (simp add: text_at_def)
  consider x ov where "c = AppliedAdd x ov" | x where "c = AppliedDelete x"
    | old ov x where "c = AppliedUpdate None old ov x" | q old ov x where "c = AppliedUpdate (Some q) old ov x"
    by (metis AppliedPatchFileChange.exhaust option.exhaust)
  then show ?thesis
  proof cases
    case (1 x ov)
    with u pc at have "text_at v ?k = ov" using undo_texts(1) [of p x ov "v e"] by simp
    with tracks_write [OF tr, of ?k x] tracks_keep [OF tr] show ?thesis
      unfolding pc 1 tracks_def by (simp add: text_at_upd apply_add_maps split: if_splits)
  next
    case (2 x)
    with u pc at have "text_at v ?k = Some x" using undo_texts(2) [of p x "v e"] by simp
    from tracks_remove [OF tr this] tracks_keep [OF tr] show ?thesis
      unfolding pc 2 tracks_def by (simp add: text_at_upd apply_delete_maps split: if_splits)
  next
    case (3 old ov x)
    with u pc at have "text_at v ?k = Some old" using undo_texts(3) [of p old ov x "v e"] by simp
    with tracks_write [OF tr, of ?k x] tracks_keep [OF tr] show ?thesis
      unfolding pc 3 tracks_def by (simp add: text_at_upd apply_update_maps split: if_splits)
  next
    case (4 q old ov x)
    with u pc assms(3) undo_texts(4) [of p q old ov x "v e"] tracks_move [OF tr] show ?thesis by simp
  qed
qed

section \<open>The cache is transparent\<close>

text \<open>A revision stands for one text; an entry of the cache is the rendering of the texts of its key.\<close>

definition stored :: "'p TurnDiffTracker \<Rightarrow> TrackedContent set" where
  "stored tr = ran (map_of (td_baseline tr)) \<union> ran (map_of (td_current tr))"

definition knows :: "(nat \<rightharpoonup> rstr) \<Rightarrow> 'p TurnDiffTracker \<Rightarrow> bool" where
  "knows hist tr \<longleftrightarrow>
     (\<forall>c \<in> stored tr. hist (tc_revision c) = Some (tc_content c)) \<and> (\<forall>n \<ge> td_next_revision tr. hist n = None)"

definition entry_ok :: "'p diff_env \<Rightarrow> (rstr \<times> 'p) list \<Rightarrow> (nat \<rightharpoonup> rstr) \<Rightarrow> 'p DiffCacheKey \<times> rstr option \<Rightarrow> bool" where
  "entry_ok env roots hist entry \<longleftrightarrow>
     (\<forall>n. left_revision (fst entry) = Some n \<or> right_revision (fst entry) = Some n \<longrightarrow> hist n \<noteq> None) \<and>
     snd entry = render_diff env roots (left_path (fst entry)) (Option.bind (left_revision (fst entry)) hist)
       (right_path (fst entry)) (Option.bind (right_revision (fst entry)) hist)"

definition cache_ok :: "'p diff_env \<Rightarrow> 'p TurnDiffTracker \<Rightarrow> bool" where
  "cache_ok env tr \<longleftrightarrow> (\<exists>hist. knows hist tr \<and> (\<forall>entry \<in> set (td_rendered tr). entry_ok env (td_display_roots tr) hist entry))"

lemma entry_ok_mono:
  assumes "entry_ok env roots hist entry" "hist n = None"
  shows "entry_ok env roots (hist(n \<mapsto> x)) entry"
proof -
  have "Option.bind r (hist(n \<mapsto> x)) = Option.bind r hist" if "\<forall>m. r = Some m \<longrightarrow> hist m \<noteq> None" for r
    using that assms(2) by (cases r) auto
  with assms show ?thesis unfolding entry_ok_def by auto
qed

lemma stored_insert:
  "stored (insert_baseline k x tr) \<subseteq> insert \<lparr>tc_content = x, tc_revision = td_next_revision tr\<rparr> (stored tr)"
  "stored (insert_current k x tr) \<subseteq> insert \<lparr>tc_content = x, tc_revision = td_next_revision tr\<rparr> (stored tr)"
  by (auto simp: stored_def insert_baseline_def insert_current_def tracked_content_def alist_simps ran_def split: if_splits)

lemma insert_fields [simp]:
  "td_next_revision (insert_baseline k x tr) = Suc (td_next_revision tr)" "td_next_revision (insert_current k x tr) = Suc (td_next_revision tr)"
  "td_rendered (insert_baseline k x tr) = td_rendered tr" "td_rendered (insert_current k x tr) = td_rendered tr"
  "td_display_roots (insert_baseline k x tr) = td_display_roots tr" "td_display_roots (insert_current k x tr) = td_display_roots tr"
  "td_valid (insert_baseline k x tr) = td_valid tr" "td_valid (insert_current k x tr) = td_valid tr"
  by (simp_all add: insert_baseline_def insert_current_def tracked_content_def)

lemma knows_insert:
  assumes "knows hist tr" "stored tr' \<subseteq> insert \<lparr>tc_content = x, tc_revision = td_next_revision tr\<rparr> (stored tr)"
    "td_next_revision tr' = Suc (td_next_revision tr)"
  shows "knows (hist(td_next_revision tr \<mapsto> x)) tr'"
proof -
  have "tc_revision c \<noteq> td_next_revision tr" if "c \<in> stored tr" for c
    using that assms(1) by (auto simp: knows_def)
  with assms show ?thesis by (auto simp: knows_def)
qed

lemma cache_insert:
  assumes "cache_ok env tr"
  shows "cache_ok env (insert_baseline k x tr)" "cache_ok env (insert_current k x tr)"
proof -
  from assms obtain hist where h: "knows hist tr" "\<forall>entry \<in> set (td_rendered tr). entry_ok env (td_display_roots tr) hist entry"
    by (auto simp: cache_ok_def)
  let ?h = "hist(td_next_revision tr \<mapsto> x)"
  have n: "hist (td_next_revision tr) = None" using h(1) by (simp add: knows_def)
  have "knows ?h (insert_baseline k x tr)" "knows ?h (insert_current k x tr)"
    by (rule knows_insert [OF h(1)], rule stored_insert, simp)+
  moreover have "\<forall>entry \<in> set (td_rendered tr). entry_ok env (td_display_roots tr) ?h entry"
    using h(2) entry_ok_mono n by metis
  ultimately show "cache_ok env (insert_baseline k x tr)" "cache_ok env (insert_current k x tr)"
    unfolding cache_ok_def by auto
qed

lemma cache_frame:
  assumes "cache_ok env tr"
  shows "cache_ok env (tr\<lparr>td_origin := m\<rparr>)" "cache_ok env (tr\<lparr>td_current := AList.delete k (td_current tr)\<rparr>)"
    "cache_ok env (tr\<lparr>td_origin := m, td_current := AList.delete k (td_current tr)\<rparr>)"
proof -
  have sub: "stored (tr\<lparr>td_origin := m\<rparr>) \<subseteq> stored tr" "stored (tr\<lparr>td_current := AList.delete k (td_current tr)\<rparr>) \<subseteq> stored tr"
    "stored (tr\<lparr>td_origin := m, td_current := AList.delete k (td_current tr)\<rparr>) \<subseteq> stored tr"
    by (auto simp: stored_def alist_simps ran_def split: if_splits)
  have keep: "cache_ok env tr'" if "stored tr' \<subseteq> stored tr" "td_next_revision tr' = td_next_revision tr"
    "td_rendered tr' = td_rendered tr" "td_display_roots tr' = td_display_roots tr" for tr'
    using assms that unfolding cache_ok_def knows_def by (metis subsetD)
  show "cache_ok env (tr\<lparr>td_origin := m\<rparr>)" by (rule keep [OF sub(1)]) simp_all
  show "cache_ok env (tr\<lparr>td_current := AList.delete k (td_current tr)\<rparr>)" by (rule keep [OF sub(2)]) simp_all
  show "cache_ok env (tr\<lparr>td_origin := m, td_current := AList.delete k (td_current tr)\<rparr>)" by (rule keep [OF sub(3)]) simp_all
qed

lemma cache_change: "cache_ok env tr \<Longrightarrow> cache_ok env (apply_change e pc tr)"
proof -
  have rename: "cache_ok env tr \<Longrightarrow> cache_ok env (apply_rename k l ov x tr)" for k l ov x tr
    by (auto simp: apply_rename_def Let_def cache_insert cache_frame split: option.splits)
  assume "cache_ok env tr"
  with rename show ?thesis
    by (cases "(e, pc, tr)" rule: apply_change.cases)
      (auto simp: apply_add_def apply_delete_def apply_update_def Let_def cache_insert cache_frame split: option.splits)
qed

section \<open>The diff of two views\<close>

text \<open>
  The reference: one section for every listed path that is not the destination of a rename, between its
  text at the start and the text it has now, at its new place if it was renamed.
\<close>

fun first_seen :: "'a set \<Rightarrow> 'a list \<Rightarrow> 'a list" where
  "first_seen S [] = []"
| "first_seen S (x # xs) = (if x \<in> S then first_seen S xs else x # first_seen (insert x S) xs)"

definition now_at :: "('p TrackedPath \<times> 'p TrackedPath) list \<Rightarrow> 'p TrackedPath \<Rightarrow> 'p TrackedPath" where
  "now_at pairs path = (case map_of pairs path of Some d \<Rightarrow> d | None \<Rightarrow> path)"

definition section_of :: "'p diff_env \<Rightarrow> (rstr \<times> 'p) list \<Rightarrow> ('p TrackedPath \<Rightarrow> rstr option) \<Rightarrow> ('p TrackedPath \<Rightarrow> rstr option) \<Rightarrow>
    ('p TrackedPath \<times> 'p TrackedPath) list \<Rightarrow> 'p TrackedPath \<Rightarrow> rstr option" where
  "section_of env roots old now pairs path = render_diff env roots path (old path) (now_at pairs path) (now (now_at pairs path))"

definition left_paths :: "('p TrackedPath \<times> 'p TrackedPath) list \<Rightarrow> 'p TrackedPath set \<Rightarrow> 'p TrackedPath list \<Rightarrow> 'p TrackedPath list" where
  "left_paths pairs S paths = filter (\<lambda>p. p \<notin> snd ` set pairs) (first_seen S paths)"

definition reference_diff :: "'p diff_env \<Rightarrow> (rstr \<times> 'p) list \<Rightarrow> ('p TrackedPath \<Rightarrow> rstr option) \<Rightarrow> ('p TrackedPath \<Rightarrow> rstr option) \<Rightarrow>
    ('p TrackedPath \<times> 'p TrackedPath) list \<Rightarrow> 'p TrackedPath list \<Rightarrow> rstr" where
  "reference_diff env roots old now pairs paths =
     fold push_section (map (section_of env roots old now pairs) (left_paths pairs {} paths)) []"

lemma left_paths_insert:
  "d \<in> snd ` set pairs \<Longrightarrow> left_paths pairs (insert d S) paths = left_paths pairs S paths"
  by (induction paths arbitrary: S) (auto simp: left_paths_def insert_commute [of _ d])

lemma refresh_loop_reference:
  assumes "knows hist tr" "\<forall>entry \<in> set previous. entry_ok env (td_display_roots tr) hist entry"
    "\<forall>entry \<in> set rendered. entry_ok env (td_display_roots tr) hist entry"
    "refresh_loop env tr pairs paths handled previous rendered agg = (rendered', agg')"
  shows "(\<forall>entry \<in> set rendered'. entry_ok env (td_display_roots tr) hist entry) \<and>
     agg' = fold push_section (map (section_of env (td_display_roots tr) (base tr) (cur tr) pairs) (left_paths pairs handled paths)) agg"
  using assms(2-4)
proof (induction paths arbitrary: handled previous rendered agg)
  case Nil
  then show ?case by (simp add: left_paths_def)
next
  case (Cons path paths)
  consider "path \<in> handled" | "path \<notin> handled" "path \<in> snd ` set pairs" | "path \<notin> handled" "path \<notin> snd ` set pairs" by blast
  then show ?case
  proof cases
    case 1
    with Cons.prems(3) have "refresh_loop env tr pairs paths handled previous rendered agg = (rendered', agg')" by simp
    from Cons.IH [OF Cons.prems(1,2) this] 1 show ?thesis by (simp add: left_paths_def)
  next
    case 2
    with Cons.prems(3) have "refresh_loop env tr pairs paths (insert path handled) previous rendered agg = (rendered', agg')" by simp
    from Cons.IH [OF Cons.prems(1,2) this] 2 show ?thesis by (simp add: left_paths_def)
  next
    case 3
    let ?d = "now_at pairs path" and ?roots = "td_display_roots tr"
    let ?l = "map_of (td_baseline tr) path" and ?r = "map_of (td_current tr) (now_at pairs path)"
    let ?key = "\<lparr>left_path = path, left_revision = map_option tc_revision ?l, right_path = ?d,
      right_revision = map_option tc_revision ?r\<rparr>"
    let ?s = "section_of env ?roots (base tr) (cur tr) pairs path"
    have texts: "Option.bind (map_option tc_revision c) hist = map_option tc_content c \<and>
        (\<forall>n. map_option tc_revision c = Some n \<longrightarrow> hist n \<noteq> None)"
      if "c = ?l \<or> c = ?r" for c
    proof (cases c)
      case (Some a)
      with that have "a \<in> stored tr" by (auto simp: stored_def ran_def eq_commute [of "Some a"])
      with assms(1) Some show ?thesis by (simp add: knows_def)
    qed simp
    have ok: "entry_ok env ?roots hist (?key, x) \<longleftrightarrow> x = ?s" for x
      using texts [of ?l] texts [of ?r] by (auto simp: entry_ok_def section_of_def base_def cur_def)
    have r: "(case map_of previous ?key of Some r \<Rightarrow> r
        | None \<Rightarrow> render_diff env ?roots path (map_option tc_content ?l) ?d (map_option tc_content ?r)) = ?s"
      using Cons.prems(1) ok by (auto simp: section_of_def base_def cur_def split: option.splits dest!: map_of_SomeD)
    have rest: "refresh_loop env tr pairs paths (insert ?d (insert path handled)) (AList.delete ?key previous)
        (AList.update ?key ?s rendered) (push_section ?s agg) = (rendered', agg')"
      using Cons.prems(3) 3 r by (simp add: Let_def now_at_def [symmetric])
    have prev: "\<forall>entry \<in> set (AList.delete ?key previous). entry_ok env ?roots hist entry"
      using Cons.prems(1) by (auto simp: AList.delete_eq)
    have rend: "\<forall>entry \<in> set (AList.update ?key ?s rendered). entry_ok env ?roots hist entry"
      using Cons.prems(2) ok set_update_subset [of ?key ?s rendered] by blast
    have "left_paths pairs (insert ?d (insert path handled)) paths = left_paths pairs (insert path handled) paths"
    proof (cases "map_of pairs path")
      case None
      then show ?thesis by (simp add: now_at_def insert_absorb)
    next
      case (Some d)
      then have "d \<in> snd ` set pairs" by (force dest: map_of_SomeD)
      with Some show ?thesis by (simp add: now_at_def left_paths_insert)
    qed
    with Cons.IH [OF prev rend rest] 3 show ?thesis by (simp add: left_paths_def)
  qed
qed

definition hash_ok :: "'p diff_env \<Rightarrow> bool" where
  "hash_ok env \<longleftrightarrow> (\<forall>ks. set (hash_order env ks) = set ks)"

lemma diff_paths_tracked: "hash_ok env \<Longrightarrow> k \<in> set (diff_paths env tr) \<longleftrightarrow> base tr k \<noteq> None \<or> cur tr k \<noteq> None"
  by (auto simp: diff_paths_def hash_keys_def hash_ok_def base_def cur_def map_of_eq_None_iff image_iff)

lemma rename_pairs_from: "(p, d) \<in> set (rename_pairs env tr) \<Longrightarrow> renamed_from tr d = Some p"
proof -
  let ?f = "\<lambda>pairs dest_path. case renamed_from tr dest_path of
      Some origin_path \<Rightarrow> AList.update origin_path dest_path pairs | None \<Rightarrow> pairs"
  have "\<forall>(p, d) \<in> set acc. renamed_from tr d = Some p \<Longrightarrow> \<forall>(p, d) \<in> set (foldl ?f acc ks). renamed_from tr d = Some p" for acc ks
  proof (induction ks arbitrary: acc)
    case (Cons k ks)
    have "\<forall>(p, d) \<in> set (?f acc k). renamed_from tr d = Some p"
      using Cons.prems set_update_subset [of _ k acc] by (auto split: option.splits)
    from Cons.IH [OF this] show ?case by simp
  qed simp
  from this [of "[]" "hash_keys env (td_origin tr)"] show "(p, d) \<in> set (rename_pairs env tr) \<Longrightarrow> renamed_from tr d = Some p"
    by (auto simp: rename_pairs_def)
qed

lemma first_seen_subset: "set (first_seen S xs) \<subseteq> set xs"
  by (induction xs arbitrary: S) (simp_all, blast)

lemma tracks_texts:
  assumes "tracks v0 v tr" "base tr k \<noteq> None \<or> cur tr k \<noteq> None"
  shows "base tr k = text_at v0 k" "cur tr k = text_at v k"
  using tracks_keep [OF assms(1), of k] assms(2) by (auto simp: linked_def split: if_splits)

lemma section_of_views:
  assumes "tracks v0 v tr" "hash_ok env" "p \<in> set (diff_paths env tr)"
  shows "section_of env roots (base tr) (cur tr) (rename_pairs env tr) p =
    section_of env roots (text_at v0) (text_at v) (rename_pairs env tr) p"
proof -
  let ?d = "now_at (rename_pairs env tr) p"
  have p: "base tr p \<noteq> None \<or> cur tr p \<noteq> None" using assms(2,3) diff_paths_tracked by blast
  have "base tr ?d \<noteq> None \<or> cur tr ?d \<noteq> None"
  proof (cases "map_of (rename_pairs env tr) p")
    case None
    with p show ?thesis by (simp add: now_at_def)
  next
    case (Some d)
    then have "renamed_from tr d = Some p" by (intro rename_pairs_from) (rule map_of_SomeD)
    with Some show ?thesis by (auto simp: now_at_def renamed_from_def cur_def split: option.splits if_splits)
  qed
  with p tracks_texts [OF assms(1)] show ?thesis by (simp add: section_of_def)
qed

lemma refresh_reference:
  assumes "tracks v0 v tr" "cache_ok env tr" "hash_ok env"
  shows "cache_ok env (refresh_unified_diff env tr) \<and>
    td_unified_diff (refresh_unified_diff env tr) =
      (let r = reference_diff env (td_display_roots tr) (text_at v0) (text_at v) (rename_pairs env tr) (diff_paths env tr) in
       if r = [] then None else Some r)"
proof -
  from assms(2) obtain hist where h: "knows hist tr" "\<forall>entry \<in> set (td_rendered tr). entry_ok env (td_display_roots tr) hist entry"
    by (auto simp: cache_ok_def)
  obtain rd agg where l: "refresh_loop env tr (rename_pairs env tr) (diff_paths env tr) {} (td_rendered tr) [] [] = (rd, agg)"
    by fastforce
  from refresh_loop_reference [OF h _ l] have r: "\<forall>entry \<in> set rd. entry_ok env (td_display_roots tr) hist entry"
    "agg = fold push_section (map (section_of env (td_display_roots tr) (base tr) (cur tr) (rename_pairs env tr))
       (left_paths (rename_pairs env tr) {} (diff_paths env tr))) []" by auto
  have "map (section_of env (td_display_roots tr) (base tr) (cur tr) (rename_pairs env tr)) (left_paths (rename_pairs env tr) {} (diff_paths env tr)) =
      map (section_of env (td_display_roots tr) (text_at v0) (text_at v) (rename_pairs env tr)) (left_paths (rename_pairs env tr) {} (diff_paths env tr))"
    using section_of_views [OF assms(1,3)] first_seen_subset [of "{}" "diff_paths env tr"]
    by (intro map_cong refl) (auto simp: left_paths_def)
  with r(2) have "agg = reference_diff env (td_display_roots tr) (text_at v0) (text_at v) (rename_pairs env tr) (diff_paths env tr)"
    by (simp add: reference_diff_def)
  moreover have "knows hist (tr\<lparr>td_rendered := rd, td_unified_diff := u\<rparr>)" for u using h(1) by (simp add: knows_def stored_def)
  ultimately show ?thesis using l r(1) by (auto simp: refresh_unified_diff_def cache_ok_def Let_def)
qed

section \<open>A turn\<close>

text \<open>The patches of a turn in one environment, each applied and then tracked.\<close>

fun run_turn :: "('s, 'p) host \<Rightarrow> apply_patch_options \<Rightarrow> 'p diff_env \<Rightarrow> rstr \<Rightarrow> (rstr \<times> 'p) list \<Rightarrow> 's \<Rightarrow> 'p TurnDiffTracker \<Rightarrow>
    ('p applied_patch_delta list \<times> 's \<times> 'p TurnDiffTracker) option" where
  "run_turn h opts env e [] s tr = Some ([], s, tr)"
| "run_turn h opts env e ((patch, cwd) # patches) s tr =
     (case apply_patch_with_options h patch opts cwd s of
        None \<Rightarrow> None
      | Some (r, s1) \<Rightarrow>
          (case run_turn h opts env e patches s1 (track_delta env e (result_delta r) tr) of
             None \<Rightarrow> None
           | Some (ds, s2, tr2) \<Rightarrow> Some (result_delta r # ds, s2, tr2)))"

definition tracked_well :: "'p diff_env \<Rightarrow> 'p views \<Rightarrow> 'p views \<Rightarrow> 'p TurnDiffTracker \<Rightarrow> bool" where
  "tracked_well env v0 v tr \<longleftrightarrow>
     td_valid tr \<and> tracks v0 v tr \<and> cache_ok env tr \<and>
     td_unified_diff tr =
       (let r = reference_diff env (td_display_roots tr) (text_at v0) (text_at v) (rename_pairs env tr) (diff_paths env tr) in
        if r = [] then None else Some r)"

lemma tracked_well_new: "hash_ok env \<Longrightarrow> tracked_well env v0 v0 (with_environment_display_roots roots)"
proof -
  assume h: "hash_ok env"
  let ?tr = "with_environment_display_roots roots"
  have e: "td_baseline ?tr = []" "td_current ?tr = []" "td_rendered ?tr = []" "td_unified_diff ?tr = None" "td_valid ?tr"
    by (simp_all add: with_environment_display_roots_def new_tracker_def)
  have "diff_paths env ?tr = []" using diff_paths_tracked [OF h, of _ ?tr] e(1,2) by (metis base_def cur_def ex_in_conv map_of.simps(1) option.simps(8) set_empty)
  moreover have "knows Map.empty ?tr" using e by (simp add: knows_def stored_def)
  ultimately show "tracked_well env v0 v0 ?tr"
    using e by (auto simp: tracked_well_def tracks_def linked_def base_def cur_def cache_ok_def reference_diff_def left_paths_def)
qed

lemma apply_change_valid [simp]: "td_valid (apply_change e pc tr) = td_valid tr"
  by (cases "(e, pc, tr)" rule: apply_change.cases)
    (auto simp: apply_add_def apply_delete_def apply_update_def apply_rename_def Let_def split: option.splits)

lemma fold_changes:
  assumes "tracks v0 v tr" "cache_ok env tr" "truthful cs (v e)" "\<forall>pc \<in> set cs. \<not> self_move pc"
  shows "tracks v0 (v(e := replay cs (v e))) (fold (apply_change e) cs tr) \<and> cache_ok env (fold (apply_change e) cs tr) \<and>
    td_valid (fold (apply_change e) cs tr) = td_valid tr"
  using assms
proof (induction cs arbitrary: v tr)
  case (Cons pc cs)
  let ?v = "v(e := replay1 pc (v e))"
  have "tracks v0 ?v (apply_change e pc tr)" using Cons.prems by (intro tracks_change) auto
  from Cons.IH [OF this cache_change [OF Cons.prems(2)]] Cons.prems(3,4) show ?case
    by (simp only: fun_upd_upd fun_upd_same fold_simps replay_simps truthful.simps list.set insert_iff apply_change_valid) blast
qed (simp add: fun_upd_idem)

lemma renamed_from_frame [simp]: "renamed_from (tr\<lparr>td_rendered := rd, td_unified_diff := u\<rparr>) = renamed_from tr"
  by (rule ext) (simp add: renamed_from_def cong: option.case_cong if_cong)

lemma refresh_frame:
  "base (refresh_unified_diff env tr) = base tr" "cur (refresh_unified_diff env tr) = cur tr"
  "td_valid (refresh_unified_diff env tr) = td_valid tr" "td_display_roots (refresh_unified_diff env tr) = td_display_roots tr"
  "rename_pairs env (refresh_unified_diff env tr) = rename_pairs env tr" "diff_paths env (refresh_unified_diff env tr) = diff_paths env tr"
proof -
  obtain rd agg where "refresh_loop env tr (rename_pairs env tr) (diff_paths env tr) {} (td_rendered tr) [] [] = (rd, agg)"
    by fastforce
  then obtain u where r: "refresh_unified_diff env tr = tr\<lparr>td_rendered := rd, td_unified_diff := u\<rparr>"
    by (simp add: refresh_unified_diff_def)
  show "base (refresh_unified_diff env tr) = base tr" "cur (refresh_unified_diff env tr) = cur tr"
    "td_valid (refresh_unified_diff env tr) = td_valid tr" "td_display_roots (refresh_unified_diff env tr) = td_display_roots tr"
    "rename_pairs env (refresh_unified_diff env tr) = rename_pairs env tr" "diff_paths env (refresh_unified_diff env tr) = diff_paths env tr"
    unfolding r by (simp_all add: base_def cur_def fun_eq_iff rename_pairs_def hash_keys_def diff_paths_def)
qed

lemma track_delta_well:
  assumes "tracked_well env v0 v tr" "hash_ok env" "exact d" "truthful (changes d) (v e)" "\<forall>pc \<in> set (changes d). \<not> self_move pc"
  shows "tracked_well env v0 (v(e := replay (changes d) (v e))) (track_delta env e d tr)"
proof -
  from assms(1) have w: "td_valid tr" "tracks v0 v tr" "cache_ok env tr" by (simp_all add: tracked_well_def)
  note f = fold_changes [OF w(2,3) assms(4,5)]
  let ?v = "v(e := replay (changes d) (v e))" and ?tr = "fold (apply_change e) (changes d) tr"
  have "tracks v0 ?v (refresh_unified_diff env ?tr)" using f by (simp add: tracks_def refresh_frame)
  with f refresh_reference [OF _ _ assms(2), of v0 ?v ?tr] w(1) assms(3) show ?thesis
    by (simp add: track_delta_def tracked_well_def refresh_frame)
qed

lemma apply_patch_truthful:
  assumes "text_fs h (follow_symlinks opts) view" "quiet_output h view"
    "apply_patch_with_options h patch opts cwd s = Some (r, s')" "exact (result_delta r)"
  shows "truthful (changes (result_delta r)) (view s) \<and> view s' = replay (changes (result_delta r)) (view s)"
  using apply_patch_files [OF assms(1-3)] assms(4) by (auto simp: commits_def)

lemma run_turn_well:
  assumes fs: "text_fs h (follow_symlinks opts) view" "quiet_output h view" "hash_ok env"
    and "run_turn h opts env e patches s tr = Some (ds, s', tr')" "tracked_well env v0 v tr" "v e = view s"
    and "\<forall>d \<in> set ds. exact d \<and> (\<forall>pc \<in> set (changes d). \<not> self_move pc)"
  shows "tracked_well env v0 (v(e := view s')) tr'"
  using assms(4-)
proof (induction patches arbitrary: s tr v ds)
  case Nil
  then show ?case by (simp add: fun_upd_idem)
next
  case (Cons pc patches)
  obtain patch cwd where pc: "pc = (patch, cwd)" by fastforce
  from Cons.prems(1) pc obtain r s1 ds1 where
    st: "apply_patch_with_options h patch opts cwd s = Some (r, s1)" "ds = result_delta r # ds1"
    "run_turn h opts env e patches s1 (track_delta env e (result_delta r) tr) = Some (ds1, s', tr')"
    by (auto split: option.splits)
  from Cons.prems(4) st(2) have d: "exact (result_delta r)" "\<forall>pc \<in> set (changes (result_delta r)). \<not> self_move pc" by simp_all
  note t = apply_patch_truthful [OF fs(1,2) st(1) d(1)]
  let ?v = "v(e := view s1)"
  have w: "tracked_well env v0 ?v (track_delta env e (result_delta r) tr)"
    using track_delta_well [OF Cons.prems(2) fs(3) d(1) _ d(2), of e] t Cons.prems(3) by simp
  have "\<forall>d \<in> set ds1. exact d \<and> (\<forall>pc \<in> set (changes d). \<not> self_move pc)" using Cons.prems(4) st(2) by simp
  from Cons.IH [OF st(3) w fun_upd_same [of v e "view s1"] this] show ?case unfolding fun_upd_upd .
qed

definition in_environment :: "rstr \<Rightarrow> ('p \<Rightarrow> rstr option) \<Rightarrow> 'p views" where
  "in_environment e v = (\<lambda>_ _. None)(e := v)"

lemma in_environment_upd [simp]: "(in_environment e v)(e := w) = in_environment e w"
  unfolding in_environment_def fun_upd_upd ..

lemma run_turn_tracked:
  assumes "text_fs h (follow_symlinks opts) view" "quiet_output h view" "hash_ok env"
    and "run_turn h opts env e patches s (with_environment_display_roots roots) = Some (ds, s', tr)"
    and "\<forall>d \<in> set ds. exact d \<and> (\<forall>pc \<in> set (changes d). \<not> self_move pc)"
  shows "tracked_well env (in_environment e (view s)) (in_environment e (view s')) tr"
proof -
  have "in_environment e (view s) e = view s" by (simp add: in_environment_def)
  from run_turn_well [OF assms(1-4) tracked_well_new [OF assms(3), of "in_environment e (view s)"] this assms(5)]
  show ?thesis unfolding in_environment_upd .
qed

lemma text_in_environment:
  "text_at (in_environment e v) k = (if tp_environment_id k = e then v (tp_path k) else None)"
  by (simp add: text_at_def in_environment_def)

lemma push_section_Nil: "push_section r agg = [] \<longleftrightarrow> agg = [] \<and> r = None"
  by (cases r) (auto simp: push_section_def Let_def ends_with_def strip_suffix_def)

lemma fold_push_sections: "fold push_section rs agg = [] \<longleftrightarrow> agg = [] \<and> (\<forall>r \<in> set rs. r = None)"
  by (induction rs arbitrary: agg) (auto simp: push_section_Nil)

lemma render_diff_None: "render_diff env roots p x q y = None \<longleftrightarrow> x = y"
  by (simp add: render_diff_def Let_def)

lemma first_seen_set: "set (first_seen S xs) = set xs - S"
  by (induction xs arbitrary: S) auto

lemma reference_diff_empty:
  "reference_diff env roots old now pairs paths = [] \<longleftrightarrow>
   (\<forall>p \<in> set paths. p \<notin> snd ` set pairs \<longrightarrow> old p = now (now_at pairs p))"
  by (auto simp: reference_diff_def fold_push_sections section_of_def render_diff_None left_paths_def first_seen_set)

lemma distinct_rename_pairs: "distinct (map fst (rename_pairs env tr))"
proof -
  let ?f = "\<lambda>pairs dest_path. case renamed_from tr dest_path of
      Some origin_path \<Rightarrow> AList.update origin_path dest_path pairs | None \<Rightarrow> pairs"
  have "distinct (map fst acc) \<Longrightarrow> distinct (map fst (foldl ?f acc ks))" for acc ks
    by (induction ks arbitrary: acc) (auto simp: distinct_update split: option.splits)
  then show ?thesis by (simp add: rename_pairs_def)
qed

section \<open>A concrete turn\<close>

definition sample_diff_env :: "rstr diff_env" where
  "sample_diff_env =
     \<lparr>relative_path_from = (\<lambda>p root. if starts_with p (root @ [47]) then Some (drop (length root + 1) p) else None),
      native_path_string = (\<lambda>p. p), sha1_hex = (\<lambda>data. show_nat (sum_list data)),
      diff_lines = (\<lambda>old new x y. lit ''--- '' @ old @ [10] @ lit ''+++ '' @ new @ [10] @ [45] @ x @ [43] @ y),
      hash_order = (\<lambda>ks. ks)\<rparr>"

lemma sample_hash_ok: "hash_ok sample_diff_env"
  by (simp add: hash_ok_def sample_diff_env_def)

definition sample_roots :: "(rstr \<times> rstr) list" where
  "sample_roots = [(lit ''local'', lit ''r'')]"

definition sample_tracker :: "rstr TurnDiffTracker" where
  "sample_tracker = track_delta sample_diff_env (lit ''local'') sample_delta (with_environment_display_roots sample_roots)"

lemma sample_turn:
  "\<exists>w. run_turn mem_host default_options sample_diff_env (lit ''local'') [(sample_patch, lit ''r'')] sample_world
     (with_environment_display_roots sample_roots) = Some ([sample_delta], w, sample_tracker)"
  using sample_run by (auto simp: sample_tracker_def)

lemma sample_delta_fit: "\<forall>d \<in> set [sample_delta]. exact d \<and> (\<forall>pc \<in> set (changes d). \<not> self_move pc)"
  by code_simp

definition track_changes :: "rstr diff_env \<Rightarrow> (rstr \<times> rstr AppliedPatchFileChange) list list \<Rightarrow> rstr TurnDiffTracker" where
  "track_changes env css =
     fold (\<lambda>cs. track_delta env (lit ''local'') \<lparr>changes = cs, exact = True\<rparr>) css (with_environment_display_roots sample_roots)"

text \<open>A file is renamed and edited, and then the edit is taken back.\<close>

definition rename_and_back :: "(rstr \<times> rstr AppliedPatchFileChange) list list" where
  "rename_and_back =
     [[(lit ''r/a'', AppliedUpdate (Some (lit ''r/b'')) (lit ''x'' @ [10]) None (lit ''y'' @ [10]))],
      [(lit ''r/b'', AppliedUpdate None (lit ''y'' @ [10]) None (lit ''x'' @ [10]))]]"

text \<open>A file is renamed, a new one takes its place, and that one is renamed as well.\<close>

definition renamed_twice :: "(rstr \<times> rstr AppliedPatchFileChange) list list" where
  "renamed_twice =
     [[(lit ''r/a'', AppliedUpdate (Some (lit ''r/b'')) (lit ''x'' @ [10]) None (lit ''y'' @ [10])),
       (lit ''r/a'', AppliedAdd (lit ''u'' @ [10]) None),
       (lit ''r/a'', AppliedUpdate (Some (lit ''r/c'')) (lit ''u'' @ [10]) None (lit ''w'' @ [10]))]]"

section \<open>Properties\<close>



text \<open>
  No diff is shown exactly for turns without net changes, but for one gap: a file that was renamed and
  has the same text in the end as before, at another place, does not appear.
\<close>

theorem no_turn_diff:
  assumes "text_fs h (follow_symlinks opts) view" "quiet_output h view" "hash_ok env"
    and "run_turn h opts env e patches s (with_environment_display_roots roots) = Some (ds, s', tr)"
    and "\<forall>d \<in> set ds. exact d \<and> (\<forall>pc \<in> set (changes d). \<not> self_move pc)"
  shows "(view s' = view s \<longrightarrow> get_unified_diff tr = None) \<and>
    (get_unified_diff tr = None \<longrightarrow>
      (\<forall>p. view s' p = view s p \<or> view s p \<noteq> None \<and> (\<exists>q. q \<noteq> p \<and> view s q = None \<and> view s' q = view s p) \<or>
        view s' p \<noteq> None \<and> (\<exists>q. q \<noteq> p \<and> view s' q = None \<and> view s q = view s' p)))"
proof -
  let ?old = "text_at (in_environment e (view s))" and ?now = "text_at (in_environment e (view s'))"
  let ?pairs = "rename_pairs env tr"
  from run_turn_tracked [OF assms] have tr: "tracks (in_environment e (view s)) (in_environment e (view s')) tr" and
    none: "get_unified_diff tr = None \<longleftrightarrow> (\<forall>p \<in> set (diff_paths env tr). p \<notin> snd ` set ?pairs \<longrightarrow> ?old p = ?now (now_at ?pairs p))"
    by (simp_all add: tracked_well_def get_unified_diff_def Let_def reference_diff_empty)
  have pair: "?old a \<noteq> None \<and> ?now a = None \<and> ?old d = None \<and> ?now d \<noteq> None" if "(a, d) \<in> set ?pairs" for a d
    using rename_pairs_from [OF that] tracks_texts [OF tr, of a, symmetric] tracks_texts [OF tr, of d, symmetric]
    by (auto simp: renamed_from_def base_def cur_def split: option.splits if_splits)
  have "get_unified_diff tr = None" if "view s' = view s"
  proof -
    from that pair have "?pairs = []" by (cases ?pairs) force+
    with that none show ?thesis by (simp add: now_at_def)
  qed
  moreover have "view s' p = view s p \<or> view s p \<noteq> None \<and> (\<exists>q. q \<noteq> p \<and> view s q = None \<and> view s' q = view s p) \<or>
      view s' p \<noteq> None \<and> (\<exists>q. q \<noteq> p \<and> view s' q = None \<and> view s q = view s' p)"
    if n: "get_unified_diff tr = None" for p
  proof -
    let ?k = "\<lparr>tp_environment_id = e, tp_path = p\<rparr>"
    have at: "?old ?k = view s p" "?now ?k = view s' p" by (simp_all add: text_in_environment)
    consider "?k \<notin> set (diff_paths env tr)" | q where "(q, ?k) \<in> set ?pairs"
      | "?k \<in> set (diff_paths env tr)" "?k \<notin> snd ` set ?pairs"
      by force
    then show ?thesis
    proof cases
      case 1
      then have "base tr ?k = None" "cur tr ?k = None" using diff_paths_tracked [OF assms(3), of ?k tr] by auto
      with tracks_keep [OF tr, of ?k] at show ?thesis by (simp add: linked_def)
    next
      case (2 q)
      have q: "q \<in> set (diff_paths env tr)"
        using rename_pairs_from [OF 2] diff_paths_tracked [OF assms(3)] by (auto simp: renamed_from_def base_def split: option.splits if_splits)
      moreover have "q \<notin> snd ` set ?pairs" using pair [OF 2] pair by force
      moreover have "now_at ?pairs q = ?k" using map_of_is_SomeI [OF distinct_rename_pairs 2] by (simp add: now_at_def)
      ultimately have eq: "?old q = ?now ?k" using n none by metis
      with pair [OF 2] at have "tp_environment_id q = e" by (auto simp: text_in_environment split: if_splits)
      with eq pair [OF 2] at have "view s (tp_path q) = view s' p" "view s' (tp_path q) = None" "view s' p \<noteq> None"
        by (simp_all add: text_in_environment)
      then show ?thesis by (metis option.distinct(1))
    next
      case 3
      with n none have eq: "?old ?k = ?now (now_at ?pairs ?k)" by blast
      show ?thesis
      proof (cases "map_of ?pairs ?k")
        case None
        with eq at show ?thesis by (simp add: now_at_def)
      next
        case (Some d)
        then have "(?k, d) \<in> set ?pairs" by (rule map_of_SomeD)
        note d = pair [OF this]
        have "now_at ?pairs ?k = d" using Some by (simp add: now_at_def)
        with eq have eq: "?old ?k = ?now d" by simp
        with d have "tp_environment_id d = e" by (auto simp: text_in_environment split: if_splits)
        with eq d at have "view s' (tp_path d) = view s p" "view s (tp_path d) = None" "view s p \<noteq> None"
          by (simp_all add: text_in_environment)
        then show ?thesis by (metis option.distinct(1))
      qed
    qed
  qed
  ultimately show ?thesis by blast
qed

theorem no_turn_diff_witness:
  "\<exists>w. run_turn mem_host default_options sample_diff_env (lit ''local'') [(sample_patch, lit ''r'')] sample_world
       (with_environment_display_roots sample_roots) = Some ([sample_delta], w, sample_tracker) \<and>
     has_unified_diff sample_tracker \<and> fst w \<noteq> fst sample_world"
proof -
  obtain w where w: "run_turn mem_host default_options sample_diff_env (lit ''local'') [(sample_patch, lit ''r'')] sample_world
    (with_environment_display_roots sample_roots) = Some ([sample_delta], w, sample_tracker)"
    using sample_turn by blast
  have shown: "has_unified_diff sample_tracker" by code_simp
  then have "get_unified_diff sample_tracker \<noteq> None" by (simp add: has_unified_diff_def get_unified_diff_def)
  moreover have "fst w = fst sample_world \<longrightarrow> get_unified_diff sample_tracker = None"
    using no_turn_diff [OF mem_host_text_fs mem_host_quiet sample_hash_ok w sample_delta_fit] by (rule conjunct1)
  ultimately have "fst w \<noteq> fst sample_world" by (auto simp only:)
  with w shown show ?thesis by (intro exI [of _ w] conjI)
qed

text \<open>
  The gap is real: when a file is renamed with an edit and the edit is then taken back, the file is
  at another place, and no diff is shown.
\<close>

theorem net_rename_is_not_shown:
  "replay (concat rename_and_back) (fst sample_world) (lit ''r/a'') = None \<and>
   replay (concat rename_and_back) (fst sample_world) (lit ''r/b'') = fst sample_world (lit ''r/a'') \<and>
   get_unified_diff (track_changes sample_diff_env rename_and_back) = None"
  by (intro conjI; code_simp)

text \<open>
  When two files were renamed from the same place, which of them is shown as the rename depends on the
  order in which the hash map is iterated.
\<close>

theorem diff_depends_on_hash_order:
  "get_unified_diff (track_changes sample_diff_env renamed_twice) \<noteq>
   get_unified_diff (track_changes (sample_diff_env\<lparr>hash_order := rev\<rparr>) renamed_twice)"
  by code_simp

end
