(* ===== verification/Exec_Rule.thy ===== *)
theory Exec_Rule
  imports Prelude Absolute_Path "HOL-Library.Sublist"
begin

text \<open>
  \<open>execpolicy/src/decision.rs\<close>, \<open>error.rs\<close>, \<open>rule.rs\<close> and \<open>executable_name.rs\<close> (Unix): the
  decisions with their order, the prefix rules and what they match, and the network
  rules with the normalization of their hosts.
\<close>

section \<open>Decisions\<close>

datatype Decision = Allow | Prompt | Forbidden

text \<open>The derived order of the enum: the declaration order.\<close>

fun decision_rank :: "Decision \<Rightarrow> nat" where
  "decision_rank Allow = 0"
| "decision_rank Prompt = 1"
| "decision_rank Forbidden = 2"

lemma decision_rank_inj: "decision_rank a = decision_rank b \<Longrightarrow> a = b"
  by (cases a; cases b) auto

instantiation Decision :: linorder
begin

definition less_eq_Decision :: "Decision \<Rightarrow> Decision \<Rightarrow> bool" where
  "less_eq_Decision a b = (decision_rank a \<le> decision_rank b)"

definition less_Decision :: "Decision \<Rightarrow> Decision \<Rightarrow> bool" where
  "less_Decision a b = (decision_rank a < decision_rank b)"

instance
  by standard (auto simp: less_eq_Decision_def less_Decision_def intro: decision_rank_inj)

end

instantiation Decision :: order_bot
begin

definition bot_Decision :: Decision where
  "bot_Decision = Allow"

instance
  by standard (simp add: bot_Decision_def less_eq_Decision_def)

end

lemma Decision_le_simps [simp]:
  "Allow \<le> d" "d \<le> Forbidden" "Forbidden \<le> d \<longleftrightarrow> d = Forbidden" "d \<le> Allow \<longleftrightarrow> d = Allow"
  by (cases d; simp add: less_eq_Decision_def)+

record text_position =
  pos_line :: nat
  pos_column :: nat

record error_location =
  loc_path :: rstr
  loc_start :: text_position
  loc_end :: text_position

text \<open>\<open>Error\<close>; \<open>StarlarkFailure\<close> stands for \<open>Error::Starlark\<close> with the printed error.\<close>

datatype exec_error =
    InvalidDecision rstr
  | InvalidPattern rstr
  | InvalidExample rstr
  | InvalidRule rstr
  | ExampleDidNotMatch "rstr list" "rstr list" "error_location option"
  | ExampleDidMatch rstr rstr "error_location option"
  | StarlarkFailure rstr

fun with_location :: "exec_error \<Rightarrow> error_location \<Rightarrow> exec_error" where
  "with_location (ExampleDidNotMatch rules examples None) l = ExampleDidNotMatch rules examples (Some l)"
| "with_location (ExampleDidMatch rule example None) l = ExampleDidMatch rule example (Some l)"
| "with_location e l = e"

definition Decision_parse :: "rstr \<Rightarrow> exec_error + Decision" where
  "Decision_parse raw =
     (if raw = lit ''allow'' then Ok Allow
      else if raw = lit ''prompt'' then Ok Prompt
      else if raw = lit ''forbidden'' then Ok Forbidden
      else Err (InvalidDecision raw))"

section \<open>Prefix rules\<close>

datatype PatternToken = Single rstr | Alts "rstr list"

fun PatternToken_matches :: "PatternToken \<Rightarrow> rstr \<Rightarrow> bool" where
  "PatternToken_matches (Single expected) token \<longleftrightarrow> expected = token"
| "PatternToken_matches (Alts alternatives) token \<longleftrightarrow> list_ex (\<lambda>alt. alt = token) alternatives"

fun PatternToken_alternatives :: "PatternToken \<Rightarrow> rstr list" where
  "PatternToken_alternatives (Single expected) = [expected]"
| "PatternToken_alternatives (Alts alternatives) = alternatives"

record PrefixPattern =
  pat_first :: rstr
  pat_rest :: "PatternToken list"

definition matches_prefix :: "PrefixPattern \<Rightarrow> rstr list \<Rightarrow> rstr list option" where
  "matches_prefix p cmd =
     (let pattern_length = length (pat_rest p) + 1 in
      if length cmd < pattern_length \<or> cmd ! 0 \<noteq> pat_first p then None
      else if list_all (\<lambda>(t, c). PatternToken_matches t c)
                (zip (pat_rest p) (take (pattern_length - 1) (drop 1 cmd)))
      then Some (take pattern_length cmd)
      else None)"

datatype RuleMatch =
    PrefixRuleMatch (matched_prefix: "rstr list") (match_decision: Decision)
      (resolved_program: "path_buf option") (match_justification: "rstr option")
  | HeuristicsRuleMatch (heuristics_command: "rstr list") (match_decision: Decision)

fun with_resolved_program :: "path_buf \<Rightarrow> RuleMatch \<Rightarrow> RuleMatch" where
  "with_resolved_program path (PrefixRuleMatch p d r j) = PrefixRuleMatch p d (Some path) j"
| "with_resolved_program path other = other"

fun is_heuristics :: "RuleMatch \<Rightarrow> bool" where
  "is_heuristics (HeuristicsRuleMatch c d) = True"
| "is_heuristics (PrefixRuleMatch p d r j) = False"

record PrefixRule =
  rule_pattern :: PrefixPattern
  rule_decision :: Decision
  rule_justification :: "rstr option"

definition rule_program :: "PrefixRule \<Rightarrow> rstr" where
  "rule_program r = pat_first (rule_pattern r)"

definition rule_matches :: "PrefixRule \<Rightarrow> rstr list \<Rightarrow> RuleMatch option" where
  "rule_matches r cmd =
     map_option
       (\<lambda>matched. PrefixRuleMatch matched (rule_decision r) None (rule_justification r))
       (matches_prefix (rule_pattern r) cmd)"

section \<open>Network rules\<close>

datatype NetworkRuleProtocol = Http | Https | Socks5Tcp | Socks5Udp

definition NetworkRuleProtocol_parse :: "rstr \<Rightarrow> exec_error + NetworkRuleProtocol" where
  "NetworkRuleProtocol_parse raw =
     (if raw = lit ''http'' then Ok Http
      else if raw = lit ''https'' \<or> raw = lit ''https_connect'' \<or> raw = lit ''http-connect''
      then Ok Https
      else if raw = lit ''socks5_tcp'' then Ok Socks5Tcp
      else if raw = lit ''socks5_udp'' then Ok Socks5Udp
      else Err (InvalidRule
        (lit ''network_rule protocol must be one of http, https, socks5_tcp, socks5_udp (got ''
         @ raw @ lit '')'')))"

fun as_policy_string :: "NetworkRuleProtocol \<Rightarrow> rstr" where
  "as_policy_string Http = lit ''http''"
| "as_policy_string Https = lit ''https''"
| "as_policy_string Socks5Tcp = lit ''socks5_tcp''"
| "as_policy_string Socks5Udp = lit ''socks5_udp''"

record NetworkRule =
  net_host :: rstr
  net_protocol :: NetworkRuleProtocol
  net_decision :: Decision
  net_justification :: "rstr option"

definition msg_host_empty :: exec_error where
  "msg_host_empty = InvalidRule (lit ''network_rule host cannot be empty'')"

text \<open>The bracketed or ported host without its brackets or port.\<close>

definition strip_host_port :: "rstr \<Rightarrow> rstr \<Rightarrow> exec_error + rstr" where
  "strip_host_port raw host =
     (case strip_prefix [91] host of
        Some stripped \<Rightarrow>
          (case split_once 93 stripped of
             None \<Rightarrow> Err (InvalidRule (lit ''network_rule host has an invalid bracketed IPv6 literal''))
           | Some (inside, rest) \<Rightarrow>
               let port_ok = (case strip_prefix [58] rest of
                                Some port \<Rightarrow> port \<noteq> [] \<and> list_all is_ascii_digit port
                              | None \<Rightarrow> False) in
               if rest \<noteq> [] \<and> \<not> port_ok
               then Err (InvalidRule (lit ''network_rule host contains an unsupported suffix: '' @ raw))
               else Ok inside)
      | None \<Rightarrow>
          Ok (if count_list host 58 = 1
              then (case rsplit_once 58 host of
                      Some (candidate, port) \<Rightarrow>
                        if candidate \<noteq> [] \<and> port \<noteq> [] \<and> list_all is_ascii_digit port
                        then candidate else host
                    | None \<Rightarrow> host)
              else host))"

definition normalize_network_rule_host :: "rstr \<Rightarrow> exec_error + rstr" where
  "normalize_network_rule_host raw =
     (let host = trim raw in
      if host = [] then Err msg_host_empty
      else if contains host (lit ''://'') \<or> 47 \<in> set host \<or> 63 \<in> set host \<or> 35 \<in> set host
      then Err (InvalidRule
        (lit ''network_rule host must be a hostname or IP literal (without scheme or path)''))
      else (case strip_host_port raw host of
              Inl e \<Rightarrow> Err e
            | Inr host2 \<Rightarrow>
                let normalized = to_ascii_lowercase (trim (trim_end_matches 46 host2)) in
                if normalized = [] then Err msg_host_empty
                else if 42 \<in> set normalized
                then Err (InvalidRule
                  (lit ''network_rule host must be a specific host; wildcards are not allowed''))
                else if list_ex is_whitespace normalized
                then Err (InvalidRule (lit ''network_rule host cannot contain whitespace''))
                else Ok normalized))"

section \<open>Executable names\<close>

definition executable_lookup_key :: "rstr \<Rightarrow> rstr" where
  "executable_lookup_key raw = raw"

definition executable_path_lookup_key :: "path_buf \<Rightarrow> rstr option" where
  "executable_path_lookup_key p = map_option executable_lookup_key (path_file_name p)"

section \<open>The contract of the Rule trait\<close>

text \<open>
  What the policy relies on: a rule only matches commands that start with its program,
  and it keeps matching, with the same result, when arguments are added. The client
  facts about a list of rules follow once and for all.
\<close>

locale rule_trait =
  fixes program :: "'r \<Rightarrow> rstr" and matches :: "'r \<Rightarrow> rstr list \<Rightarrow> RuleMatch option"
  assumes matches_program: "matches r cmd = Some m \<Longrightarrow> \<exists>args. cmd = program r # args"
    and matches_extend: "matches r cmd = Some m \<Longrightarrow> matches r (cmd @ extra) = Some m"
begin

lemma no_match_Nil: "matches r [] = None"
  using matches_program [of r "[]"] by (cases "matches r []") auto

lemma other_program: "program r \<noteq> p \<Longrightarrow> matches r (p # args) = None"
  using matches_program [of r "p # args"] by (cases "matches r (p # args)") auto

lemma collect_extend:
  "set (List.map_filter (\<lambda>r. matches r cmd) rs) \<subseteq>
     set (List.map_filter (\<lambda>r. matches r (cmd @ extra)) rs)"
proof (induction rs)
  case (Cons r rs)
  then show ?case
    using matches_extend [of r cmd _ extra]
    by (cases "matches r cmd"; cases "matches r (cmd @ extra)")
      (auto simp: List.map_filter_simps)
qed (simp add: List.map_filter_simps)

lemma collect_program:
  "List.map_filter (\<lambda>r. matches r (p # args)) rs =
     List.map_filter (\<lambda>r. matches r (p # args)) (filter (\<lambda>r. program r = p) rs)"
  using other_program by (induction rs) (auto simp: List.map_filter_simps split: option.splits)

end

lemma matches_prefix_Some:
  "matches_prefix p cmd = Some m \<longleftrightarrow>
     (\<exists>args. cmd = pat_first p # args \<and> length (pat_rest p) \<le> length args \<and>
        list_all2 PatternToken_matches (pat_rest p) (take (length (pat_rest p)) args) \<and>
        m = pat_first p # take (length (pat_rest p)) args)"
  by (cases cmd) (auto simp: matches_prefix_def Let_def list_all2_iff list_all_iff split: if_splits)

interpretation prefix_rule: rule_trait rule_program rule_matches
proof
  fix r cmd m extra
  assume a: "rule_matches r cmd = Some m"
  then obtain k where k: "matches_prefix (rule_pattern r) cmd = Some k"
    and m: "m = PrefixRuleMatch k (rule_decision r) None (rule_justification r)"
    by (auto simp: rule_matches_def)
  from k show "\<exists>args. cmd = rule_program r # args"
    by (auto simp: matches_prefix_Some rule_program_def)
  from k have "matches_prefix (rule_pattern r) (cmd @ extra) = Some k"
    unfolding matches_prefix_Some by (force simp: take_append)
  with m show "rule_matches r (cmd @ extra) = Some m" by (simp add: rule_matches_def)
qed

section \<open>Characters of a normalized host\<close>

lemma set_trim: "set (trim s) \<subseteq> set s"
proof
  fix x
  assume "x \<in> set (trim s)"
  then have "x \<in> set (dropWhile is_whitespace (rev (dropWhile is_whitespace s)))"
    by (simp add: trim_def trim_start_def trim_end_def)
  from set_dropWhileD [OF this] show "x \<in> set s" by (auto dest: set_dropWhileD)
qed

lemma set_trim_end_matches: "set (trim_end_matches c s) \<subseteq> set s"
  unfolding trim_end_matches_def by (auto dest: set_dropWhileD)

lemma strip_host_port_set:
  assumes "strip_host_port raw host = Inr h"
  shows "set h \<subseteq> set host"
proof (cases "strip_prefix [91] host")
  case (Some r)
  then have "host = 91 # r" by (simp add: strip_prefix_Some)
  with Some assms show ?thesis
    by (auto simp: strip_host_port_def split_once_def Let_def split: if_splits dest: set_takeWhileD)
next
  case None
  with assms show ?thesis
    using set_dropWhileD [of _ "\<lambda>x. x \<noteq> 58" "rev host"]
    by (auto simp: strip_host_port_def rsplit_once_def split: if_splits
        dest!: list.set_sel(2) [rotated])
qed

lemma lowercase_special:
  "c \<in> {47, 63, 35} \<Longrightarrow> c \<in> set (to_ascii_lowercase s) \<longleftrightarrow> c \<in> set s"
  by (force simp: to_ascii_lowercase_def to_ascii_lower_def)

lemma lowercase_idem [simp]: "to_ascii_lowercase (to_ascii_lowercase s) = to_ascii_lowercase s"
  by (simp add: to_ascii_lowercase_def)

section \<open>Properties\<close>

text \<open>
  A prefix pattern matches exactly the commands that start with its program followed
  by one accepted token per pattern token, whatever comes after, and the matched prefix
  it reports is that initial part of the command.
\<close>

theorem matches_prefix_iff:
  "matches_prefix p cmd = Some m \<longleftrightarrow>
     prefix m cmd \<and> length m = Suc (length (pat_rest p)) \<and> hd m = pat_first p \<and>
     list_all2 (\<lambda>t c. c \<in> set (PatternToken_alternatives t)) (pat_rest p) (tl m)"
proof -
  have *: "PatternToken_matches t c \<longleftrightarrow> c \<in> set (PatternToken_alternatives t)" for t c
    by (cases t) (auto simp: list_ex_iff)
  have "PatternToken_matches = (\<lambda>t c. c \<in> set (PatternToken_alternatives t))"
    by (intro ext) (rule *)
  then show ?thesis
    unfolding matches_prefix_Some
    by (cases m) (auto simp: prefix_def append_eq_conv_conj take_append Cons_eq_append_conv
        intro: append_take_drop_id [symmetric])
qed

text \<open>
  A normalized network host is a bare lower-case name: it is not empty and contains no
  wildcard, no white space, and none of the characters that start a path, a query or a
  fragment.
\<close>

theorem normalize_network_rule_host_clean:
  assumes "normalize_network_rule_host raw = Inr h"
  shows "h \<noteq> [] \<and> to_ascii_lowercase h = h \<and> 42 \<notin> set h \<and> (\<forall>c \<in> set h. \<not> is_whitespace c) \<and>
    47 \<notin> set h \<and> 63 \<notin> set h \<and> 35 \<notin> set h"
proof -
  from assms obtain host2 where h2: "strip_host_port raw (trim raw) = Inr host2"
    and h: "h = to_ascii_lowercase (trim (trim_end_matches 46 host2))"
    and ok: "h \<noteq> []" "42 \<notin> set h" "\<not> list_ex is_whitespace h"
    and no: "47 \<notin> set (trim raw)" "63 \<notin> set (trim raw)" "35 \<notin> set (trim raw)"
    by (auto simp: normalize_network_rule_host_def Let_def split: if_splits sum.splits)
  have "c \<notin> set h" if "c \<notin> set (trim raw)" "c \<in> {47, 63, 35}" for c
    using that strip_host_port_set [OF h2] set_trim set_trim_end_matches
    unfolding h by (fastforce simp: lowercase_special)
  with ok no show ?thesis by (simp add: h list_ex_iff)
qed

theorem normalize_network_rule_host_clean_witness:
  "normalize_network_rule_host (lit '' API.example.com:443'') = Inr (lit ''api.example.com'') \<and>
   to_ascii_lowercase (lit ''api.example.com'') = lit ''api.example.com''"
proof -
  have 1: "normalize_network_rule_host (lit '' API.example.com:443'') = Inr (lit ''api.example.com'')"
    by code_simp
  from normalize_network_rule_host_clean [OF 1] 1 show ?thesis by blast
qed

end
