(* ===== verification/Exec_Policy.thy ===== *)
theory Exec_Policy
  imports Exec_Rule "HOL-Library.List_Lexorder" "HOL-Library.Product_Lexorder"
begin

text \<open>
  \<open>execpolicy/src/policy.rs\<close>: the policy, how it is extended and merged, and how commands
  are checked against it.

  \<open>MultiMap\<close> is a crate outside the repository: the record \<open>multi_map\<close> holds the four
  operations the policy calls, and \<open>multi_map_ok\<close> states what they promise (an insertion
  appends to the vector of its key; the iteration visits every key once, in some order).
  \<open>HashMap\<close> is a partial function. The directories \<open>AbsolutePathBuf\<close> reads from the
  environment are the record \<open>path_env\<close>. A panic is \<open>None\<close>.
\<close>

section \<open>The multimap\<close>

record 'm multi_map =
  mm_new :: 'm
  mm_insert :: "'m \<Rightarrow> rstr \<Rightarrow> PrefixRule \<Rightarrow> 'm"
  mm_get_vec :: "'m \<Rightarrow> rstr \<Rightarrow> PrefixRule list option"
  mm_iter_all :: "'m \<Rightarrow> (rstr \<times> PrefixRule list) list"

definition get_rules :: "'m multi_map \<Rightarrow> 'm \<Rightarrow> rstr \<Rightarrow> PrefixRule list" where
  "get_rules mm m k = (case mm_get_vec mm m k of None \<Rightarrow> [] | Some rs \<Rightarrow> rs)"

definition multi_map_ok :: "'m multi_map \<Rightarrow> bool" where
  "multi_map_ok mm \<longleftrightarrow>
     (\<forall>k. mm_get_vec mm (mm_new mm) k = None) \<and>
     (\<forall>m k r j. mm_get_vec mm (mm_insert mm m k r) j =
        (if j = k then Some (get_rules mm m k @ [r]) else mm_get_vec mm m j)) \<and>
     (\<forall>m. distinct (map fst (mm_iter_all mm m))) \<and>
     (\<forall>m k rs. (k, rs) \<in> set (mm_iter_all mm m) \<longleftrightarrow> mm_get_vec mm m k = Some rs)"

section \<open>The policy\<close>

record path_env =
  env_home :: "path_buf option"
  env_cwd :: "path_buf option"

record MatchOptions =
  resolve_host_executables :: bool

definition default_match_options :: MatchOptions where
  "default_match_options = \<lparr>resolve_host_executables = False\<rparr>"

record 'm Policy =
  rules_by_program :: 'm
  network_rules :: "NetworkRule list"
  host_executables_by_name :: "rstr \<Rightarrow> path_buf list option"

definition Policy_from_parts ::
    "'m \<Rightarrow> NetworkRule list \<Rightarrow> (rstr \<Rightarrow> path_buf list option) \<Rightarrow> 'm Policy" where
  "Policy_from_parts rules net hosts =
     \<lparr>rules_by_program = rules, network_rules = net, host_executables_by_name = hosts\<rparr>"

definition Policy_new :: "'m \<Rightarrow> 'm Policy" where
  "Policy_new rules = Policy_from_parts rules [] (\<lambda>_. None)"

definition Policy_empty :: "'m multi_map \<Rightarrow> 'm Policy" where
  "Policy_empty mm = Policy_new (mm_new mm)"

fun render_pattern_token :: "PatternToken \<Rightarrow> rstr" where
  "render_pattern_token (Single v) = v"
| "render_pattern_token (Alts alternatives) = [91] @ join_with [124] alternatives @ [93]"

definition rule_prefix :: "PrefixRule \<Rightarrow> rstr list" where
  "rule_prefix r = pat_first (rule_pattern r) # map render_pattern_token (pat_rest (rule_pattern r))"

text \<open>
  \<open>sort\<close> on vectors of strings is lexicographic by code points (the byte order of UTF-8 is
  the code point order); \<open>dedup\<close> removes equal neighbours.
\<close>

definition get_allowed_prefixes :: "'m multi_map \<Rightarrow> 'm Policy \<Rightarrow> rstr list list" where
  "get_allowed_prefixes mm pol =
     remdups_adj (sort (concat
       (map (\<lambda>(program, rules).
          map rule_prefix (filter (\<lambda>r. rule_decision r = Allow) rules))
        (mm_iter_all mm (rules_by_program pol)))))"

definition add_prefix_rule ::
    "'m multi_map \<Rightarrow> 'm Policy \<Rightarrow> rstr list \<Rightarrow> Decision \<Rightarrow> exec_error + 'm Policy" where
  "add_prefix_rule mm pol prefx decision =
     (case prefx of
        [] \<Rightarrow> Err (InvalidPattern (lit ''prefix cannot be empty''))
      | first_token # rest \<Rightarrow>
          let rule = \<lparr>rule_pattern = \<lparr>pat_first = first_token, pat_rest = map Single rest\<rparr>,
                      rule_decision = decision, rule_justification = None\<rparr> in
          Ok (pol\<lparr>rules_by_program := mm_insert mm (rules_by_program pol) first_token rule\<rparr>))"

definition add_network_rule ::
    "'m Policy \<Rightarrow> rstr \<Rightarrow> NetworkRuleProtocol \<Rightarrow> Decision \<Rightarrow> rstr option \<Rightarrow> exec_error + 'm Policy"
where
  "add_network_rule pol host protocol decision justification =
     (case normalize_network_rule_host host of
        Inl e \<Rightarrow> Err e
      | Inr host2 \<Rightarrow>
          if (case justification of Some raw \<Rightarrow> trim raw = [] | None \<Rightarrow> False)
          then Err (InvalidRule (lit ''justification cannot be empty''))
          else Ok (pol\<lparr>network_rules := network_rules pol @
                 [\<lparr>net_host = host2, net_protocol = protocol, net_decision = decision,
                   net_justification = justification\<rparr>]\<rparr>))"

definition set_host_executable_paths :: "'m Policy \<Rightarrow> rstr \<Rightarrow> path_buf list \<Rightarrow> 'm Policy" where
  "set_host_executable_paths pol name paths =
     pol\<lparr>host_executables_by_name := (host_executables_by_name pol)(name \<mapsto> paths)\<rparr>"

definition insert_all :: "'m multi_map \<Rightarrow> 'm \<Rightarrow> (rstr \<times> PrefixRule list) list \<Rightarrow> 'm" where
  "insert_all mm m entries =
     foldl (\<lambda>m (program, rules). foldl (\<lambda>m r. mm_insert mm m program r) m rules) m entries"

definition merge_overlay :: "'m multi_map \<Rightarrow> 'm Policy \<Rightarrow> 'm Policy \<Rightarrow> 'm Policy" where
  "merge_overlay mm pol overlay =
     Policy_from_parts
       (insert_all mm (rules_by_program pol) (mm_iter_all mm (rules_by_program overlay)))
       (network_rules pol @ network_rules overlay)
       (host_executables_by_name pol ++ host_executables_by_name overlay)"

definition upsert_domain :: "rstr list \<Rightarrow> rstr \<Rightarrow> rstr list" where
  "upsert_domain entries host = filter (\<lambda>e. e \<noteq> host) entries @ [host]"

definition compile_network_rule ::
    "rstr list \<times> rstr list \<Rightarrow> NetworkRule \<Rightarrow> rstr list \<times> rstr list" where
  "compile_network_rule acc rule =
     (case acc of (allowed, denied) \<Rightarrow>
        (case net_decision rule of
           Allow \<Rightarrow> (upsert_domain allowed (net_host rule),
                     filter (\<lambda>e. e \<noteq> net_host rule) denied)
         | Forbidden \<Rightarrow> (filter (\<lambda>e. e \<noteq> net_host rule) allowed,
                         upsert_domain denied (net_host rule))
         | Prompt \<Rightarrow> (allowed, denied)))"

definition compiled_network_domains :: "'m Policy \<Rightarrow> rstr list \<times> rstr list" where
  "compiled_network_domains pol = foldl compile_network_rule ([], []) (network_rules pol)"

section \<open>Checking commands\<close>

definition match_exact_rules ::
    "'m multi_map \<Rightarrow> 'm Policy \<Rightarrow> rstr list \<Rightarrow> RuleMatch list option" where
  "match_exact_rules mm pol cmd =
     (case cmd of
        [] \<Rightarrow> None
      | first # _ \<Rightarrow>
          Some (case mm_get_vec mm (rules_by_program pol) first of
                  Some rules \<Rightarrow> List.map_filter (\<lambda>r. rule_matches r cmd) rules
                | None \<Rightarrow> []))"

definition match_host_executable_rules ::
    "'m multi_map \<Rightarrow> path_env \<Rightarrow> 'm Policy \<Rightarrow> rstr list \<Rightarrow> RuleMatch list" where
  "match_host_executable_rules mm env pol cmd =
     (case cmd of
        [] \<Rightarrow> []
      | first # rest \<Rightarrow>
          (case from_absolute_path (env_home env) (env_cwd env) first of
             None \<Rightarrow> []
           | Some program \<Rightarrow>
               (case executable_path_lookup_key program of
                  None \<Rightarrow> []
                | Some basename \<Rightarrow>
                    (case mm_get_vec mm (rules_by_program pol) basename of
                       None \<Rightarrow> []
                     | Some rules \<Rightarrow>
                         if (case host_executables_by_name pol basename of
                               Some paths \<Rightarrow> \<not> list_ex (\<lambda>path. path = program) paths
                             | None \<Rightarrow> False)
                         then []
                         else map (with_resolved_program program)
                                (List.map_filter (\<lambda>r. rule_matches r (basename # rest)) rules)))))"

definition filter_nonempty :: "'a list option \<Rightarrow> 'a list option" where
  "filter_nonempty x = (case x of Some (y # ys) \<Rightarrow> x | _ \<Rightarrow> None)"

definition matches_for_command_with_options ::
    "'m multi_map \<Rightarrow> path_env \<Rightarrow> 'm Policy \<Rightarrow> rstr list \<Rightarrow> (rstr list \<Rightarrow> Decision) option \<Rightarrow>
       MatchOptions \<Rightarrow> RuleMatch list" where
  "matches_for_command_with_options mm env pol cmd heuristics_fallback options =
     (let matched_rules =
        (case filter_nonempty (match_exact_rules mm pol cmd) of
           Some ms \<Rightarrow> ms
         | None \<Rightarrow>
             (case filter_nonempty
                 (if resolve_host_executables options
                  then Some (match_host_executable_rules mm env pol cmd) else None) of
                Some ms \<Rightarrow> ms
              | None \<Rightarrow> [])) in
      case heuristics_fallback of
        Some f \<Rightarrow> if matched_rules = [] then [HeuristicsRuleMatch cmd (f cmd)] else matched_rules
      | None \<Rightarrow> matched_rules)"

definition matches_for_command ::
    "'m multi_map \<Rightarrow> path_env \<Rightarrow> 'm Policy \<Rightarrow> rstr list \<Rightarrow> (rstr list \<Rightarrow> Decision) option \<Rightarrow>
       RuleMatch list" where
  "matches_for_command mm env pol cmd heuristics_fallback =
     matches_for_command_with_options mm env pol cmd heuristics_fallback default_match_options"

record Evaluation =
  ev_decision :: Decision
  matched_rules :: "RuleMatch list"

definition is_match :: "Evaluation \<Rightarrow> bool" where
  "is_match ev = list_ex (\<lambda>m. \<not> is_heuristics m) (matched_rules ev)"

text \<open>\<open>Iterator::max\<close>.\<close>

fun iter_max :: "'a::linorder list \<Rightarrow> 'a option" where
  "iter_max [] = None"
| "iter_max (x # xs) = Some (fold max xs x)"

definition from_matches :: "RuleMatch list \<Rightarrow> Evaluation option" where
  "from_matches ms =
     (case iter_max (map match_decision ms) of
        None \<Rightarrow> None
      | Some d \<Rightarrow> Some \<lparr>ev_decision = d, matched_rules = ms\<rparr>)"

definition check_with_options ::
    "'m multi_map \<Rightarrow> path_env \<Rightarrow> 'm Policy \<Rightarrow> rstr list \<Rightarrow> (rstr list \<Rightarrow> Decision) \<Rightarrow> MatchOptions \<Rightarrow>
       Evaluation option" where
  "check_with_options mm env pol cmd f options =
     from_matches (matches_for_command_with_options mm env pol cmd (Some f) options)"

definition check ::
    "'m multi_map \<Rightarrow> path_env \<Rightarrow> 'm Policy \<Rightarrow> rstr list \<Rightarrow> (rstr list \<Rightarrow> Decision) \<Rightarrow>
       Evaluation option" where
  "check mm env pol cmd f =
     from_matches (matches_for_command_with_options mm env pol cmd (Some f) default_match_options)"

definition check_multiple_with_options ::
    "'m multi_map \<Rightarrow> path_env \<Rightarrow> 'm Policy \<Rightarrow> rstr list list \<Rightarrow> (rstr list \<Rightarrow> Decision) \<Rightarrow>
       MatchOptions \<Rightarrow> Evaluation option" where
  "check_multiple_with_options mm env pol commands f options =
     from_matches (concat (map
       (\<lambda>command. matches_for_command_with_options mm env pol command (Some f) options) commands))"

definition check_multiple ::
    "'m multi_map \<Rightarrow> path_env \<Rightarrow> 'm Policy \<Rightarrow> rstr list list \<Rightarrow> (rstr list \<Rightarrow> Decision) \<Rightarrow>
       Evaluation option" where
  "check_multiple mm env pol commands f =
     check_multiple_with_options mm env pol commands f default_match_options"

section \<open>A multimap as a log of insertions\<close>

text \<open>An instance of the multimap that meets \<open>multi_map_ok\<close>.\<close>

definition log_get_vec :: "(rstr \<times> PrefixRule) list \<Rightarrow> rstr \<Rightarrow> PrefixRule list option" where
  "log_get_vec m k =
     (if k \<in> set (map fst m) then Some (map snd (filter (\<lambda>e. fst e = k) m)) else None)"

definition log_map :: "(rstr \<times> PrefixRule) list multi_map" where
  "log_map =
     \<lparr>mm_new = [], mm_insert = (\<lambda>m k r. m @ [(k, r)]), mm_get_vec = log_get_vec,
      mm_iter_all = (\<lambda>m. map (\<lambda>k. (k, map snd (filter (\<lambda>e. fst e = k) m))) (remdups (map fst m)))\<rparr>"

lemma log_map_ok: "multi_map_ok log_map"
  by (auto simp: multi_map_ok_def log_map_def log_get_vec_def get_rules_def o_def
      intro: filter_False split: option.splits)

section \<open>Facts on the multimap\<close>

lemma get_vec_insert:
  "multi_map_ok mm \<Longrightarrow> mm_get_vec mm (mm_insert mm m k r) j =
     (if j = k then Some (get_rules mm m k @ [r]) else mm_get_vec mm m j)"
  by (simp add: multi_map_ok_def)

lemma get_rules_insert:
  "multi_map_ok mm \<Longrightarrow> get_rules mm (mm_insert mm m k r) j =
     (if j = k then get_rules mm m k @ [r] else get_rules mm m j)"
  by (simp add: get_rules_def get_vec_insert)

lemma iter_all_iff:
  "multi_map_ok mm \<Longrightarrow> (k, rs) \<in> set (mm_iter_all mm m) \<longleftrightarrow> mm_get_vec mm m k = Some rs"
  by (simp add: multi_map_ok_def)

lemma get_rules_insert_rules:
  "multi_map_ok mm \<Longrightarrow>
     get_rules mm (foldl (\<lambda>m r. mm_insert mm m k r) m rules) j =
       get_rules mm m j @ (if j = k then rules else [])"
  by (induction rules arbitrary: m) (auto simp: get_rules_insert)

lemma get_rules_insert_all:
  "multi_map_ok mm \<Longrightarrow>
     get_rules mm (insert_all mm m entries) j =
       get_rules mm m j @ concat (map snd (filter (\<lambda>e. fst e = j) entries))"
  by (induction entries arbitrary: m)
    (auto simp: insert_all_def get_rules_insert_rules split: prod.splits)

lemma distinct_keys_filter:
  "distinct (map fst es) \<Longrightarrow> (k, v) \<in> set es \<Longrightarrow> filter (\<lambda>e. fst e = k) es = [(k, v)]"
  by (induction es) (auto simp: filter_empty_conv image_iff)

lemma iter_all_rules:
  assumes "multi_map_ok mm"
  shows "concat (map snd (filter (\<lambda>e. fst e = k) (mm_iter_all mm m))) = get_rules mm m k"
proof (cases "mm_get_vec mm m k")
  case None
  then have "\<forall>e \<in> set (mm_iter_all mm m). fst e \<noteq> k" using iter_all_iff [OF assms] by fastforce
  then have "filter (\<lambda>e. fst e = k) (mm_iter_all mm m) = []" by (simp add: filter_empty_conv)
  with None show ?thesis by (simp add: get_rules_def)
next
  case (Some rs)
  with iter_all_iff [OF assms] have "(k, rs) \<in> set (mm_iter_all mm m)" by simp
  moreover have "distinct (map fst (mm_iter_all mm m))" using assms by (simp add: multi_map_ok_def)
  ultimately show ?thesis using Some by (simp add: get_rules_def distinct_keys_filter)
qed

lemma merge_rules:
  "multi_map_ok mm \<Longrightarrow>
     get_rules mm (rules_by_program (merge_overlay mm pol ov)) k =
       get_rules mm (rules_by_program pol) k @ get_rules mm (rules_by_program ov) k"
  by (simp add: merge_overlay_def Policy_from_parts_def get_rules_insert_all iter_all_rules)

section \<open>Facts on evaluations\<close>

lemma iter_max_Max: "xs \<noteq> [] \<Longrightarrow> iter_max xs = Some (Max (set xs))"
  by (cases xs) (simp_all add: Max.set_eq_fold [symmetric])

definition max_decision :: "RuleMatch list \<Rightarrow> Decision" where
  "max_decision ms = Max (match_decision ` set ms)"

lemma from_matches_Some:
  "ms \<noteq> [] \<Longrightarrow> from_matches ms = Some \<lparr>ev_decision = max_decision ms, matched_rules = ms\<rparr>"
  by (simp add: from_matches_def iter_max_Max max_decision_def)

lemma max_decision_ge: "m \<in> set ms \<Longrightarrow> match_decision m \<le> max_decision ms"
  by (simp add: max_decision_def)

lemma max_decision_mono: "ms \<noteq> [] \<Longrightarrow> set ms \<subseteq> set ns \<Longrightarrow> max_decision ms \<le> max_decision ns"
  unfolding max_decision_def by (intro Max_mono) auto

lemma max_decision_append:
  "xs \<noteq> [] \<Longrightarrow> ys \<noteq> [] \<Longrightarrow> max_decision (xs @ ys) = max (max_decision xs) (max_decision ys)"
  by (simp add: max_decision_def image_Un Max_Un)

lemma matches_not_Nil: "matches_for_command_with_options mm env pol cmd (Some f) options \<noteq> []"
  by (simp add: matches_for_command_with_options_def Let_def)

lemma max_decision_concat:
  "xss \<noteq> [] \<Longrightarrow> \<forall>xs \<in> set xss. xs \<noteq> [] \<Longrightarrow>
     max_decision (concat xss) = Max (max_decision ` set xss)"
proof (induction xss)
  case (Cons xs xss)
  show ?case
  proof (cases "xss = []")
    case False
    with Cons.prems have "concat xss \<noteq> []" by (cases xss) auto
    with Cons False show ?thesis by (simp add: max_decision_append)
  qed simp
qed simp

text \<open>The rules of a policy that match a command exactly.\<close>

definition exact_matches :: "'m multi_map \<Rightarrow> 'm Policy \<Rightarrow> rstr list \<Rightarrow> RuleMatch list" where
  "exact_matches mm pol cmd =
     List.map_filter (\<lambda>r. rule_matches r cmd) (get_rules mm (rules_by_program pol) (hd cmd))"

lemma match_exact_rules_Cons:
  "match_exact_rules mm pol (x # xs) = Some (exact_matches mm pol (x # xs))"
  by (simp add: match_exact_rules_def exact_matches_def get_rules_def List.map_filter_simps
      split: option.splits)

lemma filter_nonempty_simps [simp]:
  "filter_nonempty None = None" "filter_nonempty (Some []) = None"
  "xs \<noteq> [] \<Longrightarrow> filter_nonempty (Some xs) = Some xs"
  by (simp_all add: filter_nonempty_def split: list.splits)

lemma exact_matches_Nil [simp]: "exact_matches mm pol [] = []"
  using prefix_rule.no_match_Nil
  by (simp add: exact_matches_def List.map_filter_def)

lemma matches_exact:
  "exact_matches mm pol cmd \<noteq> [] \<Longrightarrow>
     matches_for_command_with_options mm env pol cmd (Some f) options = exact_matches mm pol cmd"
  by (cases cmd) (simp_all add: matches_for_command_with_options_def match_exact_rules_Cons)

lemma match_exact_rules_Nil [simp]: "match_exact_rules mm pol [] = None"
  by (simp add: match_exact_rules_def)

lemma matches_default:
  "matches_for_command_with_options mm env pol cmd (Some f) default_match_options =
     (if exact_matches mm pol cmd = [] then [HeuristicsRuleMatch cmd (f cmd)]
      else exact_matches mm pol cmd)"
  by (cases cmd; cases "exact_matches mm pol cmd = []")
    (simp_all add: matches_for_command_with_options_def match_exact_rules_Cons Let_def
      default_match_options_def)

lemma check_default:
  "check mm env pol cmd f = Some (
     if exact_matches mm pol cmd = []
     then \<lparr>ev_decision = f cmd, matched_rules = [HeuristicsRuleMatch cmd (f cmd)]\<rparr>
     else \<lparr>ev_decision = max_decision (exact_matches mm pol cmd),
           matched_rules = exact_matches mm pol cmd\<rparr>)"
  by (simp add: check_def matches_default from_matches_Some) (simp add: max_decision_def)

lemma exact_not_heuristics: "m \<in> set (exact_matches mm pol cmd) \<Longrightarrow> \<not> is_heuristics m"
  by (auto simp: exact_matches_def List.map_filter_def rule_matches_def)

lemma exact_matches_extend:
  "set (exact_matches mm pol cmd) \<subseteq> set (exact_matches mm pol (cmd @ extra))"
proof (cases cmd)
  case (Cons x xs)
  then show ?thesis
    using prefix_rule.collect_extend [of cmd _ extra] by (simp add: exact_matches_def)
qed simp

lemma merge_exact:
  "multi_map_ok mm \<Longrightarrow>
     exact_matches mm (merge_overlay mm pol ov) cmd =
       exact_matches mm pol cmd @ exact_matches mm ov cmd"
  by (simp add: exact_matches_def merge_rules List.map_filter_def)

section \<open>Network domains\<close>

text \<open>The last rule that allows or forbids a host.\<close>

definition last_verdict :: "NetworkRule list \<Rightarrow> rstr \<Rightarrow> Decision option" where
  "last_verdict rules h =
     map_option net_decision
       (last_opt (filter (\<lambda>r. net_host r = h \<and> net_decision r \<noteq> Prompt) rules))"

lemma last_verdict_snoc:
  "last_verdict (rules @ [r]) h =
     (if net_host r = h \<and> net_decision r \<noteq> Prompt then Some (net_decision r)
      else last_verdict rules h)"
  by (simp add: last_verdict_def last_opt_def)

lemma compile_network_rules:
  "foldl compile_network_rule ([], []) rules = (allowed, denied) \<Longrightarrow>
     distinct allowed \<and> distinct denied \<and>
     (\<forall>h. h \<in> set allowed \<longleftrightarrow> last_verdict rules h = Some Allow) \<and>
     (\<forall>h. h \<in> set denied \<longleftrightarrow> last_verdict rules h = Some Forbidden)"
proof (induction rules arbitrary: allowed denied rule: rev_induct)
  case Nil
  then show ?case by (simp add: last_verdict_def)
next
  case (snoc r rules)
  obtain a d where "foldl compile_network_rule ([], []) rules = (a, d)" by fastforce
  note ih = snoc.IH [OF this] and fold = this
  from snoc.prems fold have "compile_network_rule (a, d) r = (allowed, denied)" by simp
  with ih show ?case
    by (cases "net_decision r")
      (auto simp: compile_network_rule_def upsert_domain_def last_verdict_snoc)
qed

section \<open>A sample policy\<close>

text \<open>\<open>git status\<close> is allowed and \<open>git push\<close> asks; the stricter policy forbids every \<open>git\<close>.\<close>

definition sample_rules :: "(rstr \<times> PrefixRule) list" where
  "sample_rules =
     [(lit ''git'', \<lparr>rule_pattern = \<lparr>pat_first = lit ''git'', pat_rest = [Single (lit ''status'')]\<rparr>,
         rule_decision = Allow, rule_justification = None\<rparr>),
      (lit ''git'', \<lparr>rule_pattern = \<lparr>pat_first = lit ''git'', pat_rest = [Single (lit ''push'')]\<rparr>,
         rule_decision = Prompt, rule_justification = None\<rparr>)]"

definition sample_policy :: "(rstr \<times> PrefixRule) list Policy" where
  "sample_policy = Policy_new sample_rules"

definition strict_policy :: "(rstr \<times> PrefixRule) list Policy" where
  "strict_policy = Policy_new
     [(lit ''git'', \<lparr>rule_pattern = \<lparr>pat_first = lit ''git'', pat_rest = []\<rparr>,
         rule_decision = Forbidden, rule_justification = None\<rparr>)]"

definition sample_env :: path_env where
  "sample_env = \<lparr>env_home = None, env_cwd = None\<rparr>"

section \<open>Properties\<close>

text \<open>
  Checking a command always yields an evaluation (the \<open>expect\<close> in \<open>from_matches\<close>
  cannot fail): it lists at least one match and its decision is the strictest decision
  among the matches it lists.
\<close>

theorem check_total:
  "\<exists>ev. check_with_options mm env pol cmd f options = Some ev \<and>
     matched_rules ev = matches_for_command_with_options mm env pol cmd (Some f) options \<and>
     matched_rules ev \<noteq> [] \<and>
     ev_decision ev \<in> match_decision ` set (matched_rules ev) \<and>
     (\<forall>m. m \<in> set (matched_rules ev) \<longrightarrow> match_decision m \<le> ev_decision ev)"
  using matches_not_Nil [of mm env pol cmd f options]
  by (simp add: check_with_options_def from_matches_Some max_decision_ge)
    (simp add: max_decision_def)

theorem check_total_witness:
  "\<exists>ev. check_with_options log_map sample_env sample_policy [lit ''git'', lit ''push''] (\<lambda>_. Allow)
     default_match_options = Some ev \<and> matched_rules ev \<noteq> []"
  using check_total [of log_map sample_env sample_policy "[lit ''git'', lit ''push'']" "\<lambda>_. Allow"
      default_match_options]
  by blast

text \<open>
  C8. A script of several commands is as strict as its strictest command: on a non-empty
  list \<open>check_multiple\<close> succeeds, and its decision is the maximum of the decisions of
  the commands checked one by one.
\<close>

theorem check_multiple_max:
  assumes "commands \<noteq> []"
  shows "\<exists>ev. check_multiple_with_options mm env pol commands f options = Some ev \<and>
     ev_decision ev = Max ((\<lambda>c. ev_decision (the (check_with_options mm env pol c f options))) ` set commands)"
proof -
  let ?ms = "\<lambda>c. matches_for_command_with_options mm env pol c (Some f) options"
  have *: "\<forall>xs \<in> set (map ?ms commands). xs \<noteq> []" by (simp add: matches_not_Nil)
  with assms have ne: "concat (map ?ms commands) \<noteq> []" by (cases commands) (auto simp: matches_not_Nil)
  moreover have "max_decision (concat (map ?ms commands)) = Max (max_decision ` ?ms ` set commands)"
    using max_decision_concat [of "map ?ms commands"] assms * by simp
  ultimately show ?thesis
    by (simp add: check_multiple_with_options_def check_with_options_def from_matches_Some
        matches_not_Nil image_image)
qed

theorem check_multiple_max_witness:
  "\<exists>ev. check_multiple_with_options log_map sample_env sample_policy
        [[lit ''git'', lit ''status''], [lit ''git'', lit ''push'']] (\<lambda>_. Allow) default_match_options
        = Some ev \<and> ev_decision ev = Prompt"
proof -
  have "ev_decision (the (check_with_options log_map sample_env sample_policy
      [lit ''git'', lit ''status''] (\<lambda>_. Allow) default_match_options)) = Allow"
    "ev_decision (the (check_with_options log_map sample_env sample_policy
      [lit ''git'', lit ''push''] (\<lambda>_. Allow) default_match_options)) = Prompt"
    by code_simp+
  then show ?thesis
    using check_multiple_max [of "[[lit ''git'', lit ''status''], [lit ''git'', lit ''push'']]" log_map
        sample_env sample_policy "\<lambda>_. Allow" default_match_options]
    by (simp add: max_def less_eq_Decision_def)
qed

text \<open>
  The empty script is the one input on which \<open>check_multiple\<close> panics.
\<close>

theorem check_multiple_panics:
  "check_multiple mm env pol commands f = None \<longleftrightarrow> commands = []"
proof (cases commands)
  case (Cons c cs)
  then have "concat (map (\<lambda>c. matches_for_command_with_options mm env pol c (Some f)
      default_match_options) commands) \<noteq> []"
    by (simp add: matches_not_Nil)
  with Cons show ?thesis
    by (simp add: check_multiple_def check_multiple_with_options_def from_matches_Some)
qed (simp add: check_multiple_def check_multiple_with_options_def from_matches_def)

text \<open>
  After \<open>add_prefix_rule\<close>, every command that starts with the prefix is matched by a
  rule and its decision is at least the added one; commands of other programs are
  evaluated as before.
\<close>

theorem add_prefix_rule_check:
  assumes "multi_map_ok mm" and "add_prefix_rule mm pol prefx d = Inr pol'"
  shows "(\<exists>ev. check mm env pol' (prefx @ extra) f = Some ev \<and> is_match ev \<and> d \<le> ev_decision ev) \<and>
     (hd cmd \<noteq> hd prefx \<longrightarrow> check mm env pol' cmd f = check mm env pol cmd f)"
proof -
  from assms(2) obtain x xs where p: "prefx = x # xs" by (auto simp: add_prefix_rule_def split: list.splits)
  let ?r = "\<lparr>rule_pattern = \<lparr>pat_first = x, pat_rest = map Single xs\<rparr>, rule_decision = d,
             rule_justification = None\<rparr>"
  have rules: "get_rules mm (rules_by_program pol') k =
      (if k = x then get_rules mm (rules_by_program pol) x @ [?r]
       else get_rules mm (rules_by_program pol) k)" for k
    using assms by (auto simp: add_prefix_rule_def p Let_def get_rules_insert)
  have "matches_prefix (rule_pattern ?r) (prefx @ extra) = Some prefx"
    by (simp add: matches_prefix_Some p list_all2_map1 list_all2_same)
  then have "rule_matches ?r (prefx @ extra) = Some (PrefixRuleMatch prefx d None None)"
    by (simp add: rule_matches_def)
  then have m: "PrefixRuleMatch prefx d None None \<in> set (exact_matches mm pol' (prefx @ extra))"
    by (simp add: exact_matches_def rules p List.map_filter_def)
  then have "exact_matches mm pol' (prefx @ extra) \<noteq> []" by auto
  with m have "\<exists>ev. check mm env pol' (prefx @ extra) f = Some ev \<and> is_match ev \<and> d \<le> ev_decision ev"
    using max_decision_ge [OF m] by (auto simp: check_default is_match_def list_ex_iff intro!: bexI [OF _ m])
  moreover have "exact_matches mm pol' cmd = exact_matches mm pol cmd" if "hd cmd \<noteq> hd prefx"
    using that by (simp add: exact_matches_def rules p)
  ultimately show ?thesis by (simp add: check_default)
qed

theorem add_prefix_rule_check_witness:
  "\<exists>pol'. add_prefix_rule log_map sample_policy [lit ''git''] Prompt = Inr pol' \<and>
     (\<exists>ev. check log_map sample_env pol' ([lit ''git''] @ [lit ''status'']) (\<lambda>_. Allow) = Some ev \<and>
        is_match ev \<and> Prompt \<le> ev_decision ev) \<and>
     check log_map sample_env pol' [lit ''ls''] (\<lambda>_. Allow) =
       check log_map sample_env sample_policy [lit ''ls''] (\<lambda>_. Allow)"
proof -
  obtain pol' where 1: "add_prefix_rule log_map sample_policy [lit ''git''] Prompt = Inr pol'"
    by (simp add: add_prefix_rule_def)
  have "hd [lit ''ls''] \<noteq> hd [lit ''git'']" by (simp add: lit_eval)
  with add_prefix_rule_check [OF log_map_ok 1, of sample_env "[lit ''status'']" "\<lambda>_. Allow" "[lit ''ls'']"] 1
  show ?thesis by blast
qed

text \<open>
  Arguments never make a command less strict: once a rule matches a command, every
  extension of it by further arguments is matched too, with a decision at least as strict.
\<close>

theorem check_extend_mono:
  assumes "check mm env pol cmd f = Some ev" and "is_match ev"
  shows "\<exists>ev'. check mm env pol (cmd @ extra) f = Some ev' \<and> is_match ev' \<and>
     ev_decision ev \<le> ev_decision ev'"
proof -
  from assms have ne: "exact_matches mm pol cmd \<noteq> []"
    by (auto simp: check_default is_match_def split: if_splits)
  with exact_matches_extend [of mm pol cmd extra]
  have ne2: "exact_matches mm pol (cmd @ extra) \<noteq> []" by force
  then have "is_match \<lparr>ev_decision = d, matched_rules = exact_matches mm pol (cmd @ extra)\<rparr>" for d
    using exact_not_heuristics [of "hd (exact_matches mm pol (cmd @ extra))" mm pol "cmd @ extra"]
    by (auto simp: is_match_def list_ex_iff intro!: bexI [OF _ hd_in_set])
  with assms ne ne2 show ?thesis
    using max_decision_mono [OF ne exact_matches_extend [of mm pol cmd extra]]
    by (auto simp: check_default)
qed

theorem check_extend_mono_witness:
  "\<exists>ev'. check log_map sample_env sample_policy ([lit ''git'', lit ''push''] @ [lit ''-f'']) (\<lambda>_. Allow)
     = Some ev' \<and> Prompt \<le> ev_decision ev'"
proof -
  let ?c = "check log_map sample_env sample_policy [lit ''git'', lit ''push''] (\<lambda>_. Allow)"
  have "?c \<noteq> None" "is_match (the ?c)" "ev_decision (the ?c) = Prompt" by code_simp+
  with check_extend_mono [of log_map sample_env sample_policy "[lit ''git'', lit ''push'']" "\<lambda>_. Allow"
      "the ?c" "[lit ''-f'']"]
  show ?thesis by (metis option.collapse)
qed



text \<open>
  The compiled network lists: no host is listed twice, and a host is allowed (denied)
  exactly when the last rule that decides it, prompting rules apart, allows (forbids) it;
  in particular no host is in both lists.
\<close>

theorem compiled_network_domains_last_wins:
  "compiled_network_domains pol = (allowed, denied) \<Longrightarrow>
     distinct allowed \<and> distinct denied \<and> set allowed \<inter> set denied = {} \<and>
     (\<forall>h. h \<in> set allowed \<longleftrightarrow> last_verdict (network_rules pol) h = Some Allow) \<and>
     (\<forall>h. h \<in> set denied \<longleftrightarrow> last_verdict (network_rules pol) h = Some Forbidden)"
  using compile_network_rules [of "network_rules pol" allowed denied]
  by (auto simp: compiled_network_domains_def)

definition sample_network :: "unit Policy" where
  "sample_network = Policy_from_parts ()
     [\<lparr>net_host = lit ''a'', net_protocol = Http, net_decision = Allow, net_justification = None\<rparr>,
      \<lparr>net_host = lit ''b'', net_protocol = Http, net_decision = Allow, net_justification = None\<rparr>,
      \<lparr>net_host = lit ''a'', net_protocol = Https, net_decision = Forbidden, net_justification = None\<rparr>]
     (\<lambda>_. None)"

theorem compiled_network_domains_last_wins_witness:
  "compiled_network_domains sample_network = ([lit ''b''], [lit ''a'']) \<and>
   last_verdict (network_rules sample_network) (lit ''a'') = Some Forbidden"
proof -
  have 1: "compiled_network_domains sample_network = ([lit ''b''], [lit ''a''])" by code_simp
  from compiled_network_domains_last_wins [OF 1] have
    "lit ''a'' \<in> set [lit ''a''] \<longleftrightarrow> last_verdict (network_rules sample_network) (lit ''a'') = Some Forbidden"
    by blast
  with 1 show ?thesis by simp
qed

text \<open>
  The allowed prefixes are reported in strictly increasing order, without duplicates,
  and they are exactly the rendered patterns of the allowing rules, whatever order the
  multimap iterates in.
\<close>

theorem get_allowed_prefixes_sound:
  assumes "multi_map_ok mm"
  shows "sorted_wrt (<) (get_allowed_prefixes mm pol) \<and>
     set (get_allowed_prefixes mm pol) =
       {rule_prefix r | r k. r \<in> set (get_rules mm (rules_by_program pol) k) \<and> rule_decision r = Allow}"
proof -
  let ?es = "mm_iter_all mm (rules_by_program pol)"
  have "sorted_wrt (<) (get_allowed_prefixes mm pol)"
    unfolding get_allowed_prefixes_def by (intro strict_sorted_remdups_adj) simp
  moreover have "(\<exists>(k, rs) \<in> set ?es. r \<in> set rs) \<longleftrightarrow>
      (\<exists>k. r \<in> set (get_rules mm (rules_by_program pol) k))" for r
  proof -
    have "(\<exists>(k, rs) \<in> set ?es. r \<in> set rs) \<longleftrightarrow>
        (\<exists>k rs. mm_get_vec mm (rules_by_program pol) k = Some rs \<and> r \<in> set rs)"
      using iter_all_iff [OF assms, of _ _ "rules_by_program pol"] by auto
    also have "\<dots> \<longleftrightarrow> (\<exists>k. r \<in> set (get_rules mm (rules_by_program pol) k))"
    proof (rule iff_exI)
      show "(\<exists>rs. mm_get_vec mm (rules_by_program pol) k = Some rs \<and> r \<in> set rs) \<longleftrightarrow>
          r \<in> set (get_rules mm (rules_by_program pol) k)" for k
        by (cases "mm_get_vec mm (rules_by_program pol) k") (simp_all add: get_rules_def)
    qed
    finally show ?thesis .
  qed
  then have "set (get_allowed_prefixes mm pol) =
       {rule_prefix r | r k. r \<in> set (get_rules mm (rules_by_program pol) k) \<and> rule_decision r = Allow}"
    by (fastforce simp: get_allowed_prefixes_def)
  ultimately show ?thesis by blast
qed

theorem get_allowed_prefixes_sound_witness:
  "get_allowed_prefixes log_map sample_policy = [[lit ''git'', lit ''status'']] \<and>
   set (get_allowed_prefixes log_map sample_policy) =
     {rule_prefix r | r k. r \<in> set (get_rules log_map (rules_by_program sample_policy) k) \<and>
        rule_decision r = Allow}"
proof -
  have "get_allowed_prefixes log_map sample_policy = [[lit ''git'', lit ''status'']]" by code_simp
  with get_allowed_prefixes_sound [OF log_map_ok, of sample_policy] show ?thesis by simp
qed

text \<open>
  A rule reached through a program path applies only to that path: every such match
  carries the absolute path the command names, the rule is keyed by its file name, and
  where the policy lists the host executables of that name the path is one of them.
\<close>

theorem host_executable_matches_listed:
  assumes "m \<in> set (match_host_executable_rules mm env pol cmd)"
  shows "\<exists>program basename. from_absolute_path (env_home env) (env_cwd env) (hd cmd) = Some program \<and>
     path_file_name program = Some basename \<and> resolved_program m = Some program \<and>
     hd (matched_prefix m) = basename \<and>
     (\<forall>paths. host_executables_by_name pol basename = Some paths \<longrightarrow> program \<in> set paths)"
proof -
  note d = assms [unfolded match_host_executable_rules_def]
  from d obtain first rest where c: "cmd = first # rest" by (cases cmd) auto
  with d obtain program where p: "from_absolute_path (env_home env) (env_cwd env) first = Some program"
    by (cases "from_absolute_path (env_home env) (env_cwd env) first") auto
  with d c obtain basename where b: "executable_path_lookup_key program = Some basename"
    by (cases "executable_path_lookup_key program") auto
  with d c p obtain rules where r: "mm_get_vec mm (rules_by_program pol) basename = Some rules"
    by (cases "mm_get_vec mm (rules_by_program pol) basename") auto
  have l: "\<forall>paths. host_executables_by_name pol basename = Some paths \<longrightarrow> program \<in> set paths"
    using d c p b r by (auto simp: list_ex_iff split: if_splits)
  with d c p b r have "m \<in> set (map (with_resolved_program program)
      (List.map_filter (\<lambda>r. rule_matches r (basename # rest)) rules))"
    by (auto split: if_splits)
  then obtain r k where k: "rule_matches r (basename # rest) = Some k"
    and m: "m = with_resolved_program program k"
    by (auto simp: in_map_filter)
  from b have "path_file_name program = Some basename"
    by (auto simp: executable_path_lookup_key_def executable_lookup_key_def)
  moreover from k m have "resolved_program m = Some program \<and> hd (matched_prefix m) = basename"
    by (auto simp: rule_matches_def matches_prefix_Some)
  ultimately show ?thesis using c p l by auto
qed

definition host_policy :: "(rstr \<times> PrefixRule) list Policy" where
  "host_policy = set_host_executable_paths sample_policy (lit ''git'')
     [[RootDir, Normal (lit ''bin''), Normal (lit ''git'')]]"

theorem host_executable_matches_listed_witness:
  "\<exists>m. match_host_executable_rules log_map sample_env host_policy [lit ''/bin/git'', lit ''status''] = [m]
     \<and> hd (matched_prefix m) = lit ''git''"
proof -
  let ?m = "PrefixRuleMatch [lit ''git'', lit ''status''] Allow
      (Some [RootDir, Normal (lit ''bin''), Normal (lit ''git'')]) None"
  have 1: "match_host_executable_rules log_map sample_env host_policy [lit ''/bin/git'', lit ''status'']
      = [?m]" by code_simp
  then have "?m \<in> set (match_host_executable_rules log_map sample_env host_policy
      [lit ''/bin/git'', lit ''status''])" by simp
  from host_executable_matches_listed [OF this] 1 show ?thesis by auto
qed

end
