(* ===== verification/Policy_Builder.thy ===== *)
theory Policy_Builder
  imports Exec_Policy
begin

text \<open>
  \<open>execpolicy/src/parser.rs\<close> and the example validation of \<open>rule.rs\<close>: the functions a policy
  file calls, the builder they fill, and the validation of the examples given with the
  rules.

  Policy files are Starlark programs. The interpreter is outside the repository: it is
  the argument \<open>starlark\<close>, which yields the calls a file makes to the three built-in
  functions, in order, and the error that ends it, if any (the built-ins return nothing a
  program could branch on, and an error of one of them ends the program). So are
  \<open>shlex\<close> and the \<open>Debug\<close> printers, which only occur in messages and in splitting an
  example string: the record \<open>exec_lib\<close>.
\<close>

section \<open>Values and library\<close>

datatype starlark_value = SvStr rstr | SvList "starlark_value list" | SvOther rstr

fun unpack_str :: "starlark_value \<Rightarrow> rstr option" where
  "unpack_str (SvStr s) = Some s"
| "unpack_str _ = None"

fun get_type :: "starlark_value \<Rightarrow> rstr" where
  "get_type (SvStr s) = lit ''string''"
| "get_type (SvList vs) = lit ''list''"
| "get_type (SvOther t) = t"

record exec_lib =
  shlex_split :: "rstr \<Rightarrow> rstr list option"
  shlex_try_join :: "rstr list \<Rightarrow> rstr option"
  debug_rule :: "PrefixRule \<Rightarrow> rstr"
  debug_match :: "RuleMatch \<Rightarrow> rstr"
  current_dir_error :: rstr
  wrap_error :: "exec_error \<Rightarrow> rstr"

section \<open>Validating examples\<close>

definition render_example :: "exec_lib \<Rightarrow> rstr list \<Rightarrow> rstr" where
  "render_example lib example =
     (case shlex_try_join lib example of
        Some s \<Rightarrow> s
      | None \<Rightarrow> lit ''unable to render example'')"

definition example_matches ::
    "'m multi_map \<Rightarrow> path_env \<Rightarrow> 'm Policy \<Rightarrow> rstr list \<Rightarrow> RuleMatch list" where
  "example_matches mm env pol example =
     matches_for_command_with_options mm env pol example None \<lparr>resolve_host_executables = True\<rparr>"

definition validate_match_examples ::
    "'m multi_map \<Rightarrow> path_env \<Rightarrow> exec_lib \<Rightarrow> 'm Policy \<Rightarrow> PrefixRule list \<Rightarrow> rstr list list \<Rightarrow>
       exec_error + unit" where
  "validate_match_examples mm env lib pol rules matches =
     (let unmatched = filter (\<lambda>example. example_matches mm env pol example = []) matches in
      if unmatched = [] then Ok ()
      else Err (ExampleDidNotMatch (map (debug_rule lib) rules) (map (render_example lib) unmatched) None))"

fun validate_not_match_examples ::
    "'m multi_map \<Rightarrow> path_env \<Rightarrow> exec_lib \<Rightarrow> 'm Policy \<Rightarrow> PrefixRule list \<Rightarrow> rstr list list \<Rightarrow>
       exec_error + unit" where
  "validate_not_match_examples mm env lib pol rules [] = Ok ()"
| "validate_not_match_examples mm env lib pol rules (example # rest) =
     (case example_matches mm env pol example of
        m # _ \<Rightarrow> Err (ExampleDidMatch (debug_match lib m) (render_example lib example) None)
      | [] \<Rightarrow> validate_not_match_examples mm env lib pol rules rest)"

section \<open>The builder\<close>

record PendingExampleValidation =
  pv_rules :: "PrefixRule list"
  pv_matches :: "rstr list list"
  pv_not_matches :: "rstr list list"
  pv_location :: "error_location option"

record 'm PolicyBuilder =
  pb_rules_by_program :: 'm
  pb_network_rules :: "NetworkRule list"
  pb_host_executables :: "rstr \<Rightarrow> path_buf list option"
  pending_example_validations :: "PendingExampleValidation list"

definition PolicyBuilder_new :: "'m multi_map \<Rightarrow> 'm PolicyBuilder" where
  "PolicyBuilder_new mm =
     \<lparr>pb_rules_by_program = mm_new mm, pb_network_rules = [], pb_host_executables = (\<lambda>_. None),
      pending_example_validations = []\<rparr>"

definition add_rule :: "'m multi_map \<Rightarrow> PrefixRule \<Rightarrow> 'm PolicyBuilder \<Rightarrow> 'm PolicyBuilder" where
  "add_rule mm rule b =
     b\<lparr>pb_rules_by_program := mm_insert mm (pb_rules_by_program b) (rule_program rule) rule\<rparr>"

definition builder_add_network_rule :: "NetworkRule \<Rightarrow> 'm PolicyBuilder \<Rightarrow> 'm PolicyBuilder" where
  "builder_add_network_rule rule b = b\<lparr>pb_network_rules := pb_network_rules b @ [rule]\<rparr>"

definition add_host_executable :: "rstr \<Rightarrow> path_buf list \<Rightarrow> 'm PolicyBuilder \<Rightarrow> 'm PolicyBuilder" where
  "add_host_executable name paths b =
     b\<lparr>pb_host_executables := (pb_host_executables b)(name \<mapsto> paths)\<rparr>"

definition add_pending_example_validation ::
    "PrefixRule list \<Rightarrow> rstr list list \<Rightarrow> rstr list list \<Rightarrow> error_location option \<Rightarrow>
       'm PolicyBuilder \<Rightarrow> 'm PolicyBuilder" where
  "add_pending_example_validation rules matches not_matches location b =
     b\<lparr>pending_example_validations := pending_example_validations b @
         [\<lparr>pv_rules = rules, pv_matches = matches, pv_not_matches = not_matches,
           pv_location = location\<rparr>]\<rparr>"

definition attach_validation_location ::
    "exec_error \<Rightarrow> error_location option \<Rightarrow> exec_error" where
  "attach_validation_location e location =
     (case location of Some l \<Rightarrow> with_location e l | None \<Rightarrow> e)"

definition validation_policy ::
    "'m multi_map \<Rightarrow> 'm PolicyBuilder \<Rightarrow> PrefixRule list \<Rightarrow> 'm Policy" where
  "validation_policy mm b rules =
     Policy_from_parts
       (foldl (\<lambda>m rule. mm_insert mm m (rule_program rule) rule) (mm_new mm) rules)
       [] (pb_host_executables b)"

fun validate_all ::
    "'m multi_map \<Rightarrow> path_env \<Rightarrow> exec_lib \<Rightarrow> 'm PolicyBuilder \<Rightarrow> PendingExampleValidation list \<Rightarrow>
       exec_error + unit" where
  "validate_all mm env lib b [] = Ok ()"
| "validate_all mm env lib b (v # vs) =
     (let pol = validation_policy mm b (pv_rules v) in
      case validate_not_match_examples mm env lib pol (pv_rules v) (pv_not_matches v) of
        Inl e \<Rightarrow> Err (attach_validation_location e (pv_location v))
      | Inr _ \<Rightarrow>
          (case validate_match_examples mm env lib pol (pv_rules v) (pv_matches v) of
             Inl e \<Rightarrow> Err (attach_validation_location e (pv_location v))
           | Inr _ \<Rightarrow> validate_all mm env lib b vs))"

text \<open>Slicing past the end panics.\<close>

definition validate_pending_examples_from ::
    "'m multi_map \<Rightarrow> path_env \<Rightarrow> exec_lib \<Rightarrow> 'm PolicyBuilder \<Rightarrow> nat \<Rightarrow> (exec_error + unit) option" where
  "validate_pending_examples_from mm env lib b start =
     (if length (pending_example_validations b) < start then None
      else Some (validate_all mm env lib b (drop start (pending_example_validations b))))"

definition build :: "'m PolicyBuilder \<Rightarrow> 'm Policy" where
  "build b = Policy_from_parts (pb_rules_by_program b) (pb_network_rules b) (pb_host_executables b)"

section \<open>Reading arguments\<close>

text \<open>\<open>collect::<Result<Vec<_>, _>>\<close>: the first error, or all results.\<close>

fun collect_results :: "('a \<Rightarrow> 'e + 'b) \<Rightarrow> 'a list \<Rightarrow> 'e + 'b list" where
  "collect_results f [] = Ok []"
| "collect_results f (x # xs) =
     (case f x of
        Inl e \<Rightarrow> Err e
      | Inr y \<Rightarrow> (case collect_results f xs of Inl e \<Rightarrow> Err e | Inr ys \<Rightarrow> Ok (y # ys)))"

definition string_or :: "(rstr \<Rightarrow> exec_error) \<Rightarrow> starlark_value \<Rightarrow> exec_error + rstr" where
  "string_or err v = (case unpack_str v of Some s \<Rightarrow> Ok s | None \<Rightarrow> Err (err (get_type v)))"

definition msg_alternative :: "rstr \<Rightarrow> exec_error" where
  "msg_alternative t =
     InvalidPattern (lit ''pattern alternative must be a string (got '' @ t @ lit '')'')"

fun parse_pattern_token :: "starlark_value \<Rightarrow> exec_error + PatternToken" where
  "parse_pattern_token (SvStr s) = Ok (Single s)"
| "parse_pattern_token (SvList vs) =
     (case collect_results (string_or msg_alternative) vs of
        Inl e \<Rightarrow> Err e
      | Inr tokens \<Rightarrow>
          (case tokens of
             [] \<Rightarrow> Err (InvalidPattern (lit ''pattern alternatives cannot be empty''))
           | [single] \<Rightarrow> Ok (Single single)
           | _ \<Rightarrow> Ok (Alts tokens)))"
| "parse_pattern_token (SvOther t) =
     Err (InvalidPattern
       (lit ''pattern element must be a string or list of strings (got '' @ t @ lit '')''))"

definition parse_pattern :: "starlark_value list \<Rightarrow> exec_error + PatternToken list" where
  "parse_pattern items =
     (case collect_results parse_pattern_token items of
        Inl e \<Rightarrow> Err e
      | Inr tokens \<Rightarrow>
          if tokens = [] then Err (InvalidPattern (lit ''pattern cannot be empty'')) else Ok tokens)"

definition parse_string_example :: "exec_lib \<Rightarrow> rstr \<Rightarrow> exec_error + rstr list" where
  "parse_string_example lib raw =
     (case shlex_split lib raw of
        None \<Rightarrow> Err (InvalidExample (lit ''example string has invalid shell syntax''))
      | Some tokens \<Rightarrow>
          if tokens = [] then Err (InvalidExample (lit ''example cannot be an empty string''))
          else Ok tokens)"

definition msg_example_token :: "rstr \<Rightarrow> exec_error" where
  "msg_example_token t = InvalidExample (lit ''example tokens must be strings (got '' @ t @ lit '')'')"

definition parse_list_example :: "starlark_value list \<Rightarrow> exec_error + rstr list" where
  "parse_list_example vs =
     (case collect_results (string_or msg_example_token) vs of
        Inl e \<Rightarrow> Err e
      | Inr tokens \<Rightarrow>
          if tokens = [] then Err (InvalidExample (lit ''example cannot be an empty list''))
          else Ok tokens)"

fun parse_example :: "exec_lib \<Rightarrow> starlark_value \<Rightarrow> exec_error + rstr list" where
  "parse_example lib (SvStr raw) = parse_string_example lib raw"
| "parse_example lib (SvList vs) = parse_list_example vs"
| "parse_example lib (SvOther t) =
     Err (InvalidExample (lit ''example must be a string or list of strings (got '' @ t @ lit '')''))"

definition parse_examples :: "exec_lib \<Rightarrow> starlark_value list \<Rightarrow> exec_error + rstr list list" where
  "parse_examples lib vs = collect_results (parse_example lib) vs"

definition optional_examples ::
    "exec_lib \<Rightarrow> starlark_value list option \<Rightarrow> exec_error + rstr list list" where
  "optional_examples lib x = (case x of None \<Rightarrow> Ok [] | Some vs \<Rightarrow> parse_examples lib vs)"

definition parse_justification :: "rstr option \<Rightarrow> exec_error + rstr option" where
  "parse_justification j =
     (case j of
        Some raw \<Rightarrow>
          if trim raw = [] then Err (InvalidRule (lit ''justification cannot be empty''))
          else Ok (Some raw)
      | None \<Rightarrow> Ok None)"

definition parse_network_rule_decision :: "rstr \<Rightarrow> exec_error + Decision" where
  "parse_network_rule_decision raw =
     (if raw = lit ''deny'' then Ok Forbidden else Decision_parse raw)"

definition parse_literal_absolute_path ::
    "path_env \<Rightarrow> exec_lib \<Rightarrow> rstr \<Rightarrow> exec_error + path_buf" where
  "parse_literal_absolute_path env lib raw =
     (if \<not> is_absolute (path_components raw)
      then Err (InvalidRule (lit ''host_executable paths must be absolute (got '' @ raw @ lit '')''))
      else (case from_absolute_path (env_home env) (env_cwd env) raw of
              Some p \<Rightarrow> Ok p
            | None \<Rightarrow>
                Err (InvalidRule (lit ''invalid absolute path `'' @ raw @ lit ''`: '' @
                  current_dir_error lib))))"

definition validate_host_executable_name :: "rstr \<Rightarrow> exec_error + unit" where
  "validate_host_executable_name name =
     (if name = [] then Err (InvalidRule (lit ''host_executable name cannot be empty''))
      else if length (path_components name) \<noteq> 1 \<or> path_file_name (path_components name) \<noteq> Some name
      then Err (InvalidRule (lit ''host_executable name must be a bare executable name (got '' @
             name @ lit '')''))
      else Ok ())"

section \<open>The built-in functions\<close>

definition rules_of_tokens ::
    "PatternToken list \<Rightarrow> Decision \<Rightarrow> rstr option \<Rightarrow> PrefixRule list" where
  "rules_of_tokens tokens decision justification =
     (case tokens of
        [] \<Rightarrow> []
      | first_token # rest \<Rightarrow>
          map (\<lambda>head. \<lparr>rule_pattern = \<lparr>pat_first = head, pat_rest = rest\<rparr>, rule_decision = decision,
                       rule_justification = justification\<rparr>)
            (PatternToken_alternatives first_token))"

definition prefix_rule ::
    "'m multi_map \<Rightarrow> exec_lib \<Rightarrow> starlark_value list \<Rightarrow> rstr option \<Rightarrow> starlark_value list option \<Rightarrow>
       starlark_value list option \<Rightarrow> rstr option \<Rightarrow> error_location option \<Rightarrow> 'm PolicyBuilder \<Rightarrow>
       exec_error + 'm PolicyBuilder" where
  "prefix_rule mm lib pattern decision match not_match justification location b =
     (case (case decision of Some raw \<Rightarrow> Decision_parse raw | None \<Rightarrow> Ok Allow) of
        Inl e \<Rightarrow> Err e
      | Inr d \<Rightarrow>
     (case parse_justification justification of
        Inl e \<Rightarrow> Err e
      | Inr j \<Rightarrow>
     (case parse_pattern pattern of
        Inl e \<Rightarrow> Err e
      | Inr pattern_tokens \<Rightarrow>
     (case optional_examples lib match of
        Inl e \<Rightarrow> Err e
      | Inr matches \<Rightarrow>
     (case optional_examples lib not_match of
        Inl e \<Rightarrow> Err e
      | Inr not_matches \<Rightarrow>
          if pattern_tokens = [] then Err (InvalidPattern (lit ''pattern cannot be empty''))
          else
            let rules = rules_of_tokens pattern_tokens d j;
                b1 = add_pending_example_validation rules matches not_matches location b in
            Ok (foldl (\<lambda>b rule. add_rule mm rule b) b1 rules))))))"

definition network_rule ::
    "rstr \<Rightarrow> rstr \<Rightarrow> rstr \<Rightarrow> rstr option \<Rightarrow> 'm PolicyBuilder \<Rightarrow> exec_error + 'm PolicyBuilder" where
  "network_rule host protocol decision justification b =
     (case NetworkRuleProtocol_parse protocol of
        Inl e \<Rightarrow> Err e
      | Inr p \<Rightarrow>
     (case parse_network_rule_decision decision of
        Inl e \<Rightarrow> Err e
      | Inr d \<Rightarrow>
     (case parse_justification justification of
        Inl e \<Rightarrow> Err e
      | Inr j \<Rightarrow>
     (case normalize_network_rule_host host of
        Inl e \<Rightarrow> Err e
      | Inr h \<Rightarrow>
          Ok (builder_add_network_rule
            \<lparr>net_host = h, net_protocol = p, net_decision = d, net_justification = j\<rparr> b)))))"

fun parse_host_paths ::
    "path_env \<Rightarrow> exec_lib \<Rightarrow> rstr \<Rightarrow> starlark_value list \<Rightarrow> path_buf list \<Rightarrow> exec_error + path_buf list"
where
  "parse_host_paths env lib name [] parsed = Ok parsed"
| "parse_host_paths env lib name (v # vs) parsed =
     (case unpack_str v of
        None \<Rightarrow>
          Err (InvalidRule (lit ''host_executable paths must be strings (got '' @ get_type v @ lit '')''))
      | Some raw \<Rightarrow>
          (case parse_literal_absolute_path env lib raw of
             Inl e \<Rightarrow> Err e
           | Inr path \<Rightarrow>
               if executable_path_lookup_key path \<noteq> Some (executable_lookup_key name)
               then Err (InvalidRule (lit ''host_executable path `'' @ raw @
                      lit ''` must have basename `'' @ name @ lit ''`''))
               else parse_host_paths env lib name vs
                      (if path \<in> set parsed then parsed else parsed @ [path])))"

definition host_executable ::
    "path_env \<Rightarrow> exec_lib \<Rightarrow> rstr \<Rightarrow> starlark_value list \<Rightarrow> 'm PolicyBuilder \<Rightarrow>
       exec_error + 'm PolicyBuilder" where
  "host_executable env lib name paths b =
     (case validate_host_executable_name name of
        Inl e \<Rightarrow> Err e
      | Inr _ \<Rightarrow>
          (case parse_host_paths env lib name paths [] of
             Inl e \<Rightarrow> Err e
           | Inr parsed \<Rightarrow> Ok (add_host_executable (executable_lookup_key name) parsed b)))"

section \<open>Parsing a policy file\<close>

datatype builtin_call =
    CallPrefixRule "starlark_value list" "rstr option" "starlark_value list option"
      "starlark_value list option" "rstr option" "error_location option"
  | CallNetworkRule rstr rstr rstr "rstr option"
  | CallHostExecutable rstr "starlark_value list"

fun run_call ::
    "'m multi_map \<Rightarrow> path_env \<Rightarrow> exec_lib \<Rightarrow> builtin_call \<Rightarrow> 'm PolicyBuilder \<Rightarrow>
       exec_error + 'm PolicyBuilder" where
  "run_call mm env lib (CallPrefixRule pattern d m n j l) b = prefix_rule mm lib pattern d m n j l b"
| "run_call mm env lib (CallNetworkRule host protocol d j) b = network_rule host protocol d j b"
| "run_call mm env lib (CallHostExecutable name paths) b = host_executable env lib name paths b"

fun run_calls ::
    "'m multi_map \<Rightarrow> path_env \<Rightarrow> exec_lib \<Rightarrow> builtin_call list \<Rightarrow> 'm PolicyBuilder \<Rightarrow>
       (exec_error + unit) \<times> 'm PolicyBuilder" where
  "run_calls mm env lib [] b = (Ok (), b)"
| "run_calls mm env lib (c # cs) b =
     (case run_call mm env lib c b of
        Inl e \<Rightarrow> (Err (StarlarkFailure (wrap_error lib e)), b)
      | Inr b1 \<Rightarrow> run_calls mm env lib cs b1)"

text \<open>The interpreter: a syntax error, or the calls a file makes and how it ends.\<close>

type_synonym starlark = "rstr \<Rightarrow> rstr \<Rightarrow> rstr + builtin_call list \<times> rstr option"

definition PolicyParser_parse ::
    "'m multi_map \<Rightarrow> path_env \<Rightarrow> exec_lib \<Rightarrow> starlark \<Rightarrow> rstr \<Rightarrow> rstr \<Rightarrow> 'm PolicyBuilder \<Rightarrow>
       ((exec_error + unit) \<times> 'm PolicyBuilder) option" where
  "PolicyParser_parse mm env lib starlark policy_identifier contents b =
     (let pending_validation_count = length (pending_example_validations b) in
      case starlark policy_identifier contents of
        Inl e \<Rightarrow> Some (Err (StarlarkFailure e), b)
      | Inr (calls, failure) \<Rightarrow>
          (case run_calls mm env lib calls b of
             (Inl e, b1) \<Rightarrow> Some (Err e, b1)
           | (Inr _, b1) \<Rightarrow>
               (case failure of
                  Some e \<Rightarrow> Some (Err (StarlarkFailure e), b1)
                | None \<Rightarrow>
                    (case validate_pending_examples_from mm env lib b1 pending_validation_count of
                       None \<Rightarrow> None
                     | Some (Inl e) \<Rightarrow> Some (Err e, b1)
                     | Some (Inr _) \<Rightarrow> Some (Ok (), b1)))))"

section \<open>What the builder guarantees\<close>

fun token_ok :: "PatternToken \<Rightarrow> bool" where
  "token_ok (Single s) = True"
| "token_ok (Alts alts) \<longleftrightarrow> 2 \<le> length alts"

definition rule_ok :: "PrefixRule \<Rightarrow> bool" where
  "rule_ok r \<longleftrightarrow> list_all token_ok (pat_rest (rule_pattern r))"

definition host_entry_ok :: "rstr \<Rightarrow> path_buf list \<Rightarrow> bool" where
  "host_entry_ok name paths \<longleftrightarrow>
     distinct paths \<and> (\<forall>p \<in> set paths. normal_abs p \<and> path_file_name p = Some name)"

text \<open>
  Every rule is filed under its own program and has real alternatives; every network host
  is a result of the normalization; every host executable path is a distinct normalized
  absolute path with the file name it is listed under.
\<close>

definition policy_ok :: "'m multi_map \<Rightarrow> 'm Policy \<Rightarrow> bool" where
  "policy_ok mm pol \<longleftrightarrow>
     (\<forall>k. \<forall>r \<in> set (get_rules mm (rules_by_program pol) k). rule_program r = k \<and> rule_ok r) \<and>
     (\<forall>n \<in> set (network_rules pol). \<exists>raw. normalize_network_rule_host raw = Inr (net_host n)) \<and>
     (\<forall>name paths. host_executables_by_name pol name = Some paths \<longrightarrow> host_entry_ok name paths)"

lemma build_simps [simp]:
  "rules_by_program (build b) = pb_rules_by_program b" "network_rules (build b) = pb_network_rules b"
  "host_executables_by_name (build b) = pb_host_executables b"
  by (simp_all add: build_def Policy_from_parts_def)

lemma collect_results_Inr:
  "collect_results f xs = Inr ys \<Longrightarrow> list_all2 (\<lambda>x y. f x = Inr y) xs ys"
  by (induction xs arbitrary: ys) (auto split: sum.splits)

lemma parse_pattern_token_ok: "parse_pattern_token v = Inr t \<Longrightarrow> token_ok t"
  by (cases v) (auto split: sum.splits list.splits)

lemma parse_pattern_ok:
  assumes "parse_pattern vs = Inr ts"
  shows "ts \<noteq> [] \<and> list_all token_ok ts"
proof -
  from assms have c: "collect_results parse_pattern_token vs = Inr ts" and "ts \<noteq> []"
    by (auto simp: parse_pattern_def split: sum.splits if_splits)
  have "list_all2 (\<lambda>v t. parse_pattern_token v = Inr t) vs ts" using collect_results_Inr [OF c] .
  then have "list_all token_ok ts" by (induction) (auto dest: parse_pattern_token_ok)
  with \<open>ts \<noteq> []\<close> show ?thesis by simp
qed

lemma absolute_no_tilde: "is_absolute (path_components s) \<Longrightarrow> strip_prefix [126] s = None"
  by (auto simp: path_components_def starts_with_prefix strip_prefix_None prefix_def chr_slash_def
      body_components_def split: if_splits list.splits)

lemma parse_literal_normal:
  assumes "parse_literal_absolute_path env lib raw = Inr p"
  shows "normal_abs p"
proof -
  from assms have a: "is_absolute (path_components raw)"
    and "from_absolute_path (env_home env) (env_cwd env) raw = Some p"
    by (auto simp: parse_literal_absolute_path_def split: if_splits option.splits)
  with absolute_no_tilde [OF a] normalize_path_abs [OF a components_ok] show ?thesis
    by (auto simp: from_absolute_path_def maybe_expand_home_directory_def absolutize_def)
qed

lemma parse_host_paths_ok:
  "parse_host_paths env lib name vs parsed = Inr ps \<Longrightarrow> host_entry_ok name parsed \<Longrightarrow>
     host_entry_ok name ps"
proof (induction vs arbitrary: parsed)
  case (Cons v vs)
  then obtain raw path where p: "parse_literal_absolute_path env lib raw = Inr path"
    and n: "executable_path_lookup_key path = Some (executable_lookup_key name)"
    and r: "parse_host_paths env lib name vs (if path \<in> set parsed then parsed else parsed @ [path])
      = Inr ps"
    by (auto split: option.splits sum.splits if_splits)
  from n have "path_file_name path = Some name"
    by (auto simp: executable_path_lookup_key_def executable_lookup_key_def)
  with parse_literal_normal [OF p] Cons.prems(2)
  have "host_entry_ok name (if path \<in> set parsed then parsed else parsed @ [path])"
    by (auto simp: host_entry_ok_def)
  from Cons.IH [OF r this] show ?case .
qed simp

lemma get_rules_add_rules:
  assumes "multi_map_ok mm"
  shows "get_rules mm (pb_rules_by_program (foldl (\<lambda>b rule. add_rule mm rule b) b rules)) k =
     get_rules mm (pb_rules_by_program b) k @ filter (\<lambda>r. rule_program r = k) rules"
  by (induction rules arbitrary: b) (auto simp: add_rule_def get_rules_insert [OF assms])

lemma add_rules_keep [simp]:
  "pb_network_rules (foldl (\<lambda>b rule. add_rule mm rule b) b rules) = pb_network_rules b"
  "pb_host_executables (foldl (\<lambda>b rule. add_rule mm rule b) b rules) = pb_host_executables b"
  "pending_example_validations (foldl (\<lambda>b rule. add_rule mm rule b) b rules) =
     pending_example_validations b"
  by (induction rules arbitrary: b) (simp_all add: add_rule_def)

lemma add_pending_keep [simp]:
  "pb_rules_by_program (add_pending_example_validation r m n l b) = pb_rules_by_program b"
  "pb_network_rules (add_pending_example_validation r m n l b) = pb_network_rules b"
  "pb_host_executables (add_pending_example_validation r m n l b) = pb_host_executables b"
  by (simp_all add: add_pending_example_validation_def)

lemma rules_of_tokens_ok:
  "list_all token_ok ts \<Longrightarrow> r \<in> set (rules_of_tokens ts d j) \<Longrightarrow> rule_ok r"
  by (cases ts) (auto simp: rules_of_tokens_def rule_ok_def)

text \<open>What a successful \<open>prefix_rule\<close> does.\<close>

lemma prefix_rule_Inr:
  assumes "prefix_rule mm lib pattern d m n j l b = Inr b'"
  shows "\<exists>ts dec just ms ns. parse_pattern pattern = Inr ts \<and>
     b' = foldl (\<lambda>b rule. add_rule mm rule b)
       (add_pending_example_validation (rules_of_tokens ts dec just) ms ns l b)
       (rules_of_tokens ts dec just)"
proof -
  from assms obtain dec just where "(case d of Some raw \<Rightarrow> Decision_parse raw | None \<Rightarrow> Ok Allow) = Inr dec"
    "parse_justification j = Inr just"
    unfolding prefix_rule_def by (auto split: sum.splits)
  moreover from this assms obtain ts where "parse_pattern pattern = Inr ts"
    unfolding prefix_rule_def by (auto split: sum.splits)
  moreover from calculation assms obtain ms where "optional_examples lib m = Inr ms"
    unfolding prefix_rule_def by (auto split: sum.splits)
  moreover from calculation assms obtain ns where "optional_examples lib n = Inr ns"
    unfolding prefix_rule_def by (auto split: sum.splits)
  ultimately show ?thesis
    using assms unfolding prefix_rule_def
    by (intro exI [of _ ts] exI [of _ dec] exI [of _ just] exI [of _ ms] exI [of _ ns])
      (auto simp: Let_def split: if_splits)
qed

lemma run_call_policy_ok:
  assumes mm: "multi_map_ok mm" and ok: "policy_ok mm (build b)"
    and r: "run_call mm env lib c b = Inr b'"
  shows "policy_ok mm (build b')"
proof (cases c)
  case (CallPrefixRule pattern d m n j l)
  with r prefix_rule_Inr [of mm lib pattern d m n j l b b'] obtain ts dec just ms ns where
    "parse_pattern pattern = Inr ts" and b': "b' = foldl (\<lambda>b rule. add_rule mm rule b)
       (add_pending_example_validation (rules_of_tokens ts dec just) ms ns l b)
       (rules_of_tokens ts dec just)"
    by auto
  with parse_pattern_ok have "list_all token_ok ts" by blast
  with ok show ?thesis
    by (auto simp: policy_ok_def b' get_rules_add_rules [OF mm] rules_of_tokens_ok)
next
  case (CallNetworkRule h p d j)
  with r obtain hh pp dd jj where h: "normalize_network_rule_host h = Inr hh"
    and b': "b' = builder_add_network_rule
      \<lparr>net_host = hh, net_protocol = pp, net_decision = dd, net_justification = jj\<rparr> b"
    by (auto simp: network_rule_def split: sum.splits)
  from h have "\<exists>raw. normalize_network_rule_host raw = Inr hh" by blast
  with ok show ?thesis by (auto simp: policy_ok_def b' builder_add_network_rule_def)
next
  case (CallHostExecutable name paths)
  with r obtain ps where p: "parse_host_paths env lib name paths [] = Inr ps"
    and b': "b' = add_host_executable name ps b"
    by (auto simp: host_executable_def executable_lookup_key_def split: sum.splits)
  have "host_entry_ok name ps" by (rule parse_host_paths_ok [OF p]) (simp add: host_entry_ok_def)
  with ok show ?thesis by (auto simp: policy_ok_def b' add_host_executable_def)
qed

lemma run_calls_policy_ok:
  "multi_map_ok mm \<Longrightarrow> policy_ok mm (build b) \<Longrightarrow> run_calls mm env lib cs b = (r, b') \<Longrightarrow>
     policy_ok mm (build b')"
  by (induction cs arbitrary: b) (auto split: sum.splits dest: run_call_policy_ok)

lemma run_call_pending:
  assumes "run_call mm env lib c b = Inr b'"
  shows "\<exists>vs. pending_example_validations b' = pending_example_validations b @ vs"
proof (cases c)
  case (CallPrefixRule pattern d m n j l)
  with assms prefix_rule_Inr [of mm lib pattern d m n j l b b'] show ?thesis
    by (auto simp: add_pending_example_validation_def)
qed (use assms in \<open>auto simp: network_rule_def host_executable_def builder_add_network_rule_def
      add_host_executable_def split: sum.splits\<close>)

lemma run_calls_pending:
  "run_calls mm env lib cs b = (r, b') \<Longrightarrow>
     \<exists>vs. pending_example_validations b' = pending_example_validations b @ vs"
proof (induction cs arbitrary: b)
  case (Cons c cs)
  then show ?case
    by (cases "run_call mm env lib c b") (fastforce dest: run_call_pending)+
qed simp

text \<open>The examples a validated entry gives.\<close>

definition examples_hold ::
    "'m multi_map \<Rightarrow> path_env \<Rightarrow> 'm PolicyBuilder \<Rightarrow> PendingExampleValidation \<Rightarrow> bool" where
  "examples_hold mm env b v \<longleftrightarrow>
     (\<forall>e \<in> set (pv_matches v). example_matches mm env (validation_policy mm b (pv_rules v)) e \<noteq> []) \<and>
     (\<forall>e \<in> set (pv_not_matches v). example_matches mm env (validation_policy mm b (pv_rules v)) e = [])"

lemma validate_not_match_Inr:
  "validate_not_match_examples mm env lib pol rules es = Inr u \<longleftrightarrow>
     (\<forall>e \<in> set es. example_matches mm env pol e = [])"
  by (induction es) (auto split: list.splits)

lemma validate_match_Inr:
  "validate_match_examples mm env lib pol rules es = Inr u \<longleftrightarrow>
     (\<forall>e \<in> set es. example_matches mm env pol e \<noteq> [])"
  by (auto simp: validate_match_examples_def Let_def filter_empty_conv)

lemma validate_all_Inr:
  "validate_all mm env lib b vs = Inr u \<longleftrightarrow> (\<forall>v \<in> set vs. examples_hold mm env b v)"
proof (induction vs)
  case (Cons v vs)
  then show ?case
    using validate_not_match_Inr [of mm env lib "validation_policy mm b (pv_rules v)" "pv_rules v"
        "pv_not_matches v"]
      validate_match_Inr [of mm env lib "validation_policy mm b (pv_rules v)" "pv_rules v" "pv_matches v"]
    by (auto simp: Let_def examples_hold_def split: sum.splits)
qed simp

lemma parse_outcome:
  "\<exists>r b'. PolicyParser_parse mm env lib starlark ident contents b = Some (r, b') \<and>
     (b' = b \<or> (\<exists>cs x. run_calls mm env lib cs b = (x, b'))) \<and>
     (r = Inr () \<longrightarrow> (\<forall>v \<in> set (drop (length (pending_example_validations b))
        (pending_example_validations b')). examples_hold mm env b' v))"
proof (cases "starlark ident contents")
  case (Inr run)
  obtain cs failure x b1 where run: "run = (cs, failure)" and b1: "run_calls mm env lib cs b = (x, b1)"
    by (cases run, cases "run_calls mm env lib (fst run) b") auto
  from run_calls_pending [OF b1] obtain vs where
    "pending_example_validations b1 = pending_example_validations b @ vs" by blast
  with Inr run b1 validate_all_Inr [of mm env lib b1 vs] show ?thesis
    by (cases x; cases failure; cases "validate_all mm env lib b1 vs")
      (auto simp: PolicyParser_parse_def Let_def validate_pending_examples_from_def)
qed (simp add: PolicyParser_parse_def)

section \<open>Properties\<close>

text \<open>
  When a policy file is accepted, its examples hold: every \<open>match\<close> example of every
  rule it added is matched by that rule, and no \<open>not_match\<close> example is, with the host
  executables known at the end of the file. Parsing never panics.
\<close>

theorem parse_validates_examples:
  "\<exists>r b'. PolicyParser_parse mm env lib starlark ident contents b = Some (r, b') \<and>
     (r = Inr () \<longrightarrow> (\<forall>v \<in> set (drop (length (pending_example_validations b))
        (pending_example_validations b')). examples_hold mm env b' v))"
  using parse_outcome [of mm env lib starlark ident contents b] by blast

definition sample_lib :: exec_lib where
  "sample_lib = \<lparr>shlex_split = (\<lambda>s. Some (split_on 32 s)), shlex_try_join = (\<lambda>ts. Some (join_with [32] ts)),
     debug_rule = (\<lambda>r. []), debug_match = (\<lambda>m. []), current_dir_error = [], wrap_error = (\<lambda>e. [])\<rparr>"

definition sample_starlark :: starlark where
  "sample_starlark ident contents =
     Inr ([CallPrefixRule [SvList [SvStr (lit ''git''), SvStr (lit ''hg'')], SvStr (lit ''status'')] None
             (Some [SvStr (lit ''hg status -v'')]) (Some [SvStr (lit ''git push'')]) None None], None)"

definition sample_parse ::
    "((exec_error + unit) \<times> (rstr \<times> PrefixRule) list PolicyBuilder) option" where
  "sample_parse = PolicyParser_parse log_map sample_env sample_lib sample_starlark [] []
     (PolicyBuilder_new log_map)"

theorem parse_validates_examples_witness:
  "map_option fst sample_parse = Some (Inr ()) \<and>
   list_all (examples_hold log_map sample_env (snd (the sample_parse)))
     (pending_example_validations (snd (the sample_parse)))"
proof -
  have "map_option fst sample_parse = Some (Inr ())" by code_simp
  then show ?thesis
    using parse_validates_examples [of log_map sample_env sample_lib sample_starlark "[]" "[]"
        "PolicyBuilder_new log_map"]
    by (auto simp: sample_parse_def PolicyBuilder_new_def list_all_iff)
qed

text \<open>
  Parsing keeps the policy well formed, also when the file fails half way: rules stay
  filed under their own program with at least two tokens in every list of alternatives,
  network hosts are normalized, and host executables are distinct normalized absolute
  paths with the right file name.
\<close>

theorem parse_keeps_policy_ok:
  assumes "multi_map_ok mm" and "policy_ok mm (build b)"
    and "PolicyParser_parse mm env lib starlark ident contents b = Some (r, b')"
  shows "policy_ok mm (build b')"
  using parse_outcome [of mm env lib starlark ident contents b] assms run_calls_policy_ok [OF assms(1,2)]
  by auto

theorem parse_keeps_policy_ok_witness:
  "policy_ok log_map (build (PolicyBuilder_new log_map)) \<and>
   policy_ok log_map (build (snd (the sample_parse)))"
proof -
  have 1: "policy_ok log_map (build (PolicyBuilder_new log_map))"
    by (simp add: policy_ok_def PolicyBuilder_new_def get_rules_def log_map_def log_get_vec_def)
  obtain r b where "sample_parse = Some (r, b)"
    using parse_outcome unfolding sample_parse_def by blast
  with 1 parse_keeps_policy_ok [OF log_map_ok 1] show ?thesis
    unfolding sample_parse_def by simp
qed

text \<open>
  A \<open>prefix_rule\<close> call means what its pattern says: with the rules it expands to, one
  for each alternative of the first token, a command is matched exactly when each of its
  first tokens is among the alternatives of the corresponding pattern token.
\<close>

theorem prefix_rule_meaning:
  "(\<exists>r \<in> set (rules_of_tokens (t # ts) d j). rule_matches r cmd \<noteq> None) \<longleftrightarrow>
     length (t # ts) \<le> length cmd \<and>
     list_all2 (\<lambda>t c. c \<in> set (PatternToken_alternatives t)) (t # ts) (take (length (t # ts)) cmd)"
proof -
  have m: "PatternToken_matches = (\<lambda>t c. c \<in> set (PatternToken_alternatives t))"
  proof (intro ext)
    show "PatternToken_matches t c = (c \<in> set (PatternToken_alternatives t))" for t c
      by (cases t) (auto simp: list_ex_iff)
  qed
  have "matches_prefix p (c # args) \<noteq> None \<longleftrightarrow> c = pat_first p \<and> length (pat_rest p) \<le> length args \<and>
      list_all2 PatternToken_matches (pat_rest p) (take (length (pat_rest p)) args)" for p c args
    using matches_prefix_Some [of p "c # args"] by (cases "matches_prefix p (c # args)") auto
  then show ?thesis
    by (cases cmd) (auto simp: rules_of_tokens_def rule_matches_def m matches_prefix_def)
qed

end
