(* ===== verification/Policy_Amend.thy ===== *)
theory Policy_Amend
  imports Exec_Rule
begin

text \<open>
  \<open>execpolicy/src/amend.rs\<close> and the text transformation of \<open>sandbox_migration.rs\<close>: rules
  appended to a policy file as lines of text, and the removal of banned rule lines.

  The operations on the policy file are the record \<open>policy_fs\<close>, over a world state; what
  the code relies on is \<open>policy_fs_ok\<close>. \<open>serde_json\<close> is outside the repository: writing a
  string as JSON and reading a list of strings are arguments.
\<close>

section \<open>Appending a rule line\<close>

record ('s, 'p) policy_fs =
  pf_parent :: "'p \<Rightarrow> 'p option"
  pf_create_dir :: "'s \<Rightarrow> 'p \<Rightarrow> (io_error + unit) \<times> 's"
  pf_open :: "'s \<Rightarrow> 'p \<Rightarrow> (io_error + unit) \<times> 's"
  pf_lock :: "'s \<Rightarrow> 'p \<Rightarrow> (io_error + unit) \<times> 's"
  pf_seek_start :: "'s \<Rightarrow> 'p \<Rightarrow> (io_error + unit) \<times> 's"
  pf_read :: "'s \<Rightarrow> 'p \<Rightarrow> (io_error + rstr) \<times> 's"
  pf_write :: "'s \<Rightarrow> 'p \<Rightarrow> rstr \<Rightarrow> (io_error + unit) \<times> 's"

datatype 'p AmendError =
    EmptyPrefix
  | InvalidNetworkRule rstr
  | MissingParent 'p
  | CreatePolicyDir 'p io_error
  | SerializePrefix rstr
  | SerializeNetworkRule rstr
  | OpenPolicyFile 'p io_error
  | WritePolicyFile 'p io_error
  | LockPolicyFile 'p io_error
  | SeekPolicyFile 'p io_error
  | ReadPolicyFile 'p io_error
  | PolicyMetadata 'p io_error

definition append_locked_line ::
    "('s, 'p) policy_fs \<Rightarrow> 'p \<Rightarrow> rstr \<Rightarrow> 's \<Rightarrow> ('p AmendError + unit) \<times> 's" where
  "append_locked_line h policy_path line s =
     (case pf_open h s policy_path of
        (Inl e, s1) \<Rightarrow> (Err (OpenPolicyFile policy_path e), s1)
      | (Inr _, s1) \<Rightarrow>
     (case pf_lock h s1 policy_path of
        (Inl e, s2) \<Rightarrow> (Err (LockPolicyFile policy_path e), s2)
      | (Inr _, s2) \<Rightarrow>
     (case pf_seek_start h s2 policy_path of
        (Inl e, s3) \<Rightarrow> (Err (SeekPolicyFile policy_path e), s3)
      | (Inr _, s3) \<Rightarrow>
     (case pf_read h s3 policy_path of
        (Inl e, s4) \<Rightarrow> (Err (ReadPolicyFile policy_path e), s4)
      | (Inr contents, s4) \<Rightarrow>
          if list_ex (\<lambda>existing. existing = line) (str_lines contents) then (Ok (), s4)
          else
            (let (r5, s5) =
               (if contents \<noteq> [] \<and> \<not> ends_with contents [chr_nl]
                then pf_write h s4 policy_path [chr_nl] else (Ok (), s4)) in
             case r5 of
               Inl e \<Rightarrow> (Err (WritePolicyFile policy_path e), s5)
             | Inr _ \<Rightarrow>
                 (case pf_write h s5 policy_path (line @ [chr_nl]) of
                    (Inl e, s6) \<Rightarrow> (Err (WritePolicyFile policy_path e), s6)
                  | (Inr _, s6) \<Rightarrow> (Ok (), s6)))))))"

definition append_rule_line ::
    "('s, 'p) policy_fs \<Rightarrow> 'p \<Rightarrow> rstr \<Rightarrow> 's \<Rightarrow> ('p AmendError + unit) \<times> 's" where
  "append_rule_line h policy_path rule s =
     (case pf_parent h policy_path of
        None \<Rightarrow> (Err (MissingParent policy_path), s)
      | Some dir \<Rightarrow>
          (case pf_create_dir h s dir of
             (Inr _, s1) \<Rightarrow> append_locked_line h policy_path rule s1
           | (Inl e, s1) \<Rightarrow>
               if io_kind_of e = AlreadyExists then append_locked_line h policy_path rule s1
               else (Err (CreatePolicyDir dir e), s1)))"

section \<open>The rule lines\<close>

fun to_json_all :: "(rstr \<Rightarrow> rstr + rstr) \<Rightarrow> rstr list \<Rightarrow> rstr + rstr list" where
  "to_json_all to_json [] = Ok []"
| "to_json_all to_json (x # xs) =
     (case to_json x of
        Inl e \<Rightarrow> Err e
      | Inr y \<Rightarrow> (case to_json_all to_json xs of Inl e \<Rightarrow> Err e | Inr ys \<Rightarrow> Ok (y # ys)))"

definition rule_line_open :: rstr where
  "rule_line_open = lit ''prefix_rule(pattern=''"

definition rule_line_close :: rstr where
  "rule_line_close = lit '', decision='' @ [34] @ lit ''allow'' @ [34] @ lit '')''"

definition json_list :: "rstr list \<Rightarrow> rstr" where
  "json_list tokens = [91] @ join_with (lit '', '') tokens @ [93]"

definition allow_rule_line :: "rstr list \<Rightarrow> rstr" where
  "allow_rule_line tokens = rule_line_open @ json_list tokens @ rule_line_close"

definition blocking_append_allow_prefix_rule ::
    "('s, 'p) policy_fs \<Rightarrow> (rstr \<Rightarrow> rstr + rstr) \<Rightarrow> 'p \<Rightarrow> rstr list \<Rightarrow> 's \<Rightarrow> ('p AmendError + unit) \<times> 's"
where
  "blocking_append_allow_prefix_rule h to_json policy_path prefx s =
     (if prefx = [] then (Err EmptyPrefix, s)
      else (case to_json_all to_json prefx of
              Inl e \<Rightarrow> (Err (SerializePrefix e), s)
            | Inr tokens \<Rightarrow> append_rule_line h policy_path (allow_rule_line tokens) s))"

fun network_decision_word :: "Decision \<Rightarrow> rstr" where
  "network_decision_word Allow = lit ''allow''"
| "network_decision_word Prompt = lit ''prompt''"
| "network_decision_word Forbidden = lit ''deny''"

definition network_rule_line :: "rstr \<Rightarrow> rstr \<Rightarrow> rstr \<Rightarrow> rstr option \<Rightarrow> rstr" where
  "network_rule_line host protocol decision justification =
     lit ''network_rule('' @
     join_with (lit '', '')
       ([lit ''host='' @ host, lit ''protocol='' @ protocol, lit ''decision='' @ decision] @
        (case justification of Some j \<Rightarrow> [lit ''justification='' @ j] | None \<Rightarrow> [])) @
     lit '')''"

text \<open>\<open>err.to_string()\<close>; the debug printer of a list of strings is an argument.\<close>

fun display_exec_error :: "(rstr list \<Rightarrow> rstr) \<Rightarrow> exec_error \<Rightarrow> rstr" where
  "display_exec_error dbg (InvalidDecision m) = lit ''invalid decision: '' @ m"
| "display_exec_error dbg (InvalidPattern m) = lit ''invalid pattern element: '' @ m"
| "display_exec_error dbg (InvalidExample m) = lit ''invalid example: '' @ m"
| "display_exec_error dbg (InvalidRule m) = lit ''invalid rule: '' @ m"
| "display_exec_error dbg (StarlarkFailure m) = lit ''starlark error: '' @ m"
| "display_exec_error dbg (ExampleDidNotMatch rules examples l) =
     lit ''expected every example to match at least one rule. rules: '' @ dbg rules @
     lit ''; unmatched examples: '' @ dbg examples"
| "display_exec_error dbg (ExampleDidMatch rule example l) =
     lit ''expected example to not match rule `'' @ rule @ lit ''`: '' @ example"

definition blocking_append_network_rule ::
    "('s, 'p) policy_fs \<Rightarrow> (rstr \<Rightarrow> rstr + rstr) \<Rightarrow> (rstr list \<Rightarrow> rstr) \<Rightarrow> 'p \<Rightarrow> rstr \<Rightarrow>
       NetworkRuleProtocol \<Rightarrow> Decision \<Rightarrow> rstr option \<Rightarrow> 's \<Rightarrow> ('p AmendError + unit) \<times> 's" where
  "blocking_append_network_rule h to_json dbg policy_path host protocol decision justification s =
     (case normalize_network_rule_host host of
        Inl e \<Rightarrow> (Err (InvalidNetworkRule (display_exec_error dbg e)), s)
      | Inr host1 \<Rightarrow>
          if (case justification of Some raw \<Rightarrow> trim raw = [] | None \<Rightarrow> False)
          then (Err (InvalidNetworkRule (lit ''justification cannot be empty'')), s)
          else
            (case to_json_all to_json
               ([host1, as_policy_string protocol, network_decision_word decision] @
                (case justification of Some j \<Rightarrow> [j] | None \<Rightarrow> [])) of
               Inl e \<Rightarrow> (Err (SerializeNetworkRule e), s)
             | Inr parts \<Rightarrow>
                 append_rule_line h policy_path
                   (network_rule_line (parts ! 0) (parts ! 1) (parts ! 2)
                     (if justification = None then None else Some (parts ! 3))) s))"

section \<open>Removing banned rules\<close>

definition should_remove_rule ::
    "(rstr \<Rightarrow> rstr list option) \<Rightarrow> rstr \<Rightarrow> rstr list set \<Rightarrow> bool" where
  "should_remove_rule from_json line banned =
     (let line1 = (case strip_suffix [chr_nl] line of Some l \<Rightarrow> l | None \<Rightarrow> line);
          line2 = (case strip_suffix [chr_cr] line1 of Some l \<Rightarrow> l | None \<Rightarrow> line1) in
      case (case strip_prefix rule_line_open line2 of
              Some l \<Rightarrow> strip_suffix rule_line_close l
            | None \<Rightarrow> None) of
        None \<Rightarrow> False
      | Some pattern \<Rightarrow>
          (case from_json pattern of
             None \<Rightarrow> False
           | Some prefx \<Rightarrow> map to_ascii_lowercase prefx \<in> banned))"

definition strip_banned_allow_rules ::
    "(rstr \<Rightarrow> rstr list option) \<Rightarrow> rstr \<Rightarrow> rstr list list \<Rightarrow> rstr" where
  "strip_banned_allow_rules from_json contents banned_prefixes =
     (let banned = set (map (map to_ascii_lowercase) banned_prefixes) in
      concat (filter (\<lambda>line. \<not> should_remove_rule from_json line banned) (split_inclusive_nl contents)))"

section \<open>What the code relies on\<close>

text \<open>
  \<open>view s\<close> is the text of each file: creating a directory, locking and seeking change
  none; opening creates the file, empty, if it is missing; reading after the seek yields
  the whole text; a write in append mode adds its text at the end.
\<close>

definition policy_fs_ok :: "('s, 'p) policy_fs \<Rightarrow> ('s \<Rightarrow> 'p \<Rightarrow> rstr option) \<Rightarrow> bool" where
  "policy_fs_ok h view \<longleftrightarrow>
     (\<forall>s p. view (snd (pf_create_dir h s p)) = view s) \<and>
     (\<forall>s p u s'. pf_open h s p = (Inr u, s') \<longrightarrow>
        view s' = (view s)(p \<mapsto> (case view s p of None \<Rightarrow> [] | Some t \<Rightarrow> t))) \<and>
     (\<forall>s p. view (snd (pf_lock h s p)) = view s) \<and>
     (\<forall>s p. view (snd (pf_seek_start h s p)) = view s) \<and>
     (\<forall>s p t s'. pf_read h s p = (Inr t, s') \<longrightarrow> view s' = view s \<and> view s p = Some t) \<and>
     (\<forall>s p t u s' c. pf_write h s p t = (Inr u, s') \<longrightarrow> view s p = Some c \<longrightarrow>
        view s' = (view s)(p \<mapsto> c @ t))"

text \<open>The text after a line was appended: unchanged if the line is there already.\<close>

definition appended :: "rstr \<Rightarrow> rstr \<Rightarrow> rstr" where
  "appended c line =
     (if line \<in> set (str_lines c) then c
      else c @ (if c \<noteq> [] \<and> \<not> ends_with c [chr_nl] then [chr_nl] else []) @ line @ [chr_nl])"

definition text_of :: "('s \<Rightarrow> 'p \<Rightarrow> rstr option) \<Rightarrow> 's \<Rightarrow> 'p \<Rightarrow> rstr" where
  "text_of view s p = (case view s p of None \<Rightarrow> [] | Some t \<Rightarrow> t)"

lemma append_locked_line_Ok:
  assumes fs: "policy_fs_ok h view" and a: "append_locked_line h p line s = (Inr u, s')"
  shows "view s' = (view s)(p \<mapsto> appended (text_of view s p) line)"
proof -
  let ?c = "text_of view s p"
  from a obtain u1 s1 where o: "pf_open h s p = (Inr u1, s1)"
    by (auto simp: append_locked_line_def split: prod.splits sum.splits)
  with a obtain u2 s2 where l: "pf_lock h s1 p = (Inr u2, s2)"
    by (auto simp: append_locked_line_def split: prod.splits sum.splits)
  with a o obtain u3 s3 where k: "pf_seek_start h s2 p = (Inr u3, s3)"
    by (auto simp: append_locked_line_def split: prod.splits sum.splits)
  with a o l obtain c s4 where r: "pf_read h s3 p = (Inr c, s4)"
    by (auto simp: append_locked_line_def split: prod.splits sum.splits)
  from fs o l k have "view s3 = (view s)(p \<mapsto> ?c)"
    unfolding policy_fs_ok_def text_of_def by (metis snd_conv)
  moreover from fs r have "view s4 = view s3" "view s3 p = Some c"
    unfolding policy_fs_ok_def by blast+
  ultimately have s4: "view s4 = (view s)(p \<mapsto> c)" and c: "c = ?c" by simp_all
  show ?thesis
  proof (cases "line \<in> set (str_lines c)")
    case True
    with a o l k r s4 c show ?thesis
      by (simp add: append_locked_line_def appended_def list_ex_iff)
  next
    case False
    let ?nl = "if c \<noteq> [] \<and> \<not> ends_with c [chr_nl] then [chr_nl] else []"
    have w: "pf_write h x p t = (Inr v, y) \<Longrightarrow> view x p = Some d \<Longrightarrow> view y = (view x)(p \<mapsto> d @ t)"
      for x t v y d using fs unfolding policy_fs_ok_def by blast
    from a o l k r False obtain s5 u5 where
      s5: "view s5 = (view s)(p \<mapsto> c @ ?nl)" and "pf_write h s5 p (line @ [chr_nl]) = (Inr u5, s')"
      using w [of s4 "[chr_nl]" _ _ c] s4
      by (auto simp: append_locked_line_def list_ex_iff Let_def split: prod.splits sum.splits if_splits)
    with w [OF this(2), of "c @ ?nl"] have "view s' = (view s)(p \<mapsto> (c @ ?nl) @ line @ [chr_nl])"
      by simp
    with False c show ?thesis by (simp add: appended_def)
  qed
qed

lemma append_rule_line_Ok:
  assumes fs: "policy_fs_ok h view" and a: "append_rule_line h p line s = (Inr u, s')"
  shows "view s' = (view s)(p \<mapsto> appended (text_of view s p) line)"
proof -
  from a obtain dir where d: "pf_parent h p = Some dir"
    by (cases "pf_parent h p") (auto simp: append_rule_line_def)
  obtain r s1 where c: "pf_create_dir h s dir = (r, s1)" by fastforce
  with a d have "append_locked_line h p line s1 = (Inr u, s')"
    by (auto simp: append_rule_line_def split: sum.splits if_splits)
  note append_locked_line_Ok [OF fs this]
  moreover have "view s1 = view s" using fs c unfolding policy_fs_ok_def by (metis snd_conv)
  ultimately show ?thesis by (simp add: text_of_def)
qed

section \<open>Lines of the appended text\<close>

lemma split_inclusive_nl_concat: "concat (split_inclusive_nl s) = s"
  by (induction s) (auto split: list.splits)

lemma split_inclusive_nl_append_text:
  "c = [] \<or> last c = chr_nl \<Longrightarrow> split_inclusive_nl (c @ s) = split_inclusive_nl c @ split_inclusive_nl s"
proof (induction c)
  case (Cons x c)
  show ?case
  proof (cases "c = []")
    case False
    with Cons have "split_inclusive_nl (c @ s) = split_inclusive_nl c @ split_inclusive_nl s" by simp
    moreover from False have "split_inclusive_nl c \<noteq> []" using split_inclusive_nl_concat [of c] by auto
    ultimately show ?thesis by (cases "split_inclusive_nl c") auto
  qed (use Cons in simp)
qed simp

lemma last_line_split:
  "\<exists>pre tail. c = pre @ tail \<and> (pre = [] \<or> last pre = chr_nl) \<and> chr_nl \<notin> set tail"
proof (cases "chr_nl \<in> set c")
  case True
  then obtain xs ys where "c = xs @ chr_nl # ys" "chr_nl \<notin> set ys" by (meson split_list_last)
  then show ?thesis by (intro exI [of _ "xs @ [chr_nl]"] exI [of _ ys]) simp
qed auto

lemma str_lines_append_text:
  "c = [] \<or> last c = chr_nl \<Longrightarrow> str_lines (c @ s) = str_lines c @ str_lines s"
  by (simp add: str_lines_def split_inclusive_nl_append_text)

definition plain_line :: "rstr \<Rightarrow> bool" where
  "plain_line l \<longleftrightarrow> chr_nl \<notin> set l \<and> (l = [] \<or> last l \<noteq> chr_cr)"

lemma str_lines_single: "plain_line l \<Longrightarrow> str_lines (l @ [chr_nl]) = [l]"
  by (auto simp: plain_line_def str_lines_def split_inclusive_nl_append strip_line_ending_nl)

lemma str_lines_snoc_nl:
  assumes "c \<noteq> []" and "last c \<noteq> chr_nl" and "last c \<noteq> chr_cr"
  shows "str_lines (c @ [chr_nl]) = str_lines c"
proof -
  obtain pre tail where c: "c = pre @ tail" and pre: "pre = [] \<or> last pre = chr_nl"
    and tail: "chr_nl \<notin> set tail" using last_line_split by blast
  with assms have "tail \<noteq> []" by auto
  with c assms have "last tail \<noteq> chr_cr" by simp
  with tail have "str_lines (tail @ [chr_nl]) = [tail]" by (simp add: str_lines_single plain_line_def)
  moreover from tail \<open>tail \<noteq> []\<close> have "str_lines tail = [tail]"
    by (simp add: str_lines_def split_inclusive_nl_last strip_line_ending_no_nl)
  ultimately show ?thesis
    using str_lines_append_text [OF pre, of tail] str_lines_append_text [OF pre, of "tail @ [chr_nl]"] c
    by simp
qed

lemma appended_lines:
  assumes "plain_line line" and "c = [] \<or> last c \<noteq> chr_cr"
  shows "str_lines (appended c line) =
     (if line \<in> set (str_lines c) then str_lines c else str_lines c @ [line])"
proof (cases "c = [] \<or> last c = chr_nl")
  case True
  then have "c = [] \<or> ends_with c [chr_nl]"
    by (cases c rule: rev_cases) (auto simp: ends_with_suffix)
  with str_lines_append_text [OF True, of "line @ [chr_nl]"] str_lines_single [OF assms(1)]
  show ?thesis by (auto simp: appended_def)
next
  case False
  then have "\<not> ends_with c [chr_nl]" by (auto simp: ends_with_suffix suffix_def)
  moreover have "str_lines ((c @ [chr_nl]) @ line @ [chr_nl]) = str_lines c @ [line]"
    using str_lines_append_text [of "c @ [chr_nl]" "line @ [chr_nl]"] str_lines_single [OF assms(1)]
      str_lines_snoc_nl [of c] False assms(2) by simp
  ultimately show ?thesis using False by (simp add: appended_def)
qed

section \<open>Lines of the stripped text\<close>

fun pieces_ok :: "rstr list \<Rightarrow> bool" where
  "pieces_ok [] = True"
| "pieces_ok (p # ps) \<longleftrightarrow>
     p \<noteq> [] \<and> chr_nl \<notin> set (butlast p) \<and> (ps \<noteq> [] \<longrightarrow> last p = chr_nl) \<and> pieces_ok ps"

lemma split_inclusive_pieces: "pieces_ok (split_inclusive_nl s)"
  by (induction s) (auto split: list.splits)

lemma pieces_ok_filter: "pieces_ok ps \<Longrightarrow> pieces_ok (filter P ps)"
  by (induction ps) auto

lemma split_inclusive_concat: "pieces_ok ps \<Longrightarrow> split_inclusive_nl (concat ps) = ps"
proof (induction ps)
  case (Cons p ps)
  then have p: "p \<noteq> []" "chr_nl \<notin> set (butlast p)" by simp_all
  show ?case
  proof (cases "last p = chr_nl")
    case True
    with p have "p = butlast p @ [chr_nl]" by (metis append_butlast_last_id)
    with Cons p show ?thesis
      using split_inclusive_nl_append [of "butlast p" "concat ps"] by (metis Cons_eq_appendI
          append.assoc concat.simps(2) eq_Nil_appendI pieces_ok.simps(2))
  next
    case False
    with Cons.prems have "ps = []" by auto
    moreover from p False have "chr_nl \<notin> set p" by (metis append_butlast_last_id rotate1.simps(2) set_ConsD set_rotate1)
    ultimately show ?thesis using p by (simp add: split_inclusive_nl_last)
  qed
qed simp

lemma strip_banned_pieces:
  "split_inclusive_nl (strip_banned_allow_rules from_json c banned) =
     filter (\<lambda>line. \<not> should_remove_rule from_json line (set (map (map to_ascii_lowercase) banned)))
       (split_inclusive_nl c)"
  by (simp add: strip_banned_allow_rules_def Let_def split_inclusive_concat pieces_ok_filter
      split_inclusive_pieces)

lemma strip_line_ending_cases: "strip_line_ending p = l \<Longrightarrow> p \<in> {l, l @ [chr_nl], l @ [chr_cr, chr_nl]}"
  by (auto simp: strip_line_ending_def strip_suffix_Some split: option.splits)

lemma strip_suffix_other: "c \<noteq> d \<Longrightarrow> strip_suffix [c] (xs @ [d]) = None"
  by (simp add: strip_suffix_def)

lemma should_remove_allow_line:
  assumes "from_json (json_list tokens) = Some prefx" and "map to_ascii_lowercase prefx \<in> banned"
    and "p \<in> {l, l @ [chr_nl], l @ [chr_cr, chr_nl]}" and "l = allow_rule_line tokens"
  shows "should_remove_rule from_json p banned"
proof -
  obtain r where r: "l = r @ [41]"
    using assms(4) by (simp add: allow_rule_line_def rule_line_close_def lit_eval)
  have [simp]: "strip_suffix [chr_nl] (r @ [41, chr_nl]) = Some (r @ [41])"
    "strip_suffix [chr_nl] (r @ [41, chr_cr, chr_nl]) = Some (r @ [41, chr_cr])"
    "strip_suffix [chr_cr] (r @ [41, chr_cr]) = Some (r @ [41])"
    by (simp_all add: strip_suffix_Some)
  have *: "(let line1 = (case strip_suffix [chr_nl] p of Some l \<Rightarrow> l | None \<Rightarrow> p) in
      case strip_suffix [chr_cr] line1 of Some l \<Rightarrow> l | None \<Rightarrow> line1) = l"
    using assms(3) strip_suffix_other [of chr_nl 41 r] strip_suffix_other [of chr_cr 41 r]
    by (auto simp: r)
  have "strip_suffix rule_line_close (json_list tokens @ rule_line_close) = Some (json_list tokens)"
    by (simp add: strip_suffix_Some)
  with * assms(1,2,4) show ?thesis by (simp add: should_remove_rule_def Let_def allow_rule_line_def)
qed

text \<open>A policy file in memory.\<close>

definition mem_policy_fs :: "(rstr \<Rightarrow> rstr option, rstr) policy_fs" where
  "mem_policy_fs =
     \<lparr>pf_parent = (\<lambda>p. Some []), pf_create_dir = (\<lambda>s p. (Inr (), s)),
      pf_open = (\<lambda>s p. (Inr (), s(p \<mapsto> (case s p of None \<Rightarrow> [] | Some t \<Rightarrow> t)))),
      pf_lock = (\<lambda>s p. (Inr (), s)), pf_seek_start = (\<lambda>s p. (Inr (), s)),
      pf_read = (\<lambda>s p. case s p of
          None \<Rightarrow> (Inl \<lparr>io_kind_of = NotFound, io_message = []\<rparr>, s) | Some t \<Rightarrow> (Inr t, s)),
      pf_write = (\<lambda>s p t. (Inr (), s(p \<mapsto> (case s p of None \<Rightarrow> [] | Some c \<Rightarrow> c) @ t)))\<rparr>"

lemma mem_policy_fs_ok: "policy_fs_ok mem_policy_fs (\<lambda>s. s)"
  by (auto simp: policy_fs_ok_def mem_policy_fs_def split: option.splits)

section \<open>Properties\<close>

text \<open>
  A successful append changes the policy file only, and there adds the rule as one
  line at the end unless a line says it already; appending the same rule again changes
  nothing.
\<close>

theorem append_rule_line_once:
  assumes "policy_fs_ok h view" and "plain_line line"
    and "text_of view s p = [] \<or> last (text_of view s p) \<noteq> chr_cr"
    and "append_rule_line h p line s = (Inr u, s1)" and "append_rule_line h p line s1 = (Inr v, s2)"
  shows "(\<forall>q. q \<noteq> p \<longrightarrow> view s1 q = view s q) \<and>
     str_lines (text_of view s1 p) =
       (if line \<in> set (str_lines (text_of view s p)) then str_lines (text_of view s p)
        else str_lines (text_of view s p) @ [line]) \<and>
     view s2 = view s1"
proof -
  let ?c = "text_of view s p"
  have v1: "view s1 = (view s)(p \<mapsto> appended ?c line)"
    by (rule append_rule_line_Ok [OF assms(1,4)])
  then have t1: "text_of view s1 p = appended ?c line" by (simp add: text_of_def)
  note lines = appended_lines [OF assms(2,3)]
  have "line \<in> set (str_lines (text_of view s1 p))" unfolding t1 lines by simp
  then have "appended (text_of view s1 p) line = text_of view s1 p" by (simp add: appended_def)
  with append_rule_line_Ok [OF assms(1,5)] v1 t1 have "view s2 = view s1" by simp
  with v1 t1 lines show ?thesis by simp
qed

theorem append_rule_line_once_witness:
  "\<exists>s1 s2. append_rule_line mem_policy_fs (lit ''p'') (lit ''r'') (\<lambda>_. None) = (Inr (), s1) \<and>
     append_rule_line mem_policy_fs (lit ''p'') (lit ''r'') s1 = (Inr (), s2) \<and>
     str_lines (text_of (\<lambda>s. s) s1 (lit ''p'')) = [lit ''r''] \<and> s2 = s1"
proof -
  let ?a = "append_rule_line mem_policy_fs (lit ''p'') (lit ''r'')"
  have "fst (?a (\<lambda>_. None)) = Inr ()" "fst (?a (snd (?a (\<lambda>_. None)))) = Inr ()" by code_simp+
  then obtain s1 s2 where 1: "?a (\<lambda>_. None) = (Inr (), s1)" and 2: "?a s1 = (Inr (), s2)"
    by (metis prod.collapse)
  have pl: "plain_line (lit ''r'')" by code_simp
  from append_rule_line_once [OF mem_policy_fs_ok pl _ 1 2]
  have "str_lines (text_of (\<lambda>s. s) s1 (lit ''p'')) = [lit ''r''] \<and> s2 = s1"
    by (simp add: text_of_def str_lines_def)
  with 1 2 show ?thesis by blast
qed

text \<open>
  Stripping banned rules keeps every other line, byte for byte and in order, and a
  second pass removes nothing more.
\<close>

theorem strip_banned_keeps_rest:
  "split_inclusive_nl (strip_banned_allow_rules from_json c banned) =
     filter (\<lambda>line. \<not> should_remove_rule from_json line (set (map (map to_ascii_lowercase) banned)))
       (split_inclusive_nl c) \<and>
   strip_banned_allow_rules from_json (strip_banned_allow_rules from_json c banned) banned =
     strip_banned_allow_rules from_json c banned"
proof -
  have "strip_banned_allow_rules from_json (strip_banned_allow_rules from_json c banned) banned =
      concat (filter (\<lambda>line. \<not> should_remove_rule from_json line
        (set (map (map to_ascii_lowercase) banned)))
        (split_inclusive_nl (strip_banned_allow_rules from_json c banned)))"
    by (simp add: strip_banned_allow_rules_def [of _ "strip_banned_allow_rules from_json c banned"])
  also have "\<dots> = strip_banned_allow_rules from_json c banned"
    unfolding strip_banned_pieces by (simp add: strip_banned_allow_rules_def)
  finally show ?thesis using strip_banned_pieces by blast
qed

text \<open>
  The migration undoes what the append wrote: once banned rules are stripped, no line
  of the file is the allow rule that \<open>blocking_append_allow_prefix_rule\<close> writes for a banned
  prefix, in whatever letter case, whether the line ends in a newline or a carriage
  return and newline; the JSON reader only has to read back what the writer wrote.
\<close>

theorem strip_banned_removes_appended:
  assumes "from_json (json_list tokens) = Some prefx"
    and "map to_ascii_lowercase prefx \<in> set (map (map to_ascii_lowercase) banned)"
  shows "allow_rule_line tokens \<notin> set (str_lines (strip_banned_allow_rules from_json c banned))"
proof
  assume "allow_rule_line tokens \<in> set (str_lines (strip_banned_allow_rules from_json c banned))"
  then obtain p where "p \<in> set (split_inclusive_nl (strip_banned_allow_rules from_json c banned))"
    and p: "strip_line_ending p = allow_rule_line tokens"
    by (auto simp: str_lines_def)
  then have "\<not> should_remove_rule from_json p (set (map (map to_ascii_lowercase) banned))"
    by (simp add: strip_banned_pieces)
  moreover have "should_remove_rule from_json p (set (map (map to_ascii_lowercase) banned))"
    by (rule should_remove_allow_line [of from_json tokens prefx])
      (use assms strip_line_ending_cases [OF p] in auto)
  ultimately show False by simp
qed

definition sample_from_json :: "rstr \<Rightarrow> rstr list option" where
  "sample_from_json s = (if s = json_list [lit ''rm''] then Some [lit ''rm''] else None)"

theorem strip_banned_removes_appended_witness:
  "let c = lit ''x'' @ [10] @ allow_rule_line [lit ''rm''] @ [10] @ lit ''y'' in
   strip_banned_allow_rules sample_from_json c [[lit ''RM'']] = lit ''x'' @ [10] @ lit ''y'' \<and>
   allow_rule_line [lit ''rm''] \<notin> set (str_lines (strip_banned_allow_rules sample_from_json c [[lit ''RM'']]))"
proof -
  have "map to_ascii_lowercase [lit ''rm''] \<in> set (map (map to_ascii_lowercase) [[lit ''RM'']])"
    by code_simp
  note strip_banned_removes_appended [OF _ this, of sample_from_json "[lit ''rm'']"
      "lit ''x'' @ [10] @ allow_rule_line [lit ''rm''] @ [10] @ lit ''y''"]
  moreover have "strip_banned_allow_rules sample_from_json
      (lit ''x'' @ [10] @ allow_rule_line [lit ''rm''] @ [10] @ lit ''y'') [[lit ''RM'']] =
      lit ''x'' @ [10] @ lit ''y''" by code_simp
  ultimately show ?thesis by (simp add: sample_from_json_def Let_def)
qed

end
