(* ===== verification/Tagged_Line.thy ===== *)
theory Tagged_Line
  imports Stream_Text
begin

text \<open>
  \<open>utils/stream-parser/src/tagged_line_parser.rs\<close> and \<open>proposed_plan.rs\<close>: blocks between
  tags that stand alone on a line, recognized while the text streams in, and the parser of
  proposed plans built on them.
\<close>

section \<open>Model\<close>

record 't tag_spec =
  ts_open :: rstr
  ts_close :: rstr
  ts_tag :: 't

datatype 't TaggedLineSegment =
    SegNormal rstr
  | SegTagStart 't
  | SegTagDelta 't rstr
  | SegTagEnd 't

record 't tagged_line_parser =
  tl_specs :: "'t tag_spec list"
  active_tag :: "'t option"
  detect_tag :: bool
  tl_line_buffer :: rstr

definition tagged_line_new :: "'t tag_spec list \<Rightarrow> 't tagged_line_parser" where
  "tagged_line_new specs =
     \<lparr>tl_specs = specs, active_tag = None, detect_tag = True, tl_line_buffer = []\<rparr>"

fun push_segment :: "'t TaggedLineSegment list \<Rightarrow> 't TaggedLineSegment \<Rightarrow> 't TaggedLineSegment list" where
  "push_segment segments (SegNormal delta) =
     (if delta = [] then segments
      else (case last_opt segments of
              Some (SegNormal existing) \<Rightarrow> set_last segments (SegNormal (existing @ delta))
            | _ \<Rightarrow> segments @ [SegNormal delta]))"
| "push_segment segments (SegTagDelta tag delta) =
     (if delta = [] then segments
      else (case last_opt segments of
              Some (SegTagDelta existing_tag existing) \<Rightarrow>
                if existing_tag = tag then set_last segments (SegTagDelta tag (existing @ delta))
                else segments @ [SegTagDelta tag delta]
            | _ \<Rightarrow> segments @ [SegTagDelta tag delta]))"
| "push_segment segments (SegTagStart tag) = segments @ [SegTagStart tag]"
| "push_segment segments (SegTagEnd tag) = segments @ [SegTagEnd tag]"

definition push_text ::
    "'t option \<Rightarrow> rstr \<Rightarrow> 't TaggedLineSegment list \<Rightarrow> 't TaggedLineSegment list" where
  "push_text active t segments =
     (case active of
        Some tag \<Rightarrow> push_segment segments (SegTagDelta tag t)
      | None \<Rightarrow> push_segment segments (SegNormal t))"

definition is_tag_prefix :: "'t tag_spec list \<Rightarrow> rstr \<Rightarrow> bool" where
  "is_tag_prefix specs slug =
     (let slug1 = trim_end slug in
      list_ex (\<lambda>sp. starts_with (ts_open sp) slug1 \<or> starts_with (ts_close sp) slug1) specs)"

definition match_open :: "'t tag_spec list \<Rightarrow> rstr \<Rightarrow> 't option" where
  "match_open specs slug = map_option ts_tag (List.find (\<lambda>sp. ts_open sp = slug) specs)"

definition match_close :: "'t tag_spec list \<Rightarrow> rstr \<Rightarrow> 't option" where
  "match_close specs slug = map_option ts_tag (List.find (\<lambda>sp. ts_close sp = slug) specs)"

text \<open>
  A complete line, or what is left of one at the end: an opening tag outside a block, the
  closing tag of the block, or text.
\<close>

definition line_verdict ::
    "'t tag_spec list \<Rightarrow> 't option \<Rightarrow> rstr \<Rightarrow> 't TaggedLineSegment option \<times> 't option" where
  "line_verdict specs active line =
     (let without_newline = (case strip_suffix [chr_nl] line of Some l \<Rightarrow> l | None \<Rightarrow> line);
          slug = trim_end (trim_start without_newline) in
      case match_open specs slug of
        Some tag \<Rightarrow>
          if active = None then (Some (SegTagStart tag), Some tag)
          else (case match_close specs slug of
                  Some tag2 \<Rightarrow>
                    if active = Some tag2 then (Some (SegTagEnd tag2), None) else (None, active)
                | None \<Rightarrow> (None, active))
      | None \<Rightarrow>
          (case match_close specs slug of
             Some tag \<Rightarrow>
               if active = Some tag then (Some (SegTagEnd tag), None) else (None, active)
           | None \<Rightarrow> (None, active)))"

definition tl_finish_line ::
    "'t tagged_line_parser \<Rightarrow> 't TaggedLineSegment list \<Rightarrow>
       't tagged_line_parser \<times> 't TaggedLineSegment list" where
  "tl_finish_line p segments =
     (let line = tl_line_buffer p; p1 = p\<lparr>tl_line_buffer := [], detect_tag := True\<rparr> in
      case line_verdict (tl_specs p) (active_tag p) line of
        (Some seg, active) \<Rightarrow> (p1\<lparr>active_tag := active\<rparr>, push_segment segments seg)
      | (None, active) \<Rightarrow> (p1, push_text (active_tag p) line segments))"

text \<open>One character of \<open>parse\<close>, with the run of plain text that is not flushed yet.\<close>

type_synonym 't parse_state = "'t tagged_line_parser \<times> rstr \<times> 't TaggedLineSegment list"

definition parse_char :: "'t parse_state \<Rightarrow> rchar \<Rightarrow> 't parse_state" where
  "parse_char st ch =
     (case st of (p, run, segments) \<Rightarrow>
        if detect_tag p then
          (let segments1 = (if run \<noteq> [] then push_text (active_tag p) run segments else segments);
               p1 = p\<lparr>tl_line_buffer := tl_line_buffer p @ [ch]\<rparr> in
           if ch = chr_nl then
             (case tl_finish_line p1 segments1 of (p2, segments2) \<Rightarrow> (p2, [], segments2))
           else
             (let slug = trim_start (tl_line_buffer p1) in
              if slug = [] \<or> is_tag_prefix (tl_specs p) slug then (p1, [], segments1)
              else (p1\<lparr>tl_line_buffer := [], detect_tag := False\<rparr>, [],
                    push_text (active_tag p) (tl_line_buffer p1) segments1)))
        else
          (let run1 = run @ [ch] in
           if ch = chr_nl
           then (p\<lparr>detect_tag := True\<rparr>, [], push_text (active_tag p) run1 segments)
           else (p, run1, segments)))"

definition tl_parse ::
    "'t tagged_line_parser \<Rightarrow> rstr \<Rightarrow> 't TaggedLineSegment list \<times> 't tagged_line_parser" where
  "tl_parse p delta =
     (case foldl parse_char (p, [], []) delta of (p1, run, segments) \<Rightarrow>
        (if run \<noteq> [] then push_text (active_tag p1) run segments else segments, p1))"

definition tl_finish ::
    "'t tagged_line_parser \<Rightarrow> 't TaggedLineSegment list \<times> 't tagged_line_parser" where
  "tl_finish p =
     (let (segments, active) =
        (if tl_line_buffer p \<noteq> [] then
           (case line_verdict (tl_specs p) (active_tag p) (tl_line_buffer p) of
              (Some seg, active) \<Rightarrow> (push_segment [] seg, active)
            | (None, active) \<Rightarrow> (push_text (active_tag p) (tl_line_buffer p) [], active_tag p))
         else ([], active_tag p)) in
      (case active of Some tag \<Rightarrow> push_segment segments (SegTagEnd tag) | None \<Rightarrow> segments,
       p\<lparr>tl_line_buffer := [], active_tag := None, detect_tag := True\<rparr>))"

section \<open>Proposed plans\<close>

definition OPEN_TAG :: rstr where
  "OPEN_TAG = lit ''<proposed_plan>''"

definition CLOSE_TAG :: rstr where
  "CLOSE_TAG = lit ''</proposed_plan>''"

datatype PlanTag = ProposedPlan

datatype ProposedPlanSegment =
    PlanNormal rstr
  | ProposedPlanStart
  | ProposedPlanDelta rstr
  | ProposedPlanEnd

type_synonym plan_parser = "PlanTag tagged_line_parser"

definition plan_specs :: "PlanTag tag_spec list" where
  "plan_specs = [\<lparr>ts_open = OPEN_TAG, ts_close = CLOSE_TAG, ts_tag = ProposedPlan\<rparr>]"

definition plan_new :: plan_parser where
  "plan_new = tagged_line_new plan_specs"

fun map_segment :: "PlanTag TaggedLineSegment \<Rightarrow> ProposedPlanSegment" where
  "map_segment (SegNormal t) = PlanNormal t"
| "map_segment (SegTagStart tag) = ProposedPlanStart"
| "map_segment (SegTagDelta tag t) = ProposedPlanDelta t"
| "map_segment (SegTagEnd tag) = ProposedPlanEnd"

fun normal_text :: "ProposedPlanSegment \<Rightarrow> rstr" where
  "normal_text (PlanNormal t) = t"
| "normal_text _ = []"

definition map_segments ::
    "PlanTag TaggedLineSegment list \<Rightarrow> ProposedPlanSegment stream_text_chunk" where
  "map_segments segments =
     \<lparr>visible_text = concat (map normal_text (map map_segment segments)),
      extracted = map map_segment segments\<rparr>"

definition plan_push_str ::
    "plan_parser \<Rightarrow> rstr \<Rightarrow> ProposedPlanSegment stream_text_chunk \<times> plan_parser" where
  "plan_push_str p chunk = map_prod map_segments id (tl_parse p chunk)"

definition plan_finish :: "plan_parser \<Rightarrow> ProposedPlanSegment stream_text_chunk \<times> plan_parser" where
  "plan_finish p = map_prod map_segments id (tl_finish p)"

definition strip_proposed_plan_blocks :: "rstr \<Rightarrow> rstr" where
  "strip_proposed_plan_blocks t =
     (let (out, p) = plan_push_str plan_new t in
      visible_text out @ visible_text (fst (plan_finish p)))"

fun plan_text_step :: "rstr \<times> bool \<Rightarrow> ProposedPlanSegment \<Rightarrow> rstr \<times> bool" where
  "plan_text_step (plan_text, saw) ProposedPlanStart = ([], True)"
| "plan_text_step (plan_text, saw) (ProposedPlanDelta delta) = (plan_text @ delta, saw)"
| "plan_text_step (plan_text, saw) ProposedPlanEnd = (plan_text, saw)"
| "plan_text_step (plan_text, saw) (PlanNormal t) = (plan_text, saw)"

definition extract_proposed_plan_text :: "rstr \<Rightarrow> rstr option" where
  "extract_proposed_plan_text t =
     (let (out, p) = plan_push_str plan_new t;
          (plan_text, saw) =
            foldl plan_text_step ([], False) (extracted out @ extracted (fst (plan_finish p))) in
      if saw then Some plan_text else None)"

section \<open>Segments as events\<close>

text \<open>One event per character of text, so that the merging of segments disappears.\<close>

datatype 't line_event = EvText "'t option" rchar | EvStart 't | EvEnd 't

fun seg_events :: "'t TaggedLineSegment \<Rightarrow> 't line_event list" where
  "seg_events (SegNormal t) = map (EvText None) t"
| "seg_events (SegTagDelta tag t) = map (EvText (Some tag)) t"
| "seg_events (SegTagStart tag) = [EvStart tag]"
| "seg_events (SegTagEnd tag) = [EvEnd tag]"

definition events :: "'t TaggedLineSegment list \<Rightarrow> 't line_event list" where
  "events segments = concat (map seg_events segments)"

lemma events_simps [simp]:
  "events [] = []" "events (s # ss) = seg_events s @ events ss" "events (ss @ ts) = events ss @ events ts"
  by (simp_all add: events_def)

lemma events_push_segment [simp]: "events (push_segment ss s) = events ss @ seg_events s"
  by (cases s; cases ss rule: rev_cases) (auto split: TaggedLineSegment.splits simp: last_opt_def)

lemma events_push_text [simp]: "events (push_text a t ss) = events ss @ map (EvText a) t"
  by (simp add: push_text_def del: push_segment.simps split: option.splits)

section \<open>One character at a time\<close>

definition step :: "'t tagged_line_parser \<Rightarrow> rchar \<Rightarrow> 't line_event list \<times> 't tagged_line_parser" where
  "step p ch =
     (if detect_tag p then
        (let p1 = p\<lparr>tl_line_buffer := tl_line_buffer p @ [ch]\<rparr> in
         if ch = chr_nl then
           (case tl_finish_line p1 [] of (p2, segments) \<Rightarrow> (events segments, p2))
         else
           (let slug = trim_start (tl_line_buffer p1) in
            if slug = [] \<or> is_tag_prefix (tl_specs p) slug then ([], p1)
            else (map (EvText (active_tag p)) (tl_line_buffer p1),
                  p1\<lparr>tl_line_buffer := [], detect_tag := False\<rparr>)))
      else ([EvText (active_tag p) ch], if ch = chr_nl then p\<lparr>detect_tag := True\<rparr> else p))"

fun steps :: "'t tagged_line_parser \<Rightarrow> rstr \<Rightarrow> 't line_event list \<times> 't tagged_line_parser" where
  "steps p [] = ([], p)"
| "steps p (c # cs) =
     (let (e1, p1) = step p c; (e2, p2) = steps p1 cs in (e1 @ e2, p2))"

lemma steps_append:
  "steps p (a @ b) =
     (let (e1, p1) = steps p a; (e2, p2) = steps p1 b in (e1 @ e2, p2))"
  by (induction a arbitrary: p) (auto simp: Let_def split_beta)

lemma finish_line_events:
  "tl_finish_line p ss = (q, ts) \<Longrightarrow>
     events ts = events ss @ events (snd (tl_finish_line p [])) \<and> q = fst (tl_finish_line p [])"
  by (auto simp: tl_finish_line_def Let_def split: prod.splits option.splits)

text \<open>The invariant of the loop: there is a run only outside tag detection.\<close>

lemma parse_char_step:
  assumes "run \<noteq> [] \<longrightarrow> \<not> detect_tag p" and "parse_char (p, run, ss) ch = (q, run', ts)"
  shows "(run' \<noteq> [] \<longrightarrow> \<not> detect_tag q) \<and> q = snd (step p ch) \<and>
     events ts @ map (EvText (active_tag q)) run' =
       events ss @ map (EvText (active_tag p)) run @ fst (step p ch)"
proof (cases "detect_tag p")
  case True
  with assms(1) have "run = []" by simp
  show ?thesis
  proof (cases "ch = chr_nl")
    case nl: True
    let ?p1 = "p\<lparr>tl_line_buffer := tl_line_buffer p @ [chr_nl]\<rparr>"
    from assms(2) True nl \<open>run = []\<close> have "tl_finish_line ?p1 ss = (q, ts)" "run' = []"
      by (auto simp: parse_char_def Let_def split: prod.splits)
    with finish_line_events [OF this(1)] True nl \<open>run = []\<close> show ?thesis
      by (auto simp: step_def Let_def split: prod.splits)
  next
    case False
    with assms(2) True \<open>run = []\<close> show ?thesis
      by (auto simp: parse_char_def step_def Let_def split: if_splits)
  qed
next
  case False
  with assms(2) show ?thesis
    by (auto simp: parse_char_def step_def Let_def split: if_splits)
qed

lemma foldl_parse_char:
  "run \<noteq> [] \<longrightarrow> \<not> detect_tag p \<Longrightarrow> foldl parse_char (p, run, ss) cs = (q, run', ts) \<Longrightarrow>
     q = snd (steps p cs) \<and>
     events ts @ map (EvText (active_tag q)) run' =
       events ss @ map (EvText (active_tag p)) run @ fst (steps p cs)"
proof (induction cs arbitrary: p run ss)
  case (Cons c cs)
  obtain p1 run1 ss1 where 1: "parse_char (p, run, ss) c = (p1, run1, ss1)" by (metis prod_cases3)
  from parse_char_step [OF Cons.prems(1) 1] Cons.IH [of run1 p1 ss1] Cons.prems(2) 1
  show ?case by (auto simp: Let_def split_beta)
qed auto

lemma tl_parse_steps:
  "events (fst (tl_parse p s)) = fst (steps p s) \<and> snd (tl_parse p s) = snd (steps p s)"
proof -
  obtain q run ts where f: "foldl parse_char (p, [], []) s = (q, run, ts)" by (metis prod_cases3)
  from foldl_parse_char [of "[]" p "[]" s, OF _ f] f show ?thesis by (auto simp: tl_parse_def)
qed

section \<open>The reference: line by line\<close>

definition line_events ::
    "'t tag_spec list \<Rightarrow> 't option \<Rightarrow> rstr \<Rightarrow> 't line_event list \<times> 't option" where
  "line_events specs active line =
     (case line_verdict specs active line of
        (Some seg, a) \<Rightarrow> (seg_events seg, a)
      | (None, a) \<Rightarrow> (map (EvText active) line, active))"

fun lines_events :: "'t tag_spec list \<Rightarrow> 't option \<Rightarrow> rstr list \<Rightarrow> 't line_event list" where
  "lines_events specs active [] = (case active of Some tag \<Rightarrow> [EvEnd tag] | None \<Rightarrow> [])"
| "lines_events specs active (l # ls) =
     (let (e, a) = line_events specs active l in e @ lines_events specs a ls)"

definition at_line_start :: "'t tagged_line_parser \<Rightarrow> bool" where
  "at_line_start p \<longleftrightarrow> detect_tag p \<and> tl_line_buffer p = []"

definition tag_free :: "'t tag_spec list \<Rightarrow> rstr \<Rightarrow> bool" where
  "tag_free specs slug \<longleftrightarrow> match_open specs slug = None \<and> match_close specs slug = None"

lemma trim_end_append_prefix: "prefix (trim_end a) (trim_end (a @ b))"
proof (cases "\<forall>c \<in> set b. is_whitespace c")
  case True
  then have "dropWhile is_whitespace (rev b @ rev a) = dropWhile is_whitespace (rev a)"
    by (intro dropWhile_append2) simp
  then show ?thesis by (simp add: trim_end_def)
next
  case False
  then obtain c where "c \<in> set (rev b)" "\<not> is_whitespace c" by auto
  then have "trim_end (a @ b) = a @ trim_end b" by (simp add: trim_end_def dropWhile_append1)
  moreover have "prefix (trim_end a) a" using trim_end_prefix [of a] by (metis prefixI)
  ultimately show ?thesis by (metis prefix_prefix)
qed

lemma trim_start_append: "trim_start z \<noteq> [] \<Longrightarrow> trim_start (z @ y) = trim_start z @ y"
  by (induction z) (auto simp: trim_start_def)

lemma not_prefix_tag_free:
  assumes "trim_start z \<noteq> []" and "\<not> is_tag_prefix specs (trim_start z)"
  shows "tag_free specs (trim (z @ y))"
proof -
  have "prefix (trim_end (trim_start z)) (trim (z @ y))"
    unfolding trim_def trim_start_append [OF assms(1)] by (rule trim_end_append_prefix)
  with assms(2) show ?thesis
    by (auto simp: tag_free_def match_open_def match_close_def is_tag_prefix_def list_ex_iff
        starts_with_prefix find_None_iff Let_def)
qed

text \<open>Within a line: still undecided, or known to be text.\<close>

lemma steps_in_line:
  assumes "at_line_start p" and "chr_nl \<notin> set x"
  shows "steps p x = ([], p\<lparr>tl_line_buffer := x\<rparr>) \<or>
     steps p x = (map (EvText (active_tag p)) x, p\<lparr>detect_tag := False\<rparr>) \<and>
       (\<forall>y. tag_free (tl_specs p) (trim (x @ y)))"
  using assms
proof (induction x rule: rev_induct)
  case Nil
  then show ?case by (simp add: at_line_start_def)
next
  case (snoc c x)
  then have c: "c \<noteq> chr_nl" and ih: "steps p x = ([], p\<lparr>tl_line_buffer := x\<rparr>) \<or>
     steps p x = (map (EvText (active_tag p)) x, p\<lparr>detect_tag := False\<rparr>) \<and>
       (\<forall>y. tag_free (tl_specs p) (trim (x @ y)))" by auto
  from snoc.prems have p: "detect_tag p" "tl_line_buffer p = []" by (auto simp: at_line_start_def)
  then have pb: "p\<lparr>tl_line_buffer := []\<rparr> = p" by simp
  from ih show ?case
  proof
    assume u: "steps p x = ([], p\<lparr>tl_line_buffer := x\<rparr>)"
    show ?thesis
    proof (cases "trim_start (x @ [c]) = [] \<or> is_tag_prefix (tl_specs p) (trim_start (x @ [c]))")
      case True
      with u c p show ?thesis by (simp add: steps_append step_def Let_def)
    next
      case False
      with not_prefix_tag_free [of "x @ [c]" "tl_specs p"]
      have "\<forall>y. tag_free (tl_specs p) (trim ((x @ [c]) @ y))" by blast
      with False u c p pb show ?thesis by (simp add: steps_append step_def Let_def)
    qed
  next
    assume "steps p x = (map (EvText (active_tag p)) x, p\<lparr>detect_tag := False\<rparr>) \<and>
       (\<forall>y. tag_free (tl_specs p) (trim (x @ y)))"
    with c show ?thesis by (simp add: steps_append step_def)
  qed
qed

lemma strip_suffix_nl [simp]: "strip_suffix [chr_nl] (x @ [chr_nl]) = Some x"
  by (simp add: strip_suffix_Some)

lemma strip_suffix_no_nl: "chr_nl \<notin> set x \<Longrightarrow> strip_suffix [chr_nl] x = None"
  by (cases "strip_suffix [chr_nl] x") (auto simp: strip_suffix_Some)

lemma line_verdict_text:
  "tag_free specs (trim x) \<Longrightarrow> line_verdict specs a (x @ [chr_nl]) = (None, a)"
  "tag_free specs (trim x) \<Longrightarrow> chr_nl \<notin> set x \<Longrightarrow> line_verdict specs a x = (None, a)"
  by (simp_all add: line_verdict_def tag_free_def trim_def strip_suffix_no_nl Let_def)

lemma steps_line:
  assumes "at_line_start p" and "chr_nl \<notin> set x"
  shows "steps p (x @ [chr_nl]) =
     (fst (line_events (tl_specs p) (active_tag p) (x @ [chr_nl])),
      p\<lparr>active_tag := snd (line_events (tl_specs p) (active_tag p) (x @ [chr_nl]))\<rparr>)"
proof -
  from assms(1) have p: "detect_tag p" "tl_line_buffer p = []" by (auto simp: at_line_start_def)
  then have pb: "p\<lparr>tl_line_buffer := [], detect_tag := True\<rparr> = p" "p\<lparr>detect_tag := True\<rparr> = p" by simp_all
  from steps_in_line [OF assms] show ?thesis
  proof
    assume u: "steps p x = ([], p\<lparr>tl_line_buffer := x\<rparr>)"
    have "step (p\<lparr>tl_line_buffer := x\<rparr>) chr_nl =
        (fst (line_events (tl_specs p) (active_tag p) (x @ [chr_nl])),
         p\<lparr>active_tag := snd (line_events (tl_specs p) (active_tag p) (x @ [chr_nl]))\<rparr>)"
      using p pb
      by (cases "line_verdict (tl_specs p) (active_tag p) (x @ [chr_nl])"; cases "fst (line_verdict (tl_specs p) (active_tag p) (x @ [chr_nl]))")
        (auto simp: step_def Let_def tl_finish_line_def line_events_def)
    with u show ?thesis by (simp add: steps_append)
  next
    assume t: "steps p x = (map (EvText (active_tag p)) x, p\<lparr>detect_tag := False\<rparr>) \<and>
       (\<forall>y. tag_free (tl_specs p) (trim (x @ y)))"
    then have "tag_free (tl_specs p) (trim (x @ []))" by blast
    with t pb show ?thesis
      by (simp add: steps_append step_def line_events_def line_verdict_text)
  qed
qed

lemma finish_last:
  assumes "at_line_start p" and "chr_nl \<notin> set x" and "steps p x = (e, q)"
  shows "e @ events (fst (tl_finish q)) = lines_events (tl_specs p) (active_tag p) (split_inclusive_nl x)"
proof -
  from assms(1) have p: "detect_tag p" "tl_line_buffer p = []" by (auto simp: at_line_start_def)
  have sp: "split_inclusive_nl x = (if x = [] then [] else [x])"
    by (rule split_inclusive_nl_last [OF assms(2)])
  from steps_in_line [OF assms(1,2)] show ?thesis
  proof
    assume "steps p x = ([], p\<lparr>tl_line_buffer := x\<rparr>)"
    with assms(3) have "e = []" "q = p\<lparr>tl_line_buffer := x\<rparr>" by auto
    then show ?thesis
      by (cases "line_verdict (tl_specs p) (active_tag p) x")
        (auto simp: sp tl_finish_def line_events_def Let_def split: option.splits)
  next
    assume t: "steps p x = (map (EvText (active_tag p)) x, p\<lparr>detect_tag := False\<rparr>) \<and>
       (\<forall>y. tag_free (tl_specs p) (trim (x @ y)))"
    then have "tag_free (tl_specs p) (trim (x @ []))" by blast
    with t assms(2,3) p show ?thesis
      by (auto simp: sp tl_finish_def line_events_def line_verdict_text Let_def split: option.splits)
  qed
qed

lemma steps_lines:
  "at_line_start p \<Longrightarrow> steps p s = (e, q) \<Longrightarrow>
     e @ events (fst (tl_finish q)) = lines_events (tl_specs p) (active_tag p) (split_inclusive_nl s)"
proof (induction "length s" arbitrary: s p e rule: less_induct)
  case (less s p e)
  show ?case
  proof (cases "chr_nl \<in> set s")
    case False
    with finish_last [OF less.prems(1)] less.prems(2) show ?thesis by blast
  next
    case True
    then obtain x r where s: "s = x @ chr_nl # r" and x: "chr_nl \<notin> set x" by (meson split_list_first)
    define a where "a = snd (line_events (tl_specs p) (active_tag p) (x @ [chr_nl]))"
    let ?p = "p\<lparr>active_tag := a\<rparr>"
    obtain e2 q2 where s2: "steps ?p r = (e2, q2)" by fastforce
    have "steps p s = (fst (line_events (tl_specs p) (active_tag p) (x @ [chr_nl])) @ e2, q2)"
      using steps_line [OF less.prems(1) x] steps_append [of p "x @ [chr_nl]" r] s2
      by (simp add: s a_def Let_def)
    with less.prems(2) s2 have e2: "steps ?p r = (e2, q)"
      and e: "e = fst (line_events (tl_specs p) (active_tag p) (x @ [chr_nl])) @ e2" by simp_all
    have "at_line_start ?p" using less.prems(1) by (simp add: at_line_start_def)
    with less.hyps [of r ?p e2] e2 s
    have "e2 @ events (fst (tl_finish q)) = lines_events (tl_specs p) a (split_inclusive_nl r)" by simp
    with e show ?thesis
      by (simp add: s a_def split_inclusive_nl_append [OF x] Let_def split_beta)
  qed
qed

section \<open>Proposed plans meet the interface\<close>

fun plan_seg_events :: "ProposedPlanSegment \<Rightarrow> PlanTag line_event list" where
  "plan_seg_events (PlanNormal t) = map (EvText None) t"
| "plan_seg_events ProposedPlanStart = [EvStart ProposedPlan]"
| "plan_seg_events (ProposedPlanDelta t) = map (EvText (Some ProposedPlan)) t"
| "plan_seg_events ProposedPlanEnd = [EvEnd ProposedPlan]"

definition plan_events :: "ProposedPlanSegment list \<Rightarrow> PlanTag line_event list" where
  "plan_events segments = concat (map plan_seg_events segments)"

definition visible_of :: "'t line_event list \<Rightarrow> rstr" where
  "visible_of es = concat (map (\<lambda>e. case e of EvText None c \<Rightarrow> [c] | _ \<Rightarrow> []) es)"

lemma visible_of_simps [simp]:
  "visible_of [] = []" "visible_of (es @ fs) = visible_of es @ visible_of fs"
  "visible_of (map (EvText None) t) = t" "visible_of (map (EvText (Some g)) t) = []"
  "visible_of [EvStart g] = []" "visible_of [EvEnd g] = []"
  by (induction t) (simp_all add: visible_of_def)

lemma visible_of_Cons [simp]:
  "visible_of (EvStart g # es) = visible_of es" "visible_of (EvEnd g # es) = visible_of es"
  by (simp_all add: visible_of_def)

lemma plan_tag [simp]: "ProposedPlan = tag"
  by (cases tag) simp

lemma map_segments_events:
  "plan_events (extracted (map_segments ss)) = events ss \<and>
   visible_text (map_segments ss) = visible_of (events ss)"
proof (induction ss)
  case (Cons s ss)
  then show ?case
    by (cases s) (simp_all add: map_segments_def plan_events_def)
qed (simp add: map_segments_def plan_events_def)

lemma plan_push_steps:
  "plan_push_str p s = (c, q) \<Longrightarrow>
     q = snd (steps p s) \<and> plan_events (extracted c) = fst (steps p s) \<and>
     visible_text c = visible_of (fst (steps p s))"
  using tl_parse_steps [of p s] map_segments_events [of "fst (tl_parse p s)"]
  by (cases "tl_parse p s") (auto simp: plan_push_str_def)

interpretation plan: stream_text_parser plan_push_str plan_finish "\<lambda>p. True" plan_events
proof
  show "plan_push_str p [] = (chunk_default, p)" for p
    by (simp add: plan_push_str_def tl_parse_def map_segments_def chunk_default_def)
  show "plan_events (xs @ ys) = plan_events xs @ plan_events ys" for xs ys
    by (simp add: plan_events_def)
  fix p a c q b d r
  assume 1: "plan_push_str p a = (c, q)" and 2: "plan_push_str q b = (d, r)"
  obtain e t where 3: "plan_push_str p (a @ b) = (e, t)" by fastforce
  from plan_push_steps [OF 1] plan_push_steps [OF 2] plan_push_steps [OF 3]
  show "\<exists>e. plan_push_str p (a @ b) = (e, r) \<and> visible_text e = visible_text c @ visible_text d \<and>
      plan_events (extracted e) = plan_events (extracted c) @ plan_events (extracted d)"
    by (simp add: 3 steps_append Let_def split_beta)
qed auto

text \<open>The reference for plans: the lines of the text, outside and inside the blocks.\<close>

definition plan_reference :: "rstr \<Rightarrow> PlanTag line_event list" where
  "plan_reference t = lines_events plan_specs None (split_inclusive_nl t)"

lemma plan_whole:
  assumes "plan_push_str plan_new t = (c, q)"
  shows "plan_events (extracted c @ extracted (fst (plan_finish q))) = plan_reference t \<and>
     visible_text c @ visible_text (fst (plan_finish q)) = visible_of (plan_reference t)"
proof -
  obtain e where e: "steps plan_new t = (e, q)"
    using plan_push_steps [OF assms] by (cases "steps plan_new t") auto
  have "e @ events (fst (tl_finish q)) = plan_reference t"
    using steps_lines [OF _ e] by (simp add: at_line_start_def plan_new_def tagged_line_new_def plan_reference_def)
  with plan_push_steps [OF assms] e map_segments_events [of "fst (tl_finish q)"]
  show ?thesis
    by (auto simp: plan_finish_def plan.meaning_append simp flip: visible_of_simps(2))
qed

text \<open>The text of the last plan block among the events, if there is one.\<close>

fun last_plan :: "rstr option \<Rightarrow> PlanTag line_event list \<Rightarrow> rstr option" where
  "last_plan acc [] = acc"
| "last_plan acc (EvStart g # es) = last_plan (Some []) es"
| "last_plan acc (EvText (Some g) c # es) = last_plan (map_option (\<lambda>t. t @ [c]) acc) es"
| "last_plan acc (e # es) = last_plan acc es"

lemma last_plan_append: "last_plan acc (es @ fs) = last_plan (last_plan acc es) fs"
  by (induction acc es rule: last_plan.induct) auto

lemma last_plan_text [simp]:
  "last_plan acc (map (EvText (Some g)) t) = map_option (\<lambda>u. u @ t) acc"
  "last_plan acc (map (EvText None) t) = acc"
  by (induction t arbitrary: acc) (auto simp: option.map_comp o_def option.map_ident)

definition plan_acc :: "rstr \<times> bool \<Rightarrow> rstr option" where
  "plan_acc x = (if snd x then Some (fst x) else None)"

lemma plan_text_steps:
  "plan_acc (foldl plan_text_step x segments) = last_plan (plan_acc x) (plan_events segments)"
proof (induction segments arbitrary: x)
  case (Cons g segments)
  obtain t b where "x = (t, b)" by fastforce
  then have "plan_acc (plan_text_step x g) = last_plan (plan_acc x) (plan_seg_events g)"
    by (cases g) (auto simp: plan_acc_def)
  with Cons show ?case by (simp add: plan_events_def last_plan_append)
qed (simp add: plan_events_def)

lemma plan_collect_whole:
  "visible_text (collect_stream plan_push_str plan_finish plan_new [t]) = visible_of (plan_reference t) \<and>
   plan_events (extracted (collect_stream plan_push_str plan_finish plan_new [t])) = plan_reference t"
proof -
  obtain c q where c: "plan_push_str plan_new t = (c, q)" by fastforce
  with plan_whole [OF c] show ?thesis by (simp add: collect_stream_def)
qed

section \<open>Properties\<close>

text \<open>
  Recognizing tag lines character by character loses nothing: for every list of tags
  and every text, the segments emitted while parsing and finishing are, character for
  character, those of the plain line by line reading, in which a line that is an opening
  tag outside a block starts one, a line that is the closing tag of the open block ends it,
  every other line is text, and an open block is ended at the end of the text.
\<close>

theorem tagged_line_reference:
  "tl_parse (tagged_line_new specs) t = (segments, p) \<Longrightarrow>
     events segments @ events (fst (tl_finish p)) = lines_events specs None (split_inclusive_nl t)"
  using tl_parse_steps [of "tagged_line_new specs" t] steps_lines [of "tagged_line_new specs" t]
  by (cases "steps (tagged_line_new specs) t") (auto simp: at_line_start_def tagged_line_new_def)

theorem tagged_line_reference_witness:
  "\<exists>segments p. tl_parse (tagged_line_new plan_specs) (lit ''a'' @ [10] @ OPEN_TAG @ [10] @ lit ''b'') =
     (segments, p) \<and>
     events segments @ events (fst (tl_finish p)) =
       [EvText None 97, EvText None 10, EvStart ProposedPlan, EvText (Some ProposedPlan) 98,
        EvEnd ProposedPlan]"
proof -
  obtain segments p where 1:
    "tl_parse (tagged_line_new plan_specs) (lit ''a'' @ [10] @ OPEN_TAG @ [10] @ lit ''b'') = (segments, p)"
    by fastforce
  have "lines_events plan_specs None (split_inclusive_nl (lit ''a'' @ [10] @ OPEN_TAG @ [10] @ lit ''b'')) =
      [EvText None 97, EvText None 10, EvStart ProposedPlan, EvText (Some ProposedPlan) 98,
       EvEnd ProposedPlan]" by code_simp
  with tagged_line_reference [OF 1] 1 show ?thesis by auto
qed

text \<open>
  Stripping plans keeps exactly the text outside the plan blocks, and extracting a
  plan yields the text of the last block, if there is one.
\<close>

theorem plan_text_reference:
  "strip_proposed_plan_blocks t = visible_of (plan_reference t) \<and>
   extract_proposed_plan_text t = last_plan None (plan_reference t)"
proof -
  obtain c q where c: "plan_push_str plan_new t = (c, q)" by fastforce
  obtain u b where ub: "foldl plan_text_step ([], False)
      (extracted c @ extracted (fst (plan_finish q))) = (u, b)" by fastforce
  have "plan_acc (u, b) = last_plan None (plan_reference t)"
    using plan_text_steps [of "([], False)" "extracted c @ extracted (fst (plan_finish q))"]
      plan_whole [OF c] unfolding ub by (simp add: plan_acc_def)
  with plan_whole [OF c] c ub show ?thesis
    by (auto simp: strip_proposed_plan_blocks_def extract_proposed_plan_text_def plan_acc_def
        split: if_splits)
qed

text \<open>
  Plan blocks may be split anywhere across the chunks of a stream: the visible text
  and, character for character, the plan segments are those of the whole text.
\<close>

theorem plan_chunking:
  "visible_text (collect_stream plan_push_str plan_finish plan_new cs) =
     visible_of (plan_reference (concat cs)) \<and>
   plan_events (extracted (collect_stream plan_push_str plan_finish plan_new cs)) =
     plan_reference (concat cs)"
  using plan.collect_chunking [of plan_new cs] plan_collect_whole [of "concat cs"] by simp

end
