(* ===== verification/Assistant_Text.thy ===== *)
theory Assistant_Text
  imports Inline_Hidden_Tag Tagged_Line
begin

text \<open>
  \<open>utils/stream-parser/src/assistant_text.rs\<close>: citations are stripped first; in plan mode
  the text that remains visible goes through the plan parser.
\<close>

section \<open>Model\<close>

record assistant_text_chunk =
  at_visible_text :: rstr
  at_citations :: "rstr list"
  at_plan_segments :: "ProposedPlanSegment list"

record assistant_parser =
  plan_mode :: bool
  ap_citations :: citation_parser
  ap_plan :: plan_parser

definition assistant_new :: "bool \<Rightarrow> assistant_parser option" where
  "assistant_new mode =
     map_option (\<lambda>c. \<lparr>plan_mode = mode, ap_citations = c, ap_plan = plan_new\<rparr>) citation_new"

definition parse_visible_text ::
    "assistant_parser \<Rightarrow> rstr \<Rightarrow> assistant_text_chunk \<times> assistant_parser" where
  "parse_visible_text p visible =
     (if \<not> plan_mode p
      then (\<lparr>at_visible_text = visible, at_citations = [], at_plan_segments = []\<rparr>, p)
      else (let (chunk, plan) = plan_push_str (ap_plan p) visible in
            (\<lparr>at_visible_text = visible_text chunk, at_citations = [],
              at_plan_segments = extracted chunk\<rparr>, p\<lparr>ap_plan := plan\<rparr>)))"

definition assistant_push_str ::
    "assistant_parser \<Rightarrow> rstr \<Rightarrow> (assistant_text_chunk \<times> assistant_parser) option" where
  "assistant_push_str p chunk =
     (case citation_push_str (ap_citations p) chunk of
        None \<Rightarrow> None
      | Some (cit_chunk, cits) \<Rightarrow>
          let (out, p1) = parse_visible_text (p\<lparr>ap_citations := cits\<rparr>) (visible_text cit_chunk) in
          Some (out\<lparr>at_citations := extracted cit_chunk\<rparr>, p1))"

definition assistant_finish :: "assistant_parser \<Rightarrow> assistant_text_chunk \<times> assistant_parser" where
  "assistant_finish p =
     (let (cit_chunk, cits) = citation_finish (ap_citations p);
          (out, p1) = parse_visible_text (p\<lparr>ap_citations := cits\<rparr>) (visible_text cit_chunk);
          (out1, p2) =
            (if plan_mode p then
               (let (tail, plan) = plan_finish (ap_plan p1) in
                (if chunk_is_empty tail then out
                 else out\<lparr>at_visible_text := at_visible_text out @ visible_text tail,
                          at_plan_segments := at_plan_segments out @ extracted tail\<rparr>,
                 p1\<lparr>ap_plan := plan\<rparr>))
             else (out, p1)) in
      (out1\<lparr>at_citations := extracted cit_chunk\<rparr>, p2))"

text \<open>All chunks of a message and the end, collected.\<close>

definition assistant_append ::
    "assistant_text_chunk \<Rightarrow> assistant_text_chunk \<Rightarrow> assistant_text_chunk" where
  "assistant_append a b =
     \<lparr>at_visible_text = at_visible_text a @ at_visible_text b,
      at_citations = at_citations a @ at_citations b,
      at_plan_segments = at_plan_segments a @ at_plan_segments b\<rparr>"

fun assistant_collect :: "assistant_parser \<Rightarrow> rstr list \<Rightarrow> assistant_text_chunk option" where
  "assistant_collect p [] = Some (fst (assistant_finish p))"
| "assistant_collect p (c # cs) =
     (case assistant_push_str p c of
        None \<Rightarrow> None
      | Some (out, p1) \<Rightarrow> map_option (assistant_append out) (assistant_collect p1 cs))"

section \<open>The two parsers in sequence\<close>

lemma collect_Cons:
  "push p c = (d, q) \<Longrightarrow>
     collect_stream push finish p (c # cs) = chunk_append d (collect_stream push finish q cs)"
  by (simp add: collect_stream_def Let_def split_beta)

lemma collect_Nil: "collect_stream push finish p [] = fst (finish p)"
  by (simp add: collect_stream_def)

lemma chunk_empty_append: "chunk_is_empty c \<Longrightarrow> visible_text c = [] \<and> extracted c = []"
  by (simp add: chunk_is_empty_def)

lemma assistant_finish_simps:
  assumes "citation_finish (ap_citations p) = (c, q)"
  shows "plan_mode p \<Longrightarrow> assistant_finish p = (out, p') \<Longrightarrow>
      at_citations out = extracted c \<and>
      at_visible_text out =
        visible_text (collect_stream plan_push_str plan_finish (ap_plan p) [visible_text c]) \<and>
      at_plan_segments out =
        extracted (collect_stream plan_push_str plan_finish (ap_plan p) [visible_text c])"
    and "\<not> plan_mode p \<Longrightarrow> assistant_finish p = (out, p') \<Longrightarrow>
      at_citations out = extracted c \<and> at_visible_text out = visible_text c \<and> at_plan_segments out = []"
  using assms
  by (auto simp: assistant_finish_def parse_visible_text_def collect_stream_def Let_def split_beta
      dest!: chunk_empty_append split: if_splits)

lemma assistant_collect_sequence:
  assumes "citation_ok (ap_citations p)"
  shows "\<exists>out vs. assistant_collect p cs = Some out \<and>
     concat vs = visible_text (collect_stream citation_push citation_finish (ap_citations p) cs) \<and>
     at_citations out = extracted (collect_stream citation_push citation_finish (ap_citations p) cs) \<and>
     (if plan_mode p
      then at_visible_text out = visible_text (collect_stream plan_push_str plan_finish (ap_plan p) vs) \<and>
           at_plan_segments out = extracted (collect_stream plan_push_str plan_finish (ap_plan p) vs)
      else at_visible_text out = concat vs \<and> at_plan_segments out = [])"
  using assms
proof (induction cs arbitrary: p)
  case Nil
  obtain c q where c: "citation_finish (ap_citations p) = (c, q)" by fastforce
  obtain out p' where o: "assistant_finish p = (out, p')" by fastforce
  from assistant_finish_simps [OF c] o c show ?case
    by (intro exI [of _ out] exI [of _ "[visible_text c]"]) (auto simp: collect_Nil)
next
  case (Cons c cs)
  obtain d q where d: "citation_push (ap_citations p) c = (d, q)" by fastforce
  with citation_push_total [OF Cons.prems, of c]
  have cs: "citation_push_str (ap_citations p) c = Some (d, q)" by simp
  obtain e plan where e: "plan_push_str (ap_plan p) (visible_text d) = (e, plan)" by fastforce
  define p1 where "p1 = (if plan_mode p then p\<lparr>ap_citations := q, ap_plan := plan\<rparr>
      else p\<lparr>ap_citations := q\<rparr>)"
  define o1 where "o1 = (if plan_mode p
      then \<lparr>at_visible_text = visible_text e, at_citations = extracted d, at_plan_segments = extracted e\<rparr>
      else \<lparr>at_visible_text = visible_text d, at_citations = extracted d, at_plan_segments = []\<rparr>)"
  have push: "assistant_push_str p c = Some (o1, p1)"
    using cs e by (simp add: assistant_push_str_def parse_visible_text_def p1_def o1_def)
  have "citation_ok (ap_citations p1)"
    using citation.push_ok [OF Cons.prems d] by (simp add: p1_def)
  from Cons.IH [OF this] obtain out vs where ih: "assistant_collect p1 cs = Some out"
    "concat vs = visible_text (collect_stream citation_push citation_finish (ap_citations p1) cs)"
    "at_citations out = extracted (collect_stream citation_push citation_finish (ap_citations p1) cs)"
    "if plan_mode p1
      then at_visible_text out = visible_text (collect_stream plan_push_str plan_finish (ap_plan p1) vs) \<and>
           at_plan_segments out = extracted (collect_stream plan_push_str plan_finish (ap_plan p1) vs)
      else at_visible_text out = concat vs \<and> at_plan_segments out = []" by blast
  have "ap_citations p1 = q" "plan_mode p1 = plan_mode p" "plan_mode p \<Longrightarrow> ap_plan p1 = plan"
    by (simp_all add: p1_def)
  with ih push d e show ?case
    by (intro exI [of _ "assistant_append o1 out"] exI [of _ "visible_text d # vs"])
      (auto simp: collect_Cons assistant_append_def o1_def)
qed

section \<open>Properties\<close>

text \<open>
  C24. The assistant's text, however its stream is cut into chunks: parsing always returns,
  the citations are those of the whole text, and the visible text is the text outside the
  citations and, in plan mode, outside the plan blocks of what remains, with the plan
  segments of it.
\<close>

theorem assistant_text_reference:
  assumes "assistant_new mode = Some p"
  shows "\<exists>out. assistant_collect p cs = Some out \<and>
     (let (visible, cites) = citation_reference (concat cs) in
      at_citations out = cites \<and>
      (if mode
       then at_visible_text out = visible_of (plan_reference visible) \<and>
            plan_events (at_plan_segments out) = plan_reference visible
       else at_visible_text out = visible \<and> at_plan_segments out = []))"
proof -
  from assms obtain c where c: "citation_new = Some c" and p: "plan_mode p = mode" "ap_citations p = c"
    "ap_plan p = plan_new" by (auto simp: assistant_new_def)
  have ok: "citation_ok c" using c by (rule citation_ok_new)
  obtain r where r: "inline_loop [citation_spec] (concat cs) None chunk_default = Some r"
    using loop_total [OF citation_good, of None "concat cs" chunk_default] by auto
  let ?o = "collect_stream citation_push citation_finish c"
  have "(visible_text (?o [concat cs]), extracted (?o [concat cs])) = flushed r"
    using collect_citation_flushed [OF c r] .
  moreover have "flushed r = citation_reference (concat cs)"
    using loop_reference [of None, OF _ r] by simp
  ultimately have cit: "citation_reference (concat cs) = (visible_text (?o cs), extracted (?o cs))"
    using citation.collect_chunking [OF ok, of cs] by simp
  from assistant_collect_sequence [of p cs] ok p obtain out vs where
    1: "assistant_collect p cs = Some out" "concat vs = visible_text (?o cs)"
      "at_citations out = extracted (?o cs)" and
    2: "if mode
      then at_visible_text out = visible_text (collect_stream plan_push_str plan_finish plan_new vs) \<and>
           at_plan_segments out = extracted (collect_stream plan_push_str plan_finish plan_new vs)
      else at_visible_text out = concat vs \<and> at_plan_segments out = []" by auto
  from plan.collect_chunking [of plan_new vs] plan_collect_whole [of "concat vs"] 1 2 cit
  show ?thesis by (auto simp: Let_def)
qed

theorem assistant_text_reference_witness:
  "\<exists>p out. assistant_new True = Some p \<and>
     assistant_collect p [lit ''a<oai-mem-citation>b</oai-mem-'', lit ''citation>c''] = Some out \<and>
     at_citations out = [lit ''b''] \<and> at_visible_text out = lit ''ac''"
proof -
  obtain p where p: "assistant_new True = Some p"
    using citation_new_Some by (auto simp: assistant_new_def)
  have "citation_reference (concat [lit ''a<oai-mem-citation>b</oai-mem-'', lit ''citation>c'']) =
      (lit ''ac'', [lit ''b''])" "visible_of (plan_reference (lit ''ac'')) = lit ''ac''"
    by code_simp+
  with assistant_text_reference [OF p, of "[lit ''a<oai-mem-citation>b</oai-mem-'', lit ''citation>c'']"] p
  show ?thesis by auto
qed

end
