(* ===== verification/Head_Tail_Buffer.thy ===== *)
theory Head_Tail_Buffer
  imports Prelude
begin

text \<open>
  \<open>core/src/unified_exec/head_tail_buffer.rs\<close>: the output of a command, capped to a head
  and a tail. Bytes are numbers; \<open>MAX_BYTES\<close> is the argument \<open>mx\<close>; the counters are
  \<open>usize\<close> and saturate.
\<close>

section \<open>Model\<close>

record head_tail_buffer =
  htb_head :: "nat list"
  htb_tail :: "nat list"
  htb_omitted :: nat

definition UNIFIED_EXEC_OUTPUT_MAX_BYTES :: nat where
  "UNIFIED_EXEC_OUTPUT_MAX_BYTES = 1024 * 1024"

definition buffer_default :: head_tail_buffer where
  "buffer_default = \<lparr>htb_head = [], htb_tail = [], htb_omitted = 0\<rparr>"

definition HEAD_BUDGET :: "nat \<Rightarrow> nat" where
  "HEAD_BUDGET mx = mx div 2"

definition TAIL_BUDGET :: "nat \<Rightarrow> nat" where
  "TAIL_BUDGET mx = mx - HEAD_BUDGET mx"

definition retained_bytes :: "head_tail_buffer \<Rightarrow> nat" where
  "retained_bytes b = sat_add (length (htb_head b)) (length (htb_tail b))"

definition total_bytes :: "head_tail_buffer \<Rightarrow> nat" where
  "total_bytes b = sat_add (retained_bytes b) (htb_omitted b)"

definition fill_head :: "nat \<Rightarrow> head_tail_buffer \<Rightarrow> nat list \<Rightarrow> nat list \<times> head_tail_buffer" where
  "fill_head mx b chunk =
     (let remaining_head = HEAD_BUDGET mx - length (htb_head b);
          (chunk_head, chunk_tail) =
            (if remaining_head \<le> length chunk then (take remaining_head chunk, drop remaining_head chunk)
             else (chunk, [])) in
      (chunk_tail, b\<lparr>htb_head := htb_head b @ chunk_head\<rparr>))"

definition push_tail :: "nat \<Rightarrow> head_tail_buffer \<Rightarrow> nat list \<Rightarrow> head_tail_buffer" where
  "push_tail mx b chunk =
     (let remaining_tail = TAIL_BUDGET mx - length (htb_tail b);
          excess_tail = length chunk - remaining_tail;
          omitted = sat_add (htb_omitted b) excess_tail;
          (tail, chunk1) =
            (if excess_tail < length (htb_tail b) then (drop excess_tail (htb_tail b), chunk)
             else ([], drop (excess_tail - length (htb_tail b)) chunk)) in
      b\<lparr>htb_tail := tail @ chunk1, htb_omitted := omitted\<rparr>)"

definition push_chunk :: "nat \<Rightarrow> head_tail_buffer \<Rightarrow> nat list \<Rightarrow> head_tail_buffer" where
  "push_chunk mx b chunk = (let (rest, b1) = fill_head mx b chunk in push_tail mx b1 rest)"

definition to_bytes :: "head_tail_buffer \<Rightarrow> nat list" where
  "to_bytes b = htb_head b @ htb_tail b"

definition format_output_omission_marker :: "nat \<Rightarrow> rstr" where
  "format_output_omission_marker omitted = lit ''... '' @ show_nat omitted @ lit '' bytes omitted ...''"

text \<open>The marker is ASCII, so its bytes are its characters.\<close>

definition to_bytes_with_omission_marker :: "head_tail_buffer \<Rightarrow> nat list" where
  "to_bytes_with_omission_marker b =
     (if htb_omitted b = 0 then to_bytes b
      else htb_head b @ [10] @ format_output_omission_marker (htb_omitted b) @ [10] @ htb_tail b)"

text \<open>
  \<open>as_slices\<close> yields the two parts of the ring buffer; where it wraps is the argument
  \<open>wrap\<close>.
\<close>

definition push_buffer :: "nat \<Rightarrow> nat \<Rightarrow> head_tail_buffer \<Rightarrow> head_tail_buffer \<Rightarrow> head_tail_buffer" where
  "push_buffer mx wrap b other =
     (let b1 = b\<lparr>htb_omitted := sat_add (htb_omitted b) (htb_omitted other)\<rparr>;
          (overflow, b2) =
            (if htb_head b1 = [] then ([], b1\<lparr>htb_head := htb_head other\<rparr>)
             else fill_head mx b1 (htb_head other)) in
      if length (htb_tail other) = TAIL_BUDGET mx then
        b2\<lparr>htb_omitted := sat_add (sat_add (htb_omitted b2) (length (htb_tail b2))) (length overflow),
           htb_tail := htb_tail other\<rparr>
      else
        (let b3 = push_tail mx b2 overflow in
         if htb_tail b3 = [] then b3\<lparr>htb_tail := htb_tail other\<rparr>
         else push_tail mx (push_tail mx b3 (take wrap (htb_tail other))) (drop wrap (htb_tail other))))"

section \<open>What the buffer summarizes\<close>

definition last_n :: "nat \<Rightarrow> 'a list \<Rightarrow> 'a list" where
  "last_n n xs = drop (length xs - n) xs"

text \<open>The head, the tail and the number of bytes between them, of a whole stream.\<close>

definition summary :: "nat \<Rightarrow> nat list \<Rightarrow> head_tail_buffer" where
  "summary mx s =
     (let rest = drop (HEAD_BUDGET mx) s in
      \<lparr>htb_head = take (HEAD_BUDGET mx) s, htb_tail = last_n (TAIL_BUDGET mx) rest,
       htb_omitted = min (length rest - TAIL_BUDGET mx) usize_max\<rparr>)"

lemma length_last_n [simp]: "length (last_n n xs) = min n (length xs)"
  by (simp add: last_n_def)

lemma last_n_append: "last_n n (last_n n xs @ ys) = last_n n (xs @ ys)"
proof (cases "length xs \<le> n")
  case False
  then have "length ys + (length xs - n) = length xs + length ys - n" by simp
  with False show ?thesis by (simp add: last_n_def)
qed (simp add: last_n_def)

lemma last_n_append_right: "n \<le> length ys \<Longrightarrow> last_n n (xs @ ys) = last_n n ys"
  by (simp add: last_n_def)

lemma last_n_all: "length xs \<le> n \<Longrightarrow> last_n n xs = xs"
  by (simp add: last_n_def)

lemma push_tail_eq:
  assumes "length (htb_tail b) \<le> TAIL_BUDGET mx"
  shows "push_tail mx b chunk =
     b\<lparr>htb_tail := last_n (TAIL_BUDGET mx) (htb_tail b @ chunk),
       htb_omitted := sat_add (htb_omitted b) (length (htb_tail b @ chunk) - TAIL_BUDGET mx)\<rparr>"
proof -
  have "length chunk - (TAIL_BUDGET mx - length (htb_tail b)) = length (htb_tail b @ chunk) - TAIL_BUDGET mx"
    using assms by simp
  then show ?thesis by (auto simp: push_tail_def Let_def last_n_def)
qed

text \<open>The tail after a stretch of the stream that does not belong in the head.\<close>

lemma push_tail_rest:
  assumes "htb_tail b = last_n (TAIL_BUDGET mx) rest"
    and "htb_omitted b = min (n + (length rest - TAIL_BUDGET mx)) usize_max"
  shows "push_tail mx b chunk =
     b\<lparr>htb_tail := last_n (TAIL_BUDGET mx) (rest @ chunk),
       htb_omitted := min (n + (length (rest @ chunk) - TAIL_BUDGET mx)) usize_max\<rparr>"
proof -
  have "length (htb_tail b) \<le> TAIL_BUDGET mx" by (simp add: assms(1))
  moreover have "n + (length rest - TAIL_BUDGET mx) +
      (length (last_n (TAIL_BUDGET mx) rest @ chunk) - TAIL_BUDGET mx) =
      n + (length (rest @ chunk) - TAIL_BUDGET mx)" by (simp add: min_def)
  ultimately show ?thesis
    by (simp add: push_tail_eq assms last_n_append del: length_append)
qed

lemma fill_head_eq:
  "fill_head mx b chunk =
     (drop (HEAD_BUDGET mx - length (htb_head b)) chunk,
      b\<lparr>htb_head := htb_head b @ take (HEAD_BUDGET mx - length (htb_head b)) chunk\<rparr>)"
  by (simp add: fill_head_def Let_def)

lemma push_chunk_summary: "push_chunk mx (summary mx s) chunk = summary mx (s @ chunk)"
proof -
  let ?H = "HEAD_BUDGET mx"
  let ?b = "snd (fill_head mx (summary mx s) chunk)"
  have "push_tail mx ?b (drop (?H - length s) chunk) =
      ?b\<lparr>htb_tail := last_n (TAIL_BUDGET mx) (drop ?H s @ drop (?H - length s) chunk),
         htb_omitted := min (0 + (length (drop ?H s @ drop (?H - length s) chunk) - TAIL_BUDGET mx)) usize_max\<rparr>"
    by (rule push_tail_rest) (simp_all add: fill_head_eq summary_def Let_def)
  moreover have "fst (fill_head mx (summary mx s) chunk) = drop (?H - length s) chunk"
    "htb_head ?b = take ?H (s @ chunk)"
    by (simp_all add: fill_head_eq summary_def Let_def min_def)
  ultimately show ?thesis
    by (simp add: push_chunk_def split_beta) (simp add: summary_def Let_def)
qed

lemma push_chunks_summary:
  "foldl (push_chunk mx) (summary mx s) cs = summary mx (s @ concat cs)"
  by (induction cs arbitrary: s) (simp_all add: push_chunk_summary)

text \<open>The head of the concatenation and what of the second head does not fit into it.\<close>

lemma head_concat:
  assumes "b = summary mx s" "t' = take (HEAD_BUDGET mx) t"
  shows "(if htb_head b = [] then ([], b\<lparr>htb_head := t'\<rparr>) else fill_head mx b t') =
    (drop (HEAD_BUDGET mx - length s) t', b\<lparr>htb_head := take (HEAD_BUDGET mx) (s @ t)\<rparr>)"
  using assms by (auto simp: fill_head_eq summary_def Let_def min_def)

lemma drop_head_concat:
  "drop h (s @ t) = (drop h s @ drop (h - length s) (take h t)) @ drop h t"
proof -
  have "drop (h - length s) t = drop (h - length s) (take h t @ drop h t)" by simp
  also have "\<dots> = drop (h - length s) (take h t) @ drop h t"
    by (subst drop_append) (cases "length t \<le> h"; simp)
  finally show ?thesis by simp
qed

lemma summary_Nil: "summary mx [] = buffer_default"
  by (simp add: summary_def buffer_default_def last_n_def)

text \<open>The part of \<open>push_buffer\<close> after the head, when the second tail is not full.\<close>

lemma push_partial_tail:
  assumes b: "htb_tail b = last_n (TAIL_BUDGET mx) rest"
      "htb_omitted b = min (length rest - TAIL_BUDGET mx) usize_max"
    and short: "length tb < TAIL_BUDGET mx"
  shows "(let b3 = push_tail mx b ov in
      if htb_tail b3 = [] then b3\<lparr>htb_tail := tb\<rparr>
      else push_tail mx (push_tail mx b3 (take wrap tb)) (drop wrap tb)) =
    b\<lparr>htb_tail := last_n (TAIL_BUDGET mx) ((rest @ ov) @ tb),
      htb_omitted := min (length ((rest @ ov) @ tb) - TAIL_BUDGET mx) usize_max\<rparr>"
proof -
  define b3 where "b3 = push_tail mx b ov"
  have b3: "b3 = b\<lparr>htb_tail := last_n (TAIL_BUDGET mx) (rest @ ov),
      htb_omitted := min (length (rest @ ov) - TAIL_BUDGET mx) usize_max\<rparr>"
    unfolding b3_def using push_tail_rest [of b mx rest 0 ov] b by simp
  show ?thesis
  proof (cases "htb_tail b3 = []")
    case True
    then have "length (htb_tail b3) = 0" by simp
    then have "rest @ ov = []" using short by (auto simp: b3 min_def split: if_splits)
    then show ?thesis using short True unfolding b3_def [symmetric] Let_def
      by (simp add: b3 last_n_all)
  next
    case False
    have 1: "push_tail mx b3 (take wrap tb) =
        b3\<lparr>htb_tail := last_n (TAIL_BUDGET mx) ((rest @ ov) @ take wrap tb),
          htb_omitted := min (length ((rest @ ov) @ take wrap tb) - TAIL_BUDGET mx) usize_max\<rparr>"
      using push_tail_rest [of b3 mx "rest @ ov" 0 "take wrap tb"] by (simp add: b3)
    have 2: "push_tail mx (push_tail mx b3 (take wrap tb)) (drop wrap tb) =
        b3\<lparr>htb_tail := last_n (TAIL_BUDGET mx) (((rest @ ov) @ take wrap tb) @ drop wrap tb),
          htb_omitted := min (length (((rest @ ov) @ take wrap tb) @ drop wrap tb) - TAIL_BUDGET mx) usize_max\<rparr>"
      using push_tail_rest [of "push_tail mx b3 (take wrap tb)" mx "(rest @ ov) @ take wrap tb" 0 "drop wrap tb"]
      by (simp add: 1 del: append_assoc length_append length_take length_drop)
    have 3: "((rest @ ov) @ take wrap tb) @ drop wrap tb = (rest @ ov) @ tb" by simp
    show ?thesis using False 2 unfolding 3
      by (simp add: b3_def [symmetric] Let_def del: append_assoc length_append) (simp add: b3)
  qed
qed

lemma push_buffer_summary:
  "push_buffer mx wrap (summary mx s) (summary mx t) = summary mx (s @ t)"
proof -
  let ?H = "HEAD_BUDGET mx" and ?T = "TAIL_BUDGET mx"
  let ?ov = "drop (?H - length s) (take ?H t)"
  define b1 where "b1 = (summary mx s)\<lparr>htb_omitted :=
      min (length (drop ?H s) - ?T + (length (drop ?H t) - ?T)) usize_max\<rparr>"
  have b1: "(summary mx s)\<lparr>htb_omitted := sat_add (htb_omitted (summary mx s)) (htb_omitted (summary mx t))\<rparr> = b1"
    by (simp add: b1_def summary_def Let_def) (simp add: min_def)
  have head: "(if htb_head b1 = [] then ([], b1\<lparr>htb_head := htb_head (summary mx t)\<rparr>)
       else fill_head mx b1 (htb_head (summary mx t))) = (?ov, b1\<lparr>htb_head := take ?H (s @ t)\<rparr>)"
    using head_concat [OF refl refl, of mx s t]
    by (auto simp: b1_def fill_head_eq summary_def Let_def split: if_splits)
  let ?b2 = "b1\<lparr>htb_head := take ?H (s @ t)\<rparr>"
  show ?thesis
  proof (cases "length (htb_tail (summary mx t)) = ?T")
    case True
    then have full: "?T \<le> length (drop ?H t)" by (simp add: summary_def Let_def)
    then have "summary mx (s @ t) = \<lparr>htb_head = take ?H (s @ t), htb_tail = last_n ?T (drop ?H t),
        htb_omitted = min (length (drop ?H s @ ?ov) + (length (drop ?H t) - ?T)) usize_max\<rparr>"
      unfolding summary_def drop_head_concat [of ?H s t] Let_def
      by (simp add: last_n_append_right del: append_assoc length_drop)
    moreover have "length (drop ?H s @ ?ov) + (length (drop ?H t) - ?T) =
        length (drop ?H s) - ?T + (length (drop ?H t) - ?T) + min ?T (length (drop ?H s)) + length ?ov"
      by simp
    ultimately show ?thesis using True
      by (simp add: push_buffer_def b1 head del: length_append length_drop length_take)
        (simp add: b1_def summary_def Let_def del: length_append length_drop length_take)
  next
    case False
    then have short: "length (htb_tail (summary mx t)) < ?T" by (simp add: summary_def Let_def)
    then have tb: "htb_tail (summary mx t) = drop ?H t" "length (drop ?H t) - ?T = 0"
      by (auto simp: summary_def Let_def last_n_all)
    have "push_buffer mx wrap (summary mx s) (summary mx t) =
        (let b3 = push_tail mx ?b2 ?ov in
         if htb_tail b3 = [] then b3\<lparr>htb_tail := drop ?H t\<rparr>
         else push_tail mx (push_tail mx b3 (take wrap (drop ?H t))) (drop wrap (drop ?H t)))"
      using False unfolding push_buffer_def b1 head Let_def prod.case tb(1)
      by (simp del: take_append length_drop)
    also have "\<dots> = ?b2\<lparr>htb_tail := last_n ?T ((drop ?H s @ ?ov) @ drop ?H t),
        htb_omitted := min (length ((drop ?H s @ ?ov) @ drop ?H t) - ?T) usize_max\<rparr>"
      using short unfolding tb(1)
      by (intro push_partial_tail) (simp_all only: b1_def tb(2), simp_all add: summary_def Let_def)
    finally show ?thesis
      unfolding drop_head_concat [symmetric] by (simp add: b1_def) (simp add: summary_def Let_def)
  qed
qed

section \<open>The retained output\<close>

lemma summary_sizes:
  "retained_bytes (summary mx s) \<le> mx"
  "total_bytes (summary mx s) = min (length s) usize_max"
proof -
  have split: "length s = min (length s) (HEAD_BUDGET mx) + length (drop (HEAD_BUDGET mx) s)" by simp
  have "HEAD_BUDGET mx + TAIL_BUDGET mx = mx" by (simp add: TAIL_BUDGET_def HEAD_BUDGET_def)
  then show "retained_bytes (summary mx s) \<le> mx"
    by (auto simp: retained_bytes_def sat_add_def summary_def Let_def)
  have "length (htb_head (summary mx s)) + length (htb_tail (summary mx s)) +
      (length (drop (HEAD_BUDGET mx) s) - TAIL_BUDGET mx) = length s"
    by (subst split) (simp add: summary_def Let_def min_def, arith)
  then show "total_bytes (summary mx s) = min (length s) usize_max"
    by (simp add: total_bytes_def retained_bytes_def sat_add_def summary_def Let_def) linarith
qed

lemma summary_fits: "length s \<le> mx \<Longrightarrow> to_bytes_with_omission_marker (summary mx s) = s"
  by (simp add: to_bytes_with_omission_marker_def to_bytes_def summary_def Let_def last_n_all
      HEAD_BUDGET_def TAIL_BUDGET_def)

lemma summary_omits:
  assumes "mx < length s" "length s \<le> usize_max"
  shows "\<exists>h m t. s = h @ m @ t \<and> length h = mx div 2 \<and> length t = mx - mx div 2 \<and> m \<noteq> [] \<and>
    to_bytes_with_omission_marker (summary mx s) =
      h @ [10] @ format_output_omission_marker (length m) @ [10] @ t"
proof (intro exI conjI)
  let ?r = "drop (HEAD_BUDGET mx) s"
  let ?n = "length ?r - TAIL_BUDGET mx"
  have sum: "HEAD_BUDGET mx + TAIL_BUDGET mx = mx" by (simp add: TAIL_BUDGET_def HEAD_BUDGET_def)
  then have n: "0 < ?n" "?n \<le> usize_max" using assms by simp_all
  show "s = take (HEAD_BUDGET mx) s @ take ?n ?r @ drop ?n ?r"
    by (simp only: append_take_drop_id)
  show "length (take (HEAD_BUDGET mx) s) = mx div 2" using assms by (simp add: HEAD_BUDGET_def)
  show "length (drop ?n ?r) = mx - mx div 2"
    using assms sum by (simp add: TAIL_BUDGET_def HEAD_BUDGET_def)
  show "take ?n ?r \<noteq> []" using n by auto
  show "to_bytes_with_omission_marker (summary mx s) = take (HEAD_BUDGET mx) s @ [10] @
      format_output_omission_marker (length (take ?n ?r)) @ [10] @ drop ?n ?r"
    using n by (simp add: to_bytes_with_omission_marker_def summary_def Let_def last_n_def min_absorb1 del: length_drop)
qed

text \<open>
  However the output of a command is cut into chunks, the buffer keeps at most
  \<open>MAX_BYTES\<close> bytes and counts all of them (saturating). An output that fits comes back
  exactly; of a longer one the first half-budget and the last half-budget come back around a
  marker that counts exactly the bytes left out.
\<close>

theorem head_tail_buffer_output:
  fixes mx :: nat and cs :: "nat list list"
  defines "b \<equiv> foldl (push_chunk mx) buffer_default cs" and "s \<equiv> concat cs"
  shows "retained_bytes b \<le> mx \<and> total_bytes b = min (length s) usize_max \<and>
    (length s \<le> mx \<longrightarrow> to_bytes_with_omission_marker b = s) \<and>
    (mx < length s \<and> length s \<le> usize_max \<longrightarrow>
      (\<exists>h m t. s = h @ m @ t \<and> length h = mx div 2 \<and> length t = mx - mx div 2 \<and> m \<noteq> [] \<and>
        to_bytes_with_omission_marker b =
          h @ [10] @ format_output_omission_marker (length m) @ [10] @ t))"
proof -
  have "b = summary mx s"
    using push_chunks_summary [of mx "[]" cs] by (simp add: b_def s_def summary_Nil)
  then show ?thesis using summary_sizes [of mx s] summary_fits [of s mx] summary_omits [of mx s] by blast
qed

theorem head_tail_buffer_output_witness:
  "\<exists>h m t. concat [[1, 2, 3], [4, 5], [6]] = h @ m @ t \<and> length h = 4 div 2 \<and> length t = 4 - 4 div 2 \<and>
     m \<noteq> [] \<and>
     to_bytes_with_omission_marker (foldl (push_chunk 4) buffer_default [[1, 2, 3], [4, 5], [6]]) =
       h @ [10] @ format_output_omission_marker (length m) @ [10] @ t"
proof -
  have "4 < length (concat [[1, 2, 3], [4, 5], [6 :: nat]]) \<and>
      length (concat [[1, 2, 3], [4, 5], [6 :: nat]]) \<le> usize_max"
    by (simp add: usize_max_def)
  then show ?thesis using head_tail_buffer_output [of 4 "[[1, 2, 3], [4, 5], [6]]"] by blast
qed

text \<open>
  C26. Appending a buffer to another gives the buffer of the concatenated output, its omission
  count included, whatever the chunks of either were and wherever the second tail wraps in its
  ring buffer: the order of merging and pushing cannot be observed.
\<close>

theorem push_buffer_concat:
  "push_buffer mx wrap (foldl (push_chunk mx) buffer_default cs) (foldl (push_chunk mx) buffer_default ds) =
     foldl (push_chunk mx) buffer_default (cs @ ds)"
proof -
  have "foldl (push_chunk mx) buffer_default xs = summary mx (concat xs)" for xs
    using push_chunks_summary [of mx "[]" xs] by (simp add: summary_Nil)
  then show ?thesis by (simp only: push_buffer_summary concat_append)
qed

end
