(* ===== verification/Truncate.thy ===== *)
theory Truncate
  imports Prelude
begin

text \<open>
  \<open>utils/string/src/truncate.rs\<close> and \<open>utils/string/src/lib.rs\<close>: shortening a text to a
  byte or token budget, the sanitizer of metric tags and the rewriting of markdown location
  suffixes. Offsets into a \<open>&str\<close> are bytes: slicing is \<open>split_at_byte\<close>, which is
  \<open>None\<close> where Rust panics because the offset is not a character boundary.
\<close>

section \<open>Model\<close>

fun split_at_byte :: "nat \<Rightarrow> rstr \<Rightarrow> (rstr \<times> rstr) option" where
  "split_at_byte n [] = (if n = 0 then Some ([], []) else None)"
| "split_at_byte n (c # s) =
     (if n = 0 then Some ([], c # s)
      else if n < char_len_utf8 c then None
      else map_option (\<lambda>(l, r). (c # l, r)) (split_at_byte (n - char_len_utf8 c) s))"

definition APPROX_BYTES_PER_TOKEN :: nat where
  "APPROX_BYTES_PER_TOKEN = 4"

definition approx_token_count :: "rstr \<Rightarrow> nat" where
  "approx_token_count s =
     sat_add (len_utf8 s) (APPROX_BYTES_PER_TOKEN - 1) div APPROX_BYTES_PER_TOKEN"

definition approx_bytes_for_tokens :: "nat \<Rightarrow> nat" where
  "approx_bytes_for_tokens tokens = sat_mul tokens APPROX_BYTES_PER_TOKEN"

definition approx_tokens_from_byte_count :: "nat \<Rightarrow> nat" where
  "approx_tokens_from_byte_count bytes =
     sat_add bytes (APPROX_BYTES_PER_TOKEN - 1) div APPROX_BYTES_PER_TOKEN"

text \<open>The loop of \<open>split_string\<close> over \<open>char_indices\<close>.\<close>

record split_state =
  prefix_end :: nat
  suffix_start :: nat
  removed_chars :: nat
  suffix_started :: bool

fun split_loop :: "nat \<Rightarrow> nat \<Rightarrow> nat \<Rightarrow> split_state \<Rightarrow> rstr \<Rightarrow> split_state" where
  "split_loop beginning_bytes tail_start_target idx st [] = st"
| "split_loop beginning_bytes tail_start_target idx st (ch # rest) =
     (let char_end = idx + char_len_utf8 ch in
      split_loop beginning_bytes tail_start_target char_end
        (if char_end \<le> beginning_bytes then st\<lparr>prefix_end := char_end\<rparr>
         else if tail_start_target \<le> idx then
           (if \<not> suffix_started st then st\<lparr>suffix_start := idx, suffix_started := True\<rparr> else st)
         else st\<lparr>removed_chars := sat_add (removed_chars st) 1\<rparr>)
        rest)"

definition split_string :: "rstr \<Rightarrow> nat \<Rightarrow> nat \<Rightarrow> (nat \<times> rstr \<times> rstr) option" where
  "split_string s beginning_bytes end_bytes =
     (if s = [] then Some (0, [], [])
      else
        let tail_start_target = len_utf8 s - end_bytes;
            st = split_loop beginning_bytes tail_start_target 0
              \<lparr>prefix_end = 0, suffix_start = len_utf8 s, removed_chars = 0, suffix_started = False\<rparr> s;
            ss = (if suffix_start st < prefix_end st then prefix_end st else suffix_start st)
        in case (split_at_byte (prefix_end st) s, split_at_byte ss s) of
             (Some (before, _), Some (_, after)) \<Rightarrow> Some (removed_chars st, before, after)
           | _ \<Rightarrow> None)"

definition split_budget :: "nat \<Rightarrow> nat \<times> nat" where
  "split_budget budget = (let left = budget div 2 in (left, budget - left))"

text \<open>8230 is the horizontal ellipsis.\<close>

definition format_truncation_marker :: "bool \<Rightarrow> nat \<Rightarrow> rstr" where
  "format_truncation_marker use_tokens removed_count =
     [8230] @ show_nat removed_count @
     (if use_tokens then lit '' tokens truncated'' else lit '' chars truncated'') @ [8230]"

definition removed_units :: "bool \<Rightarrow> nat \<Rightarrow> nat \<Rightarrow> nat" where
  "removed_units use_tokens removed_bytes removed =
     (if use_tokens then approx_tokens_from_byte_count removed_bytes else removed)"

definition assemble_truncated_output :: "rstr \<Rightarrow> rstr \<Rightarrow> rstr \<Rightarrow> rstr" where
  "assemble_truncated_output pre suf marker = pre @ marker @ suf"

definition truncate_with_byte_estimate :: "rstr \<Rightarrow> nat \<Rightarrow> bool \<Rightarrow> rstr option" where
  "truncate_with_byte_estimate s max_bytes use_tokens =
     (if s = [] then Some []
      else if max_bytes = 0 then
        Some (format_truncation_marker use_tokens (removed_units use_tokens (len_utf8 s) (length s)))
      else if len_utf8 s \<le> max_bytes then Some s
      else
        let (left_budget, right_budget) = split_budget max_bytes in
        case split_string s left_budget right_budget of
          None \<Rightarrow> None
        | Some (removed, left, right) \<Rightarrow>
            Some (assemble_truncated_output left right
              (format_truncation_marker use_tokens
                (removed_units use_tokens (len_utf8 s - max_bytes) removed))))"

definition truncate_middle_chars :: "rstr \<Rightarrow> nat \<Rightarrow> rstr option" where
  "truncate_middle_chars s max_bytes = truncate_with_byte_estimate s max_bytes False"

definition truncate_middle_with_token_budget :: "rstr \<Rightarrow> nat \<Rightarrow> (rstr \<times> nat option) option" where
  "truncate_middle_with_token_budget s max_tokens =
     (if s = [] then Some ([], None)
      else if 0 < max_tokens \<and> len_utf8 s \<le> approx_bytes_for_tokens max_tokens then Some (s, None)
      else
        case truncate_with_byte_estimate s (approx_bytes_for_tokens max_tokens) True of
          None \<Rightarrow> None
        | Some truncated \<Rightarrow>
            Some (truncated, if truncated = s then None else Some (approx_token_count s)))"

fun boundary_loop :: "nat \<Rightarrow> nat \<Rightarrow> nat \<Rightarrow> rstr \<Rightarrow> nat" where
  "boundary_loop maxb i last_ok [] = last_ok"
| "boundary_loop maxb i last_ok (ch # rest) =
     (let nb = i + char_len_utf8 ch in
      if maxb < nb then last_ok else boundary_loop maxb nb nb rest)"

definition take_bytes_at_char_boundary :: "rstr \<Rightarrow> nat \<Rightarrow> rstr option" where
  "take_bytes_at_char_boundary s maxb =
     (if len_utf8 s \<le> maxb then Some s
      else map_option fst (split_at_byte (boundary_loop maxb 0 0 s) s))"

definition is_ascii_alphanumeric :: "rchar \<Rightarrow> bool" where
  "is_ascii_alphanumeric c \<longleftrightarrow> (48 \<le> c \<and> c \<le> 57) \<or> (65 \<le> c \<and> c \<le> 90) \<or> (97 \<le> c \<and> c \<le> 122)"

definition tag_char :: "rchar \<Rightarrow> bool" where
  "tag_char c \<longleftrightarrow> is_ascii_alphanumeric c \<or> c \<in> {46, 95, 45, 47}"

definition sanitize_metric_tag_value :: "rstr \<Rightarrow> rstr option" where
  "sanitize_metric_tag_value value =
     (let sanitized = map (\<lambda>ch. if tag_char ch then ch else 95) value;
          trimmed = trim_matches 95 sanitized in
      if trimmed = [] \<or> list_all (\<lambda>ch. \<not> is_ascii_alphanumeric ch) trimmed then Some (lit ''unspecified'')
      else if len_utf8 trimmed \<le> 256 then Some trimmed
      else map_option fst (split_at_byte 256 trimmed))"

definition parse_markdown_hash_location_point :: "rstr \<Rightarrow> (rstr \<times> rstr option) option" where
  "parse_markdown_hash_location_point point =
     (case strip_prefix (lit ''L'') point of
        None \<Rightarrow> None
      | Some point1 \<Rightarrow>
          (case split_once 67 point1 of
             Some (line, column) \<Rightarrow> Some (line, Some column)
           | None \<Rightarrow> Some (point1, None)))"

definition push_point :: "rstr \<times> rstr option \<Rightarrow> rstr" where
  "push_point p = fst p @ (case snd p of Some column \<Rightarrow> lit '':'' @ column | None \<Rightarrow> [])"

definition normalize_markdown_hash_location_suffix :: "rstr \<Rightarrow> rstr option" where
  "normalize_markdown_hash_location_suffix sfx =
     (case strip_prefix (lit ''#'') sfx of
        None \<Rightarrow> None
      | Some fragment \<Rightarrow>
          (let (start, end1) =
             (case split_once 45 fragment of Some (a, b) \<Rightarrow> (a, Some b) | None \<Rightarrow> (fragment, None)) in
           case parse_markdown_hash_location_point start of
             None \<Rightarrow> None
           | Some p \<Rightarrow>
               (case end1 of
                  None \<Rightarrow> Some (lit '':'' @ push_point p)
                | Some e \<Rightarrow>
                    (case parse_markdown_hash_location_point e of
                       None \<Rightarrow> None
                     | Some q \<Rightarrow> Some (lit '':'' @ push_point p @ lit ''-'' @ push_point q)))))"

section \<open>Splitting at a budget\<close>

lemma split_at_byte_append [simp]: "split_at_byte (len_utf8 l) (l @ r) = Some (l, r)"
proof (induction l)
  case Nil
  then show ?case by (cases r) simp_all
next
  case (Cons c l)
  then show ?case using char_len_utf8_pos [of c] by (simp del: char_len_utf8_pos)
qed

text \<open>First the loop takes characters while they fit into the prefix.\<close>

lemma split_loop_prefix:
  assumes "idx \<le> b"
  shows "\<exists>pre rest. cs = pre @ rest \<and> idx + len_utf8 pre \<le> b \<and>
     (rest \<noteq> [] \<longrightarrow> b < idx + len_utf8 pre + char_len_utf8 (hd rest)) \<and>
     split_loop b t idx st cs =
       split_loop b t (idx + len_utf8 pre)
         (st\<lparr>prefix_end := if pre = [] then prefix_end st else idx + len_utf8 pre\<rparr>) rest"
  using assms
proof (induction cs arbitrary: idx st)
  case Nil
  then show ?case by simp
next
  case (Cons c cs)
  show ?case
  proof (cases "idx + char_len_utf8 c \<le> b")
    case True
    with Cons.IH [of "idx + char_len_utf8 c" "st\<lparr>prefix_end := idx + char_len_utf8 c\<rparr>"] obtain pre rest
      where IH: "cs = pre @ rest" "idx + char_len_utf8 c + len_utf8 pre \<le> b"
        "rest \<noteq> [] \<longrightarrow> b < idx + char_len_utf8 c + len_utf8 pre + char_len_utf8 (hd rest)"
        "split_loop b t (idx + char_len_utf8 c) (st\<lparr>prefix_end := idx + char_len_utf8 c\<rparr>) cs =
          split_loop b t (idx + char_len_utf8 c + len_utf8 pre)
            (st\<lparr>prefix_end := idx + char_len_utf8 c,
                prefix_end := if pre = [] then prefix_end (st\<lparr>prefix_end := idx + char_len_utf8 c\<rparr>)
                               else idx + char_len_utf8 c + len_utf8 pre\<rparr>) rest"
      by blast
    show ?thesis
      by (insert IH True, rule exI [of _ "c # pre"], rule exI [of _ rest]) (auto simp: Let_def add.assoc)
  next
    case False
    show ?thesis by (insert False Cons.prems, rule exI [of _ "[]"], rule exI [of _ "c # cs"]) simp
  qed
qed

text \<open>Once a suffix has started, the rest of the text belongs to it.\<close>

lemma split_loop_suffix:
  assumes "b < idx + char_len_utf8 (hd cs)" "t \<le> idx" "suffix_started st"
  shows "split_loop b t idx st cs = st"
  using assms
proof (induction cs arbitrary: idx)
  case (Cons c cs)
  then show ?case
    using Cons.IH [of "idx + char_len_utf8 c"] by (simp add: Let_def trans_less_add1)
qed simp

text \<open>Between the two it counts what is removed.\<close>

lemma split_loop_middle:
  assumes "cs \<noteq> [] \<longrightarrow> b < idx + char_len_utf8 (hd cs)" "\<not> suffix_started st"
    and "removed_chars st = min n usize_max"
  shows "\<exists>mid suf. cs = mid @ suf \<and> (suf \<noteq> [] \<longrightarrow> t \<le> idx + len_utf8 mid) \<and>
     (mid \<noteq> [] \<longrightarrow> idx + len_utf8 (butlast mid) < t) \<and>
     split_loop b t idx st cs =
       st\<lparr>suffix_start := if suf = [] then suffix_start st else idx + len_utf8 mid,
          removed_chars := min (n + length mid) usize_max, suffix_started := suf \<noteq> []\<rparr>"
  using assms
proof (induction cs arbitrary: idx st n)
  case Nil
  then show ?case by (cases st) simp
next
  case (Cons c cs)
  have fit: "\<not> idx + char_len_utf8 c \<le> b" using Cons.prems by simp
  show ?case
  proof (cases "t \<le> idx")
    case True
    have "split_loop b t (idx + char_len_utf8 c) (st\<lparr>suffix_start := idx, suffix_started := True\<rparr>) cs =
        st\<lparr>suffix_start := idx, suffix_started := True\<rparr>"
      by (cases "cs = []", simp, rule split_loop_suffix) (use fit True in auto)
    moreover have "split_loop b t idx st (c # cs) =
        split_loop b t (idx + char_len_utf8 c) (st\<lparr>suffix_start := idx, suffix_started := True\<rparr>) cs"
      using fit True Cons.prems by (simp add: Let_def)
    ultimately have "split_loop b t idx st (c # cs) = st\<lparr>suffix_start := idx, suffix_started := True\<rparr>"
      by simp
    note eq = this
    show ?thesis unfolding eq
      by (insert True Cons.prems(3), rule exI [of _ "[]"], rule exI [of _ "c # cs"]) (cases st, simp)
  next
    case False
    let ?st = "st\<lparr>removed_chars := min (Suc n) usize_max\<rparr>"
    have "\<exists>mid suf. cs = mid @ suf \<and> (suf \<noteq> [] \<longrightarrow> t \<le> idx + char_len_utf8 c + len_utf8 mid) \<and>
     (mid \<noteq> [] \<longrightarrow> idx + char_len_utf8 c + len_utf8 (butlast mid) < t) \<and>
     split_loop b t (idx + char_len_utf8 c) ?st cs =
       ?st\<lparr>suffix_start := if suf = [] then suffix_start ?st else idx + char_len_utf8 c + len_utf8 mid,
          removed_chars := min (Suc n + length mid) usize_max, suffix_started := suf \<noteq> []\<rparr>"
      using Cons.prems fit by (intro Cons.IH) auto
    then obtain mid suf where IH: "cs = mid @ suf"
        "suf \<noteq> [] \<longrightarrow> t \<le> idx + char_len_utf8 c + len_utf8 mid"
        "mid \<noteq> [] \<longrightarrow> idx + char_len_utf8 c + len_utf8 (butlast mid) < t"
        "split_loop b t (idx + char_len_utf8 c) ?st cs =
       ?st\<lparr>suffix_start := if suf = [] then suffix_start ?st else idx + char_len_utf8 c + len_utf8 mid,
          removed_chars := min (Suc n + length mid) usize_max, suffix_started := suf \<noteq> []\<rparr>"
      by blast
    have step: "split_loop b t idx st (c # cs) = split_loop b t (idx + char_len_utf8 c) ?st cs"
      using fit False Cons.prems by (simp add: Let_def)
    show ?thesis unfolding step IH(4)
      by (insert IH(1-3) False, rule exI [of _ "c # mid"], rule exI [of _ suf]) (auto simp: add.assoc)
  qed
qed

lemma len_utf8_butlast: "m \<noteq> [] \<Longrightarrow> len_utf8 (butlast m) + char_len_utf8 (last m) = len_utf8 m"
  by (induction m) auto

text \<open>
  The contract of \<open>split_string\<close>: it never slices inside a character, the parts are the text,
  and both kept parts are as long as their budgets allow.
\<close>

lemma split_string_parts:
  "\<exists>l m r. s = l @ m @ r \<and> split_string s b e = Some (min (length m) usize_max, l, r) \<and>
     len_utf8 l \<le> b \<and> len_utf8 r \<le> e \<and>
     (m \<noteq> [] \<longrightarrow> b < len_utf8 (l @ [hd m]) \<and> e < len_utf8 (last m # r))"
  if "b + e < len_utf8 s"
proof -
  let ?t = "len_utf8 s - e"
  let ?st = "\<lparr>prefix_end = 0, suffix_start = len_utf8 s, removed_chars = 0, suffix_started = False\<rparr>"
  have pe: "?st\<lparr>prefix_end := if l = [] then prefix_end ?st else len_utf8 l\<rparr> = ?st\<lparr>prefix_end := len_utf8 l\<rparr>" for l
    by simp
  obtain l rest where l: "s = l @ rest" "len_utf8 l \<le> b"
      "rest \<noteq> [] \<longrightarrow> b < len_utf8 l + char_len_utf8 (hd rest)"
      "split_loop b ?t 0 ?st s = split_loop b ?t (len_utf8 l) (?st\<lparr>prefix_end := len_utf8 l\<rparr>) rest"
    using split_loop_prefix [of 0 b s ?t ?st, OF le0] unfolding add_0 pe
    by (elim exE conjE) (rule that)
  have pm: "?st\<lparr>prefix_end := p, suffix_start := if r = [] then suffix_start (?st\<lparr>prefix_end := p\<rparr>) else x,
        removed_chars := n, suffix_started := q\<rparr> =
      \<lparr>prefix_end = p, suffix_start = if r = [] then len_utf8 s else x, removed_chars = n, suffix_started = q\<rparr>"
    for p x n q and r :: rstr by simp
  have side: "\<not> suffix_started (?st\<lparr>prefix_end := len_utf8 l\<rparr>)"
      "removed_chars (?st\<lparr>prefix_end := len_utf8 l\<rparr>) = min 0 usize_max" by simp_all
  obtain m r where m: "rest = m @ r" "r \<noteq> [] \<longrightarrow> ?t \<le> len_utf8 l + len_utf8 m"
      "m \<noteq> [] \<longrightarrow> len_utf8 l + len_utf8 (butlast m) < ?t"
      "split_loop b ?t (len_utf8 l) (?st\<lparr>prefix_end := len_utf8 l\<rparr>) rest =
        \<lparr>prefix_end = len_utf8 l, suffix_start = if r = [] then len_utf8 s else len_utf8 l + len_utf8 m,
         removed_chars = min (length m) usize_max, suffix_started = r \<noteq> []\<rparr>"
    using split_loop_middle [of rest b "len_utf8 l" "?st\<lparr>prefix_end := len_utf8 l\<rparr>" 0 ?t, OF l(3) side]
    unfolding add_0 pm by (elim exE conjE) (rule that)
  have start: "(if r = [] then len_utf8 s else len_utf8 l + len_utf8 m) = len_utf8 (l @ m)"
    using l(1) m(1) by simp
  have s: "s = l @ m @ r" "s = (l @ m) @ r" using l(1) m(1) by simp_all
  have at: "split_at_byte (len_utf8 l) s = Some (l, m @ r)" "split_at_byte (len_utf8 (l @ m)) s = Some (l @ m, r)"
    by (subst s(1), rule split_at_byte_append) (subst s(2), rule split_at_byte_append)
  have "s \<noteq> []" using that by auto
  then have "split_string s b e = Some (min (length m) usize_max, l, r)"
    unfolding split_string_def l(4) m(4) start Let_def using at by simp
  moreover have "len_utf8 r \<le> e" using m(2) s(1) by (cases "r = []") auto
  moreover have "e < len_utf8 (last m # r)" if "m \<noteq> []"
  proof -
    have "len_utf8 (butlast m) + char_len_utf8 (last m) = len_utf8 m" using that by (rule len_utf8_butlast)
    then show ?thesis using m(3) that s(1) by auto
  qed
  ultimately show ?thesis using s(1) l(2,3) m(1) by auto
qed

lemma truncate_parts:
  assumes "mx < len_utf8 s"
  shows "\<exists>l m r. s = l @ m @ r \<and> m \<noteq> [] \<and> len_utf8 l \<le> mx div 2 \<and> len_utf8 r \<le> mx - mx div 2 \<and>
    mx div 2 < len_utf8 (l @ [hd m]) \<and> mx - mx div 2 < len_utf8 (last m # r) \<and>
    truncate_with_byte_estimate s mx tok =
      Some (l @ format_truncation_marker tok
        (removed_units tok (len_utf8 s - mx) (if mx = 0 then length m else min (length m) usize_max)) @ r)"
proof (cases "mx = 0")
  case True
  then show ?thesis using assms
    by (auto simp: truncate_with_byte_estimate_def intro!: exI [of _ "[]"] exI [of _ s])
next
  case False
  have "mx div 2 + (mx - mx div 2) < len_utf8 s" using assms by simp
  from split_string_parts [OF this] obtain l m r where *: "s = l @ m @ r"
      "split_string s (mx div 2) (mx - mx div 2) = Some (min (length m) usize_max, l, r)"
      "len_utf8 l \<le> mx div 2" "len_utf8 r \<le> mx - mx div 2"
      "m \<noteq> [] \<longrightarrow> mx div 2 < len_utf8 (l @ [hd m]) \<and> mx - mx div 2 < len_utf8 (last m # r)"
    by blast
  have "m \<noteq> []" using * assms by auto
  moreover have "truncate_with_byte_estimate s mx tok =
      Some (l @ format_truncation_marker tok
        (removed_units tok (len_utf8 s - mx) (min (length m) usize_max)) @ r)"
    using False assms *(2)
    by (auto simp: truncate_with_byte_estimate_def split_budget_def Let_def assemble_truncated_output_def)
  ultimately show ?thesis using * False by auto
qed

lemma truncate_fits:
  "len_utf8 s \<le> mx \<Longrightarrow> truncate_with_byte_estimate s mx tok = Some s"
  by (auto simp: truncate_with_byte_estimate_def)

section \<open>Properties\<close>

text \<open>
  Truncation to a byte budget never slices inside a character. A text within the budget is
  unchanged; of a longer one the result is a prefix of at most half the budget, a marker with
  the exact number of removed characters, and a suffix of at most the other half, and neither
  part could keep one character more.
\<close>

theorem truncate_middle_chars_parts:
  assumes "len_utf8 s \<le> usize_max"
  shows "(len_utf8 s \<le> mx \<longrightarrow> truncate_middle_chars s mx = Some s) \<and>
    (mx < len_utf8 s \<longrightarrow>
      (\<exists>l m r. s = l @ m @ r \<and> m \<noteq> [] \<and> len_utf8 l \<le> mx div 2 \<and> len_utf8 r \<le> mx - mx div 2 \<and>
        mx div 2 < len_utf8 (l @ [hd m]) \<and> mx - mx div 2 < len_utf8 (last m # r) \<and>
        truncate_middle_chars s mx = Some (l @ format_truncation_marker False (length m) @ r)))"
proof -
  have "\<exists>l m r. s = l @ m @ r \<and> m \<noteq> [] \<and> len_utf8 l \<le> mx div 2 \<and> len_utf8 r \<le> mx - mx div 2 \<and>
      mx div 2 < len_utf8 (l @ [hd m]) \<and> mx - mx div 2 < len_utf8 (last m # r) \<and>
      truncate_middle_chars s mx = Some (l @ format_truncation_marker False (length m) @ r)"
    if long: "mx < len_utf8 s"
  proof -
    obtain l m r where *: "s = l @ m @ r" "m \<noteq> []" "len_utf8 l \<le> mx div 2" "len_utf8 r \<le> mx - mx div 2"
        "mx div 2 < len_utf8 (l @ [hd m])" "mx - mx div 2 < len_utf8 (last m # r)"
        "truncate_with_byte_estimate s mx False = Some (l @ format_truncation_marker False
          (removed_units False (len_utf8 s - mx) (if mx = 0 then length m else min (length m) usize_max)) @ r)"
      using truncate_parts [OF long, of False] by blast
    have "(if mx = 0 then length m else min (length m) usize_max) = length m"
      using assms *(1) length_le_len_utf8 [of s] by simp
    then show ?thesis using * unfolding truncate_middle_chars_def removed_units_def by auto
  qed
  then show ?thesis by (simp add: truncate_middle_chars_def truncate_fits)
qed

theorem truncate_middle_chars_parts_witness:
  "\<exists>l m r. lit ''abcdefgh'' = l @ m @ r \<and> m \<noteq> [] \<and> len_utf8 l \<le> 5 div 2 \<and> len_utf8 r \<le> 5 - 5 div 2 \<and>
     5 div 2 < len_utf8 (l @ [hd m]) \<and> 5 - 5 div 2 < len_utf8 (last m # r) \<and>
     truncate_middle_chars (lit ''abcdefgh'') 5 = Some (l @ format_truncation_marker False (length m) @ r)"
proof -
  have "len_utf8 (lit ''abcdefgh'') \<le> usize_max" "5 < len_utf8 (lit ''abcdefgh'')" by code_simp+
  then show ?thesis using truncate_middle_chars_parts [of "lit ''abcdefgh''" 5] by blast
qed

text \<open>A prefix within a byte budget, as long as it can be.\<close>

lemma boundary_loop_prefix:
  "i \<le> maxb \<Longrightarrow> \<exists>p r. cs = p @ r \<and> boundary_loop maxb i i cs = i + len_utf8 p \<and> i + len_utf8 p \<le> maxb \<and>
     (r \<noteq> [] \<longrightarrow> maxb < i + len_utf8 p + char_len_utf8 (hd r))"
proof (induction cs arbitrary: i)
  case (Cons c cs)
  show ?case
  proof (cases "maxb < i + char_len_utf8 c")
    case False
    with Cons.IH [of "i + char_len_utf8 c"] obtain p r where IH: "cs = p @ r"
        "boundary_loop maxb (i + char_len_utf8 c) (i + char_len_utf8 c) cs = i + char_len_utf8 c + len_utf8 p"
        "i + char_len_utf8 c + len_utf8 p \<le> maxb"
        "r \<noteq> [] \<longrightarrow> maxb < i + char_len_utf8 c + len_utf8 p + char_len_utf8 (hd r)" by auto
    with False show ?thesis by (intro exI [of _ "c # p"] exI [of _ r]) (simp add: Let_def add.assoc)
  qed (use Cons.prems in simp)
qed simp

theorem take_bytes_longest_prefix:
  "\<exists>p r. s = p @ r \<and> take_bytes_at_char_boundary s maxb = Some p \<and> len_utf8 p \<le> maxb \<and>
     (r \<noteq> [] \<longrightarrow> maxb < len_utf8 (p @ [hd r]))"
proof (cases "len_utf8 s \<le> maxb")
  case True
  then show ?thesis by (simp add: take_bytes_at_char_boundary_def)
next
  case False
  obtain p r where "s = p @ r" "boundary_loop maxb 0 0 s = len_utf8 p" "len_utf8 p \<le> maxb"
      "r \<noteq> [] \<longrightarrow> maxb < len_utf8 p + char_len_utf8 (hd r)"
    using boundary_loop_prefix [of 0 maxb s] by auto
  with False show ?thesis by (intro exI [of _ p] exI [of _ r]) (simp add: take_bytes_at_char_boundary_def)
qed

text \<open>A sanitized tag is accepted: allowed characters only, neither empty nor longer than 256.\<close>

lemma len_utf8_tag: "\<forall>c \<in> set s. tag_char c \<Longrightarrow> len_utf8 s = length s"
  by (induction s) (auto simp: tag_char_def is_ascii_alphanumeric_def char_len_utf8_def)

theorem sanitize_metric_tag_value_ok:
  "\<exists>t. sanitize_metric_tag_value v = Some t \<and> t \<noteq> [] \<and> length t \<le> 256 \<and> (\<forall>c \<in> set t. tag_char c)"
proof -
  define w where "w = trim_matches 95 (map (\<lambda>ch. if tag_char ch then ch else 95) v)"
  have tag: "\<forall>c \<in> set w. tag_char c"
    unfolding w_def trim_matches_def trim_end_matches_def
    by (auto dest!: set_dropWhileD simp: tag_char_def)
  show ?thesis
  proof (cases "w = [] \<or> list_all (\<lambda>ch. \<not> is_ascii_alphanumeric ch) w")
    case True
    then have "sanitize_metric_tag_value v = Some (lit ''unspecified'')"
      by (simp add: sanitize_metric_tag_value_def w_def [symmetric] Let_def)
    moreover have "list_all tag_char (lit ''unspecified'') \<and> lit ''unspecified'' \<noteq> [] \<and>
        length (lit ''unspecified'') \<le> 256" by code_simp
    ultimately show ?thesis by (auto simp: list_all_iff)
  next
    case False
    have len: "len_utf8 (take n w) = length (take n w)" for n
      using tag by (intro len_utf8_tag) (auto dest: in_set_takeD)
    show ?thesis
    proof (cases "len_utf8 w \<le> 256")
      case True
      then show ?thesis using False tag len [of "length w"]
        by (simp add: sanitize_metric_tag_value_def w_def [symmetric] Let_def)
    next
      case long: False
      then have "length (take 256 w) = 256" using len [of "length w"] by simp
      then have "split_at_byte 256 w = Some (take 256 w, drop 256 w)"
        using split_at_byte_append [of "take 256 w" "drop 256 w"] len [of 256] by simp
      then show ?thesis using False long tag len [of "length w"]
        by (auto simp: sanitize_metric_tag_value_def w_def [symmetric] Let_def dest: in_set_takeD)
    qed
  qed
qed


text \<open>A location suffix is rewritten point by point.\<close>

definition hash_point :: "rstr \<times> rstr option \<Rightarrow> rstr" where
  "hash_point p = lit ''L'' @ fst p @ (case snd p of Some c \<Rightarrow> lit ''C'' @ c | None \<Rightarrow> [])"

definition point_ok :: "rstr \<times> rstr option \<Rightarrow> bool" where
  "point_ok p \<longleftrightarrow> {67, 45} \<inter> set (fst p) = {} \<and> (case snd p of Some c \<Rightarrow> 45 \<notin> set c | None \<Rightarrow> True)"

lemma parse_point: "point_ok p \<Longrightarrow> parse_markdown_hash_location_point (hash_point p) = Some p"
  by (cases p; cases "snd p")
    (simp_all add: point_ok_def hash_point_def parse_markdown_hash_location_point_def lit_eval
      split_once_sep split_once_none)

lemma hash_point_no_dash: "point_ok p \<Longrightarrow> 45 \<notin> set (hash_point p)"
  by (auto simp: point_ok_def hash_point_def lit_eval split: option.splits)

theorem normalize_hash_location:
  assumes "point_ok p" "point_ok q"
  shows "normalize_markdown_hash_location_suffix (lit ''#'' @ hash_point p) = Some (lit '':'' @ push_point p) \<and>
    normalize_markdown_hash_location_suffix (lit ''#'' @ hash_point p @ lit ''-'' @ hash_point q) =
      Some (lit '':'' @ push_point p @ lit ''-'' @ push_point q)"
  using assms
  by (simp add: normalize_markdown_hash_location_suffix_def parse_point hash_point_no_dash
      split_once_none) (simp add: lit_eval split_once_sep hash_point_no_dash parse_point)

end
