(* ===== verification/Output_Truncation.thy ===== *)
theory Output_Truncation
  imports Truncate
begin

text \<open>
  \<open>utils/output-truncation/src/lib.rs\<close> with the policy of \<open>protocol/src/protocol.rs\<close> and the
  content items of \<open>protocol/src/models.rs\<close>: the output of a tool, a text or a list of items,
  brought under a byte or token budget. The estimate of what an audio item costs is an argument,
  as in the source. \<open>None\<close> is a panic of the slices underneath, shown not to occur.
\<close>

section \<open>Model\<close>

datatype TruncationPolicy = Bytes nat | Tokens nat

fun token_budget :: "TruncationPolicy \<Rightarrow> nat" where
  "token_budget (Bytes bytes) = approx_tokens_from_byte_count bytes"
| "token_budget (Tokens tokens) = tokens"

fun byte_budget :: "TruncationPolicy \<Rightarrow> nat" where
  "byte_budget (Bytes bytes) = bytes"
| "byte_budget (Tokens tokens) = approx_bytes_for_tokens tokens"

datatype ImageDetail = Auto | Low | High | Original

datatype ImageReference = Inline rstr | File rstr

datatype FunctionCallOutputContentItem =
    InputText rstr
  | InputImage ImageReference "ImageDetail option"
  | InputAudio rstr
  | EncryptedContent rstr

datatype FunctionCallOutputBody = BodyText rstr | ContentItems "FunctionCallOutputContentItem list"

record FunctionCallOutputPayload =
  body :: FunctionCallOutputBody
  success :: "bool option"

fun truncate_text :: "rstr \<Rightarrow> TruncationPolicy \<Rightarrow> rstr option" where
  "truncate_text content (Bytes bytes) = truncate_middle_chars content bytes"
| "truncate_text content (Tokens tokens) =
     map_option fst (truncate_middle_with_token_budget content tokens)"

definition formatted_truncate_text :: "rstr \<Rightarrow> TruncationPolicy \<Rightarrow> rstr option" where
  "formatted_truncate_text content policy =
     (if len_utf8 content \<le> byte_budget policy then Some content
      else
        (case truncate_text content policy of
           None \<Rightarrow> None
         | Some result \<Rightarrow>
             Some (lit ''Warning: truncated output (original token count: '' @
               show_nat (approx_token_count content) @ lit '')'' @ [chr_nl] @
               lit ''Total output lines: '' @ show_nat (length (str_lines content)) @
               [chr_nl, chr_nl] @ result)))"

text \<open>The state of the loop: what is left of the budget, the items written and those omitted.\<close>

record items_state =
  out_items :: "FunctionCallOutputContentItem list"
  remaining_budget :: nat
  omitted_text_items :: nat
  omitted_audio_items :: nat

definition text_cost :: "TruncationPolicy \<Rightarrow> rstr \<Rightarrow> nat" where
  "text_cost policy tx = (case policy of Bytes _ \<Rightarrow> len_utf8 tx | Tokens _ \<Rightarrow> approx_token_count tx)"

definition audio_cost :: "(rstr \<Rightarrow> nat) \<Rightarrow> TruncationPolicy \<Rightarrow> rstr \<Rightarrow> nat" where
  "audio_cost estimate policy url =
     (case policy of Bytes _ \<Rightarrow> approx_bytes_for_tokens (estimate url) | Tokens _ \<Rightarrow> estimate url)"

fun item_step :: "(rstr \<Rightarrow> nat) \<Rightarrow> TruncationPolicy \<Rightarrow> items_state \<Rightarrow> FunctionCallOutputContentItem \<Rightarrow>
    items_state option" where
  "item_step estimate policy st (InputText tx) =
     (if tx = [] then Some st
      else if remaining_budget st = 0 then
        Some (st\<lparr>omitted_text_items := omitted_text_items st + 1\<rparr>)
      else
        let cost = text_cost policy tx in
        if cost \<le> remaining_budget st then
          Some (st\<lparr>out_items := out_items st @ [InputText tx], remaining_budget := remaining_budget st - cost\<rparr>)
        else
          (case truncate_text tx
              (case policy of Bytes _ \<Rightarrow> Bytes (remaining_budget st) | Tokens _ \<Rightarrow> Tokens (remaining_budget st)) of
             None \<Rightarrow> None
           | Some snippet \<Rightarrow>
               Some ((if snippet = [] then st\<lparr>omitted_text_items := omitted_text_items st + 1\<rparr>
                      else st\<lparr>out_items := out_items st @ [InputText snippet]\<rparr>)
                 \<lparr>remaining_budget := 0\<rparr>)))"
| "item_step estimate policy st (InputImage img detail) =
     Some (st\<lparr>out_items := out_items st @ [InputImage img detail]\<rparr>)"
| "item_step estimate policy st (InputAudio audio_url) =
     (let cost = audio_cost estimate policy audio_url in
      if cost \<le> remaining_budget st then
        Some (st\<lparr>out_items := out_items st @ [InputAudio audio_url], remaining_budget := remaining_budget st - cost\<rparr>)
      else Some (st\<lparr>omitted_audio_items := omitted_audio_items st + 1\<rparr>))"
| "item_step estimate policy st (EncryptedContent encrypted_content) =
     Some (st\<lparr>out_items := out_items st @ [EncryptedContent encrypted_content]\<rparr>)"

fun items_loop :: "(rstr \<Rightarrow> nat) \<Rightarrow> TruncationPolicy \<Rightarrow> items_state \<Rightarrow> FunctionCallOutputContentItem list \<Rightarrow>
    items_state option" where
  "items_loop estimate policy st [] = Some st"
| "items_loop estimate policy st (item # items) =
     (case item_step estimate policy st item of
        None \<Rightarrow> None
      | Some st1 \<Rightarrow> items_loop estimate policy st1 items)"

definition omission_notices :: "items_state \<Rightarrow> FunctionCallOutputContentItem list" where
  "omission_notices st =
     (if 0 < omitted_text_items st
      then [InputText (lit ''[omitted '' @ show_nat (omitted_text_items st) @ lit '' text items ...]'')] else []) @
     (if 0 < omitted_audio_items st
      then [InputText (lit ''[omitted '' @ show_nat (omitted_audio_items st) @ lit '' audio items ...]'')] else [])"

definition items_init :: "TruncationPolicy \<Rightarrow> items_state" where
  "items_init policy =
     \<lparr>out_items = [],
      remaining_budget = (case policy of Bytes _ \<Rightarrow> byte_budget policy | Tokens _ \<Rightarrow> token_budget policy),
      omitted_text_items = 0, omitted_audio_items = 0\<rparr>"

definition truncate_function_output_items_with_policy ::
  "FunctionCallOutputContentItem list \<Rightarrow> TruncationPolicy \<Rightarrow> (rstr \<Rightarrow> nat) \<Rightarrow>
   FunctionCallOutputContentItem list option" where
  "truncate_function_output_items_with_policy items policy estimate =
     map_option (\<lambda>st. out_items st @ omission_notices st) (items_loop estimate policy (items_init policy) items)"

definition truncate_function_output_payload ::
  "FunctionCallOutputPayload \<Rightarrow> TruncationPolicy \<Rightarrow> (rstr \<Rightarrow> nat) \<Rightarrow> FunctionCallOutputPayload option" where
  "truncate_function_output_payload output policy estimate =
     (case body output of
        BodyText tx \<Rightarrow> map_option (\<lambda>t. output\<lparr>body := BodyText t\<rparr>) (truncate_text tx policy)
      | ContentItems items \<Rightarrow>
          map_option (\<lambda>is1. output\<lparr>body := ContentItems is1\<rparr>)
            (truncate_function_output_items_with_policy items policy estimate))"

fun item_text :: "FunctionCallOutputContentItem \<Rightarrow> rstr option" where
  "item_text (InputText tx) = Some tx"
| "item_text _ = None"

definition push_text_segment :: "rstr \<Rightarrow> rstr \<Rightarrow> rstr" where
  "push_text_segment combined tx = (if combined \<noteq> [] then combined @ [chr_nl] else combined) @ tx"

definition formatted_truncate_text_content_items_with_policy ::
  "FunctionCallOutputContentItem list \<Rightarrow> TruncationPolicy \<Rightarrow>
   (FunctionCallOutputContentItem list \<times> nat option) option" where
  "formatted_truncate_text_content_items_with_policy items policy =
     (let text_segments = List.map_filter item_text items in
      if text_segments = [] then Some (items, None)
      else
        let combined = foldl push_text_segment [] text_segments in
        if len_utf8 combined \<le> byte_budget policy then Some (items, None)
        else
          (case formatted_truncate_text combined policy of
             None \<Rightarrow> None
           | Some tx \<Rightarrow>
               Some (InputText tx # filter (\<lambda>item. item_text item = None) items,
                     Some (approx_token_count combined))))"

definition approx_tokens_from_byte_count_i64 :: "int \<Rightarrow> int" where
  "approx_tokens_from_byte_count_i64 bytes =
     (if bytes \<le> 0 then 0 else min (int (approx_tokens_from_byte_count (nat bytes))) (2 ^ 63 - 1))"

definition function_call_output_content_items_to_text ::
  "FunctionCallOutputContentItem list \<Rightarrow> rstr option" where
  "function_call_output_content_items_to_text content_items =
     (let text_segments = List.map_filter
        (\<lambda>item. case item of InputText tx \<Rightarrow> if trim tx \<noteq> [] then Some tx else None | _ \<Rightarrow> None) content_items in
      if text_segments = [] then None else Some (join_with [chr_nl] text_segments))"

fun to_text :: "FunctionCallOutputBody \<Rightarrow> rstr option" where
  "to_text (BodyText content) = Some content"
| "to_text (ContentItems items) = function_call_output_content_items_to_text items"

section \<open>Truncated texts\<close>

text \<open>Every policy amounts to a byte budget, and every text has a truncation.\<close>

lemma truncate_total: "\<exists>t. truncate_with_byte_estimate s mx tok = Some t"
  using truncate_parts [of mx s tok] truncate_fits [of s mx tok] by (cases "mx < len_utf8 s") auto

lemma truncate_text_bytes:
  "truncate_text s policy =
     truncate_with_byte_estimate s (byte_budget policy) (case policy of Bytes _ \<Rightarrow> False | Tokens _ \<Rightarrow> True)"
  by (cases policy)
    (auto simp: truncate_middle_chars_def truncate_middle_with_token_budget_def truncate_fits
      truncate_with_byte_estimate_def split: option.splits)

lemma truncate_text_total: "\<exists>t. truncate_text s policy = Some t"
  using truncate_total by (simp add: truncate_text_bytes)

lemma item_step_total: "\<exists>st'. item_step estimate policy st item = Some st'"
proof (cases item)
  case (InputText tx)
  then show ?thesis
    using truncate_text_total [of tx "case policy of Bytes _ \<Rightarrow> Bytes (remaining_budget st) | Tokens _ \<Rightarrow> Tokens (remaining_budget st)"]
    by (auto simp: Let_def)
qed (auto simp: Let_def)

section \<open>What becomes of the items\<close>

definition is_text :: "FunctionCallOutputContentItem \<Rightarrow> bool" where
  "is_text item \<longleftrightarrow> (case item of InputText tx \<Rightarrow> tx \<noteq> [] | _ \<Rightarrow> False)"

definition is_audio :: "FunctionCallOutputContentItem \<Rightarrow> bool" where
  "is_audio item \<longleftrightarrow> (case item of InputAudio _ \<Rightarrow> True | _ \<Rightarrow> False)"

definition is_media :: "FunctionCallOutputContentItem \<Rightarrow> bool" where
  "is_media item \<longleftrightarrow> (case item of InputImage _ _ \<Rightarrow> True | EncryptedContent _ \<Rightarrow> True | _ \<Rightarrow> False)"

lemmas item_kinds = is_text_def is_audio_def is_media_def

text \<open>One step accounts for its item: kept media, kept or counted text, kept or counted audio.\<close>

lemma item_step_accounts:
  assumes "item_step estimate policy st item = Some st'"
  shows "filter is_media (out_items st') = filter is_media (out_items st) @ filter is_media [item]"
    and "length (filter is_text (out_items st')) + omitted_text_items st' =
      length (filter is_text (out_items st)) + omitted_text_items st + length (filter is_text [item])"
    and "length (filter is_audio (out_items st')) + omitted_audio_items st' =
      length (filter is_audio (out_items st)) + omitted_audio_items st + length (filter is_audio [item])"
  using assms by (cases item; auto simp: item_kinds Let_def split: if_splits option.splits)+

lemma items_loop_accounts:
  "\<exists>st'. items_loop estimate policy st items = Some st' \<and>
    filter is_media (out_items st') = filter is_media (out_items st) @ filter is_media items \<and>
    length (filter is_text (out_items st')) + omitted_text_items st' =
      length (filter is_text (out_items st)) + omitted_text_items st + length (filter is_text items) \<and>
    length (filter is_audio (out_items st')) + omitted_audio_items st' =
      length (filter is_audio (out_items st)) + omitted_audio_items st + length (filter is_audio items)"
proof (induction items arbitrary: st)
  case (Cons item items)
  obtain st1 where st1: "item_step estimate policy st item = Some st1" using item_step_total by blast
  then show ?case using Cons.IH [of st1] item_step_accounts [OF st1] by auto
qed simp

text \<open>Within the budget nothing is cut.\<close>

definition item_cost :: "(rstr \<Rightarrow> nat) \<Rightarrow> TruncationPolicy \<Rightarrow> FunctionCallOutputContentItem \<Rightarrow> nat" where
  "item_cost estimate policy item =
     (case item of InputText tx \<Rightarrow> text_cost policy tx | InputAudio url \<Rightarrow> audio_cost estimate policy url | _ \<Rightarrow> 0)"

lemma text_cost_pos: "tx \<noteq> [] \<Longrightarrow> 0 < text_cost policy tx"
  using len_utf8_eq_0 [of tx]
  by (cases policy) (auto simp: text_cost_def approx_token_count_def sat_add_def usize_max_def
      APPROX_BYTES_PER_TOKEN_def div_greater_zero_iff Suc_le_eq
      simp del: len_utf8_eq_0)

lemma items_loop_fits:
  assumes "(\<Sum>i\<leftarrow>items. item_cost estimate policy i) \<le> remaining_budget st"
  shows "\<exists>b. items_loop estimate policy st items =
    Some (st\<lparr>out_items := out_items st @ filter (\<lambda>i. i \<noteq> InputText []) items, remaining_budget := b\<rparr>)"
  using assms
proof (induction items arbitrary: st)
  case Nil
  show ?case by (rule exI [of _ "remaining_budget st"]) simp
next
  case (Cons item items)
  let ?st1 = "st\<lparr>out_items := out_items st @ filter (\<lambda>i. i \<noteq> InputText []) [item],
      remaining_budget := remaining_budget st - item_cost estimate policy item\<rparr>"
  have "item_step estimate policy st item = Some ?st1"
  proof (cases item)
    case (InputText tx)
    then show ?thesis using Cons.prems text_cost_pos [of tx policy]
      by (cases "tx = []") (auto simp: item_cost_def Let_def text_cost_def approx_token_count_def
          APPROX_BYTES_PER_TOKEN_def sat_add_def split: TruncationPolicy.splits)
  qed (use Cons.prems in \<open>auto simp: item_cost_def Let_def\<close>)
  moreover have "\<exists>b. items_loop estimate policy ?st1 items =
      Some (?st1\<lparr>out_items := out_items ?st1 @ filter (\<lambda>i. i \<noteq> InputText []) items, remaining_budget := b\<rparr>)"
    using Cons.prems by (intro Cons.IH) simp
  ultimately show ?case by auto
qed

section \<open>Properties\<close>

text \<open>
  Truncating the items of a tool output never fails and loses nothing silently: images and
  encrypted items come through in their order, and every non-empty text and every audio item is
  either in the result or counted in the notice at its end. A list within the budget comes back
  as it is, without its empty texts.
\<close>

theorem truncate_items_accounts:
  "\<exists>st. truncate_function_output_items_with_policy items policy estimate = Some (out_items st @ omission_notices st) \<and>
     filter is_media (out_items st) = filter is_media items \<and>
     length (filter is_text (out_items st)) + omitted_text_items st = length (filter is_text items) \<and>
     length (filter is_audio (out_items st)) + omitted_audio_items st = length (filter is_audio items) \<and>
     ((\<Sum>i\<leftarrow>items. item_cost estimate policy i) \<le> (case policy of Bytes b \<Rightarrow> b | Tokens t \<Rightarrow> t) \<longrightarrow>
        out_items st @ omission_notices st = filter (\<lambda>i. i \<noteq> InputText []) items)"
proof -
  obtain st where st: "items_loop estimate policy (items_init policy) items = Some st"
      "filter is_media (out_items st) = filter is_media items"
      "length (filter is_text (out_items st)) + omitted_text_items st = length (filter is_text items)"
      "length (filter is_audio (out_items st)) + omitted_audio_items st = length (filter is_audio items)"
    using items_loop_accounts [of estimate policy "items_init policy" items] by (auto simp: items_init_def)
  have "out_items st @ omission_notices st = filter (\<lambda>i. i \<noteq> InputText []) items"
    if "(\<Sum>i\<leftarrow>items. item_cost estimate policy i) \<le> (case policy of Bytes b \<Rightarrow> b | Tokens t \<Rightarrow> t)"
  proof -
    have "(\<Sum>i\<leftarrow>items. item_cost estimate policy i) \<le> remaining_budget (items_init policy)"
      using that by (cases policy) (simp_all add: items_init_def)
    from items_loop_fits [OF this] st(1) show ?thesis
      by (auto simp: items_init_def omission_notices_def)
  qed
  with st show ?thesis by (auto simp: truncate_function_output_items_with_policy_def)
qed

theorem truncate_items_accounts_witness:
  "\<exists>st. truncate_function_output_items_with_policy
       [InputText (lit ''abc''), InputText [], EncryptedContent (lit ''k'')] (Bytes 5) (\<lambda>_. 1) =
       Some (out_items st @ omission_notices st) \<and>
     out_items st @ omission_notices st = [InputText (lit ''abc''), EncryptedContent (lit ''k'')]"
proof -
  let ?items = "[InputText (lit ''abc''), InputText [], EncryptedContent (lit ''k'')]"
  have "(\<Sum>i\<leftarrow>?items. item_cost (\<lambda>_. 1) (Bytes 5) i) \<le> 5"
    by (simp add: item_cost_def text_cost_def lit_eval char_len_utf8_def)
  moreover have "filter (\<lambda>i. i \<noteq> InputText []) ?items = [InputText (lit ''abc''), EncryptedContent (lit ''k'')]"
    by (simp add: lit_eval)
  ultimately show ?thesis
    using truncate_items_accounts [of ?items "Bytes 5" "\<lambda>_. 1"] by auto
qed

text \<open>
  The formatted truncation of an item list returns it unchanged, with no token count, exactly
  when its joined text fits the byte budget; otherwise the result is one text that starts with the
  warning, followed by all other items in their order.
\<close>

theorem formatted_items_shape:
  fixes items :: "FunctionCallOutputContentItem list" and policy :: TruncationPolicy
  defines "combined \<equiv> foldl push_text_segment [] (List.map_filter item_text items)"
  shows "if len_utf8 combined \<le> byte_budget policy
    then formatted_truncate_text_content_items_with_policy items policy = Some (items, None)
    else \<exists>tx. formatted_truncate_text_content_items_with_policy items policy =
           Some (InputText (lit ''Warning: truncated output'' @ tx) # filter (\<lambda>i. item_text i = None) items,
                 Some (approx_token_count combined))"
proof (cases "len_utf8 combined \<le> byte_budget policy")
  case True
  then show ?thesis by (simp add: formatted_truncate_text_content_items_with_policy_def Let_def combined_def)
next
  case False
  obtain t where t: "truncate_text combined policy = Some t" using truncate_text_total by blast
  obtain tx where "formatted_truncate_text combined policy = Some (lit ''Warning: truncated output'' @ tx)"
    using False t by (simp add: formatted_truncate_text_def lit_eval)
  moreover have "List.map_filter item_text items \<noteq> []" using False by (auto simp: combined_def)
  ultimately show ?thesis using False
    by (simp add: formatted_truncate_text_content_items_with_policy_def Let_def combined_def [symmetric])
qed

end
