(* ===== verification/Response_Item.thy ===== *)
theory Response_Item
  imports Output_Truncation
begin

text \<open>
  \<open>ResponseItem\<close> of \<open>protocol/src/models.rs\<close>, the entries of a conversation, with the accessors
  of its identifier and turn; \<open>ResponseItemEnvelope\<close> of \<open>history/src/lib.rs\<close>; and the annotated
  message content of \<open>context-fragments/src/annotated_content.rs\<close>.

  Two types are parameters: \<open>'j\<close> stands for the JSON values and numbers of \<open>serde_json\<close>, and
  \<open>'t\<close> for the recorded tool calls, which are only carried. The history metadata of an envelope,
  likewise carried and never read by the operations here, is \<open>'m\<close>.
\<close>

section \<open>Model\<close>

datatype ContentItem =
    MsgInputText rstr
  | MsgInputImage ImageReference "ImageDetail option"
  | MsgInputAudio rstr
  | MsgOutputText rstr

datatype AgentMessageInputContent = AgentInputText rstr | AgentEncryptedContent rstr

datatype MessagePhase = Commentary | FinalAnswer

datatype ContentItemKind = ContentItemKind rstr

record ('j, 't) passthrough =
  turn_id_field :: "rstr option"
  create_time :: "'j option"
  content_item_kinds :: "ContentItemKind list option"
  cell_id :: "rstr option"
  executed_tool_calls :: "'t list option"
  tool_calls_complete :: "bool option"

definition default_passthrough :: "('j, 't) passthrough" where
  "default_passthrough =
     \<lparr>turn_id_field = None, create_time = None, content_item_kinds = None, cell_id = None,
      executed_tool_calls = None, tool_calls_complete = None\<rparr>"

datatype LocalShellStatus = Completed | InProgress | Incomplete

record LocalShellExecAction =
  command :: "rstr list"
  timeout_ms :: "nat option"
  working_directory :: "rstr option"
  env :: "(rstr \<rightharpoonup> rstr) option"
  user :: "rstr option"

datatype LocalShellAction = Exec LocalShellExecAction

datatype WebSearchAction =
    Search "rstr option" "rstr list option"
  | OpenPage "rstr option"
  | FindInPage "rstr option" "rstr option"
  | OtherAction

datatype ReasoningItemReasoningSummary = SummaryText rstr

datatype ReasoningItemContent = ReasoningText rstr | PlainText rstr

datatype ReasoningEffort =
    EffortNone | Minimal | LowEffort | Medium | HighEffort | XHigh | Max | Ultra | Persistent | CustomEffort rstr

text \<open>The fields of every variant are in the order of the source.\<close>

datatype ('j, 't) ResponseItem =
    AdditionalTools "rstr option" rstr "'j list"
  | Message "rstr option" rstr "ContentItem list" "MessagePhase option" "('j, 't) passthrough option"
  | AgentMessage "rstr option" rstr rstr "AgentMessageInputContent list" "('j, 't) passthrough option"
  | Reasoning "rstr option" "ReasoningItemReasoningSummary list" "ReasoningItemContent list option"
      "rstr option" "('j, 't) passthrough option"
  | LocalShellCall "rstr option" "rstr option" LocalShellStatus LocalShellAction "('j, 't) passthrough option"
  | FunctionCall "rstr option" rstr "rstr option" rstr "rstr list option" rstr "('j, 't) passthrough option"
  | ToolSearchCall "rstr option" "rstr option" "rstr option" rstr 'j "('j, 't) passthrough option"
  | FunctionCallOutput "rstr option" "rstr option" "rstr option" "rstr option" FunctionCallOutputPayload
      "('j, 't) passthrough option"
  | CustomToolCall "rstr option" "rstr option" rstr rstr "rstr option" rstr "('j, 't) passthrough option"
  | CustomToolCallOutput "rstr option" rstr "rstr option" FunctionCallOutputPayload "('j, 't) passthrough option"
  | ToolSearchOutput "rstr option" "rstr option" rstr rstr "'j list" "('j, 't) passthrough option"
  | WebSearchCall "rstr option" "rstr option" "WebSearchAction option" "('j, 't) passthrough option"
  | ImageGenerationCall "rstr option" rstr "rstr option" rstr "('j, 't) passthrough option"
  | Compaction "rstr option" rstr "('j, 't) passthrough option"
  | ConfigurationUpdate ReasoningEffort
  | CompactionTrigger
  | ContextCompaction "rstr option" "rstr option" "('j, 't) passthrough option"
  | OtherItem

record ('j, 't, 'm) envelope =
  item :: "('j, 't) ResponseItem"
  metadata :: "'m option"

definition new_envelope :: "('j, 't) ResponseItem \<Rightarrow> ('j, 't, 'm) envelope" where
  "new_envelope i = \<lparr>item = i, metadata = None\<rparr>"

fun item_id :: "('j, 't) ResponseItem \<Rightarrow> rstr option" where
  "item_id (AdditionalTools i _ _) = i"
| "item_id (Message i _ _ _ _) = i"
| "item_id (AgentMessage i _ _ _ _) = i"
| "item_id (LocalShellCall i _ _ _ _) = i"
| "item_id (FunctionCall i _ _ _ _ _ _) = i"
| "item_id (ToolSearchCall i _ _ _ _ _) = i"
| "item_id (FunctionCallOutput i _ _ _ _ _) = i"
| "item_id (CustomToolCall i _ _ _ _ _ _) = i"
| "item_id (CustomToolCallOutput i _ _ _ _) = i"
| "item_id (ToolSearchOutput i _ _ _ _ _) = i"
| "item_id (WebSearchCall i _ _ _) = i"
| "item_id (Reasoning i _ _ _ _) = i"
| "item_id (ImageGenerationCall i _ _ _ _) = i"
| "item_id (Compaction i _ _) = i"
| "item_id (ContextCompaction i _ _) = i"
| "item_id (ConfigurationUpdate _) = None"
| "item_id CompactionTrigger = None"
| "item_id OtherItem = None"

fun set_id :: "('j, 't) ResponseItem \<Rightarrow> rstr option \<Rightarrow> ('j, 't) ResponseItem" where
  "set_id (AdditionalTools _ role tools) n = AdditionalTools n role tools"
| "set_id (Message _ role content phase md) n = Message n role content phase md"
| "set_id (AgentMessage _ author recipient content md) n = AgentMessage n author recipient content md"
| "set_id (LocalShellCall _ call_id status action md) n = LocalShellCall n call_id status action md"
| "set_id (FunctionCall _ nm namespace arguments enc call_id md) n =
     FunctionCall n nm namespace arguments enc call_id md"
| "set_id (ToolSearchCall _ call_id status execution arguments md) n =
     ToolSearchCall n call_id status execution arguments md"
| "set_id (FunctionCallOutput _ call_id nm namespace output md) n =
     FunctionCallOutput n call_id nm namespace output md"
| "set_id (CustomToolCall _ status call_id nm namespace input md) n =
     CustomToolCall n status call_id nm namespace input md"
| "set_id (CustomToolCallOutput _ call_id nm output md) n = CustomToolCallOutput n call_id nm output md"
| "set_id (ToolSearchOutput _ call_id status execution tools md) n =
     ToolSearchOutput n call_id status execution tools md"
| "set_id (WebSearchCall _ status action md) n = WebSearchCall n status action md"
| "set_id (Reasoning _ summary content enc md) n = Reasoning n summary content enc md"
| "set_id (ImageGenerationCall _ status prompt res md) n = ImageGenerationCall n status prompt res md"
| "set_id (Compaction _ enc md) n = Compaction n enc md"
| "set_id (ContextCompaction _ enc md) n = ContextCompaction n enc md"
| "set_id (ConfigurationUpdate r) n = ConfigurationUpdate r"
| "set_id CompactionTrigger n = CompactionTrigger"
| "set_id OtherItem n = OtherItem"

fun id_prefix :: "('j, 't) ResponseItem \<Rightarrow> rstr option" where
  "id_prefix (AdditionalTools _ _ _) = Some (lit ''at'')"
| "id_prefix (Message _ _ _ _ _) = Some (lit ''msg'')"
| "id_prefix (AgentMessage _ _ _ _ _) = Some (lit ''amsg'')"
| "id_prefix (Reasoning _ _ _ _ _) = Some (lit ''rs'')"
| "id_prefix (LocalShellCall _ _ _ _ _) = Some (lit ''lsh'')"
| "id_prefix (FunctionCall _ _ _ _ _ _ _) = Some (lit ''fc'')"
| "id_prefix (ToolSearchCall _ _ _ _ _ _) = Some (lit ''tsc'')"
| "id_prefix (FunctionCallOutput _ _ _ _ _ _) = Some (lit ''fco'')"
| "id_prefix (CustomToolCall _ _ _ _ _ _ _) = Some (lit ''ctc'')"
| "id_prefix (CustomToolCallOutput _ _ _ _ _) = Some (lit ''ctco'')"
| "id_prefix (ToolSearchOutput _ _ _ _ _ _) = Some (lit ''tso'')"
| "id_prefix (WebSearchCall _ _ _ _) = Some (lit ''ws'')"
| "id_prefix (ImageGenerationCall _ _ _ _ _) = Some (lit ''ig'')"
| "id_prefix (Compaction _ _ _) = Some (lit ''cmp'')"
| "id_prefix (ContextCompaction _ _ _) = Some (lit ''cmp'')"
| "id_prefix (ConfigurationUpdate _) = None"
| "id_prefix CompactionTrigger = None"
| "id_prefix OtherItem = None"

text \<open>
  \<open>internal_chat_message_metadata_passthrough_mut\<close>: the slot of the passthrough metadata, for the
  variants that have one, and the item with the slot written.
\<close>

fun passthrough_slot :: "('j, 't) ResponseItem \<Rightarrow> ('j, 't) passthrough option option" where
  "passthrough_slot (Message _ _ _ _ md) = Some md"
| "passthrough_slot (AgentMessage _ _ _ _ md) = Some md"
| "passthrough_slot (Reasoning _ _ _ _ md) = Some md"
| "passthrough_slot (LocalShellCall _ _ _ _ md) = Some md"
| "passthrough_slot (FunctionCall _ _ _ _ _ _ md) = Some md"
| "passthrough_slot (ToolSearchCall _ _ _ _ _ md) = Some md"
| "passthrough_slot (FunctionCallOutput _ _ _ _ _ md) = Some md"
| "passthrough_slot (CustomToolCall _ _ _ _ _ _ md) = Some md"
| "passthrough_slot (CustomToolCallOutput _ _ _ _ md) = Some md"
| "passthrough_slot (ToolSearchOutput _ _ _ _ _ md) = Some md"
| "passthrough_slot (WebSearchCall _ _ _ md) = Some md"
| "passthrough_slot (ImageGenerationCall _ _ _ _ md) = Some md"
| "passthrough_slot (Compaction _ _ md) = Some md"
| "passthrough_slot (ContextCompaction _ _ md) = Some md"
| "passthrough_slot (ConfigurationUpdate _) = None"
| "passthrough_slot CompactionTrigger = None"
| "passthrough_slot (AdditionalTools _ _ _) = None"
| "passthrough_slot OtherItem = None"

fun set_passthrough :: "('j, 't) passthrough option \<Rightarrow> ('j, 't) ResponseItem \<Rightarrow> ('j, 't) ResponseItem" where
  "set_passthrough md (Message i role content phase _) = Message i role content phase md"
| "set_passthrough md (AgentMessage i author recipient content _) = AgentMessage i author recipient content md"
| "set_passthrough md (Reasoning i summary content enc _) = Reasoning i summary content enc md"
| "set_passthrough md (LocalShellCall i call_id status action _) = LocalShellCall i call_id status action md"
| "set_passthrough md (FunctionCall i nm namespace arguments enc call_id _) =
     FunctionCall i nm namespace arguments enc call_id md"
| "set_passthrough md (ToolSearchCall i call_id status execution arguments _) =
     ToolSearchCall i call_id status execution arguments md"
| "set_passthrough md (FunctionCallOutput i call_id nm namespace output _) =
     FunctionCallOutput i call_id nm namespace output md"
| "set_passthrough md (CustomToolCall i status call_id nm namespace input _) =
     CustomToolCall i status call_id nm namespace input md"
| "set_passthrough md (CustomToolCallOutput i call_id nm output _) = CustomToolCallOutput i call_id nm output md"
| "set_passthrough md (ToolSearchOutput i call_id status execution tools _) =
     ToolSearchOutput i call_id status execution tools md"
| "set_passthrough md (WebSearchCall i status action _) = WebSearchCall i status action md"
| "set_passthrough md (ImageGenerationCall i status prompt res _) = ImageGenerationCall i status prompt res md"
| "set_passthrough md (Compaction i enc _) = Compaction i enc md"
| "set_passthrough md (ContextCompaction i enc _) = ContextCompaction i enc md"
| "set_passthrough md (ConfigurationUpdate r) = ConfigurationUpdate r"
| "set_passthrough md CompactionTrigger = CompactionTrigger"
| "set_passthrough md (AdditionalTools i role tools) = AdditionalTools i role tools"
| "set_passthrough md OtherItem = OtherItem"

definition turn_id :: "('j, 't) ResponseItem \<Rightarrow> rstr option" where
  "turn_id i =
     (case passthrough_slot i of
        Some (Some md) \<Rightarrow>
          (case turn_id_field md of Some t \<Rightarrow> if t \<noteq> [] then Some t else None | None \<Rightarrow> None)
      | _ \<Rightarrow> None)"

definition passthrough_set_turn_id_if_missing ::
  "('j, 't) passthrough option \<Rightarrow> rstr \<Rightarrow> ('j, 't) passthrough option" where
  "passthrough_set_turn_id_if_missing md t =
     (if t = [] \<or>
         (case md of None \<Rightarrow> False
          | Some m \<Rightarrow> (case turn_id_field m of None \<Rightarrow> False | Some old \<Rightarrow> old \<noteq> []))
      then md
      else Some ((case md of None \<Rightarrow> default_passthrough | Some m \<Rightarrow> m)\<lparr>turn_id_field := Some t\<rparr>))"

definition set_turn_id_if_missing :: "('j, 't) ResponseItem \<Rightarrow> rstr \<Rightarrow> ('j, 't) ResponseItem" where
  "set_turn_id_if_missing i t =
     (case passthrough_slot i of
        None \<Rightarrow> i
      | Some md \<Rightarrow> set_passthrough (passthrough_set_turn_id_if_missing md t) i)"

definition clear_passthrough :: "('j, 't) ResponseItem \<Rightarrow> ('j, 't) ResponseItem" where
  "clear_passthrough i = (case passthrough_slot i of None \<Rightarrow> i | Some _ \<Rightarrow> set_passthrough None i)"

definition clear_content_item_kinds :: "('j, 't) ResponseItem \<Rightarrow> ('j, 't) ResponseItem" where
  "clear_content_item_kinds i =
     (case passthrough_slot i of
        Some (Some md) \<Rightarrow>
          (let md1 = md\<lparr>content_item_kinds := None\<rparr> in
           set_passthrough (if md1 = default_passthrough then None else Some md1) i)
      | _ \<Rightarrow> i)"

subsection \<open>Annotated content\<close>

record annotated_content =
  content :: ContentItem
  kind :: ContentItemKind

definition unknown_kind :: ContentItemKind where
  "unknown_kind = ContentItemKind (lit ''unknown'')"

text \<open>
  \<open>to_annotated_content\<close> takes the content out of the message; every caller here writes it back
  with \<open>set_annotated_content\<close>, so the emptied message in between is not a value of its own. The
  kinds are continued with \<open>unknown\<close> for as long as there is content.
\<close>

definition annotate :: "ContentItem list \<Rightarrow> ContentItemKind list \<Rightarrow> annotated_content list" where
  "annotate cs ks =
     map (\<lambda>(c, k). \<lparr>content = c, kind = k\<rparr>)
       (zip cs (ks @ replicate (length cs - length ks) unknown_kind))"

fun to_annotated_content :: "('j, 't) ResponseItem \<Rightarrow> annotated_content list option" where
  "to_annotated_content (Message _ _ cs _ md) =
     Some (annotate cs
       (case md of None \<Rightarrow> []
        | Some m \<Rightarrow> (case content_item_kinds m of None \<Rightarrow> [] | Some ks \<Rightarrow> ks)))"
| "to_annotated_content _ = None"

fun set_annotated_content :: "('j, 't) ResponseItem \<Rightarrow> annotated_content list \<Rightarrow> ('j, 't) ResponseItem option" where
  "set_annotated_content (Message i role _ phase md) acs =
     Some (Message i role (map content acs) phase
       (Some ((case md of None \<Rightarrow> default_passthrough | Some m \<Rightarrow> m)
          \<lparr>content_item_kinds := Some (map kind acs)\<rparr>)))"
| "set_annotated_content _ _ = None"

section \<open>Identifiers and turns\<close>

text \<open>An item has a slot for an identifier exactly when it has an identifier prefix.\<close>

lemma item_id_set_id:
  "item_id (set_id i n) = (if id_prefix i = None then None else n)"
  by (cases i) auto

lemma set_id_other [simp]:
  "passthrough_slot (set_id i n) = passthrough_slot i" "id_prefix (set_id i n) = id_prefix i"
  by (cases i; simp)+

lemma set_id_set_id [simp]: "set_id (set_id i n) m = set_id i m"
  by (cases i) auto

lemma passthrough_slot_set [simp]:
  "passthrough_slot (set_passthrough md i) = map_option (\<lambda>_. md) (passthrough_slot i)"
  by (cases i) auto

lemma set_passthrough_same: "passthrough_slot i = Some md \<Longrightarrow> set_passthrough md i = i"
  by (cases i) auto

lemma set_passthrough_id [simp]: "item_id (set_passthrough md i) = item_id i"
  by (cases i) auto

text \<open>
  Stamping a turn on an item: a first stamp with a non-empty turn is what \<open>turn_id\<close> then reads,
  a later one changes nothing.
\<close>

theorem turn_id_set_if_missing:
  assumes "passthrough_slot i \<noteq> None"
  shows "turn_id (set_turn_id_if_missing i t) =
    (case turn_id i of None \<Rightarrow> if t = [] then None else Some t | Some old \<Rightarrow> Some old)"
  using assms
  by (auto simp: turn_id_def set_turn_id_if_missing_def passthrough_set_turn_id_if_missing_def
      split: option.splits)

theorem set_turn_id_if_missing_idem:
  "t \<noteq> [] \<Longrightarrow> u \<noteq> [] \<Longrightarrow>
   set_turn_id_if_missing (set_turn_id_if_missing i t) u = set_turn_id_if_missing i t"
  by (auto simp: set_turn_id_if_missing_def passthrough_set_turn_id_if_missing_def set_passthrough_same
      split: option.splits)

section \<open>Annotated content\<close>

lemma annotate_content [simp]: "map content (annotate cs ks) = cs"
  by (simp add: annotate_def comp_def split_def map_fst_zip_take)

lemma length_annotate [simp]: "length (annotate cs ks) = length cs"
  by (simp add: annotate_def)

lemma annotate_kinds:
  "map kind (annotate cs ks) = take (length cs) ks @ replicate (length cs - length ks) unknown_kind"
  by (simp add: annotate_def comp_def split_def map_snd_zip_take)

lemma annotate_annotated [simp]: "annotate (map content acs) (map kind acs) = acs"
  by (induction acs) (auto simp: annotate_def)

text \<open>What is set is what is read back, and the number of kinds then equals the number of items.\<close>

lemma to_set_annotated_content:
  "set_annotated_content i acs = Some i' \<Longrightarrow> to_annotated_content i' = Some acs"
  by (cases i) auto

end
