(* ===== verification/Context_Normalize.thy ===== *)
theory Context_Normalize
  imports Response_Item
begin

text \<open>
  \<open>core/src/context_manager/normalize.rs\<close> and the operations of \<open>history.rs\<close> that call it: what
  is done to a conversation before it is sent to the model, so that every tool call has an output,
  every output a call, and no content of a kind the model does not take.

  \<open>None\<close> is a panic. \<open>error_or_panic\<close> panics in a build with debug assertions and only logs
  otherwise: the first argument, \<open>debug_assertions\<close>, is that choice. \<open>Uuid::new_v5\<close> of the
  \<open>uuid\<close> crate, displayed, is the argument \<open>new_v5\<close>, of a namespace and a name.
\<close>

section \<open>Model\<close>

datatype InputModality = ModText | ModImage | ModAudio

definition SYNTHETIC_OUTPUT_ID_NAMESPACE :: nat where
  "SYNTHETIC_OUTPUT_ID_NAMESPACE = 0x90d38d3e6a5b4d52bfe22f1e634bfac4"

definition synthetic_output_id :: "(nat \<Rightarrow> rstr \<Rightarrow> rstr) \<Rightarrow> rstr \<Rightarrow> rstr option \<Rightarrow> rstr option" where
  "synthetic_output_id new_v5 pre source =
     (case source of
        None \<Rightarrow> None
      | Some source_id \<Rightarrow>
          if source_id = [] then None
          else Some (pre @ lit ''_'' @
            new_v5 SYNTHETIC_OUTPUT_ID_NAMESPACE (pre @ lit '':'' @ source_id)))"

definition error_or_panic :: "bool \<Rightarrow> unit option" where
  "error_or_panic debug_assertions = (if debug_assertions then None else Some ())"

definition from_text :: "rstr \<Rightarrow> FunctionCallOutputPayload" where
  "from_text t = \<lparr>body = BodyText t, success = None\<rparr>"

text \<open>The identifiers of the outputs, and of the calls, in the three hash sets of the source.\<close>

record id_sets =
  function_ids :: "rstr set"
  tool_search_ids :: "rstr set"
  custom_tool_ids :: "rstr set"

definition no_ids :: id_sets where
  "no_ids = \<lparr>function_ids = {}, tool_search_ids = {}, custom_tool_ids = {}\<rparr>"

fun note_output :: "id_sets \<Rightarrow> ('j, 't) ResponseItem \<Rightarrow> id_sets" where
  "note_output s (FunctionCallOutput _ (Some c) _ _ _ _) = s\<lparr>function_ids := insert c (function_ids s)\<rparr>"
| "note_output s (ToolSearchOutput _ (Some c) _ _ _ _) = s\<lparr>tool_search_ids := insert c (tool_search_ids s)\<rparr>"
| "note_output s (CustomToolCallOutput _ c _ _ _) = s\<lparr>custom_tool_ids := insert c (custom_tool_ids s)\<rparr>"
| "note_output s _ = s"

definition output_ids :: "('j, 't, 'm) envelope list \<Rightarrow> id_sets" where
  "output_ids items = foldl (\<lambda>s e. note_output s (item e)) no_ids items"

fun note_call :: "id_sets \<Rightarrow> ('j, 't) ResponseItem \<Rightarrow> id_sets" where
  "note_call s (FunctionCall _ _ _ _ _ c _) = s\<lparr>function_ids := insert c (function_ids s)\<rparr>"
| "note_call s (LocalShellCall _ (Some c) _ _ _) = s\<lparr>function_ids := insert c (function_ids s)\<rparr>"
| "note_call s (ToolSearchCall _ (Some c) _ _ _ _) = s\<lparr>tool_search_ids := insert c (tool_search_ids s)\<rparr>"
| "note_call s (CustomToolCall _ _ c _ _ _ _) = s\<lparr>custom_tool_ids := insert c (custom_tool_ids s)\<rparr>"
| "note_call s _ = s"

definition call_ids :: "('j, 't, 'm) envelope list \<Rightarrow> id_sets" where
  "call_ids items = foldl (\<lambda>s e. note_call s (item e)) no_ids items"

subsection \<open>Missing outputs\<close>

text \<open>
  The output to insert after a call that has none, with whether the source reports the case
  through \<open>error_or_panic\<close> (custom tools and local shells) or only as information.
\<close>

fun missing_output :: "(nat \<Rightarrow> rstr \<Rightarrow> rstr) \<Rightarrow> id_sets \<Rightarrow> ('j, 't) ResponseItem \<Rightarrow>
    (bool \<times> ('j, 't) ResponseItem) option" where
  "missing_output v5 outs (FunctionCall i _ _ _ _ c _) =
     (if c \<in> function_ids outs then None
      else Some (False, FunctionCallOutput (synthetic_output_id v5 (lit ''fco'') i) (Some c) None None
        (from_text (lit ''aborted'')) None))"
| "missing_output v5 outs (ToolSearchCall i (Some c) _ _ _ _) =
     (if c \<in> tool_search_ids outs then None
      else Some (False, ToolSearchOutput (synthetic_output_id v5 (lit ''tso'') i) (Some c)
        (lit ''completed'') (lit ''client'') [] None))"
| "missing_output v5 outs (CustomToolCall i _ c _ _ _ _) =
     (if c \<in> custom_tool_ids outs then None
      else Some (True, CustomToolCallOutput (synthetic_output_id v5 (lit ''ctco'') i) c None
        (from_text (lit ''aborted'')) None))"
| "missing_output v5 outs (LocalShellCall i (Some c) _ _ _) =
     (if c \<in> function_ids outs then None
      else Some (True, FunctionCallOutput (synthetic_output_id v5 (lit ''fco'') i) (Some c) None None
        (from_text (lit ''aborted'')) None))"
| "missing_output v5 outs _ = None"

fun missing_outputs_to_insert :: "bool \<Rightarrow> (nat \<Rightarrow> rstr \<Rightarrow> rstr) \<Rightarrow> id_sets \<Rightarrow> nat \<Rightarrow>
    ('j, 't, 'm) envelope list \<Rightarrow> (nat \<times> ('j, 't, 'm) envelope) list option" where
  "missing_outputs_to_insert debug v5 outs idx [] = Some []"
| "missing_outputs_to_insert debug v5 outs idx (e # es) =
     (case missing_output v5 outs (item e) of
        None \<Rightarrow> missing_outputs_to_insert debug v5 outs (idx + 1) es
      | Some (reported, out) \<Rightarrow>
          (case (if reported then error_or_panic debug else Some ()) of
             None \<Rightarrow> None
           | Some _ \<Rightarrow>
               map_option ((#) (idx, new_envelope out)) (missing_outputs_to_insert debug v5 outs (idx + 1) es)))"

text \<open>\<open>Vec::insert\<close>, which panics beyond the end.\<close>

definition vec_insert :: "nat \<Rightarrow> 'a \<Rightarrow> 'a list \<Rightarrow> 'a list option" where
  "vec_insert i x xs = (if i \<le> length xs then Some (take i xs @ x # drop i xs) else None)"

fun insert_outputs :: "(nat \<times> 'e) list \<Rightarrow> 'e list \<Rightarrow> 'e list option" where
  "insert_outputs [] items = Some items"
| "insert_outputs ((idx, out) # rest) items =
     (case vec_insert (idx + 1) out items of
        None \<Rightarrow> None
      | Some items1 \<Rightarrow> insert_outputs rest items1)"

definition ensure_call_outputs_present ::
  "bool \<Rightarrow> (nat \<Rightarrow> rstr \<Rightarrow> rstr) \<Rightarrow> ('j, 't, 'm) envelope list \<Rightarrow> ('j, 't, 'm) envelope list option" where
  "ensure_call_outputs_present debug v5 items =
     (case missing_outputs_to_insert debug v5 (output_ids items) 0 items of
        None \<Rightarrow> None
      | Some missing \<Rightarrow> insert_outputs (rev missing) items)"

subsection \<open>Orphan outputs\<close>

fun is_orphan :: "id_sets \<Rightarrow> ('j, 't) ResponseItem \<Rightarrow> bool" where
  "is_orphan calls (FunctionCallOutput _ (Some c) _ _ _ _) \<longleftrightarrow> c \<notin> function_ids calls"
| "is_orphan calls (CustomToolCallOutput _ c _ _ _) \<longleftrightarrow> c \<notin> custom_tool_ids calls"
| "is_orphan calls (ToolSearchOutput _ (Some c) _ execution _ _) \<longleftrightarrow>
     execution \<noteq> lit ''server'' \<and> c \<notin> tool_search_ids calls"
| "is_orphan calls _ \<longleftrightarrow> False"

fun orphan_positions :: "bool \<Rightarrow> id_sets \<Rightarrow> nat \<Rightarrow> ('j, 't, 'm) envelope list \<Rightarrow> nat list option" where
  "orphan_positions debug calls pos [] = Some []"
| "orphan_positions debug calls pos (e # es) =
     (if is_orphan calls (item e) then
        (case error_or_panic debug of
           None \<Rightarrow> None
         | Some _ \<Rightarrow> map_option ((#) pos) (orphan_positions debug calls (pos + 1) es))
      else orphan_positions debug calls (pos + 1) es)"

text \<open>The \<open>retain\<close> closure: the position counts up and the next orphan is peeked at.\<close>

fun retain_loop :: "nat list \<Rightarrow> nat \<Rightarrow> 'e list \<Rightarrow> 'e list" where
  "retain_loop orphans pos [] = []"
| "retain_loop [] pos (x # xs) = x # retain_loop [] (pos + 1) xs"
| "retain_loop (o1 # orphans) pos (x # xs) =
     (if o1 = pos then retain_loop orphans (pos + 1) xs
      else x # retain_loop (o1 # orphans) (pos + 1) xs)"

definition remove_orphan_outputs ::
  "bool \<Rightarrow> ('j, 't, 'm) envelope list \<Rightarrow> ('j, 't, 'm) envelope list option" where
  "remove_orphan_outputs debug items =
     (case orphan_positions debug (call_ids items) 0 items of
        None \<Rightarrow> None
      | Some orphans \<Rightarrow> Some (if orphans = [] then items else retain_loop orphans 0 items))"

subsection \<open>Removing the counterpart of an item\<close>

fun position :: "('a \<Rightarrow> bool) \<Rightarrow> 'a list \<Rightarrow> nat option" where
  "position P [] = None"
| "position P (x # xs) = (if P x then Some 0 else map_option Suc (position P xs))"

definition vec_remove :: "nat \<Rightarrow> 'a list \<Rightarrow> 'a list" where
  "vec_remove i xs = take i xs @ drop (i + 1) xs"

definition remove_first_matching ::
  "('j, 't, 'm) envelope list \<Rightarrow> (('j, 't) ResponseItem \<Rightarrow> bool) \<Rightarrow> ('j, 't, 'm) envelope list" where
  "remove_first_matching items predicate =
     (case position (\<lambda>e. predicate (item e)) items of None \<Rightarrow> items | Some pos \<Rightarrow> vec_remove pos items)"

fun is_function_output :: "rstr \<Rightarrow> ('j, 't) ResponseItem \<Rightarrow> bool" where
  "is_function_output c (FunctionCallOutput _ (Some existing) _ _ _ _) \<longleftrightarrow> existing = c"
| "is_function_output c _ \<longleftrightarrow> False"

fun is_function_call :: "rstr \<Rightarrow> ('j, 't) ResponseItem \<Rightarrow> bool" where
  "is_function_call c (FunctionCall _ _ _ _ _ existing _) \<longleftrightarrow> existing = c"
| "is_function_call c _ \<longleftrightarrow> False"

fun is_local_shell_call :: "rstr \<Rightarrow> ('j, 't) ResponseItem \<Rightarrow> bool" where
  "is_local_shell_call c (LocalShellCall _ (Some existing) _ _ _) \<longleftrightarrow> existing = c"
| "is_local_shell_call c _ \<longleftrightarrow> False"

fun is_tool_search_call :: "rstr \<Rightarrow> ('j, 't) ResponseItem \<Rightarrow> bool" where
  "is_tool_search_call c (ToolSearchCall _ (Some existing) _ _ _ _) \<longleftrightarrow> existing = c"
| "is_tool_search_call c _ \<longleftrightarrow> False"

fun is_tool_search_output :: "rstr \<Rightarrow> ('j, 't) ResponseItem \<Rightarrow> bool" where
  "is_tool_search_output c (ToolSearchOutput _ (Some existing) _ _ _ _) \<longleftrightarrow> existing = c"
| "is_tool_search_output c _ \<longleftrightarrow> False"

fun is_custom_tool_call :: "rstr \<Rightarrow> ('j, 't) ResponseItem \<Rightarrow> bool" where
  "is_custom_tool_call c (CustomToolCall _ _ existing _ _ _ _) \<longleftrightarrow> existing = c"
| "is_custom_tool_call c _ \<longleftrightarrow> False"

fun is_custom_tool_output :: "rstr \<Rightarrow> ('j, 't) ResponseItem \<Rightarrow> bool" where
  "is_custom_tool_output c (CustomToolCallOutput _ existing _ _ _) \<longleftrightarrow> existing = c"
| "is_custom_tool_output c _ \<longleftrightarrow> False"

fun remove_corresponding_for ::
  "('j, 't, 'm) envelope list \<Rightarrow> ('j, 't) ResponseItem \<Rightarrow> ('j, 't, 'm) envelope list" where
  "remove_corresponding_for items (FunctionCall _ _ _ _ _ c _) =
     remove_first_matching items (is_function_output c)"
| "remove_corresponding_for items (FunctionCallOutput _ (Some c) _ _ _ _) =
     (case position (\<lambda>e. is_function_call c (item e)) items of
        Some pos \<Rightarrow> vec_remove pos items
      | None \<Rightarrow>
          (case position (\<lambda>e. is_local_shell_call c (item e)) items of
             Some pos \<Rightarrow> vec_remove pos items
           | None \<Rightarrow> items))"
| "remove_corresponding_for items (ToolSearchCall _ (Some c) _ _ _ _) =
     remove_first_matching items (is_tool_search_output c)"
| "remove_corresponding_for items (ToolSearchOutput _ (Some c) _ _ _ _) =
     remove_first_matching items (is_tool_search_call c)"
| "remove_corresponding_for items (CustomToolCall _ _ c _ _ _ _) =
     remove_first_matching items (is_custom_tool_output c)"
| "remove_corresponding_for items (CustomToolCallOutput _ c _ _ _) =
     remove_first_matching items (is_custom_tool_call c)"
| "remove_corresponding_for items (LocalShellCall _ (Some c) _ _ _) =
     remove_first_matching items (is_function_output c)"
| "remove_corresponding_for items _ = items"

subsection \<open>Unsupported media\<close>

record UnsupportedMedia =
  media_text :: rstr
  media_content_kind :: rstr

definition UNSUPPORTED_IMAGE :: UnsupportedMedia where
  "UNSUPPORTED_IMAGE =
     \<lparr>media_text = lit ''image content omitted because you do not support image input'',
      media_content_kind = lit ''images.unsupported''\<rparr>"

definition UNSUPPORTED_AUDIO :: UnsupportedMedia where
  "UNSUPPORTED_AUDIO =
     \<lparr>media_text = lit ''audio content omitted because you do not support audio input'',
      media_content_kind = lit ''audio.unsupported''\<rparr>"

text \<open>The markers of this fragment are empty, so it renders as its body.\<close>

definition media_render :: "UnsupportedMedia \<Rightarrow> rstr" where
  "media_render m = media_text m"

definition media_fragment :: "UnsupportedMedia \<Rightarrow> annotated_content" where
  "media_fragment m =
     \<lparr>content = MsgInputText (media_render m), kind = ContentItemKind (media_content_kind m)\<rparr>"

fun is_input_image :: "ContentItem \<Rightarrow> bool" where
  "is_input_image (MsgInputImage _ _) \<longleftrightarrow> True"
| "is_input_image _ \<longleftrightarrow> False"

fun is_input_audio :: "ContentItem \<Rightarrow> bool" where
  "is_input_audio (MsgInputAudio _) \<longleftrightarrow> True"
| "is_input_audio _ \<longleftrightarrow> False"

definition strip_message ::
  "(ContentItem \<Rightarrow> bool) \<Rightarrow> UnsupportedMedia \<Rightarrow> ('j, 't) ResponseItem \<Rightarrow> ('j, 't) ResponseItem" where
  "strip_message unsupported media i =
     (case to_annotated_content i of
        None \<Rightarrow> i
      | Some acs \<Rightarrow>
          (case set_annotated_content i
              (map (\<lambda>ac. if unsupported (content ac) then media_fragment media else ac) acs) of
             None \<Rightarrow> i
           | Some i1 \<Rightarrow> i1))"

fun image_to_text :: "FunctionCallOutputContentItem \<Rightarrow> FunctionCallOutputContentItem" where
  "image_to_text (InputImage _ _) = InputText (media_render UNSUPPORTED_IMAGE)"
| "image_to_text c = c"

fun audio_to_text :: "FunctionCallOutputContentItem \<Rightarrow> FunctionCallOutputContentItem" where
  "audio_to_text (InputAudio _) = InputText (media_render UNSUPPORTED_AUDIO)"
| "audio_to_text c = c"

definition strip_output ::
  "(FunctionCallOutputContentItem \<Rightarrow> FunctionCallOutputContentItem) \<Rightarrow>
   FunctionCallOutputPayload \<Rightarrow> FunctionCallOutputPayload" where
  "strip_output f output =
     (case body output of
        BodyText _ \<Rightarrow> output
      | ContentItems content_items \<Rightarrow> output\<lparr>body := ContentItems (map f content_items)\<rparr>)"

fun strip_images_item :: "('j, 't) ResponseItem \<Rightarrow> ('j, 't) ResponseItem" where
  "strip_images_item (Message i role cs phase md) =
     strip_message is_input_image UNSUPPORTED_IMAGE (Message i role cs phase md)"
| "strip_images_item (FunctionCallOutput i c nm namespace output md) =
     FunctionCallOutput i c nm namespace (strip_output image_to_text output) md"
| "strip_images_item (CustomToolCallOutput i c nm output md) =
     CustomToolCallOutput i c nm (strip_output image_to_text output) md"
| "strip_images_item (ImageGenerationCall i status prompt res md) = ImageGenerationCall i status prompt [] md"
| "strip_images_item other = other"

fun strip_audio_item :: "('j, 't) ResponseItem \<Rightarrow> ('j, 't) ResponseItem" where
  "strip_audio_item (Message i role cs phase md) =
     strip_message is_input_audio UNSUPPORTED_AUDIO (Message i role cs phase md)"
| "strip_audio_item (FunctionCallOutput i c nm namespace output md) =
     FunctionCallOutput i c nm namespace (strip_output audio_to_text output) md"
| "strip_audio_item (CustomToolCallOutput i c nm output md) =
     CustomToolCallOutput i c nm (strip_output audio_to_text output) md"
| "strip_audio_item other = other"

definition strip_images_when_unsupported ::
  "InputModality list \<Rightarrow> ('j, 't, 'm) envelope list \<Rightarrow> ('j, 't, 'm) envelope list" where
  "strip_images_when_unsupported input_modalities items =
     (if ModImage \<in> set input_modalities then items else map (item_update strip_images_item) items)"

definition strip_audio_when_unsupported ::
  "InputModality list \<Rightarrow> ('j, 't, 'm) envelope list \<Rightarrow> ('j, 't, 'm) envelope list" where
  "strip_audio_when_unsupported input_modalities items =
     (if ModAudio \<in> set input_modalities then items else map (item_update strip_audio_item) items)"

subsection \<open>The history\<close>

text \<open>
  The fields of \<open>ContextManager\<close> that the operations below read or write: the items, oldest first,
  and the world state last shown to the model, of a type \<open>'w\<close> that is only reset here.
\<close>

record ('j, 't, 'm, 'w) ContextManager =
  history_items :: "('j, 't, 'm) envelope list"
  world_state_baseline :: "'w option"

definition normalize_history ::
  "bool \<Rightarrow> (nat \<Rightarrow> rstr \<Rightarrow> rstr) \<Rightarrow> InputModality list \<Rightarrow> ('j, 't, 'm, 'w) ContextManager \<Rightarrow>
   ('j, 't, 'm, 'w) ContextManager option" where
  "normalize_history debug v5 input_modalities cm =
     (case ensure_call_outputs_present debug v5 (history_items cm) of
        None \<Rightarrow> None
      | Some items1 \<Rightarrow>
          (case remove_orphan_outputs debug items1 of
             None \<Rightarrow> None
           | Some items2 \<Rightarrow>
               Some (cm\<lparr>history_items := strip_audio_when_unsupported input_modalities
                   (strip_images_when_unsupported input_modalities items2)\<rparr>)))"

definition for_prompt_annotated ::
  "bool \<Rightarrow> (nat \<Rightarrow> rstr \<Rightarrow> rstr) \<Rightarrow> InputModality list \<Rightarrow> ('j, 't, 'm, 'w) ContextManager \<Rightarrow>
   ('j, 't, 'm) envelope list option" where
  "for_prompt_annotated debug v5 input_modalities cm =
     map_option history_items (normalize_history debug v5 input_modalities cm)"

definition for_prompt ::
  "bool \<Rightarrow> (nat \<Rightarrow> rstr \<Rightarrow> rstr) \<Rightarrow> InputModality list \<Rightarrow> ('j, 't, 'm, 'w) ContextManager \<Rightarrow>
   ('j, 't) ResponseItem list option" where
  "for_prompt debug v5 input_modalities cm =
     map_option (map item) (for_prompt_annotated debug v5 input_modalities cm)"

definition remove_first_item :: "('j, 't, 'm, 'w) ContextManager \<Rightarrow> ('j, 't, 'm, 'w) ContextManager" where
  "remove_first_item cm =
     (case history_items cm of
        [] \<Rightarrow> cm
      | removed # items \<Rightarrow>
          cm\<lparr>history_items := remove_corresponding_for items (item removed), world_state_baseline := None\<rparr>)"

section \<open>Keys\<close>

text \<open>
  What pairs a call with an output: the channel, since local shells share the outputs of functions,
  and the call identifier. \<open>needs_call\<close> is the key of an output that may not stand alone, which
  every output with an identifier is except one of a tool search the server ran.
\<close>

datatype channel = FunctionChannel | ToolSearchChannel | CustomChannel

fun call_key :: "('j, 't) ResponseItem \<Rightarrow> (channel \<times> rstr) option" where
  "call_key (FunctionCall _ _ _ _ _ c _) = Some (FunctionChannel, c)"
| "call_key (LocalShellCall _ (Some c) _ _ _) = Some (FunctionChannel, c)"
| "call_key (ToolSearchCall _ (Some c) _ _ _ _) = Some (ToolSearchChannel, c)"
| "call_key (CustomToolCall _ _ c _ _ _ _) = Some (CustomChannel, c)"
| "call_key _ = None"

fun output_key :: "('j, 't) ResponseItem \<Rightarrow> (channel \<times> rstr) option" where
  "output_key (FunctionCallOutput _ (Some c) _ _ _ _) = Some (FunctionChannel, c)"
| "output_key (ToolSearchOutput _ (Some c) _ _ _ _) = Some (ToolSearchChannel, c)"
| "output_key (CustomToolCallOutput _ c _ _ _) = Some (CustomChannel, c)"
| "output_key _ = None"

fun needs_call :: "('j, 't) ResponseItem \<Rightarrow> (channel \<times> rstr) option" where
  "needs_call (ToolSearchOutput i c status execution tools md) =
     (if execution = lit ''server'' then None else output_key (ToolSearchOutput i c status execution tools md))"
| "needs_call i = output_key i"

definition call_keys :: "('j, 't) ResponseItem list \<Rightarrow> (channel \<times> rstr) set" where
  "call_keys is = \<Union> (set (map (\<lambda>i. set_option (call_key i)) is))"

definition output_keys :: "('j, 't) ResponseItem list \<Rightarrow> (channel \<times> rstr) set" where
  "output_keys is = \<Union> (set (map (\<lambda>i. set_option (output_key i)) is))"

definition needed_keys :: "('j, 't) ResponseItem list \<Rightarrow> (channel \<times> rstr) set" where
  "needed_keys is = \<Union> (set (map (\<lambda>i. set_option (needs_call i)) is))"

text \<open>Every call has an output, and every output that needs one has a call.\<close>

definition history_paired :: "('j, 't) ResponseItem list \<Rightarrow> bool" where
  "history_paired is \<longleftrightarrow> call_keys is \<subseteq> output_keys is \<and> needed_keys is \<subseteq> call_keys is"

lemma keys_simps [simp]:
  "call_keys [] = {}" "call_keys (i # is) = set_option (call_key i) \<union> call_keys is"
  "call_keys (is @ js) = call_keys is \<union> call_keys js"
  "output_keys [] = {}" "output_keys (i # is) = set_option (output_key i) \<union> output_keys is"
  "output_keys (is @ js) = output_keys is \<union> output_keys js"
  "needed_keys [] = {}" "needed_keys (i # is) = set_option (needs_call i) \<union> needed_keys is"
  "needed_keys (is @ js) = needed_keys is \<union> needed_keys js"
  by (simp_all add: call_keys_def output_keys_def needed_keys_def)

lemma needs_call_output: "needs_call i = Some k \<Longrightarrow> output_key i = Some k"
  by (cases i) (auto split: if_splits)

lemma call_not_output: "call_key i = Some k \<Longrightarrow> output_key i = None"
  by (cases i) auto

lemma output_not_call: "output_key i = Some k \<Longrightarrow> call_key i = None"
  by (cases i) auto

lemma needs_call_output_subset: "set_option (needs_call i) \<subseteq> set_option (output_key i)"
  by (auto dest: needs_call_output)

lemma needed_subset: "needed_keys is \<subseteq> output_keys is"
proof (induction "is")
  case (Cons i "is")
  then show ?case using needs_call_output_subset [of i] by auto
qed simp

text \<open>The hash sets of the source hold these keys.\<close>

definition ids_of :: "(channel \<times> rstr) set \<Rightarrow> id_sets" where
  "ids_of K =
     \<lparr>function_ids = {c. (FunctionChannel, c) \<in> K}, tool_search_ids = {c. (ToolSearchChannel, c) \<in> K},
      custom_tool_ids = {c. (CustomChannel, c) \<in> K}\<rparr>"

lemma note_output_keys: "note_output (ids_of K) i = ids_of (K \<union> set_option (output_key i))"
  by (induction "ids_of K" i rule: note_output.induct) (auto simp: ids_of_def)

lemma note_call_keys: "note_call (ids_of K) i = ids_of (K \<union> set_option (call_key i))"
  by (induction "ids_of K" i rule: note_call.induct) (auto simp: ids_of_def)

lemma no_ids_keys: "no_ids = ids_of {}"
  by (simp add: no_ids_def ids_of_def)

lemma foldl_note_output:
  "foldl (\<lambda>s e. note_output s (item e)) (ids_of K) es = ids_of (K \<union> output_keys (map item es))"
  by (induction es arbitrary: K) (simp_all add: note_output_keys Un_assoc)

lemma foldl_note_call:
  "foldl (\<lambda>s e. note_call s (item e)) (ids_of K) es = ids_of (K \<union> call_keys (map item es))"
  by (induction es arbitrary: K) (simp_all add: note_call_keys Un_assoc)

lemma output_ids_keys: "output_ids es = ids_of (output_keys (map item es))"
  by (simp add: output_ids_def no_ids_keys foldl_note_output)

lemma call_ids_keys: "call_ids es = ids_of (call_keys (map item es))"
  by (simp add: call_ids_def no_ids_keys foldl_note_call)

lemma missing_output_None:
  "missing_output v5 (ids_of K) i = None \<longleftrightarrow> set_option (call_key i) \<subseteq> K"
  by (induction v5 "ids_of K" i rule: missing_output.induct) (auto simp: ids_of_def)

lemma missing_output_Some:
  "missing_output v5 (ids_of K) i = Some (r, out) \<Longrightarrow>
   \<exists>k. call_key i = Some k \<and> k \<notin> K \<and> call_key out = None \<and> output_key out = Some k \<and> needs_call out = Some k"
  by (induction v5 "ids_of K" i rule: missing_output.induct)
    (auto simp: ids_of_def lit_eval split: if_splits)

lemma is_orphan_keys: "is_orphan (ids_of K) i \<longleftrightarrow> \<not> set_option (needs_call i) \<subseteq> K"
  by (induction "ids_of K" i rule: is_orphan.induct) (auto simp: ids_of_def)

section \<open>The passes as plain list functions\<close>

definition missing_after :: "(nat \<Rightarrow> rstr \<Rightarrow> rstr) \<Rightarrow> id_sets \<Rightarrow> ('j, 't, 'm) envelope \<Rightarrow>
    ('j, 't, 'm) envelope list" where
  "missing_after v5 outs e =
     (case missing_output v5 outs (item e) of None \<Rightarrow> [] | Some (_, out) \<Rightarrow> [new_envelope out])"

definition completed :: "(nat \<Rightarrow> rstr \<Rightarrow> rstr) \<Rightarrow> id_sets \<Rightarrow> ('j, 't, 'm) envelope list \<Rightarrow>
    ('j, 't, 'm) envelope list" where
  "completed v5 outs items = concat (map (\<lambda>e. e # missing_after v5 outs e) items)"

fun reports :: "(nat \<Rightarrow> rstr \<Rightarrow> rstr) \<Rightarrow> id_sets \<Rightarrow> ('j, 't) ResponseItem \<Rightarrow> bool" where
  "reports v5 outs i \<longleftrightarrow> (case missing_output v5 outs i of None \<Rightarrow> False | Some (reported, _) \<Rightarrow> reported)"

text \<open>Both collecting loops panic only in a debug build, when there is something to report.\<close>

lemma missing_outputs_panics:
  "missing_outputs_to_insert debug v5 outs n es = None \<longleftrightarrow>
     debug \<and> (\<exists>e \<in> set es. reports v5 outs (item e))"
  by (induction es arbitrary: n) (auto simp: error_or_panic_def split: option.splits)

lemma orphan_positions_panics:
  "orphan_positions debug calls n es = None \<longleftrightarrow> debug \<and> (\<exists>e \<in> set es. is_orphan calls (item e))"
  by (induction es arbitrary: n) (auto simp: error_or_panic_def)

lemma insert_outputs_append:
  "insert_outputs (xs @ ys) items = Option.bind (insert_outputs xs items) (insert_outputs ys)"
  by (induction xs items rule: insert_outputs.induct) (auto split: option.splits)

lemma vec_insert_here: "vec_insert (Suc (length pre)) x (pre @ e # es) = Some (pre @ e # x # es)"
  by (simp add: vec_insert_def)

text \<open>Inserting from the back, the collected indices are still those of the calls.\<close>

lemma insert_missing_outputs:
  "missing_outputs_to_insert debug v5 outs (length pre) es = Some ms \<Longrightarrow>
   insert_outputs (rev ms) (pre @ es) = Some (pre @ completed v5 outs es)"
proof (induction es arbitrary: pre ms)
  case (Cons e es)
  have IH: "insert_outputs (rev ms') (pre @ e # es) = Some (pre @ e # completed v5 outs es)"
    if "missing_outputs_to_insert debug v5 outs (Suc (length pre)) es = Some ms'" for ms'
    using Cons.IH [of "pre @ [e]" ms'] that by simp
  show ?case
  proof (cases "missing_output v5 outs (item e)")
    case None
    with Cons.prems IH show ?thesis by (simp add: completed_def missing_after_def)
  next
    case (Some a)
    then obtain r out where out: "missing_output v5 outs (item e) = Some (r, out)" by (cases a) auto
    with Cons.prems obtain ms' where
      ms': "missing_outputs_to_insert debug v5 outs (Suc (length pre)) es = Some ms'"
      and ms: "ms = (length pre, new_envelope out) # ms'"
      by (auto split: option.splits)
    show ?thesis
      using out by (simp add: ms insert_outputs_append IH [OF ms'] vec_insert_here completed_def missing_after_def)
  qed
qed (auto simp: completed_def)

lemma ensure_call_outputs_present_eq:
  "ensure_call_outputs_present debug v5 items =
     (if debug \<and> (\<exists>e \<in> set items. reports v5 (output_ids items) (item e)) then None
      else Some (completed v5 (output_ids items) items))"
proof (cases "missing_outputs_to_insert debug v5 (output_ids items) 0 items")
  case None
  then show ?thesis
    using missing_outputs_panics [of debug v5 "output_ids items" 0 items]
    by (auto simp: ensure_call_outputs_present_def)
next
  case (Some ms)
  then have "\<not> (debug \<and> (\<exists>e \<in> set items. reports v5 (output_ids items) (item e)))"
    using missing_outputs_panics [of debug v5 "output_ids items" 0 items] by simp
  moreover have "insert_outputs (rev ms) items = Some (completed v5 (output_ids items) items)"
    using insert_missing_outputs [of debug v5 "output_ids items" "[]" items ms] Some by simp
  ultimately show ?thesis using Some by (simp add: ensure_call_outputs_present_def)
qed

lemma orphan_positions_ge:
  "orphan_positions debug calls n es = Some ps \<Longrightarrow> p \<in> set ps \<Longrightarrow> n \<le> p"
  by (induction es arbitrary: n ps) (fastforce simp: error_or_panic_def split: if_splits option.splits)+

lemma retain_loop_orphans:
  "orphan_positions debug calls n es = Some ps \<Longrightarrow>
   retain_loop ps n es = filter (\<lambda>e. \<not> is_orphan calls (item e)) es"
proof (induction es arbitrary: n ps)
  case (Cons e es)
  show ?case
  proof (cases "is_orphan calls (item e)")
    case True
    with Cons.prems obtain ps' where
      "orphan_positions debug calls (Suc n) es = Some ps'" "ps = n # ps'"
      by (auto split: option.splits)
    with True Cons.IH show ?thesis by simp
  next
    case False
    with Cons.prems have ps: "orphan_positions debug calls (Suc n) es = Some ps" by simp
    then have "\<forall>p \<in> set ps. p \<noteq> n" using orphan_positions_ge [OF ps] by fastforce
    with False Cons.IH [OF ps] show ?thesis by (cases ps) auto
  qed
qed simp

lemma retain_loop_Nil: "retain_loop [] n es = es"
  by (induction es arbitrary: n) auto

lemma remove_orphan_outputs_eq:
  "remove_orphan_outputs debug items =
     (if debug \<and> (\<exists>e \<in> set items. is_orphan (call_ids items) (item e)) then None
      else Some (filter (\<lambda>e. \<not> is_orphan (call_ids items) (item e)) items))"
proof (cases "orphan_positions debug (call_ids items) 0 items")
  case None
  then show ?thesis
    using orphan_positions_panics [of debug "call_ids items" 0 items]
    by (auto simp: remove_orphan_outputs_def)
next
  case (Some ps)
  have "(if ps = [] then items else retain_loop ps 0 items) = retain_loop ps 0 items"
    by (simp add: retain_loop_Nil)
  then show ?thesis
    using Some orphan_positions_panics [of debug "call_ids items" 0 items]
    by (simp add: remove_orphan_outputs_def retain_loop_orphans)
qed

section \<open>Stripping keeps the keys\<close>

definition strip_item :: "InputModality list \<Rightarrow> ('j, 't) ResponseItem \<Rightarrow> ('j, 't) ResponseItem" where
  "strip_item mods i =
     (let i1 = (if ModImage \<in> set mods then i else strip_images_item i) in
      if ModAudio \<in> set mods then i1 else strip_audio_item i1)"

lemma strip_message_keys [simp]:
  "call_key (strip_message P m (Message a b c d e)) = None"
  "output_key (strip_message P m (Message a b c d e)) = None"
  "needs_call (strip_message P m (Message a b c d e)) = None"
  by (simp_all add: strip_message_def)

lemma strip_images_keys [simp]:
  "call_key (strip_images_item i) = call_key i"
  "output_key (strip_images_item i) = output_key i"
  "needs_call (strip_images_item i) = needs_call i"
  by (cases i rule: call_key.cases; simp; fail)
    (cases i rule: output_key.cases; simp; fail)+

lemma strip_audio_keys [simp]:
  "call_key (strip_audio_item i) = call_key i"
  "output_key (strip_audio_item i) = output_key i"
  "needs_call (strip_audio_item i) = needs_call i"
  by (cases i rule: call_key.cases; simp; fail)
    (cases i rule: output_key.cases; simp; fail)+

lemma strip_item_keys [simp]:
  "call_key (strip_item mods i) = call_key i"
  "output_key (strip_item mods i) = output_key i"
  "needs_call (strip_item mods i) = needs_call i"
  by (simp_all add: strip_item_def Let_def)

lemma keys_map_strip [simp]:
  "call_keys (map (\<lambda>e. strip_item mods (f e)) es) = call_keys (map f es)"
  "output_keys (map (\<lambda>e. strip_item mods (f e)) es) = output_keys (map f es)"
  "needed_keys (map (\<lambda>e. strip_item mods (f e)) es) = needed_keys (map f es)"
  by (simp_all add: call_keys_def output_keys_def needed_keys_def comp_def)

lemma strip_passes:
  "strip_audio_when_unsupported mods (strip_images_when_unsupported mods es) =
     map (item_update (strip_item mods)) es"
  by (cases "ModImage \<in> set mods"; cases "ModAudio \<in> set mods")
    (simp_all add: strip_audio_when_unsupported_def strip_images_when_unsupported_def strip_item_def
      Let_def id_def [symmetric] map_idI)

section \<open>Normalization\<close>

text \<open>
  What a prompt is made of: each item of the history that is not an orphan, in order and stripped of
  unsupported content, each call without an output followed by a synthetic one.
\<close>

definition expected_prompt ::
  "(nat \<Rightarrow> rstr \<Rightarrow> rstr) \<Rightarrow> InputModality list \<Rightarrow> ('j, 't, 'm) envelope list \<Rightarrow> ('j, 't, 'm) envelope list" where
  "expected_prompt v5 mods items =
     map (item_update (strip_item mods))
       (filter (\<lambda>e. set_option (needs_call (item e)) \<subseteq> call_keys (map item items))
         (completed v5 (output_ids items) items))"

lemma completed_Nil [simp]: "completed v5 outs [] = []"
  by (simp add: completed_def)

lemma completed_Cons [simp]: "completed v5 outs (e # es) = e # missing_after v5 outs e @ completed v5 outs es"
  by (simp add: completed_def)

lemma missing_after_call_keys [simp]: "call_keys (map item (missing_after v5 (ids_of K) e)) = {}"
  by (auto simp: missing_after_def new_envelope_def split: option.splits dest: missing_output_Some)

lemma missing_after_output_keys [simp]:
  "output_keys (map item (missing_after v5 (ids_of K) e)) = set_option (call_key (item e)) - K"
proof (cases "missing_output v5 (ids_of K) (item e)")
  case None
  then show ?thesis using missing_output_None [of v5 K "item e"] by (auto simp: missing_after_def)
next
  case (Some a)
  then obtain r out where "missing_output v5 (ids_of K) (item e) = Some (r, out)" by (cases a) auto
  from missing_output_Some [OF this] this show ?thesis by (auto simp: missing_after_def new_envelope_def)
qed

lemma completed_call_keys: "call_keys (map item (completed v5 (ids_of K) es)) = call_keys (map item es)"
  by (induction es) auto

lemma completed_output_keys:
  "output_keys (map item (completed v5 (ids_of K) es)) =
     output_keys (map item es) \<union> (call_keys (map item es) - K)"
  by (induction es) auto

text \<open>
  Completing adds outputs of calls only, so it makes no orphans: the orphans are items of the history.
\<close>

lemma completed_orphans:
  "(\<exists>e \<in> set (completed v5 (ids_of K) es). \<not> set_option (needs_call (item e)) \<subseteq> C) \<longleftrightarrow>
   (\<exists>e \<in> set es. \<not> set_option (needs_call (item e)) \<subseteq> C)"
  if "call_keys (map item es) \<subseteq> C"
  using that
proof (induction es)
  case (Cons e es)
  have new: "set_option (needs_call (item a)) \<subseteq> C" if "a \<in> set (missing_after v5 (ids_of K) e)" for a
  proof -
    from that obtain r out where "missing_output v5 (ids_of K) (item e) = Some (r, out)" "item a = out"
      by (cases "missing_output v5 (ids_of K) (item e)") (auto simp: missing_after_def new_envelope_def)
    with missing_output_Some [of v5 K "item e" r out] Cons.prems show ?thesis by auto
  qed
  moreover have "(\<exists>e \<in> set (completed v5 (ids_of K) es). \<not> set_option (needs_call (item e)) \<subseteq> C) \<longleftrightarrow>
      (\<exists>e \<in> set es. \<not> set_option (needs_call (item e)) \<subseteq> C)"
    by (rule Cons.IH) (use Cons.prems in simp)
  ultimately show ?case
    unfolding completed_Cons list.set set_append by blast
qed simp

lemma normalize_history_items:
  "normalize_history debug v5 mods cm =
     (if debug \<and>
         ((\<exists>e \<in> set (history_items cm). reports v5 (output_ids (history_items cm)) (item e)) \<or>
          \<not> needed_keys (map item (history_items cm)) \<subseteq> call_keys (map item (history_items cm)))
      then None
      else Some (cm\<lparr>history_items := expected_prompt v5 mods (history_items cm)\<rparr>))"
proof -
  let ?is = "history_items cm"
  let ?c = "completed v5 (output_ids ?is) ?is"
  have calls: "call_ids ?c = ids_of (call_keys (map item ?is))"
    by (simp add: call_ids_keys output_ids_keys completed_call_keys)
  have orphans: "(\<exists>e \<in> set ?c. is_orphan (call_ids ?c) (item e)) \<longleftrightarrow>
      \<not> needed_keys (map item ?is) \<subseteq> call_keys (map item ?is)"
    unfolding calls is_orphan_keys
    unfolding output_ids_keys
    by (subst completed_orphans) (auto simp: needed_keys_def)
  have "remove_orphan_outputs debug ?c =
      (if debug \<and> \<not> needed_keys (map item ?is) \<subseteq> call_keys (map item ?is) then None
       else Some (filter (\<lambda>e. set_option (needs_call (item e)) \<subseteq> call_keys (map item ?is)) ?c))"
    unfolding remove_orphan_outputs_eq orphans by (simp add: calls is_orphan_keys)
  then show ?thesis
    by (cases debug) (simp_all add: normalize_history_def ensure_call_outputs_present_eq strip_passes
        expected_prompt_def del: reports.simps)
qed

lemma keys_filter:
  "call_keys (map item (filter (\<lambda>e. set_option (needs_call (item e)) \<subseteq> C) es)) = call_keys (map item es)"
  "needed_keys (map item (filter (\<lambda>e. set_option (needs_call (item e)) \<subseteq> C) es)) \<subseteq> C"
  "output_keys (map item es) \<inter> C \<subseteq> output_keys (map item (filter (\<lambda>e. set_option (needs_call (item e)) \<subseteq> C) es))"
proof -
  have call: "call_key i = None \<or> needs_call i = None" for i :: "('a, 'b) ResponseItem"
    by (cases "needs_call i") (auto dest!: needs_call_output output_not_call)
  show "call_keys (map item (filter (\<lambda>e. set_option (needs_call (item e)) \<subseteq> C) es)) = call_keys (map item es)"
  proof (induction es)
    case (Cons e es)
    show ?case
    proof (cases "needs_call (item e)")
      case (Some k)
      with call [of "item e"] have "call_key (item e) = None" by simp
      with Cons.IH show ?thesis by simp
    qed (simp add: Cons.IH)
  qed simp
  show "needed_keys (map item (filter (\<lambda>e. set_option (needs_call (item e)) \<subseteq> C) es)) \<subseteq> C"
    by (induction es) auto
  show "output_keys (map item es) \<inter> C \<subseteq> output_keys (map item (filter (\<lambda>e. set_option (needs_call (item e)) \<subseteq> C) es))"
  proof (induction es)
    case (Cons e es)
    with needs_call_output_subset [of "item e"] show ?case
      by (cases "needs_call (item e)") (auto dest: needs_call_output)
  qed simp
qed

lemma expected_prompt_paired: "history_paired (map item (expected_prompt v5 mods items))"
proof -
  let ?C = "call_keys (map item items)"
  let ?f = "filter (\<lambda>e. set_option (needs_call (item e)) \<subseteq> ?C) (completed v5 (output_ids items) items)"
  have c: "call_keys (map item ?f) = ?C"
    by (simp add: keys_filter output_ids_keys completed_call_keys)
  have "?C \<subseteq> output_keys (map item (completed v5 (output_ids items) items)) \<inter> ?C"
    by (auto simp: output_ids_keys completed_output_keys)
  then have "?C \<subseteq> output_keys (map item ?f)"
    using keys_filter(3) by blast
  then have "history_paired (map item ?f)"
    unfolding history_paired_def c using keys_filter(2) by blast
  then show ?thesis
    by (simp add: expected_prompt_def history_paired_def comp_def)
qed

section \<open>Normalizing again\<close>

text \<open>A message whose content has been written back with its kinds.\<close>

definition annotated_message ::
  "rstr option \<Rightarrow> rstr \<Rightarrow> MessagePhase option \<Rightarrow> ('j, 't) passthrough option \<Rightarrow> annotated_content list \<Rightarrow>
   ('j, 't) ResponseItem" where
  "annotated_message i role phase md acs =
     Message i role (map content acs) phase
       (Some ((case md of None \<Rightarrow> default_passthrough | Some m \<Rightarrow> m)\<lparr>content_item_kinds := Some (map kind acs)\<rparr>))"

definition replace_media :: "(ContentItem \<Rightarrow> bool) \<Rightarrow> UnsupportedMedia \<Rightarrow> annotated_content \<Rightarrow> annotated_content" where
  "replace_media P m ac = (if P (content ac) then media_fragment m else ac)"

lemma strip_annotated_message:
  "strip_message P m (annotated_message i role phase md acs) =
     annotated_message i role phase md (map (replace_media P m) acs)"
  by (simp add: strip_message_def annotated_message_def replace_media_def)

lemma strip_items_annotated_message [simp]:
  "strip_images_item (annotated_message i role phase md acs) =
     annotated_message i role phase md (map (replace_media is_input_image UNSUPPORTED_IMAGE) acs)"
  "strip_audio_item (annotated_message i role phase md acs) =
     annotated_message i role phase md (map (replace_media is_input_audio UNSUPPORTED_AUDIO) acs)"
  using strip_annotated_message [of is_input_image UNSUPPORTED_IMAGE i role phase md acs]
    strip_annotated_message [of is_input_audio UNSUPPORTED_AUDIO i role phase md acs]
  by (simp_all add: annotated_message_def)

lemma replace_media_again:
  "replace_media is_input_image UNSUPPORTED_IMAGE (replace_media is_input_image UNSUPPORTED_IMAGE ac) =
     replace_media is_input_image UNSUPPORTED_IMAGE ac"
  "replace_media is_input_audio UNSUPPORTED_AUDIO (replace_media is_input_audio UNSUPPORTED_AUDIO ac) =
     replace_media is_input_audio UNSUPPORTED_AUDIO ac"
  "replace_media is_input_image UNSUPPORTED_IMAGE (replace_media is_input_audio UNSUPPORTED_AUDIO ac) =
     replace_media is_input_audio UNSUPPORTED_AUDIO (replace_media is_input_image UNSUPPORTED_IMAGE ac)"
  by (cases "content ac"; simp add: replace_media_def media_fragment_def)+

lemma strip_output_comp: "strip_output g (strip_output f out) = strip_output (g \<circ> f) out"
  by (simp add: strip_output_def split: FunctionCallOutputBody.splits)

lemma media_to_text_again:
  "image_to_text \<circ> image_to_text = image_to_text" "audio_to_text \<circ> audio_to_text = audio_to_text"
  "image_to_text \<circ> audio_to_text = audio_to_text \<circ> image_to_text"
  by (rule ext, rename_tac c, case_tac c; simp)+

lemma strip_again:
  "strip_images_item (strip_images_item i) = strip_images_item i"
  "strip_audio_item (strip_audio_item i) = strip_audio_item i"
  "strip_images_item (strip_audio_item i) = strip_audio_item (strip_images_item i)"
proof -
  have message: "strip_images_item (strip_images_item i) = strip_images_item i \<and>
      strip_audio_item (strip_audio_item i) = strip_audio_item i \<and>
      strip_images_item (strip_audio_item i) = strip_audio_item (strip_images_item i)"
    if m: "i = Message a role cs phase md" for a role cs phase md
  proof -
    let ?acs = "annotate cs (case md of None \<Rightarrow> [] | Some m \<Rightarrow> (case content_item_kinds m of None \<Rightarrow> [] | Some ks \<Rightarrow> ks))"
    have strip: "strip_message P u i = annotated_message a role phase md (map (replace_media P u) ?acs)" for P u
      by (simp add: m strip_message_def annotated_message_def replace_media_def)
    show ?thesis
      by (simp add: m strip [unfolded m] replace_media_again comp_def)
  qed
  show "strip_images_item (strip_images_item i) = strip_images_item i"
    by (cases i) (use message in \<open>auto simp: strip_output_comp media_to_text_again\<close>)
  show "strip_audio_item (strip_audio_item i) = strip_audio_item i"
    by (cases i) (use message in \<open>auto simp: strip_output_comp media_to_text_again\<close>)
  show "strip_images_item (strip_audio_item i) = strip_audio_item (strip_images_item i)"
    by (cases i) (use message in \<open>auto simp: strip_output_comp media_to_text_again\<close>)
qed

lemma strip_item_again [simp]: "strip_item mods (strip_item mods i) = strip_item mods i"
  by (simp add: strip_item_def Let_def strip_again)

text \<open>A paired history is only stripped, and reports nothing.\<close>

lemma completed_paired: "call_keys (map item es) \<subseteq> K \<Longrightarrow> completed v5 (ids_of K) es = es"
  by (induction es) (auto simp: missing_after_def missing_output_None [THEN iffD2])

lemma expected_prompt_of_paired:
  assumes "history_paired (map item items)"
  shows "expected_prompt v5 mods items = map (item_update (strip_item mods)) items"
proof -
  have "set_option (needs_call (item e)) \<subseteq> call_keys (map item items)" if "e \<in> set items" for e
    using assms that by (auto simp: history_paired_def needed_keys_def)
  then show ?thesis
    using assms by (simp add: expected_prompt_def output_ids_keys completed_paired history_paired_def)
qed

lemma paired_reports_nothing:
  assumes "history_paired (map item items)" "e \<in> set items"
  shows "\<not> reports v5 (output_ids items) (item e)"
proof -
  have "set_option (call_key (item e)) \<subseteq> output_keys (map item items)"
    using assms by (auto simp: history_paired_def call_keys_def)
  then show ?thesis by (simp add: output_ids_keys missing_output_None [THEN iffD2])
qed

lemma normalize_paired:
  assumes "history_paired (map item (history_items cm))"
  shows "normalize_history debug v5 mods cm =
    Some (cm\<lparr>history_items := map (item_update (strip_item mods)) (history_items cm)\<rparr>)"
  using assms paired_reports_nothing [OF assms]
  by (auto simp: normalize_history_items expected_prompt_of_paired history_paired_def simp del: reports.simps)

lemma normalize_history_SomeD:
  "normalize_history debug v5 mods cm = Some cm' \<Longrightarrow>
   cm' = cm\<lparr>history_items := expected_prompt v5 mods (history_items cm)\<rparr>"
  by (simp add: normalize_history_items split: if_splits)

lemma normalize_twice:
  assumes "normalize_history debug v5 mods cm = Some cm'"
  shows "normalize_history debug2 v52 mods cm' = Some cm'"
proof -
  have cm': "cm' = cm\<lparr>history_items := expected_prompt v5 mods (history_items cm)\<rparr>"
    by (rule normalize_history_SomeD [OF assms])
  have "map (item_update (strip_item mods)) (expected_prompt v5 mods (history_items cm)) =
      expected_prompt v5 mods (history_items cm)"
    by (simp add: expected_prompt_def)
  then show ?thesis
    using normalize_paired [of cm' debug2 v52 mods] expected_prompt_paired [of v5 mods "history_items cm"]
    by (simp add: cm')
qed

section \<open>No unsupported content\<close>

fun carries_image :: "('j, 't) ResponseItem \<Rightarrow> bool" where
  "carries_image (Message _ _ cs _ _) \<longleftrightarrow> list_ex is_input_image cs"
| "carries_image (FunctionCallOutput _ _ _ _ out _) \<longleftrightarrow>
     (case body out of BodyText _ \<Rightarrow> False | ContentItems cs \<Rightarrow> list_ex (\<lambda>c. image_to_text c \<noteq> c) cs)"
| "carries_image (CustomToolCallOutput _ _ _ out _) \<longleftrightarrow>
     (case body out of BodyText _ \<Rightarrow> False | ContentItems cs \<Rightarrow> list_ex (\<lambda>c. image_to_text c \<noteq> c) cs)"
| "carries_image (ImageGenerationCall _ _ _ res _) \<longleftrightarrow> res \<noteq> []"
| "carries_image _ \<longleftrightarrow> False"

fun carries_audio :: "('j, 't) ResponseItem \<Rightarrow> bool" where
  "carries_audio (Message _ _ cs _ _) \<longleftrightarrow> list_ex is_input_audio cs"
| "carries_audio (FunctionCallOutput _ _ _ _ out _) \<longleftrightarrow>
     (case body out of BodyText _ \<Rightarrow> False | ContentItems cs \<Rightarrow> list_ex (\<lambda>c. audio_to_text c \<noteq> c) cs)"
| "carries_audio (CustomToolCallOutput _ _ _ out _) \<longleftrightarrow>
     (case body out of BodyText _ \<Rightarrow> False | ContentItems cs \<Rightarrow> list_ex (\<lambda>c. audio_to_text c \<noteq> c) cs)"
| "carries_audio _ \<longleftrightarrow> False"

lemma to_text_twice [simp]:
  "image_to_text (image_to_text c) = image_to_text c" "audio_to_text (audio_to_text c) = audio_to_text c"
  by (cases c; simp)+

lemma strip_images_no_image [simp]: "\<not> carries_image (strip_images_item i)"
  by (cases i) (auto simp: strip_message_def strip_output_def media_fragment_def list_ex_iff
      split: FunctionCallOutputBody.splits if_splits)

lemma strip_audio_no_audio [simp]: "\<not> carries_audio (strip_audio_item i)"
  by (cases i) (auto simp: strip_message_def strip_output_def media_fragment_def list_ex_iff
      split: FunctionCallOutputBody.splits if_splits)

lemma strip_item_no_media:
  "ModImage \<notin> set mods \<Longrightarrow> \<not> carries_image (strip_item mods i)"
  "ModAudio \<notin> set mods \<Longrightarrow> \<not> carries_audio (strip_item mods i)"
  using strip_images_no_image [of "strip_audio_item i"] strip_again(3) [of i]
  by (simp_all add: strip_item_def Let_def)

section \<open>Dropping the oldest item\<close>

text \<open>At most one call and one output for every key, as call identifiers are in a well-formed history.\<close>

definition keys_unique :: "('j, 't) ResponseItem list \<Rightarrow> bool" where
  "keys_unique is \<longleftrightarrow> distinct (List.map_filter call_key is) \<and> distinct (List.map_filter output_key is)"

lemma set_map_filter_keys [simp]:
  "set (List.map_filter call_key is) = call_keys is"
  "set (List.map_filter output_key is) = output_keys is"
  by (induction "is") (auto simp: List.map_filter_simps split: option.splits)

lemma map_filter_append [simp]: "List.map_filter f (xs @ ys) = List.map_filter f xs @ List.map_filter f ys"
  by (simp add: List.map_filter_def)

lemma keys_unique_Cons:
  "keys_unique (i # is) \<longleftrightarrow> set_option (call_key i) \<inter> call_keys is = {} \<and>
     set_option (output_key i) \<inter> output_keys is = {} \<and> keys_unique is"
  by (auto simp: keys_unique_def List.map_filter_simps split: option.splits)

lemma keys_unique_mid:
  "keys_unique (xs @ i # ys) \<Longrightarrow> set_option (call_key i) \<inter> call_keys (xs @ ys) = {} \<and>
     set_option (output_key i) \<inter> output_keys (xs @ ys) = {} \<and> keys_unique (xs @ ys)"
  by (auto simp: keys_unique_def List.map_filter_simps split: option.splits)

lemma position_None: "position P xs = None \<longleftrightarrow> (\<forall>x \<in> set xs. \<not> P x)"
  by (induction xs) auto

lemma position_SomeD:
  "position P xs = Some p \<Longrightarrow> \<exists>us x vs. xs = us @ x # vs \<and> length us = p \<and> P x \<and> (\<forall>u \<in> set us. \<not> P u)"
proof (induction xs arbitrary: p)
  case (Cons x xs)
  show ?case
  proof (cases "P x")
    case True
    with Cons.prems show ?thesis by (intro exI [of _ "[]"]) auto
  next
    case False
    with Cons.prems obtain q where q: "position P xs = Some q" "p = Suc q" by auto
    from Cons.IH [OF q(1)] obtain us y vs
      where "xs = us @ y # vs" "length us = q" "P y" "\<forall>u \<in> set us. \<not> P u" by blast
    with False q show ?thesis by (intro exI [of _ "x # us"]) auto
  qed
qed simp

lemma remove_first_matching_cases:
  obtains (none) "remove_first_matching es P = es" "\<forall>e \<in> set es. \<not> P (item e)"
  | (one) us e vs where "es = us @ e # vs" "P (item e)" "\<forall>u \<in> set us. \<not> P (item u)"
      "remove_first_matching es P = us @ vs"
proof (cases "position (\<lambda>e. P (item e)) es")
  case None
  with none show ?thesis by (auto simp: remove_first_matching_def position_None)
next
  case (Some p)
  with position_SomeD [OF Some] one show ?thesis by (fastforce simp: remove_first_matching_def vec_remove_def)
qed

text \<open>The counterpart of an item is found by its key, on whichever side it is.\<close>

lemma remove_corresponding_for_call:
  assumes "call_key i = Some k"
  shows "remove_corresponding_for es i = remove_first_matching es (\<lambda>j. output_key j = Some k)"
proof -
  have key: "is_function_output c = (\<lambda>j. output_key j = Some (FunctionChannel, c))"
    "is_tool_search_output c = (\<lambda>j. output_key j = Some (ToolSearchChannel, c))"
    "is_custom_tool_output c = (\<lambda>j. output_key j = Some (CustomChannel, c))"
    for c by (rule ext, rename_tac j, case_tac j rule: output_key.cases; auto)+
  from assms show ?thesis by (cases i rule: call_key.cases) (auto simp: key)
qed

lemma remove_first_matching_cong:
  "(\<And>e. e \<in> set es \<Longrightarrow> P (item e) = Q (item e)) \<Longrightarrow> remove_first_matching es P = remove_first_matching es Q"
proof -
  assume "\<And>e. e \<in> set es \<Longrightarrow> P (item e) = Q (item e)"
  then have "position (\<lambda>e. P (item e)) es = position (\<lambda>e. Q (item e)) es"
    by (induction es) auto
  then show ?thesis by (simp add: remove_first_matching_def)
qed

lemma call_key_function:
  "call_key j = Some (FunctionChannel, c) \<longleftrightarrow> is_function_call c j \<or> is_local_shell_call c j"
  by (cases j rule: call_key.cases) auto

lemma remove_unique_call:
  assumes u: "keys_unique (map item es)" and P: "\<And>j. P j \<Longrightarrow> call_key j = Some k"
    and ex: "\<exists>e \<in> set es. P (item e)"
  shows "remove_first_matching es P = remove_first_matching es (\<lambda>j. call_key j = Some k)"
proof (cases rule: remove_first_matching_cases [of es P])
  case none
  with ex show ?thesis by blast
next
  case (one us e vs)
  have e: "call_key (item e) = Some k" using P one(2) by blast
  then have "k \<notin> call_keys (map item (us @ vs))"
    using keys_unique_mid [of "map item us" "item e" "map item vs"] u one(1) by auto
  then have other: "\<forall>a \<in> set (us @ vs). call_key (item a) \<noteq> Some k"
    by (auto simp: call_keys_def)
  then have "P (item a) = (call_key (item a) = Some k)" if "a \<in> set es" for a
    using that one(1,2) P e by auto
  then show ?thesis by (rule remove_first_matching_cong)
qed

lemma remove_corresponding_for_output:
  assumes k: "output_key i = Some k" and u: "keys_unique (map item es)"
  shows "remove_corresponding_for es i = remove_first_matching es (\<lambda>j. call_key j = Some k)"
proof -
  have other: "is_tool_search_call c = (\<lambda>j. call_key j = Some (ToolSearchChannel, c))"
    "is_custom_tool_call c = (\<lambda>j. call_key j = Some (CustomChannel, c))"
    for c by (rule ext, rename_tac j, case_tac j rule: call_key.cases; auto)+
  have "remove_corresponding_for es (FunctionCallOutput a (Some c) b d out md) =
      remove_first_matching es (\<lambda>j. call_key j = Some (FunctionChannel, c))" for a c b d out md
  proof (cases "\<exists>e \<in> set es. is_function_call c (item e)")
    case True
    then have "remove_corresponding_for es (FunctionCallOutput a (Some c) b d out md) =
        remove_first_matching es (is_function_call c)"
      by (auto simp: remove_first_matching_def position_None split: option.splits)
    also have "\<dots> = remove_first_matching es (\<lambda>j. call_key j = Some (FunctionChannel, c))"
      by (rule remove_unique_call [OF u _ True]) (simp add: call_key_function)
    finally show ?thesis .
  next
    case False
    then have "position (\<lambda>e. is_function_call c (item e)) es = None" by (auto simp: position_None)
    then have "remove_corresponding_for es (FunctionCallOutput a (Some c) b d out md) =
        remove_first_matching es (is_local_shell_call c)"
      by (auto simp: remove_first_matching_def split: option.splits)
    also have "\<dots> = remove_first_matching es (\<lambda>j. call_key j = Some (FunctionChannel, c))"
      by (rule remove_first_matching_cong) (use False in \<open>auto simp: call_key_function\<close>)
    finally show ?thesis .
  qed
  with k show ?thesis
    by (cases i rule: output_key.cases) (auto simp: other)
qed

lemma remove_corresponding_for_neither:
  "call_key i = None \<Longrightarrow> output_key i = None \<Longrightarrow> remove_corresponding_for es i = es"
proof (cases i)
  case (LocalShellCall a c d e f)
  then show "call_key i = None \<Longrightarrow> ?thesis" by (cases c) auto
next
  case (ToolSearchCall a c d e f g)
  then show "call_key i = None \<Longrightarrow> ?thesis" by (cases c) auto
next
  case (FunctionCallOutput a c d e f g)
  then show "output_key i = None \<Longrightarrow> ?thesis" by (cases c) auto
next
  case (ToolSearchOutput a c d e f g)
  then show "output_key i = None \<Longrightarrow> ?thesis" by (cases c) auto
qed auto

lemma paired_drop_call:
  assumes p: "history_paired (i # xs @ j # ys)" and u: "keys_unique (i # xs @ j # ys)"
    and i: "call_key i = Some k" and j: "output_key j = Some k"
  shows "history_paired (xs @ ys)"
proof -
  have i': "output_key i = None" "needs_call i = None" and j': "call_key j = None"
    using call_not_output [OF i] output_not_call [OF j] needs_call_output [of i] by (cases "needs_call i"; auto)+
  have k: "k \<notin> call_keys (xs @ ys)" "k \<notin> output_keys (xs @ ys)"
    using u keys_unique_mid [of xs j ys] i j j' by (auto simp: keys_unique_Cons)
  show ?thesis
    using p i i' j j' k needed_subset [of "xs @ ys"] by (auto simp: history_paired_def)
qed

lemma paired_drop_output:
  assumes p: "history_paired (j # xs @ i # ys)" and u: "keys_unique (j # xs @ i # ys)"
    and i: "call_key i = Some k" and j: "output_key j = Some k"
  shows "history_paired (xs @ ys)"
proof -
  have i': "output_key i = None" "needs_call i = None" and j': "call_key j = None"
    using call_not_output [OF i] output_not_call [OF j] needs_call_output [of i] by (cases "needs_call i"; auto)+
  have k: "k \<notin> call_keys (xs @ ys)" "k \<notin> output_keys (xs @ ys)"
    using u keys_unique_mid [of xs i ys] i j i' by (auto simp: keys_unique_Cons)
  show ?thesis
    using p i i' j j' k needed_subset [of "xs @ ys"] by (auto simp: history_paired_def)
qed

lemma remove_corresponding_keeps:
  assumes p: "history_paired (i # map item es)" and u: "keys_unique (i # map item es)"
  shows "history_paired (map item (remove_corresponding_for es i)) \<and>
    keys_unique (map item (remove_corresponding_for es i))"
proof -
  have ues: "keys_unique (map item es)" using u by (simp add: keys_unique_Cons)
  consider (call) k where "call_key i = Some k" "output_key i = None"
    | (out) k where "output_key i = Some k" "call_key i = None"
    | (neither) "call_key i = None" "output_key i = None"
    using call_not_output [of i] by (cases "call_key i"; cases "output_key i") auto
  then show ?thesis
  proof cases
    case (call k)
    show ?thesis
    proof (cases rule: remove_first_matching_cases [of es "\<lambda>j. output_key j = Some k"])
      case none
      have "k \<in> output_keys (map item es)" using p call by (auto simp: history_paired_def)
      with none(2) show ?thesis by (auto simp: output_keys_def)
    next
      case (one us e vs)
      with p u call ues paired_drop_call [of i "map item us" "item e" "map item vs" k]
        keys_unique_mid [of "map item us" "item e" "map item vs"]
      show ?thesis by (simp add: remove_corresponding_for_call)
    qed
  next
    case (out k)
    show ?thesis
    proof (cases rule: remove_first_matching_cases [of es "\<lambda>j. call_key j = Some k"])
      case none
      then have "k \<notin> call_keys (map item es)" by (auto simp: call_keys_def)
      with p out none(1) ues show ?thesis
        by (auto simp: remove_corresponding_for_output history_paired_def)
    next
      case (one us e vs)
      with p u out ues paired_drop_output [of i "map item us" "item e" "map item vs" k]
        keys_unique_mid [of "map item us" "item e" "map item vs"]
      show ?thesis by (simp add: remove_corresponding_for_output)
    qed
  next
    case neither
    moreover have "needs_call i = None" using neither needs_call_output [of i] by (cases "needs_call i") auto
    ultimately show ?thesis
      using p ues by (simp add: remove_corresponding_for_neither history_paired_def)
  qed
qed

section \<open>Properties\<close>

lemma for_prompt_SomeD:
  "for_prompt debug v5 mods cm = Some is \<Longrightarrow> is = map item (expected_prompt v5 mods (history_items cm))"
  by (auto simp: for_prompt_def for_prompt_annotated_def dest!: normalize_history_SomeD)

text \<open>The reports of the source: a custom tool or local shell call without output.\<close>

fun is_reported_call :: "('j, 't) ResponseItem \<Rightarrow> bool" where
  "is_reported_call (CustomToolCall _ _ _ _ _ _ _) \<longleftrightarrow> True"
| "is_reported_call (LocalShellCall _ _ _ _ _) \<longleftrightarrow> True"
| "is_reported_call _ \<longleftrightarrow> False"

lemma reports_keys:
  "reports v5 (ids_of K) i \<longleftrightarrow> is_reported_call i \<and> \<not> set_option (call_key i) \<subseteq> K"
  by (induction v5 "ids_of K" i rule: missing_output.induct) (auto simp: ids_of_def)


text \<open>
  Whatever the history, every call of a prompt has an output and every output that needs a call
  has one. Normalizing a normalized history changes nothing, whatever the build.
\<close>

theorem for_prompt_paired:
  assumes "for_prompt debug v5 mods cm = Some is"
  shows "history_paired is \<and>
    (\<exists>cm'. normalize_history debug v5 mods cm = Some cm' \<and> map item (history_items cm') = is \<and>
       normalize_history debug2 v52 mods cm' = Some cm')"
proof -
  from assms obtain cm' where cm': "normalize_history debug v5 mods cm = Some cm'" "map item (history_items cm') = is"
    by (auto simp: for_prompt_def for_prompt_annotated_def)
  with normalize_twice [OF cm'(1)] expected_prompt_paired for_prompt_SomeD [OF assms] show ?thesis by auto
qed

text \<open>A function call cut off by an interrupt, and the output of a call that was compacted away.\<close>

definition interrupted :: "(unit, unit, unit, unit) ContextManager" where
  "interrupted =
     \<lparr>history_items = map new_envelope
        [FunctionCallOutput None (Some (lit ''c0'')) None None (from_text (lit ''late'')) None,
         FunctionCall (Some (lit ''fc_1'')) (lit ''shell'') None (lit ''{}'') None (lit ''c1'') None],
      world_state_baseline = None\<rparr>"

theorem for_prompt_paired_witness:
  "for_prompt False (\<lambda>_ n. n) [ModText] interrupted =
     Some [FunctionCall (Some (lit ''fc_1'')) (lit ''shell'') None (lit ''{}'') None (lit ''c1'') None,
       FunctionCallOutput (Some (lit ''fco_fco:fc_1'')) (Some (lit ''c1'')) None None (from_text (lit ''aborted'')) None] \<and>
   history_paired
     [FunctionCall (Some (lit ''fc_1'')) (lit ''shell'') None (lit ''{}'') None (lit ''c1'') (None :: (unit, unit) passthrough option),
      FunctionCallOutput (Some (lit ''fco_fco:fc_1'')) (Some (lit ''c1'')) None None (from_text (lit ''aborted'')) None]"
proof -
  have run: "for_prompt False (\<lambda>_ n. n) [ModText] interrupted =
     Some [FunctionCall (Some (lit ''fc_1'')) (lit ''shell'') None (lit ''{}'') None (lit ''c1'') None,
       FunctionCallOutput (Some (lit ''fco_fco:fc_1'')) (Some (lit ''c1'')) None None (from_text (lit ''aborted'')) None]"
    by (simp add: for_prompt_def for_prompt_annotated_def normalize_history_def interrupted_def
        ensure_call_outputs_present_def output_ids_def no_ids_def remove_orphan_outputs_def call_ids_def
        error_or_panic_def new_envelope_def vec_insert_def strip_audio_when_unsupported_def
        strip_images_when_unsupported_def strip_output_def from_text_def synthetic_output_id_def lit_eval)
  from for_prompt_paired [OF this] run show ?thesis by blast
qed

text \<open>
  Dropping the oldest item together with its counterpart keeps a history paired, as long as no
  two calls and no two outputs share an identifier, which is kept too: no normalization is needed
  after it.
\<close>

theorem remove_first_item_keeps_pairs:
  assumes "history_paired (map item (history_items cm))" "keys_unique (map item (history_items cm))"
  shows "history_paired (map item (history_items (remove_first_item cm))) \<and>
    keys_unique (map item (history_items (remove_first_item cm))) \<and>
    length (history_items (remove_first_item cm)) \<le> length (history_items cm) - 1"
proof (cases "history_items cm")
  case Nil
  with assms show ?thesis by (simp add: remove_first_item_def)
next
  case (Cons e es)
  have rm: "length (remove_first_matching es P) \<le> length es" for P
    by (cases rule: remove_first_matching_cases [of es P]) auto
  have "length (remove_corresponding_for es (item e)) \<le> length es"
    using rm keys_unique_Cons [of "item e" "map item es"] assms(2) Cons
      remove_corresponding_for_call [of "item e" _ es] remove_corresponding_for_output [of "item e" _ es]
      remove_corresponding_for_neither [of "item e" es]
    by (cases "call_key (item e)"; cases "output_key (item e)") auto
  with Cons assms remove_corresponding_keeps [of "item e" es] show ?thesis
    by (simp add: remove_first_item_def)
qed

theorem remove_first_item_keeps_pairs_witness:
  "history_items (remove_first_item
     (\<lparr>history_items = map new_envelope
        [CustomToolCall None None (lit ''c'') (lit ''t'') None [] None, CompactionTrigger,
         CustomToolCallOutput None (lit ''c'') None (from_text []) None],
       world_state_baseline = Some ()\<rparr> :: (unit, unit, unit, unit) ContextManager)) = [new_envelope CompactionTrigger] \<and>
   history_paired [CompactionTrigger :: (unit, unit) ResponseItem]"
proof -
  let ?cm = "\<lparr>history_items = map new_envelope
        [CustomToolCall None None (lit ''c'') (lit ''t'') None [] None, CompactionTrigger,
         CustomToolCallOutput None (lit ''c'') None (from_text []) None],
       world_state_baseline = Some ()\<rparr> :: (unit, unit, unit, unit) ContextManager"
  have run: "history_items (remove_first_item ?cm) = [new_envelope CompactionTrigger]"
    by (simp add: remove_first_item_def new_envelope_def remove_first_matching_def vec_remove_def)
  have "history_paired (map item (history_items ?cm))" "keys_unique (map item (history_items ?cm))"
    by (simp_all add: new_envelope_def history_paired_def keys_unique_def List.map_filter_simps)
  from remove_first_item_keeps_pairs [OF this] run show ?thesis by (simp add: new_envelope_def)
qed

text \<open>
  In a build with debug assertions the prompt is refused exactly when the source reports: a custom
  tool or local shell call has no output, or an output that needs a call has none. A function call
  without output is not reported.
\<close>

theorem for_prompt_panics_iff:
  "for_prompt debug v5 mods cm = None \<longleftrightarrow>
     debug \<and>
     ((\<exists>i \<in> set (map item (history_items cm)). is_reported_call i \<and>
         \<not> set_option (call_key i) \<subseteq> output_keys (map item (history_items cm))) \<or>
      \<not> needed_keys (map item (history_items cm)) \<subseteq> call_keys (map item (history_items cm)))"
  by (simp add: for_prompt_def for_prompt_annotated_def normalize_history_items output_ids_keys reports_keys
      del: reports.simps)

text \<open>A model that does not take images, or audio, gets none, in messages and tool outputs alike.\<close>

theorem for_prompt_no_unsupported_media:
  assumes "for_prompt debug v5 mods cm = Some is" "i \<in> set is"
  shows "(ModImage \<in> set mods \<or> \<not> carries_image i) \<and> (ModAudio \<in> set mods \<or> \<not> carries_audio i)"
  using assms(2) strip_item_no_media
  unfolding for_prompt_SomeD [OF assms(1)] by (auto simp: expected_prompt_def)

end
