(* ===== verification/Readiness.thy ===== *)
theory Readiness
  imports Main "HOL-Library.Word"
begin

text \<open>
  \<open>utils/readiness/src/lib.rs\<close>: a flag that becomes ready once, either because the holder of a
  token says so or because nobody subscribed, and tasks that wait for it.

  The tasks run on a multi-threaded runtime, so the operations are split into their atomic actions:
  one load or swap of \<open>ready\<close>, one section under the token lock (every write of \<open>ready\<close> is in such
  a section, so it is a single action for the others), one operation of the channel. The relation
  \<open>thread_step\<close> lists them, \<open>sys_step\<close> interleaves any number of threads. That the lock is busy, or
  that waiting for it times out, is a choice the relation leaves open.

  Tokens are \<open>i32\<close>, 32-bit words whose addition wraps. The \<open>watch\<close> channel of \<open>tokio\<close> is a
  parameter; \<open>watch_laws\<close> states what its documentation says.
\<close>

section \<open>The channel\<close>

record 'c watch =
  channel0 :: 'c
  send :: "'c \<Rightarrow> bool \<Rightarrow> 'c"
  add_rx :: "'c \<Rightarrow> 'c"
  drop_rx :: "'c \<Rightarrow> 'c"
  receivers :: "'c \<Rightarrow> nat"
  borrow :: "'c \<Rightarrow> bool"
  version :: "'c \<Rightarrow> nat"

text \<open>
  \<open>watch::channel(false)\<close> with its receiver dropped; \<open>Sender::subscribe\<close> and the drop of a receiver,
  which leave the value alone; \<open>Sender::send\<close>, which stores a value and marks it as new for all
  receivers, and fails without making the value available when there is no receiver.
\<close>

definition watch_laws :: "'c watch \<Rightarrow> bool" where
  "watch_laws w \<longleftrightarrow>
     \<not> borrow w (channel0 w) \<and> receivers w (channel0 w) = 0 \<and>
     (\<forall>c. receivers w (add_rx w c) = receivers w c + 1 \<and> borrow w (add_rx w c) = borrow w c \<and>
        version w (add_rx w c) = version w c) \<and>
     (\<forall>c. receivers w (drop_rx w c) = receivers w c - 1 \<and> borrow w (drop_rx w c) = borrow w c \<and>
        version w (drop_rx w c) = version w c) \<and>
     (\<forall>c v. receivers w (send w c v) = receivers w c \<and>
        (if receivers w c = 0 then send w c v = c
         else borrow w (send w c v) = v \<and> version w c < version w (send w c v)))"

section \<open>Model\<close>

type_synonym token = "32 word"

datatype ReadinessError = TokenLockFailed | FlagAlreadyReady

record 'c ReadinessFlag =
  ready :: bool
  next_id :: "32 word"
  tokens :: "token set"
  tx :: 'c

definition new_flag :: "'c watch \<Rightarrow> 'c ReadinessFlag" where
  "new_flag w = \<lparr>ready = False, next_id = 1, tokens = {}, tx = channel0 w\<rparr>"

text \<open>The loop of \<open>subscribe\<close>: \<open>fetch_add\<close> until the token is neither zero nor in use.\<close>

partial_function (option) alloc_token :: "32 word \<Rightarrow> token set \<Rightarrow> (token \<times> 32 word) option" where
  "alloc_token n used =
     (if n \<noteq> 0 \<and> n \<notin> used then Some (n, n + 1) else alloc_token (n + 1) used)"

text \<open>The sections under the lock. \<open>None\<close> of the first is a loop that does not end.\<close>

definition subscribe_locked :: "'c ReadinessFlag \<Rightarrow> (token option \<times> 'c ReadinessFlag) option" where
  "subscribe_locked f =
     (if ready f then Some (None, f)
      else
        (case alloc_token (next_id f) (tokens f) of
           None \<Rightarrow> None
         | Some (t, n) \<Rightarrow> Some (Some t, f\<lparr>next_id := n, tokens := insert t (tokens f)\<rparr>)))"

definition mark_locked :: "token \<Rightarrow> 'c ReadinessFlag \<Rightarrow> bool \<times> 'c ReadinessFlag" where
  "mark_locked t f =
     (if t \<notin> tokens f then (False, f) else (True, f\<lparr>ready := True, tokens := {}\<rparr>))"

definition swap_ready :: "'c ReadinessFlag \<Rightarrow> bool \<times> 'c ReadinessFlag" where
  "swap_ready f = (ready f, f\<lparr>ready := True\<rparr>)"

datatype outcome =
    Answer bool
  | Subscribed "ReadinessError + token"
  | Marked "ReadinessError + bool"
  | Waited

text \<open>
  Where a thread is. The argument of the points of \<open>is_ready\<close> says whether \<open>wait_ready\<close> called it;
  that of the points of a waiter is the version its receiver has seen.
\<close>

datatype pc =
    Idle
  | Returned outcome
  | AtIsReady bool | AtTryLock bool | AtSend bool | AtReload bool
  | AtSubscribe | AtSubscribeLock
  | AtMark token | AtMarkLock token | AtMarkSend
  | AtAddRx | AtBorrow nat | AtChanged nat | AtBorrowAgain nat

fun at_rest :: "pc \<Rightarrow> bool" where
  "at_rest Idle \<longleftrightarrow> True"
| "at_rest (Returned _) \<longleftrightarrow> True"
| "at_rest _ \<longleftrightarrow> False"

text \<open>\<open>is_ready\<close> returns, to its caller or into \<open>wait_ready\<close>.\<close>

definition is_ready_returns :: "bool \<Rightarrow> bool \<Rightarrow> pc" where
  "is_ready_returns waiting r =
     (if waiting then if r then Returned Waited else AtAddRx else Returned (Answer r))"

inductive thread_step :: "'c watch \<Rightarrow> 'c ReadinessFlag \<Rightarrow> pc \<Rightarrow> 'c ReadinessFlag \<Rightarrow> pc \<Rightarrow> bool" for w where
  call_is_ready: "at_rest p \<Longrightarrow> thread_step w f p f (AtIsReady False)"
| call_subscribe: "at_rest p \<Longrightarrow> thread_step w f p f AtSubscribe"
| call_mark_ready: "at_rest p \<Longrightarrow> thread_step w f p f (AtMark t)"
| call_wait_ready: "at_rest p \<Longrightarrow> thread_step w f p f (AtIsReady True)"
| is_ready_load: "thread_step w f (AtIsReady b) f (if ready f then is_ready_returns b True else AtTryLock b)"
| try_lock_empty: "tokens f = {} \<Longrightarrow> swap_ready f = (was_ready, f') \<Longrightarrow>
    thread_step w f (AtTryLock b) f' (if was_ready then is_ready_returns b True else AtSend b)"
| try_lock_other: "thread_step w f (AtTryLock b) f (AtReload b)"
| is_ready_send: "thread_step w f (AtSend b) (f\<lparr>tx := send w (tx f) True\<rparr>) (is_ready_returns b True)"
| is_ready_reload: "thread_step w f (AtReload b) f (is_ready_returns b (ready f))"
| subscribe_load: "thread_step w f AtSubscribe f
    (if ready f then Returned (Subscribed (Inl FlagAlreadyReady)) else AtSubscribeLock)"
| subscribe_timeout: "thread_step w f AtSubscribeLock f (Returned (Subscribed (Inl TokenLockFailed)))"
| subscribe_lock: "subscribe_locked f = Some (t, f') \<Longrightarrow> thread_step w f AtSubscribeLock f'
    (Returned (Subscribed (case t of None \<Rightarrow> Inl FlagAlreadyReady | Some t \<Rightarrow> Inr t)))"
| mark_load: "thread_step w f (AtMark t) f
    (if ready f \<or> t = 0 then Returned (Marked (Inr False)) else AtMarkLock t)"
| mark_timeout: "thread_step w f (AtMarkLock t) f (Returned (Marked (Inl TokenLockFailed)))"
| mark_lock: "mark_locked t f = (marked, f') \<Longrightarrow> thread_step w f (AtMarkLock t) f'
    (if marked then AtMarkSend else Returned (Marked (Inr False)))"
| mark_send: "thread_step w f AtMarkSend (f\<lparr>tx := send w (tx f) True\<rparr>) (Returned (Marked (Inr True)))"
| wait_add_rx: "thread_step w f AtAddRx (f\<lparr>tx := add_rx w (tx f)\<rparr>) (AtBorrow (version w (tx f)))"
| wait_borrow_true: "borrow w (tx f) \<Longrightarrow>
    thread_step w f (AtBorrow v) (f\<lparr>tx := drop_rx w (tx f)\<rparr>) (Returned Waited)"
| wait_borrow_false: "\<not> borrow w (tx f) \<Longrightarrow> thread_step w f (AtBorrow v) f (AtChanged v)"
| wait_changed: "version w (tx f) \<noteq> v \<Longrightarrow> thread_step w f (AtChanged v) f (AtBorrowAgain (version w (tx f)))"
| wait_again_true: "borrow w (tx f) \<Longrightarrow>
    thread_step w f (AtBorrowAgain v) (f\<lparr>tx := drop_rx w (tx f)\<rparr>) (Returned Waited)"
| wait_again_false: "\<not> borrow w (tx f) \<Longrightarrow> thread_step w f (AtBorrowAgain v) f (AtChanged v)"

inductive_cases parked_step: "thread_step w f (AtChanged v) f' p'"

record 'c readiness_sys =
  flag :: "'c ReadinessFlag"
  threads :: "nat \<Rightarrow> pc"

inductive sys_step :: "'c watch \<Rightarrow> 'c readiness_sys \<Rightarrow> 'c readiness_sys \<Rightarrow> bool" for w where
  "thread_step w (flag s) (threads s i) f' p' \<Longrightarrow>
   sys_step w s (s\<lparr>flag := f', threads := (threads s)(i := p')\<rparr>)"

inductive readiness_reachable :: "'c watch \<Rightarrow> 'c readiness_sys \<Rightarrow> bool" for w where
  reach_init: "readiness_reachable w \<lparr>flag = new_flag w, threads = \<lambda>_. Idle\<rparr>"
| reach_step: "readiness_reachable w s \<Longrightarrow> sys_step w s s' \<Longrightarrow> readiness_reachable w s'"

text \<open>
  The operations run without interruption, as functions. The second argument of the first says
  whether \<open>try_lock\<close> gets the lock, that of the others whether the lock is obtained in time.
\<close>

definition is_ready_run :: "'c watch \<Rightarrow> bool \<Rightarrow> 'c ReadinessFlag \<Rightarrow> bool \<times> 'c ReadinessFlag" where
  "is_ready_run w locked f =
     (if ready f then (True, f)
      else if locked \<and> tokens f = {} then
        (let (was_ready, f1) = swap_ready f in
         (True, if was_ready then f1 else f1\<lparr>tx := send w (tx f1) True\<rparr>))
      else (ready f, f))"

definition subscribe_run :: "bool \<Rightarrow> 'c ReadinessFlag \<Rightarrow> ((ReadinessError + token) \<times> 'c ReadinessFlag) option" where
  "subscribe_run locked f =
     (if ready f then Some (Inl FlagAlreadyReady, f)
      else if \<not> locked then Some (Inl TokenLockFailed, f)
      else
        (case subscribe_locked f of
           None \<Rightarrow> None
         | Some (t, f1) \<Rightarrow> Some (case t of None \<Rightarrow> Inl FlagAlreadyReady | Some t \<Rightarrow> Inr t, f1)))"

definition mark_ready_run :: "'c watch \<Rightarrow> bool \<Rightarrow> token \<Rightarrow> 'c ReadinessFlag \<Rightarrow>
    (ReadinessError + bool) \<times> 'c ReadinessFlag" where
  "mark_ready_run w locked t f =
     (if ready f \<or> t = 0 then (Inr False, f)
      else if \<not> locked then (Inl TokenLockFailed, f)
      else
        (let (marked, f1) = mark_locked t f in
         if \<not> marked then (Inr False, f1) else (Inr True, f1\<lparr>tx := send w (tx f1) True\<rparr>)))"

section \<open>Tokens\<close>

text \<open>The loop ends as soon as some value within reach is free, and only with such a value.\<close>

lemma alloc_token_reaches:
  "n + of_nat k \<noteq> 0 \<Longrightarrow> n + of_nat k \<notin> used \<Longrightarrow>
   \<exists>t m. alloc_token n used = Some (t, m) \<and> t \<noteq> 0 \<and> t \<notin> used"
proof (induction k arbitrary: n)
  case 0
  then show ?case by (subst alloc_token.simps) simp
next
  case (Suc k)
  show ?case
  proof (cases "n \<noteq> 0 \<and> n \<notin> used")
    case True
    then show ?thesis by (subst alloc_token.simps) simp
  next
    case False
    have "n + 1 + of_nat k = n + of_nat (Suc k)" by simp
    with Suc.IH [of "n + 1"] Suc.prems have "\<exists>t m. alloc_token (n + 1) used = Some (t, m) \<and> t \<noteq> 0 \<and> t \<notin> used"
      by metis
    with False show ?thesis by (subst alloc_token.simps) simp
  qed
qed

lemma alloc_token_total:
  assumes "card used < 2 ^ 32 - 1"
  shows "\<exists>t m. alloc_token n used = Some (t, m) \<and> t \<noteq> 0 \<and> t \<notin> used"
proof -
  have "card (insert 0 used) < card (UNIV :: token set)"
    using assms by (simp add: card_word card_insert_if)
  then have "insert 0 used \<noteq> UNIV" by auto
  then obtain t where "t \<noteq> 0" "t \<notin> used" by auto
  moreover have "n + of_nat (unat (t - n)) = t" by simp
  ultimately show ?thesis using alloc_token_reaches [of n "unat (t - n)" used] by simp
qed

section \<open>Uninterrupted operations are runs of steps\<close>

text \<open>Steps of one thread alone.\<close>

definition own_steps :: "'c watch \<Rightarrow> 'c ReadinessFlag \<times> pc \<Rightarrow> 'c ReadinessFlag \<times> pc \<Rightarrow> bool" where
  "own_steps w = rtranclp (\<lambda>(f, p) (f', p'). thread_step w f p f' p')"

lemma own_steps_refl [intro]: "own_steps w (f, p) (f, p)"
  by (simp add: own_steps_def)

lemma own_steps_step: "thread_step w f p f1 p1 \<Longrightarrow> own_steps w (f1, p1) x \<Longrightarrow> own_steps w (f, p) x"
  unfolding own_steps_def by (rule converse_rtranclp_into_rtranclp) auto

lemma is_ready_run_steps:
  assumes "is_ready_run w locked f = (r, f')"
  shows "own_steps w (f, AtIsReady b) (f', is_ready_returns b r)"
proof (cases "ready f")
  case True
  with assms own_steps_step [OF is_ready_load [of w f b]] show ?thesis
    by (auto simp: is_ready_run_def)
next
  case False
  have "own_steps w (f, AtTryLock b) (f', is_ready_returns b r)"
  proof (cases "locked \<and> tokens f = {}")
    case True
    with False have "thread_step w f (AtTryLock b) (f\<lparr>ready := True\<rparr>) (AtSend b)"
      using try_lock_empty [of f False "f\<lparr>ready := True\<rparr>" w b] by (simp add: swap_ready_def)
    moreover have "own_steps w (f\<lparr>ready := True\<rparr>, AtSend b) (f', is_ready_returns b r)"
      using assms True False own_steps_step [OF is_ready_send own_steps_refl, of w "f\<lparr>ready := True\<rparr>" b]
      by (auto simp: is_ready_run_def swap_ready_def)
    ultimately show ?thesis by (rule own_steps_step)
  next
    case unlocked: False
    with False assms have "own_steps w (f, AtReload b) (f', is_ready_returns b r)"
      using own_steps_step [OF is_ready_reload own_steps_refl, of w f b] by (auto simp: is_ready_run_def)
    with try_lock_other show ?thesis by (rule own_steps_step)
  qed
  with own_steps_step [OF is_ready_load [of w f b]] False show ?thesis by simp
qed

lemma subscribe_run_steps:
  "subscribe_run locked f = Some (r, f') \<Longrightarrow> own_steps w (f, AtSubscribe) (f', Returned (Subscribed r))"
  by (rule own_steps_step [OF subscribe_load])
    (auto simp: subscribe_run_def split: if_splits option.splits
      intro: own_steps_step [OF subscribe_timeout] own_steps_step [OF subscribe_lock])

lemma mark_ready_run_steps:
  assumes "mark_ready_run w locked t f = (r, f')"
  shows "own_steps w (f, AtMark t) (f', Returned (Marked r))"
proof (cases "ready f \<or> t = 0")
  case True
  with assms own_steps_step [OF mark_load [of w f t]] show ?thesis by (auto simp: mark_ready_run_def)
next
  case False
  obtain marked f1 where m: "mark_locked t f = (marked, f1)" by (cases "mark_locked t f")
  have "own_steps w (f, AtMarkLock t) (f', Returned (Marked r))"
  proof (cases locked)
    case True
    have "own_steps w (f1, if marked then AtMarkSend else Returned (Marked (Inr False))) (f', Returned (Marked r))"
      using assms True False m own_steps_step [OF mark_send own_steps_refl, of w f1]
      by (auto simp: mark_ready_run_def split: if_splits)
    with mark_lock [OF m] show ?thesis by (rule own_steps_step)
  next
    case unlocked: False
    with assms False show ?thesis
      using own_steps_step [OF mark_timeout own_steps_refl, of w f t] by (auto simp: mark_ready_run_def)
  qed
  with own_steps_step [OF mark_load [of w f t]] False show ?thesis by simp
qed

section \<open>Invariants\<close>

fun sending :: "pc \<Rightarrow> bool" where
  "sending (AtSend _) \<longleftrightarrow> True"
| "sending AtMarkSend \<longleftrightarrow> True"
| "sending _ \<longleftrightarrow> False"

fun holds_rx :: "pc \<Rightarrow> bool" where
  "holds_rx (AtBorrow _) \<longleftrightarrow> True"
| "holds_rx (AtChanged _) \<longleftrightarrow> True"
| "holds_rx (AtBorrowAgain _) \<longleftrightarrow> True"
| "holds_rx _ \<longleftrightarrow> False"

fun seen_version :: "pc \<Rightarrow> nat" where
  "seen_version (AtBorrow v) = v"
| "seen_version (AtChanged v) = v"
| "seen_version (AtBorrowAgain v) = v"
| "seen_version _ = 0"

text \<open>
  Of the flag alone: tokens are not zero, and none is left once the flag is ready. Of a thread: it
  has not seen a future version, and one that is parked on the current version knows its value is
  false.
\<close>

definition flag_ok :: "'c ReadinessFlag \<Rightarrow> bool" where
  "flag_ok f \<longleftrightarrow> 0 \<notin> tokens f \<and> (ready f \<longrightarrow> tokens f = {})"

definition pc_ok :: "'c watch \<Rightarrow> 'c ReadinessFlag \<Rightarrow> pc \<Rightarrow> bool" where
  "pc_ok w f p \<longleftrightarrow>
     seen_version p \<le> version w (tx f) \<and>
     (case p of AtChanged v \<Rightarrow> v = version w (tx f) \<longrightarrow> \<not> borrow w (tx f) | _ \<Rightarrow> True)"

definition sys_ok :: "'c watch \<Rightarrow> 'c readiness_sys \<Rightarrow> bool" where
  "sys_ok w s \<longleftrightarrow>
     flag_ok (flag s) \<and> (\<forall>i. pc_ok w (flag s) (threads s i)) \<and>
     finite {i. holds_rx (threads s i)} \<and> receivers w (tx (flag s)) = card {i. holds_rx (threads s i)} \<and>
     (\<forall>i. sending (threads s i) \<longrightarrow> ready (flag s) \<and> \<not> borrow w (tx (flag s))) \<and>
     (\<forall>i j. sending (threads s i) \<longrightarrow> sending (threads s j) \<longrightarrow> i = j) \<and>
     (\<not> ready (flag s) \<longrightarrow> \<not> borrow w (tx (flag s)))"

text \<open>What one action of a thread does to the flag.\<close>

lemma alloc_token_fresh: "alloc_token n used = Some tm \<Longrightarrow> fst tm \<noteq> 0 \<and> fst tm \<notin> used"
  by (erule alloc_token.raw_induct [rotated]) (auto split: if_splits)

lemma alloc_token_SomeD: "alloc_token n used = Some (t, m) \<Longrightarrow> t \<noteq> 0 \<and> t \<notin> used"
  using alloc_token_fresh by fastforce

lemma step_flag_ok: "thread_step w f p f' p' \<Longrightarrow> flag_ok f \<Longrightarrow> flag_ok f'"
  by (induction rule: thread_step.induct)
    (auto simp: flag_ok_def swap_ready_def mark_locked_def subscribe_locked_def
      split: if_splits option.splits dest: alloc_token_SomeD)

lemma step_ready: "thread_step w f p f' p' \<Longrightarrow> ready f \<Longrightarrow> ready f'"
  by (induction rule: thread_step.induct)
    (auto simp: swap_ready_def mark_locked_def subscribe_locked_def split: if_splits option.splits)

text \<open>The channel changes only when a broadcast is due, or when a waiter takes or drops a receiver.\<close>

lemma step_tx:
  assumes "thread_step w f p f' p'"
  shows "tx f' = tx f \<and> holds_rx p' = holds_rx p \<or>
    sending p \<and> tx f' = send w (tx f) True \<and> \<not> holds_rx p \<and> \<not> holds_rx p' \<or>
    tx f' = add_rx w (tx f) \<and> \<not> holds_rx p \<and> holds_rx p' \<or>
    tx f' = drop_rx w (tx f) \<and> holds_rx p \<and> \<not> holds_rx p'"
  using assms
proof (induction rule: thread_step.induct)
  case (call_is_ready p f)
  then show ?case by (cases p) auto
next
  case (call_subscribe p f)
  then show ?case by (cases p) auto
next
  case (call_mark_ready p f t)
  then show ?case by (cases p) auto
next
  case (call_wait_ready p f)
  then show ?case by (cases p) auto
qed (auto simp: swap_ready_def mark_locked_def subscribe_locked_def is_ready_returns_def
      split: if_splits option.splits)

lemma step_sending:
  assumes "thread_step w f p f' p'" "sending p'" "flag_ok f"
  shows "\<not> ready f \<and> ready f' \<and> tx f' = tx f"
  using assms
  by (induction rule: thread_step.induct)
    (auto simp: swap_ready_def mark_locked_def is_ready_returns_def flag_ok_def split: if_splits option.splits)

text \<open>An action leaves the value and the version of the channel alone, or delivers a new value.\<close>

lemma laws_keep:
  assumes "watch_laws w"
  shows "borrow w (add_rx w c) = borrow w c" "borrow w (drop_rx w c) = borrow w c"
    "version w (add_rx w c) = version w c" "version w (drop_rx w c) = version w c"
    "receivers w (add_rx w c) = receivers w c + 1" "receivers w (drop_rx w c) = receivers w c - 1"
    "receivers w (send w c v) = receivers w c"
    "receivers w c = 0 \<Longrightarrow> send w c v = c"
    "receivers w c \<noteq> 0 \<Longrightarrow> borrow w (send w c v) = v"
    "receivers w c \<noteq> 0 \<Longrightarrow> version w c < version w (send w c v)"
    "\<not> borrow w (channel0 w)" "receivers w (channel0 w) = 0"
  using assms by (simp_all add: watch_laws_def)

lemma step_version:
  assumes "watch_laws w" "thread_step w f p f' p'"
  shows "version w (tx f') = version w (tx f) \<and> borrow w (tx f') = borrow w (tx f) \<or>
    version w (tx f) < version w (tx f') \<and> sending p"
  using step_tx [OF assms(2)] laws_keep [OF assms(1)]
  by (cases "receivers w (tx f) = 0") auto

lemma pc_ok_mono:
  assumes "watch_laws w" "thread_step w f q f' q'" "pc_ok w f p"
  shows "pc_ok w f' p"
  using step_version [OF assms(1,2)] assms(3) by (auto simp: pc_ok_def split: pc.splits)

lemma step_pc_ok:
  assumes "thread_step w f p f' p'" "watch_laws w" "pc_ok w f p"
  shows "pc_ok w f' p'"
  using assms
  by (induction rule: thread_step.induct)
    (auto simp: pc_ok_def is_ready_returns_def laws_keep swap_ready_def mark_locked_def)

lemma holds_rx_upd:
  "{j. holds_rx ((t(i := p')) j)} =
     (if holds_rx p' then insert i {j. holds_rx (t j)} else {j. holds_rx (t j)} - {i})"
  by auto

lemma step_receivers:
  assumes "thread_step w f (t i) f' p'" "watch_laws w"
    and H: "finite {j. holds_rx (t j)}" "receivers w (tx f) = card {j. holds_rx (t j)}"
  shows "receivers w (tx f') = card {j. holds_rx ((t(i := p')) j)}"
proof -
  let ?H = "{j. holds_rx (t j)}"
  have i: "i \<in> ?H \<longleftrightarrow> holds_rx (t i)" by simp
  have "card (insert i ?H) = card ?H + 1" if "\<not> holds_rx (t i)"
    using that H(1) by simp
  moreover have "insert i ?H = ?H" if "holds_rx (t i)"
    using that by auto
  moreover have "?H - {i} = ?H" if "\<not> holds_rx (t i)"
    using that by auto
  moreover have "card (?H - {i}) = card ?H - 1" if "holds_rx (t i)"
    using that H(1) by simp
  ultimately show ?thesis
    using step_tx [OF assms(1)] laws_keep [OF assms(2)] H(2) unfolding holds_rx_upd by auto
qed

lemma sys_ok_step:
  assumes "sys_step w s s'" "watch_laws w" "sys_ok w s"
  shows "sys_ok w s'"
  using assms(1)
proof cases
  case (1 i f' p')
  have ok: "flag_ok (flag s)" "\<And>j. pc_ok w (flag s) (threads s j)"
      "finite {i. holds_rx (threads s i)}" "receivers w (tx (flag s)) = card {i. holds_rx (threads s i)}"
    and send: "\<And>j. sending (threads s j) \<Longrightarrow> ready (flag s) \<and> \<not> borrow w (tx (flag s))"
    and one: "\<And>j k. sending (threads s j) \<Longrightarrow> sending (threads s k) \<Longrightarrow> j = k"
    and quiet: "\<not> ready (flag s) \<Longrightarrow> \<not> borrow w (tx (flag s))"
    using assms(3) unfolding sys_ok_def by auto
  have new: "sending p' \<Longrightarrow> \<not> ready (flag s) \<and> ready f' \<and> tx f' = tx (flag s)"
    using step_sending [OF 1(2) _ ok(1)] .
  have val: "borrow w (tx f') = borrow w (tx (flag s)) \<or> sending (threads s i)"
    using step_version [OF assms(2) 1(2)] by auto
  have ready: "ready (flag s) \<Longrightarrow> ready f'" using step_ready [OF 1(2)] .
  have pcs: "pc_ok w f' (((threads s)(i := p')) j)" for j
    using step_pc_ok [OF 1(2) assms(2) ok(2)] pc_ok_mono [OF assms(2) 1(2) ok(2) [of j]] by simp
  have sends: "ready f' \<and> \<not> borrow w (tx f')" if "sending (((threads s)(i := p')) j)" for j
  proof (cases "j = i")
    case True
    with that new quiet show ?thesis by simp
  next
    case False
    with that send [of j] one [of i j] val ready show ?thesis by auto
  qed
  have ones: "j = k" if "sending (((threads s)(i := p')) j)" "sending (((threads s)(i := p')) k)" for j k
    using that new send [of j] send [of k] one [of j k] by (auto split: if_splits)
  have quiet': "\<not> borrow w (tx f')" if "\<not> ready f'"
    using that ready quiet val send [of i] by auto
  have "finite {j. holds_rx (((threads s)(i := p')) j)}"
    unfolding holds_rx_upd using ok(3) by simp
  moreover have "receivers w (tx f') = card {j. holds_rx (((threads s)(i := p')) j)}"
    by (rule step_receivers [OF 1(2) assms(2) ok(3,4)])
  moreover have "flag s' = f'" "threads s' = (threads s)(i := p')" by (simp_all add: 1(1))
  ultimately show ?thesis
    unfolding sys_ok_def
    using step_flag_ok [OF 1(2) ok(1)] pcs sends ones quiet' by (simp only: simp_thms) blast
qed

lemma reachable_ok:
  assumes "readiness_reachable w s" "watch_laws w"
  shows "sys_ok w s"
  using assms(1)
proof induction
  case reach_init
  show ?case
    by (simp add: sys_ok_def flag_ok_def pc_ok_def new_flag_def laws_keep [OF assms(2)])
next
  case (reach_step s s')
  with sys_ok_step assms(2) show ?case by blast
qed

section \<open>A waiter that is never woken\<close>

text \<open>
  The flag is ready, no broadcast is due and thread \<open>i\<close> is parked on the current version: nothing
  any thread can do changes that.
\<close>

definition lost :: "'c watch \<Rightarrow> nat \<Rightarrow> nat \<Rightarrow> 'c readiness_sys \<Rightarrow> bool" where
  "lost w i v s \<longleftrightarrow>
     threads s i = AtChanged v \<and> version w (tx (flag s)) = v \<and> flag_ok (flag s) \<and> ready (flag s) \<and>
     (\<forall>j. \<not> sending (threads s j))"

lemma lost_step:
  assumes "sys_step w s s'" "watch_laws w" "lost w i v s"
  shows "lost w i v s'"
  using assms(1)
proof cases
  case (1 j f' p')
  have s: "threads s i = AtChanged v" "version w (tx (flag s)) = v" "flag_ok (flag s)" "ready (flag s)"
      "\<not> sending (threads s k)" for k
    using assms(3) by (simp_all add: lost_def)
  have "\<not> thread_step w (flag s) (AtChanged v) f' p'"
    by (rule notI, erule parked_step) (use s(2) in auto)
  then have "j \<noteq> i" using 1(2) s(1) by auto
  moreover have "version w (tx f') = v" using step_version [OF assms(2) 1(2)] s(2,5) by auto
  moreover have "\<not> sending p'" using step_sending [OF 1(2) _ s(3)] s(4) by blast
  ultimately show ?thesis
    unfolding lost_def 1(1) using s step_flag_ok [OF 1(2)] step_ready [OF 1(2)] by simp
qed

lemma lost_forever: "rtranclp (sys_step w) s s' \<Longrightarrow> watch_laws w \<Longrightarrow> lost w i v s \<Longrightarrow> lost w i v s'"
  by (induction rule: rtranclp_induct) (auto intro: lost_step)

text \<open>Reachability, one thread at a time.\<close>

lemma reach_thread:
  "readiness_reachable w \<lparr>flag = f, threads = t\<rparr> \<Longrightarrow> thread_step w f (t i) f' p' \<Longrightarrow>
   readiness_reachable w \<lparr>flag = f', threads = t(i := p')\<rparr>"
  using reach_step [of w "\<lparr>flag = f, threads = t\<rparr>"] sys_step.intros [of w "\<lparr>flag = f, threads = t\<rparr>" i f' p']
  by simp

lemma reach_thread_to:
  assumes "readiness_reachable w \<lparr>flag = f, threads = t(i := p)\<rparr>" "thread_step w f p f' p'"
  shows "readiness_reachable w \<lparr>flag = f', threads = t(i := p')\<rparr>"
  using reach_thread [OF assms(1), of i f' p'] assms(2) by simp

lemma reach_own_steps:
  assumes "own_steps w x y" "readiness_reachable w \<lparr>flag = fst x, threads = t(i := snd x)\<rparr>"
  shows "readiness_reachable w \<lparr>flag = fst y, threads = t(i := snd y)\<rparr>"
  using assms(1) unfolding own_steps_def
proof (induction rule: rtranclp_induct)
  case base
  show ?case by (rule assms(2))
next
  case (step y z)
  obtain f p f' p' where yz: "y = (f, p)" "z = (f', p')" by (cases y, cases z)
  with step.hyps(2) have "thread_step w f p f' p'" by simp
  with step.IH show ?case unfolding yz fst_conv snd_conv by (rule reach_thread_to)
qed

lemma alloc_first: "alloc_token 1 {} = Some (1, 2)"
  by (subst alloc_token.simps) simp

text \<open>
  The schedule: thread 1 subscribes; thread 0 calls \<open>wait_ready\<close>, finds the flag not ready and is
  suspended before it subscribes to the channel; thread 1 marks the flag ready and broadcasts while
  there is no receiver; thread 0 goes on.
\<close>

definition subscribed_flag :: "'c watch \<Rightarrow> 'c ReadinessFlag" where
  "subscribed_flag w = \<lparr>ready = False, next_id = 2, tokens = {1}, tx = channel0 w\<rparr>"

definition suspended_waiter :: "nat \<Rightarrow> pc" where
  "suspended_waiter = (\<lambda>_. Idle)(1 := Returned (Subscribed (Inr 1)), 0 := AtAddRx)"

lemma suspended_waiter_reachable:
  "readiness_reachable w \<lparr>flag = subscribed_flag w, threads = suspended_waiter\<rparr>"
proof -
  let ?F = "subscribed_flag w"
  let ?t = "(\<lambda>_ :: nat. Idle)(1 := Returned (Subscribed (Inr 1)))"
  have "readiness_reachable w \<lparr>flag = new_flag w, threads = (\<lambda>_. Idle)(1 := AtSubscribe)\<rparr>"
    by (rule reach_thread [OF reach_init]) (simp add: call_subscribe)
  moreover have "own_steps w (new_flag w, AtSubscribe) (?F, Returned (Subscribed (Inr 1)))"
    by (rule subscribe_run_steps [of True])
      (simp add: subscribe_run_def subscribe_locked_def new_flag_def subscribed_flag_def alloc_first)
  ultimately have "readiness_reachable w \<lparr>flag = ?F, threads = ?t\<rparr>"
    using reach_own_steps [of w "(new_flag w, AtSubscribe)" _ "\<lambda>_. Idle" 1] by fastforce
  then have "readiness_reachable w \<lparr>flag = ?F, threads = ?t(0 := AtIsReady True)\<rparr>"
    by (rule reach_thread) (simp add: call_wait_ready)
  moreover have "own_steps w (?F, AtIsReady True) (?F, AtAddRx)"
    using is_ready_run_steps [of w True ?F False ?F True]
    by (simp add: is_ready_run_def is_ready_returns_def subscribed_flag_def)
  ultimately show ?thesis
    using reach_own_steps [of w "(?F, AtIsReady True)" "(?F, AtAddRx)" ?t 0] by (simp add: suspended_waiter_def)
qed

text \<open>Thread 1 marks the flag ready, at a point where thread 0 is at \<open>p\<close>.\<close>

lemma mark_reachable:
  assumes "readiness_reachable w \<lparr>flag = f, threads = suspended_waiter(0 := p)\<rparr>" "\<not> ready f" "1 \<in> tokens f"
  shows "readiness_reachable w
    \<lparr>flag = f\<lparr>ready := True, tokens := {}, tx := send w (tx f) True\<rparr>,
     threads = (suspended_waiter(1 := Returned (Marked (Inr True))))(0 := p)\<rparr>"
proof -
  let ?t = "suspended_waiter(0 := p)"
  let ?R = "f\<lparr>ready := True, tokens := {}, tx := send w (tx f) True\<rparr>"
  have "readiness_reachable w \<lparr>flag = f, threads = ?t(1 := AtMark 1)\<rparr>"
    by (rule reach_thread [OF assms(1)]) (simp add: call_mark_ready suspended_waiter_def)
  moreover have "own_steps w (f, AtMark 1) (?R, Returned (Marked (Inr True)))"
    by (rule mark_ready_run_steps [of w True]) (simp add: mark_ready_run_def mark_locked_def assms(2,3))
  ultimately have "readiness_reachable w \<lparr>flag = ?R, threads = ?t(1 := Returned (Marked (Inr True)))\<rparr>"
    using reach_own_steps [of w "(f, AtMark 1)" "(?R, Returned (Marked (Inr True)))" ?t 1] by simp
  moreover have "?t(1 := Returned (Marked (Inr True))) = (suspended_waiter(1 := Returned (Marked (Inr True))))(0 := p)"
    by (rule ext) simp
  ultimately show ?thesis by simp
qed

lemma missed_broadcast_reachable:
  assumes w: "watch_laws w"
  shows "\<exists>s v. readiness_reachable w s \<and> lost w 0 v s"
proof -
  let ?R = "\<lparr>ready = True, next_id = 2, tokens = {}, tx = channel0 w\<rparr>"
  let ?m = "suspended_waiter(1 := Returned (Marked (Inr True)))"
  have "readiness_reachable w \<lparr>flag = subscribed_flag w, threads = suspended_waiter(0 := AtAddRx)\<rparr>"
    using suspended_waiter_reachable [of w] by (simp add: suspended_waiter_def)
  from mark_reachable [OF this]
  have "readiness_reachable w \<lparr>flag = ?R, threads = ?m(0 := AtAddRx)\<rparr>"
    by (simp add: subscribed_flag_def laws_keep [OF w])
  from reach_thread_to [OF this wait_add_rx]
  have "readiness_reachable w \<lparr>flag = ?R\<lparr>tx := add_rx w (channel0 w)\<rparr>, threads = ?m(0 := AtBorrow (version w (channel0 w)))\<rparr>"
    by simp
  from reach_thread_to [OF this wait_borrow_false]
  have "readiness_reachable w \<lparr>flag = ?R\<lparr>tx := add_rx w (channel0 w)\<rparr>, threads = ?m(0 := AtChanged (version w (channel0 w)))\<rparr>"
    by (simp add: laws_keep [OF w])
  moreover have "lost w 0 (version w (channel0 w))
      \<lparr>flag = ?R\<lparr>tx := add_rx w (channel0 w)\<rparr>, threads = ?m(0 := AtChanged (version w (channel0 w)))\<rparr>"
    by (simp add: lost_def flag_ok_def laws_keep [OF w] suspended_waiter_def)
  ultimately show ?thesis by blast
qed

section \<open>Properties\<close>

text \<open>A channel with its value, version and receiver count, as an instance of the laws.\<close>

definition plain_watch :: "(bool \<times> nat \<times> nat) watch" where
  "plain_watch =
     \<lparr>channel0 = (False, 0, 0),
      send = (\<lambda>(b, v, n) x. if n = 0 then (b, v, n) else (x, v + 1, n)),
      add_rx = (\<lambda>(b, v, n). (b, v, n + 1)), drop_rx = (\<lambda>(b, v, n). (b, v, n - 1)),
      receivers = (\<lambda>(b, v, n). n), borrow = (\<lambda>(b, v, n). b), version = (\<lambda>(b, v, n). v)\<rparr>"

lemma plain_watch_laws: "watch_laws plain_watch"
  by (auto simp: watch_laws_def plain_watch_def)

text \<open>
  However the threads interleave, the flag becomes ready at most once and stays so: no token is
  zero, no token outlives readiness, a step never takes readiness back, and at most one thread has a
  broadcast to make, only after the flag is ready.
\<close>

theorem readiness_once:
  assumes "watch_laws w" "readiness_reachable w s"
  shows "0 \<notin> tokens (flag s) \<and> (ready (flag s) \<longrightarrow> tokens (flag s) = {}) \<and>
    (\<forall>s'. sys_step w s s' \<longrightarrow> ready (flag s) \<longrightarrow> ready (flag s')) \<and>
    (\<forall>i j. sending (threads s i) \<longrightarrow> ready (flag s) \<and> (sending (threads s j) \<longrightarrow> i = j))"
proof -
  have "ready (flag s')" if "sys_step w s s'" "ready (flag s)" for s'
    using that(1)
  proof cases
    case (1 i f' p')
    with step_ready that(2) show ?thesis by auto
  qed
  then show ?thesis using reachable_ok [OF assms(2,1)] unfolding sys_ok_def flag_ok_def by blast
qed

theorem readiness_once_witness:
  "0 \<notin> tokens (new_flag plain_watch)"
  using readiness_once [OF plain_watch_laws reach_init] by simp

text \<open>
  A waiter that has its receiver before the broadcast is woken: the broadcast reaches the
  channel, and once it has, the waiter's own steps take it to its return.
\<close>

theorem registered_waiter_released:
  assumes "watch_laws w" "readiness_reachable w s" "holds_rx (threads s i)"
  shows "(\<forall>j f' p'. sending (threads s j) \<longrightarrow> thread_step w (flag s) (threads s j) f' p' \<longrightarrow> borrow w (tx f')) \<and>
    (borrow w (tx (flag s)) \<longrightarrow> (\<exists>f'. own_steps w (flag s, threads s i) (f', Returned Waited)))"
proof -
  have ok: "pc_ok w (flag s) (threads s i)" "finite {i. holds_rx (threads s i)}"
      "receivers w (tx (flag s)) = card {i. holds_rx (threads s i)}"
    using reachable_ok [OF assms(2,1)] by (auto simp: sys_ok_def)
  then have rx: "receivers w (tx (flag s)) \<noteq> 0" using assms(3) by auto
  have "borrow w (tx f')" if "sending (threads s j)" "thread_step w (flag s) (threads s j) f' p'" for j f' p'
  proof -
    have "tx f' = send w (tx (flag s)) True"
      using that(2,1) by (cases rule: thread_step.cases) (auto elim: at_rest.elims)
    then show ?thesis using rx laws_keep(9) [OF assms(1)] by simp
  qed
  moreover have "\<exists>f'. own_steps w (flag s, threads s i) (f', Returned Waited)" if b: "borrow w (tx (flag s))"
  proof -
    have again: "own_steps w (flag s, AtBorrowAgain v) ((flag s)\<lparr>tx := drop_rx w (tx (flag s))\<rparr>, Returned Waited)" for v
      by (rule own_steps_step [OF wait_again_true [OF b] own_steps_refl])
    show ?thesis
    proof (cases "threads s i")
      case (AtBorrow v)
      with own_steps_step [OF wait_borrow_true [OF b, of v] own_steps_refl] show ?thesis by auto
    next
      case (AtChanged v)
      with ok(1) b have "version w (tx (flag s)) \<noteq> v" by (auto simp: pc_ok_def)
      with AtChanged own_steps_step [OF wait_changed again] show ?thesis by auto
    next
      case (AtBorrowAgain v)
      with again show ?thesis by auto
    qed (use assms(3) in auto)
  qed
  ultimately show ?thesis by blast
qed

theorem registered_waiter_released_witness:
  "\<exists>s f'. readiness_reachable plain_watch s \<and> threads s 0 = AtBorrow 0 \<and> ready (flag s) \<and>
     own_steps plain_watch (flag s, AtBorrow 0) (f', Returned Waited)"
proof -
  have "readiness_reachable plain_watch \<lparr>flag = subscribed_flag plain_watch, threads = suspended_waiter(0 := AtAddRx)\<rparr>"
    using suspended_waiter_reachable [of plain_watch] by (simp add: suspended_waiter_def)
  from reach_thread_to [OF this wait_add_rx]
  have "readiness_reachable plain_watch
      \<lparr>flag = \<lparr>ready = False, next_id = 2, tokens = {1}, tx = (False, 0, 1)\<rparr>, threads = suspended_waiter(0 := AtBorrow 0)\<rparr>"
    by (simp add: subscribed_flag_def plain_watch_def)
  from mark_reachable [OF this]
  have r: "readiness_reachable plain_watch
      \<lparr>flag = \<lparr>ready = True, next_id = 2, tokens = {}, tx = (True, 1, 1)\<rparr>,
       threads = (suspended_waiter(1 := Returned (Marked (Inr True))))(0 := AtBorrow 0)\<rparr>" (is "readiness_reachable _ ?s")
    by (simp add: plain_watch_def)
  have "borrow plain_watch (tx (flag ?s))" by (simp add: plain_watch_def)
  with registered_waiter_released [OF plain_watch_laws r, of 0]
  obtain f' where "own_steps plain_watch (flag ?s, AtBorrow 0) (f', Returned Waited)" by auto
  with r show ?thesis by (intro exI [of _ ?s] exI [of _ f']) simp
qed

text \<open>
  C34. A waiter that has tested the flag but not yet subscribed to the channel can miss the
  broadcast: there is a reachable state with the flag ready and a thread in \<open>wait_ready\<close>, and
  whatever runs afterwards, that thread never returns.
\<close>

theorem wait_ready_misses_broadcast:
  assumes "watch_laws w"
  shows "\<exists>s. readiness_reachable w s \<and> ready (flag s) \<and>
    (\<forall>s'. rtranclp (sys_step w) s s' \<longrightarrow> (\<exists>v. threads s' 0 = AtChanged v))"
proof -
  from missed_broadcast_reachable [OF assms] obtain s v where s: "readiness_reachable w s" "lost w 0 v s"
    by blast
  have "\<exists>v. threads s' 0 = AtChanged v" if "rtranclp (sys_step w) s s'" for s'
    using lost_forever [OF that assms s(2)] by (auto simp: lost_def)
  moreover have "ready (flag s)" using s(2) by (simp add: lost_def)
  ultimately show ?thesis using s(1) by blast
qed

theorem wait_ready_misses_broadcast_witness:
  "\<exists>s. readiness_reachable plain_watch s \<and> ready (flag s) \<and> (\<exists>v. threads s 0 = AtChanged v)"
  using wait_ready_misses_broadcast [OF plain_watch_laws] by blast

text \<open>
  C35. As long as fewer than \<open>2 ^ 32 - 1\<close> tokens are out, \<open>subscribe\<close> returns, wrapping around past
  zero and past the tokens in use, and when the flag is not ready it returns a new token; marking
  the flag ready with that token then succeeds, and with any token only if it is subscribed.
\<close>

theorem subscribe_terminates:
  assumes "card (tokens f) < 2 ^ 32 - 1" "\<not> ready f"
  shows "\<exists>t f'. subscribe_run True f = Some (Inr t, f') \<and> t \<noteq> 0 \<and> t \<notin> tokens f \<and>
    tokens f' = insert t (tokens f) \<and> \<not> ready f' \<and>
    (\<forall>u. fst (mark_ready_run w True u f') = Inr (u \<noteq> 0 \<and> u \<in> insert t (tokens f)))"
proof -
  from alloc_token_total [OF assms(1), of "next_id f"] obtain t m
    where t: "alloc_token (next_id f) (tokens f) = Some (t, m)" "t \<noteq> 0" "t \<notin> tokens f" by blast
  with assms(2) show ?thesis
    by (auto simp: subscribe_run_def subscribe_locked_def mark_ready_run_def mark_locked_def split: prod.splits)
qed

theorem subscribe_terminates_witness:
  "\<exists>t f'. subscribe_run True \<lparr>ready = False, next_id = - 1, tokens = {- 1}, tx = ()\<rparr> = Some (Inr t, f') \<and>
     t \<noteq> 0 \<and> t \<noteq> - 1 \<and> t \<in> tokens f'"
proof -
  let ?f = "\<lparr>ready = False, next_id = - 1, tokens = {- 1}, tx = ()\<rparr> :: unit ReadinessFlag"
  have "card (tokens ?f) < 2 ^ 32 - 1" "\<not> ready ?f" by simp_all
  from subscribe_terminates [OF this] show ?thesis by fastforce
qed

end
