(* ===== verification/Template.thy ===== *)
theory Template
  imports Prelude "HOL-Library.List_Lexorder"
begin

text \<open>
  \<open>utils/template/src/lib.rs\<close>: the templating of prompt assets, \<open>{{ name }}\<close> with doubled
  delimiters as escapes.

  The cursor of the source is kept as the byte offset that errors report, and the slice behind it
  (\<open>source[literal_start..cursor]\<close>) as the characters read since the last token. A \<open>BTreeSet\<close> and the
  keys of a \<open>BTreeMap\<close> are sorted lists without repetition: the order of strings by code points is
  the order of their UTF-8 bytes.
\<close>

section \<open>Model\<close>

datatype TemplateParseError =
    EmptyPlaceholder nat
  | NestedPlaceholder nat
  | UnmatchedClosingDelimiter nat
  | UnterminatedPlaceholder nat

datatype TemplateRenderError = DuplicateValue rstr | ExtraValue rstr | MissingValue rstr

datatype TemplateError = ParseErr TemplateParseError | RenderErr TemplateRenderError

datatype Segment = Literal rstr | Placeholder rstr

record template =
  placeholders :: "rstr list"
  segments :: "Segment list"

abbreviation open2 :: rstr where "open2 \<equiv> [123, 123]"
abbreviation close2 :: rstr where "close2 \<equiv> [125, 125]"
abbreviation open4 :: rstr where "open4 \<equiv> [123, 123, 123, 123]"
abbreviation close4 :: rstr where "close4 \<equiv> [125, 125, 125, 125]"

definition push_literal :: "Segment list \<Rightarrow> rstr \<Rightarrow> Segment list" where
  "push_literal segs literal =
     (if literal = [] then segs
      else
        (case last_opt segs of
           Some (Literal existing) \<Rightarrow> set_last segs (Literal (existing @ literal))
         | _ \<Rightarrow> segs @ [Literal literal]))"

text \<open>The loop of \<open>parse_placeholder\<close>, with what stands between the opening braces and the cursor.\<close>

fun placeholder_loop :: "nat \<Rightarrow> nat \<Rightarrow> rstr \<Rightarrow> rstr \<Rightarrow> TemplateParseError + (rstr \<times> nat \<times> rstr)" where
  "placeholder_loop start cursor acc [] = Inl (UnterminatedPlaceholder start)"
| "placeholder_loop start cursor acc (ch # rest) =
     (if starts_with (ch # rest) open2 then Inl (NestedPlaceholder start)
      else if starts_with (ch # rest) close2 then
        (let placeholder = trim acc in
         if placeholder = [] then Inl (EmptyPlaceholder start)
         else Inr (placeholder, cursor + 2, drop 2 (ch # rest)))
      else placeholder_loop start (cursor + char_len_utf8 ch) (acc @ [ch]) rest)"

definition parse_placeholder :: "nat \<Rightarrow> rstr \<Rightarrow> TemplateParseError + (rstr \<times> nat \<times> rstr)" where
  "parse_placeholder start rest = placeholder_loop start (start + 2) [] (drop 2 rest)"

lemma placeholder_loop_shorter:
  "placeholder_loop start cursor acc rest = Inr (nm, c, rest') \<Longrightarrow> length rest' < length rest"
  by (induction start cursor acc rest arbitrary: c rest' rule: placeholder_loop.induct)
    (fastforce simp: Let_def split: if_splits)+

lemma parse_placeholder_shorter:
  "parse_placeholder start rest = Inr (nm, c, rest') \<Longrightarrow> length rest' < length rest"
  unfolding parse_placeholder_def by (drule placeholder_loop_shorter) simp

text \<open>
  The loop of \<open>Template::parse\<close>: cursor, the literal being read, what is left of the source, and the
  template so far.
\<close>

function template_loop :: "nat \<Rightarrow> rstr \<Rightarrow> rstr \<Rightarrow> template \<Rightarrow> TemplateParseError + template" where
  "template_loop cursor acc rest t =
     (case rest of
        [] \<Rightarrow> Inr (t\<lparr>segments := push_literal (segments t) acc\<rparr>)
      | ch # rest1 \<Rightarrow>
          if starts_with rest open4 then
            template_loop (cursor + 4) [] (drop 4 rest)
              (t\<lparr>segments := push_literal (push_literal (segments t) acc) open2\<rparr>)
          else if starts_with rest close4 then
            template_loop (cursor + 4) [] (drop 4 rest)
              (t\<lparr>segments := push_literal (push_literal (segments t) acc) close2\<rparr>)
          else if starts_with rest open2 then
            (case parse_placeholder cursor rest of
               Inl e \<Rightarrow> Inl e
             | Inr (placeholder, next_cursor, rest2) \<Rightarrow>
                 template_loop next_cursor [] rest2
                   (t\<lparr>placeholders := insort_insert placeholder (placeholders t),
                      segments := push_literal (segments t) acc @ [Placeholder placeholder]\<rparr>))
          else if starts_with rest close2 then Inl (UnmatchedClosingDelimiter cursor)
          else template_loop (cursor + char_len_utf8 ch) (acc @ [ch]) rest1 t)"
  by pat_completeness auto
termination
  by (relation "measure (\<lambda>(cursor, acc, rest, t). length rest)") (auto dest: parse_placeholder_shorter)

declare template_loop.simps [simp del]

definition parse_template :: "rstr \<Rightarrow> TemplateParseError + template" where
  "parse_template source = template_loop 0 [] source \<lparr>placeholders = [], segments = []\<rparr>"

text \<open>\<open>build_variable_map\<close>: the map as a list of pairs in the order of the keys.\<close>

fun insert_variable :: "rstr \<Rightarrow> rstr \<Rightarrow> (rstr \<times> rstr) list \<Rightarrow> (rstr \<times> rstr) list" where
  "insert_variable k v [] = [(k, v)]"
| "insert_variable k v ((k1, v1) # m) =
     (if k < k1 then (k, v) # (k1, v1) # m else if k = k1 then (k, v) # m else (k1, v1) # insert_variable k v m)"

fun build_variable_map :: "(rstr \<times> rstr) list \<Rightarrow> (rstr \<times> rstr) list \<Rightarrow>
    TemplateRenderError + (rstr \<times> rstr) list" where
  "build_variable_map m [] = Inr m"
| "build_variable_map m ((name, val) # variables) =
     (if map_of m name \<noteq> None then Inl (DuplicateValue name)
      else build_variable_map (insert_variable name val m) variables)"

fun render_segments :: "(rstr \<times> rstr) list \<Rightarrow> rstr \<Rightarrow> Segment list \<Rightarrow> TemplateRenderError + rstr" where
  "render_segments m rendered [] = Inr rendered"
| "render_segments m rendered (Literal literal # segs) = render_segments m (rendered @ literal) segs"
| "render_segments m rendered (Placeholder name # segs) =
     (case map_of m name of
        None \<Rightarrow> Inl (MissingValue name)
      | Some val \<Rightarrow> render_segments m (rendered @ val) segs)"

definition template_render :: "template \<Rightarrow> (rstr \<times> rstr) list \<Rightarrow> TemplateRenderError + rstr" where
  "template_render t variables =
     (case build_variable_map [] variables of
        Inl e \<Rightarrow> Inl e
      | Inr m \<Rightarrow>
          (case find (\<lambda>p. map_of m p = None) (placeholders t) of
             Some p \<Rightarrow> Inl (MissingValue p)
           | None \<Rightarrow>
               (case find (\<lambda>name. name \<notin> set (placeholders t)) (map fst m) of
                  Some name \<Rightarrow> Inl (ExtraValue name)
                | None \<Rightarrow> render_segments m [] (segments t))))"

definition render :: "rstr \<Rightarrow> (rstr \<times> rstr) list \<Rightarrow> TemplateError + rstr" where
  "render source variables =
     (case parse_template source of
        Inl e \<Rightarrow> Inl (ParseErr e)
      | Inr t \<Rightarrow>
          (case template_render t variables of
             Inl e \<Rightarrow> Inl (RenderErr e)
           | Inr out \<Rightarrow> Inr out))"

section \<open>Segments\<close>

fun segment_text :: "(rstr \<Rightarrow> rstr) \<Rightarrow> Segment \<Rightarrow> rstr" where
  "segment_text vals (Literal l) = l"
| "segment_text vals (Placeholder n) = vals n"

fun segment_names :: "Segment list \<Rightarrow> rstr set" where
  "segment_names [] = {}"
| "segment_names (Literal l # segs) = segment_names segs"
| "segment_names (Placeholder n # segs) = insert n (segment_names segs)"

definition segments_text :: "(rstr \<Rightarrow> rstr) \<Rightarrow> Segment list \<Rightarrow> rstr" where
  "segments_text vals segs = concat (map (segment_text vals) segs)"

text \<open>No literal is empty and no two literals are adjacent.\<close>

fun literals_merged :: "Segment list \<Rightarrow> bool" where
  "literals_merged (Literal l # Literal l' # segs) \<longleftrightarrow> False"
| "literals_merged (Literal l # segs) \<longleftrightarrow> l \<noteq> [] \<and> literals_merged segs"
| "literals_merged (Placeholder n # segs) \<longleftrightarrow> literals_merged segs"
| "literals_merged [] \<longleftrightarrow> True"

lemma segments_text_simps [simp]:
  "segments_text vals [] = []" "segments_text vals (s # segs) = segment_text vals s @ segments_text vals segs"
  "segments_text vals (segs @ segs') = segments_text vals segs @ segments_text vals segs'"
  by (simp_all add: segments_text_def)

lemma segment_names_append [simp]: "segment_names (segs @ segs') = segment_names segs \<union> segment_names segs'"
  by (induction segs rule: segment_names.induct) auto

lemma push_literal_cases:
  obtains (nothing) "l = []" "push_literal segs l = segs"
  | (merge) segs0 e where "l \<noteq> []" "segs = segs0 @ [Literal e]" "push_literal segs l = segs0 @ [Literal (e @ l)]"
  | (new) "l \<noteq> []" "\<forall>segs0 e. segs \<noteq> segs0 @ [Literal e]" "push_literal segs l = segs @ [Literal l]"
proof (cases "l = []")
  case True
  show ?thesis by (rule nothing) (simp_all add: push_literal_def True)
next
  case False
  show ?thesis
  proof (cases "\<exists>segs0 e. segs = segs0 @ [Literal e]")
    case True
    then obtain segs0 e where "segs = segs0 @ [Literal e]" by blast
    with False show ?thesis
      by (auto simp: push_literal_def last_opt_def set_last_def intro: merge [of segs0 e])
  next
    case other: False
    have "push_literal segs l = segs @ [Literal l]"
    proof (cases segs rule: rev_cases)
      case (snoc segs0 s)
      with other False show ?thesis by (cases s) (auto simp: push_literal_def last_opt_def)
    qed (simp add: push_literal_def last_opt_def False)
    with False other new show ?thesis by blast
  qed
qed

lemma push_literal_text [simp]: "segments_text vals (push_literal segs l) = segments_text vals segs @ l"
  by (cases rule: push_literal_cases [of l segs]) auto

lemma push_literal_names [simp]: "segment_names (push_literal segs l) = segment_names segs"
  by (cases rule: push_literal_cases [of l segs]) auto

lemma literals_merged_snoc_literal:
  "literals_merged (segs @ [Literal e]) \<longleftrightarrow>
     literals_merged segs \<and> e \<noteq> [] \<and> (\<forall>segs0 e'. segs \<noteq> segs0 @ [Literal e'])"
  by (induction segs rule: literals_merged.induct) (auto simp: Cons_eq_append_conv)

lemma literals_merged_snoc_placeholder [simp]:
  "literals_merged (segs @ [Placeholder n]) \<longleftrightarrow> literals_merged segs"
  by (induction segs rule: literals_merged.induct) auto

lemma push_literal_merged: "literals_merged segs \<Longrightarrow> literals_merged (push_literal segs l)"
  by (cases rule: push_literal_cases [of l segs]) (auto simp: literals_merged_snoc_literal)

section \<open>Tokens of a source\<close>

text \<open>
  What a template source consists of: plain characters, escaped delimiters, and placeholders with
  the raw text between their braces. A token stands for a piece of the source and for a piece of
  the output.
\<close>

datatype tok = TChar rchar | TOpen | TClose | TName rstr

fun tok_source :: "tok \<Rightarrow> rstr" where
  "tok_source (TChar c) = [c]"
| "tok_source TOpen = open4"
| "tok_source TClose = close4"
| "tok_source (TName raw) = open2 @ raw @ close2"

fun tok_text :: "(rstr \<Rightarrow> rstr) \<Rightarrow> tok \<Rightarrow> rstr" where
  "tok_text vals (TChar c) = [c]"
| "tok_text vals TOpen = open2"
| "tok_text vals TClose = close2"
| "tok_text vals (TName raw) = vals (trim raw)"

definition toks_source :: "tok list \<Rightarrow> rstr" where
  "toks_source toks = concat (map tok_source toks)"

definition toks_text :: "(rstr \<Rightarrow> rstr) \<Rightarrow> tok list \<Rightarrow> rstr" where
  "toks_text vals toks = concat (map (tok_text vals) toks)"

definition tok_names :: "tok list \<Rightarrow> rstr set" where
  "tok_names toks = {trim raw | raw. TName raw \<in> set toks}"

lemma toks_simps [simp]:
  "toks_source [] = []" "toks_source (k # toks) = tok_source k @ toks_source toks"
  "toks_text vals [] = []" "toks_text vals (k # toks) = tok_text vals k @ toks_text vals toks"
  "tok_names [] = {}" "tok_names (TChar c # toks) = tok_names toks" "tok_names (TOpen # toks) = tok_names toks"
  "tok_names (TClose # toks) = tok_names toks" "tok_names (TName raw # toks) = insert (trim raw) (tok_names toks)"
  by (auto simp: toks_source_def toks_text_def tok_names_def)

lemma starts_with_split: "starts_with s p \<Longrightarrow> s = p @ drop (length p) s"
  by (auto simp: rust_str prefix_def)

lemma placeholder_loop_Inr:
  "placeholder_loop start cursor acc rest = Inr (nm, c, rest') \<Longrightarrow>
   \<exists>raw. rest = raw @ close2 @ rest' \<and> nm = trim (acc @ raw) \<and> nm \<noteq> [] \<and> c = cursor + len_utf8 raw + 2"
proof (induction start cursor acc rest arbitrary: c rest' rule: placeholder_loop.induct)
  case (2 start cursor acc ch rest)
  show ?case
  proof (cases "starts_with (ch # rest) close2")
    case True
    with 2(2) starts_with_split [OF True] show ?thesis
      by (auto simp: Let_def split: if_splits intro!: exI [of _ "[]"])
  next
    case False
    with 2(2) have "\<not> starts_with (ch # rest) open2"
      "placeholder_loop start (cursor + char_len_utf8 ch) (acc @ [ch]) rest = Inr (nm, c, rest')"
      by (auto split: if_splits)
    with 2(1) False obtain raw where "rest = raw @ close2 @ rest'" "nm = trim ((acc @ [ch]) @ raw)" "nm \<noteq> []"
        "c = cursor + char_len_utf8 ch + len_utf8 raw + 2"
      by blast
    then show ?thesis by (intro exI [of _ "ch # raw"]) simp
  qed
qed simp

lemma parse_placeholder_Inr:
  assumes "parse_placeholder start rest = Inr (nm, c, rest')" "starts_with rest open2"
  shows "\<exists>raw. rest = tok_source (TName raw) @ rest' \<and> nm = trim raw \<and> nm \<noteq> [] \<and>
    c = start + len_utf8 (tok_source (TName raw))"
proof -
  from placeholder_loop_Inr [OF assms(1) [unfolded parse_placeholder_def]] obtain raw
    where "drop 2 rest = raw @ close2 @ rest'" "nm = trim raw" "nm \<noteq> []" "c = start + 2 + len_utf8 raw + 2"
    by auto
  moreover have "rest = open2 @ drop 2 rest" using starts_with_split [OF assms(2)] by (simp add: numeral_2_eq_2)
  ultimately show ?thesis
    by (intro exI [of _ raw]) (simp add: char_len_utf8_def)
qed

lemma placeholder_loop_Inl: "placeholder_loop start cursor acc rest = Inl e \<Longrightarrow>
    e = EmptyPlaceholder start \<or> e = NestedPlaceholder start \<or> e = UnterminatedPlaceholder start"
  by (induction start cursor acc rest rule: placeholder_loop.induct) (auto simp: Let_def split: if_splits)

lemma template_loop_Nil: "template_loop cursor acc [] t = Inr (t\<lparr>segments := push_literal (segments t) acc\<rparr>)"
  by (subst template_loop.simps) simp

lemma template_loop_open4:
  "starts_with rest open4 \<Longrightarrow> template_loop cursor acc rest t =
     template_loop (cursor + 4) [] (drop 4 rest) (t\<lparr>segments := push_literal (push_literal (segments t) acc) open2\<rparr>)"
  by (subst template_loop.simps) (cases rest; simp add: rust_str)

lemma template_loop_close4:
  "starts_with rest close4 \<Longrightarrow> template_loop cursor acc rest t =
     template_loop (cursor + 4) [] (drop 4 rest) (t\<lparr>segments := push_literal (push_literal (segments t) acc) close2\<rparr>)"
  by (subst template_loop.simps) (cases rest; auto simp: rust_str prefix_def)

lemma template_loop_open2:
  "starts_with rest open2 \<Longrightarrow> \<not> starts_with rest open4 \<Longrightarrow> template_loop cursor acc rest t =
     (case parse_placeholder cursor rest of
        Inl e \<Rightarrow> Inl e
      | Inr (placeholder, next_cursor, rest2) \<Rightarrow>
          template_loop next_cursor [] rest2
            (t\<lparr>placeholders := insort_insert placeholder (placeholders t),
               segments := push_literal (segments t) acc @ [Placeholder placeholder]\<rparr>))"
  by (subst template_loop.simps) (cases rest; auto simp: rust_str prefix_def)

lemma template_loop_close2:
  "starts_with rest close2 \<Longrightarrow> \<not> starts_with rest close4 \<Longrightarrow>
   template_loop cursor acc rest t = Inl (UnmatchedClosingDelimiter cursor)"
  by (subst template_loop.simps) (cases rest; auto simp: rust_str prefix_def)

lemma four_starts_two: "\<not> starts_with rest open2 \<Longrightarrow> \<not> starts_with rest open4"
  "\<not> starts_with rest close2 \<Longrightarrow> \<not> starts_with rest close4"
  by (auto simp: rust_str prefix_def)

lemma template_loop_char:
  "\<not> starts_with (ch # rest) open2 \<Longrightarrow> \<not> starts_with (ch # rest) close2 \<Longrightarrow>
   template_loop cursor acc (ch # rest) t = template_loop (cursor + char_len_utf8 ch) (acc @ [ch]) rest t"
  by (subst template_loop.simps) (simp add: four_starts_two)

text \<open>The four ways the loop goes on, and its end.\<close>

lemma template_loop_cases:
  obtains (finish) "rest = []" "template_loop cursor acc rest t = Inr (t\<lparr>segments := push_literal (segments t) acc\<rparr>)"
  | (open_esc) rest' where "rest = tok_source TOpen @ rest'"
      "template_loop cursor acc rest t =
         template_loop (cursor + 4) [] rest' (t\<lparr>segments := push_literal (push_literal (segments t) acc) open2\<rparr>)"
  | (close_esc) rest' where "rest = tok_source TClose @ rest'"
      "template_loop cursor acc rest t =
         template_loop (cursor + 4) [] rest' (t\<lparr>segments := push_literal (push_literal (segments t) acc) close2\<rparr>)"
  | (name) raw rest' where "rest = tok_source (TName raw) @ rest'" "trim raw \<noteq> []"
      "template_loop cursor acc rest t = template_loop (cursor + len_utf8 (tok_source (TName raw))) [] rest'
         (t\<lparr>placeholders := insort_insert (trim raw) (placeholders t),
            segments := push_literal (segments t) acc @ [Placeholder (trim raw)]\<rparr>)"
  | (bad_name) e where "starts_with rest open2" "template_loop cursor acc rest t = Inl e"
      "e = EmptyPlaceholder cursor \<or> e = NestedPlaceholder cursor \<or> e = UnterminatedPlaceholder cursor"
  | (unmatched) "starts_with rest close2" "template_loop cursor acc rest t = Inl (UnmatchedClosingDelimiter cursor)"
  | (char) ch rest' where "rest = ch # rest'" "\<not> starts_with rest open2" "\<not> starts_with rest close2"
      "template_loop cursor acc rest t = template_loop (cursor + char_len_utf8 ch) (acc @ [ch]) rest' t"
proof -
  consider "rest = []" | "starts_with rest open4" | "starts_with rest close4"
    | "starts_with rest open2" "\<not> starts_with rest open4" | "starts_with rest close2" "\<not> starts_with rest close4"
    | ch rest' where "rest = ch # rest'" "\<not> starts_with rest open2" "\<not> starts_with rest close2"
    by (cases rest) auto
  then show ?thesis
  proof cases
    case 1
    with finish show ?thesis by (simp add: template_loop_Nil)
  next
    case 2
    have "rest = tok_source TOpen @ drop 4 rest" using starts_with_split [OF 2] by (simp add: eval_nat_numeral)
    from open_esc [OF this template_loop_open4 [OF 2]] show ?thesis .
  next
    case 3
    have "rest = tok_source TClose @ drop 4 rest" using starts_with_split [OF 3] by (simp add: eval_nat_numeral)
    from close_esc [OF this template_loop_close4 [OF 3]] show ?thesis .
  next
    case 4
    show ?thesis
    proof (cases "parse_placeholder cursor rest")
      case (Inl e)
      with template_loop_open2 [OF 4, of cursor acc t] have "template_loop cursor acc rest t = Inl e" by simp
      from bad_name [OF 4(1) this placeholder_loop_Inl [OF Inl [unfolded parse_placeholder_def]]] show ?thesis .
    next
      case (Inr r)
      then obtain nm c rest2 where r: "parse_placeholder cursor rest = Inr (nm, c, rest2)" by (cases r) auto
      from parse_placeholder_Inr [OF r 4(1)] obtain raw where raw: "rest = tok_source (TName raw) @ rest2"
          "nm = trim raw" "nm \<noteq> []" "c = cursor + len_utf8 (tok_source (TName raw))"
        by blast
      have "template_loop cursor acc rest t = template_loop (cursor + len_utf8 (tok_source (TName raw))) [] rest2
          (t\<lparr>placeholders := insort_insert (trim raw) (placeholders t),
             segments := push_literal (segments t) acc @ [Placeholder (trim raw)]\<rparr>)"
        unfolding template_loop_open2 [OF 4] r raw(4) raw(2) by simp
      from name [OF raw(1) _ this] raw(2,3) show ?thesis by simp
    qed
  next
    case 5
    from unmatched [OF 5(1) template_loop_close2 [OF 5]] show ?thesis .
  next
    case (6 ch rest')
    with char [OF 6] template_loop_char [of ch rest' cursor acc t] show ?thesis by simp
  qed
qed

section \<open>Parsing\<close>

lemma template_loop_tokens:
  "template_loop cursor acc rest t = Inr t' \<Longrightarrow>
   \<exists>toks. rest = toks_source toks \<and> [] \<notin> tok_names toks \<and>
     (\<forall>vals. segments_text vals (segments t') = segments_text vals (segments t) @ acc @ toks_text vals toks) \<and>
     set (placeholders t') = set (placeholders t) \<union> tok_names toks \<and>
     segment_names (segments t') = segment_names (segments t) \<union> tok_names toks"
proof (induction "length rest" arbitrary: cursor acc rest t rule: less_induct)
  case less
  note IH = less.hyps and run = less.prems
  show ?case
  proof (cases rule: template_loop_cases [of rest cursor acc t])
    case finish
    with run show ?thesis by (intro exI [of _ "[]"]) auto
  next
    case (open_esc rest')
    with run IH [of rest' "cursor + 4" "[]"] obtain toks where "rest' = toks_source toks" "[] \<notin> tok_names toks"
        "\<forall>vals. segments_text vals (segments t') = segments_text vals (segments t) @ acc @ open2 @ toks_text vals toks"
        "set (placeholders t') = set (placeholders t) \<union> tok_names toks"
        "segment_names (segments t') = segment_names (segments t) \<union> tok_names toks"
      by fastforce
    with open_esc(1) show ?thesis by (intro exI [of _ "TOpen # toks"]) simp
  next
    case (close_esc rest')
    with run IH [of rest' "cursor + 4" "[]"] obtain toks where "rest' = toks_source toks" "[] \<notin> tok_names toks"
        "\<forall>vals. segments_text vals (segments t') = segments_text vals (segments t) @ acc @ close2 @ toks_text vals toks"
        "set (placeholders t') = set (placeholders t) \<union> tok_names toks"
        "segment_names (segments t') = segment_names (segments t) \<union> tok_names toks"
      by fastforce
    with close_esc(1) show ?thesis by (intro exI [of _ "TClose # toks"]) simp
  next
    case (name raw rest')
    let ?t = "t\<lparr>placeholders := insort_insert (trim raw) (placeholders t),
      segments := push_literal (segments t) acc @ [Placeholder (trim raw)]\<rparr>"
    have "length rest' < length rest" by (simp add: name(1))
    from IH [OF this, of _ "[]" ?t] run name(3) obtain toks where "rest' = toks_source toks" "[] \<notin> tok_names toks"
        "\<forall>vals. segments_text vals (segments t') = segments_text vals (segments ?t) @ [] @ toks_text vals toks"
        "set (placeholders t') = set (placeholders ?t) \<union> tok_names toks"
        "segment_names (segments t') = segment_names (segments ?t) \<union> tok_names toks"
      by metis
    with name(1,2) show ?thesis by (intro exI [of _ "TName raw # toks"]) (auto simp: set_insort_insert)
  next
    case (char ch rest')
    with run IH [of rest' "cursor + char_len_utf8 ch" "acc @ [ch]" t] obtain toks
      where "rest' = toks_source toks" "[] \<notin> tok_names toks"
        "\<forall>vals. segments_text vals (segments t') = segments_text vals (segments t) @ (acc @ [ch]) @ toks_text vals toks"
        "set (placeholders t') = set (placeholders t) \<union> tok_names toks"
        "segment_names (segments t') = segment_names (segments t) \<union> tok_names toks"
      by fastforce
    with char(1) show ?thesis by (intro exI [of _ "TChar ch # toks"]) simp
  qed (use run in auto)
qed

lemma template_loop_canonical:
  "template_loop cursor acc rest t = Inr t' \<Longrightarrow> literals_merged (segments t) \<Longrightarrow>
   sorted (placeholders t) \<and> distinct (placeholders t) \<Longrightarrow>
   literals_merged (segments t') \<and> sorted (placeholders t') \<and> distinct (placeholders t')"
proof (induction "length rest" arbitrary: cursor acc rest t rule: less_induct)
  case less
  note IH = less.hyps and run = less.prems
  show ?case
  proof (cases rule: template_loop_cases [of rest cursor acc t])
    case finish
    with run show ?thesis by (auto simp: push_literal_merged)
  next
    case (open_esc rest')
    with run IH [of rest' "cursor + 4" "[]"] show ?thesis by (simp add: push_literal_merged)
  next
    case (close_esc rest')
    with run IH [of rest' "cursor + 4" "[]"] show ?thesis by (simp add: push_literal_merged)
  next
    case (name raw rest')
    let ?t = "t\<lparr>placeholders := insort_insert (trim raw) (placeholders t),
      segments := push_literal (segments t) acc @ [Placeholder (trim raw)]\<rparr>"
    have "length rest' < length rest" by (simp add: name(1))
    from IH [OF this, of _ "[]" ?t] run name(3) show ?thesis
      by (simp add: push_literal_merged sorted_insort_insert distinct_insort_insert)
  next
    case (char ch rest')
    with run IH [of rest' "cursor + char_len_utf8 ch" "acc @ [ch]" t] show ?thesis by simp
  qed (use run in auto)
qed

fun error_start :: "TemplateParseError \<Rightarrow> nat" where
  "error_start (EmptyPlaceholder n) = n"
| "error_start (NestedPlaceholder n) = n"
| "error_start (UnmatchedClosingDelimiter n) = n"
| "error_start (UnterminatedPlaceholder n) = n"

lemma template_loop_error:
  "template_loop cursor acc rest t = Inl e \<Longrightarrow>
   \<exists>u v. rest = u @ v \<and> error_start e = cursor + len_utf8 u \<and> (starts_with v open2 \<or> starts_with v close2)"
proof (induction "length rest" arbitrary: cursor acc rest t rule: less_induct)
  case less
  have go: ?case if "template_loop cursor acc rest t = template_loop (cursor + len_utf8 piece) a rest' t'"
      "rest = piece @ rest'" "piece \<noteq> []" for piece a rest' t'
  proof -
    have "length rest' < length rest" using that(2,3) by simp
    from less.hyps [OF this, of "cursor + len_utf8 piece" a t'] less.prems that(1) obtain u v
      where "rest' = u @ v" "error_start e = cursor + len_utf8 piece + len_utf8 u" "starts_with v open2 \<or> starts_with v close2"
      by auto
    with that(2) show ?thesis by (intro exI [of _ "piece @ u"] exI [of _ v]) simp
  qed
  show ?case
  proof (cases rule: template_loop_cases [of rest cursor acc t])
    case finish
    with less.prems show ?thesis by simp
  next
    case (open_esc rest')
    with go [of "tok_source TOpen" "[]" rest'] show ?thesis by (simp add: char_len_utf8_def eval_nat_numeral)
  next
    case (close_esc rest')
    with go [of "tok_source TClose" "[]" rest'] show ?thesis by (simp add: char_len_utf8_def eval_nat_numeral)
  next
    case (name raw rest')
    from go [OF name(3,1)] show ?thesis by simp
  next
    case (bad_name e')
    with less.prems show ?thesis by (intro exI [of _ "[]"] exI [of _ rest]) auto
  next
    case unmatched
    with less.prems show ?thesis by (intro exI [of _ "[]"] exI [of _ rest]) auto
  next
    case (char ch rest')
    with go [of "[ch]"] show ?thesis by simp
  qed
qed

section \<open>Rendering\<close>

lemma map_of_insert_variable [simp]: "map_of (insert_variable k v m) = (map_of m)(k \<mapsto> v)"
  by (induction k v m rule: insert_variable.induct) auto

lemma build_variable_map_Inr:
  "build_variable_map m vars = Inr m' \<Longrightarrow>
   map_of m' = map_of m ++ map_of vars \<and> distinct (map fst vars) \<and> set (map fst vars) \<inter> dom (map_of m) = {}"
proof (induction m vars rule: build_variable_map.induct)
  case (2 m name val vars)
  then have none: "map_of m name = None"
    and IH: "map_of m' = (map_of m)(name \<mapsto> val) ++ map_of vars" "distinct (map fst vars)"
      "set (map fst vars) \<inter> dom ((map_of m)(name \<mapsto> val)) = {}"
    by (simp_all split: if_splits del: fun_upd_apply)
  have "map_of vars name = None" using IH(3) by (auto simp: map_of_eq_None_iff)
  then have "(map_of m)(name \<mapsto> val) ++ map_of vars = map_of m ++ (map_of vars)(name \<mapsto> val)"
    by (auto simp: fun_eq_iff map_add_def split: option.splits)
  then have "map_of m' = map_of m ++ map_of ((name, val) # vars)"
    using IH(1) by (simp del: fun_upd_apply)
  moreover have "distinct (map fst ((name, val) # vars)) \<and> set (map fst ((name, val) # vars)) \<inter> dom (map_of m) = {}"
    using none IH(2,3) by auto
  ultimately show ?case by (rule conjI)
qed simp

lemma build_variable_map_succeeds:
  "distinct (map fst vars) \<Longrightarrow> set (map fst vars) \<inter> dom (map_of m) = {} \<Longrightarrow>
   \<exists>m'. build_variable_map m vars = Inr m'"
  by (induction m vars rule: build_variable_map.induct) (auto simp: domIff)

lemma build_variable_map_ok:
  "(\<exists>m. build_variable_map [] vars = Inr m) \<longleftrightarrow> distinct (map fst vars)"
  using build_variable_map_succeeds [of vars "[]"] build_variable_map_Inr [of "[]" vars] by auto

lemma render_segments_eq:
  "segment_names segs \<subseteq> dom (map_of m) \<Longrightarrow>
   render_segments m out segs = Inr (out @ segments_text (\<lambda>n. the (map_of m n)) segs)"
  by (induction m out segs rule: render_segments.induct) auto

lemma set_keys: "set (map fst m) = dom (map_of m)"
  by (simp add: dom_map_of_conv_image_fst)

lemma template_render_eq:
  assumes "segment_names (segments t) = set (placeholders t)"
  shows "template_render t vars = Inr out \<longleftrightarrow>
    distinct (map fst vars) \<and> set (map fst vars) = set (placeholders t) \<and>
    out = segments_text (\<lambda>n. the (map_of vars n)) (segments t)"
proof (cases "distinct (map fst vars)")
  case True
  then obtain m where m: "build_variable_map [] vars = Inr m" using build_variable_map_ok by blast
  have vars: "map_of m = map_of vars" using build_variable_map_Inr [OF m] by simp
  have keys: "set (map fst m) = set (map fst vars)" by (simp only: set_keys vars)
  have missing: "find (\<lambda>p. map_of vars p = None) (placeholders t) = None \<longleftrightarrow> set (placeholders t) \<subseteq> dom (map_of vars)"
    by (auto simp: find_None_iff)
  have extra: "find (\<lambda>name. name \<notin> set (placeholders t)) (map fst m) = None \<longleftrightarrow> set (map fst vars) \<subseteq> set (placeholders t)"
    using keys by (auto simp: find_None_iff)
  have fin: "render_segments m [] (segments t) = Inr (segments_text (\<lambda>n. the (map_of vars n)) (segments t))"
    if "set (placeholders t) \<subseteq> dom (map_of vars)"
    using render_segments_eq [of "segments t" m "[]"] that assms vars by simp
  show ?thesis
  proof (cases "set (map fst vars) = set (placeholders t)")
    case True
    with missing extra fin set_keys [of vars] \<open>distinct _\<close> show ?thesis
      by (auto simp: template_render_def m vars)
  next
    case False
    then have "\<not> (set (placeholders t) \<subseteq> dom (map_of vars) \<and> set (map fst vars) \<subseteq> set (placeholders t))"
      using set_keys [of vars] by auto
    with missing extra False show ?thesis
      by (auto simp: template_render_def m vars split: option.splits)
  qed
next
  case False
  then have "\<not> (\<exists>m. build_variable_map [] vars = Inr m)" using build_variable_map_ok by blast
  with False show ?thesis by (auto simp: template_render_def split: sum.splits)
qed

section \<open>Properties\<close>

lemma parse_template_tokens:
  assumes "parse_template source = Inr t"
  shows "\<exists>toks. source = toks_source toks \<and> [] \<notin> tok_names toks \<and>
    (\<forall>vals. segments_text vals (segments t) = toks_text vals toks) \<and>
    set (placeholders t) = tok_names toks \<and> segment_names (segments t) = tok_names toks"
  using template_loop_tokens [OF assms [unfolded parse_template_def]] by simp

text \<open>
  A rendering succeeds exactly when the values are those of the placeholders, each given once,
  and its result is the source with each escape replaced by its delimiter, each placeholder by its
  value and everything else untouched. Values are not looked at again: braces in them are text.
\<close>

theorem render_replaces_tokens:
  assumes "parse_template source = Inr t"
  shows "\<exists>toks. source = toks_source toks \<and> [] \<notin> tok_names toks \<and>
    (\<forall>variables out. render source variables = Inr out \<longleftrightarrow>
       distinct (map fst variables) \<and> set (map fst variables) = tok_names toks \<and>
       out = toks_text (\<lambda>n. the (map_of variables n)) toks)"
proof -
  from parse_template_tokens [OF assms] obtain toks where
    toks: "source = toks_source toks" "[] \<notin> tok_names toks"
      "\<And>vals. segments_text vals (segments t) = toks_text vals toks"
      "set (placeholders t) = tok_names toks" "segment_names (segments t) = tok_names toks"
    by blast
  have "render source variables = Inr out \<longleftrightarrow> template_render t variables = Inr out" for variables out
    by (simp add: render_def assms split: sum.splits)
  with toks template_render_eq [of t] show ?thesis by (intro exI [of _ toks]) simp
qed

theorem render_replaces_tokens_witness:
  "render (lit ''{{{{x}} {{ who }}!'') [(lit ''who'', lit ''{{me}}'')] = Inl (ParseErr (UnmatchedClosingDelimiter 5)) \<and>
   render (lit ''{{{{ {{ who }}!'') [(lit ''who'', lit ''{{me}}'')] = Inr (lit ''{{ {{me}}!'') \<and>
   (\<exists>toks. lit ''{{{{ {{ who }}!'' = toks_source toks \<and>
      lit ''{{ {{me}}!'' = toks_text (\<lambda>n. the (map_of [(lit ''who'', lit ''{{me}}'')] n)) toks)"
proof -
  have ev: "render (lit ''{{{{x}} {{ who }}!'') [(lit ''who'', lit ''{{me}}'')] = Inl (ParseErr (UnmatchedClosingDelimiter 5))"
    "render (lit ''{{{{ {{ who }}!'') [(lit ''who'', lit ''{{me}}'')] = Inr (lit ''{{ {{me}}!'')"
    by code_simp+
  then obtain t where t: "parse_template (lit ''{{{{ {{ who }}!'') = Inr t"
    by (auto simp: render_def split: sum.splits)
  from render_replaces_tokens [OF t] ev show ?thesis by blast
qed

fun escape :: "rstr \<Rightarrow> rstr" where
  "escape (c # d # s) =
     (if c = 123 \<and> d = 123 then open4 @ escape s
      else if c = 125 \<and> d = 125 then close4 @ escape s
      else c # escape (d # s))"
| "escape [c] = [c]"
| "escape [] = []"

lemma escape_hd: "\<exists>r. escape (c # s) = c # r"
  by (cases s) auto

lemma template_loop_escape:
  "\<exists>segs. template_loop cursor acc (escape s) t = Inr (t\<lparr>segments := segs\<rparr>) \<and>
     (\<forall>vals. segments_text vals segs = segments_text vals (segments t) @ acc @ s) \<and>
     segment_names segs = segment_names (segments t)"
proof (induction s arbitrary: cursor acc t rule: escape.induct)
  case (1 c d s)
  let ?t = "\<lambda>l. t\<lparr>segments := push_literal (push_literal (segments t) acc) l\<rparr>"
  consider "c = 123" "d = 123" | "c = 125" "d = 125" | "\<not> (c = 123 \<and> d = 123)" "\<not> (c = 125 \<and> d = 125)"
    by blast
  then show ?case
  proof cases
    case 1
    with "1.IH"(1) [of "cursor + 4" "[]" "?t open2"] show ?thesis
      by (auto simp: template_loop_open4 rust_str)
  next
    case 2
    with "1.IH"(2) [of "cursor + 4" "[]" "?t close2"] show ?thesis
      by (auto simp: template_loop_close4 rust_str)
  next
    case 3
    obtain r where r: "escape (d # s) = d # r" using escape_hd by blast
    have "template_loop cursor acc (escape (c # d # s)) t =
        template_loop (cursor + char_len_utf8 c) (acc @ [c]) (escape (d # s)) t"
      using 3 by (auto simp: r rust_str intro!: template_loop_char)
    with "1.IH"(3) [of "cursor + char_len_utf8 c" "acc @ [c]" t] 3 show ?thesis by auto
  qed
next
  case 3
  show ?case by (intro exI [of _ "push_literal (segments t) acc"]) (simp add: template_loop_Nil)
next
  case (2 c)
  show ?case
    by (intro exI [of _ "push_literal (segments t) (acc @ [c])"]) (simp add: template_loop_Nil template_loop_char rust_str)
qed

text \<open>
  Every text can be written as a template: doubling its delimiters from left to right gives a
  source without placeholders that renders to the text itself.
\<close>

theorem render_escape: "render (escape s) [] = Inr s"
proof -
  from template_loop_escape [of 0 "[]" s "\<lparr>placeholders = [], segments = []\<rparr>"] obtain segs where
    "parse_template (escape s) = Inr \<lparr>placeholders = [], segments = segs\<rparr>"
    "\<forall>vals. segments_text vals segs = s" "segment_names segs = {}"
    by (auto simp: parse_template_def)
  moreover from this template_render_eq [of "\<lparr>placeholders = [], segments = segs\<rparr>" "[]" s]
  have "template_render \<lparr>placeholders = [], segments = segs\<rparr> [] = Inr s" by simp
  ultimately show ?thesis by (simp add: render_def)
qed

text \<open>
  What is parsed is in a canonical form: no literal is empty, no two are adjacent, the
  placeholders are sorted and distinct. A source that does not parse is refused at the byte offset
  of one of its delimiters.
\<close>

theorem parse_template_result:
  "case parse_template source of
     Inr t \<Rightarrow> literals_merged (segments t) \<and> sorted (placeholders t) \<and> distinct (placeholders t) \<and>
       segment_names (segments t) = set (placeholders t)
   | Inl e \<Rightarrow> \<exists>u v. source = u @ v \<and> error_start e = len_utf8 u \<and> (starts_with v open2 \<or> starts_with v close2)"
proof (cases "parse_template source")
  case (Inl e)
  with template_loop_error [of 0 "[]" source _ e] show ?thesis by (simp add: parse_template_def)
next
  case (Inr t)
  with template_loop_canonical [of 0 "[]" source _ t] parse_template_tokens [OF Inr] show ?thesis
    by (auto simp: parse_template_def)
qed

end
