(* ===== verification/Shell_Parse.thy ===== *)
theory Shell_Parse
  imports Absolute_Path
begin

text \<open>
  \<open>shell-command/src/bash.rs\<close> and the shell detection of \<open>shell_detect.rs\<close>: the commands of a
  \<open>bash -lc\<close> script, read off the syntax tree of \<open>tree-sitter-bash\<close>.

  The parser, \<open>try_parse_shell\<close>, is that library's; it is an argument of the operations, from a
  script to a tree. A node has its kind, whether it is named, its start byte, the source text it
  covers (\<open>None\<close> where that is not valid UTF-8) and its children.
\<close>

section \<open>Model\<close>

datatype ShellType = Zsh | Bash | PowerShell | Sh | Cmd

fun shell_type_name :: "ShellType \<Rightarrow> rstr" where
  "shell_type_name Zsh = lit ''zsh''"
| "shell_type_name Bash = lit ''bash''"
| "shell_type_name PowerShell = lit ''powershell''"
| "shell_type_name Sh = lit ''sh''"
| "shell_type_name Cmd = lit ''cmd''"

text \<open>\<open>Path::file_stem\<close>: the file name up to its last dot, a leading one not counted.\<close>

definition file_stem :: "path_buf \<Rightarrow> rstr option" where
  "file_stem p =
     (case path_file_name p of
        None \<Rightarrow> None
      | Some name \<Rightarrow>
          (case rsplit_once 46 name of
             None \<Rightarrow> Some name
           | Some (before, after) \<Rightarrow> if before = [] then Some name else Some before))"

definition shell_of_name :: "rstr \<Rightarrow> ShellType option" where
  "shell_of_name s =
     (if s = lit ''zsh'' then Some Zsh
      else if s = lit ''sh'' then Some Sh
      else if s = lit ''cmd'' then Some Cmd
      else if s = lit ''bash'' then Some Bash
      else if s = lit ''pwsh'' then Some PowerShell
      else if s = lit ''powershell'' then Some PowerShell
      else None)"

lemma split_on_part:
  "x \<in> set (split_on c s) \<Longrightarrow> length x \<le> length s \<and> (length x = length s \<longrightarrow> x = s)"
proof (induction s arbitrary: x)
  case (Cons a s)
  obtain y ys where y: "split_on c s = y # ys" by (cases "split_on c s") (auto elim: split_on.elims)
  with Cons.IH [of x] Cons.IH [of y] Cons.prems show ?case by (auto split: if_splits)
qed simp

lemma path_file_name_part:
  assumes "path_file_name (path_components s) = Some name"
  shows "length name \<le> length s \<and> (length name = length s \<longrightarrow> name = s)"
proof -
  have "path_components s \<noteq> []" "last (path_components s) = Normal name"
    using assms by (auto simp: path_file_name_def last_opt_def split: if_splits option.splits path_component.splits)
  then have "Normal name \<in> set (path_components s)" using last_in_set by metis
  then have "name \<in> set (split_on chr_slash s)"
    by (auto simp: path_components_def body_components_def split: if_splits dest: in_set_dropD)
  then show ?thesis by (rule split_on_part)
qed

lemma file_stem_shorter:
  assumes "file_stem (path_components s) = Some st" "path_components st \<noteq> path_components s"
  shows "length st < length s"
proof -
  obtain name where name: "path_file_name (path_components s) = Some name"
    using assms(1) by (auto simp: file_stem_def split: option.splits)
  have part: "length name \<le> length s" "length name = length s \<Longrightarrow> name = s"
    using path_file_name_part [OF name] by auto
  have "st = name \<or> length st < length name"
  proof (cases "46 \<in> set name")
    case True
    then have "rev (tl (dropWhile (\<lambda>x. x \<noteq> 46) (rev name))) = before \<Longrightarrow> length before < length name" for before
      using length_dropWhile_le [of "\<lambda>x. x \<noteq> 46" "rev name"] by (cases name) auto
    with assms(1) name True show ?thesis by (auto simp: file_stem_def rsplit_once_def split: if_splits)
  qed (use assms(1) name in \<open>auto simp: file_stem_def rsplit_once_def\<close>)
  with part assms(2) show ?thesis by (metis le_neq_implies_less less_le_trans)
qed

function detect_shell_type :: "rstr \<Rightarrow> ShellType option" where
  "detect_shell_type shell_path =
     (case shell_of_name shell_path of
        Some t \<Rightarrow> Some t
      | None \<Rightarrow>
          (case file_stem (path_components shell_path) of
             None \<Rightarrow> None
           | Some shell_name \<Rightarrow>
               if path_components shell_name \<noteq> path_components shell_path then detect_shell_type shell_name
               else None))"
  by pat_completeness auto
termination
  by (relation "measure length") (auto simp: file_stem_shorter)

declare detect_shell_type.simps [simp del]

subsection \<open>Syntax trees\<close>

datatype node =
  Node (node_kind: rstr) (is_named: bool) (start_byte: nat) (utf8_text: "rstr option") (node_children: "node list")

record tree =
  root_node :: node
  has_error :: bool

definition named_children :: "node \<Rightarrow> node list" where
  "named_children n = filter is_named (node_children n)"

definition ALLOWED_KINDS :: "rstr list" where
  "ALLOWED_KINDS =
     [lit ''program'', lit ''list'', lit ''pipeline'', lit ''command'', lit ''command_name'', lit ''word'',
      lit ''string'', lit ''string_content'', lit ''raw_string'', lit ''number'', lit ''concatenation'']"

definition ALLOWED_PUNCT_TOKENS :: "rstr list" where
  "ALLOWED_PUNCT_TOKENS = [lit ''&&'', lit ''||'', lit '';'', lit ''|'', [34], [39]]"

text \<open>The characters that can make the shell expand or unescape a word.\<close>

definition expansion_chars :: "rchar list" where
  "expansion_chars = [123, 125, 42, 63, 91, 93, 92, 126, 94, 35, 36, 96]"

definition is_literal_text :: "rstr \<Rightarrow> bool" where
  "is_literal_text word \<longleftrightarrow> \<not> starts_with word [61] \<and> list_all (\<lambda>c. c \<notin> set expansion_chars) word"

definition is_word_kind :: "rstr \<Rightarrow> bool" where
  "is_word_kind k \<longleftrightarrow> k = lit ''word'' \<or> k = lit ''number''"

definition is_literal_word_or_number :: "node \<Rightarrow> bool" where
  "is_literal_word_or_number n \<longleftrightarrow>
     is_word_kind (node_kind n) \<and> named_children n = [] \<and>
     (case utf8_text n of None \<Rightarrow> False | Some word \<Rightarrow> is_literal_text word)"

text \<open>A backslash before a character that double quotes let it escape.\<close>

fun has_quoted_escape :: "rstr \<Rightarrow> bool" where
  "has_quoted_escape (a # b # s) \<longleftrightarrow>
     a = 92 \<and> (b = 36 \<or> b = 96 \<or> b = 34 \<or> b = 92 \<or> b = 10) \<or> has_quoted_escape (b # s)"
| "has_quoted_escape _ \<longleftrightarrow> False"

definition strip_quotes :: "rchar \<Rightarrow> rstr \<Rightarrow> rstr option" where
  "strip_quotes q raw = (case strip_prefix [q] raw of None \<Rightarrow> None | Some t \<Rightarrow> strip_suffix [q] t)"

definition parse_double_quoted_string :: "node \<Rightarrow> rstr option" where
  "parse_double_quoted_string n =
     (if node_kind n \<noteq> lit ''string'' then None
      else if list_ex (\<lambda>part. node_kind part \<noteq> lit ''string_content'') (named_children n) then None
      else
        (case utf8_text n of
           None \<Rightarrow> None
         | Some raw \<Rightarrow>
             (case strip_quotes 34 raw of
                None \<Rightarrow> None
              | Some stripped \<Rightarrow> if has_quoted_escape stripped then None else Some stripped)))"

definition parse_raw_string :: "node \<Rightarrow> rstr option" where
  "parse_raw_string n =
     (if node_kind n \<noteq> lit ''raw_string'' then None
      else (case utf8_text n of None \<Rightarrow> None | Some raw \<Rightarrow> strip_quotes 39 raw))"

subsection \<open>Plain commands\<close>

definition concat_part :: "node \<Rightarrow> rstr option" where
  "concat_part part =
     (if is_word_kind (node_kind part) then utf8_text part
      else if node_kind part = lit ''string'' then parse_double_quoted_string part
      else if node_kind part = lit ''raw_string'' then parse_raw_string part
      else None)"

fun concat_parts :: "rstr \<Rightarrow> node list \<Rightarrow> rstr option" where
  "concat_parts acc [] = Some acc"
| "concat_parts acc (part # parts) =
     (case concat_part part of None \<Rightarrow> None | Some t \<Rightarrow> concat_parts (acc @ t) parts)"

definition plain_child :: "node \<Rightarrow> rstr option" where
  "plain_child child =
     (if node_kind child = lit ''command_name'' then
        (case named_children child of
           [] \<Rightarrow> None
         | word_node # _ \<Rightarrow> if node_kind word_node \<noteq> lit ''word'' then None else utf8_text word_node)
      else if is_word_kind (node_kind child) then utf8_text child
      else if node_kind child = lit ''string'' then parse_double_quoted_string child
      else if node_kind child = lit ''raw_string'' then parse_raw_string child
      else if node_kind child = lit ''concatenation'' then
        (case concat_parts [] (named_children child) of
           None \<Rightarrow> None
         | Some concatenated \<Rightarrow> if concatenated = [] then None else Some concatenated)
      else None)"

fun all_some :: "('a \<Rightarrow> 'b option) \<Rightarrow> 'a list \<Rightarrow> 'b list option" where
  "all_some f [] = Some []"
| "all_some f (x # xs) = (case f x of None \<Rightarrow> None | Some y \<Rightarrow> map_option ((#) y) (all_some f xs))"

definition parse_plain_command_from_node :: "node \<Rightarrow> rstr list option" where
  "parse_plain_command_from_node cmd =
     (if node_kind cmd \<noteq> lit ''command'' then None else all_some plain_child (named_children cmd))"

text \<open>The test of one visited node.\<close>

definition node_allowed :: "node \<Rightarrow> bool" where
  "node_allowed n \<longleftrightarrow>
     (if is_named n then
        node_kind n \<in> set ALLOWED_KINDS \<and> (is_word_kind (node_kind n) \<longrightarrow> is_literal_word_or_number n)
      else
        \<not> (list_ex (\<lambda>c. c \<in> {38, 59, 124}) (node_kind n) \<and> node_kind n \<notin> set ALLOWED_PUNCT_TOKENS) \<and>
        (node_kind n \<in> set ALLOWED_PUNCT_TOKENS \<or> trim (node_kind n) = []))"

text \<open>
  The walk over the tree, its stack with the top first: the children of a node are pushed in order,
  so the last is popped first.
\<close>

function visit :: "node list \<Rightarrow> node list \<Rightarrow> node list option" where
  "visit command_nodes [] = Some command_nodes"
| "visit command_nodes (n # stack) =
     (if \<not> node_allowed n then None
      else visit (if is_named n \<and> node_kind n = lit ''command'' then command_nodes @ [n] else command_nodes)
             (rev (node_children n) @ stack))"
  by pat_completeness auto
termination
proof (relation "measure (\<lambda>(cs, stack). sum_list (map size stack))")
  fix command_nodes stack and n :: node
  have "sum_list (map size (node_children n)) < size n"
    by (cases n) (simp add: size_list_conv_sum_list Suc_le_eq less_Suc_eq_le sum_list_mono2)
  then show "((if is_named n \<and> node_kind n = lit ''command'' then command_nodes @ [n] else command_nodes,
      rev (node_children n) @ stack), command_nodes, n # stack) \<in> measure (\<lambda>(cs, stack). sum_list (map size stack))"
    by (simp add: rev_map [symmetric])
qed simp

definition try_parse_word_only_commands_sequence :: "tree \<Rightarrow> rstr list list option" where
  "try_parse_word_only_commands_sequence t =
     (if has_error t then None
      else
        (case visit [] [root_node t] of
           None \<Rightarrow> None
         | Some command_nodes \<Rightarrow> all_some parse_plain_command_from_node (sort_key start_byte command_nodes)))"

definition parse_shell_script_into_commands :: "(rstr \<Rightarrow> tree option) \<Rightarrow> rstr \<Rightarrow> rstr list list option" where
  "parse_shell_script_into_commands try_parse_shell script =
     (case try_parse_shell script of None \<Rightarrow> None | Some t \<Rightarrow> try_parse_word_only_commands_sequence t)"

definition extract_bash_command :: "rstr list \<Rightarrow> (rstr \<times> rstr) option" where
  "extract_bash_command command =
     (case command of
        [shell, flag, script] \<Rightarrow>
          if (flag = lit ''-lc'' \<or> flag = lit ''-c'') \<and>
             detect_shell_type shell \<in> {Some Zsh, Some Bash, Some Sh}
          then Some (shell, script) else None
      | _ \<Rightarrow> None)"

definition parse_shell_lc_plain_commands :: "(rstr \<Rightarrow> tree option) \<Rightarrow> rstr list \<Rightarrow> rstr list list option" where
  "parse_shell_lc_plain_commands try_parse_shell command =
     (case extract_bash_command command of
        None \<Rightarrow> None
      | Some (_, script) \<Rightarrow> parse_shell_script_into_commands try_parse_shell script)"

subsection \<open>Literal commands\<close>

lemma all_some_cong [fundef_cong]:
  "xs = ys \<Longrightarrow> (\<And>x. x \<in> set ys \<Longrightarrow> f x = g x) \<Longrightarrow> all_some f xs = all_some g ys"
  by (induction ys arbitrary: xs) (auto split: option.splits)

lemma size_child [termination_simp]: "c \<in> set ch \<Longrightarrow> size c < Suc (size_list size ch)"
  by (induction ch) auto

fun parse_literal_shell_word :: "node \<Rightarrow> rstr option" where
  "parse_literal_shell_word (Node k nm st tx ch) =
     (if is_word_kind k \<and> is_literal_word_or_number (Node k nm st tx ch) then tx
      else if k = lit ''string'' then parse_double_quoted_string (Node k nm st tx ch)
      else if k = lit ''raw_string'' then parse_raw_string (Node k nm st tx ch)
      else if k = lit ''concatenation'' then
        (case all_some parse_literal_shell_word (filter is_named ch) of
           None \<Rightarrow> None
         | Some parts \<Rightarrow> if concat parts = [] then None else Some (concat parts))
      else None)"

fun literal_loop :: "rstr list \<Rightarrow> bool \<Rightarrow> node list \<Rightarrow> rstr list option" where
  "literal_loop words found_command_name [] = (if found_command_name then Some words else None)"
| "literal_loop words found_command_name (child # cs) =
     (if node_kind child = lit ''command_name'' then
        (case named_children child of
           [] \<Rightarrow> None
         | w # _ \<Rightarrow>
             (case parse_literal_shell_word w of
                None \<Rightarrow> None
              | Some command_name \<Rightarrow> literal_loop (words @ [command_name]) True cs))
      else
        literal_loop
          (if found_command_name then
             (case parse_literal_shell_word child of None \<Rightarrow> words | Some word \<Rightarrow> words @ [word])
           else words)
          found_command_name cs)"

definition parse_literal_command_from_node :: "node \<Rightarrow> rstr list option" where
  "parse_literal_command_from_node cmd =
     (if node_kind cmd \<noteq> lit ''command'' then None else literal_loop [] False (named_children cmd))"

function visit_literal :: "rstr list list \<Rightarrow> node list \<Rightarrow> rstr list list" where
  "visit_literal commands [] = commands"
| "visit_literal commands (n # stack) =
     visit_literal
       (if node_kind n = lit ''command'' then
          (case parse_literal_command_from_node n of None \<Rightarrow> commands | Some command \<Rightarrow> commands @ [command])
        else commands)
       (rev (named_children n) @ stack)"
  by pat_completeness auto
termination
proof (relation "measure (\<lambda>(cs, stack). sum_list (map size stack))")
  fix commands :: "rstr list list" and stack and n :: node
  have "sum_list (map size (named_children n)) \<le> sum_list (map size (node_children n))"
    unfolding named_children_def by (rule sum_list_filter_le_nat)
  also have "\<dots> < size n"
    by (cases n) (simp add: size_list_conv_sum_list less_Suc_eq_le sum_list_mono)
  finally show "((if node_kind n = lit ''command''
        then (case parse_literal_command_from_node n of None \<Rightarrow> commands | Some command \<Rightarrow> commands @ [command])
        else commands,
      rev (named_children n) @ stack), commands, n # stack) \<in> measure (\<lambda>(cs, stack). sum_list (map size stack))"
    by (simp add: rev_map [symmetric])
qed simp

definition parse_shell_lc_literal_commands :: "(rstr \<Rightarrow> tree option) \<Rightarrow> rstr list \<Rightarrow> rstr list list option" where
  "parse_shell_lc_literal_commands try_parse_shell command =
     (case extract_bash_command command of
        None \<Rightarrow> None
      | Some (_, script) \<Rightarrow>
          (case try_parse_shell script of
             None \<Rightarrow> None
           | Some t \<Rightarrow> if has_error t then None else Some (visit_literal [] [root_node t])))"

section \<open>What a word is at run time\<close>

text \<open>
  The words a shell passes on unchanged: bare words without expansion characters, quoted text
  without escapes, and their concatenation. The text of such a node is its value at run time.
\<close>

inductive shell_word :: "node \<Rightarrow> rstr \<Rightarrow> bool" where
  bare: "is_word_kind (node_kind n) \<Longrightarrow> named_children n = [] \<Longrightarrow> utf8_text n = Some w \<Longrightarrow> is_literal_text w \<Longrightarrow>
    shell_word n w"
| double_quoted: "node_kind n = lit ''string'' \<Longrightarrow>
    list_all (\<lambda>p. node_kind p = lit ''string_content'') (named_children n) \<Longrightarrow>
    utf8_text n = Some (34 # w @ [34]) \<Longrightarrow> \<not> has_quoted_escape w \<Longrightarrow> shell_word n w"
| single_quoted: "node_kind n = lit ''raw_string'' \<Longrightarrow> utf8_text n = Some (39 # w @ [39]) \<Longrightarrow> shell_word n w"
| concatenated: "node_kind n = lit ''concatenation'' \<Longrightarrow> list_all2 shell_word (named_children n) ws \<Longrightarrow>
    concat ws \<noteq> [] \<Longrightarrow> shell_word n (concat ws)"

lemma all_some_list_all2: "all_some f xs = Some ys \<longleftrightarrow> list_all2 (\<lambda>x y. f x = Some y) xs ys"
  by (induction xs arbitrary: ys) (auto simp: list_all2_Cons1 split: option.splits)

lemma all_some_from: "all_some f xs = Some ys \<Longrightarrow> y \<in> set ys \<Longrightarrow> \<exists>x \<in> set xs. f x = Some y"
  by (induction xs arbitrary: ys) (auto split: option.splits)

lemma strip_quotes_Some: "strip_quotes q raw = Some w \<longleftrightarrow> raw = q # w @ [q]"
  by (auto simp: strip_quotes_def rust_str split: option.splits)

lemma strip_quotes_quoted [simp]: "strip_quotes q (q # w @ [q]) = Some w"
  by (simp add: strip_quotes_Some)

lemma kinds_distinct:
  "lit ''string'' \<noteq> lit ''raw_string''" "lit ''string'' \<noteq> lit ''concatenation''"
  "lit ''raw_string'' \<noteq> lit ''concatenation''"
  "\<not> is_word_kind (lit ''string'')" "\<not> is_word_kind (lit ''raw_string'')" "\<not> is_word_kind (lit ''concatenation'')"
  "\<not> is_word_kind (lit ''command_name'')" "\<not> is_word_kind (lit ''command'')"
  "lit ''command_name'' \<noteq> lit ''string''" "lit ''command_name'' \<noteq> lit ''raw_string''"
  "lit ''command_name'' \<noteq> lit ''concatenation''" "is_word_kind (lit ''word'')" "is_word_kind (lit ''number'')"
  by (simp_all add: lit_eval is_word_kind_def)

lemmas kinds = kinds_distinct kinds_distinct(1-3,9-11) [THEN not_sym]

lemma double_quoted_Some:
  "parse_double_quoted_string n = Some w \<longleftrightarrow>
     node_kind n = lit ''string'' \<and> list_all (\<lambda>p. node_kind p = lit ''string_content'') (named_children n) \<and>
     utf8_text n = Some (34 # w @ [34]) \<and> \<not> has_quoted_escape w"
  by (auto simp: parse_double_quoted_string_def strip_quotes_Some list_ex_iff list_all_iff split: option.splits)

lemma raw_string_Some:
  "parse_raw_string n = Some w \<longleftrightarrow> node_kind n = lit ''raw_string'' \<and> utf8_text n = Some (39 # w @ [39])"
  by (auto simp: parse_raw_string_def strip_quotes_Some split: option.splits)

lemma literal_word_Some:
  "is_literal_word_or_number n \<and> utf8_text n = Some w \<longleftrightarrow>
     is_word_kind (node_kind n) \<and> named_children n = [] \<and> utf8_text n = Some w \<and> is_literal_text w"
  by (auto simp: is_literal_word_or_number_def)

text \<open>Literal words are exactly the words the shell leaves alone.\<close>

lemma parse_literal_shell_word_iff: "parse_literal_shell_word n = Some w \<longleftrightarrow> shell_word n w"
proof
  show "shell_word n w" if "parse_literal_shell_word n = Some w"
    using that
  proof (induction n arbitrary: w)
    case (Node k nm st tx ch)
    let ?n = "Node k nm st tx ch"
    consider "is_word_kind k \<and> is_literal_word_or_number ?n" | "k = lit ''string''" | "k = lit ''raw_string''"
      | "k = lit ''concatenation''"
      using Node.prems by (auto split: if_splits)
    then show ?case
    proof cases
      case 1
      with Node.prems literal_word_Some [of ?n w] show ?thesis by (auto intro: shell_word.bare)
    next
      case 2
      with Node.prems double_quoted_Some [of ?n w] show ?thesis
        by (auto simp: kinds intro: shell_word.double_quoted)
    next
      case 3
      with Node.prems raw_string_Some [of ?n w] show ?thesis
        by (auto simp: kinds intro: shell_word.single_quoted)
    next
      case 4
      with Node.prems obtain parts where parts: "all_some parse_literal_shell_word (filter is_named ch) = Some parts"
          "concat parts \<noteq> []" "w = concat parts"
        by (auto simp: kinds split: option.splits if_splits)
      have "list_all2 shell_word (filter is_named ch) parts"
        using parts(1) unfolding all_some_list_all2 by (rule list.rel_mono_strong) (use Node.IH in auto)
      with parts(2,3) 4 shell_word.concatenated [of ?n parts] show ?thesis by (simp add: named_children_def)
    qed
  qed
next
  show "parse_literal_shell_word n = Some w" if "shell_word n w"
    using that
  proof (induction rule: shell_word.induct)
    case (bare n w)
    then show ?case by (cases n) (auto simp: is_literal_word_or_number_def)
  next
    case (double_quoted n w)
    then have "parse_double_quoted_string n = Some w" by (simp add: double_quoted_Some)
    with double_quoted show ?case by (cases n) (auto simp: kinds)
  next
    case (single_quoted n w)
    then have "parse_raw_string n = Some w" by (simp add: raw_string_Some)
    with single_quoted show ?case by (cases n) (auto simp: kinds)
  next
    case (concatenated n ws)
    have "list_all2 (\<lambda>x y. parse_literal_shell_word x = Some y) (named_children n) ws"
      using concatenated.IH by (rule list_all2_mono) blast
    then have "all_some parse_literal_shell_word (named_children n) = Some ws" by (simp add: all_some_list_all2)
    with concatenated.hyps show ?case by (cases n) (simp add: kinds named_children_def)
  qed
qed

section \<open>The walk visits every node\<close>

fun descendants :: "node \<Rightarrow> node set" where
  "descendants (Node k nm st tx ch) = insert (Node k nm st tx ch) (\<Union> (set (map descendants ch)))"

lemma descendants_self [simp]: "n \<in> descendants n"
  by (cases n) simp

lemma descendants_eq: "descendants n = insert n (\<Union> (set (map descendants (node_children n))))"
  by (cases n) simp

lemma descendants_trans: "m \<in> descendants n \<Longrightarrow> descendants m \<subseteq> descendants n"
  by (induction n) auto

lemma child_descendant: "m \<in> set (node_children n) \<Longrightarrow> m \<in> descendants n"
  by (cases n) (auto intro: descendants_self)

definition is_command_node :: "node \<Rightarrow> bool" where
  "is_command_node n \<longleftrightarrow> is_named n \<and> node_kind n = lit ''command''"

lemma visit_Some:
  "visit cs stack = Some cs' \<Longrightarrow>
   (\<forall>n \<in> \<Union> (descendants ` set stack). node_allowed n) \<and>
   set cs' = set cs \<union> {n \<in> \<Union> (descendants ` set stack). is_command_node n}"
proof (induction cs stack arbitrary: cs' rule: visit.induct)
  case (2 cs n stack)
  have all: "\<Union> (descendants ` set (n # stack)) = insert n (\<Union> (descendants ` set (rev (node_children n) @ stack)))"
    using descendants_eq [of n] by auto
  from 2 have ok: "node_allowed n" by (auto split: if_splits)
  with 2 show ?case unfolding all by (auto simp: is_command_node_def split: if_splits)
qed simp

lemma visit_total:
  "\<forall>n \<in> \<Union> (descendants ` set stack). node_allowed n \<Longrightarrow> \<exists>cs'. visit cs stack = Some cs'"
proof (induction cs stack rule: visit.induct)
  case (2 cs n stack)
  have all: "\<Union> (descendants ` set (n # stack)) = insert n (\<Union> (descendants ` set (rev (node_children n) @ stack)))"
    using descendants_eq [of n] by auto
  from 2 show ?case unfolding all by simp
qed simp

section \<open>Commands of an accepted script\<close>

text \<open>The node that carries the word of a child of a command.\<close>

definition word_node_of :: "node \<Rightarrow> node" where
  "word_node_of child =
     (if node_kind child = lit ''command_name'' then hd (named_children child) else child)"

lemma named_descendant: "m \<in> set (named_children n) \<Longrightarrow> m \<in> descendants n"
  by (auto simp: named_children_def intro: child_descendant)

lemma allowed_word:
  "node_allowed n \<Longrightarrow> is_named n \<Longrightarrow> is_word_kind (node_kind n) \<Longrightarrow> utf8_text n = Some w \<Longrightarrow> shell_word n w"
  using literal_word_Some [of n w] by (auto simp: node_allowed_def intro: shell_word.bare)

lemma concat_parts_Some:
  "concat_parts acc parts = Some t \<longleftrightarrow> (\<exists>ts. list_all2 (\<lambda>p t. concat_part p = Some t) parts ts \<and> t = acc @ concat ts)"
proof (induction parts arbitrary: acc)
  case (Cons p parts)
  show ?case
  proof (cases "concat_part p")
    case None
    then show ?thesis by (auto simp: list_all2_Cons1)
  next
    case (Some a)
    have "concat_parts acc (p # parts) = Some t \<longleftrightarrow>
        (\<exists>ts. list_all2 (\<lambda>p t. concat_part p = Some t) parts ts \<and> t = acc @ concat (a # ts))"
      using Cons [of "acc @ a"] Some by simp
    with Some show ?thesis by (auto simp: list_all2_Cons1)
  qed
qed auto

lemma plain_child_word:
  assumes "plain_child child = Some w" "is_named child" "\<forall>n \<in> descendants child. node_allowed n"
  shows "shell_word (word_node_of child) w \<and> (node_kind child = lit ''command_name'' \<longrightarrow> named_children child \<noteq> [])"
proof -
  have named: "is_named m" if "m \<in> set (named_children n)" for m n :: node
    using that by (simp add: named_children_def)
  have part: "shell_word p t" if "p \<in> set (named_children child)" "concat_part p = Some t" for p t
    using that assms(3) named [OF that(1)] named_descendant [OF that(1)] allowed_word [of p t]
    by (auto simp: concat_part_def double_quoted_Some raw_string_Some split: if_splits
        intro: shell_word.double_quoted shell_word.single_quoted)
  consider "node_kind child = lit ''command_name''" | "is_word_kind (node_kind child)"
    | "node_kind child = lit ''string''" | "node_kind child = lit ''raw_string''"
    | "node_kind child = lit ''concatenation''"
    using assms(1) by (auto simp: plain_child_def split: if_splits)
  then show ?thesis
  proof cases
    case 1
    with assms(1) obtain m ms where m: "named_children child = m # ms" "node_kind m = lit ''word''" "utf8_text m = Some w"
      by (auto simp: plain_child_def split: list.splits if_splits)
    have "shell_word m w"
      using m assms(3) named [of m child] named_descendant [of m child] by (intro allowed_word) (auto simp: kinds)
    with 1 m(1) show ?thesis by (simp add: word_node_of_def)
  next
    case 2
    then have k: "node_kind child \<noteq> lit ''command_name''" by (auto simp: kinds)
    with 2 assms allowed_word [of child w] show ?thesis by (simp add: plain_child_def word_node_of_def)
  next
    case 3
    with assms(1) show ?thesis
      by (auto simp: plain_child_def kinds word_node_of_def double_quoted_Some intro: shell_word.double_quoted)
  next
    case 4
    with assms(1) show ?thesis
      by (auto simp: plain_child_def kinds word_node_of_def raw_string_Some intro: shell_word.single_quoted)
  next
    case 5
    with assms(1) obtain ts where ts: "list_all2 (\<lambda>p t. concat_part p = Some t) (named_children child) ts"
        "w = concat ts" "concat ts \<noteq> []"
      by (auto simp: plain_child_def kinds concat_parts_Some split: option.splits if_splits)
    have "list_all2 shell_word (named_children child) ts"
      using ts(1) by (rule list.rel_mono_strong) (use part in auto)
    with 5 ts(2,3) show ?thesis by (auto simp: word_node_of_def kinds intro: shell_word.concatenated)
  qed
qed

lemma plain_command_words:
  assumes "parse_plain_command_from_node n = Some ws" "\<forall>m \<in> descendants n. node_allowed m"
  shows "list_all2 (\<lambda>child w. shell_word (word_node_of child) w) (named_children n) ws"
proof -
  have "list_all2 (\<lambda>child w. plain_child child = Some w) (named_children n) ws"
    using assms(1) by (simp add: parse_plain_command_from_node_def all_some_list_all2 split: if_splits)
  then show ?thesis
  proof (rule list.rel_mono_strong)
    fix child w
    assume c: "child \<in> set (named_children n)" "plain_child child = Some w"
    then have "descendants child \<subseteq> descendants n" by (intro descendants_trans named_descendant)
    with c assms(2) plain_child_word [of child w] show "shell_word (word_node_of child) w"
      by (auto simp: named_children_def)
  qed
qed

text \<open>
  A command node as the grammar of \<open>tree-sitter-bash\<close> gives it: its only \<open>command_name\<close> is its
  first named child.
\<close>

definition command_shape :: "node \<Rightarrow> bool" where
  "command_shape n \<longleftrightarrow>
     (case named_children n of
        [] \<Rightarrow> False
      | c # cs \<Rightarrow> node_kind c = lit ''command_name'' \<and> list_all (\<lambda>d. node_kind d \<noteq> lit ''command_name'') cs)"

lemma literal_loop_words:
  "list_all2 (\<lambda>child w. shell_word child w) cs ws \<Longrightarrow>
   list_all (\<lambda>d. node_kind d \<noteq> lit ''command_name'') cs \<Longrightarrow> literal_loop acc True cs = Some (acc @ ws)"
proof (induction cs arbitrary: ws acc)
  case (Cons c cs)
  then obtain w ws' where ws: "ws = w # ws'" "parse_literal_shell_word c = Some w" "list_all2 shell_word cs ws'"
    by (auto simp: list_all2_Cons1 parse_literal_shell_word_iff)
  with Cons show ?case by simp
qed simp

lemma plain_is_literal_command:
  assumes "parse_plain_command_from_node n = Some ws" "\<forall>m \<in> descendants n. node_allowed m" "command_shape n"
  shows "parse_literal_command_from_node n = Some ws"
proof -
  from assms(3) obtain c cs where n: "named_children n = c # cs" "node_kind c = lit ''command_name''"
      "list_all (\<lambda>d. node_kind d \<noteq> lit ''command_name'') cs"
    by (auto simp: command_shape_def split: list.splits)
  from plain_command_words [OF assms(1,2)] n(1) obtain w ws' where
    ws: "ws = w # ws'" "shell_word (word_node_of c) w" "list_all2 (\<lambda>child w. shell_word (word_node_of child) w) cs ws'"
    by (auto simp: list_all2_Cons1)
  have cs: "list_all2 shell_word cs ws'"
    using ws(3) by (rule list.rel_mono_strong) (use n(3) in \<open>auto simp: word_node_of_def list_all_iff\<close>)
  have "plain_child c = Some w"
    using assms(1) n(1) ws(1)
    by (auto simp: parse_plain_command_from_node_def split: if_splits option.splits)
  then obtain m ms where m: "named_children c = m # ms"
    using n(2) by (auto simp: plain_child_def split: list.splits)
  with ws(2) n(2) have "parse_literal_shell_word m = Some w"
    by (simp add: word_node_of_def parse_literal_shell_word_iff)
  moreover have "node_kind n = lit ''command''"
    using assms(1) by (simp add: parse_plain_command_from_node_def split: if_splits)
  ultimately show ?thesis
    using n m literal_loop_words [OF cs n(3), of "[w]"] ws(1) by (simp add: parse_literal_command_from_node_def)
qed

text \<open>
  What \<open>tree-sitter\<close> documents of its trees: a node that is not named is a token, without children;
  and the shape of the command nodes.
\<close>

definition grammar_tree :: "node \<Rightarrow> bool" where
  "grammar_tree root \<longleftrightarrow> is_named root \<and>
     (\<forall>n \<in> descendants root. (\<not> is_named n \<longrightarrow> node_children n = []) \<and> (is_command_node n \<longrightarrow> command_shape n))"

lemma visit_literal_mono: "set cs \<subseteq> set (visit_literal cs stack)"
  by (induction cs stack rule: visit_literal.induct) (auto split: option.splits if_splits)

lemma visit_literal_finds:
  assumes "m \<in> \<Union> (descendants ` set stack)" "is_named m" "\<forall>n \<in> set stack. is_named n"
    "\<forall>n \<in> \<Union> (descendants ` set stack). \<not> is_named n \<longrightarrow> node_children n = []"
    "parse_literal_command_from_node m = Some ws"
  shows "ws \<in> set (visit_literal cs stack)"
  using assms
proof (induction cs stack rule: visit_literal.induct)
  case (2 cs n stack)
  show ?case
  proof (cases "m = n")
    case True
    have "node_kind m = lit ''command''"
      using 2(6) by (simp add: parse_literal_command_from_node_def split: if_splits)
    with True 2(6) visit_literal_mono [of "cs @ [ws]" "rev (named_children n) @ stack"] show ?thesis by auto
  next
    case False
    let ?stack = "rev (named_children n) @ stack"
    have "m \<in> \<Union> (descendants ` set ?stack)"
    proof (cases "m \<in> \<Union> (descendants ` set stack)")
      case out: False
      with 2(2) False descendants_eq [of n] obtain c where c: "c \<in> set (node_children n)" "m \<in> descendants c" by auto
      have "is_named c"
      proof (rule ccontr)
        assume "\<not> is_named c"
        with c(1) 2(5) child_descendant [OF c(1)] have "node_children c = []" by auto
        with c(2) descendants_eq [of c] have "m = c" by simp
        with 2(3) \<open>\<not> is_named c\<close> show False by simp
      qed
      with c show ?thesis by (auto simp: named_children_def)
    qed auto
    moreover have "\<Union> (descendants ` set ?stack) \<subseteq> \<Union> (descendants ` set (n # stack))"
      using descendants_eq [of n] by (auto simp: named_children_def)
    ultimately have "ws \<in> set (visit_literal
        (if node_kind n = lit ''command'' then
           (case parse_literal_command_from_node n of None \<Rightarrow> cs | Some command \<Rightarrow> cs @ [command])
         else cs) ?stack)"
      by (intro 2(1)) (use 2(3-6) in \<open>auto simp: named_children_def\<close>)
    then show ?thesis by simp
  qed
qed simp

section \<open>Properties\<close>


text \<open>The tree of the script \<open>ls "a b"\<close>.\<close>

definition sample_tree :: tree where
  "sample_tree =
     \<lparr>root_node =
        Node (lit ''program'') True 0 (Some (lit ''ls'' @ [32, 34] @ lit ''a b'' @ [34]))
          [Node (lit ''command'') True 0 (Some (lit ''ls'' @ [32, 34] @ lit ''a b'' @ [34]))
             [Node (lit ''command_name'') True 0 (Some (lit ''ls'')) [Node (lit ''word'') True 0 (Some (lit ''ls'')) []],
              Node (lit ''string'') True 3 (Some ([34] @ lit ''a b'' @ [34]))
                [Node [34] False 3 (Some [34]) [],
                 Node (lit ''string_content'') True 4 (Some (lit ''a b'')) [],
                 Node [34] False 7 (Some [34]) []]]],
      has_error = False\<rparr>"

lemma sample_tree_commands:
  "try_parse_word_only_commands_sequence sample_tree = Some [[lit ''ls'', lit ''a b'']]"
  by code_simp


text \<open>
  Every command that the acceptance of a script reports is also reported, word for word, by the
  extraction of literal commands that the search for dangerous commands uses.
\<close>

theorem plain_commands_are_literal:
  assumes "try_parse_word_only_commands_sequence t = Some commands" "grammar_tree (root_node t)"
  shows "set commands \<subseteq> set (visit_literal [] [root_node t])"
proof
  fix ws assume ws: "ws \<in> set commands"
  from assms(1) obtain nodes where v: "visit [] [root_node t] = Some nodes"
      "all_some parse_plain_command_from_node (sort_key start_byte nodes) = Some commands"
    by (auto simp: try_parse_word_only_commands_sequence_def split: if_splits option.splits)
  from visit_Some [OF v(1)] have all: "\<forall>n \<in> descendants (root_node t). node_allowed n"
    and nodes: "set nodes = {n \<in> descendants (root_node t). is_command_node n}" by auto
  from all_some_from [OF v(2) ws] obtain n where n: "n \<in> set nodes" "parse_plain_command_from_node n = Some ws"
    by auto
  then have d: "n \<in> descendants (root_node t)" "is_command_node n" using nodes by auto
  then have "command_shape n" using assms(2) by (auto simp: grammar_tree_def)
  moreover have "\<forall>m \<in> descendants n. node_allowed m" using all descendants_trans [OF d(1)] by auto
  ultimately have "parse_literal_command_from_node n = Some ws" using n(2) by (intro plain_is_literal_command)
  with d assms(2) show "ws \<in> set (visit_literal [] [root_node t])"
    by (intro visit_literal_finds [of n]) (auto simp: grammar_tree_def is_command_node_def)
qed

theorem plain_commands_are_literal_witness:
  "set [[lit ''ls'', lit ''a b'']] \<subseteq> set (visit_literal [] [root_node sample_tree])"
proof -
  have "grammar_tree (root_node sample_tree)"
    by (simp add: grammar_tree_def sample_tree_def is_command_node_def command_shape_def named_children_def lit_eval)
  from plain_commands_are_literal [OF sample_tree_commands this] show ?thesis .
qed

end
