(* ===== verification/Command_Safety.thy ===== *)
theory Command_Safety
  imports Shell_Parse
begin

text \<open>
  \<open>shell-command/src/command_safety\<close>: which commands are dangerous, seen through the wrappers they
  may be hidden in.

  The depth of wrappers is counted down, from one more than \<open>MAX_DANGEROUS_COMMAND_WRAPPER_DEPTH\<close>:
  the first argument of the recursive functions is how many more wrappers may be opened. The
  parser of shell scripts, \<open>shlex::split\<close>, the URL regular expression of \<open>looks_like_url\<close> and
  \<open>Url::parse\<close> are those of other libraries; they are in the record \<open>safety_env\<close>.
\<close>

section \<open>Model\<close>

datatype DangerousCommandPlatform = Posix | Windows

datatype DangerousCommandMatch = ForcedRm | OtherMatch

definition MAX_DANGEROUS_COMMAND_WRAPPER_DEPTH :: nat where
  "MAX_DANGEROUS_COMMAND_WRAPPER_DEPTH = 8"

record safety_env =
  shell_tree :: "rstr \<Rightarrow> tree option"
  shlex_split :: "rstr \<Rightarrow> rstr list option"
  url_capture :: "rstr \<Rightarrow> rstr option"
  url_scheme :: "rstr \<Rightarrow> rstr option"

definition is_ascii_alphabetic :: "rchar \<Rightarrow> bool" where
  "is_ascii_alphabetic c \<longleftrightarrow> 65 \<le> c \<and> c \<le> 90 \<or> 97 \<le> c \<and> c \<le> 122"

text \<open>The first item of \<open>str::rsplit\<close>: what follows the last separator.\<close>

definition after_last :: "(rchar \<Rightarrow> bool) \<Rightarrow> rstr \<Rightarrow> rstr" where
  "after_last sep s = rev (takeWhile (\<lambda>c. \<not> sep c) (rev s))"

definition strip_drive :: "rstr \<Rightarrow> rstr" where
  "strip_drive name =
     (case name of
        d # c # rest \<Rightarrow> if c = 58 \<and> is_ascii_alphabetic d then rest else name
      | _ \<Rightarrow> name)"

fun strip_first_suffix :: "rstr list \<Rightarrow> rstr \<Rightarrow> rstr option" where
  "strip_first_suffix [] name = None"
| "strip_first_suffix (sfx # sfxs) name =
     (case strip_suffix sfx name of Some stripped \<Rightarrow> Some stripped | None \<Rightarrow> strip_first_suffix sfxs name)"

fun executable_name_lookup_key :: "DangerousCommandPlatform \<Rightarrow> rstr \<Rightarrow> rstr option" where
  "executable_name_lookup_key Posix raw =
     (let name = after_last (\<lambda>c. c = 47) raw in if name = [] then None else Some name)"
| "executable_name_lookup_key Windows raw =
     (let name = after_last (\<lambda>c. c = 47 \<or> c = 92) raw in
      if name = [] then None
      else
        let name = to_ascii_lowercase (strip_drive name) in
        case strip_first_suffix [lit ''.exe'', lit ''.cmd'', lit ''.bat'', lit ''.com''] name of
          Some stripped \<Rightarrow> Some stripped
        | None \<Rightarrow> if name \<noteq> [] then Some name else None)"

definition rm_args_include_force_option :: "rstr list \<Rightarrow> bool" where
  "rm_args_include_force_option args =
     list_ex
       (\<lambda>arg. arg = lit ''--force'' \<or>
          (case strip_prefix [45] arg of
             None \<Rightarrow> False
           | Some flags \<Rightarrow> \<not> starts_with flags [45] \<and> 102 \<in> set flags))
       (takeWhile (\<lambda>arg. arg \<noteq> lit ''--'') args)"

text \<open>The command that \<open>env\<close> runs, after its options and assignments.\<close>

definition is_env_prefix :: "rstr \<Rightarrow> bool" where
  "is_env_prefix argument \<longleftrightarrow>
     argument = lit ''-i'' \<or> argument = lit ''--ignore-environment'' \<or>
     (case split_once 61 argument of
        None \<Rightarrow> False
      | Some (name, _) \<Rightarrow> name \<noteq> [] \<and> \<not> starts_with name [45])"

fun env_command :: "rstr list \<Rightarrow> rstr list" where
  "env_command [] = []"
| "env_command (argument # rest) =
     (if argument = lit ''--'' then rest
      else if is_env_prefix argument then env_command rest
      else argument # rest)"

text \<open>The shell command that stands for the action of \<open>trap\<close>.\<close>

definition trap_command :: "rstr list \<Rightarrow> rstr list option" where
  "trap_command args =
     (case (case args of a # rest \<Rightarrow> if a = lit ''--'' then rest else args | [] \<Rightarrow> []) of
        [] \<Rightarrow> None
      | action # _ \<Rightarrow>
          if starts_with action [45] then None else Some [lit ''sh'', lit ''-c'', action])"

text \<open>One command, with the check of the commands it wraps as an argument.\<close>

definition dangerous_command_match_for_exec ::
  "(rstr list \<Rightarrow> DangerousCommandMatch option) \<Rightarrow> DangerousCommandPlatform \<Rightarrow> rstr list \<Rightarrow>
   DangerousCommandMatch option" where
  "dangerous_command_match_for_exec check platform command =
     (case command of
        [] \<Rightarrow> None
      | cmd0 # args \<Rightarrow>
          (let key = executable_name_lookup_key platform cmd0 in
           if key = Some (lit ''rm'') \<and> rm_args_include_force_option args then Some ForcedRm
           else if key = Some (lit ''sudo'') then check args
           else if key = Some (lit ''env'') then check (env_command args)
           else if key = Some (lit ''trap'') then
             (case trap_command args of None \<Rightarrow> None | Some shell_command \<Rightarrow> check shell_command)
           else None))"

fun find_map :: "('a \<Rightarrow> 'b option) \<Rightarrow> 'a list \<Rightarrow> 'b option" where
  "find_map f [] = None"
| "find_map f (x # xs) = (case f x of Some y \<Rightarrow> Some y | None \<Rightarrow> find_map f xs)"

subsection \<open>Windows\<close>

definition looks_like_url :: "safety_env \<Rightarrow> rstr \<Rightarrow> bool" where
  "looks_like_url env token =
     (let lowercase_token = to_ascii_lowercase token;
          urlish =
            (case find_sub (lit ''https://'') lowercase_token of
               Some idx \<Rightarrow> drop idx token
             | None \<Rightarrow>
                 (case find_sub (lit ''http://'') lowercase_token of
                    Some idx \<Rightarrow> drop idx token
                  | None \<Rightarrow> token));
          candidate = (case url_capture env urlish of Some m \<Rightarrow> m | None \<Rightarrow> urlish)
      in url_scheme env candidate = Some (lit ''http'') \<or> url_scheme env candidate = Some (lit ''https''))"

definition args_have_url :: "safety_env \<Rightarrow> rstr list \<Rightarrow> bool" where
  "args_have_url env args = list_ex (looks_like_url env) args"

definition executable_basename :: "rstr \<Rightarrow> rstr option" where
  "executable_basename exe =
     (let name = after_last (\<lambda>c. c = 47 \<or> c = 92) exe in
      if name = [] then None
      else
        let name = strip_drive name in
        if name \<noteq> [] then Some (to_ascii_lowercase name) else None)"

definition is_powershell_executable :: "rstr \<Rightarrow> bool" where
  "is_powershell_executable exe \<longleftrightarrow>
     executable_basename exe \<in>
       {Some (lit ''powershell''), Some (lit ''powershell.exe''), Some (lit ''pwsh''), Some (lit ''pwsh.exe'')}"

definition is_browser_executable :: "rstr \<Rightarrow> bool" where
  "is_browser_executable name \<longleftrightarrow>
     name \<in> set [lit ''chrome'', lit ''chrome.exe'', lit ''msedge'', lit ''msedge.exe'', lit ''firefox'',
       lit ''firefox.exe'', lit ''iexplore'', lit ''iexplore.exe'']"

definition DELETE_CMDLETS :: "rstr list" where
  "DELETE_CMDLETS = [lit ''remove-item'', lit ''ri'', lit ''rm'', lit ''del'', lit ''erase'', lit ''rd'', lit ''rmdir'']"

definition SEG_SEPS :: "rchar list" where
  "SEG_SEPS = [59, 124, 38, 10, 13, 9]"

definition SOFT_SEPS :: "rchar list" where
  "SOFT_SEPS = [123, 125, 40, 41, 91, 93, 44, 59]"

text \<open>The segments are kept with the open one last; it always exists.\<close>

definition push_word :: "rstr list list \<Rightarrow> rstr \<Rightarrow> rstr list list" where
  "push_word segs w = (if trim w = [] then segs else butlast segs @ [last segs @ [trim w]])"

fun seg_char :: "rstr list list \<times> rstr \<Rightarrow> rchar \<Rightarrow> rstr list list \<times> rstr" where
  "seg_char (segs, cur) ch =
     (if ch \<in> set SEG_SEPS then
        (let segs1 = push_word segs cur in (if last segs1 \<noteq> [] then segs1 @ [[]] else segs1, []))
      else (segs, cur @ [ch]))"

definition seg_token :: "rstr list list \<Rightarrow> rstr \<Rightarrow> rstr list list" where
  "seg_token segs tok = (let (segs1, cur) = foldl seg_char (segs, []) tok in push_word segs1 cur)"

fun split_by :: "('a \<Rightarrow> bool) \<Rightarrow> 'a list \<Rightarrow> 'a list list" where
  "split_by P [] = [[]]"
| "split_by P (x # xs) =
     (if P x then [] # split_by P xs else (case split_by P xs of [] \<Rightarrow> [[x]] | y # ys \<Rightarrow> (x # y) # ys))"

definition segment_atoms :: "rstr list \<Rightarrow> rstr list" where
  "segment_atoms seg =
     filter (\<lambda>s. s \<noteq> []) (map trim (concat (map (split_by (\<lambda>c. c \<in> set SOFT_SEPS)) seg)))"

definition is_delete_atom :: "rstr \<Rightarrow> bool" where
  "is_delete_atom a = list_ex (eq_ignore_ascii_case a) DELETE_CMDLETS"

definition is_force_atom :: "rstr \<Rightarrow> bool" where
  "is_force_atom a \<longleftrightarrow>
     eq_ignore_ascii_case a (lit ''-force'') \<or> eq_ignore_ascii_case (take 7 a) (lit ''-force:'')"

definition has_force_delete_cmdlet :: "rstr list \<Rightarrow> bool" where
  "has_force_delete_cmdlet tokens =
     list_ex (\<lambda>seg. list_ex is_delete_atom (segment_atoms seg) \<and> list_ex is_force_atom (segment_atoms seg))
       (foldl seg_token [[]] tokens)"

definition powershell_token :: "rstr \<Rightarrow> rstr" where
  "powershell_token t = to_ascii_lowercase (trim_matches 34 (trim_matches 39 t))"

definition is_dangerous_powershell_words :: "safety_env \<Rightarrow> rstr list \<Rightarrow> bool" where
  "is_dangerous_powershell_words env words =
     (let tokens_lc = map powershell_token words;
          has_url = args_have_url env words
      in
        has_url \<and>
          list_ex (\<lambda>t. t \<in> set [lit ''start-process'', lit ''start'', lit ''saps'', lit ''invoke-item'', lit ''ii''] \<or>
            contains t (lit ''start-process'') \<or> contains t (lit ''invoke-item'')) tokens_lc \<or>
        has_url \<and>
          list_ex (\<lambda>t. contains t (lit ''shellexecute'') \<or> contains t (lit ''shell.application'')) tokens_lc \<or>
        (case tokens_lc of
           [] \<Rightarrow> False
         | first # _ \<Rightarrow>
             first = lit ''rundll32'' \<and>
               list_ex (\<lambda>t. contains t (lit ''url.dll,fileprotocolhandler'')) tokens_lc \<and> has_url \<or>
             first = lit ''mshta'' \<and> has_url \<or>
             is_browser_executable first \<and> has_url \<or>
             (first = lit ''explorer'' \<or> first = lit ''explorer.exe'') \<and> has_url) \<or>
        has_force_delete_cmdlet tokens_lc)"

text \<open>\<open>parse_powershell_invocation\<close>, over the arguments from the index of its loop on.\<close>

fun parse_powershell_invocation :: "safety_env \<Rightarrow> rstr list \<Rightarrow> rstr list option" where
  "parse_powershell_invocation env [] = None"
| "parse_powershell_invocation env (arg # rest) =
     (let lower = to_ascii_lowercase arg in
      if lower = lit ''-command'' \<or> lower = lit ''/command'' \<or> lower = lit ''-c'' then
        (case rest of [script] \<Rightarrow> shlex_split env script | _ \<Rightarrow> None)
      else if starts_with lower (lit ''-command:'') \<or> starts_with lower (lit ''/command:'') then
        (if rest \<noteq> [] then None
         else (case split_once 58 arg of None \<Rightarrow> None | Some (_, script) \<Rightarrow> shlex_split env script))
      else if starts_with lower [45] then parse_powershell_invocation env rest
      else Some (arg # rest))"

definition is_dangerous_powershell :: "safety_env \<Rightarrow> rstr list \<Rightarrow> bool" where
  "is_dangerous_powershell env command =
     (case command of
        [] \<Rightarrow> False
      | exe # rest \<Rightarrow>
          is_powershell_executable exe \<and>
          (case parse_powershell_invocation env rest of
             None \<Rightarrow> False
           | Some tokens \<Rightarrow> is_dangerous_powershell_words env tokens))"

text \<open>The options of \<open>cmd\<close>; \<open>None\<close> for a token before the command body that is not one.\<close>

fun skip_cmd_flags :: "rstr list \<Rightarrow> rstr list option" where
  "skip_cmd_flags [] = Some []"
| "skip_cmd_flags (arg # rest) =
     (let lower = to_ascii_lowercase arg in
      if lower = lit ''/c'' \<or> lower = lit ''/r'' \<or> lower = lit ''-c'' then Some rest
      else if starts_with lower [47] then skip_cmd_flags rest
      else None)"

fun split_operators :: "rstr \<Rightarrow> rstr \<Rightarrow> rstr list" where
  "split_operators cur [] = (if cur \<noteq> [] then [cur] else [])"
| "split_operators cur [ch] =
     (if ch = 38 \<or> ch = 124 then (if cur \<noteq> [] then [cur] else []) @ [[ch]]
      else [cur @ [ch]])"
| "split_operators cur (ch # nxt # rest) =
     (if ch = 38 \<or> ch = 124 then
        (if cur \<noteq> [] then [cur] else []) @
        (if nxt = ch then [ch, nxt] # split_operators [] rest
         else [ch] # split_operators [] (nxt # rest))
      else split_operators (cur @ [ch]) (nxt # rest))"

definition split_embedded_cmd_operators :: "rstr \<Rightarrow> rstr list" where
  "split_embedded_cmd_operators token = filter (\<lambda>s. trim s \<noteq> []) (split_operators [] token)"

definition CMD_SEPARATORS :: "rstr list" where
  "CMD_SEPARATORS = [[38], [38, 38], [124], [124, 124]]"

definition has_flag_cmd :: "rstr \<Rightarrow> rstr list \<Rightarrow> bool" where
  "has_flag_cmd flag args = list_ex (\<lambda>a. eq_ignore_ascii_case a flag) args"

definition dangerous_cmd_segment :: "safety_env \<Rightarrow> rstr list \<Rightarrow> bool" where
  "dangerous_cmd_segment env segment =
     (case segment of
        [] \<Rightarrow> False
      | cmd # _ \<Rightarrow>
          eq_ignore_ascii_case cmd (lit ''start'') \<and> args_have_url env segment \<or>
          (eq_ignore_ascii_case cmd (lit ''del'') \<or> eq_ignore_ascii_case cmd (lit ''erase'')) \<and>
            has_flag_cmd (lit ''/f'') segment \<or>
          (eq_ignore_ascii_case cmd (lit ''rd'') \<or> eq_ignore_ascii_case cmd (lit ''rmdir'')) \<and>
            has_flag_cmd (lit ''/s'') segment \<and> has_flag_cmd (lit ''/q'') segment)"

definition is_dangerous_cmd :: "safety_env \<Rightarrow> rstr list \<Rightarrow> bool" where
  "is_dangerous_cmd env command =
     (case command of
        [] \<Rightarrow> False
      | exe # rest \<Rightarrow>
          (executable_basename exe = Some (lit ''cmd'') \<or> executable_basename exe = Some (lit ''cmd.exe'')) \<and>
          (case skip_cmd_flags rest of
             None \<Rightarrow> False
           | Some remaining \<Rightarrow>
               remaining \<noteq> [] \<and>
               (let cmd_tokens =
                      (case remaining of
                         [only] \<Rightarrow> (case shlex_split env only of Some ts \<Rightarrow> ts | None \<Rightarrow> [only])
                       | _ \<Rightarrow> remaining);
                    tokens = concat (map split_embedded_cmd_operators cmd_tokens)
                in list_ex (dangerous_cmd_segment env) (split_by (\<lambda>t. t \<in> set CMD_SEPARATORS) tokens))))"

definition is_direct_gui_launch :: "safety_env \<Rightarrow> rstr list \<Rightarrow> bool" where
  "is_direct_gui_launch env command =
     (case command of
        [] \<Rightarrow> False
      | exe # rest \<Rightarrow>
          (case executable_basename exe of
             None \<Rightarrow> False
           | Some base \<Rightarrow>
               (base = lit ''explorer'' \<or> base = lit ''explorer.exe'') \<and> args_have_url env rest \<or>
               (base = lit ''mshta'' \<or> base = lit ''mshta.exe'') \<and> args_have_url env rest \<or>
               (base = lit ''rundll32'' \<or> base = lit ''rundll32.exe'') \<and>
                 list_ex (\<lambda>t. contains (to_ascii_lowercase t) (lit ''url.dll,fileprotocolhandler'')) rest \<and>
                 args_have_url env rest \<or>
               is_browser_executable base \<and> args_have_url env rest))"

definition is_dangerous_command_windows :: "safety_env \<Rightarrow> rstr list \<Rightarrow> bool" where
  "is_dangerous_command_windows env command \<longleftrightarrow>
     is_dangerous_powershell env command \<or> is_dangerous_cmd env command \<or> is_direct_gui_launch env command"

definition dangerous_powershell_words_match ::
  "safety_env \<Rightarrow> rstr list \<Rightarrow> DangerousCommandPlatform \<Rightarrow> DangerousCommandMatch option" where
  "dangerous_powershell_words_match env command platform =
     (if platform = Windows then (if is_dangerous_powershell_words env command then Some OtherMatch else None)
      else None)"

subsection \<open>The whole check\<close>

fun dangerous_command_match_with_depth ::
  "nat \<Rightarrow> safety_env \<Rightarrow> DangerousCommandPlatform \<Rightarrow> rstr list \<Rightarrow> DangerousCommandMatch option" where
  "dangerous_command_match_with_depth 0 env platform command = Some OtherMatch"
| "dangerous_command_match_with_depth (Suc left) env platform command =
     (case dangerous_command_match_for_exec (dangerous_command_match_with_depth left env platform) platform command of
        Some m \<Rightarrow> Some m
      | None \<Rightarrow>
          (case (case parse_shell_lc_literal_commands (shell_tree env) command of
                   None \<Rightarrow> None
                 | Some commands \<Rightarrow> find_map (dangerous_command_match_with_depth left env platform) commands) of
             Some m \<Rightarrow> Some m
           | None \<Rightarrow>
               if platform = Windows \<and> is_dangerous_command_windows env command then Some OtherMatch else None))"

definition dangerous_command_match_for_platform ::
  "safety_env \<Rightarrow> rstr list \<Rightarrow> DangerousCommandPlatform \<Rightarrow> DangerousCommandMatch option" where
  "dangerous_command_match_for_platform env command platform =
     dangerous_command_match_with_depth (Suc MAX_DANGEROUS_COMMAND_WRAPPER_DEPTH) env platform command"

section \<open>What a command runs\<close>

text \<open>The nodes that the walk of \<open>parse_shell_lc_literal_commands\<close> meets.\<close>

definition named_child :: "node \<Rightarrow> node \<Rightarrow> bool" where
  "named_child n m \<longleftrightarrow> m \<in> set (named_children n)"

text \<open>
  One wrapper opened: the command that \<open>sudo\<close> or \<open>env\<close> runs, the action of a \<open>trap\<close> as a script, a
  literal command anywhere in the script of a shell.
\<close>

inductive runs :: "safety_env \<Rightarrow> DangerousCommandPlatform \<Rightarrow> rstr list \<Rightarrow> rstr list \<Rightarrow> bool"
  for env platform where
  sudo: "executable_name_lookup_key platform cmd0 = Some (lit ''sudo'') \<Longrightarrow> runs env platform (cmd0 # args) args"
| env_plain: "executable_name_lookup_key platform cmd0 = Some (lit ''env'') \<Longrightarrow> list_all is_env_prefix pre \<Longrightarrow>
    inner = [] \<or> \<not> is_env_prefix (hd inner) \<and> hd inner \<noteq> lit ''--'' \<Longrightarrow> runs env platform (cmd0 # pre @ inner) inner"
| env_dashes: "executable_name_lookup_key platform cmd0 = Some (lit ''env'') \<Longrightarrow> list_all is_env_prefix pre \<Longrightarrow>
    runs env platform (cmd0 # pre @ lit ''--'' # inner) inner"
| trap: "executable_name_lookup_key platform cmd0 = Some (lit ''trap'') \<Longrightarrow>
    \<not> starts_with action [45] \<Longrightarrow>
    runs env platform (cmd0 # action # conditions) [lit ''sh'', lit ''-c'', action]"
| trap_dashes: "executable_name_lookup_key platform cmd0 = Some (lit ''trap'') \<Longrightarrow> \<not> starts_with action [45] \<Longrightarrow>
    runs env platform (cmd0 # lit ''--'' # action # conditions) [lit ''sh'', lit ''-c'', action]"
| script: "extract_bash_command command = Some (shell, script) \<Longrightarrow> shell_tree env script = Some t \<Longrightarrow>
    \<not> has_error t \<Longrightarrow> named_child\<^sup>*\<^sup>* (root_node t) n \<Longrightarrow> parse_literal_command_from_node n = Some inner \<Longrightarrow>
    runs env platform command inner"

definition forced_rm :: "DangerousCommandPlatform \<Rightarrow> rstr list \<Rightarrow> bool" where
  "forced_rm platform command \<longleftrightarrow>
     (case command of
        [] \<Rightarrow> False
      | cmd0 # args \<Rightarrow>
          executable_name_lookup_key platform cmd0 = Some (lit ''rm'') \<and> rm_args_include_force_option args)"

definition dangerous_alone :: "safety_env \<Rightarrow> DangerousCommandPlatform \<Rightarrow> rstr list \<Rightarrow> bool" where
  "dangerous_alone env platform command \<longleftrightarrow>
     forced_rm platform command \<or> platform = Windows \<and> is_dangerous_command_windows env command"

lemma find_map_None [simp]: "find_map f xs = None \<longleftrightarrow> (\<forall>x \<in> set xs. f x = None)"
  by (induction xs) (auto split: option.splits)

lemma set_visit_literal:
  "set (visit_literal cs stack) =
     set cs \<union> {ws. \<exists>n \<in> set stack. \<exists>m. named_child\<^sup>*\<^sup>* n m \<and> parse_literal_command_from_node m = Some ws}"
proof (induction cs stack rule: visit_literal.induct)
  case (2 cs n stack)
  have n: "named_child\<^sup>*\<^sup>* n m \<longleftrightarrow> m = n \<or> (\<exists>c \<in> set (named_children n). named_child\<^sup>*\<^sup>* c m)" for m
    by (auto simp: named_child_def elim: converse_rtranclpE intro: converse_rtranclp_into_rtranclp)
  have "node_kind n = lit ''command''" if "parse_literal_command_from_node n = Some ws" for ws
    using that by (simp add: parse_literal_command_from_node_def split: if_splits)
  with 2 show ?case by (auto simp: n split: option.splits) 
qed simp

lemma dashes_no_prefix: "\<not> is_env_prefix (lit ''--'')"
  by code_simp

lemma env_command_iff:
  "env_command args = inner \<longleftrightarrow>
     (\<exists>pre. list_all is_env_prefix pre \<and>
        (args = pre @ lit ''--'' # inner \<or>
         args = pre @ inner \<and> (inner = [] \<or> \<not> is_env_prefix (hd inner) \<and> hd inner \<noteq> lit ''--'')))"
  (is "_ \<longleftrightarrow> (\<exists>pre. ?P args pre)")
proof
  show "\<exists>pre. ?P args pre" if "env_command args = inner"
    using that
  proof (induction args)
    case (Cons a args)
    show ?case
    proof (cases "is_env_prefix a")
      case True
      with Cons dashes_no_prefix obtain pre where "?P args pre" by (auto split: if_splits)
      with True show ?thesis by (intro exI [of _ "a # pre"]) auto
    next
      case False
      with Cons.prems show ?thesis by (intro exI [of _ "[]"]) (auto split: if_splits)
    qed
  qed (auto intro: exI [of _ "[]"])
next
  have step: "env_command (pre @ rest) = env_command rest" if "list_all is_env_prefix pre" for pre rest
    using that dashes_no_prefix by (induction pre) auto
  show "env_command args = inner" if "\<exists>pre. ?P args pre"
    using that by (cases inner) (auto simp: step step [of _ "[]", simplified])
qed

lemma key_cases:
  "lit ''rm'' \<noteq> lit ''sudo''" "lit ''rm'' \<noteq> lit ''env''" "lit ''rm'' \<noteq> lit ''trap''" "lit ''sudo'' \<noteq> lit ''env''"
  "lit ''sudo'' \<noteq> lit ''trap''" "lit ''env'' \<noteq> lit ''trap''"
  by (simp_all add: lit_eval)

lemmas keys = key_cases key_cases [THEN not_sym]

text \<open>The wrappers that are opened without a shell.\<close>

definition exec_wrapped :: "DangerousCommandPlatform \<Rightarrow> rstr list \<Rightarrow> rstr list option" where
  "exec_wrapped platform command =
     (case command of
        [] \<Rightarrow> None
      | cmd0 # args \<Rightarrow>
          (let key = executable_name_lookup_key platform cmd0 in
           if key = Some (lit ''sudo'') then Some args
           else if key = Some (lit ''env'') then Some (env_command args)
           else if key = Some (lit ''trap'') then trap_command args
           else None))"

lemma for_exec_eq:
  "dangerous_command_match_for_exec check platform command =
     (if forced_rm platform command then Some ForcedRm
      else case exec_wrapped platform command of None \<Rightarrow> None | Some inner \<Rightarrow> check inner)"
  by (auto simp: dangerous_command_match_for_exec_def forced_rm_def exec_wrapped_def Let_def keys
      split: list.splits option.splits)

lemma trap_command_iff:
  "trap_command args = Some inner \<longleftrightarrow>
     (\<exists>action conditions. (args = action # conditions \<or> args = lit ''--'' # action # conditions) \<and>
        \<not> starts_with action [45] \<and> inner = [lit ''sh'', lit ''-c'', action])"
proof -
  have "starts_with (lit ''--'') [45]" by code_simp
  then show ?thesis by (auto simp: trap_command_def split: list.splits if_splits)
qed

lemma runs_iff:
  "runs env platform command inner \<longleftrightarrow>
     exec_wrapped platform command = Some inner \<or>
     (\<exists>commands. parse_shell_lc_literal_commands (shell_tree env) command = Some commands \<and> inner \<in> set commands)"
  (is "_ \<longleftrightarrow> ?exec \<or> ?shell")
proof
  show "?exec \<or> ?shell" if "runs env platform command inner"
    using that
  proof cases
    case (env_plain cmd0 pre)
    then have "env_command (pre @ inner) = inner" unfolding env_command_iff by blast
    with env_plain show ?thesis by (simp add: exec_wrapped_def keys)
  next
    case (env_dashes cmd0 pre)
    then have "env_command (pre @ lit ''--'' # inner) = inner" unfolding env_command_iff by blast
    with env_dashes show ?thesis by (simp add: exec_wrapped_def keys)
  next
    case (script shell script t n)
    then show ?thesis by (auto simp: parse_shell_lc_literal_commands_def set_visit_literal simp del: visit_literal.simps)
  qed (auto simp: exec_wrapped_def keys trap_command_iff)
next
  show "runs env platform command inner" if "?exec \<or> ?shell"
    using that
  proof
    assume e: ?exec
    then obtain cmd0 args where c: "command = cmd0 # args"
      by (auto simp: exec_wrapped_def split: list.splits)
    with e consider
        "executable_name_lookup_key platform cmd0 = Some (lit ''sudo'')" "args = inner"
      | "executable_name_lookup_key platform cmd0 = Some (lit ''env'')" "env_command args = inner"
      | "executable_name_lookup_key platform cmd0 = Some (lit ''trap'')" "trap_command args = Some inner"
      by (auto simp: exec_wrapped_def Let_def split: if_splits)
    then show ?thesis
    proof cases
      case 2
      from 2(2) show ?thesis unfolding env_command_iff c using 2(1) by (auto intro: runs.env_plain runs.env_dashes)
    qed (auto simp: c trap_command_iff intro: runs.intros)
  next
    assume ?shell
    then show ?thesis
      by (auto simp: parse_shell_lc_literal_commands_def set_visit_literal simp del: visit_literal.simps
          split: option.splits if_splits) (erule (4) runs.script)
  qed
qed

lemma orelse_None: "(case x of Some m \<Rightarrow> Some m | None \<Rightarrow> y) = None \<longleftrightarrow> x = None \<and> y = None"
  by (cases x) auto

lemma match_step:
  "dangerous_command_match_with_depth (Suc left) env platform command \<noteq> None \<longleftrightarrow>
     dangerous_alone env platform command \<or>
     (\<exists>inner. runs env platform command inner \<and> dangerous_command_match_with_depth left env platform inner \<noteq> None)"
proof -
  have "dangerous_command_match_with_depth (Suc left) env platform command = None \<longleftrightarrow>
      \<not> dangerous_alone env platform command \<and>
      (\<forall>inner. runs env platform command inner \<longrightarrow> dangerous_command_match_with_depth left env platform inner = None)"
    by (cases "exec_wrapped platform command"; cases "parse_shell_lc_literal_commands (shell_tree env) command")
      (auto simp: orelse_None for_exec_eq runs_iff dangerous_alone_def)
  then show ?thesis by metis
qed

lemma match_with_depth_iff:
  "dangerous_command_match_with_depth left env platform command \<noteq> None \<longleftrightarrow>
     (\<exists>k < left. \<exists>inner. (runs env platform ^^ k) command inner \<and> dangerous_alone env platform inner) \<or>
     (\<exists>inner. (runs env platform ^^ left) command inner)"
proof (induction left arbitrary: command)
  case (Suc left)
  have "(\<exists>k < Suc left. \<exists>inner. (runs env platform ^^ k) command inner \<and> dangerous_alone env platform inner) \<longleftrightarrow>
      dangerous_alone env platform command \<or>
      (\<exists>d. runs env platform command d \<and>
         (\<exists>k < left. \<exists>inner. (runs env platform ^^ k) d inner \<and> dangerous_alone env platform inner))"
    unfolding Ex_less_Suc2
    by (auto simp del: relpowp.simps(2) intro: relpowp_Suc_I2 elim!: relpowp_Suc_E2)
  moreover have "(\<exists>inner. (runs env platform ^^ Suc left) command inner) \<longleftrightarrow>
      (\<exists>d. runs env platform command d \<and> (\<exists>inner. (runs env platform ^^ left) d inner))"
    by (auto simp del: relpowp.simps(2) intro: relpowp_Suc_I2 elim!: relpowp_Suc_E2)
  ultimately show ?case unfolding match_step Suc.IH by blast
qed simp

text \<open>The commands that \<open>sudo\<close> and \<open>env\<close> run are the only ones the check looks at.\<close>

inductive execs :: "DangerousCommandPlatform \<Rightarrow> rstr list \<Rightarrow> rstr list \<Rightarrow> bool" for platform where
  "executable_name_lookup_key platform cmd0 = Some (lit ''sudo'') \<Longrightarrow> execs platform (cmd0 # args) args"
| "executable_name_lookup_key platform cmd0 = Some (lit ''env'') \<Longrightarrow> execs platform (cmd0 # args) (env_command args)"

lemma execs_match:
  assumes "execs platform command inner" "dangerous_command_match_with_depth left env platform inner = Some m"
  shows "dangerous_command_match_with_depth (Suc left) env platform command = Some m"
  using assms
proof (cases rule: execs.cases)
  case (1 cmd0)
  then have "\<not> forced_rm platform command" "exec_wrapped platform command = Some inner"
    by (auto simp: forced_rm_def exec_wrapped_def keys)
  with assms(2) show ?thesis by (simp add: for_exec_eq)
next
  case (2 cmd0 args)
  then have "\<not> forced_rm platform command" "exec_wrapped platform command = Some inner"
    by (auto simp: forced_rm_def exec_wrapped_def keys)
  with assms(2) show ?thesis by (simp add: for_exec_eq)
qed

lemma execs_chain:
  "(execs platform ^^ k) command inner \<Longrightarrow> dangerous_command_match_with_depth left env platform inner = Some m \<Longrightarrow>
   dangerous_command_match_with_depth (k + left) env platform command = Some m"
proof (induction k arbitrary: command)
  case (Suc k)
  from Suc.prems(1) obtain d where "execs platform command d" "(execs platform ^^ k) d inner"
    by (elim relpowp_Suc_E2)
  with Suc execs_match show ?case by simp
qed simp

lemma forced_rm_match:
  "forced_rm platform command \<Longrightarrow> dangerous_command_match_with_depth (Suc left) env platform command = Some ForcedRm"
  by (simp add: for_exec_eq)

text \<open>
  Splitting a token of \<open>cmd\<close> at its operators loses nothing, and every part is one operator or has
  none: no command is left glued to an operator.
\<close>

lemma concat_split_operators: "concat (split_operators cur s) = cur @ s"
  by (induction cur s rule: split_operators.induct) auto

lemma split_operators_parts:
  "\<forall>c \<in> set cur. c \<noteq> 38 \<and> c \<noteq> 124 \<Longrightarrow> part \<in> set (split_operators cur s) \<Longrightarrow>
   part \<in> set CMD_SEPARATORS \<or> (\<forall>c \<in> set part. c \<noteq> 38 \<and> c \<noteq> 124)"
  by (induction cur s rule: split_operators.induct) (auto simp: CMD_SEPARATORS_def split: if_splits)

lemma split_embedded_parts:
  "part \<in> set (split_embedded_cmd_operators token) \<Longrightarrow>
   part \<in> set CMD_SEPARATORS \<or> (\<forall>c \<in> set part. c \<noteq> 38 \<and> c \<noteq> 124)"
  by (auto simp: split_embedded_cmd_operators_def dest: split_operators_parts [rotated])

section \<open>Properties\<close>


text \<open>
  A forced \<open>rm\<close> behind at most eight \<open>sudo\<close> and \<open>env\<close> wrappers is reported as such; behind more,
  the command is still reported, as dangerous for another reason.
\<close>

theorem wrapped_forced_rm_match:
  assumes "(execs platform ^^ k) command inner" "forced_rm platform inner"
  shows "dangerous_command_match_for_platform env command platform =
    Some (if k \<le> MAX_DANGEROUS_COMMAND_WRAPPER_DEPTH then ForcedRm else OtherMatch)"
proof (cases "k \<le> MAX_DANGEROUS_COMMAND_WRAPPER_DEPTH")
  case True
  then obtain left where left: "Suc MAX_DANGEROUS_COMMAND_WRAPPER_DEPTH = k + Suc left"
    using le_Suc_ex by fastforce
  from execs_chain [OF assms(1) forced_rm_match [OF assms(2)]] True show ?thesis
    by (simp add: dangerous_command_match_for_platform_def left del: dangerous_command_match_with_depth.simps)
next
  case False
  then have "k = Suc MAX_DANGEROUS_COMMAND_WRAPPER_DEPTH + (k - Suc MAX_DANGEROUS_COMMAND_WRAPPER_DEPTH)" by simp
  with assms(1) obtain d where "(execs platform ^^ Suc MAX_DANGEROUS_COMMAND_WRAPPER_DEPTH) command d"
    by (metis relpowp_add relcomppE)
  from execs_chain [OF this, of 0] False show ?thesis
    by (simp add: dangerous_command_match_for_platform_def del: dangerous_command_match_with_depth.simps(2))
qed

theorem wrapped_forced_rm_match_witness:
  "(execs Posix ^^ 2) [lit ''/usr/bin/sudo'', lit ''env'', lit ''A=1'', lit ''rm'', lit ''-rf'', lit ''/''] [lit ''rm'', lit ''-rf'', lit ''/''] \<and>
   forced_rm Posix [lit ''rm'', lit ''-rf'', lit ''/''] \<and>
   dangerous_command_match_for_platform \<lparr>shell_tree = \<lambda>_. None, shlex_split = \<lambda>_. None, url_capture = \<lambda>_. None, url_scheme = \<lambda>_. None\<rparr>
     [lit ''/usr/bin/sudo'', lit ''env'', lit ''A=1'', lit ''rm'', lit ''-rf'', lit ''/''] Posix = Some ForcedRm"
proof -
  have keys: "executable_name_lookup_key Posix (lit ''/usr/bin/sudo'') = Some (lit ''sudo'')"
    "executable_name_lookup_key Posix (lit ''env'') = Some (lit ''env'')" by code_simp+
  have env: "env_command [lit ''A=1'', lit ''rm'', lit ''-rf'', lit ''/''] = [lit ''rm'', lit ''-rf'', lit ''/'']" by code_simp
  have 1: "execs Posix [lit ''env'', lit ''A=1'', lit ''rm'', lit ''-rf'', lit ''/''] [lit ''rm'', lit ''-rf'', lit ''/'']"
    using execs.intros(2) [OF keys(2), of "[lit ''A=1'', lit ''rm'', lit ''-rf'', lit ''/'']"] by (simp only: env)
  have 2: "(execs Posix ^^ 2) [lit ''/usr/bin/sudo'', lit ''env'', lit ''A=1'', lit ''rm'', lit ''-rf'', lit ''/'']
      [lit ''rm'', lit ''-rf'', lit ''/'']"
    unfolding numeral_2_eq_2
    by (rule relpowp_Suc_I2, rule execs.intros(1) [OF keys(1)], rule relpowp_Suc_I2, rule 1, rule relpowp_0_I)
  have 3: "forced_rm Posix [lit ''rm'', lit ''-rf'', lit ''/'']" by code_simp
  from wrapped_forced_rm_match [OF 2 3] 2 3 show ?thesis by (simp add: MAX_DANGEROUS_COMMAND_WRAPPER_DEPTH_def)
qed

end
