(* ===== verification/Ip_Addr.thy ===== *)
theory Ip_Addr
  imports Prelude "HOL-Library.Word"
begin

text \<open>
  The addresses of \<open>std::net\<close> as the network proxy uses them, and the classification of
  \<open>network-proxy/src/policy.rs\<close> that keeps requests away from private networks.

  An IPv4 address is its four octets, an IPv6 address its eight segments. The parser of
  \<open>IpAddr::from_str\<close> is that of the standard library: it reads one group after the other, and each
  reader gives back the rest of the text.
\<close>

unbundle bit_operations_syntax

section \<open>Addresses\<close>

datatype Ipv4Addr = Ipv4 "8 word" "8 word" "8 word" "8 word"

datatype Ipv6Addr = Ipv6 "16 word" "16 word" "16 word" "16 word" "16 word" "16 word" "16 word" "16 word"

datatype IpAddr = V4 Ipv4Addr | V6 Ipv6Addr

text \<open>\<open>u32::from\<close>: the octets from the most significant one.\<close>

fun ipv4_nat :: "Ipv4Addr \<Rightarrow> nat" where
  "ipv4_nat (Ipv4 a b c d) = ((unat a * 256 + unat b) * 256 + unat c) * 256 + unat d"

definition ipv4_to_u32 :: "Ipv4Addr \<Rightarrow> 32 word" where
  "ipv4_to_u32 ip = word_of_nat (ipv4_nat ip)"

subsection \<open>The classifications of the standard library\<close>

fun v4_is_loopback :: "Ipv4Addr \<Rightarrow> bool" where
  "v4_is_loopback (Ipv4 a b c d) \<longleftrightarrow> a = 127"

fun v4_is_private :: "Ipv4Addr \<Rightarrow> bool" where
  "v4_is_private (Ipv4 a b c d) \<longleftrightarrow> a = 10 \<or> a = 172 \<and> 16 \<le> b \<and> b \<le> 31 \<or> a = 192 \<and> b = 168"

fun v4_is_link_local :: "Ipv4Addr \<Rightarrow> bool" where
  "v4_is_link_local (Ipv4 a b c d) \<longleftrightarrow> a = 169 \<and> b = 254"

fun v4_is_unspecified :: "Ipv4Addr \<Rightarrow> bool" where
  "v4_is_unspecified (Ipv4 a b c d) \<longleftrightarrow> a = 0 \<and> b = 0 \<and> c = 0 \<and> d = 0"

fun v4_is_multicast :: "Ipv4Addr \<Rightarrow> bool" where
  "v4_is_multicast (Ipv4 a b c d) \<longleftrightarrow> 224 \<le> a \<and> a \<le> 239"

fun v4_is_broadcast :: "Ipv4Addr \<Rightarrow> bool" where
  "v4_is_broadcast (Ipv4 a b c d) \<longleftrightarrow> a = 255 \<and> b = 255 \<and> c = 255 \<and> d = 255"

fun v6_is_loopback :: "Ipv6Addr \<Rightarrow> bool" where
  "v6_is_loopback (Ipv6 a b c d e f g h) \<longleftrightarrow>
     a = 0 \<and> b = 0 \<and> c = 0 \<and> d = 0 \<and> e = 0 \<and> f = 0 \<and> g = 0 \<and> h = 1"

fun v6_is_unspecified :: "Ipv6Addr \<Rightarrow> bool" where
  "v6_is_unspecified (Ipv6 a b c d e f g h) \<longleftrightarrow>
     a = 0 \<and> b = 0 \<and> c = 0 \<and> d = 0 \<and> e = 0 \<and> f = 0 \<and> g = 0 \<and> h = 0"

fun v6_is_multicast :: "Ipv6Addr \<Rightarrow> bool" where
  "v6_is_multicast (Ipv6 a b c d e f g h) \<longleftrightarrow> drop_bit 8 a = 0xff"

fun v6_is_unique_local :: "Ipv6Addr \<Rightarrow> bool" where
  "v6_is_unique_local (Ipv6 a b c d e f g h) \<longleftrightarrow> a AND 0xfe00 = 0xfc00"

fun v6_is_unicast_link_local :: "Ipv6Addr \<Rightarrow> bool" where
  "v6_is_unicast_link_local (Ipv6 a b c d e f g h) \<longleftrightarrow> a AND 0xffc0 = 0xfe80"

text \<open>\<open>Ipv6Addr::to_ipv4\<close>: IPv4-mapped and IPv4-compatible addresses.\<close>

fun v6_to_ipv4 :: "Ipv6Addr \<Rightarrow> Ipv4Addr option" where
  "v6_to_ipv4 (Ipv6 a b c d e f g h) =
     (if a = 0 \<and> b = 0 \<and> c = 0 \<and> d = 0 \<and> e = 0 \<and> (f = 0 \<or> f = 0xffff)
      then Some (Ipv4 (ucast (drop_bit 8 g)) (ucast g) (ucast (drop_bit 8 h)) (ucast h))
      else None)"

fun ip_is_loopback :: "IpAddr \<Rightarrow> bool" where
  "ip_is_loopback (V4 ip) = v4_is_loopback ip"
| "ip_is_loopback (V6 ip) = v6_is_loopback ip"

section \<open>The classification of the proxy\<close>

definition ipv4_in_cidr :: "Ipv4Addr \<Rightarrow> Ipv4Addr \<Rightarrow> nat \<Rightarrow> bool" where
  "ipv4_in_cidr ip base plen =
     (let mask = (if plen = 0 then 0 else push_bit (32 - plen) (- 1 :: 32 word)) in
      ipv4_to_u32 ip AND mask = ipv4_to_u32 base AND mask)"

definition is_non_public_ipv4 :: "Ipv4Addr \<Rightarrow> bool" where
  "is_non_public_ipv4 ip \<longleftrightarrow>
     v4_is_loopback ip \<or> v4_is_private ip \<or> v4_is_link_local ip \<or> v4_is_unspecified ip \<or>
     v4_is_multicast ip \<or> v4_is_broadcast ip \<or>
     ipv4_in_cidr ip (Ipv4 0 0 0 0) 8 \<or>
     ipv4_in_cidr ip (Ipv4 100 64 0 0) 10 \<or>
     ipv4_in_cidr ip (Ipv4 192 0 0 0) 24 \<or>
     ipv4_in_cidr ip (Ipv4 192 0 2 0) 24 \<or>
     ipv4_in_cidr ip (Ipv4 198 18 0 0) 15 \<or>
     ipv4_in_cidr ip (Ipv4 198 51 100 0) 24 \<or>
     ipv4_in_cidr ip (Ipv4 203 0 113 0) 24 \<or>
     ipv4_in_cidr ip (Ipv4 240 0 0 0) 4"

definition is_non_public_ipv6 :: "Ipv6Addr \<Rightarrow> bool" where
  "is_non_public_ipv6 ip =
     (case v6_to_ipv4 ip of
        Some v4 \<Rightarrow> is_non_public_ipv4 v4 \<or> v6_is_loopback ip
      | None \<Rightarrow>
          v6_is_loopback ip \<or> v6_is_unspecified ip \<or> v6_is_multicast ip \<or> v6_is_unique_local ip \<or>
          v6_is_unicast_link_local ip)"

fun is_non_public_ip :: "IpAddr \<Rightarrow> bool" where
  "is_non_public_ip (V4 ip) = is_non_public_ipv4 ip"
| "is_non_public_ip (V6 ip) = is_non_public_ipv6 ip"

section \<open>Parsing\<close>

definition to_digit :: "nat \<Rightarrow> rchar \<Rightarrow> nat option" where
  "to_digit radix c =
     (let v = (if 48 \<le> c \<and> c \<le> 57 then Some (c - 48)
               else if 97 \<le> c \<and> c \<le> 102 then Some (c - 87)
               else if 65 \<le> c \<and> c \<le> 70 then Some (c - 55)
               else None)
      in case v of None \<Rightarrow> None | Some d \<Rightarrow> if d < radix then Some d else None)"

fun digits_value :: "nat \<Rightarrow> nat \<Rightarrow> rstr \<Rightarrow> nat" where
  "digits_value radix acc [] = acc"
| "digits_value radix acc (c # cs) =
     (case to_digit radix c of None \<Rightarrow> acc | Some d \<Rightarrow> digits_value radix (acc * radix + d) cs)"

text \<open>
  \<open>read_number\<close> of the parser: all digits at the front, at most \<open>max_digits\<close> of them, whose value
  fits the result type.
\<close>

definition read_number :: "nat \<Rightarrow> nat \<Rightarrow> bool \<Rightarrow> nat \<Rightarrow> rstr \<Rightarrow> (nat \<times> rstr) option" where
  "read_number radix max_digits allow_zero_prefix bound s =
     (let ds = takeWhile (\<lambda>c. to_digit radix c \<noteq> None) s;
          v = digits_value radix 0 ds
      in
        if max_digits < length ds \<or> bound < v \<or> ds = [] then None
        else if \<not> allow_zero_prefix \<and> hd ds = 48 \<and> 1 < length ds then None
        else Some (v, drop (length ds) s))"

definition read_separator :: "rchar \<Rightarrow> nat \<Rightarrow> rstr \<Rightarrow> rstr option" where
  "read_separator c index s = (if index = 0 then Some s else strip_prefix [c] s)"

fun read_octets :: "nat list \<Rightarrow> rstr \<Rightarrow> (nat list \<times> rstr) option" where
  "read_octets [] s = Some ([], s)"
| "read_octets (i # is) s =
     (case read_separator 46 i s of
        None \<Rightarrow> None
      | Some s1 \<Rightarrow>
          (case read_number 10 3 False 255 s1 of
             None \<Rightarrow> None
           | Some (v, s2) \<Rightarrow>
               (case read_octets is s2 of None \<Rightarrow> None | Some (vs, s3) \<Rightarrow> Some (v # vs, s3))))"

definition read_ipv4_addr :: "rstr \<Rightarrow> (nat list \<times> rstr) option" where
  "read_ipv4_addr s = read_octets [0, 1, 2, 3] s"

text \<open>
  \<open>read_groups\<close>: the groups read, whether they end with an embedded IPv4 address, and the rest.
\<close>

fun read_groups :: "nat \<Rightarrow> nat list \<Rightarrow> nat list \<Rightarrow> rstr \<Rightarrow> nat list \<times> bool \<times> rstr" where
  "read_groups limit [] acc s = (acc, False, s)"
| "read_groups limit (i # is) acc s =
     (case (if i < limit - 1 then Option.bind (read_separator 58 i s) read_ipv4_addr else None) of
        Some (os, s1) \<Rightarrow> (acc @ [os ! 0 * 256 + os ! 1, os ! 2 * 256 + os ! 3], True, s1)
      | None \<Rightarrow>
          (case Option.bind (read_separator 58 i s) (read_number 16 4 True 65535) of
             None \<Rightarrow> (acc, False, s)
           | Some (g, s1) \<Rightarrow> read_groups limit is (acc @ [g]) s1))"

definition read_ipv6_addr :: "rstr \<Rightarrow> (nat list \<times> rstr) option" where
  "read_ipv6_addr s =
     (let (head, head_ipv4, s1) = read_groups 8 [0..<8] [] s in
      if length head = 8 then Some (head, s1)
      else if head_ipv4 then None
      else
        (case strip_prefix [58, 58] s1 of
           None \<Rightarrow> None
         | Some s2 \<Rightarrow>
             (let limit = 8 - (length head + 1);
                  (tail, _, s3) = read_groups limit [0..<limit] [] s2
              in Some (head @ replicate (8 - length head - length tail) 0 @ tail, s3))))"

fun ipv4_of :: "nat list \<Rightarrow> Ipv4Addr option" where
  "ipv4_of [a, b, c, d] = Some (Ipv4 (word_of_nat a) (word_of_nat b) (word_of_nat c) (word_of_nat d))"
| "ipv4_of _ = None"

fun ipv6_of :: "nat list \<Rightarrow> Ipv6Addr option" where
  "ipv6_of [a, b, c, d, e, f, g, h] =
     Some (Ipv6 (word_of_nat a) (word_of_nat b) (word_of_nat c) (word_of_nat d)
       (word_of_nat e) (word_of_nat f) (word_of_nat g) (word_of_nat h))"
| "ipv6_of _ = None"

definition parse_ip :: "rstr \<Rightarrow> IpAddr option" where
  "parse_ip s =
     (case (case read_ipv4_addr s of
              Some (os, rest) \<Rightarrow> map_option (\<lambda>ip. (V4 ip, rest)) (ipv4_of os)
            | None \<Rightarrow>
                (case read_ipv6_addr s of
                   Some (gs, rest) \<Rightarrow> map_option (\<lambda>ip. (V6 ip, rest)) (ipv6_of gs)
                 | None \<Rightarrow> None)) of
        Some (ip, []) \<Rightarrow> Some ip
      | _ \<Rightarrow> None)"

section \<open>Blocks\<close>

lemma ipv4_nat_less: "ipv4_nat ip < 2 ^ 32"
proof (cases ip)
  case (Ipv4 a b c d)
  have "unat a < 256" "unat b < 256" "unat c < 256" "unat d < 256"
    using unsigned_less [of a] unsigned_less [of b] unsigned_less [of c] unsigned_less [of d] by simp_all
  with Ipv4 show ?thesis by simp
qed

lemma unat_ipv4_to_u32 [simp]: "unat (ipv4_to_u32 ip) = ipv4_nat ip"
  using ipv4_nat_less [of ip] by (simp add: ipv4_to_u32_def unat_of_nat)

lemma masked_eq_iff:
  fixes x y :: "'a::len word"
  shows "x AND push_bit k (- 1) = y AND push_bit k (- 1) \<longleftrightarrow> drop_bit k x = drop_bit k y"
proof
  assume "x AND push_bit k (- 1) = y AND push_bit k (- 1)"
  then have "drop_bit k (x AND push_bit k (- 1)) = drop_bit k (y AND push_bit k (- 1))" by simp
  moreover have "drop_bit k (z AND push_bit k (- 1)) = drop_bit k z" for z :: "'a word"
    by (rule bit_word_eqI) (auto simp: bit_simps dest: bit_imp_le_length)
  ultimately show "drop_bit k x = drop_bit k y" by simp
next
  assume "drop_bit k x = drop_bit k y"
  moreover have "z AND push_bit k (- 1) = push_bit k (drop_bit k z)" for z :: "'a word"
    by (rule bit_word_eqI) (auto simp: bit_simps)
  ultimately show "x AND push_bit k (- 1) = y AND push_bit k (- 1)" by simp
qed

text \<open>The masks of the proxy compare the leading \<open>plen\<close> bits, for every length up to the whole address.\<close>

lemma ipv4_in_cidr_iff:
  "ipv4_in_cidr ip base plen \<longleftrightarrow> ipv4_nat ip div 2 ^ (32 - plen) = ipv4_nat base div 2 ^ (32 - plen)"
proof (cases "plen = 0")
  case True
  then show ?thesis using ipv4_nat_less [of ip] ipv4_nat_less [of base] by (simp add: ipv4_in_cidr_def)
next
  case False
  then have "ipv4_in_cidr ip base plen \<longleftrightarrow>
      drop_bit (32 - plen) (ipv4_to_u32 ip) = drop_bit (32 - plen) (ipv4_to_u32 base)"
    unfolding ipv4_in_cidr_def Let_def masked_eq_iff [symmetric] by simp
  also have "\<dots> \<longleftrightarrow> drop_bit (32 - plen) (ipv4_nat ip) = drop_bit (32 - plen) (ipv4_nat base)"
    unfolding word_unat_eq_iff unat_drop_bit_eq by simp
  finally show ?thesis by (simp add: drop_bit_eq_div)
qed

lemma div_nat_eqI_iff: "0 < m \<Longrightarrow> n div m = q \<longleftrightarrow> q * m \<le> n \<and> n < Suc q * (m :: nat)"
  by (metis div_nat_eqI dividend_less_times_div less_eq_div_iff_mult_less_eq mult.commute mult_Suc order_refl div_less_iff_less_mult less_Suc_eq_le)

lemma cidr_interval:
  fixes n b k :: nat
  assumes "2 ^ k dvd b"
  shows "n div 2 ^ k = b div 2 ^ k \<longleftrightarrow> b \<le> n \<and> n < b + 2 ^ k"
proof -
  from assms obtain q where q: "b = 2 ^ k * q" by blast
  have "n div 2 ^ k = q \<longleftrightarrow> q * 2 ^ k \<le> n \<and> n < Suc q * 2 ^ k"
    by (rule div_nat_eqI_iff) simp
  then show ?thesis unfolding q by (simp add: mult.commute add.commute)
qed


text \<open>An address block: the addresses that share the leading bits of its base.\<close>

definition in_block :: "Ipv4Addr \<Rightarrow> Ipv4Addr \<times> nat \<Rightarrow> bool" where
  "in_block ip blk \<longleftrightarrow> ipv4_nat (fst blk) \<le> ipv4_nat ip \<and> ipv4_nat ip < ipv4_nat (fst blk) + 2 ^ (32 - snd blk)"

definition non_public_blocks :: "(Ipv4Addr \<times> nat) list" where
  "non_public_blocks =
     [(Ipv4 0 0 0 0, 8), (Ipv4 10 0 0 0, 8), (Ipv4 100 64 0 0, 10), (Ipv4 127 0 0 0, 8), (Ipv4 169 254 0 0, 16),
      (Ipv4 172 16 0 0, 12), (Ipv4 192 0 0 0, 24), (Ipv4 192 0 2 0, 24), (Ipv4 192 168 0 0, 16), (Ipv4 198 18 0 0, 15),
      (Ipv4 198 51 100 0, 24), (Ipv4 203 0 113 0, 24), (Ipv4 224 0 0 0, 4), (Ipv4 240 0 0 0, 4)]"

lemma in_cidr_block: "2 ^ (32 - plen) dvd ipv4_nat base \<Longrightarrow> ipv4_in_cidr ip base plen \<longleftrightarrow> in_block ip (base, plen)"
  by (simp add: ipv4_in_cidr_iff cidr_interval in_block_def)

lemma octets_bounded: "unat (a :: 8 word) < 256"
  using unsigned_less [of a] by simp

lemma ipv4_nat_div:
  "ipv4_nat (Ipv4 a b c d) div 2 ^ 24 = unat a"
  "ipv4_nat (Ipv4 a b c d) div 2 ^ 16 = unat a * 256 + unat b"
  "ipv4_nat (Ipv4 a b c d) div 2 ^ 20 = unat a * 16 + unat b div 16"
  "ipv4_nat (Ipv4 a b c d) div 2 ^ 28 = unat a div 16"
proof -
  have 8: "(m * 256 + unat x) div 256 = m" for m and x :: "8 word" using octets_bounded [of x] by simp
  have pow: "(2 :: nat) ^ 16 = 256 * 256" "(2 :: nat) ^ 24 = 256 * 256 * 256" "(2 :: nat) ^ 20 = 256 * 256 * 16"
    "(2 :: nat) ^ 28 = 256 * 256 * 256 * 16" by simp_all
  have 16: "(unat a * 256 + unat b) div 16 = unat a * 16 + unat b div 16"
    using div_mult_self3 [of 16 "unat a * 16" "unat b"] by (simp add: mult.assoc)
  show "ipv4_nat (Ipv4 a b c d) div 2 ^ 24 = unat a"
    "ipv4_nat (Ipv4 a b c d) div 2 ^ 16 = unat a * 256 + unat b"
    "ipv4_nat (Ipv4 a b c d) div 2 ^ 20 = unat a * 16 + unat b div 16"
    "ipv4_nat (Ipv4 a b c d) div 2 ^ 28 = unat a div 16"
    unfolding pow by (simp_all only: ipv4_nat.simps div_mult2_eq 8 16)
qed

lemma two_digits: "y < m \<Longrightarrow> y' < m \<Longrightarrow> x * m + y = x' * m + y' \<longleftrightarrow> x = x' \<and> y = (y' :: nat)"
  by (metis div_mult_self3 mod_mult_self3 div_less mod_less add.right_neutral mult.commute not_less_zero)

lemma in_block_div:
  "2 ^ k dvd ipv4_nat base \<Longrightarrow> k = 32 - plen \<Longrightarrow>
   in_block ip (base, plen) \<longleftrightarrow> ipv4_nat ip div 2 ^ k = ipv4_nat base div 2 ^ k"
  by (simp add: cidr_interval in_block_def)

lemma v4_helpers_block:
  "v4_is_loopback ip \<longleftrightarrow> in_block ip (Ipv4 127 0 0 0, 8)"
  "v4_is_link_local ip \<longleftrightarrow> in_block ip (Ipv4 169 254 0 0, 16)"
  "v4_is_private ip \<longleftrightarrow> in_block ip (Ipv4 10 0 0 0, 8) \<or> in_block ip (Ipv4 172 16 0 0, 12) \<or> in_block ip (Ipv4 192 168 0 0, 16)"
  "v4_is_multicast ip \<longleftrightarrow> in_block ip (Ipv4 224 0 0 0, 4)"
proof -
  obtain a b c d where ip: "ip = Ipv4 a b c d" by (cases ip)
  note bounds = octets_bounded [of a] octets_bounded [of b]
  have aligned: "2 ^ 16 dvd ipv4_nat (Ipv4 169 254 0 0)" "2 ^ 16 dvd ipv4_nat (Ipv4 192 168 0 0)"
    "2 ^ 24 dvd ipv4_nat (Ipv4 10 0 0 0)" "2 ^ 24 dvd ipv4_nat (Ipv4 127 0 0 0)"
    "2 ^ 20 dvd ipv4_nat (Ipv4 172 16 0 0)" "2 ^ 28 dvd ipv4_nat (Ipv4 224 0 0 0)"
    by simp_all
  have b16: "in_block ip (Ipv4 169 254 0 0, 16) \<longleftrightarrow> unat a * 256 + unat b = 43518"
    "in_block ip (Ipv4 192 168 0 0, 16) \<longleftrightarrow> unat a * 256 + unat b = 49320"
    by (simp_all add: ip aligned [THEN in_block_div] ipv4_nat_div(2) del: ipv4_nat.simps power_numeral) 
  have b8: "in_block ip (Ipv4 10 0 0 0, 8) \<longleftrightarrow> unat a = 10" "in_block ip (Ipv4 127 0 0 0, 8) \<longleftrightarrow> unat a = 127"
    by (simp_all add: ip aligned [THEN in_block_div] ipv4_nat_div(1) del: ipv4_nat.simps power_numeral)
  have b12: "in_block ip (Ipv4 172 16 0 0, 12) \<longleftrightarrow> unat a * 16 + unat b div 16 = 2753"
    by (simp add: ip aligned [THEN in_block_div] ipv4_nat_div(3) del: ipv4_nat.simps power_numeral)
  have b4: "in_block ip (Ipv4 224 0 0 0, 4) \<longleftrightarrow> unat a div 16 = 14"
    by (simp add: ip aligned [THEN in_block_div] ipv4_nat_div(4) del: ipv4_nat.simps power_numeral)
  have split: "unat a = 169 \<and> unat b = 254 \<longleftrightarrow> unat a * 256 + unat b = 43518"
    "unat a = 192 \<and> unat b = 168 \<longleftrightarrow> unat a * 256 + unat b = 49320"
    using two_digits [of "unat b" 256 254 "unat a" 169] two_digits [of "unat b" 256 168 "unat a" 192] bounds by simp_all
  have "unat b div 16 < 16" "16 \<le> unat b \<and> unat b \<le> 31 \<longleftrightarrow> unat b div 16 = 1" using bounds by auto
  with two_digits [of "unat b div 16" 16 1 "unat a" 172]
  have split12: "unat a = 172 \<and> 16 \<le> unat b \<and> unat b \<le> 31 \<longleftrightarrow> unat a * 16 + unat b div 16 = 2753" by simp
  have split4: "224 \<le> unat a \<and> unat a \<le> 239 \<longleftrightarrow> unat a div 16 = 14" using bounds by auto
  note split = split split12 split4
  show "v4_is_loopback ip \<longleftrightarrow> in_block ip (Ipv4 127 0 0 0, 8)"
    "v4_is_link_local ip \<longleftrightarrow> in_block ip (Ipv4 169 254 0 0, 16)"
    "v4_is_multicast ip \<longleftrightarrow> in_block ip (Ipv4 224 0 0 0, 4)"
    unfolding b8 b16 b4 split [symmetric] by (simp_all add: ip word_unat_eq_iff word_le_nat_alt)
  show "v4_is_private ip \<longleftrightarrow> in_block ip (Ipv4 10 0 0 0, 8) \<or> in_block ip (Ipv4 172 16 0 0, 12) \<or> in_block ip (Ipv4 192 168 0 0, 16)"
    unfolding b8 b16 b12 split [symmetric] by (simp add: ip word_unat_eq_iff word_le_nat_alt)
qed

lemma non_public_ipv4_blocks: "is_non_public_ipv4 ip \<longleftrightarrow> list_ex (in_block ip) non_public_blocks"
proof -
  obtain a b c d where ip: "ip = Ipv4 a b c d" by (cases ip)
  have "v4_is_unspecified ip \<Longrightarrow> in_block ip (Ipv4 0 0 0 0, 8)" "v4_is_broadcast ip \<Longrightarrow> in_block ip (Ipv4 240 0 0 0, 4)"
    by (auto simp: ip in_block_def)
  then show ?thesis
    by (auto simp: is_non_public_ipv4_def non_public_blocks_def v4_helpers_block in_cidr_block)
qed


text \<open>An IPv6 address that carries no IPv4 address, by its first segment.\<close>

definition v6_local_segment :: "16 word \<Rightarrow> bool" where
  "v6_local_segment a \<longleftrightarrow> 0xfc00 \<le> a \<and> a \<le> 0xfdff \<or> 0xfe80 \<le> a \<and> a \<le> 0xfebf \<or> 0xff00 \<le> a"

lemma masked_interval:
  fixes x y :: "16 word"
  shows "x AND push_bit k (- 1) = y AND push_bit k (- 1) \<longleftrightarrow> unat x div 2 ^ k = unat y div 2 ^ k"
proof -
  have "drop_bit k x = drop_bit k y \<longleftrightarrow> drop_bit k (unat x) = drop_bit k (unat y)"
    unfolding word_unat_eq_iff unat_drop_bit_eq ..
  then show ?thesis unfolding masked_eq_iff by (simp add: drop_bit_eq_div)
qed

lemma v6_local_segment_masks:
  "a AND 0xfe00 = 0xfc00 \<or> a AND 0xffc0 = 0xfe80 \<or> drop_bit 8 a = 0xff \<longleftrightarrow> v6_local_segment a"
proof -
  have m: "(0xfe00 :: 16 word) = push_bit 9 (- 1)" "(0xffc0 :: 16 word) = push_bit 6 (- 1)"
    "(0xfc00 :: 16 word) AND push_bit 9 (- 1) = 0xfc00" "(0xfe80 :: 16 word) AND push_bit 6 (- 1) = 0xfe80"
    by code_simp+
  have "a AND 0xfe00 = 0xfc00 \<longleftrightarrow> unat a div 2 ^ 9 = 0xfc00 div 2 ^ 9"
    using masked_interval [of a 9 "0xfc00"] unfolding m by simp
  also have "\<dots> \<longleftrightarrow> 0xfc00 \<le> unat a \<and> unat a < 0xfe00" by auto
  finally have u: "a AND 0xfe00 = 0xfc00 \<longleftrightarrow> 0xfc00 \<le> unat a \<and> unat a < 0xfe00" .
  have "a AND 0xffc0 = 0xfe80 \<longleftrightarrow> unat a div 2 ^ 6 = 0xfe80 div 2 ^ 6"
    using masked_interval [of a 6 "0xfe80"] unfolding m by simp
  also have "\<dots> \<longleftrightarrow> 0xfe80 \<le> unat a \<and> unat a < 0xfec0" by auto
  finally have l: "a AND 0xffc0 = 0xfe80 \<longleftrightarrow> 0xfe80 \<le> unat a \<and> unat a < 0xfec0" .
  have a: "unat a < 65536" using unsigned_less [of a] by simp
  have "drop_bit 8 a = 0xff \<longleftrightarrow> unat a div 2 ^ 8 = 0xff"
    unfolding word_unat_eq_iff unat_drop_bit_eq by (simp add: drop_bit_eq_div)
  also have "\<dots> \<longleftrightarrow> 0xff00 \<le> unat a" using a by auto
  finally show ?thesis using u l by (auto simp: v6_local_segment_def word_le_nat_alt)
qed


end
