(* ===== verification/Domain_Pattern.thy ===== *)
theory Domain_Pattern
  imports Ip_Addr "HOL-Library.Sublist"
begin

text \<open>
  \<open>network-proxy/src/policy.rs\<close>: hosts in their normal form, domain patterns, and the globs they are
  compiled to.

  The \<open>globset\<close> crate is a parameter, \<open>glob_lib\<close>: building one glob, building a set, matching. The
  parser of \<open>url::Host\<close> is an argument of the functions that use it.
\<close>

section \<open>Hosts\<close>

text \<open>\<open>str::split_once\<close> for a string.\<close>

definition split_once_str :: "rstr \<Rightarrow> rstr \<Rightarrow> (rstr \<times> rstr) option" where
  "split_once_str p s =
     (case find_sub p s of None \<Rightarrow> None | Some i \<Rightarrow> Some (take i s, drop (i + length p) s))"

definition unscoped_ip_literal :: "rstr \<Rightarrow> rstr option" where
  "unscoped_ip_literal host =
     (case split_once 37 host of
        None \<Rightarrow> None
      | Some (ip, _) \<Rightarrow> if parse_ip ip = None then None else Some ip)"

definition scoped_literal :: "rstr \<Rightarrow> rstr \<Rightarrow> rstr option" where
  "scoped_literal delimiter host =
     (case split_once_str delimiter host of
        None \<Rightarrow> None
      | Some (ip, scope) \<Rightarrow> if parse_ip ip = None then None else Some (ip @ [37] @ scope))"

definition normalize_ip_literal :: "rstr \<Rightarrow> rstr option" where
  "normalize_ip_literal host =
     (if parse_ip host \<noteq> None then Some host
      else
        (case scoped_literal (lit ''%25'') host of
           Some h \<Rightarrow> Some h
         | None \<Rightarrow> scoped_literal [37] host))"

definition normalize_dns_host_or_ip_literal :: "rstr \<Rightarrow> rstr" where
  "normalize_dns_host_or_ip_literal host =
     (let host = trim_end_matches 46 (to_ascii_lowercase host) in
      case normalize_ip_literal host of Some ip \<Rightarrow> ip | None \<Rightarrow> host)"

definition normalize_host :: "rstr \<Rightarrow> rstr" where
  "normalize_host host =
     (let host = trim host in
      case (if starts_with host [91] then find_sub [93] host else None) of
        Some end_idx \<Rightarrow> normalize_dns_host_or_ip_literal (drop 1 (take end_idx host))
      | None \<Rightarrow>
          if count_list host 58 = 1 then normalize_dns_host_or_ip_literal (hd (split_on 58 host))
          else normalize_dns_host_or_ip_literal host)"

text \<open>\<open>Host::parse\<close>; a \<open>Host\<close> is its normalized text.\<close>

definition host_parse :: "rstr \<Rightarrow> rstr option" where
  "host_parse input =
     (let normalized = normalize_host input in if normalized = [] then None else Some normalized)"

definition is_loopback_host :: "rstr \<Rightarrow> bool" where
  "is_loopback_host host =
     (let host = (case unscoped_ip_literal host of Some ip \<Rightarrow> ip | None \<Rightarrow> host) in
      host = lit ''localhost'' \<or> (case parse_ip host of Some ip \<Rightarrow> ip_is_loopback ip | None \<Rightarrow> False))"

definition is_default_proxy_bypass_host :: "rstr \<Rightarrow> bool" where
  "is_default_proxy_bypass_host host =
     (let host = normalize_host host in
      case parse_ip host of
        Some (V4 ip) \<Rightarrow> ip = Ipv4 127 0 0 1 \<or> v4_is_private ip
      | Some (V6 ip) \<Rightarrow> ip = Ipv6 0 0 0 0 0 0 0 1
      | None \<Rightarrow> host = lit ''localhost'' \<or> ends_with host (lit ''.localhost''))"

section \<open>Patterns\<close>

datatype DomainPattern = ApexAndSubdomains rstr | SubdomainsOnly rstr | Exact rstr

definition parse_domain :: "rstr \<Rightarrow> (rstr \<Rightarrow> DomainPattern) \<Rightarrow> DomainPattern" where
  "parse_domain domain build =
     (let domain = trim domain in if domain = [] then Exact [] else build domain)"

definition DomainPattern_parse :: "rstr \<Rightarrow> DomainPattern" where
  "DomainPattern_parse input =
     (let input = trim input in
      if input = [] then Exact []
      else
        (case strip_prefix (lit ''**.'') input of
           Some domain \<Rightarrow> parse_domain domain ApexAndSubdomains
         | None \<Rightarrow>
             (case strip_prefix (lit ''*.'') input of
                Some domain \<Rightarrow> parse_domain domain SubdomainsOnly
              | None \<Rightarrow> Exact input)))"

definition parse_domain_for_constraints :: "(rstr \<Rightarrow> rstr option) \<Rightarrow> rstr \<Rightarrow> rstr" where
  "parse_domain_for_constraints url_host domain =
     (let domain = trim_end_matches 46 (trim domain) in
      if domain = [] then []
      else
        (let host = (if starts_with domain [91] \<and> ends_with domain [93]
                     then drop 1 (take (length domain - 1) domain) else domain)
         in
           if 42 \<in> set host \<or> 63 \<in> set host \<or> 37 \<in> set host then domain
           else (case url_host host of Some h \<Rightarrow> h | None \<Rightarrow> [])))"

definition parse_for_constraints :: "(rstr \<Rightarrow> rstr option) \<Rightarrow> rstr \<Rightarrow> DomainPattern" where
  "parse_for_constraints url_host input =
     (let input = trim input in
      if input = [] then Exact []
      else
        (case strip_prefix (lit ''**.'') input of
           Some domain \<Rightarrow> ApexAndSubdomains (parse_domain_for_constraints url_host domain)
         | None \<Rightarrow>
             (case strip_prefix (lit ''*.'') input of
                Some domain \<Rightarrow> SubdomainsOnly (parse_domain_for_constraints url_host domain)
              | None \<Rightarrow> Exact (parse_domain_for_constraints url_host input))))"

definition normalize_domain :: "rstr \<Rightarrow> rstr" where
  "normalize_domain domain = to_ascii_lowercase (trim_end_matches 46 domain)"

definition domain_eq :: "rstr \<Rightarrow> rstr \<Rightarrow> bool" where
  "domain_eq l r \<longleftrightarrow> normalize_domain l = normalize_domain r"

definition is_subdomain_or_equal :: "rstr \<Rightarrow> rstr \<Rightarrow> bool" where
  "is_subdomain_or_equal child parent =
     (let child = normalize_domain child; parent = normalize_domain parent in
      child = parent \<or> ends_with child (46 # parent))"

definition is_strict_subdomain :: "rstr \<Rightarrow> rstr \<Rightarrow> bool" where
  "is_strict_subdomain child parent =
     (let child = normalize_domain child; parent = normalize_domain parent in
      child \<noteq> parent \<and> ends_with child (46 # parent))"

fun allows :: "DomainPattern \<Rightarrow> DomainPattern \<Rightarrow> bool" where
  "allows (Exact domain) (Exact candidate) = domain_eq candidate domain"
| "allows (Exact domain) _ = False"
| "allows (SubdomainsOnly domain) (Exact candidate) = is_strict_subdomain candidate domain"
| "allows (SubdomainsOnly domain) (SubdomainsOnly candidate) = is_subdomain_or_equal candidate domain"
| "allows (SubdomainsOnly domain) (ApexAndSubdomains candidate) = is_strict_subdomain candidate domain"
| "allows (ApexAndSubdomains domain) (Exact candidate) = is_subdomain_or_equal candidate domain"
| "allows (ApexAndSubdomains domain) (SubdomainsOnly candidate) = is_subdomain_or_equal candidate domain"
| "allows (ApexAndSubdomains domain) (ApexAndSubdomains candidate) = is_subdomain_or_equal candidate domain"

section \<open>Globs\<close>

record ('g, 's) glob_lib =
  glob_build :: "rstr \<Rightarrow> rstr + 'g"
  set_build :: "'g list \<Rightarrow> rstr + 's"
  is_match :: "'s \<Rightarrow> rstr \<Rightarrow> bool"

datatype GlobalWildcard = WildcardAllow | WildcardReject

definition normalize_pattern :: "rstr \<Rightarrow> rstr" where
  "normalize_pattern pattern =
     (let pattern = trim pattern in
      if pattern = [42] then [42]
      else
        (let (pre, remainder) =
               (case strip_prefix (lit ''**.'') pattern of
                  Some domain \<Rightarrow> (lit ''**.'', domain)
                | None \<Rightarrow>
                    (case strip_prefix (lit ''*.'') pattern of
                       Some domain \<Rightarrow> (lit ''*.'', domain)
                     | None \<Rightarrow> ([], pattern)));
             remainder = normalize_host remainder
         in if pre = [] then remainder else pre @ remainder))"

fun expand_pattern :: "DomainPattern \<Rightarrow> rstr list" where
  "expand_pattern (Exact domain) = [domain]"
| "expand_pattern (SubdomainsOnly domain) = [lit ''?*.'' @ domain]"
| "expand_pattern (ApexAndSubdomains domain) = [domain, lit ''?*.'' @ domain]"

definition expand_domain_pattern :: "rstr \<Rightarrow> rstr list" where
  "expand_domain_pattern pattern = expand_pattern (DomainPattern_parse pattern)"

definition is_global_wildcard_domain_pattern :: "rstr \<Rightarrow> bool" where
  "is_global_wildcard_domain_pattern pattern =
     list_ex (\<lambda>candidate. candidate = [42]) (expand_domain_pattern (normalize_pattern pattern))"

fun add_candidates :: "('g, 's) glob_lib \<Rightarrow> rstr list \<Rightarrow> rstr set \<times> 'g list \<Rightarrow> rstr + (rstr set \<times> 'g list)" where
  "add_candidates lib [] acc = Ok acc"
| "add_candidates lib (candidate # candidates) (seen, globs) =
     (if candidate \<in> seen then add_candidates lib candidates (seen, globs)
      else
        (case glob_build lib candidate of
           Inl e \<Rightarrow> Err (lit ''invalid glob pattern: '' @ candidate)
         | Inr g \<Rightarrow> add_candidates lib candidates (insert candidate seen, globs @ [g])))"

definition global_wildcard_error :: rstr where
  "global_wildcard_error =
     lit ''unsupported global wildcard domain pattern '' @ [34, 42, 34] @
     lit ''; use exact hosts or scoped wildcards like *.example.com or **.example.com''"

fun compile_loop :: "('g, 's) glob_lib \<Rightarrow> GlobalWildcard \<Rightarrow> rstr list \<Rightarrow> rstr set \<times> 'g list \<Rightarrow>
    rstr + (rstr set \<times> 'g list)" where
  "compile_loop lib wildcard [] acc = Ok acc"
| "compile_loop lib wildcard (pattern # patterns) acc =
     (if wildcard = WildcardReject \<and> is_global_wildcard_domain_pattern pattern then Err global_wildcard_error
      else
        (case add_candidates lib (expand_domain_pattern (normalize_pattern pattern)) acc of
           Inl e \<Rightarrow> Err e
         | Inr acc1 \<Rightarrow> compile_loop lib wildcard patterns acc1))"

definition compile_globset_with_policy :: "('g, 's) glob_lib \<Rightarrow> rstr list \<Rightarrow> GlobalWildcard \<Rightarrow> rstr + 's" where
  "compile_globset_with_policy lib patterns wildcard =
     (case compile_loop lib wildcard patterns ({}, []) of
        Inl e \<Rightarrow> Err e
      | Inr (_, globs) \<Rightarrow> set_build lib globs)"

definition compile_allowlist_globset :: "('g, 's) glob_lib \<Rightarrow> rstr list \<Rightarrow> rstr + 's" where
  "compile_allowlist_globset lib patterns = compile_globset_with_policy lib patterns WildcardAllow"

definition compile_denylist_globset :: "('g, 's) glob_lib \<Rightarrow> rstr list \<Rightarrow> rstr + 's" where
  "compile_denylist_globset lib patterns = compile_globset_with_policy lib patterns WildcardReject"

section \<open>Patterns as sets of hosts\<close>

lemma trim_end_matches_Nil: "trim_end_matches c s = [] \<longleftrightarrow> (\<forall>x \<in> set s. x = c)"
  by (auto simp: trim_end_matches_def)

lemma trim_end_matches_Cons:
  "trim_end_matches c (x # s) = (if trim_end_matches c s = [] then if x = c then [] else [x] else x # trim_end_matches c s)"
  by (auto simp: trim_end_matches_def dropWhile_append)

lemma normalize_domain_Nil: "normalize_domain d = [] \<longleftrightarrow> trim_end_matches 46 d = []"
  by (simp add: normalize_domain_def to_ascii_lowercase_def)

lemma normalize_domain_label:
  "normalize_domain d \<noteq> [] \<Longrightarrow> normalize_domain (x # 46 # d) = to_ascii_lower x # 46 # normalize_domain d"
  by (simp add: normalize_domain_Nil)
    (simp add: normalize_domain_def trim_end_matches_Cons to_ascii_lowercase_def to_ascii_lower_def)

lemma is_strict_subdomain_iff: "is_strict_subdomain h d \<longleftrightarrow> suffix (46 # normalize_domain d) (normalize_domain h)"
  by (auto simp: is_strict_subdomain_def Let_def rust_str dest: suffix_length_le)

lemma is_subdomain_or_equal_iff:
  "is_subdomain_or_equal h d \<longleftrightarrow> normalize_domain h = normalize_domain d \<or> is_strict_subdomain h d"
  by (auto simp: is_subdomain_or_equal_def is_strict_subdomain_def Let_def)

lemmas subdomains = is_subdomain_or_equal_iff is_strict_subdomain_iff domain_eq_def

lemma suffix_label_trans: "suffix (c # a) b \<Longrightarrow> suffix (c # b) h \<Longrightarrow> suffix (c # a) h"
  by (meson suffix_order.trans suffix_ConsD suffix_order.refl)

lemma allows_covers: "allows p q \<Longrightarrow> allows q (Exact h) \<Longrightarrow> allows p (Exact h)"
  by (cases p; cases q) (auto simp: subdomains intro: suffix_label_trans)

fun pattern_domain :: "DomainPattern \<Rightarrow> rstr" where
  "pattern_domain (Exact d) = d"
| "pattern_domain (SubdomainsOnly d) = d"
| "pattern_domain (ApexAndSubdomains d) = d"

text \<open>A host below a domain, with a label of one letter.\<close>

lemma label_covered:
  assumes "normalize_domain d \<noteq> []" "x \<in> {97, 98}"
  shows "is_strict_subdomain (x # 46 # d) d"
    and "suffix (46 # e) (normalize_domain (x # 46 # d)) \<longleftrightarrow> e = normalize_domain d \<or> suffix (46 # e) (normalize_domain d)"
    and "normalize_domain (x # 46 # d) = x # 46 # normalize_domain d"
proof -
  show n: "normalize_domain (x # 46 # d) = x # 46 # normalize_domain d"
    using assms by (auto simp: normalize_domain_label to_ascii_lower_def)
  show "is_strict_subdomain (x # 46 # d) d" unfolding is_strict_subdomain_iff n by (simp add: suffix_Cons)
  show "suffix (46 # e) (normalize_domain (x # 46 # d)) \<longleftrightarrow> e = normalize_domain d \<or> suffix (46 # e) (normalize_domain d)"
    unfolding n using assms(2) by (auto simp: suffix_Cons)
qed

lemma covers_subdomains:
  assumes "normalize_domain d \<noteq> []" "\<And>h. is_strict_subdomain h d \<Longrightarrow> allows p (Exact h)"
  shows "(\<forall>e. p \<noteq> Exact e) \<and> is_subdomain_or_equal d (pattern_domain p)"
proof -
  let ?a = "97 # 46 # d" and ?b = "98 # 46 # d"
  have a: "allows p (Exact ?a)" and b: "allows p (Exact ?b)"
    using assms(2) label_covered(1) [OF assms(1)] by simp_all
  note n = label_covered(3) [OF assms(1), of 97, simplified] label_covered(3) [OF assms(1), of 98, simplified]
  note s = label_covered(2) [OF assms(1), of 97, simplified] label_covered(2) [OF assms(1), of 98, simplified]
  show ?thesis
  proof (cases p)
    case (Exact e)
    with a b n have "97 # 46 # normalize_domain d = 98 # 46 # normalize_domain d" by (simp add: domain_eq_def)
    then show ?thesis by simp
  next
    case (SubdomainsOnly e)
    with a s show ?thesis by (auto simp: subdomains)
  next
    case (ApexAndSubdomains e)
    have "normalize_domain ?a \<noteq> normalize_domain ?b" unfolding n by simp
    with a b s ApexAndSubdomains show ?thesis by (auto simp: subdomains)
  qed
qed

section \<open>Compiled sets\<close>

text \<open>
  What \<open>globset\<close> documents, for the globs that domain patterns expand to: a glob without
  metacharacters matches its own text, \<open>?*.\<close> before it any text before a dot and it, \<open>*\<close> everything;
  letters match in both cases, and a set matches what one of its globs matches.
\<close>

definition glob_literal :: "rstr \<Rightarrow> bool" where
  "glob_literal d \<longleftrightarrow> set d \<inter> {33, 42, 44, 63, 91, 92, 93, 94, 123, 125} = {}"

definition glob_laws :: "('g, 's) glob_lib \<Rightarrow> ('g \<Rightarrow> rstr \<Rightarrow> bool) \<Rightarrow> bool" where
  "glob_laws lib gm \<longleftrightarrow>
     (\<forall>globs s h. set_build lib globs = Ok s \<longrightarrow> is_match lib s h = list_ex (\<lambda>g. gm g h) globs) \<and>
     (\<forall>d g h. glob_literal d \<longrightarrow> glob_build lib d = Ok g \<longrightarrow>
        gm g h = (to_ascii_lowercase h = to_ascii_lowercase d)) \<and>
     (\<forall>d g h. glob_literal d \<longrightarrow> glob_build lib (lit ''?*.'' @ d) = Ok g \<longrightarrow>
        gm g h = (\<exists>x. x \<noteq> [] \<and> to_ascii_lowercase h = x @ 46 # to_ascii_lowercase d)) \<and>
     (\<forall>g h. glob_build lib [42] = Ok g \<longrightarrow> gm g h)"

definition below :: "rstr \<Rightarrow> rstr \<Rightarrow> bool" where
  "below h d \<longleftrightarrow> ends_with h (46 # d) \<and> h \<noteq> 46 # d"

lemma below_iff: "below h d \<longleftrightarrow> (\<exists>x. x \<noteq> [] \<and> h = x @ 46 # d)"
  by (auto simp: below_def rust_str suffix_def)

text \<open>The hosts a pattern of the configuration stands for.\<close>

fun pattern_matches :: "DomainPattern \<Rightarrow> rstr \<Rightarrow> bool" where
  "pattern_matches (Exact d) h \<longleftrightarrow> d = [42] \<or> to_ascii_lowercase h = to_ascii_lowercase d"
| "pattern_matches (SubdomainsOnly d) h \<longleftrightarrow> below (to_ascii_lowercase h) (to_ascii_lowercase d)"
| "pattern_matches (ApexAndSubdomains d) h \<longleftrightarrow>
     to_ascii_lowercase h = to_ascii_lowercase d \<or> below (to_ascii_lowercase h) (to_ascii_lowercase d)"

fun pattern_plain :: "DomainPattern \<Rightarrow> bool" where
  "pattern_plain (Exact d) \<longleftrightarrow> d = [42] \<or> glob_literal d"
| "pattern_plain (SubdomainsOnly d) \<longleftrightarrow> glob_literal d"
| "pattern_plain (ApexAndSubdomains d) \<longleftrightarrow> glob_literal d"

definition config_pattern :: "rstr \<Rightarrow> DomainPattern" where
  "config_pattern p = DomainPattern_parse (normalize_pattern p)"

lemma add_candidates_globs:
  "add_candidates lib cs (seen, globs) = Ok (seen', globs') \<Longrightarrow>
   \<forall>c \<in> seen. \<exists>g \<in> set globs. glob_build lib c = Ok g \<Longrightarrow> \<forall>g \<in> set globs. \<exists>c \<in> seen. glob_build lib c = Ok g \<Longrightarrow>
   seen' = seen \<union> set cs \<and> (\<forall>c \<in> seen'. \<exists>g \<in> set globs'. glob_build lib c = Ok g) \<and>
   (\<forall>g \<in> set globs'. \<exists>c \<in> seen'. glob_build lib c = Ok g)"
proof (induction lib cs "(seen, globs)" arbitrary: seen globs rule: add_candidates.induct)
  case (2 lib c cs seen globs)
  show ?case
  proof (cases "c \<in> seen")
    case True
    with 2(1) [OF True] 2(3-) show ?thesis by auto
  next
    case False
    with 2(3) obtain g where g: "glob_build lib c = Ok g"
        "add_candidates lib cs (insert c seen, globs @ [g]) = Ok (seen', globs')"
      by (auto split: sum.splits)
    from 2(2) [OF False g] 2(4,5) g(1) show ?thesis by auto
  qed
qed simp

lemma compile_loop_globs:
  "compile_loop lib w ps (seen, globs) = Ok (seen', globs') \<Longrightarrow>
   \<forall>c \<in> seen. \<exists>g \<in> set globs. glob_build lib c = Ok g \<Longrightarrow> \<forall>g \<in> set globs. \<exists>c \<in> seen. glob_build lib c = Ok g \<Longrightarrow>
   seen' = seen \<union> \<Union> ((\<lambda>p. set (expand_pattern (config_pattern p))) ` set ps) \<and>
   (\<forall>c \<in> seen'. \<exists>g \<in> set globs'. glob_build lib c = Ok g) \<and> (\<forall>g \<in> set globs'. \<exists>c \<in> seen'. glob_build lib c = Ok g) \<and>
   (w = WildcardReject \<longrightarrow> (\<forall>p \<in> set ps. \<not> is_global_wildcard_domain_pattern p))"
proof (induction ps arbitrary: seen globs)
  case (Cons p ps)
  from Cons.prems(1) obtain s1 g1 where
    add: "add_candidates lib (expand_pattern (config_pattern p)) (seen, globs) = Ok (s1, g1)"
    and rest: "compile_loop lib w ps (s1, g1) = Ok (seen', globs')"
    and w: "w = WildcardReject \<longrightarrow> \<not> is_global_wildcard_domain_pattern p"
    by (auto simp: expand_domain_pattern_def config_pattern_def split: if_splits sum.splits)
  from add_candidates_globs [OF add Cons.prems(2,3)] Cons.IH [OF rest] w show ?case by auto
qed simp

lemma candidate_matches:
  assumes "glob_laws lib gm" "pattern_plain q"
    and built: "\<forall>c \<in> set (expand_pattern q). \<exists>g. glob_build lib c = Ok g"
  shows "pattern_matches q h \<longleftrightarrow> (\<exists>c \<in> set (expand_pattern q). \<exists>g. glob_build lib c = Ok g \<and> gm g h)"
  using assms by (cases q) (auto simp: glob_laws_def below_iff)

lemma compiled_set_iff:
  assumes "compile_globset_with_policy lib patterns wildcard = Ok s" "glob_laws lib gm"
    "list_all (\<lambda>p. pattern_plain (config_pattern p)) patterns"
  shows "is_match lib s h \<longleftrightarrow> list_ex (\<lambda>p. pattern_matches (config_pattern p) h) patterns"
proof -
  from assms(1) obtain seen globs where c: "compile_loop lib wildcard patterns ({}, []) = Ok (seen, globs)"
      "set_build lib globs = Ok s"
    by (auto simp: compile_globset_with_policy_def split: sum.splits)
  from compile_loop_globs [OF c(1)] have
    seen: "seen = (\<Union>p \<in> set patterns. set (expand_pattern (config_pattern p)))"
    and fwd: "\<forall>c \<in> seen. \<exists>g \<in> set globs. glob_build lib c = Ok g"
    and bwd: "\<forall>g \<in> set globs. \<exists>c \<in> seen. glob_build lib c = Ok g" by auto
  have "is_match lib s h \<longleftrightarrow> (\<exists>g \<in> set globs. gm g h)"
    using assms(2) c(2) by (auto simp: glob_laws_def list_ex_iff)
  also have "\<dots> \<longleftrightarrow> (\<exists>c \<in> seen. \<exists>g. glob_build lib c = Ok g \<and> gm g h)"
    using fwd bwd by (metis sum.inject(2))
  also have "\<dots> \<longleftrightarrow> (\<exists>p \<in> set patterns. \<exists>c \<in> set (expand_pattern (config_pattern p)). \<exists>g. glob_build lib c = Ok g \<and> gm g h)"
    unfolding seen by auto
  also have "\<dots> \<longleftrightarrow> (\<exists>p \<in> set patterns. pattern_matches (config_pattern p) h)"
  proof (rule bex_cong [OF refl])
    fix p assume p: "p \<in> set patterns"
    then have "pattern_plain (config_pattern p)" using assms(3) by (simp add: list_all_iff)
    moreover have "\<forall>c \<in> set (expand_pattern (config_pattern p)). \<exists>g. glob_build lib c = Ok g"
      using fwd p unfolding seen by blast
    ultimately show "(\<exists>c \<in> set (expand_pattern (config_pattern p)). \<exists>g. glob_build lib c = Ok g \<and> gm g h) \<longleftrightarrow>
        pattern_matches (config_pattern p) h"
      using candidate_matches [OF assms(2)] by blast
  qed
  finally show ?thesis by (simp add: list_ex_iff)
qed

text \<open>A glob library that builds every glob and matches as documented.\<close>

definition sample_glob_matches :: "rstr \<Rightarrow> rstr \<Rightarrow> bool" where
  "sample_glob_matches g h \<longleftrightarrow>
     (case strip_prefix (lit ''?*.'') g of
        Some d \<Rightarrow> below (to_ascii_lowercase h) (to_ascii_lowercase d)
      | None \<Rightarrow> g = [42] \<or> to_ascii_lowercase h = to_ascii_lowercase g)"

definition sample_glob_lib :: "(rstr, rstr list) glob_lib" where
  "sample_glob_lib =
     \<lparr>glob_build = Inr, set_build = Inr, is_match = (\<lambda>s h. list_ex (\<lambda>g. sample_glob_matches g h) s)\<rparr>"

lemma sample_glob_laws: "glob_laws sample_glob_lib sample_glob_matches"
proof -
  have literal: "strip_prefix (lit ''?*.'') d = None" "d \<noteq> [42]" if "glob_literal d" for d
    using that by (auto simp: glob_literal_def lit_eval split: list.splits) (cases d; auto)
  have "sample_glob_matches (lit ''?*.'' @ d) h \<longleftrightarrow> (\<exists>x. x \<noteq> [] \<and> to_ascii_lowercase h = x @ 46 # to_ascii_lowercase d)" for d h
    by (simp add: sample_glob_matches_def below_iff)
  moreover have "sample_glob_matches d h \<longleftrightarrow> to_ascii_lowercase h = to_ascii_lowercase d" if "glob_literal d" for d h
    using literal [OF that] by (simp add: sample_glob_matches_def)
  moreover have "sample_glob_matches [42] h" for h by (simp add: sample_glob_matches_def lit_eval)
  ultimately show ?thesis by (auto simp: glob_laws_def sample_glob_lib_def)
qed

section \<open>Properties\<close>

text \<open>
  One pattern is accepted under a managed pattern exactly when every host it stands for is one
  that the managed pattern stands for: the comparison neither widens a managed allow list nor
  refuses a pattern that stays inside it.
\<close>

theorem allows_iff_covers:
  assumes "normalize_domain (pattern_domain q) \<noteq> []"
  shows "allows p q \<longleftrightarrow> (\<forall>h. allows q (Exact h) \<longrightarrow> allows p (Exact h))"
proof
  assume cov: "\<forall>h. allows q (Exact h) \<longrightarrow> allows p (Exact h)"
  show "allows p q"
  proof (cases q)
    case (Exact d)
    with cov show ?thesis by (simp add: domain_eq_def)
  next
    case (SubdomainsOnly d)
    with cov covers_subdomains [of d p] assms show ?thesis by (cases p) auto
  next
    case (ApexAndSubdomains d)
    then have "allows p (Exact d)" "\<And>h. is_strict_subdomain h d \<Longrightarrow> allows p (Exact h)"
      using cov by (auto simp: is_subdomain_or_equal_iff)
    with ApexAndSubdomains covers_subdomains [of d p] assms show ?thesis by (cases p) auto
  qed
qed (use allows_covers in blast)

theorem allows_iff_covers_witness:
  "normalize_domain (pattern_domain (SubdomainsOnly (lit ''API.example.com.''))) \<noteq> [] \<and>
   allows (SubdomainsOnly (lit ''example.com'')) (SubdomainsOnly (lit ''API.example.com.'')) \<and>
   allows (SubdomainsOnly (lit ''example.com'')) (Exact (lit ''x.api.example.com''))"
proof -
  have d: "normalize_domain (pattern_domain (SubdomainsOnly (lit ''API.example.com.''))) \<noteq> []" by code_simp
  have a: "allows (SubdomainsOnly (lit ''example.com'')) (SubdomainsOnly (lit ''API.example.com.''))" by code_simp
  have h: "allows (SubdomainsOnly (lit ''API.example.com.'')) (Exact (lit ''x.api.example.com''))" by code_simp
  from allows_iff_covers [OF d, THEN iffD1, OF a, rule_format, OF h] d a show ?thesis by blast
qed

text \<open>
  A set compiled from the patterns of a configuration matches a host exactly when one of the
  patterns stands for it: the exact host, a host below a domain, or both; expansion into globs and
  the removal of repeated globs lose and add nothing.
\<close>

theorem compiled_set_matches:
  assumes "compile_globset_with_policy lib patterns wildcard = Ok s" "glob_laws lib gm"
    "list_all (\<lambda>p. pattern_plain (config_pattern p)) patterns"
  shows "is_match lib s h \<longleftrightarrow> list_ex (\<lambda>p. pattern_matches (config_pattern p) h) patterns"
  using assms by (rule compiled_set_iff)

theorem compiled_set_matches_witness:
  "is_match sample_glob_lib [lit ''example.com'', lit ''?*.example.com''] (lit ''API.example.com'') \<longleftrightarrow>
     list_ex (\<lambda>p. pattern_matches (config_pattern p) (lit ''API.example.com'')) [lit '' **.Example.com. '']"
proof -
  have 1: "compile_globset_with_policy sample_glob_lib [lit '' **.Example.com. ''] WildcardReject =
      Ok [lit ''example.com'', lit ''?*.example.com'']" by code_simp
  have 2: "list_all (\<lambda>p. pattern_plain (config_pattern p)) [lit '' **.Example.com. '']" by code_simp
  show ?thesis by (rule compiled_set_matches [OF 1 sample_glob_laws 2])
qed

end
