(* ===== verification/Network_Config.thy ===== *)
theory Network_Config
  imports Domain_Pattern
begin

text \<open>
  The configuration of the network proxy (\<open>network-proxy/src/config.rs\<close>), the constraints an
  administrator puts on it, and their validation (\<open>state.rs\<close>).

  The MITM hooks are opaque, and so are the credential providers with their host and context, which
  are one text that is only ever compared; what \<open>validate_mitm_hook_config\<close> and
  \<open>compile_mitm_hooks\<close> say of the hooks, the parser of \<open>url::Host\<close> and the \<open>Debug\<close> printers of
  messages are in the record \<open>proxy_env\<close>. The order in which a \<open>HashSet\<close> is printed is unspecified, so
  its printer takes the set. A \<open>BTreeMap\<close> is its list of pairs in the order of the keys.
\<close>

section \<open>Configuration\<close>

datatype NetworkDomainPermission = PermNone | PermAllow | PermDeny

text \<open>The derived order: a later variant wins over an earlier one.\<close>

fun perm_rank :: "NetworkDomainPermission \<Rightarrow> nat" where
  "perm_rank PermNone = 0"
| "perm_rank PermAllow = 1"
| "perm_rank PermDeny = 2"

type_synonym domain_entry = "rstr \<times> NetworkDomainPermission"

datatype NetworkUnixSocketPermission = SocketAllow | SocketDeny

datatype NetworkMode = Limited | Full

record 'h NetworkProxyConfig =
  nc_enabled :: bool
  nc_proxy_url :: rstr
  nc_enable_socks5 :: bool
  nc_socks_url :: rstr
  nc_enable_socks5_udp :: bool
  nc_allow_upstream_proxy :: bool
  nc_dangerously_allow_non_loopback_proxy :: bool
  nc_dangerously_allow_all_unix_sockets :: "bool option"
  nc_mode :: NetworkMode
  nc_domains :: "domain_entry list option"
  nc_unix_sockets :: "(rstr \<times> NetworkUnixSocketPermission) list option"
  nc_allow_local_binding :: bool
  nc_mitm :: bool
  nc_credential_broker :: bool
  nc_credential_broker_enabled_mitm :: bool
  nc_credentials :: rstr
  nc_dangerously_allow_plaintext_credential_injection :: bool
  nc_mitm_hooks :: "'h list"

definition default_config :: "'h NetworkProxyConfig" where
  "default_config =
     \<lparr>nc_enabled = False, nc_proxy_url = lit ''http://127.0.0.1:3128'', nc_enable_socks5 = True,
      nc_socks_url = lit ''http://127.0.0.1:8081'', nc_enable_socks5_udp = True, nc_allow_upstream_proxy = True,
      nc_dangerously_allow_non_loopback_proxy = False, nc_dangerously_allow_all_unix_sockets = None,
      nc_mode = Full, nc_domains = None, nc_unix_sockets = None, nc_allow_local_binding = False, nc_mitm = False,
      nc_credential_broker = False, nc_credential_broker_enabled_mitm = False, nc_credentials = [],
      nc_dangerously_allow_plaintext_credential_injection = False, nc_mitm_hooks = []\<rparr>"

fun allows_method :: "NetworkMode \<Rightarrow> rstr \<Rightarrow> bool" where
  "allows_method Full m = True"
| "allows_method Limited m \<longleftrightarrow> m = lit ''GET'' \<or> m = lit ''HEAD'' \<or> m = lit ''OPTIONS''"

fun effective_step :: "rstr list \<times> (rstr \<rightharpoonup> NetworkDomainPermission) \<Rightarrow> domain_entry \<Rightarrow>
    rstr list \<times> (rstr \<rightharpoonup> NetworkDomainPermission)" where
  "effective_step (order, perms) (pattern, permission) =
     (case perms pattern of
        None \<Rightarrow> (order @ [pattern], perms(pattern \<mapsto> permission))
      | Some current \<Rightarrow>
          (order, if perm_rank current < perm_rank permission then perms(pattern \<mapsto> permission) else perms))"

fun take_effective :: "(rstr \<rightharpoonup> NetworkDomainPermission) \<Rightarrow> rstr list \<Rightarrow> domain_entry list" where
  "take_effective perms [] = []"
| "take_effective perms (pattern # order) =
     (case perms pattern of
        None \<Rightarrow> take_effective perms order
      | Some permission \<Rightarrow> (pattern, permission) # take_effective (perms(pattern := None)) order)"

definition effective_entries :: "domain_entry list \<Rightarrow> domain_entry list" where
  "effective_entries entries =
     (let (order, perms) = foldl effective_step ([], Map.empty) entries in take_effective perms order)"

definition domain_entries :: "'h NetworkProxyConfig \<Rightarrow> NetworkDomainPermission \<Rightarrow> rstr list option" where
  "domain_entries cfg permission =
     (case nc_domains cfg of
        None \<Rightarrow> None
      | Some domains \<Rightarrow>
          (let entries = map fst (filter (\<lambda>entry. snd entry = permission) (effective_entries domains)) in
           if entries = [] then None else Some entries))"

definition allowed_domains :: "'h NetworkProxyConfig \<Rightarrow> rstr list option" where
  "allowed_domains cfg = domain_entries cfg PermAllow"

definition denied_domains :: "'h NetworkProxyConfig \<Rightarrow> rstr list option" where
  "denied_domains cfg = domain_entries cfg PermDeny"

text \<open>\<open>Option::unwrap_or_default\<close> of a list.\<close>

definition or_default :: "'a list option \<Rightarrow> 'a list" where
  "or_default xs = (case xs of Some ys \<Rightarrow> ys | None \<Rightarrow> [])"

lemma or_default_simps [simp]: "or_default None = []" "or_default (Some ys) = ys"
  by (simp_all add: or_default_def)

definition allow_unix_sockets :: "'h NetworkProxyConfig \<Rightarrow> rstr list" where
  "allow_unix_sockets cfg = map fst (filter (\<lambda>(_, p). p = SocketAllow) (or_default (nc_unix_sockets cfg)))"

definition upsert_domain_permission :: "rstr \<Rightarrow> NetworkDomainPermission \<Rightarrow> (rstr \<Rightarrow> rstr) \<Rightarrow>
    'h NetworkProxyConfig \<Rightarrow> 'h NetworkProxyConfig" where
  "upsert_domain_permission host permission norm cfg =
     (let entries = filter (\<lambda>entry. norm (fst entry) \<noteq> norm host) (or_default (nc_domains cfg)) @ [(host, permission)]
      in cfg\<lparr>nc_domains := if entries = [] then None else Some entries\<rparr>)"

fun push_entries :: "NetworkDomainPermission \<Rightarrow> rstr list \<Rightarrow> domain_entry list \<Rightarrow> domain_entry list" where
  "push_entries permission [] domains = domains"
| "push_entries permission (entry # entries) domains =
     push_entries permission entries
       (if (entry, permission) \<in> set domains then domains else domains @ [(entry, permission)])"

definition set_domain_entries :: "rstr list \<Rightarrow> NetworkDomainPermission \<Rightarrow> 'h NetworkProxyConfig \<Rightarrow> 'h NetworkProxyConfig" where
  "set_domain_entries entries permission cfg =
     (let domains = push_entries permission entries
            (filter (\<lambda>entry. snd entry \<noteq> permission) (or_default (nc_domains cfg)))
      in cfg\<lparr>nc_domains := if domains = [] then None else Some domains\<rparr>)"

definition set_allowed_domains :: "rstr list \<Rightarrow> 'h NetworkProxyConfig \<Rightarrow> 'h NetworkProxyConfig" where
  "set_allowed_domains entries cfg = set_domain_entries entries PermAllow cfg"

definition set_denied_domains :: "rstr list \<Rightarrow> 'h NetworkProxyConfig \<Rightarrow> 'h NetworkProxyConfig" where
  "set_denied_domains entries cfg = set_domain_entries entries PermDeny cfg"

definition set_credential_broker_enabled :: "bool \<Rightarrow> 'h NetworkProxyConfig \<Rightarrow> 'h NetworkProxyConfig" where
  "set_credential_broker_enabled on cfg =
     (let cfg = cfg\<lparr>nc_credential_broker := on\<rparr> in
      if on then
        cfg\<lparr>nc_credential_broker_enabled_mitm := nc_credential_broker_enabled_mitm cfg \<or> \<not> nc_mitm cfg, nc_mitm := True\<rparr>
      else if nc_credential_broker_enabled_mitm cfg then
        cfg\<lparr>nc_mitm := nc_mitm_hooks cfg \<noteq> [], nc_credential_broker_enabled_mitm := False\<rparr>
      else cfg)"

text \<open>An absolute path on Unix, which is the only kind of socket path that is accepted.\<close>

definition unix_socket_path_ok :: "rstr \<Rightarrow> bool" where
  "unix_socket_path_ok path \<longleftrightarrow> starts_with path [47]"

section \<open>Constraints\<close>

record NetworkProxyConstraints =
  ct_enabled :: "bool option"
  ct_mode :: "NetworkMode option"
  ct_allow_upstream_proxy :: "bool option"
  ct_dangerously_allow_non_loopback_proxy :: "bool option"
  ct_dangerously_allow_all_unix_sockets :: "bool option"
  ct_allowed_domains :: "rstr list option"
  ct_allowlist_expansion_enabled :: "bool option"
  ct_denied_domains :: "rstr list option"
  ct_denylist_expansion_enabled :: "bool option"
  ct_allow_unix_sockets :: "rstr list option"
  ct_allow_local_binding :: "bool option"

datatype NetworkProxyConstraintError = InvalidValue rstr rstr rstr

record ('g, 's, 'h) proxy_env =
  globs :: "('g, 's) glob_lib"
  url_host :: "rstr \<Rightarrow> rstr option"
  hook_error :: "'h list \<Rightarrow> rstr option"
  mitm_error :: "'h NetworkProxyConfig \<Rightarrow> rstr option"
  debug_list :: "rstr list \<Rightarrow> rstr"
  debug_set :: "rstr set \<Rightarrow> rstr"

fun network_mode_rank :: "NetworkMode \<Rightarrow> nat" where
  "network_mode_rank Limited = 0"
| "network_mode_rank Full = 1"

fun debug_mode :: "NetworkMode \<Rightarrow> rstr" where
  "debug_mode Limited = lit ''Limited''"
| "debug_mode Full = lit ''Full''"

text \<open>A check that fails gives its error; \<open>?\<close> after each check stops at the first one.\<close>

fun first_error :: "'e option list \<Rightarrow> 'e + unit" where
  "first_error [] = Ok ()"
| "first_error (None # checks) = first_error checks"
| "first_error (Some e # checks) = Err e"

definition validate_mitm_hook_config :: "('g, 's, 'h) proxy_env \<Rightarrow> 'h NetworkProxyConfig \<Rightarrow> rstr option" where
  "validate_mitm_hook_config env cfg =
     (if nc_mitm_hooks cfg = [] then None
      else if \<not> nc_mitm cfg then Some (lit ''network.mitm_hooks requires network.mitm = true'')
      else hook_error env (nc_mitm_hooks cfg))"

definition validate_non_global_wildcard_domain_patterns :: "rstr \<Rightarrow> rstr list \<Rightarrow> NetworkProxyConstraintError option" where
  "validate_non_global_wildcard_domain_patterns field_name patterns =
     (case find is_global_wildcard_domain_pattern patterns of
        Some pattern \<Rightarrow>
          Some (InvalidValue field_name (trim pattern)
            (lit ''exact hosts or scoped wildcards like *.example.com or **.example.com''))
      | None \<Rightarrow> None)"

definition disabled_check :: "rstr \<Rightarrow> bool \<Rightarrow> bool \<Rightarrow> NetworkProxyConstraintError option" where
  "disabled_check field_name candidate allowed =
     (if candidate \<and> \<not> allowed
      then Some (InvalidValue field_name (lit ''true'') (lit ''false (disabled by managed config)'')) else None)"

definition mode_check :: "NetworkMode \<Rightarrow> NetworkMode option \<Rightarrow> NetworkProxyConstraintError option" where
  "mode_check candidate max_mode =
     (case max_mode of
        None \<Rightarrow> None
      | Some m \<Rightarrow>
          if network_mode_rank m < network_mode_rank candidate
          then Some (InvalidValue (lit ''network.mode'') (debug_mode candidate) (debug_mode m @ lit '' or more restrictive''))
          else None)"

abbreviation lower_set :: "rstr list \<Rightarrow> rstr set" where
  "lower_set entries \<equiv> to_ascii_lowercase ` set entries"

definition allowlist_check :: "('g, 's, 'h) proxy_env \<Rightarrow> NetworkProxyConstraints \<Rightarrow> rstr list \<Rightarrow> rstr list \<Rightarrow>
    rstr list \<Rightarrow> NetworkProxyConstraintError option" where
  "allowlist_check env c managed allowed denied =
     (case ct_allowlist_expansion_enabled c of
        Some True \<Rightarrow>
          (let missing = lower_set managed - lower_set allowed - lower_set denied in
           if missing = {} then None
           else Some (InvalidValue (lit ''network.allowed_domains'') (lit ''missing managed allowed_domains entries'')
             (debug_set env missing)))
      | Some False \<Rightarrow>
          (if lower_set allowed = lower_set managed - lower_set denied then None
           else Some (InvalidValue (lit ''network.allowed_domains'') (debug_list env allowed)
             (lit ''must match managed allowed_domains'')))
      | None \<Rightarrow>
          (let managed_patterns = map (parse_for_constraints (url_host env)) managed;
               invalid = filter (\<lambda>entry. \<not> list_ex (\<lambda>m. allows m (parse_for_constraints (url_host env) entry)) managed_patterns)
                 allowed
           in if invalid = [] then None
              else Some (InvalidValue (lit ''network.allowed_domains'') (debug_list env invalid)
                (lit ''subset of managed allowed_domains''))))"

definition denylist_check :: "('g, 's, 'h) proxy_env \<Rightarrow> NetworkProxyConstraints \<Rightarrow> rstr list \<Rightarrow> rstr list \<Rightarrow>
    NetworkProxyConstraintError option" where
  "denylist_check env c managed denied =
     (if ct_denylist_expansion_enabled c = Some False then
        (if lower_set denied = lower_set managed then None
         else Some (InvalidValue (lit ''network.denied_domains'') (debug_list env denied)
           (lit ''must match managed denied_domains'')))
      else
        (let missing = lower_set managed - lower_set denied in
         if missing = {} then None
         else Some (InvalidValue (lit ''network.denied_domains'') (lit ''missing managed denied_domains entries'')
           (debug_set env missing))))"

definition sockets_check :: "('g, 's, 'h) proxy_env \<Rightarrow> rstr list \<Rightarrow> rstr list \<Rightarrow> NetworkProxyConstraintError option" where
  "sockets_check env managed sockets =
     (let invalid = filter (\<lambda>entry. to_ascii_lowercase entry \<notin> lower_set managed) sockets in
      if invalid = [] then None
      else Some (InvalidValue (lit ''network.allow_unix_sockets'') (debug_list env invalid)
        (lit ''subset of managed allow_unix_sockets'')))"

definition policy_checks :: "('g, 's, 'h) proxy_env \<Rightarrow> 'h NetworkProxyConfig \<Rightarrow> NetworkProxyConstraints \<Rightarrow>
    NetworkProxyConstraintError option list" where
  "policy_checks env cfg c =
     (let allowed = or_default (allowed_domains cfg); denied = or_default (denied_domains cfg) in
      [map_option (\<lambda>err. InvalidValue (lit ''network.mitm_hooks'') err (lit ''valid MITM hook configuration''))
         (validate_mitm_hook_config env cfg),
       validate_non_global_wildcard_domain_patterns (lit ''network.denied_domains'') denied,
       Option.bind (ct_enabled c) (disabled_check (lit ''network.enabled'') (nc_enabled cfg)),
       mode_check (nc_mode cfg) (ct_mode c),
       disabled_check (lit ''network.allow_upstream_proxy'') (nc_allow_upstream_proxy cfg)
         (ct_allow_upstream_proxy c \<noteq> Some False),
       disabled_check (lit ''network.dangerously_allow_non_loopback_proxy'') (nc_dangerously_allow_non_loopback_proxy cfg)
         (ct_dangerously_allow_non_loopback_proxy c \<noteq> Some False),
       disabled_check (lit ''network.dangerously_allow_all_unix_sockets'')
         (nc_dangerously_allow_all_unix_sockets cfg = Some True)
         (case ct_dangerously_allow_all_unix_sockets c of Some b \<Rightarrow> b | None \<Rightarrow> ct_allow_unix_sockets c = None),
       Option.bind (ct_allow_local_binding c) (disabled_check (lit ''network.allow_local_binding'') (nc_allow_local_binding cfg)),
       Option.bind (ct_allowed_domains c) (validate_non_global_wildcard_domain_patterns (lit ''network.allowed_domains'')),
       Option.bind (ct_allowed_domains c) (\<lambda>managed. allowlist_check env c managed allowed denied),
       Option.bind (ct_denied_domains c) (validate_non_global_wildcard_domain_patterns (lit ''network.denied_domains'')),
       Option.bind (ct_denied_domains c) (\<lambda>managed. denylist_check env c managed denied),
       Option.bind (ct_allow_unix_sockets c) (\<lambda>managed. sockets_check env managed (allow_unix_sockets cfg))])"

definition validate_policy_against_constraints :: "('g, 's, 'h) proxy_env \<Rightarrow> 'h NetworkProxyConfig \<Rightarrow>
    NetworkProxyConstraints \<Rightarrow> NetworkProxyConstraintError + unit" where
  "validate_policy_against_constraints env cfg c = first_error (policy_checks env cfg c)"

section \<open>Effective permissions\<close>

lemma perm_rank_inj: "perm_rank a = perm_rank b \<longleftrightarrow> a = b"
  by (cases a; cases b) auto

definition strongest :: "rstr \<Rightarrow> domain_entry list \<Rightarrow> NetworkDomainPermission option \<Rightarrow> bool" where
  "strongest p es r =
     (case r of
        None \<Rightarrow> \<forall>b. (p, b) \<notin> set es
      | Some a \<Rightarrow> (p, a) \<in> set es \<and> (\<forall>b. (p, b) \<in> set es \<longrightarrow> perm_rank b \<le> perm_rank a))"

lemma strongest_snoc:
  "strongest p es None \<Longrightarrow> strongest p (es @ [(p, a)]) (Some a)"
  "strongest p es (Some b) \<Longrightarrow> perm_rank b < perm_rank a \<Longrightarrow> strongest p (es @ [(p, a)]) (Some a)"
  "strongest p es (Some b) \<Longrightarrow> \<not> perm_rank b < perm_rank a \<Longrightarrow> strongest p (es @ [(p, a)]) (Some b)"
  "p \<noteq> q \<Longrightarrow> strongest q (es @ [(p, a)]) r = strongest q es r"
  by (auto simp: strongest_def split: option.splits)

lemma effective_fold:
  assumes "foldl effective_step ([], Map.empty) es = (order, perms)"
  shows "distinct order \<and> set order = dom perms \<and> (\<forall>p. strongest p es (perms p))"
  using assms
proof (induction es arbitrary: order perms rule: rev_induct)
  case (snoc e es)
  obtain order1 perms1 where f: "foldl effective_step ([], Map.empty) es = (order1, perms1)" by fastforce
  obtain p a where e: "e = (p, a)" by (cases e)
  from snoc.IH [OF f] have IH: "distinct order1" "set order1 = dom perms1" "\<And>q. strongest q es (perms1 q)" by auto
  have step: "effective_step (order1, perms1) (p, a) = (order, perms)" using snoc.prems f e by simp
  show ?case
  proof (cases "perms1 p")
    case None
    with step have "order = order1 @ [p]" "perms = perms1(p \<mapsto> a)" by auto
    moreover have "strongest p (es @ [(p, a)]) (Some a)" using IH(3) [of p] None by (simp add: strongest_snoc)
    ultimately show ?thesis using IH None e by (auto simp: strongest_snoc(4) domIff)
  next
    case (Some b)
    with step have "order = order1" "perms = (if perm_rank b < perm_rank a then perms1(p \<mapsto> a) else perms1)" by auto
    moreover have "strongest p (es @ [(p, a)]) (Some (if perm_rank b < perm_rank a then a else b))"
      using IH(3) [of p] Some by (auto simp: strongest_snoc)
    moreover have "strongest q (es @ [(p, a)]) (perms1 q)" if "q \<noteq> p" for q using that IH(3) by (simp add: strongest_snoc(4))
    ultimately show ?thesis using IH(1,2) Some e by (auto split: if_splits) (metis+)
  qed
qed (auto simp: strongest_def)

lemma take_effective_eq:
  "distinct order \<Longrightarrow> set order \<subseteq> dom perms \<Longrightarrow> take_effective perms order = map (\<lambda>p. (p, the (perms p))) order"
proof (induction order arbitrary: perms)
  case (Cons p order)
  then obtain a where "perms p = Some a" by auto
  moreover have "take_effective (perms(p := None)) order = map (\<lambda>q. (q, the ((perms(p := None)) q))) order"
    using Cons by (intro Cons.IH) auto
  moreover have "map (\<lambda>q. (q, the ((perms(p := None)) q))) order = map (\<lambda>q. (q, the (perms q))) order"
    using Cons.prems(1) by auto
  ultimately show ?case by simp
qed simp

text \<open>Every pattern occurs once, with the strongest of its permissions.\<close>

lemma effective_entries_iff: "(p, a) \<in> set (effective_entries es) \<longleftrightarrow> strongest p es (Some a)"
proof -
  obtain order perms where f: "foldl effective_step ([], Map.empty) es = (order, perms)" by fastforce
  from effective_fold [OF f] have F: "distinct order" "set order = dom perms" "strongest p es (perms p)" by auto
  have "effective_entries es = map (\<lambda>p. (p, the (perms p))) order"
    using take_effective_eq [of order perms] F by (simp add: effective_entries_def f)
  then have "(p, a) \<in> set (effective_entries es) \<longleftrightarrow> perms p = Some a" using F(2) by force
  also have "\<dots> \<longleftrightarrow> strongest p es (Some a)"
    using F(3) by (auto simp: strongest_def split: option.splits) (metis order.antisym perm_rank_inj)
  finally show ?thesis .
qed

lemma effective_entries_distinct: "distinct (map fst (effective_entries es))"
proof -
  obtain order perms where f: "foldl effective_step ([], Map.empty) es = (order, perms)" by fastforce
  from effective_fold [OF f] take_effective_eq [of order perms] show ?thesis
    by (simp add: effective_entries_def f comp_def)
qed

lemma or_default_domain_entries:
  "or_default (domain_entries cfg a) =
     map fst (filter (\<lambda>entry. snd entry = a) (effective_entries (or_default (nc_domains cfg))))"
  by (cases "nc_domains cfg") (auto simp: domain_entries_def Let_def effective_entries_def)

lemma denied_iff: "p \<in> set (or_default (denied_domains cfg)) \<longleftrightarrow> (p, PermDeny) \<in> set (or_default (nc_domains cfg))"
proof -
  have "strongest p es (Some PermDeny) \<longleftrightarrow> (p, PermDeny) \<in> set es" for es
    by (auto simp: strongest_def) (metis NetworkDomainPermission.exhaust less_imp_le nat_le_linear one_le_numeral perm_rank.simps zero_le)
  then show ?thesis
    unfolding denied_domains_def or_default_domain_entries by (force simp: effective_entries_iff image_iff)
qed

lemma allowed_iff:
  "p \<in> set (or_default (allowed_domains cfg)) \<longleftrightarrow>
     (p, PermAllow) \<in> set (or_default (nc_domains cfg)) \<and> (p, PermDeny) \<notin> set (or_default (nc_domains cfg))"
proof -
  have "perm_rank b \<le> perm_rank PermAllow \<longleftrightarrow> b \<noteq> PermDeny" for b by (cases b) auto
  then have "strongest p es (Some PermAllow) \<longleftrightarrow> (p, PermAllow) \<in> set es \<and> (p, PermDeny) \<notin> set es" for es
    unfolding strongest_def by auto
  then show ?thesis
    unfolding allowed_domains_def or_default_domain_entries by (force simp: effective_entries_iff image_iff)
qed


section \<open>Validation\<close>

lemma first_error_Ok: "first_error checks = Ok () \<longleftrightarrow> list_all (\<lambda>c. c = None) checks"
  by (induction checks rule: first_error.induct) auto

lemma disabled_check_None: "disabled_check f candidate allowed = None \<longleftrightarrow> (candidate \<longrightarrow> allowed)"
  by (simp add: disabled_check_def)

lemma mode_check_None: "mode_check m max_mode = None \<longleftrightarrow> (\<forall>x. max_mode = Some x \<longrightarrow> network_mode_rank m \<le> network_mode_rank x)"
  by (auto simp: mode_check_def not_less split: option.splits)

lemma wildcard_check_None:
  "validate_non_global_wildcard_domain_patterns f patterns = None \<longleftrightarrow> (\<forall>p \<in> set patterns. \<not> is_global_wildcard_domain_pattern p)"
  by (auto simp: validate_non_global_wildcard_domain_patterns_def find_None_iff find_Some_iff split: option.splits)

lemma bind_None: "Option.bind x f = None \<longleftrightarrow> (\<forall>y. x = Some y \<longrightarrow> f y = None)"
  by (cases x) auto

lemmas checks_None = disabled_check_None mode_check_None wildcard_check_None bind_None

text \<open>The patterns a list of a configuration stands for, in the reading of the constraints.\<close>

definition constraint_covers :: "('g, 's, 'h) proxy_env \<Rightarrow> rstr list \<Rightarrow> rstr \<Rightarrow> bool" where
  "constraint_covers env patterns h = list_ex (\<lambda>p. allows (parse_for_constraints (url_host env) p) (Exact h)) patterns"

lemma allowlist_check_None:
  "allowlist_check env c managed allowed denied = None \<Longrightarrow>
   (ct_allowlist_expansion_enabled c = None \<longrightarrow> constraint_covers env allowed h \<longrightarrow> constraint_covers env managed h) \<and>
   (ct_allowlist_expansion_enabled c = Some False \<longrightarrow> lower_set allowed = lower_set managed - lower_set denied)"
  by (auto simp: allowlist_check_def constraint_covers_def Let_def list_ex_iff filter_empty_conv
      split: option.splits bool.splits if_splits) (meson allows_covers)

lemma denylist_check_None: "denylist_check env c managed denied = None \<Longrightarrow> lower_set managed \<subseteq> lower_set denied"
  by (auto simp: denylist_check_def Let_def split: if_splits)

lemma validated_checks:
  "validate_policy_against_constraints env cfg c = Ok () \<longleftrightarrow> list_all (\<lambda>x. x = None) (policy_checks env cfg c)"
  by (simp add: validate_policy_against_constraints_def first_error_Ok)

definition no_constraints :: NetworkProxyConstraints where
  "no_constraints =
     \<lparr>ct_enabled = None, ct_mode = None, ct_allow_upstream_proxy = None, ct_dangerously_allow_non_loopback_proxy = None,
      ct_dangerously_allow_all_unix_sockets = None, ct_allowed_domains = None, ct_allowlist_expansion_enabled = None,
      ct_denied_domains = None, ct_denylist_expansion_enabled = None, ct_allow_unix_sockets = None,
      ct_allow_local_binding = None\<rparr>"

text \<open>An environment whose parser of hosts refuses what has a colon, as \<open>url::Host::parse\<close> does.\<close>

definition sample_env :: "(rstr, rstr list, unit) proxy_env" where
  "sample_env =
     \<lparr>globs = sample_glob_lib, url_host = (\<lambda>h. if 58 \<in> set h then None else Some (to_ascii_lowercase h)),
      hook_error = (\<lambda>_. None), mitm_error = (\<lambda>_. None), debug_list = concat, debug_set = (\<lambda>_. [])\<rparr>"

definition managed_sample :: NetworkProxyConstraints where
  "managed_sample =
     no_constraints\<lparr>ct_mode := Some Limited, ct_allowed_domains := Some [lit ''**.example.com''],
       ct_denied_domains := Some [lit ''bad.example.com'']\<rparr>"

definition config_sample :: "unit NetworkProxyConfig" where
  "config_sample =
     default_config\<lparr>nc_mode := Limited, nc_domains := Some [(lit ''*.api.example.com'', PermAllow),
       (lit ''bad.example.com'', PermAllow), (lit ''BAD.example.com'', PermDeny)]\<rparr>"

lemma config_sample_valid: "validate_policy_against_constraints sample_env config_sample managed_sample = Ok ()"
  by code_simp

section \<open>Properties\<close>

text \<open>
  The effective lists of a configuration: a pattern is denied when some entry denies it, and
  allowed when some entry allows it and none denies it, whatever the order and repetition of the
  entries.
\<close>

theorem effective_domain_lists:
  "(p \<in> set (or_default (denied_domains cfg)) \<longleftrightarrow> (p, PermDeny) \<in> set (or_default (nc_domains cfg))) \<and>
   (p \<in> set (or_default (allowed_domains cfg)) \<longleftrightarrow>
      (p, PermAllow) \<in> set (or_default (nc_domains cfg)) \<and> (p, PermDeny) \<notin> set (or_default (nc_domains cfg)))"
  using denied_iff allowed_iff by blast





end
