(* ===== verification/Network_Proxy.thy ===== *)
theory Network_Proxy
  imports Network_Config
begin

text \<open>
  The state of a running network proxy (\<open>network-proxy/src/runtime.rs\<close>, \<open>build_config_state\<close> of
  \<open>state.rs\<close>): the decision whether a host is blocked, the log of blocked requests, and the updates
  of the policy by concurrent tasks.

  The DNS lookup is an argument, from a host and a port to the addresses found, \<open>None\<close> when it fails or
  times out. The state is behind a read-write lock; every use of the lock is one step of the relation
  \<open>proxy_step\<close>, so an operation that reads, computes and then writes is two steps, between which other
  tasks may run. What a reload delivers is an argument of that relation. Log lines, the observers of
  blocked requests and the credential broker do not influence the state.
\<close>

section \<open>State\<close>

datatype HostBlockReason = Denied | NotAllowed | NotAllowedLocal

datatype HostBlockDecision = Allowed | Blocked HostBlockReason

definition MAX_BLOCKED_EVENTS :: nat where
  "MAX_BLOCKED_EVENTS = 200"

definition u64_max :: nat where
  "u64_max = 2 ^ 64 - 1"

record ('s, 'h, 'b) ConfigState =
  cs_config :: "'h NetworkProxyConfig"
  cs_brokerage_created_default_allowlist :: bool
  cs_allow_set :: 's
  cs_deny_set :: 's
  cs_constraints :: NetworkProxyConstraints
  cs_blocked :: "'b list"
  cs_blocked_total :: nat

text \<open>Errors are \<open>anyhow\<close> values; only whether there is one matters, so they are texts.\<close>

definition constraint_error_text :: "NetworkProxyConstraintError \<Rightarrow> rstr" where
  "constraint_error_text e =
     (case e of InvalidValue field_name candidate allowed \<Rightarrow>
        lit ''invalid value for '' @ field_name @ lit '': '' @ candidate @ lit '' (allowed '' @ allowed @ [41])"

definition broker_config :: "'h NetworkProxyConfig \<Rightarrow> NetworkProxyConstraints \<Rightarrow> 'h NetworkProxyConfig \<times> bool" where
  "broker_config config constraints =
     (let config = (if ct_enabled constraints = Some False then config\<lparr>nc_credential_broker := False\<rparr> else config);
          created_proxy = (nc_credential_broker config \<and> \<not> nc_enabled config);
          created_allowlist = (created_proxy \<and> allowed_domains config = None \<and> ct_allowed_domains constraints = None);
          config = (if created_proxy then config\<lparr>nc_enabled := True\<rparr> else config);
          config = (if created_allowlist then set_allowed_domains [[42]] config else config)
      in (config, created_allowlist))"

definition build_config_state :: "('g, 's, 'h) proxy_env \<Rightarrow> 'h NetworkProxyConfig \<Rightarrow> NetworkProxyConstraints \<Rightarrow>
    rstr + ('s, 'h, 'b) ConfigState" where
  "build_config_state env config constraints =
     (let (config, created_allowlist) = broker_config config constraints;
          allowed = or_default (allowed_domains config);
          denied = or_default (denied_domains config)
      in
        if \<not> list_all unix_socket_path_ok (allow_unix_sockets config) then Err (lit ''invalid network.allow_unix_sockets'')
        else if nc_credential_broker config \<and> \<not> nc_mitm config then
          Err (lit ''network.credential_broker requires network.mitm = true'')
        else
          (case validate_non_global_wildcard_domain_patterns (lit ''network.denied_domains'') denied of
             Some e \<Rightarrow> Err (constraint_error_text e)
           | None \<Rightarrow>
               (case compile_denylist_globset (globs env) denied of
                  Inl e \<Rightarrow> Err e
                | Inr deny_set \<Rightarrow>
                    (case compile_allowlist_globset (globs env) allowed of
                       Inl e \<Rightarrow> Err e
                     | Inr allow_set \<Rightarrow>
                         (case mitm_error env config of
                            Some e \<Rightarrow> Err e
                          | None \<Rightarrow>
                              Ok \<lparr>cs_config = config, cs_brokerage_created_default_allowlist = created_allowlist,
                                  cs_allow_set = allow_set, cs_deny_set = deny_set, cs_constraints = constraints,
                                  cs_blocked = [], cs_blocked_total = 0\<rparr>)))))"

section \<open>Decisions\<close>

definition globset_matches_host_or_unscoped :: "('g, 's) glob_lib \<Rightarrow> 's \<Rightarrow> rstr \<Rightarrow> bool" where
  "globset_matches_host_or_unscoped lib s host \<longleftrightarrow>
     is_match lib s host \<or> (case unscoped_ip_literal host of Some ip \<Rightarrow> is_match lib s ip | None \<Rightarrow> False)"

definition is_explicit_local_allowlisted :: "rstr list \<Rightarrow> rstr \<Rightarrow> bool" where
  "is_explicit_local_allowlisted allowed host =
     list_ex
       (\<lambda>pattern.
          let pattern = trim pattern in
          \<not> (pattern = [42] \<or> starts_with pattern (lit ''*.'') \<or> starts_with pattern (lit ''**.'')) \<and>
          \<not> (42 \<in> set pattern \<or> 63 \<in> set pattern) \<and>
          (normalize_host pattern = host \<or> unscoped_ip_literal host = Some (normalize_host pattern)))
       allowed"

definition host_resolves_to_non_public_ip :: "(rstr \<Rightarrow> nat \<Rightarrow> IpAddr list option) \<Rightarrow> rstr \<Rightarrow> nat \<Rightarrow> bool" where
  "host_resolves_to_non_public_ip lookup host port =
     (case parse_ip host of
        Some ip \<Rightarrow> is_non_public_ip ip
      | None \<Rightarrow>
          (case lookup host port of
             None \<Rightarrow> True
           | Some addrs \<Rightarrow> list_ex is_non_public_ip addrs))"

definition is_local_literal :: "rstr \<Rightarrow> bool" where
  "is_local_literal host =
     (let host_no_scope = (case unscoped_ip_literal host of Some ip \<Rightarrow> ip | None \<Rightarrow> host) in
      if is_loopback_host host then True
      else (case parse_ip host_no_scope of Some ip \<Rightarrow> is_non_public_ip ip | None \<Rightarrow> False))"

definition host_blocked :: "('g, 's, 'h) proxy_env \<Rightarrow> (rstr \<Rightarrow> nat \<Rightarrow> IpAddr list option) \<Rightarrow>
    ('s, 'h, 'b) ConfigState \<Rightarrow> rstr \<Rightarrow> nat \<Rightarrow> HostBlockDecision" where
  "host_blocked env lookup st host port =
     (case host_parse host of
        None \<Rightarrow> Blocked NotAllowed
      | Some host \<Rightarrow>
          (let allowed = allowed_domains (cs_config st);
               is_allowlisted = globset_matches_host_or_unscoped (globs env) (cs_allow_set st) host
           in
             if globset_matches_host_or_unscoped (globs env) (cs_deny_set st) host then Blocked Denied
             else if \<not> nc_allow_local_binding (cs_config st) \<and> is_local_literal host \<and>
                \<not> is_explicit_local_allowlisted (or_default allowed) host then Blocked NotAllowedLocal
             else if \<not> nc_allow_local_binding (cs_config st) \<and> \<not> is_local_literal host \<and>
                host_resolves_to_non_public_ip lookup host port then Blocked NotAllowedLocal
             else if allowed = None \<or> \<not> is_allowlisted then Blocked NotAllowed
             else Allowed))"

section \<open>Updates\<close>

definition record_blocked :: "'b \<Rightarrow> ('s, 'h, 'b) ConfigState \<Rightarrow> ('s, 'h, 'b) ConfigState" where
  "record_blocked entry st =
     (let blocked = cs_blocked st @ [entry] in
      st\<lparr>cs_blocked := drop (length blocked - MAX_BLOCKED_EVENTS) blocked,
         cs_blocked_total := min (cs_blocked_total st + 1) u64_max\<rparr>)"

definition drain_blocked :: "('s, 'h, 'b) ConfigState \<Rightarrow> 'b list \<times> ('s, 'h, 'b) ConfigState" where
  "drain_blocked st = (cs_blocked st, st\<lparr>cs_blocked := []\<rparr>)"

text \<open>\<open>reload_if_needed\<close> and \<open>replace_config_state\<close> on one side, \<open>force_reload\<close> on the other.\<close>

definition install_state :: "('s, 'h, 'b) ConfigState \<Rightarrow> ('s, 'h, 'b) ConfigState \<Rightarrow> ('s, 'h, 'b) ConfigState" where
  "install_state new_state st = new_state\<lparr>cs_blocked := cs_blocked st, cs_blocked_total := cs_blocked_total st\<rparr>"

definition force_reload :: "('s, 'h, 'b) ConfigState \<Rightarrow> ('s, 'h, 'b) ConfigState \<Rightarrow> ('s, 'h, 'b) ConfigState" where
  "force_reload new_state st = new_state\<lparr>cs_blocked := cs_blocked st\<rparr>"

datatype DomainListKind = ListAllow | ListDeny

fun list_permission :: "DomainListKind \<Rightarrow> NetworkDomainPermission" where
  "list_permission ListAllow = PermAllow"
| "list_permission ListDeny = PermDeny"

fun list_entries :: "DomainListKind \<Rightarrow> 'h NetworkProxyConfig \<Rightarrow> rstr list" where
  "list_entries ListAllow cfg = or_default (allowed_domains cfg)"
| "list_entries ListDeny cfg = or_default (denied_domains cfg)"

fun opposite_entries :: "DomainListKind \<Rightarrow> 'h NetworkProxyConfig \<Rightarrow> rstr list" where
  "opposite_entries ListAllow cfg = or_default (denied_domains cfg)"
| "opposite_entries ListDeny cfg = or_default (allowed_domains cfg)"

text \<open>
  What a round of the loop of \<open>update_domain_list\<close> computes from the state it read: nothing to do, an
  error, or the state to install.
\<close>

datatype ('s, 'h, 'b) update_plan = UpToDate | Rejected rstr | Install "('s, 'h, 'b) ConfigState"

definition update_candidate :: "DomainListKind \<Rightarrow> rstr \<Rightarrow> 'h NetworkProxyConfig \<Rightarrow> 'h NetworkProxyConfig" where
  "update_candidate target normalized_host cfg =
     upsert_domain_permission normalized_host (list_permission target) normalize_host cfg"

definition plan_update :: "('g, 's, 'h) proxy_env \<Rightarrow> DomainListKind \<Rightarrow> rstr \<Rightarrow> ('s, 'h, 'b) ConfigState \<Rightarrow>
    ('s, 'h, 'b) update_plan" where
  "plan_update env target normalized_host st =
     (let target_contains = list_ex (\<lambda>entry. normalize_host entry = normalized_host) (list_entries target (cs_config st));
          opposite_contains = list_ex (\<lambda>entry. normalize_host entry = normalized_host) (opposite_entries target (cs_config st))
      in
        if target_contains \<and> \<not> opposite_contains then UpToDate
        else
          (let candidate = update_candidate target normalized_host (cs_config st) in
           case validate_policy_against_constraints env candidate (cs_constraints st) of
             Inl e \<Rightarrow> Rejected (constraint_error_text e)
           | Inr _ \<Rightarrow>
               (case build_config_state env candidate (cs_constraints st) of
                  Inl e \<Rightarrow> Rejected e
                | Inr new_state \<Rightarrow>
                    Install (new_state\<lparr>cs_blocked := cs_blocked st, cs_blocked_total := cs_blocked_total st\<rparr>))))"

text \<open>Where a task is: what it returned, or the operation it is in and what it has read.\<close>

datatype ('s, 'h, 'b) proxy_pc =
    Rest "rstr + unit"
  | AtUpdate DomainListKind rstr
  | AtInstall DomainListKind rstr "('s, 'h, 'b) ConfigState" "('s, 'h, 'b) ConfigState"
  | AtSetMode NetworkMode
  | AtStoreMode NetworkMode NetworkProxyConstraints

inductive proxy_step :: "('g, 's, 'h) proxy_env \<Rightarrow> (('s, 'h, 'b) ConfigState \<Rightarrow> bool) \<Rightarrow> ('s, 'h, 'b) ConfigState \<Rightarrow>
    ('s, 'h, 'b) proxy_pc \<Rightarrow> ('s, 'h, 'b) ConfigState \<Rightarrow> ('s, 'h, 'b) proxy_pc \<Rightarrow> bool"
  for env reloads where
  call_update: "host_parse host = Some normalized_host \<Longrightarrow>
    proxy_step env reloads st (Rest r) st (AtUpdate target normalized_host)"
| call_update_invalid: "host_parse host = None \<Longrightarrow>
    proxy_step env reloads st (Rest r) st (Rest (Err (lit ''invalid network host'')))"
| call_set_mode: "proxy_step env reloads st (Rest r) st (AtSetMode mode)"
| recorded: "proxy_step env reloads st (Rest r) (record_blocked entry st) (Rest (Ok ()))"
| drained: "proxy_step env reloads st (Rest r) (snd (drain_blocked st)) (Rest (Ok ()))"
| reloaded: "reloads new_state \<Longrightarrow> proxy_step env reloads st pc (install_state new_state st) pc"
| forced: "reloads new_state \<Longrightarrow> proxy_step env reloads st (Rest r) (force_reload new_state st) (Rest (Ok ()))"
| update_done: "plan_update env target h st = UpToDate \<Longrightarrow> proxy_step env reloads st (AtUpdate target h) st (Rest (Ok ()))"
| update_rejected: "plan_update env target h st = Rejected e \<Longrightarrow>
    proxy_step env reloads st (AtUpdate target h) st (Rest (Err e))"
| update_read: "plan_update env target h st = Install new_state \<Longrightarrow>
    proxy_step env reloads st (AtUpdate target h) st (AtInstall target h st new_state)"
| update_retry: "cs_constraints st \<noteq> cs_constraints seen \<or> cs_config st \<noteq> cs_config seen \<Longrightarrow>
    proxy_step env reloads st (AtInstall target h seen new_state) st (AtUpdate target h)"
| update_install: "cs_constraints st = cs_constraints seen \<Longrightarrow> cs_config st = cs_config seen \<Longrightarrow>
    proxy_step env reloads st (AtInstall target h seen new_state) new_state (Rest (Ok ()))"
| mode_rejected: "validate_policy_against_constraints env (cs_config st\<lparr>nc_mode := mode\<rparr>) (cs_constraints st) = Err e \<Longrightarrow>
    proxy_step env reloads st (AtSetMode mode) st (Rest (Err (constraint_error_text e)))"
| mode_read: "validate_policy_against_constraints env (cs_config st\<lparr>nc_mode := mode\<rparr>) (cs_constraints st) = Ok () \<Longrightarrow>
    proxy_step env reloads st (AtSetMode mode) st (AtStoreMode mode (cs_constraints st))"
| mode_retry: "cs_constraints st \<noteq> constraints \<Longrightarrow>
    proxy_step env reloads st (AtStoreMode mode constraints) st (AtSetMode mode)"
| mode_store: "cs_constraints st = constraints \<Longrightarrow>
    proxy_step env reloads st (AtStoreMode mode constraints)
      (st\<lparr>cs_config := cs_config st\<lparr>nc_mode := mode\<rparr>\<rparr>) (Rest (Ok ()))"

inductive_cases install_step: "proxy_step env reloads st (AtInstall target h seen new_state) st' (Rest r)"

record ('s, 'h, 'b) proxy_sys =
  proxy_state :: "('s, 'h, 'b) ConfigState"
  tasks :: "nat \<Rightarrow> ('s, 'h, 'b) proxy_pc"

inductive proxy_reachable :: "('g, 's, 'h) proxy_env \<Rightarrow> (('s, 'h, 'b) ConfigState \<Rightarrow> bool) \<Rightarrow> ('s, 'h, 'b) ConfigState \<Rightarrow>
    ('s, 'h, 'b) proxy_sys \<Rightarrow> bool" for env reloads st0 where
  start: "proxy_reachable env reloads st0 \<lparr>proxy_state = st0, tasks = \<lambda>_. Rest (Ok ())\<rparr>"
| step: "proxy_reachable env reloads st0 sys \<Longrightarrow> proxy_step env reloads (proxy_state sys) (tasks sys i) st' pc' \<Longrightarrow>
    proxy_reachable env reloads st0 (sys\<lparr>proxy_state := st', tasks := (tasks sys)(i := pc')\<rparr>)"

section \<open>The policy of a state is valid\<close>

definition state_ok :: "('g, 's, 'h) proxy_env \<Rightarrow> ('s, 'h, 'b) ConfigState \<Rightarrow> bool" where
  "state_ok env st \<longleftrightarrow>
     validate_policy_against_constraints env (cs_config st) (cs_constraints st) = Ok () \<and>
     compile_allowlist_globset (globs env) (or_default (allowed_domains (cs_config st))) = Ok (cs_allow_set st) \<and>
     compile_denylist_globset (globs env) (or_default (denied_domains (cs_config st))) = Ok (cs_deny_set st)"

lemma allowlist_check_cong:
  "set denied = set denied' \<Longrightarrow> allowlist_check env c managed allowed denied = allowlist_check env c managed allowed denied'"
  unfolding allowlist_check_def by (erule ssubst) (rule refl)

lemma denylist_check_cong:
  "set denied = set denied' \<Longrightarrow>
   denylist_check env c managed denied = None \<longleftrightarrow> denylist_check env c managed denied' = None"
  by (simp add: denylist_check_def Let_def)

text \<open>The settings the constraints look at.\<close>

definition same_policy :: "NetworkProxyConstraints \<Rightarrow> 'h NetworkProxyConfig \<Rightarrow> 'h NetworkProxyConfig \<Rightarrow> bool" where
  "same_policy c cfg cfg' \<longleftrightarrow>
     nc_mitm_hooks cfg' = nc_mitm_hooks cfg \<and> nc_mitm cfg' = nc_mitm cfg \<and>
     set (or_default (denied_domains cfg')) = set (or_default (denied_domains cfg)) \<and>
     (nc_enabled cfg' = nc_enabled cfg \<or> ct_enabled c \<noteq> Some False) \<and>
     mode_check (nc_mode cfg') (ct_mode c) = None \<and>
     nc_allow_upstream_proxy cfg' = nc_allow_upstream_proxy cfg \<and>
     nc_dangerously_allow_non_loopback_proxy cfg' = nc_dangerously_allow_non_loopback_proxy cfg \<and>
     nc_dangerously_allow_all_unix_sockets cfg' = nc_dangerously_allow_all_unix_sockets cfg \<and>
     nc_allow_local_binding cfg' = nc_allow_local_binding cfg \<and>
     (allowed_domains cfg' = allowed_domains cfg \<or> ct_allowed_domains c = None) \<and>
     allow_unix_sockets cfg' = allow_unix_sockets cfg"

lemma validated_same_policy:
  assumes "validate_policy_against_constraints env cfg c = Ok ()" "same_policy c cfg cfg'"
  shows "validate_policy_against_constraints env cfg' c = Ok ()"
proof -
  have deny: "set (or_default (denied_domains cfg')) = set (or_default (denied_domains cfg))"
    using assms(2) by (simp add: same_policy_def)
  have "Option.bind (ct_allowed_domains c) (\<lambda>managed. allowlist_check env c managed
      (or_default (allowed_domains cfg')) (or_default (denied_domains cfg'))) = None"
    if "Option.bind (ct_allowed_domains c) (\<lambda>managed. allowlist_check env c managed
      (or_default (allowed_domains cfg)) (or_default (denied_domains cfg))) = None"
    using that assms(2) allowlist_check_cong [OF deny, of env c _ "or_default (allowed_domains cfg)"]
    by (auto simp: bind_None same_policy_def)
  moreover have "Option.bind (ct_enabled c) (disabled_check f (nc_enabled cfg')) = None"
    if "Option.bind (ct_enabled c) (disabled_check f (nc_enabled cfg)) = None" for f
    using that assms(2) by (auto simp: checks_None same_policy_def)
  moreover have "validate_mitm_hook_config env cfg' = validate_mitm_hook_config env cfg"
    using assms(2) by (simp add: same_policy_def validate_mitm_hook_config_def)
  ultimately show ?thesis
    using assms denylist_check_cong [OF deny, of env c]
    unfolding validated_checks policy_checks_def Let_def list.pred_inject
    by (simp add: same_policy_def wildcard_check_None bind_None)
qed

lemma domains_upd [simp]:
  "allowed_domains (cfg\<lparr>nc_mode := m\<rparr>) = allowed_domains cfg" "denied_domains (cfg\<lparr>nc_mode := m\<rparr>) = denied_domains cfg"
  "allowed_domains (cfg\<lparr>nc_enabled := b\<rparr>) = allowed_domains cfg" "denied_domains (cfg\<lparr>nc_enabled := b\<rparr>) = denied_domains cfg"
  "allowed_domains (cfg\<lparr>nc_credential_broker := b\<rparr>) = allowed_domains cfg"
  "denied_domains (cfg\<lparr>nc_credential_broker := b\<rparr>) = denied_domains cfg"
  "allow_unix_sockets (cfg\<lparr>nc_mode := m\<rparr>) = allow_unix_sockets cfg"
  "allow_unix_sockets (cfg\<lparr>nc_enabled := b\<rparr>) = allow_unix_sockets cfg"
  "allow_unix_sockets (cfg\<lparr>nc_credential_broker := b\<rparr>) = allow_unix_sockets cfg"
  "allow_unix_sockets (cfg\<lparr>nc_domains := d\<rparr>) = allow_unix_sockets cfg"
  by (simp_all add: allowed_domains_def denied_domains_def domain_entries_def allow_unix_sockets_def)

lemma set_allowed_denied: "set (or_default (denied_domains (set_allowed_domains [e] cfg))) = set (or_default (denied_domains cfg))"
  by (rule set_eqI) (cases "nc_domains cfg"; auto simp: denied_iff set_allowed_domains_def set_domain_entries_def Let_def)

lemma set_allowed_other:
  "nc_mitm_hooks (set_allowed_domains es cfg) = nc_mitm_hooks cfg" "nc_mitm (set_allowed_domains es cfg) = nc_mitm cfg"
  "nc_enabled (set_allowed_domains es cfg) = nc_enabled cfg" "nc_mode (set_allowed_domains es cfg) = nc_mode cfg"
  "nc_allow_upstream_proxy (set_allowed_domains es cfg) = nc_allow_upstream_proxy cfg"
  "nc_dangerously_allow_non_loopback_proxy (set_allowed_domains es cfg) = nc_dangerously_allow_non_loopback_proxy cfg"
  "nc_dangerously_allow_all_unix_sockets (set_allowed_domains es cfg) = nc_dangerously_allow_all_unix_sockets cfg"
  "nc_allow_local_binding (set_allowed_domains es cfg) = nc_allow_local_binding cfg"
  "allow_unix_sockets (set_allowed_domains es cfg) = allow_unix_sockets cfg"
  by (simp_all add: set_allowed_domains_def set_domain_entries_def Let_def)

lemma broker_same_policy:
  assumes "mode_check (nc_mode cfg) (ct_mode c) = None"
  shows "same_policy c cfg (fst (broker_config cfg c))"
  using assms unfolding broker_config_def same_policy_def
  by (simp add: Let_def set_allowed_denied set_allowed_other)

lemma validated_mode: "validate_policy_against_constraints env cfg c = Ok () \<Longrightarrow> mode_check (nc_mode cfg) (ct_mode c) = None"
  by (simp add: validated_checks policy_checks_def Let_def)

lemma build_state_ok:
  assumes "validate_policy_against_constraints env cfg c = Ok ()" "build_config_state env cfg c = Ok st"
  shows "state_ok env st \<and> cs_config st = fst (broker_config cfg c) \<and> cs_constraints st = c"
proof -
  have "validate_policy_against_constraints env (fst (broker_config cfg c)) c = Ok ()"
    using validated_same_policy [OF assms(1) broker_same_policy [OF validated_mode [OF assms(1)]]] .
  with assms(2) show ?thesis
    by (auto simp: build_config_state_def state_ok_def Let_def split: prod.splits if_splits option.splits sum.splits)
qed


lemma plan_update_Install:
  assumes "plan_update env target h st = Install new_state"
  shows "state_ok env new_state \<and> cs_constraints new_state = cs_constraints st \<and>
    cs_config new_state = fst (broker_config (update_candidate target h (cs_config st)) (cs_constraints st)) \<and>
    cs_blocked new_state = cs_blocked st \<and> cs_blocked_total new_state = cs_blocked_total st"
proof -
  let ?cfg = "update_candidate target h (cs_config st)"
  from assms obtain built where
    valid: "validate_policy_against_constraints env ?cfg (cs_constraints st) = Ok ()" and
    built: "build_config_state env ?cfg (cs_constraints st) = Ok built" and
    new: "new_state = built\<lparr>cs_blocked := cs_blocked st, cs_blocked_total := cs_blocked_total st\<rparr>"
    by (auto simp: plan_update_def Let_def split: if_splits sum.splits)
  from build_state_ok [OF valid built] show ?thesis unfolding new by (auto simp: state_ok_def)
qed

text \<open>What a task in the middle of an operation relies on.\<close>

fun task_ok :: "('g, 's, 'h) proxy_env \<Rightarrow> ('s, 'h, 'b) proxy_pc \<Rightarrow> bool" where
  "task_ok env (AtInstall target h seen new_state) \<longleftrightarrow> plan_update env target h seen = Install new_state"
| "task_ok env (AtStoreMode mode c) \<longleftrightarrow> mode_check mode (ct_mode c) = None"
| "task_ok env _ \<longleftrightarrow> True"

lemma store_mode_ok:
  assumes "state_ok env st" "mode_check mode (ct_mode (cs_constraints st)) = None"
  shows "state_ok env (st\<lparr>cs_config := cs_config st\<lparr>nc_mode := mode\<rparr>\<rparr>)"
proof -
  have "same_policy (cs_constraints st) (cs_config st) (cs_config st\<lparr>nc_mode := mode\<rparr>)"
    using assms(2) by (simp add: same_policy_def)
  with assms(1) validated_same_policy show ?thesis unfolding state_ok_def by fastforce
qed

lemma proxy_step_ok:
  assumes "proxy_step env reloads st pc st' pc'" "state_ok env st" "task_ok env pc"
    "\<forall>new. reloads new \<longrightarrow> state_ok env new"
  shows "state_ok env st' \<and> task_ok env pc'"
  using assms
proof (induction rule: proxy_step.induct)
  case (update_install st seen target h new_state)
  with plan_update_Install show ?case by fastforce
next
  case (mode_store st constraints mode)
  with store_mode_ok show ?case by fastforce
next
  case (mode_read st mode)
  then show ?case using validated_mode by fastforce
qed (auto simp: state_ok_def record_blocked_def drain_blocked_def install_state_def force_reload_def Let_def)

lemma reachable_state_ok:
  assumes "proxy_reachable env reloads st0 sys" "state_ok env st0" "\<forall>new. reloads new \<longrightarrow> state_ok env new"
  shows "state_ok env (proxy_state sys) \<and> (\<forall>i. task_ok env (tasks sys i))"
  using assms
proof (induction rule: proxy_reachable.induct)
  case (step sys i st' pc')
  with proxy_step_ok [OF step.hyps(2)] show ?case by auto
qed simp

section \<open>Decisions\<close>

text \<open>A host and, for an IP literal with a scope, the literal without it.\<close>

definition host_forms :: "rstr \<Rightarrow> rstr list" where
  "host_forms h = h # (case unscoped_ip_literal h of Some ip \<Rightarrow> [ip] | None \<Rightarrow> [])"

lemma globset_forms: "globset_matches_host_or_unscoped lib s h \<longleftrightarrow> list_ex (is_match lib s) (host_forms h)"
  by (simp add: globset_matches_host_or_unscoped_def host_forms_def split: option.splits)

definition covered :: "rstr list \<Rightarrow> rstr \<Rightarrow> bool" where
  "covered patterns h = list_ex (\<lambda>f. list_ex (\<lambda>p. pattern_matches (config_pattern p) f) patterns) (host_forms h)"

definition reaches_only_public :: "(rstr \<Rightarrow> nat \<Rightarrow> IpAddr list option) \<Rightarrow> rstr \<Rightarrow> nat \<Rightarrow> bool" where
  "reaches_only_public lookup h port =
     (case parse_ip h of
        Some ip \<Rightarrow> \<not> is_non_public_ip ip
      | None \<Rightarrow> (case lookup h port of None \<Rightarrow> False | Some addrs \<Rightarrow> list_all (\<lambda>ip. \<not> is_non_public_ip ip) addrs))"

lemma resolves_iff: "host_resolves_to_non_public_ip lookup h port \<longleftrightarrow> \<not> reaches_only_public lookup h port"
  by (auto simp: host_resolves_to_non_public_ip_def reaches_only_public_def list_ex_iff list_all_iff split: option.splits)

lemma compiled_set_includes:
  assumes "compile_globset_with_policy lib patterns wildcard = Ok s" "glob_laws lib gm" "p \<in> set patterns"
    "pattern_plain (config_pattern p)" "pattern_matches (config_pattern p) h"
  shows "is_match lib s h"
proof -
  from assms(1) obtain seen gs where c: "compile_loop lib wildcard patterns ({}, []) = Ok (seen, gs)" "set_build lib gs = Ok s"
    by (auto simp: compile_globset_with_policy_def split: sum.splits)
  from compile_loop_globs [OF c(1)] assms(3)
  have fwd: "\<forall>c \<in> set (expand_pattern (config_pattern p)). \<exists>g \<in> set gs. glob_build lib c = Ok g" by auto
  then obtain c1 g1 where c1: "c1 \<in> set (expand_pattern (config_pattern p))" "glob_build lib c1 = Ok g1" "gm g1 h"
    using candidate_matches [OF assms(2,4)] assms(5) by blast
  with fwd obtain g where "g \<in> set gs" "glob_build lib c1 = Ok g" by blast
  with c1(2,3) have "list_ex (\<lambda>g. gm g h) gs" by (auto simp: list_ex_iff)
  with assms(2) c(2) show ?thesis by (auto simp: glob_laws_def)
qed

definition sample_state :: "(rstr list, unit, rstr) ConfigState" where
  "sample_state =
     \<lparr>cs_config = config_sample, cs_brokerage_created_default_allowlist = False,
      cs_allow_set = [lit ''?*.api.example.com'', lit ''bad.example.com''], cs_deny_set = [lit ''bad.example.com''],
      cs_constraints = managed_sample, cs_blocked = [], cs_blocked_total = 0\<rparr>"

lemma sample_state_ok: "state_ok sample_env sample_state"
  unfolding state_ok_def by code_simp

definition after_deny :: "(rstr list, unit, rstr) ConfigState" where
  "after_deny =
     (case plan_update sample_env ListDeny (lit ''x.api.example.com'') sample_state of
        Install new_state \<Rightarrow> new_state
      | _ \<Rightarrow> sample_state)"

lemma after_deny_installed:
  "plan_update sample_env ListDeny (lit ''x.api.example.com'') sample_state = Install after_deny"
  by code_simp

section \<open>Properties\<close>

text \<open>
  C29. The decision of the proxy, in terms of the configuration: a host is let through exactly when it
  is well formed, an allowed pattern stands for it and no denied one does, and, unless local binding
  is allowed, it is a local literal that is listed as such or reaches only public addresses. A lookup
  that fails lets nothing through.
\<close>

theorem allowed_host_meaning:
  assumes "state_ok env st" "glob_laws (globs env) gm"
    "list_all (\<lambda>p. pattern_plain (config_pattern p)) (or_default (allowed_domains (cs_config st)))"
    "list_all (\<lambda>p. pattern_plain (config_pattern p)) (or_default (denied_domains (cs_config st)))"
  shows "host_blocked env lookup st host port = Allowed \<longleftrightarrow>
    (\<exists>h. host_parse host = Some h \<and>
       covered (or_default (allowed_domains (cs_config st))) h \<and> \<not> covered (or_default (denied_domains (cs_config st))) h \<and>
       (nc_allow_local_binding (cs_config st) \<or>
        (if is_local_literal h then is_explicit_local_allowlisted (or_default (allowed_domains (cs_config st))) h
         else reaches_only_public lookup h port)))"
proof -
  have allow: "globset_matches_host_or_unscoped (globs env) (cs_allow_set st) h \<longleftrightarrow> covered (or_default (allowed_domains (cs_config st))) h"
    and deny: "globset_matches_host_or_unscoped (globs env) (cs_deny_set st) h \<longleftrightarrow> covered (or_default (denied_domains (cs_config st))) h"
    for h
  proof -
    have "is_match (globs env) (cs_allow_set st) f \<longleftrightarrow>
        list_ex (\<lambda>p. pattern_matches (config_pattern p) f) (or_default (allowed_domains (cs_config st)))" for f
      using assms(1) by (intro compiled_set_iff [OF _ assms(2,3), where wildcard = WildcardAllow]) (simp add: state_ok_def compile_allowlist_globset_def)
    moreover have "is_match (globs env) (cs_deny_set st) f \<longleftrightarrow>
        list_ex (\<lambda>p. pattern_matches (config_pattern p) f) (or_default (denied_domains (cs_config st)))" for f
      using assms(1) by (intro compiled_set_iff [OF _ assms(2,4), where wildcard = WildcardReject]) (simp add: state_ok_def compile_denylist_globset_def)
    ultimately show "globset_matches_host_or_unscoped (globs env) (cs_allow_set st) h \<longleftrightarrow> covered (or_default (allowed_domains (cs_config st))) h"
      "globset_matches_host_or_unscoped (globs env) (cs_deny_set st) h \<longleftrightarrow> covered (or_default (denied_domains (cs_config st))) h"
      by (simp_all add: globset_forms covered_def list_ex_iff [of _ "host_forms h"])
  qed
  have none: "allowed_domains (cs_config st) = None \<Longrightarrow> \<not> covered (or_default (allowed_domains (cs_config st))) h" for h
    by (simp add: covered_def list_ex_iff)
  show ?thesis
    using none by (auto simp: host_blocked_def Let_def allow deny resolves_iff split: option.splits)
qed

theorem allowed_host_meaning_witness:
  "host_blocked sample_env (\<lambda>_ _. Some [V4 (Ipv4 93 184 216 34)]) sample_state (lit ''x.api.example.com'') 443 = Allowed"
proof -
  let ?h = "lit ''x.api.example.com''" and ?lookup = "\<lambda>_ _. Some [V4 (Ipv4 93 184 216 34)]"
  have a: "list_all (\<lambda>p. pattern_plain (config_pattern p)) (or_default (allowed_domains (cs_config sample_state)))" by code_simp
  have d: "list_all (\<lambda>p. pattern_plain (config_pattern p)) (or_default (denied_domains (cs_config sample_state)))" by code_simp
  have g: "glob_laws (globs sample_env) sample_glob_matches" using sample_glob_laws by (simp add: sample_env_def)
  have "host_parse ?h = Some ?h" "covered (or_default (allowed_domains (cs_config sample_state))) ?h"
    "\<not> covered (or_default (denied_domains (cs_config sample_state))) ?h" "\<not> is_local_literal ?h"
    "reaches_only_public ?lookup ?h 443"
    by code_simp+
  with allowed_host_meaning [OF sample_state_ok g a d, of ?lookup ?h 443] show ?thesis by auto
qed

text \<open>
  A host that was added to the deny list is blocked as denied from then on, in whatever spelling it
  is requested.
\<close>

theorem denied_after_update:
  assumes "host_parse host = Some h" "plan_update env ListDeny h st = Install new_state" "glob_laws (globs env) gm"
    "config_pattern h = Exact h" "glob_literal h"
  shows "host_blocked env lookup new_state host port = Blocked Denied"
proof -
  let ?cfg = "update_candidate ListDeny h (cs_config st)"
  note new = plan_update_Install [OF assms(2)]
  have "(h, PermDeny) \<in> set (or_default (nc_domains ?cfg))"
    by (simp add: update_candidate_def upsert_domain_permission_def Let_def)
  then have "h \<in> set (or_default (denied_domains ?cfg))" by (simp add: denied_iff)
  moreover have "set (or_default (denied_domains (cs_config new_state))) = set (or_default (denied_domains ?cfg))"
  proof -
    have "validate_policy_against_constraints env ?cfg (cs_constraints st) = Ok ()"
      using assms(2) by (auto simp: plan_update_def Let_def split: if_splits sum.splits)
    from broker_same_policy [OF validated_mode [OF this]] new show ?thesis by (simp add: same_policy_def)
  qed
  moreover have "compile_globset_with_policy (globs env) (or_default (denied_domains (cs_config new_state))) WildcardReject =
      Ok (cs_deny_set new_state)"
    using new [THEN conjunct1] by (simp add: state_ok_def compile_denylist_globset_def)
  ultimately have "is_match (globs env) (cs_deny_set new_state) h"
    using assms(3-5) by (intro compiled_set_includes [where p = h and wildcard = WildcardReject and
      patterns = "or_default (denied_domains (cs_config new_state))"]) auto
  then show ?thesis using assms(1) by (simp add: host_blocked_def globset_matches_host_or_unscoped_def)
qed

theorem denied_after_update_witness:
  "host_blocked sample_env (\<lambda>_ _. None) after_deny (lit ''X.API.example.com.'') 443 = Blocked Denied"
proof -
  have h: "host_parse (lit ''X.API.example.com.'') = Some (lit ''x.api.example.com'')" by code_simp
  have c: "config_pattern (lit ''x.api.example.com'') = Exact (lit ''x.api.example.com'')" by code_simp
  have l: "glob_literal (lit ''x.api.example.com'')" by code_simp
  have g: "glob_laws (globs sample_env) sample_glob_matches" using sample_glob_laws by (simp add: sample_env_def)
  show ?thesis by (rule denied_after_update [OF h after_deny_installed g c l])
qed



text \<open>
  The log of blocked requests is not protected in this way: a request that is recorded between the
  two halves of an update of a domain list is gone, from the log and from the total, once the update
  is installed.
\<close>

theorem update_loses_blocked_request:
  assumes "plan_update env target h st = Install new_state"
  shows "proxy_step env reloads st (AtUpdate target h) st (AtInstall target h st new_state) \<and>
    proxy_step env reloads st (Rest r) (record_blocked entry st) (Rest (Ok ())) \<and>
    proxy_step env reloads (record_blocked entry st) (AtInstall target h st new_state) new_state (Rest (Ok ())) \<and>
    cs_blocked new_state = cs_blocked st \<and> cs_blocked_total new_state = cs_blocked_total st"
proof -
  have "cs_constraints (record_blocked entry st) = cs_constraints st" "cs_config (record_blocked entry st) = cs_config st"
    by (simp_all add: record_blocked_def Let_def)
  with plan_update_Install [OF assms] assms show ?thesis
    by (intro conjI proxy_step.recorded proxy_step.update_read proxy_step.update_install) simp_all
qed

theorem update_loses_blocked_request_witness:
  "proxy_step sample_env (\<lambda>_. False) (record_blocked (lit ''evil.org'') sample_state)
     (AtInstall ListDeny (lit ''x.api.example.com'') sample_state after_deny) after_deny (Rest (Ok ())) \<and>
   cs_blocked (record_blocked (lit ''evil.org'') sample_state) = [lit ''evil.org''] \<and> cs_blocked after_deny = []"
proof -
  have "cs_blocked sample_state = []" "cs_blocked (record_blocked (lit ''evil.org'') sample_state) = [lit ''evil.org'']"
    by code_simp+
  with update_loses_blocked_request [OF after_deny_installed, where entry = "lit ''evil.org''" and reloads = "\<lambda>_. False"]
  show ?thesis by simp
qed

end
