(* ===== verification/Config_Merge.thy ===== *)
theory Config_Merge
  imports Domain_Pattern "HOL-Library.AList"
begin

text \<open>
  \<open>config/src/merge.rs\<close>, \<open>key_aliases.rs\<close> and \<open>overrides.rs\<close>: TOML values, the merge of a layer of the
  configuration into those below it, and the overrides of the command line.

  A table keeps the order of its keys (the feature \<open>preserve_order\<close>), so it is an association list with
  distinct keys: inserting an existing key keeps its place, a new one goes to the end. A float is given
  by its bits and a date by its text; the merge does not look into them. The record \<open>merge_env\<close> holds
  the conversion to lower case of the standard library, whose tables are not written out, and whether
  the program is built for Windows.
\<close>

section \<open>TOML values\<close>

datatype TomlValue =
    TString rstr
  | TInteger int
  | TFloat nat
  | TBoolean bool
  | TDatetime rstr
  | TArray "TomlValue list"
  | TTable "(rstr \<times> TomlValue) list"

type_synonym toml_table = "(rstr \<times> TomlValue) list"

record merge_env =
  lowercase :: "rstr \<Rightarrow> rstr"
  windows :: bool

fun as_table :: "TomlValue \<Rightarrow> toml_table option" where
  "as_table (TTable t) = Some t"
| "as_table _ = None"

fun as_array :: "TomlValue \<Rightarrow> TomlValue list option" where
  "as_array (TArray xs) = Some xs"
| "as_array _ = None"

fun toml_as_str :: "TomlValue \<Rightarrow> rstr option" where
  "toml_as_str (TString s) = Some s"
| "toml_as_str _ = None"

definition toml_get :: "rstr \<Rightarrow> TomlValue \<Rightarrow> TomlValue option" where
  "toml_get key v = Option.bind (as_table v) (\<lambda>t. map_of t key)"

definition collect_table :: "toml_table \<Rightarrow> toml_table" where
  "collect_table entries = foldl (\<lambda>t kv. AList.update (fst kv) (snd kv) t) [] entries"

section \<open>Aliases of keys\<close>

record ConfigKeyAlias =
  table_path :: "rstr list"
  legacy_key :: rstr
  canonical_key :: rstr

definition CONFIG_KEY_ALIASES :: "ConfigKeyAlias list" where
  "CONFIG_KEY_ALIASES =
     [\<lparr>table_path = [lit ''memories''], legacy_key = lit ''no_memories_if_mcp_or_web_search'',
       canonical_key = lit ''disable_on_external_context''\<rparr>,
      \<lparr>table_path = [lit ''agents''], legacy_key = lit ''max_threads'',
       canonical_key = lit ''max_concurrent_threads_per_session''\<rparr>]"

definition rename_key :: "rstr \<Rightarrow> rstr \<Rightarrow> toml_table \<Rightarrow> toml_table" where
  "rename_key legacy canonical table =
     (case map_of table legacy of
        None \<Rightarrow> table
      | Some v \<Rightarrow>
          (let rest = AList.delete legacy table in
           if map_of rest canonical = None then AList.update canonical v rest else rest))"

definition normalize_key_aliases :: "rstr list \<Rightarrow> toml_table \<Rightarrow> toml_table" where
  "normalize_key_aliases path table =
     foldl (\<lambda>t alias. if path = table_path alias then rename_key (legacy_key alias) (canonical_key alias) t else t)
       table CONFIG_KEY_ALIASES"

lemma size_table_entry [termination_simp]:
  "kv \<in> set t \<Longrightarrow> size (snd kv) < Suc (size_list (size_prod (\<lambda>_. 0) size) t)"
  by (induction t) auto

fun normalized_with_key_aliases :: "TomlValue \<Rightarrow> rstr list \<Rightarrow> TomlValue" where
  "normalized_with_key_aliases (TTable table) path =
     TTable (normalize_key_aliases path
       (collect_table (map (\<lambda>kv. (fst kv, normalized_with_key_aliases (snd kv) (path @ [fst kv]))) table)))"
| "normalized_with_key_aliases (TArray items) path = TArray (map (\<lambda>item. normalized_with_key_aliases item path) items)"
| "normalized_with_key_aliases v path = v"

section \<open>Representations of the environment filters\<close>

datatype ShellEnvironmentPolicyFilterRepresentation = Filters | Legacy

definition from_policy :: "TomlValue \<Rightarrow> ShellEnvironmentPolicyFilterRepresentation option" where
  "from_policy policy =
     (case as_table policy of
        None \<Rightarrow> None
      | Some t \<Rightarrow>
          if map_of t (lit ''filters'') \<noteq> None then Some Filters
          else if map_of t (lit ''exclude'') \<noteq> None \<or> map_of t (lit ''include_only'') \<noteq> None then Some Legacy
          else None)"

definition from_path :: "rstr list \<Rightarrow> ShellEnvironmentPolicyFilterRepresentation option" where
  "from_path path =
     (case path of
        policy # field # _ \<Rightarrow>
          if policy = lit ''shell_environment_policy'' then
            if field = lit ''filters'' then Some Filters
            else if field = lit ''exclude'' \<or> field = lit ''include_only'' then Some Legacy
            else None
          else None
      | _ \<Rightarrow> None)"

definition from_edit :: "rstr list \<Rightarrow> TomlValue \<Rightarrow> ShellEnvironmentPolicyFilterRepresentation option" where
  "from_edit path v = (if path = [lit ''shell_environment_policy''] then from_policy v else from_path path)"

fun displaced_fields :: "ShellEnvironmentPolicyFilterRepresentation \<Rightarrow> rstr list" where
  "displaced_fields Filters = [lit ''exclude'', lit ''include_only'']"
| "displaced_fields Legacy = [lit ''filters'']"

definition replace_shell_environment_policy_filter_representation :: "TomlValue \<Rightarrow> TomlValue \<Rightarrow> rstr list \<Rightarrow> TomlValue" where
  "replace_shell_environment_policy_filter_representation base overlay path =
     (if path \<noteq> [lit ''shell_environment_policy''] then base
      else
        (case (from_policy overlay, base) of
           (Some representation, TTable t) \<Rightarrow> TTable (fold AList.delete (displaced_fields representation) t)
         | _ \<Rightarrow> base))"

text \<open>The first entry of the filters whose pattern is \<open>pattern\<close> up to case.\<close>

definition shell_environment_filter_entry :: "merge_env \<Rightarrow> TomlValue \<Rightarrow> rstr list \<Rightarrow> (rstr \<times> TomlValue) option" where
  "shell_environment_filter_entry env root path =
     (case path of
        [policy, filters, pattern] \<Rightarrow>
          if policy \<noteq> lit ''shell_environment_policy'' \<or> filters \<noteq> lit ''filters'' then None
          else
            Option.bind (toml_get policy root) (\<lambda>p. Option.bind (toml_get filters p) (\<lambda>f. Option.bind (as_table f)
              (find (\<lambda>kv. lowercase env (fst kv) = lowercase env pattern))))
      | _ \<Rightarrow> None)"

section \<open>Merging\<close>

definition structured_features :: "rstr list" where
  "structured_features = [lit ''multi_agent_v2'', lit ''network_proxy'', lit ''sleep_tool'']"

definition is_structured_feature_path :: "rstr list \<Rightarrow> bool" where
  "is_structured_feature_path path =
     (case path of
        [profiles, _, features, feature] \<Rightarrow>
          profiles = lit ''profiles'' \<and> features = lit ''features'' \<and> feature \<in> set structured_features
      | [features, feature] \<Rightarrow> features = lit ''features'' \<and> feature \<in> set structured_features
      | _ \<Rightarrow> False)"

definition is_shell_environment_filters_path :: "rstr list \<Rightarrow> bool" where
  "is_shell_environment_filters_path path \<longleftrightarrow> path = [lit ''shell_environment_policy'', lit ''filters'']"

definition is_network_domains_path :: "rstr list \<Rightarrow> bool" where
  "is_network_domains_path path =
     (case path of
        [permissions, _, network, domains] \<Rightarrow>
          permissions = lit ''permissions'' \<and> network = lit ''network'' \<and> domains = lit ''domains''
      | [application, network, domains] \<Rightarrow>
          application = lit ''application'' \<and> network = lit ''network'' \<and> domains = lit ''domains''
      | _ \<Rightarrow> False)"

definition normalize_network_domain_keys :: "toml_table \<Rightarrow> toml_table" where
  "normalize_network_domain_keys table = collect_table (map (\<lambda>kv. (normalize_host (fst kv), snd kv)) table)"

definition normalize_case_insensitive_keys :: "merge_env \<Rightarrow> toml_table \<Rightarrow> toml_table" where
  "normalize_case_insensitive_keys env table = collect_table (map (\<lambda>kv. (lowercase env (fst kv), snd kv)) table)"

definition prepare_table :: "merge_env \<Rightarrow> rstr list \<Rightarrow> toml_table \<Rightarrow> toml_table" where
  "prepare_table env path table =
     (let t1 = normalize_key_aliases path table;
          t2 = (if is_network_domains_path path then normalize_network_domain_keys t1 else t1)
      in if is_shell_environment_filters_path path then normalize_case_insensitive_keys env t2 else t2)"

definition enabled_table :: "bool \<Rightarrow> toml_table" where
  "enabled_table enabled = [(lit ''enabled'', TBoolean enabled)]"

text \<open>
  A switch over the settings of a feature sets their \<open>enabled\<close> and ends the merge (left); settings over a
  switch first turn the switch into a table (right).
\<close>

definition switch_feature :: "rstr list \<Rightarrow> TomlValue \<Rightarrow> TomlValue \<Rightarrow> TomlValue + TomlValue" where
  "switch_feature path base overlay =
     (if is_structured_feature_path path then
        (case (base, overlay) of
           (TBoolean enabled, TTable _) \<Rightarrow> Inr (TTable (enabled_table enabled))
         | (TTable table, TBoolean enabled) \<Rightarrow> Inl (TTable (AList.update (lit ''enabled'') (TBoolean enabled) table))
         | _ \<Rightarrow> Inr base)
      else Inr base)"

definition is_credentials_path :: "rstr list \<Rightarrow> bool" where
  "is_credentials_path path \<longleftrightarrow>
     path \<noteq> [] \<and> last path = lit ''credentials'' \<and> is_structured_feature_path (butlast path)"

definition same_source :: "merge_env \<Rightarrow> rstr \<Rightarrow> rstr \<Rightarrow> bool" where
  "same_source env existing_source overlay_source \<longleftrightarrow>
     existing_source = overlay_source \<or> windows env \<and> eq_ignore_ascii_case existing_source overlay_source"

definition shares_source :: "merge_env \<Rightarrow> TomlValue list \<Rightarrow> TomlValue list \<Rightarrow> bool" where
  "shares_source env existing_sources overlay_sources \<longleftrightarrow>
     list_ex (\<lambda>e. list_ex (same_source env e) (List.map_filter toml_as_str overlay_sources))
       (List.map_filter toml_as_str existing_sources)"

definition env_sources :: "TomlValue option \<Rightarrow> TomlValue list option" where
  "env_sources v = Option.bind v as_array"

definition keeps_provider :: "merge_env \<Rightarrow> toml_table \<Rightarrow> rstr \<Rightarrow> TomlValue list \<Rightarrow> rstr \<times> TomlValue \<Rightarrow> bool" where
  "keeps_provider env overlay_table provider_id overlay_sources existing \<longleftrightarrow>
     fst existing = provider_id \<or>
     \<not> (case env_sources
              (case Option.bind (map_of overlay_table (fst existing)) (toml_get (lit ''env'')) of
                 Some v \<Rightarrow> Some v
               | None \<Rightarrow> toml_get (lit ''env'') (snd existing)) of
          Some existing_sources \<Rightarrow> shares_source env existing_sources overlay_sources
        | None \<Rightarrow> False)"

definition retain_providers :: "merge_env \<Rightarrow> toml_table \<Rightarrow> toml_table \<Rightarrow> toml_table" where
  "retain_providers env overlay_table base_table =
     foldl (\<lambda>bt provider.
         case env_sources (toml_get (lit ''env'') (snd provider)) of
           None \<Rightarrow> bt
         | Some overlay_sources \<Rightarrow> filter (keeps_provider env overlay_table (fst provider) overlay_sources) bt)
       base_table overlay_table"

lemma update_values: "snd ` set (AList.update k v t) \<subseteq> insert v (snd ` set t)"
  by (induction t) auto

lemma delete_subset: "set (AList.delete k t) \<subseteq> set t"
  by (auto simp: AList.delete_eq)

lemma collect_values:
  "snd ` set (foldl (\<lambda>t kv. AList.update (fst kv) (snd kv) t) acc es) \<subseteq> snd ` set acc \<union> snd ` set es"
proof (induction es arbitrary: acc)
  case (Cons e es)
  show ?case using Cons [of "AList.update (fst e) (snd e) acc"] update_values [of "fst e" "snd e" acc] by simp blast
qed simp

lemma collect_table_values: "snd ` set (collect_table es) \<subseteq> snd ` set es"
  using collect_values [of "[]" es] by (simp add: collect_table_def)

lemma rename_key_values: "snd ` set (rename_key l c t) \<subseteq> snd ` set t"
proof (cases "map_of t l")
  case (Some v)
  then have "v \<in> snd ` set t" by (force dest: map_of_SomeD)
  moreover have "snd ` set (AList.delete l t) \<subseteq> snd ` set t" by (intro image_mono delete_subset)
  ultimately have "snd ` set (AList.update c v (AList.delete l t)) \<subseteq> snd ` set t"
    using update_values [of c v "AList.delete l t"] by (meson insert_subset order_trans)
  with Some \<open>snd ` set (AList.delete l t) \<subseteq> snd ` set t\<close> show ?thesis by (simp add: rename_key_def Let_def)
qed (simp add: rename_key_def)

lemma normalize_key_aliases_values: "snd ` set (normalize_key_aliases path t) \<subseteq> snd ` set t"
proof -
  have "snd ` set (foldl (\<lambda>t alias. if path = table_path alias then rename_key (legacy_key alias) (canonical_key alias) t else t) t as)
      \<subseteq> snd ` set t" for as
  proof (induction as arbitrary: t)
    case (Cons a as)
    show ?case
      using Cons [of t] Cons [of "rename_key (legacy_key a) (canonical_key a) t"]
        rename_key_values [of "legacy_key a" "canonical_key a" t] by simp blast
  qed simp
  then show ?thesis by (simp add: normalize_key_aliases_def)
qed

lemma renamed_keys_values: "snd ` set (collect_table (map (\<lambda>kv. (f (fst kv), snd kv)) t)) \<subseteq> snd ` set t"
  using collect_table_values [of "map (\<lambda>kv. (f (fst kv), snd kv)) t"] by (simp add: image_image)

lemma prepare_table_values: "snd ` set (prepare_table env path t) \<subseteq> snd ` set t"
proof -
  let ?t1 = "normalize_key_aliases path t"
  have 1: "snd ` set ?t1 \<subseteq> snd ` set t" by (rule normalize_key_aliases_values)
  define t2 where "t2 = (if is_network_domains_path path then normalize_network_domain_keys ?t1 else ?t1)"
  have 2: "snd ` set t2 \<subseteq> snd ` set ?t1" by (simp add: t2_def normalize_network_domain_keys_def renamed_keys_values)
  have "snd ` set (prepare_table env path t) \<subseteq> snd ` set t2"
    by (simp add: prepare_table_def t2_def [symmetric] Let_def normalize_case_insensitive_keys_def renamed_keys_values)
  also note 2
  also note 1
  finally show ?thesis .
qed

lemma size_prepared_entry:
  assumes "kv \<in> set (prepare_table env path t)"
  shows "size (snd kv) < size (TTable t)"
proof -
  from assms have "snd kv \<in> snd ` set (prepare_table env path t)" by simp
  with prepare_table_values [of env path t] obtain kv' where "kv' \<in> set t" "snd kv' = snd kv" by (metis imageE subsetD)
  with size_table_entry [of kv' t] show ?thesis by simp
qed

function merge_toml_values_at_path :: "merge_env \<Rightarrow> TomlValue \<Rightarrow> TomlValue \<Rightarrow> rstr list \<Rightarrow> TomlValue" where
  "merge_toml_values_at_path env base overlay path =
     (case switch_feature path (replace_shell_environment_policy_filter_representation base overlay path) overlay of
        Inl merged \<Rightarrow> merged
      | Inr base1 \<Rightarrow>
          (case (overlay, base1) of
             (TTable overlay_table, TTable base_table) \<Rightarrow>
               (let bt = prepare_table env path base_table;
                    ot = prepare_table env path overlay_table;
                    bt1 = (if is_credentials_path path then retain_providers env ot bt else bt)
                in TTable (foldl (\<lambda>t kv.
                     case map_of t (fst kv) of
                       Some existing \<Rightarrow>
                         AList.update (fst kv) (merge_toml_values_at_path env existing (snd kv) (path @ [fst kv])) t
                     | None \<Rightarrow> AList.update (fst kv) (normalized_with_key_aliases (snd kv) (path @ [fst kv])) t)
                   bt1 ot))
           | _ \<Rightarrow> normalized_with_key_aliases overlay path))"
  by pat_completeness auto

termination
  by (relation "measure (\<lambda>(env, base, overlay, path). size overlay)") (auto dest: size_prepared_entry)

declare merge_toml_values_at_path.simps [simp del]

definition merge_toml_values :: "merge_env \<Rightarrow> TomlValue \<Rightarrow> TomlValue \<Rightarrow> TomlValue" where
  "merge_toml_values env base overlay = merge_toml_values_at_path env base overlay []"

section \<open>Overrides\<close>

definition default_empty_table :: TomlValue where
  "default_empty_table = TTable []"

definition set_last_segment :: "merge_env \<Rightarrow> toml_table \<Rightarrow> rstr list \<Rightarrow> rstr \<Rightarrow> TomlValue \<Rightarrow> toml_table" where
  "set_last_segment env table traversed segment v =
     (case (if is_structured_feature_path traversed then map_of table segment else None) of
        Some existing \<Rightarrow>
          (case (existing, v) of
             (TTable feature, TBoolean enabled) \<Rightarrow>
               AList.update segment (TTable (AList.update (lit ''enabled'') (TBoolean enabled) feature)) table
           | (TBoolean enabled, TTable _) \<Rightarrow>
               AList.update segment (merge_toml_values env (TTable (enabled_table enabled)) v) table
           | (TTable _, TTable _) \<Rightarrow> AList.update segment (merge_toml_values env existing v) table
           | _ \<Rightarrow> AList.update segment v table)
      | None \<Rightarrow> AList.update segment v table)"

definition enter_segment :: "toml_table \<Rightarrow> rstr list \<Rightarrow> rstr \<Rightarrow> TomlValue" where
  "enter_segment table traversed segment =
     (let current = (case map_of table segment of Some v \<Rightarrow> v | None \<Rightarrow> TTable []) in
      case current of
        TBoolean enabled \<Rightarrow> if is_structured_feature_path traversed then TTable (enabled_table enabled) else current
      | _ \<Rightarrow> current)"

text \<open>The walk along the segments; \<open>traversed\<close> are those before the ones that are left.\<close>

fun override_at :: "merge_env \<Rightarrow> TomlValue \<Rightarrow> rstr list \<Rightarrow> rstr list \<Rightarrow> TomlValue \<Rightarrow> TomlValue" where
  "override_at env current traversed [] v = current"
| "override_at env current traversed [segment] v =
     (case current of
        TTable table \<Rightarrow> TTable (set_last_segment env table (traversed @ [segment]) segment v)
      | _ \<Rightarrow> TTable [(segment, v)])"
| "override_at env current traversed (segment # segments) v =
     (case current of
        TTable table \<Rightarrow>
          TTable (AList.update segment
            (override_at env (enter_segment table (traversed @ [segment]) segment) (traversed @ [segment]) segments v) table)
      | _ \<Rightarrow> TTable [(segment, override_at env (TTable []) (traversed @ [segment]) segments v)])"

definition apply_toml_override :: "merge_env \<Rightarrow> TomlValue \<Rightarrow> rstr \<Rightarrow> TomlValue \<Rightarrow> TomlValue" where
  "apply_toml_override env root path v = override_at env root [] (split_on 46 path) v"

definition build_cli_overrides_layer :: "merge_env \<Rightarrow> (rstr \<times> TomlValue) list \<Rightarrow> TomlValue" where
  "build_cli_overrides_layer env cli_overrides =
     foldl (\<lambda>root (path, v). apply_toml_override env root path v) default_empty_table cli_overrides"

section \<open>Tables\<close>

declare map_of_eq_Some_iff [simp del]

lemma distinct_collect_table: "distinct (map fst (collect_table es))"
proof -
  have "distinct (map fst acc) \<Longrightarrow> distinct (map fst (foldl (\<lambda>t kv. AList.update (fst kv) (snd kv) t) acc es))"
    for acc :: "('a \<times> 'b) list" and es
    by (induction es arbitrary: acc) (auto simp: distinct_update)
  from this [of "[]"] show ?thesis by (simp add: collect_table_def)
qed

lemma collect_table_id: "distinct (map fst es) \<Longrightarrow> collect_table es = es"
proof -
  have "distinct (map fst (acc @ es)) \<Longrightarrow> foldl (\<lambda>t kv. AList.update (fst kv) (snd kv) t) acc es = acc @ es"
    for acc es :: "('a \<times> 'b) list"
  proof (induction es arbitrary: acc)
    case (Cons e es)
    have "AList.update (fst e) (snd e) acc = acc @ [e]" if "fst e \<notin> fst ` set acc"
      using that by (induction acc) auto
    with Cons.prems have "AList.update (fst e) (snd e) acc = acc @ [e]" by auto
    with Cons.IH [of "acc @ [e]"] Cons.prems show ?case by simp
  qed simp
  from this [of "[]" es] show "distinct (map fst es) \<Longrightarrow> collect_table es = es" by (simp add: collect_table_def)
qed

lemma map_of_collect: "map_of (collect_table es) = map_of (rev es)"
proof -
  have "map_of (foldl (\<lambda>t kv. AList.update (fst kv) (snd kv) t) acc es) = map_of acc ++ map_of (rev es)"
    for acc es :: "('a \<times> 'b) list"
    by (induction es arbitrary: acc) (auto simp: update_conv' map_add_def fun_eq_iff split: option.splits)
  from this [of "[]" es] show ?thesis by (simp add: collect_table_def)
qed

lemma distinct_rename_key: "distinct (map fst t) \<Longrightarrow> distinct (map fst (rename_key l c t))"
  by (simp add: rename_key_def Let_def distinct_update distinct_delete split: option.splits)

lemma distinct_normalize_key_aliases: "distinct (map fst t) \<Longrightarrow> distinct (map fst (normalize_key_aliases path t))"
  by (simp add: normalize_key_aliases_def CONFIG_KEY_ALIASES_def distinct_rename_key)

lemma distinct_prepare_table: "distinct (map fst t) \<Longrightarrow> distinct (map fst (prepare_table env path t))"
  by (simp add: prepare_table_def Let_def distinct_normalize_key_aliases normalize_network_domain_keys_def
      normalize_case_insensitive_keys_def distinct_collect_table)

text \<open>The loop over the overlay, key by key.\<close>

definition merge_entry :: "merge_env \<Rightarrow> rstr list \<Rightarrow> TomlValue option \<Rightarrow> TomlValue \<Rightarrow> TomlValue" where
  "merge_entry env path existing v =
     (case existing of Some b \<Rightarrow> merge_toml_values_at_path env b v path | None \<Rightarrow> normalized_with_key_aliases v path)"

definition merge_tables :: "merge_env \<Rightarrow> rstr list \<Rightarrow> toml_table \<Rightarrow> toml_table \<Rightarrow> toml_table" where
  "merge_tables env path bt ot =
     foldl (\<lambda>t kv. AList.update (fst kv) (merge_entry env (path @ [fst kv]) (map_of t (fst kv)) (snd kv)) t) bt ot"

lemma map_of_merge_tables:
  assumes "distinct (map fst ot)"
  shows "map_of (merge_tables env path bt ot) k =
    (case map_of ot k of None \<Rightarrow> map_of bt k | Some v \<Rightarrow> Some (merge_entry env (path @ [k]) (map_of bt k) v))"
  using assms
proof (induction ot arbitrary: bt)
  case (Cons kv ot)
  obtain j v where kv: "kv = (j, v)" by fastforce
  let ?bt = "AList.update j (merge_entry env (path @ [j]) (map_of bt j) v) bt"
  from Cons.prems kv have "map_of ot j = None" by (auto simp: map_of_eq_None_iff)
  with Cons.IH [of ?bt] Cons.prems kv show ?case
    by (auto simp: merge_tables_def update_conv' split: option.splits)
qed (simp add: merge_tables_def)

lemma distinct_merge_tables: "distinct (map fst bt) \<Longrightarrow> distinct (map fst (merge_tables env path bt ot))"
  by (induction ot arbitrary: bt) (simp_all add: merge_tables_def distinct_update)

definition kept_base :: "merge_env \<Rightarrow> rstr list \<Rightarrow> toml_table \<Rightarrow> toml_table \<Rightarrow> toml_table" where
  "kept_base env path bt ot =
     (let b = prepare_table env path bt in
      if is_credentials_path path then retain_providers env (prepare_table env path ot) b else b)"

lemma merge_step:
  "merge_toml_values_at_path env base overlay path =
     (case switch_feature path (replace_shell_environment_policy_filter_representation base overlay path) overlay of
        Inl merged \<Rightarrow> merged
      | Inr (TTable bt) \<Rightarrow>
          (case overlay of
             TTable ot \<Rightarrow> TTable (merge_tables env path (kept_base env path bt ot) (prepare_table env path ot))
           | _ \<Rightarrow> normalized_with_key_aliases overlay path)
      | _ \<Rightarrow> normalized_with_key_aliases overlay path)"
proof -
  have step: "(\<lambda>t kv. AList.update (fst kv) (merge_entry env (path @ [fst kv]) (map_of t (fst kv)) (snd kv)) t) =
    (\<lambda>t kv. case map_of t (fst kv) of
        Some existing \<Rightarrow> AList.update (fst kv) (merge_toml_values_at_path env existing (snd kv) (path @ [fst kv])) t
      | None \<Rightarrow> AList.update (fst kv) (normalized_with_key_aliases (snd kv) (path @ [fst kv])) t)"
    by (auto simp: fun_eq_iff merge_entry_def split: option.splits)
  show ?thesis
    by (simp add: merge_toml_values_at_path.simps [of env base overlay path] merge_tables_def kept_base_def Let_def step
        split: sum.splits TomlValue.splits)
qed

section \<open>Canonical configurations\<close>

text \<open>
  A configuration is canonical if no key is a legacy name, and hosts and filter patterns are written the
  way the merge compares them.
\<close>

definition key_ok :: "merge_env \<Rightarrow> rstr list \<Rightarrow> rstr \<Rightarrow> bool" where
  "key_ok env path k \<longleftrightarrow>
     (\<forall>alias \<in> set CONFIG_KEY_ALIASES. path = table_path alias \<longrightarrow> k \<noteq> legacy_key alias) \<and>
     (is_network_domains_path path \<longrightarrow> normalize_host k = k) \<and>
     (is_shell_environment_filters_path path \<longrightarrow> lowercase env k = k)"

fun canonical :: "merge_env \<Rightarrow> rstr list \<Rightarrow> TomlValue \<Rightarrow> bool" where
  "canonical env path (TTable t) \<longleftrightarrow>
     distinct (map fst t) \<and> (\<forall>kv \<in> set t. key_ok env path (fst kv) \<and> canonical env (path @ [fst kv]) (snd kv))"
| "canonical env path (TArray xs) \<longleftrightarrow> (\<forall>x \<in> set xs. normalized_with_key_aliases x path = x)"
| "canonical env path v \<longleftrightarrow> True"

lemma rename_key_id: "l \<notin> fst ` set t \<Longrightarrow> rename_key l c t = t"
  by (simp add: rename_key_def map_of_eq_None_iff [THEN iffD2])

lemma normalize_key_aliases_id: "\<forall>kv \<in> set t. key_ok env path (fst kv) \<Longrightarrow> normalize_key_aliases path t = t"
proof -
  assume ok: "\<forall>kv \<in> set t. key_ok env path (fst kv)"
  have fold_id: "\<forall>a \<in> set as. path = table_path a \<longrightarrow> rename_key (legacy_key a) (canonical_key a) t = t \<Longrightarrow>
    foldl (\<lambda>t a. if path = table_path a then rename_key (legacy_key a) (canonical_key a) t else t) t as = t" for as
    by (induction as) auto
  from ok have "\<forall>a \<in> set CONFIG_KEY_ALIASES. path = table_path a \<longrightarrow> rename_key (legacy_key a) (canonical_key a) t = t"
    by (intro ballI impI rename_key_id) (fastforce simp: key_ok_def)
  from fold_id [OF this] show "normalize_key_aliases path t = t" by (simp add: normalize_key_aliases_def)
qed

lemma prepare_table_id:
  assumes "distinct (map fst t)" "\<forall>kv \<in> set t. key_ok env path (fst kv)"
  shows "prepare_table env path t = t"
proof -
  have same: "map (\<lambda>kv. (f (fst kv), snd kv)) t = t" if "\<forall>kv \<in> set t. f (fst kv) = fst kv" for f
    using that by (induction t) auto
  have "is_network_domains_path path \<Longrightarrow> normalize_network_domain_keys t = t"
    "is_shell_environment_filters_path path \<Longrightarrow> normalize_case_insensitive_keys env t = t"
    unfolding normalize_network_domain_keys_def normalize_case_insensitive_keys_def
    using assms same by (simp_all add: key_ok_def collect_table_id)
  then show ?thesis by (simp add: prepare_table_def Let_def normalize_key_aliases_id [OF assms(2)])
qed

lemma canonical_prepared: "canonical env path (TTable t) \<Longrightarrow> prepare_table env path t = t"
  by (rule prepare_table_id) auto

lemma canonical_normalized: "canonical env path v \<Longrightarrow> normalized_with_key_aliases v path = v"
proof (induction v path rule: normalized_with_key_aliases.induct)
  case (1 t path)
  then have "map (\<lambda>kv. (fst kv, normalized_with_key_aliases (snd kv) (path @ [fst kv]))) t = t" by (intro map_idI) auto
  with 1 show ?case by (auto simp: collect_table_id intro!: normalize_key_aliases_id)
qed (auto intro: map_idI)

fun get_at :: "TomlValue \<Rightarrow> rstr list \<Rightarrow> TomlValue option" where
  "get_at v [] = Some v"
| "get_at v (k # ks) = Option.bind (toml_get k v) (\<lambda>w. get_at w ks)"

lemma toml_get_TTable [simp]: "toml_get k (TTable t) = map_of t k"
  by (simp add: toml_get_def)

lemma toml_get_Some: "toml_get k v = Some w \<longleftrightarrow> (\<exists>t. v = TTable t \<and> map_of t k = Some w)"
  by (cases v) (auto simp: toml_get_def)

lemma get_at_Cons: "get_at v (k # ks) = Some x \<longleftrightarrow> (\<exists>t w. v = TTable t \<and> map_of t k = Some w \<and> get_at w ks = Some x)"
  by (auto simp: bind_eq_Some_conv toml_get_Some)

lemma canonical_child: "canonical env path (TTable t) \<Longrightarrow> map_of t k = Some w \<Longrightarrow> canonical env (path @ [k]) w"
  by (auto dest!: map_of_SomeD)

text \<open>Whether a layer leaves alone what is at a path: it has tables on the way, up to one without the next key.\<close>

fun untouched :: "TomlValue \<Rightarrow> rstr list \<Rightarrow> bool" where
  "untouched (TTable t) (k # ks) \<longleftrightarrow> (case map_of t k of None \<Rightarrow> True | Some v \<Rightarrow> untouched v ks)"
| "untouched _ _ \<longleftrightarrow> False"

definition ordinary :: "rstr list \<Rightarrow> bool" where
  "ordinary path \<longleftrightarrow>
     path \<noteq> [] \<and> hd path \<notin> {lit ''shell_environment_policy'', lit ''features'', lit ''profiles''}"

lemma switch_table [simp]:
  "switch_feature path (TTable bt) (TTable ot) = Inr (TTable bt)"
  by (simp add: switch_feature_def)

lemma switch_Inl_overlay: "switch_feature path b (TTable ot) \<noteq> Inl m"
  by (auto simp: switch_feature_def split: TomlValue.splits)

lemma structured_hd: "is_structured_feature_path path \<Longrightarrow> path \<noteq> [] \<and> hd path \<in> {lit ''features'', lit ''profiles''}"
  by (auto simp: is_structured_feature_path_def split: list.splits)

lemma credentials_hd: "is_credentials_path path \<Longrightarrow> hd path \<in> {lit ''features'', lit ''profiles''}"
  by (cases path rule: rev_cases) (auto simp: is_credentials_path_def hd_append dest: structured_hd)

lemma ordinary_merge:
  assumes "ordinary path \<or> path = []"
  shows "merge_toml_values_at_path env base overlay path =
    (case (base, overlay) of
       (TTable bt, TTable ot) \<Rightarrow> TTable (merge_tables env path (prepare_table env path bt) (prepare_table env path ot))
     | _ \<Rightarrow> normalized_with_key_aliases overlay path)"
proof -
  have "\<not> is_structured_feature_path path" "\<not> is_credentials_path path"
    "path \<noteq> [lit ''shell_environment_policy'']"
    using assms structured_hd [of path] credentials_hd [of path] by (auto simp: ordinary_def is_credentials_path_def)
  then show ?thesis
    by (subst merge_step) (simp add: switch_feature_def replace_shell_environment_policy_filter_representation_def
        kept_base_def Let_def split: TomlValue.splits)
qed

lemma ordinary_snoc: "ordinary (path @ k # ks) \<Longrightarrow> ordinary path \<or> path = []"
  by (cases path) (auto simp: ordinary_def)

lemma merged_table:
  assumes "ordinary (path @ k # ks)" "canonical env path (TTable bt)" "canonical env path (TTable ot)"
  shows "merge_toml_values_at_path env (TTable bt) (TTable ot) path = TTable (merge_tables env path bt ot)"
    "map_of (merge_tables env path bt ot) k =
      (case map_of ot k of None \<Rightarrow> map_of bt k | Some v \<Rightarrow> Some (merge_entry env (path @ [k]) (map_of bt k) v))"
  using assms
  by (simp_all add: ordinary_merge [OF ordinary_snoc [OF assms(1)]] canonical_prepared del: canonical.simps)
    (simp add: map_of_merge_tables)

lemma base_kept:
  assumes "canonical env path base" "canonical env path overlay" "ordinary (path @ p)"
    and "untouched overlay p" "get_at base p = Some v"
  shows "get_at (merge_toml_values_at_path env base overlay path) p = Some v"
  using assms
proof (induction p arbitrary: base overlay path)
  case (Cons k ks)
  from Cons.prems(4) obtain ot where o: "overlay = TTable ot" by (cases overlay) auto
  from Cons.prems(5) obtain bt w where b: "base = TTable bt" and w: "map_of bt k = Some w" "get_at w ks = Some v"
    unfolding get_at_Cons by blast
  note m = merged_table [OF Cons.prems(3) Cons.prems(1) [unfolded b] Cons.prems(2) [unfolded o]]
  show ?case
  proof (cases "map_of ot k")
    case None
    with w show ?thesis unfolding o b m(1) get_at_Cons by (auto simp: m(2))
  next
    case (Some x)
    with Cons.prems(4) o have "untouched x ks" by simp
    with Cons.IH [of "path @ [k]" w x] w Cons.prems(1-3) Some
    have "get_at (merge_toml_values_at_path env w x (path @ [k])) ks = Some v"
      unfolding b o by (simp add: canonical_child del: canonical.simps)
    with Some w show ?thesis unfolding o b m(1) get_at_Cons by (auto simp: m(2) merge_entry_def)
  qed
qed auto

lemma merge_leaf:
  "as_table v = None \<Longrightarrow> merge_toml_values_at_path env base v path =
     (case switch_feature path (replace_shell_environment_policy_filter_representation base v path) v of
        Inl merged \<Rightarrow> merged | Inr _ \<Rightarrow> normalized_with_key_aliases v path)"
  by (subst merge_step) (auto split: sum.splits TomlValue.splits)

lemma overlay_wins:
  assumes "canonical env path overlay" "get_at overlay p = Some v" "as_table v = None"
  shows "get_at (merge_toml_values_at_path env base overlay path) p = Some v \<or>
    is_structured_feature_path (path @ p) \<and> (\<exists>b. v = TBoolean b) \<and>
    get_at (merge_toml_values_at_path env base overlay path) (p @ [lit ''enabled'']) = Some v"
  using assms
proof (induction p arbitrary: base overlay path)
  case Nil
  then show ?case using canonical_normalized [of env path v]
    by (auto simp: merge_leaf switch_feature_def update_conv' split: TomlValue.splits sum.splits if_splits)
next
  case (Cons k ks)
  then obtain ot w where o: "overlay = TTable ot" and w: "map_of ot k = Some w" "get_at w ks = Some v"
    unfolding get_at_Cons by blast
  from canonical_child Cons.prems(1) o w have cw: "canonical env (path @ [k]) w" by blast
  have dist: "distinct (map fst ot)" and prep: "prepare_table env path ot = ot"
    using Cons.prems(1) o canonical_prepared by auto
  let ?b = "switch_feature path (replace_shell_environment_policy_filter_representation base overlay path) overlay"
  obtain b1 where b1: "?b = Inr b1" using switch_Inl_overlay o by (cases ?b) auto
  show ?case
  proof (cases b1)
    case (TTable bt)
    let ?x = "merge_entry env (path @ [k]) (map_of (kept_base env path bt ot) k) w"
    have "merge_toml_values_at_path env base overlay path = TTable (merge_tables env path (kept_base env path bt ot) ot)"
      using merge_step [of env base overlay path] b1 TTable o prep by simp
    moreover have "map_of (merge_tables env path (kept_base env path bt ot) ot) k = Some ?x"
      using w by (simp add: map_of_merge_tables [OF dist])
    moreover have "get_at ?x ks = Some v \<or> is_structured_feature_path (path @ k # ks) \<and> (\<exists>b. v = TBoolean b) \<and>
        get_at ?x (ks @ [lit ''enabled'']) = Some v"
      using Cons.IH [OF cw w(2) Cons.prems(3)] canonical_normalized [OF cw] w
      by (auto simp: merge_entry_def split: option.splits)
    ultimately show ?thesis by auto
  next
  qed (use Cons.prems canonical_normalized [OF Cons.prems(1)] in \<open>auto simp: merge_step [of env base overlay path] b1\<close>)
qed

lemma merged_value:
  assumes "canonical env path base" "canonical env path overlay" "ordinary (path @ p)"
    and "get_at (merge_toml_values_at_path env base overlay path) p = Some v" "as_table v = None"
  shows "get_at overlay p = Some v \<or> untouched overlay p \<and> get_at base p = Some v"
  using assms
proof (induction p arbitrary: base overlay path)
  case Nil
  then show ?case using canonical_normalized [of env path overlay]
    by (auto simp: ordinary_merge split: TomlValue.splits)
next
  case (Cons k ks)
  note norm = canonical_normalized [OF Cons.prems(2)]
  show ?case
  proof (cases "(\<exists>bt. base = TTable bt) \<and> (\<exists>ot. overlay = TTable ot)")
    case False
    then have "merge_toml_values_at_path env base overlay path = overlay"
      using norm by (auto simp: ordinary_merge [OF ordinary_snoc [OF Cons.prems(3)]] split: TomlValue.splits)
    with Cons.prems(4) show ?thesis by simp
  next
    case True
    then obtain bt ot where b: "base = TTable bt" and o: "overlay = TTable ot" by blast
    note m = merged_table [OF Cons.prems(3) Cons.prems(1) [unfolded b] Cons.prems(2) [unfolded o]]
    from Cons.prems(4) obtain w where w: "map_of (merge_tables env path bt ot) k = Some w" "get_at w ks = Some v"
      unfolding b o m(1) get_at_Cons by blast
    show ?thesis
    proof (cases "map_of ot k")
      case None
      with w show ?thesis unfolding b o get_at_Cons by (simp add: m(2))
    next
      case (Some x)
      have cx: "canonical env (path @ [k]) x" using canonical_child Cons.prems(2) o Some by blast
      show ?thesis
      proof (cases "map_of bt k")
        case None
        with Some w have "w = x" by (simp add: m(2) merge_entry_def canonical_normalized [OF cx])
        with Some w show ?thesis unfolding o get_at_Cons by blast
      next
        case (Some y)
        have cy: "canonical env (path @ [k]) y" using canonical_child Cons.prems(1) b Some by blast
        from w \<open>map_of ot k = Some x\<close> Some have "w = merge_toml_values_at_path env y x (path @ [k])"
          by (simp add: m(2) merge_entry_def)
        with Cons.IH [OF cy cx _ _ Cons.prems(5)] Cons.prems(3) w
        have "get_at x ks = Some v \<or> untouched x ks \<and> get_at y ks = Some v" by simp
        with \<open>map_of ot k = Some x\<close> Some show ?thesis unfolding b o by auto
      qed
    qed
  qed
qed

text \<open>Merging keeps configurations canonical.\<close>

lemma canonical_table_iff:
  assumes "distinct (map fst t)"
  shows "canonical env path (TTable t) \<longleftrightarrow>
    (\<forall>k w. map_of t k = Some w \<longrightarrow> key_ok env path k \<and> canonical env (path @ [k]) w)"
proof -
  have "(\<forall>kv \<in> set t. P (fst kv) (snd kv)) \<longleftrightarrow> (\<forall>k w. map_of t k = Some w \<longrightarrow> P k w)" for P
    using assms by (force dest: map_of_SomeD)
  from this [of "\<lambda>k w. key_ok env path k \<and> canonical env (path @ [k]) w"] assms show ?thesis by simp
qed

lemma canonical_subtable:
  assumes "canonical env path (TTable t)" "map_of t' \<subseteq>\<^sub>m map_of t" "distinct (map fst t')"
  shows "canonical env path (TTable t')"
proof -
  from assms(1) have "distinct (map fst t)" by simp
  from assms(1) [unfolded canonical_table_iff [OF this]] assms(2)
  show ?thesis unfolding canonical_table_iff [OF assms(3)] by (force simp: map_le_def dom_def)
qed

lemma structured_key_ok: "is_structured_feature_path path \<Longrightarrow> key_ok env path k"
  by (auto simp: is_structured_feature_path_def key_ok_def CONFIG_KEY_ALIASES_def is_network_domains_path_def
      is_shell_environment_filters_path_def lit_eval split: list.splits)

lemma canonical_representation:
  assumes "canonical env path base"
  shows "canonical env path (replace_shell_environment_policy_filter_representation base overlay path)"
proof -
  have "distinct (map fst t) \<Longrightarrow> distinct (map fst (fold AList.delete ks t)) \<and> map_of (fold AList.delete ks t) \<subseteq>\<^sub>m map_of t"
    for ks and t :: toml_table
  proof (induction ks arbitrary: t)
    case (Cons k ks)
    have "map_of (AList.delete k t) \<subseteq>\<^sub>m map_of t" by (auto simp: delete_conv' map_le_def)
    with Cons.IH [of "AList.delete k t"] Cons.prems show ?case by (auto simp: distinct_delete intro: map_le_trans)
  qed simp
  then have sub: "canonical env p (TTable t) \<Longrightarrow> canonical env p (TTable (fold AList.delete ks t))" for t ks p
    by (rule_tac t = t in canonical_subtable) auto
  show ?thesis
    using assms
    by (auto simp: replace_shell_environment_policy_filter_representation_def sub simp del: canonical.simps
        split: option.splits TomlValue.splits)
qed

lemma canonical_insert:
  assumes "canonical env path (TTable t)" "key_ok env path k" "canonical env (path @ [k]) v"
  shows "canonical env path (TTable (AList.update k v t))"
proof -
  from assms(1) have d: "distinct (map fst t)" by simp
  then have d': "distinct (map fst (AList.update k v t))" by (rule distinct_update)
  from assms(1) [unfolded canonical_table_iff [OF d]] assms(2,3)
  show ?thesis unfolding canonical_table_iff [OF d'] by (auto simp: update_conv')
qed

lemma canonical_switch:
  assumes "canonical env path base" "switch_feature path base overlay = x"
  shows "case x of Inl m \<Rightarrow> canonical env path m | Inr b \<Rightarrow> canonical env path b"
proof (cases "is_structured_feature_path path")
  case True
  with assms canonical_insert [of env path _ "lit ''enabled''"] structured_key_ok [OF True] show ?thesis
    by (auto simp: switch_feature_def enabled_table_def simp del: canonical.simps(1) split: TomlValue.splits)
      (auto simp: structured_key_ok)
qed (use assms in \<open>auto simp: switch_feature_def\<close>)

lemma retain_providers_subtable:
  assumes "distinct (map fst t)"
  shows "distinct (map fst (retain_providers env ot t)) \<and> map_of (retain_providers env ot t) \<subseteq>\<^sub>m map_of t"
proof -
  have filt: "distinct (map fst (filter P u)) \<and> map_of (filter P u) \<subseteq>\<^sub>m map_of u" if "distinct (map fst u)"
    for P and u :: toml_table
    using that by (auto simp: distinct_map_filter map_le_def dom_def dest!: map_of_SomeD)
  let ?f = "\<lambda>bt provider. case env_sources (toml_get (lit ''env'') (snd provider)) of
      None \<Rightarrow> bt | Some overlay_sources \<Rightarrow> filter (keeps_provider env ot (fst provider) overlay_sources) bt"
  have "distinct (map fst u) \<Longrightarrow> distinct (map fst (foldl ?f u ps)) \<and> map_of (foldl ?f u ps) \<subseteq>\<^sub>m map_of u" for ps u
  proof (induction ps arbitrary: u)
    case (Cons p ps)
    have "distinct (map fst (?f u p)) \<and> map_of (?f u p) \<subseteq>\<^sub>m map_of u"
      using filt [OF Cons.prems] Cons.prems by (simp split: option.split)
    with Cons.IH [of "?f u p"] show ?case by (auto intro: map_le_trans)
  qed simp
  from this [OF assms] show ?thesis by (simp add: retain_providers_def)
qed

lemma canonical_kept_base:
  assumes "canonical env path (TTable bt)"
  shows "canonical env path (TTable (kept_base env path bt ot))"
proof -
  from assms have "distinct (map fst bt)" by simp
  from retain_providers_subtable [OF this] have "canonical env path (TTable (retain_providers env t bt))" for t
    using canonical_subtable [OF assms] by blast
  with assms show ?thesis by (simp add: kept_base_def Let_def canonical_prepared [OF assms] del: canonical.simps)
qed

lemma canonical_merge_tables:
  assumes "canonical env path (TTable bt)" "canonical env path (TTable ot)"
    and "\<And>b k v. map_of ot k = Some v \<Longrightarrow> canonical env (path @ [k]) b \<Longrightarrow>
      canonical env (path @ [k]) (merge_toml_values_at_path env b v (path @ [k]))"
  shows "canonical env path (TTable (merge_tables env path bt ot))"
proof -
  from assms(1,2) have d: "distinct (map fst bt)" "distinct (map fst ot)" by simp_all
  note bt = assms(1) [unfolded canonical_table_iff [OF d(1)]] and ot = assms(2) [unfolded canonical_table_iff [OF d(2)]]
  have "canonical env (path @ [k]) (merge_entry env (path @ [k]) (map_of bt k) v)" if "map_of ot k = Some v" for k v
    using assms(3) [OF that] bt ot that canonical_normalized [of env "path @ [k]" v]
    by (auto simp: merge_entry_def split: option.splits)
  with bt ot show ?thesis
    unfolding canonical_table_iff [OF distinct_merge_tables [OF d(1)]] map_of_merge_tables [OF d(2)]
    by (auto split: option.splits)
qed

lemma canonical_merge_leaf:
  assumes "as_table v = None" "canonical env path base" "canonical env path v"
  shows "canonical env path (merge_toml_values_at_path env base v path)"
proof (cases "switch_feature path (replace_shell_environment_policy_filter_representation base v path) v")
  case (Inl m)
  from canonical_switch [OF canonical_representation [OF assms(2)] Inl] Inl assms(1) show ?thesis by (simp add: merge_leaf)
qed (simp add: merge_leaf assms canonical_normalized [OF assms(3)])

lemma canonical_merge:
  "canonical env path base \<Longrightarrow> canonical env path overlay \<Longrightarrow>
   canonical env path (merge_toml_values_at_path env base overlay path)"
proof (induction overlay arbitrary: base path)
  case (TTable ot)
  let ?s = "switch_feature path (replace_shell_environment_policy_filter_representation base (TTable ot) path) (TTable ot)"
  obtain b1 where b1: "?s = Inr b1" using switch_Inl_overlay by (cases ?s) auto
  have cb: "canonical env path b1"
    using canonical_switch [OF canonical_representation [OF TTable.prems(1)] b1] by simp
  show ?case
  proof (cases b1)
    case (TTable bt)
    have "canonical env path (TTable (merge_tables env path (kept_base env path bt ot) ot))"
    proof (rule canonical_merge_tables)
      fix b k v
      assume "map_of ot k = Some v" "canonical env (path @ [k]) b"
      with TTable.prems(2) TTable.IH [of "(k, v)" v "path @ [k]" b]
      show "canonical env (path @ [k]) (merge_toml_values_at_path env b v (path @ [k]))"
        using canonical_child by (auto dest: map_of_SomeD simp: snds.simps)
    qed (use cb TTable TTable.prems in \<open>simp_all add: canonical_kept_base del: canonical.simps\<close>)
    then show ?thesis
      using b1 TTable canonical_prepared [OF TTable.prems(2)] by (simp add: merge_step del: canonical.simps)
  qed (use TTable.prems b1 canonical_normalized [OF TTable.prems(2)] in \<open>simp_all add: merge_step del: canonical.simps\<close>)
qed (rule canonical_merge_leaf; simp)+

section \<open>Special rules\<close>

text \<open>A policy for the environment does not mix its two representations.\<close>

definition has_key :: "rstr \<Rightarrow> TomlValue \<Rightarrow> bool" where
  "has_key k v \<longleftrightarrow> toml_get k v \<noteq> None"

definition unmixed :: "TomlValue \<Rightarrow> bool" where
  "unmixed policy \<longleftrightarrow>
     \<not> (has_key (lit ''filters'') policy \<and> (has_key (lit ''exclude'') policy \<or> has_key (lit ''include_only'') policy))"

definition policy_unmixed :: "TomlValue \<Rightarrow> bool" where
  "policy_unmixed config \<longleftrightarrow>
     (case toml_get (lit ''shell_environment_policy'') config of None \<Rightarrow> True | Some policy \<Rightarrow> unmixed policy)"

fun wf_toml :: "TomlValue \<Rightarrow> bool" where
  "wf_toml (TTable t) \<longleftrightarrow> distinct (map fst t) \<and> (\<forall>kv \<in> set t. wf_toml (snd kv))"
| "wf_toml (TArray xs) \<longleftrightarrow> (\<forall>x \<in> set xs. wf_toml x)"
| "wf_toml v \<longleftrightarrow> True"

lemma plain_table_path:
  assumes "path = [] \<or> path = [lit ''shell_environment_policy''] \<or> is_structured_feature_path path"
  shows "prepare_table env path t = t" "normalize_key_aliases path t = t" "\<not> is_credentials_path path"
proof -
  have "\<forall>kv \<in> set t. key_ok env path (fst kv)"
    using assms structured_key_ok [of path env]
    by (auto simp: key_ok_def CONFIG_KEY_ALIASES_def is_network_domains_path_def is_shell_environment_filters_path_def
        lit_eval split: list.splits)
  then show n: "normalize_key_aliases path t = t" by (rule normalize_key_aliases_id)
  have "\<not> is_network_domains_path path" "\<not> is_shell_environment_filters_path path"
    using assms by (auto simp: is_network_domains_path_def is_shell_environment_filters_path_def
        is_structured_feature_path_def lit_eval split: list.splits)
  with n show "prepare_table env path t = t" by (simp add: prepare_table_def)
  show "\<not> is_credentials_path path"
    using assms by (auto simp: is_credentials_path_def is_structured_feature_path_def structured_features_def lit_eval
        split: list.splits)
qed

lemma toml_get_leaf [simp]: "as_table v = None \<Longrightarrow> toml_get k v = None"
  by (simp add: toml_get_def)

lemma toml_get_normalized:
  assumes "wf_toml v" "path = [] \<or> path = [lit ''shell_environment_policy''] \<or> is_structured_feature_path path"
  shows "toml_get k (normalized_with_key_aliases v path) =
    map_option (\<lambda>w. normalized_with_key_aliases w (path @ [k])) (toml_get k v)"
proof (cases v)
  case (TTable t)
  let ?t = "map (\<lambda>kv. (fst kv, normalized_with_key_aliases (snd kv) (path @ [fst kv]))) t"
  have dist: "distinct (map fst ?t)" using assms TTable by (simp add: comp_def)
  then have "normalized_with_key_aliases v path = TTable ?t"
    using TTable plain_table_path(2) [OF assms(2), of ?t] by (simp add: collect_table_id)
  moreover have "map_of ?t k = map_option (\<lambda>w. normalized_with_key_aliases w (path @ [k])) (map_of t k)"
    by (induction t) auto
  ultimately show ?thesis using TTable by simp
qed simp_all

lemma has_key_normalized:
  "wf_toml v \<Longrightarrow> path = [] \<or> path = [lit ''shell_environment_policy''] \<or> is_structured_feature_path path \<Longrightarrow>
   has_key k (normalized_with_key_aliases v path) = has_key k v"
  by (simp add: has_key_def toml_get_normalized)

lemma unmixed_normalized: "wf_toml p \<Longrightarrow> unmixed (normalized_with_key_aliases p [lit ''shell_environment_policy'']) = unmixed p"
  by (simp add: unmixed_def has_key_normalized)

lemma wf_toml_child: "wf_toml v \<Longrightarrow> toml_get k v = Some w \<Longrightarrow> wf_toml w"
  by (cases v) (fastforce dest: map_of_SomeD)+

lemma policy_path [simp]: "\<not> is_structured_feature_path [lit ''shell_environment_policy'']"
  by (simp add: is_structured_feature_path_def)

lemma map_of_fold_delete: "map_of (fold AList.delete ks t) k = (if k \<in> set ks then None else map_of t k)"
  by (induction ks arbitrary: t) (auto simp: delete_conv')

lemma has_key_merged:
  assumes "wf_toml overlay"
  shows "has_key k (merge_toml_values_at_path env base overlay [lit ''shell_environment_policy'']) \<longleftrightarrow>
    has_key k overlay \<or> as_table overlay \<noteq> None \<and> has_key k base \<and>
      (case from_policy overlay of Some r \<Rightarrow> k \<notin> set (displaced_fields r) | None \<Rightarrow> True)"
proof (cases "(\<exists>bt. base = TTable bt) \<and> (\<exists>ot. overlay = TTable ot)")
  case False
  then have "merge_toml_values_at_path env base overlay [lit ''shell_environment_policy''] =
      normalized_with_key_aliases overlay [lit ''shell_environment_policy'']"
    by (auto simp: merge_step [of env base overlay] switch_feature_def
        replace_shell_environment_policy_filter_representation_def split: TomlValue.splits option.splits)
  then have "has_key k (merge_toml_values_at_path env base overlay [lit ''shell_environment_policy'']) = has_key k overlay"
    using has_key_normalized [OF assms] by simp
  moreover have "\<not> (as_table overlay \<noteq> None \<and> has_key k base)" using False by (cases overlay; cases base) (auto simp: has_key_def)
  ultimately show ?thesis by blast
next
  case True
  then obtain bt ot where b: "base = TTable bt" and o: "overlay = TTable ot" by blast
  let ?path = "[lit ''shell_environment_policy'']"
  define bt1 where "bt1 = (case from_policy overlay of Some r \<Rightarrow> fold AList.delete (displaced_fields r) bt | None \<Rightarrow> bt)"
  have "merge_toml_values_at_path env base overlay ?path = TTable (merge_tables env ?path bt1 ot)"
    unfolding b o bt1_def
    by (simp add: merge_step [of env "TTable bt" "TTable ot"] kept_base_def Let_def plain_table_path
        replace_shell_environment_policy_filter_representation_def split: option.splits)
  with assms o show ?thesis
    by (simp add: has_key_def map_of_merge_tables bt1_def b map_of_fold_delete split: option.splits)
qed

lemma merge_unmixed:
  assumes "wf_toml overlay" "unmixed base" "unmixed overlay"
  shows "unmixed (merge_toml_values_at_path env base overlay [lit ''shell_environment_policy''])"
proof -
  have from_policy: "from_policy overlay =
      (if has_key (lit ''filters'') overlay then Some Filters
       else if has_key (lit ''exclude'') overlay \<or> has_key (lit ''include_only'') overlay then Some Legacy else None)"
    by (cases overlay) (auto simp: from_policy_def has_key_def)
  have "lit ''filters'' \<notin> set (displaced_fields Filters)" by (simp add: lit_eval)
  then show ?thesis
    using assms(2,3) unfolding unmixed_def has_key_merged [OF assms(1)] from_policy by (auto simp: has_key_def)
qed

lemma merge_policy_unmixed:
  assumes "wf_toml overlay" "policy_unmixed base" "policy_unmixed overlay"
  shows "policy_unmixed (merge_toml_values env base overlay)"
proof (cases "(\<exists>bt. base = TTable bt) \<and> (\<exists>ot. overlay = TTable ot)")
  case False
  then have "merge_toml_values env base overlay = normalized_with_key_aliases overlay []"
    by (auto simp: merge_toml_values_def ordinary_merge split: TomlValue.splits)
  then show ?thesis
    using assms(3) wf_toml_child [OF assms(1)]
    by (auto simp: policy_unmixed_def toml_get_normalized [OF assms(1)] unmixed_normalized split: option.splits)
next
  case True
  then obtain bt ot where b: "base = TTable bt" and o: "overlay = TTable ot" by blast
  have m: "merge_toml_values env (TTable bt) (TTable ot) = TTable (merge_tables env [] bt ot)"
    by (simp add: merge_toml_values_def ordinary_merge plain_table_path)
  have entry: "unmixed (merge_entry env [lit ''shell_environment_policy''] (map_of bt (lit ''shell_environment_policy'')) p)"
    if p: "map_of ot (lit ''shell_environment_policy'') = Some p" for p
  proof -
    from wf_toml_child [OF assms(1)] p o have "wf_toml p" by simp
    with assms(2,3) p show ?thesis
      by (cases "map_of bt (lit ''shell_environment_policy'')")
        (auto simp: policy_unmixed_def b o merge_entry_def merge_unmixed unmixed_normalized)
  qed
  with assms o show ?thesis
    by (auto simp: policy_unmixed_def m b map_of_merge_tables split: option.splits)
qed

text \<open>
  Whether a structured feature is on: its value is a switch, or a table of settings in which the switch
  is a setting.
\<close>

definition enabled_of :: "TomlValue \<Rightarrow> bool option" where
  "enabled_of feature =
     (case feature of
        TBoolean b \<Rightarrow> Some b
      | TTable t \<Rightarrow> (case map_of t (lit ''enabled'') of Some (TBoolean b) \<Rightarrow> Some b | _ \<Rightarrow> None)
      | _ \<Rightarrow> None)"

definition feature_value :: "TomlValue \<Rightarrow> bool" where
  "feature_value v \<longleftrightarrow>
     (case v of
        TBoolean b \<Rightarrow> True
      | TTable t \<Rightarrow> distinct (map fst t) \<and> (\<forall>x. map_of t (lit ''enabled'') = Some x \<longrightarrow> (\<exists>b. x = TBoolean b))
      | _ \<Rightarrow> False)"

lemma structured_path_facts:
  assumes "is_structured_feature_path path"
  shows "path \<noteq> [lit ''shell_environment_policy'']" "\<not> is_structured_feature_path (path @ [k])"
    "path @ [k] \<noteq> [lit ''shell_environment_policy'']"
  using assms by (auto simp: is_structured_feature_path_def lit_eval split: list.splits)

lemma merge_at_switch:
  assumes "is_structured_feature_path path"
  shows "merge_toml_values_at_path env v (TBoolean c) (path @ [k]) = TBoolean c"
  using structured_path_facts [OF assms] by (simp add: merge_leaf switch_feature_def)

lemma feature_merge_table:
  assumes "is_structured_feature_path path"
  shows "merge_toml_values_at_path env (TTable bt) (TTable ot) path = TTable (merge_tables env path bt ot)"
    "merge_toml_values_at_path env (TBoolean b) (TTable ot) path = TTable (merge_tables env path (enabled_table b) ot)"
    "merge_toml_values_at_path env (TTable bt) (TBoolean c) path = TTable (AList.update (lit ''enabled'') (TBoolean c) bt)"
    "merge_toml_values_at_path env (TBoolean b) (TBoolean c) path = TBoolean c"
  using assms structured_path_facts [OF assms]
  by (simp_all add: merge_step switch_feature_def kept_base_def Let_def plain_table_path
      replace_shell_environment_policy_filter_representation_def)

lemma enabled_merge_tables:
  assumes "is_structured_feature_path path" "distinct (map fst ot)"
    and "\<forall>x. map_of ot (lit ''enabled'') = Some x \<longrightarrow> (\<exists>b. x = TBoolean b)"
  shows "enabled_of (TTable (merge_tables env path bt ot)) =
    (case enabled_of (TTable ot) of Some b \<Rightarrow> Some b | None \<Rightarrow> enabled_of (TTable bt))"
proof (cases "map_of ot (lit ''enabled'')")
  case (Some x)
  with assms(3) obtain c where "x = TBoolean c" by blast
  with Some show ?thesis
    by (simp add: enabled_of_def map_of_merge_tables [OF assms(2)] merge_entry_def merge_at_switch [OF assms(1)]
        split: option.split)
qed (simp add: enabled_of_def map_of_merge_tables [OF assms(2)])

lemma enabled_of_switch:
  "enabled_of (TBoolean b) = Some b" "enabled_of (TTable (enabled_table b)) = Some b"
  "enabled_of (TTable (AList.update (lit ''enabled'') (TBoolean b) t)) = Some b"
  by (simp_all add: enabled_of_def enabled_table_def update_conv')

lemma enabled_merge:
  assumes "is_structured_feature_path path" "feature_value base" "feature_value overlay"
  shows "enabled_of (merge_toml_values_at_path env base overlay path) =
    (case enabled_of overlay of Some b \<Rightarrow> Some b | None \<Rightarrow> enabled_of base)"
  using assms(2,3) enabled_merge_tables [OF assms(1)]
  by (cases base; cases overlay) (auto simp: feature_merge_table [OF assms(1)] feature_value_def enabled_of_switch split: option.split)

lemma settings_kept:
  assumes "is_structured_feature_path path" "k \<noteq> lit ''enabled''"
  shows "toml_get k (merge_toml_values_at_path env (TTable bt) (TBoolean c) path) = map_of bt k"
    "map_of ot k = None \<Longrightarrow> distinct (map fst ot) \<Longrightarrow>
      toml_get k (merge_toml_values_at_path env (TTable bt) (TTable ot) path) = map_of bt k"
  using assms by (simp_all add: feature_merge_table update_conv' map_of_merge_tables)

text \<open>The permission of a host: the last spelling of the higher layer, or else the last of the lower one.\<close>

definition spelled :: "toml_table \<Rightarrow> rstr \<rightharpoonup> TomlValue" where
  "spelled t host = map_of (rev (map (\<lambda>kv. (normalize_host (fst kv), snd kv)) t)) host"

lemma domains_path_facts:
  assumes "is_network_domains_path path"
  shows "\<not> is_structured_feature_path path" "\<not> is_credentials_path path" "\<not> is_shell_environment_filters_path path"
    "path \<noteq> [lit ''shell_environment_policy'']" "normalize_key_aliases path t = t"
    "\<not> is_structured_feature_path (path @ [k])" "path @ [k] \<noteq> [lit ''shell_environment_policy'']"
  using assms by (auto simp: is_structured_feature_path_def is_credentials_path_def is_network_domains_path_def lit_eval
      is_shell_environment_filters_path_def normalize_key_aliases_def CONFIG_KEY_ALIASES_def split: list.splits)

lemma merge_domains:
  assumes "is_network_domains_path path" "\<forall>kv \<in> set ot. \<exists>s. snd kv = TString s"
  shows "toml_get host (merge_toml_values_at_path env (TTable bt) (TTable ot) path) =
    (case spelled ot host of Some v \<Rightarrow> Some v | None \<Rightarrow> spelled bt host)"
proof -
  note facts = domains_path_facts [OF assms(1)]
  have prep: "prepare_table env path t = normalize_network_domain_keys t" for t
    using assms(1) facts by (simp add: prepare_table_def)
  have look: "map_of (normalize_network_domain_keys t) host = spelled t host" for t
    by (simp add: normalize_network_domain_keys_def map_of_collect spelled_def)
  have str: "\<exists>s. v = TString s" if "spelled ot host = Some v" for v
    using that assms(2) by (fastforce simp: spelled_def dest!: map_of_SomeD)
  have "distinct (map fst (normalize_network_domain_keys ot))"
    by (simp add: normalize_network_domain_keys_def distinct_collect_table)
  then show ?thesis
    using facts str
    by (auto simp: merge_step [of env "TTable bt" "TTable ot"] switch_feature_def kept_base_def prep look Let_def map_of_merge_tables
        replace_shell_environment_policy_filter_representation_def merge_entry_def merge_leaf split: option.split)
qed

section \<open>Overrides\<close>

lemma override_reads:
  "segments \<noteq> [] \<Longrightarrow> \<not> is_structured_feature_path (traversed @ segments) \<Longrightarrow>
   get_at (override_at env current traversed segments v) segments = Some v"
  by (induction env current traversed segments v rule: override_at.induct)
    (auto simp: set_last_segment_def update_conv' split: TomlValue.splits)

lemma set_last_segment_other: "k \<noteq> segment \<Longrightarrow> map_of (set_last_segment env table traversed segment v) k = map_of table k"
  by (auto simp: set_last_segment_def update_conv' split: option.split TomlValue.split)

lemma override_keeps:
  "get_at current p = Some w \<Longrightarrow> \<not> prefix segments p \<Longrightarrow> \<not> prefix p segments \<Longrightarrow>
   get_at (override_at env current traversed segments v) p = Some w"
proof (induction env current traversed segments v arbitrary: p rule: override_at.induct)
  case (2 env current traversed segment v)
  then obtain k ks where "p = k # ks" by (cases p) auto
  with 2 show ?case by (cases current) (auto simp: set_last_segment_other)
next
  case (3 env current traversed segment s segments v)
  then obtain k ks where p: "p = k # ks" by (cases p) auto
  then obtain t x where c: "current = TTable t" "map_of t k = Some x" "get_at x ks = Some w"
    using "3.prems"(1) unfolding p get_at_Cons by blast
  show ?case
  proof (cases "k = segment")
    case True
    then obtain j js where ks: "ks = j # js" using "3.prems" p by (cases ks) auto
    with c have "\<exists>t. x = TTable t" by (auto simp: get_at_Cons simp del: get_at.simps)
    then have "enter_segment t (traversed @ [segment]) segment = x"
      using c True by (auto simp: enter_segment_def)
    with "3.IH"(7) [OF c(1), of ks] c True p "3.prems" show ?thesis by (simp add: update_conv')
  qed (use c p in \<open>simp add: update_conv'\<close>)
qed simp

section \<open>Properties\<close>

definition unix_env :: merge_env where
  "unix_env = \<lparr>lowercase = to_ascii_lowercase, windows = False\<rparr>"

definition domains_config :: "toml_table \<Rightarrow> TomlValue" where
  "domains_config domains =
     TTable [(lit ''permissions'', TTable [(lit ''p'', TTable [(lit ''network'', TTable [(lit ''domains'', TTable domains)])])])]"

definition credentials_config :: "rstr \<Rightarrow> TomlValue" where
  "credentials_config provider =
     TTable [(lit ''credentials'', TTable [(provider, TTable [(lit ''env'', TArray [TString (lit ''X'')])])])]"

definition proxy_config :: "TomlValue \<Rightarrow> TomlValue" where
  "proxy_config v = TTable [(lit ''features'', TTable [(lit ''network_proxy'', v)])]"

text \<open>
  The switch of a feature: after a merge a structured feature is on or off as the higher layer says, if
  it says so, and as the lower layer says otherwise, whether they write a switch or a table of settings;
  and a switch that is laid over a table of settings keeps every other setting.
\<close>

theorem feature_switch_merge:
  assumes "is_structured_feature_path path" "feature_value base" "feature_value overlay"
  shows "enabled_of (merge_toml_values_at_path env base overlay path) =
      (case enabled_of overlay of Some b \<Rightarrow> Some b | None \<Rightarrow> enabled_of base) \<and>
    (\<forall>k bt c. base = TTable bt \<longrightarrow> overlay = TBoolean c \<longrightarrow> k \<noteq> lit ''enabled'' \<longrightarrow>
      toml_get k (merge_toml_values_at_path env base overlay path) = map_of bt k)"
  using enabled_merge [OF assms] settings_kept(1) [OF assms(1)] by simp

theorem feature_switch_merge_witness:
  "enabled_of (merge_toml_values_at_path unix_env (credentials_config (lit ''a'')) (TBoolean False)
     [lit ''features'', lit ''network_proxy'']) = Some False"
proof -
  have "is_structured_feature_path [lit ''features'', lit ''network_proxy'']" "feature_value (credentials_config (lit ''a''))"
    "feature_value (TBoolean False)"
    by (simp_all add: is_structured_feature_path_def structured_features_def feature_value_def credentials_config_def lit_eval)
  from conjunct1 [OF feature_switch_merge [OF this, of unix_env]] show ?thesis by (simp add: enabled_of_def)
qed

text \<open>
  The permission of a network domain after a merge is the one that the higher layer gives the host,
  however it spells it, and that of the lower layer only if the higher one does not name the host.
\<close>

theorem merged_domain_permission:
  assumes "is_network_domains_path path" "\<forall>kv \<in> set overlay. \<exists>s. snd kv = TString s"
  shows "toml_get host (merge_toml_values_at_path env (TTable base) (TTable overlay) path) =
    (case spelled overlay host of Some v \<Rightarrow> Some v | None \<Rightarrow> spelled base host)"
  by (rule merge_domains [OF assms])

theorem merged_domain_permission_witness:
  "toml_get (lit ''example.com'') (merge_toml_values_at_path unix_env (TTable [(lit ''example.com'', TString (lit ''allow''))])
     (TTable [(lit ''EXAMPLE.com.'', TString (lit ''deny''))])
     [lit ''permissions'', lit ''p'', lit ''network'', lit ''domains'']) = Some (TString (lit ''deny''))"
proof -
  have 1: "is_network_domains_path [lit ''permissions'', lit ''p'', lit ''network'', lit ''domains'']"
    by (simp add: is_network_domains_path_def)
  have 2: "\<forall>kv \<in> set [(lit ''EXAMPLE.com.'', TString (lit ''deny''))]. \<exists>s. snd kv = TString s" by simp
  have "spelled [(lit ''EXAMPLE.com.'', TString (lit ''deny''))] (lit ''example.com'') = Some (TString (lit ''deny''))"
    by code_simp
  then show ?thesis unfolding merged_domain_permission [OF 1 2] by simp
qed


text \<open>
  Between layers, a provider of credentials takes over the variables of others; between overrides of the
  command line it does not, since they are merged without the path they stand at.
\<close>

theorem cli_overrides_keep_other_provider:
  "let a = credentials_config (lit ''a''); b = credentials_config (lit ''b'');
       path = [lit ''features'', lit ''network_proxy'', lit ''credentials'', lit ''a''];
       cli = build_cli_overrides_layer unix_env [(lit ''features.network_proxy'', a), (lit ''features.network_proxy'', b)];
       layers = merge_toml_values unix_env (proxy_config a) (proxy_config b)
   in get_at layers path = None \<and> get_at cli path \<noteq> None"
  by code_simp
end
