(* ===== verification/Config_Layers.thy ===== *)
theory Config_Layers
  imports Config_Merge Absolute_Path "HOL-Library.List_Lexorder"
begin

text \<open>
  \<open>config/src/state.rs\<close>, \<open>config_layer_source.rs\<close>, \<open>fingerprint.rs\<close> and the validation of
  \<open>shell_environment_policy.rs\<close>: the stack of configuration layers, what it amounts to, and which layer
  each value comes from.

  The record \<open>layer_lib\<close> holds what \<open>serde_json\<close>, \<open>sha2\<close> and the deserializer of \<open>toml\<close> compute. The
  requirements of an administrator are values of any type, except for the model providers they require,
  which the stack gets as a TOML value. The configuration of a layer is a table, as TOML documents are.
  An \<open>io::Error\<close> of kind \<open>InvalidData\<close> is its message.
\<close>

section \<open>Layers\<close>

definition CONFIG_TOML_FILE :: rstr where
  "CONFIG_TOML_FILE = lit ''config.toml''"

datatype ConfigLayerSource =
    PackagedDefaults path_buf
  | Mdm rstr rstr
  | System path_buf
  | EnterpriseManaged rstr rstr
  | User path_buf "rstr option"
  | Project path_buf
  | SessionFlags
  | LegacyManagedConfigTomlFromFile path_buf
  | LegacyManagedConfigTomlFromMdm

fun precedence :: "ConfigLayerSource \<Rightarrow> int" where
  "precedence (PackagedDefaults file) = -10"
| "precedence (Mdm domain key) = 0"
| "precedence (System file) = 10"
| "precedence (EnterpriseManaged ident name) = 15"
| "precedence (User file profile) = (if profile \<noteq> None then 21 else 20)"
| "precedence (Project dot_codex_folder) = 25"
| "precedence SessionFlags = 30"
| "precedence (LegacyManagedConfigTomlFromFile file) = 40"
| "precedence LegacyManagedConfigTomlFromMdm = 50"

fun format_config_layer_source :: "ConfigLayerSource \<Rightarrow> rstr \<Rightarrow> rstr" where
  "format_config_layer_source (PackagedDefaults file) _ = lit ''packaged defaults ('' @ path_string file @ lit '')''"
| "format_config_layer_source (Mdm domain key) _ = lit ''MDM ('' @ domain @ lit '':'' @ key @ lit '')''"
| "format_config_layer_source (System file) _ = lit ''system ('' @ path_string file @ lit '')''"
| "format_config_layer_source (EnterpriseManaged ident name) _ =
     lit ''enterprise-managed ('' @ name @ lit '', '' @ ident @ lit '')''"
| "format_config_layer_source (User file profile) _ = lit ''user ('' @ path_string file @ lit '')''"
| "format_config_layer_source (Project dot_codex_folder) config_toml_file =
     lit ''project ('' @ path_string dot_codex_folder @ lit ''/'' @ config_toml_file @ lit '')''"
| "format_config_layer_source SessionFlags _ = lit ''session-flags''"
| "format_config_layer_source (LegacyManagedConfigTomlFromFile file) _ =
     lit ''legacy managed_config.toml ('' @ path_string file @ lit '')''"
| "format_config_layer_source LegacyManagedConfigTomlFromMdm _ = lit ''legacy managed_config.toml (MDM)''"

record ConfigLayerMetadata =
  md_name :: ConfigLayerSource
  md_version :: rstr

record RawTomlLayer =
  raw_contents :: rstr
  raw_base_dir :: path_buf

record ConfigLayerEntry =
  le_name :: ConfigLayerSource
  le_config :: TomlValue
  le_version :: rstr
  le_disabled_reason :: "rstr option"
  le_raw_toml :: "RawTomlLayer option"
  le_hooks_config_folder_override :: "path_buf option"

datatype JsonValue =
    JNull
  | JBool bool
  | JNumber rstr
  | JString rstr
  | JArray "JsonValue list"
  | JObject "(rstr \<times> JsonValue) list"

datatype ShellEnvironmentPolicyFilter = Include | Exclude

datatype filter_error = FieldType | MixedRepresentations | DuplicateFilter rstr

record layer_lib =
  to_json :: "TomlValue \<Rightarrow> JsonValue option"
  json_to_vec :: "JsonValue \<Rightarrow> nat list option"
  sha256_hex :: "nat list \<Rightarrow> rstr"
  read_filter :: "TomlValue \<Rightarrow> ShellEnvironmentPolicyFilter option"
  de_error_text :: "filter_error \<Rightarrow> rstr"

section \<open>Versions\<close>

lemma size_object_entry [termination_simp]:
  "kv \<in> set t \<Longrightarrow> size (snd kv) < Suc (size_list (size_prod (\<lambda>_. 0) size) t)"
  by (induction t) auto

fun canonical_json :: "JsonValue \<Rightarrow> JsonValue" where
  "canonical_json (JObject m) =
     (let values = map (\<lambda>kv. (fst kv, canonical_json (snd kv))) m in
      JObject (foldl (\<lambda>s k. case map_of values k of Some v \<Rightarrow> AList.update k v s | None \<Rightarrow> s) [] (sort (map fst m))))"
| "canonical_json (JArray items) = JArray (map canonical_json items)"
| "canonical_json other = other"

definition version_for_toml :: "layer_lib \<Rightarrow> TomlValue \<Rightarrow> rstr" where
  "version_for_toml lb v =
     (let json = (case to_json lb v of Some j \<Rightarrow> j | None \<Rightarrow> JNull);
          serialized = (case json_to_vec lb (canonical_json json) of Some bytes \<Rightarrow> bytes | None \<Rightarrow> [])
      in lit ''sha256:'' @ sha256_hex lb serialized)"

section \<open>Entries\<close>

definition entry_new :: "layer_lib \<Rightarrow> ConfigLayerSource \<Rightarrow> TomlValue \<Rightarrow> ConfigLayerEntry" where
  "entry_new lb name config =
     \<lparr>le_name = name, le_config = config, le_version = version_for_toml lb config, le_disabled_reason = None,
      le_raw_toml = None, le_hooks_config_folder_override = None\<rparr>"

definition new_with_raw_toml :: "layer_lib \<Rightarrow> ConfigLayerSource \<Rightarrow> TomlValue \<Rightarrow> rstr \<Rightarrow> path_buf \<Rightarrow> ConfigLayerEntry" where
  "new_with_raw_toml lb name config raw_toml raw_toml_base_dir =
     (entry_new lb name config)\<lparr>le_raw_toml := Some \<lparr>raw_contents = raw_toml, raw_base_dir = raw_toml_base_dir\<rparr>\<rparr>"

definition new_disabled :: "layer_lib \<Rightarrow> ConfigLayerSource \<Rightarrow> TomlValue \<Rightarrow> rstr \<Rightarrow> ConfigLayerEntry" where
  "new_disabled lb name config disabled_reason = (entry_new lb name config)\<lparr>le_disabled_reason := Some disabled_reason\<rparr>"

definition is_disabled :: "ConfigLayerEntry \<Rightarrow> bool" where
  "is_disabled layer \<longleftrightarrow> le_disabled_reason layer \<noteq> None"

definition raw_toml :: "ConfigLayerEntry \<Rightarrow> rstr option" where
  "raw_toml layer = map_option raw_contents (le_raw_toml layer)"

definition raw_toml_base_dir :: "ConfigLayerEntry \<Rightarrow> path_buf option" where
  "raw_toml_base_dir layer = map_option raw_base_dir (le_raw_toml layer)"

definition with_hooks_config_folder_override :: "ConfigLayerEntry \<Rightarrow> path_buf option \<Rightarrow> ConfigLayerEntry" where
  "with_hooks_config_folder_override layer folder = layer\<lparr>le_hooks_config_folder_override := folder\<rparr>"

definition metadata :: "ConfigLayerEntry \<Rightarrow> ConfigLayerMetadata" where
  "metadata layer = \<lparr>md_name = le_name layer, md_version = le_version layer\<rparr>"

record ConfigLayer =
  cl_name :: ConfigLayerSource
  cl_version :: rstr
  cl_config :: JsonValue
  cl_disabled_reason :: "rstr option"

definition as_layer :: "layer_lib \<Rightarrow> ConfigLayerEntry \<Rightarrow> ConfigLayer" where
  "as_layer lb layer =
     \<lparr>cl_name = le_name layer, cl_version = le_version layer,
      cl_config = (case to_json lb (le_config layer) of Some j \<Rightarrow> j | None \<Rightarrow> JNull),
      cl_disabled_reason = le_disabled_reason layer\<rparr>"

definition path_parent :: "path_buf \<Rightarrow> path_buf option" where
  "path_parent p = (if p = [] \<or> last p = RootDir then None else Some (butlast p))"

function path_ancestors :: "path_buf \<Rightarrow> path_buf list" where
  "path_ancestors p = p # (case path_parent p of None \<Rightarrow> [] | Some q \<Rightarrow> path_ancestors q)"
  by pat_completeness auto

termination
  by (relation "measure length") (auto simp: path_parent_def split: if_splits)

declare path_ancestors.simps [simp del]

fun source_folder :: "ConfigLayerSource \<Rightarrow> path_buf option" where
  "source_folder (System file) = path_parent file"
| "source_folder (User file profile) = path_parent file"
| "source_folder (Project dot_codex_folder) = Some dot_codex_folder"
| "source_folder _ = None"

definition config_folder :: "ConfigLayerEntry \<Rightarrow> path_buf option" where
  "config_folder layer = source_folder (le_name layer)"

definition hooks_config_folder :: "ConfigLayerEntry \<Rightarrow> path_buf option" where
  "hooks_config_folder layer =
     (case le_hooks_config_folder_override layer of Some folder \<Rightarrow> Some folder | None \<Rightarrow> config_folder layer)"

fun is_user :: "ConfigLayerSource \<Rightarrow> bool" where
  "is_user (User file profile) = True"
| "is_user _ = False"

section \<open>Validation\<close>

definition string_list :: "TomlValue \<Rightarrow> bool" where
  "string_list v = (case as_array v of Some xs \<Rightarrow> list_all (\<lambda>x. toml_as_str x \<noteq> None) xs | None \<Rightarrow> False)"

definition filter_table :: "layer_lib \<Rightarrow> TomlValue \<Rightarrow> bool" where
  "filter_table lb v = (case as_table v of Some t \<Rightarrow> list_all (\<lambda>kv. read_filter lb (snd kv) \<noteq> None) t | None \<Rightarrow> False)"

fun duplicate_filter :: "merge_env \<Rightarrow> rstr set \<Rightarrow> rstr list \<Rightarrow> rstr option" where
  "duplicate_filter env seen [] = None"
| "duplicate_filter env seen (pattern # patterns) =
     (if lowercase env pattern \<in> seen then Some pattern
      else duplicate_filter env (insert (lowercase env pattern) seen) patterns)"

text \<open>Reading the three filter fields of a policy, with the checks of the \<open>Deserialize\<close> implementation.\<close>

definition read_filter_fields :: "merge_env \<Rightarrow> layer_lib \<Rightarrow> toml_table \<Rightarrow> filter_error option" where
  "read_filter_fields env lb policy =
     (let exclude = map_of policy (lit ''exclude'');
          include_only = map_of policy (lit ''include_only'');
          filters = map_of policy (lit ''filters'')
      in if \<not> (case exclude of Some v \<Rightarrow> string_list v | None \<Rightarrow> True) \<or>
            \<not> (case include_only of Some v \<Rightarrow> string_list v | None \<Rightarrow> True) \<or>
            \<not> (case filters of Some v \<Rightarrow> filter_table lb v | None \<Rightarrow> True)
         then Some FieldType
         else if filters \<noteq> None \<and> (exclude \<noteq> None \<or> include_only \<noteq> None) then Some MixedRepresentations
         else
           (case Option.bind filters as_table of
              Some t \<Rightarrow> map_option DuplicateFilter (duplicate_filter env {} (sort (map fst t)))
            | None \<Rightarrow> None))"

definition validate_shell_environment_policy_filter_config :: "merge_env \<Rightarrow> layer_lib \<Rightarrow> TomlValue \<Rightarrow> filter_error + unit" where
  "validate_shell_environment_policy_filter_config env lb v =
     (case Option.bind (toml_get (lit ''shell_environment_policy'') v) as_table of
        None \<Rightarrow> Ok ()
      | Some policy \<Rightarrow> (case read_filter_fields env lb policy of Some e \<Rightarrow> Err e | None \<Rightarrow> Ok ()))"

fun validate_enabled_config_layers :: "merge_env \<Rightarrow> layer_lib \<Rightarrow> ConfigLayerEntry list \<Rightarrow> rstr + unit" where
  "validate_enabled_config_layers env lb [] = Ok ()"
| "validate_enabled_config_layers env lb (layer # layers) =
     (if is_disabled layer then validate_enabled_config_layers env lb layers
      else
        (case validate_shell_environment_policy_filter_config env lb (le_config layer) of
           Err e \<Rightarrow> Err (lit ''invalid shell environment policy in '' @
             format_config_layer_source (le_name layer) CONFIG_TOML_FILE @ lit '': '' @ de_error_text lb e)
         | Ok _ \<Rightarrow> validate_enabled_config_layers env lb layers))"

fun sorted_by_precedence :: "ConfigLayerSource list \<Rightarrow> bool" where
  "sorted_by_precedence (a # b # names) \<longleftrightarrow> precedence a \<le> precedence b \<and> sorted_by_precedence (b # names)"
| "sorted_by_precedence _ \<longleftrightarrow> True"

fun project_loop :: "path_buf option \<Rightarrow> ConfigLayerSource list \<Rightarrow> rstr + unit" where
  "project_loop previous [] = Ok ()"
| "project_loop previous (Project current # names) =
     (case previous of
        None \<Rightarrow> project_loop (Some current) names
      | Some prev \<Rightarrow>
          (case path_parent prev of
             None \<Rightarrow> Err (lit ''project layer has no parent directory'')
           | Some parent \<Rightarrow>
               if prev = current \<or> parent \<notin> set (path_ancestors current)
               then Err (lit ''project layers are not ordered from root to cwd'')
               else project_loop (Some current) names))"
| "project_loop previous (_ # names) = project_loop previous names"

definition verify_layer_ordering :: "ConfigLayerEntry list \<Rightarrow> rstr + unit" where
  "verify_layer_ordering layers =
     (if \<not> sorted_by_precedence (map le_name layers) then Err (lit ''config layers are not in correct precedence order'')
      else project_loop None (map le_name layers))"

section \<open>The stack\<close>

record ('r, 'rt) ConfigLayerStack =
  st_model_provider_requirements :: "TomlValue option"
  st_layers :: "ConfigLayerEntry list"
  st_requirements :: 'r
  st_requirements_toml :: 'rt
  st_ignore_exec_policy_rules :: bool
  st_startup_warnings :: "rstr list option"

text \<open>\<open>ConfigLayerStack::new\<close>; \<open>to_config\<close> is \<open>model_provider_requirements::to_config\<close>.\<close>

definition stack_new ::
    "merge_env \<Rightarrow> layer_lib \<Rightarrow> ('rt \<Rightarrow> rstr + TomlValue) \<Rightarrow> ConfigLayerEntry list \<Rightarrow> 'r \<Rightarrow> 'rt \<Rightarrow> rstr + ('r, 'rt) ConfigLayerStack" where
  "stack_new env lb to_config layers requirements requirements_toml =
     (case validate_enabled_config_layers env lb layers of
        Err e \<Rightarrow> Err e
      | Ok _ \<Rightarrow>
          (case verify_layer_ordering layers of
             Err e \<Rightarrow> Err e
           | Ok _ \<Rightarrow>
               (case to_config requirements_toml of
                  Err e \<Rightarrow> Err e
                | Ok providers \<Rightarrow>
                    Ok \<lparr>st_model_provider_requirements = Some providers, st_layers = layers, st_requirements = requirements,
                        st_requirements_toml = requirements_toml, st_ignore_exec_policy_rules = False,
                        st_startup_warnings = None\<rparr>)))"

definition with_user_and_project_exec_policy_rules_ignored :: "bool \<Rightarrow> ('r, 'rt) ConfigLayerStack \<Rightarrow> ('r, 'rt) ConfigLayerStack" where
  "with_user_and_project_exec_policy_rules_ignored ignored st = st\<lparr>st_ignore_exec_policy_rules := ignored\<rparr>"

definition with_startup_warnings :: "rstr list \<Rightarrow> ('r, 'rt) ConfigLayerStack \<Rightarrow> ('r, 'rt) ConfigLayerStack" where
  "with_startup_warnings warnings st = st\<lparr>st_startup_warnings := Some warnings\<rparr>"

definition layers_low_to_high :: "('r, 'rt) ConfigLayerStack \<Rightarrow> ConfigLayerEntry list" where
  "layers_low_to_high st = filter (\<lambda>layer. \<not> is_disabled layer) (st_layers st)"

definition layers_high_to_low :: "('r, 'rt) ConfigLayerStack \<Rightarrow> ConfigLayerEntry list" where
  "layers_high_to_low st = rev (layers_low_to_high st)"

definition all_layers_high_to_low :: "('r, 'rt) ConfigLayerStack \<Rightarrow> ConfigLayerEntry list" where
  "all_layers_high_to_low st = rev (st_layers st)"

definition get_active_user_layer :: "('r, 'rt) ConfigLayerStack \<Rightarrow> ConfigLayerEntry option" where
  "get_active_user_layer st = find (\<lambda>layer. is_user (le_name layer)) (rev (st_layers st))"

definition get_user_config_file :: "('r, 'rt) ConfigLayerStack \<Rightarrow> path_buf option" where
  "get_user_config_file st =
     (case get_active_user_layer st of
        None \<Rightarrow> None
      | Some layer \<Rightarrow> (case le_name layer of User file _ \<Rightarrow> Some file | _ \<Rightarrow> None))"

definition merge_layers :: "merge_env \<Rightarrow> ConfigLayerEntry list \<Rightarrow> TomlValue" where
  "merge_layers env layers = foldl (\<lambda>merged layer. merge_toml_values env merged (le_config layer)) (TTable []) layers"

definition effective_user_config :: "merge_env \<Rightarrow> ('r, 'rt) ConfigLayerStack \<Rightarrow> TomlValue option" where
  "effective_user_config env st =
     (let user_layers = filter (\<lambda>layer. is_user (le_name layer)) (layers_low_to_high st) in
      if user_layers = [] then None else Some (merge_layers env user_layers))"

text \<open>\<open>model_provider_requirements::apply\<close>: a required provider replaces the whole entry of that name.\<close>

definition apply_model_providers :: "TomlValue \<Rightarrow> TomlValue \<Rightarrow> TomlValue" where
  "apply_model_providers config requirements =
     (case (config, Option.bind (toml_get (lit ''model_providers'') requirements) as_table) of
        (TTable t, Some required) \<Rightarrow>
          (let providers = (case map_of t (lit ''model_providers'') of Some (TTable p) \<Rightarrow> p | _ \<Rightarrow> []) in
           TTable (AList.update (lit ''model_providers'')
             (TTable (foldl (\<lambda>p kv. AList.update (fst kv) (snd kv) p) providers required)) t))
      | _ \<Rightarrow> config)"

definition effective_config :: "merge_env \<Rightarrow> ('r, 'rt) ConfigLayerStack \<Rightarrow> TomlValue" where
  "effective_config env st =
     (let merged = merge_layers env (layers_low_to_high st) in
      case st_model_provider_requirements st of
        Some requirements \<Rightarrow> apply_model_providers merged requirements
      | None \<Rightarrow> merged)"

definition valid_profile_name :: "rstr \<Rightarrow> bool" where
  "valid_profile_name name \<longleftrightarrow>
     name \<noteq> [] \<and> list_all (\<lambda>c. 48 \<le> c \<and> c \<le> 57 \<or> 65 \<le> c \<and> c \<le> 90 \<or> 97 \<le> c \<and> c \<le> 122 \<or> c = 95 \<or> c = 45) name"

definition insert_layer :: "ConfigLayerEntry \<Rightarrow> ConfigLayerEntry list \<Rightarrow> ConfigLayerEntry list" where
  "insert_layer layer layers =
     (let before = takeWhile (\<lambda>l. precedence (le_name l) \<le> precedence (le_name layer)) layers in
      before @ layer # drop (length before) layers)"

definition is_user_file :: "path_buf \<Rightarrow> ConfigLayerEntry \<Rightarrow> bool" where
  "is_user_file config_toml layer \<longleftrightarrow> (case le_name layer of User file _ \<Rightarrow> file = config_toml | _ \<Rightarrow> False)"

fun remove_first :: "('a \<Rightarrow> bool) \<Rightarrow> 'a list \<Rightarrow> 'a list" where
  "remove_first P [] = []"
| "remove_first P (x # xs) = (if P x then xs else x # remove_first P xs)"

definition with_user_config_profile :: "merge_env \<Rightarrow> layer_lib \<Rightarrow> ('r, 'rt) ConfigLayerStack \<Rightarrow> path_buf \<Rightarrow> rstr option \<Rightarrow>
    TomlValue \<Rightarrow> rstr + ('r, 'rt) ConfigLayerStack" where
  "with_user_config_profile env lb st config_toml profile user_config =
     (let user_layer = entry_new lb (User config_toml profile) user_config in
      case validate_enabled_config_layers env lb [user_layer] of
        Err e \<Rightarrow> Err e
      | Ok _ \<Rightarrow> Ok (st\<lparr>st_layers := insert_layer user_layer (remove_first (is_user_file config_toml) (st_layers st))\<rparr>))"

definition profile_of_file :: "path_buf \<Rightarrow> ConfigLayerEntry \<Rightarrow> rstr option" where
  "profile_of_file config_toml layer =
     (case le_name layer of
        User file (Some profile) \<Rightarrow> if file = config_toml \<and> valid_profile_name profile then Some profile else None
      | _ \<Rightarrow> None)"

definition with_user_config :: "merge_env \<Rightarrow> layer_lib \<Rightarrow> ('r, 'rt) ConfigLayerStack \<Rightarrow> path_buf \<Rightarrow> TomlValue \<Rightarrow>
    rstr + ('r, 'rt) ConfigLayerStack" where
  "with_user_config env lb st config_toml user_config =
     with_user_config_profile env lb st config_toml
       (List.find (\<lambda>_. True) (List.map_filter (profile_of_file config_toml) (st_layers st))) user_config"

definition with_user_layer_from :: "('r, 'rt) ConfigLayerStack \<Rightarrow> ('r, 'rt) ConfigLayerStack \<Rightarrow> ('r, 'rt) ConfigLayerStack" where
  "with_user_layer_from st other =
     st\<lparr>st_layers := fold insert_layer (filter (\<lambda>layer. is_user (le_name layer)) (st_layers other))
          (filter (\<lambda>layer. \<not> is_user (le_name layer)) (st_layers st))\<rparr>"

section \<open>Origins\<close>

type_synonym origins = "rstr \<rightharpoonup> ConfigLayerMetadata"

definition dotted :: "rstr list \<Rightarrow> rstr" where
  "dotted path = join_with [46] path"

definition record_leaf :: "(rstr list \<Rightarrow> bool) \<Rightarrow> ConfigLayerMetadata \<Rightarrow> TomlValue \<Rightarrow> rstr list \<Rightarrow> origins \<Rightarrow> origins" where
  "record_leaf include meta v path origins =
     (if path = [] \<or> \<not> include path then origins
      else if (case v of TBoolean _ \<Rightarrow> True | _ \<Rightarrow> False) \<and> is_structured_feature_path path then
        (let o1 = (if last path = lit ''network_proxy'' then origins(dotted path \<mapsto> meta) else origins) in
         o1(dotted (path @ [lit ''enabled'']) \<mapsto> meta))
      else origins(dotted path \<mapsto> meta))"

lemma size_array_item [termination_simp]: "ix \<in> set (List.enumerate n xs) \<Longrightarrow> size (snd ix) < Suc (size_list size xs)"
  by (induction xs arbitrary: n) (auto simp: less_Suc_eq)

fun record_origins :: "(rstr list \<Rightarrow> bool) \<Rightarrow> ConfigLayerMetadata \<Rightarrow> TomlValue \<Rightarrow> rstr list \<Rightarrow> origins \<Rightarrow> origins" where
  "record_origins include meta (TTable table) path origins =
     foldl (\<lambda>o1 kv. record_origins include meta (snd kv) (path @ [fst kv]) o1) origins table"
| "record_origins include meta (TArray items) path origins =
     foldl (\<lambda>o1 ix. record_origins include meta (snd ix) (path @ [show_nat (fst ix)]) o1) origins (List.enumerate 0 items)"
| "record_origins include meta v path origins = record_leaf include meta v path origins"

definition credentials_prefix :: "rstr \<Rightarrow> rstr" where
  "credentials_prefix name = lit ''profiles.'' @ name @ lit ''.features.network_proxy.credentials.''"

definition layer_provider_paths :: "TomlValue \<Rightarrow> rstr list" where
  "layer_provider_paths config =
     (case Option.bind (toml_get (lit ''profiles'') config) as_table of
        Some profiles \<Rightarrow> map (\<lambda>kv. credentials_prefix (fst kv)) profiles
      | None \<Rightarrow> [])"

definition origins_with_path_filter :: "merge_env \<Rightarrow> ('r, 'rt) ConfigLayerStack \<Rightarrow> (rstr list \<Rightarrow> bool) \<Rightarrow> origins" where
  "origins_with_path_filter env st include =
     (let layers = layers_low_to_high st;
          configs = map (\<lambda>layer. (layer, normalized_with_key_aliases (le_config layer) [])) layers;
          provider_paths = lit ''features.network_proxy.credentials.'' # concat (map (\<lambda>lc. layer_provider_paths (snd lc)) configs);
          origins = foldl (\<lambda>o1 lc. record_origins include (metadata (fst lc)) (snd lc) [] o1) Map.empty configs
      in case last_opt layers of
           None \<Rightarrow> origins
         | Some layer \<Rightarrow>
             (let effective_origins = record_origins include (metadata layer) (effective_config env st) [] Map.empty in
              (\<lambda>path. if list_ex (starts_with path) provider_paths \<and> effective_origins path = None then None
                      else origins path)))"

definition layer_origins :: "merge_env \<Rightarrow> ('r, 'rt) ConfigLayerStack \<Rightarrow> origins" where
  "layer_origins env st = origins_with_path_filter env st (\<lambda>_. True)"

section \<open>The stack stays in order\<close>

fun is_project :: "ConfigLayerSource \<Rightarrow> bool" where
  "is_project (Project folder) = True"
| "is_project _ = False"

lemma sorted_by_precedence_iff: "sorted_by_precedence names \<longleftrightarrow> sorted (map precedence names)"
  by (induction names rule: sorted_by_precedence.induct) (auto intro: order_trans)

lemma project_loop_filter: "project_loop previous names = project_loop previous (filter is_project names)"
  by (induction previous names rule: project_loop.induct) (auto split: option.splits)

lemma verify_iff:
  "verify_layer_ordering layers = Ok () \<longleftrightarrow>
     sorted (map (precedence \<circ> le_name) layers) \<and> project_loop None (filter is_project (map le_name layers)) = Ok ()"
  by (simp add: verify_layer_ordering_def sorted_by_precedence_iff project_loop_filter [of None "map le_name layers"])

lemma validate_iff:
  "validate_enabled_config_layers env lb layers = Ok () \<longleftrightarrow>
     (\<forall>layer \<in> set layers. is_disabled layer \<or> validate_shell_environment_policy_filter_config env lb (le_config layer) = Ok ())"
  by (induction env lb layers rule: validate_enabled_config_layers.induct) (auto split: sum.splits)

lemma insert_layer_split:
  "insert_layer layer layers =
     takeWhile (\<lambda>l. precedence (le_name l) \<le> precedence (le_name layer)) layers @ layer #
     dropWhile (\<lambda>l. precedence (le_name l) \<le> precedence (le_name layer)) layers"
  by (simp add: insert_layer_def Let_def dropWhile_eq_drop)

lemma set_insert_layer [simp]: "set (insert_layer layer layers) = insert layer (set layers)"
  using set_append [of "takeWhile (\<lambda>l. precedence (le_name l) \<le> precedence (le_name layer)) layers"
      "dropWhile (\<lambda>l. precedence (le_name l) \<le> precedence (le_name layer)) layers"]
  by (simp add: insert_layer_split)

lemma sorted_insert_between:
  fixes f :: "'a \<Rightarrow> int"
  shows "sorted (map f xs) \<Longrightarrow> sorted (map f ys) \<Longrightarrow> \<forall>x \<in> set xs. f x \<le> f c \<Longrightarrow> \<forall>y \<in> set ys. f c \<le> f y \<Longrightarrow>
    \<forall>x \<in> set xs. \<forall>y \<in> set ys. f x \<le> f y \<Longrightarrow> sorted (map f (xs @ c # ys))"
  by (auto simp: sorted_append)

lemma sorted_insert_layer:
  assumes "sorted (map (precedence \<circ> le_name) layers)"
  shows "sorted (map (precedence \<circ> le_name) (insert_layer layer layers))"
proof -
  let ?P = "\<lambda>l. precedence (le_name l) \<le> precedence (le_name layer)" and ?f = "precedence \<circ> le_name"
  let ?a = "takeWhile ?P layers" and ?b = "dropWhile ?P layers"
  have "sorted (map ?f (?a @ ?b))" using assms by simp
  then have s: "sorted (map ?f ?a)" "sorted (map ?f ?b)" "\<forall>x \<in> set ?a. \<forall>y \<in> set ?b. ?f x \<le> ?f y"
    unfolding map_append sorted_append by auto
  have a: "\<forall>l \<in> set ?a. ?f l \<le> ?f layer" by (auto dest: set_takeWhileD)
  have b: "\<forall>l \<in> set ?b. ?f layer \<le> ?f l"
  proof (cases ?b)
    case (Cons c cs)
    then have "\<not> ?P c" using hd_dropWhile [of ?P layers] by simp
    with s(2) Cons show ?thesis by auto
  next
    case Nil
    show ?thesis unfolding Nil by simp
  qed
  from s(1,2) a b s(3) show ?thesis unfolding insert_layer_split by (rule sorted_insert_between)
qed

lemma projects_insert_layer:
  "\<not> is_project (le_name layer) \<Longrightarrow>
   filter is_project (map le_name (insert_layer layer layers)) = filter is_project (map le_name layers)"
proof -
  let ?P = "\<lambda>l. precedence (le_name l) \<le> precedence (le_name layer)"
  assume "\<not> is_project (le_name layer)"
  then have "filter is_project (map le_name (insert_layer layer layers)) =
      filter is_project (map le_name (takeWhile ?P layers @ dropWhile ?P layers))"
    by (simp add: insert_layer_split del: takeWhile_dropWhile_id)
  then show ?thesis by simp
qed

lemma user_not_project: "is_user name \<Longrightarrow> \<not> is_project name"
  by (cases name) auto

lemma verify_insert_user:
  "is_user (le_name layer) \<Longrightarrow> verify_layer_ordering layers = Ok () \<Longrightarrow> verify_layer_ordering (insert_layer layer layers) = Ok ()"
  using user_not_project by (simp add: verify_iff sorted_insert_layer projects_insert_layer)

lemma verify_fold_insert:
  "\<forall>layer \<in> set new. is_user (le_name layer) \<Longrightarrow> verify_layer_ordering layers = Ok () \<Longrightarrow>
   verify_layer_ordering (fold insert_layer new layers) = Ok ()"
  by (induction new arbitrary: layers) (simp_all add: verify_insert_user)

lemma verify_remove_first:
  assumes "\<And>l. P l \<Longrightarrow> is_user (le_name l)" "verify_layer_ordering layers = Ok ()"
  shows "verify_layer_ordering (remove_first P layers) = Ok ()"
proof -
  have "set (remove_first P ls) \<subseteq> set ls" for ls by (induction ls) auto
  then have "sorted (map (precedence \<circ> le_name) ls) \<Longrightarrow> sorted (map (precedence \<circ> le_name) (remove_first P ls))" for ls
    by (induction ls) auto
  moreover have "filter is_project (map le_name (remove_first P ls)) = filter is_project (map le_name ls)" for ls
    using assms(1) user_not_project by (induction ls) auto
  ultimately show ?thesis using assms(2) by (simp add: verify_iff)
qed

lemma verify_filter:
  assumes "verify_layer_ordering layers = Ok ()"
  shows "verify_layer_ordering (filter (\<lambda>layer. \<not> is_user (le_name layer)) layers) = Ok ()"
proof -
  have "filter is_project (map le_name (filter (\<lambda>layer. \<not> is_user (le_name layer)) ls)) = filter is_project (map le_name ls)"
    for ls :: "ConfigLayerEntry list"
    using user_not_project by (induction ls) auto
  then show ?thesis using assms sorted_filter [of "precedence \<circ> le_name" layers] unfolding verify_iff by simp
qed

definition stack_ok :: "merge_env \<Rightarrow> layer_lib \<Rightarrow> ('r, 'rt) ConfigLayerStack \<Rightarrow> bool" where
  "stack_ok env lb st \<longleftrightarrow>
     verify_layer_ordering (st_layers st) = Ok () \<and> validate_enabled_config_layers env lb (st_layers st) = Ok ()"

lemma remove_first_subset: "set (remove_first P xs) \<subseteq> set xs"
  by (induction xs) auto

lemma is_user_file_user: "is_user_file file layer \<Longrightarrow> is_user (le_name layer)"
  by (auto simp: is_user_file_def split: ConfigLayerSource.splits)

lemma stack_new_ok: "stack_new env lb to_config layers r rt = Ok st \<Longrightarrow> stack_ok env lb st"
  by (auto simp: stack_new_def stack_ok_def split: sum.splits)

lemma with_user_config_profile_ok:
  assumes "stack_ok env lb st" "with_user_config_profile env lb st file profile config = Ok st'"
  shows "stack_ok env lb st'"
proof -
  let ?u = "entry_new lb (User file profile) config" and ?ls = "remove_first (is_user_file file) (st_layers st)"
  from assms(2) have st': "st' = st\<lparr>st_layers := insert_layer ?u ?ls\<rparr>" and v: "validate_enabled_config_layers env lb [?u] = Ok ()"
    by (auto simp: with_user_config_profile_def Let_def simp del: validate_enabled_config_layers.simps split: sum.splits)
  have "verify_layer_ordering ?ls = Ok ()" using assms(1) is_user_file_user by (intro verify_remove_first) (auto simp: stack_ok_def)
  then have "verify_layer_ordering (insert_layer ?u ?ls) = Ok ()" by (intro verify_insert_user) (simp_all add: entry_new_def)
  moreover have "validate_enabled_config_layers env lb (insert_layer ?u ?ls) = Ok ()"
    using assms(1) v remove_first_subset [of "is_user_file file" "st_layers st"] unfolding stack_ok_def validate_iff by auto
  ultimately show ?thesis by (simp add: stack_ok_def st')
qed

lemma with_user_layer_from_ok:
  assumes "stack_ok env lb st" "stack_ok env lb other"
  shows "stack_ok env lb (with_user_layer_from st other)"
proof -
  have "set (fold insert_layer new ls) = set new \<union> set ls" for new ls by (induction new arbitrary: ls) auto
  with assms show ?thesis
    by (auto simp: stack_ok_def with_user_layer_from_def validate_iff intro!: verify_fold_insert verify_filter)
qed

section \<open>The effective configuration\<close>

lemma merge_layers_snoc: "merge_layers env (ls @ [l]) = merge_toml_values env (merge_layers env ls) (le_config l)"
  by (simp add: merge_layers_def)

lemma canonical_merge_layers: "\<forall>l \<in> set ls. canonical env [] (le_config l) \<Longrightarrow> canonical env [] (merge_layers env ls)"
  by (induction ls rule: rev_induct)
    (simp add: merge_layers_def, simp add: merge_layers_snoc merge_toml_values_def canonical_merge)

lemma merge_layers_keeps:
  assumes "\<forall>l \<in> set (ls @ higher). canonical env [] (le_config l)" "ordinary p"
    and "\<forall>l \<in> set higher. untouched (le_config l) p" "get_at (merge_layers env ls) p = Some v"
  shows "get_at (merge_layers env (ls @ higher)) p = Some v"
  using assms
proof (induction higher rule: rev_induct)
  case (snoc l higher)
  have "canonical env [] (merge_layers env (ls @ higher))" using snoc.prems(1) by (intro canonical_merge_layers) auto
  then have "get_at (merge_toml_values_at_path env (merge_layers env (ls @ higher)) (le_config l) []) p = Some v"
    using snoc by (intro base_kept) auto
  then show ?case using merge_layers_snoc [of env "ls @ higher" l] by (simp add: merge_toml_values_def)
qed simp

lemma ordinary_not_structured: "ordinary p \<Longrightarrow> \<not> is_structured_feature_path p"
  using structured_hd [of p] by (auto simp: ordinary_def)

lemma merge_layers_precedence:
  assumes "\<forall>l \<in> set (lower @ l # higher). canonical env [] (le_config l)" "ordinary p"
    and "get_at (le_config l) p = Some v" "as_table v = None" "\<forall>l' \<in> set higher. untouched (le_config l') p"
  shows "get_at (merge_layers env (lower @ l # higher)) p = Some v"
proof -
  have "get_at (merge_layers env (lower @ [l])) p = Some v"
    using overlay_wins [of env "[]" "le_config l" p v "merge_layers env lower"] assms ordinary_not_structured [OF assms(2)]
    by (simp add: merge_layers_snoc merge_toml_values_def)
  then show ?thesis using merge_layers_keeps [of "lower @ [l]" higher env p v] assms by simp
qed

lemma apply_model_providers_other:
  "p \<noteq> [] \<Longrightarrow> hd p \<noteq> lit ''model_providers'' \<Longrightarrow> get_at (apply_model_providers config req) p = get_at config p"
  by (cases p) (auto simp: apply_model_providers_def Let_def update_conv' toml_get_def split: TomlValue.splits option.splits)

definition config_path :: "rstr list \<Rightarrow> bool" where
  "config_path p \<longleftrightarrow> ordinary p \<and> hd p \<noteq> lit ''model_providers'' \<and> (\<forall>k \<in> set p. 46 \<notin> set k)"

lemma effective_get_at:
  "config_path p \<Longrightarrow> get_at (effective_config env st) p = get_at (merge_layers env (layers_low_to_high st)) p"
  by (auto simp: effective_config_def Let_def config_path_def ordinary_def apply_model_providers_other split: option.split)

lemma policy_unmixed_merge_layers:
  "\<forall>l \<in> set ls. wf_toml (le_config l) \<and> policy_unmixed (le_config l) \<Longrightarrow> policy_unmixed (merge_layers env ls)"
proof (induction ls rule: rev_induct)
  case Nil
  show ?case by (simp add: merge_layers_def policy_unmixed_def)
next
  case (snoc l ls)
  then show ?case by (simp add: merge_layers_snoc merge_policy_unmixed)
qed

lemma validated_unmixed:
  "validate_shell_environment_policy_filter_config env lb config = Ok () \<Longrightarrow> policy_unmixed config"
proof (cases "toml_get (lit ''shell_environment_policy'') config")
  case (Some policy)
  assume "validate_shell_environment_policy_filter_config env lb config = Ok ()"
  with Some show ?thesis
    by (cases policy) (auto simp: validate_shell_environment_policy_filter_config_def policy_unmixed_def unmixed_def has_key_def
        read_filter_fields_def Let_def split: option.splits if_splits)
qed (simp add: policy_unmixed_def)

lemma policy_unmixed_apply: "policy_unmixed (apply_model_providers config req) = policy_unmixed config"
proof -
  have "lit ''shell_environment_policy'' \<noteq> lit ''model_providers''" by (simp add: lit_eval)
  then have "toml_get (lit ''shell_environment_policy'') (apply_model_providers config req) =
      toml_get (lit ''shell_environment_policy'') config"
    by (auto simp: apply_model_providers_def Let_def update_conv' split: TomlValue.splits option.splits)
  then show ?thesis by (simp add: policy_unmixed_def)
qed

section \<open>Origins\<close>

text \<open>The paths that a layer is recorded for.\<close>

definition leaf_paths :: "(rstr list \<Rightarrow> bool) \<Rightarrow> TomlValue \<Rightarrow> rstr list \<Rightarrow> rstr list set" where
  "leaf_paths include v path =
     (if path = [] \<or> \<not> include path then {}
      else if (case v of TBoolean _ \<Rightarrow> True | _ \<Rightarrow> False) \<and> is_structured_feature_path path then
        insert (path @ [lit ''enabled'']) (if last path = lit ''network_proxy'' then {path} else {})
      else {path})"

fun recorded :: "(rstr list \<Rightarrow> bool) \<Rightarrow> TomlValue \<Rightarrow> rstr list \<Rightarrow> rstr list set" where
  "recorded include (TTable t) path = (\<Union>kv \<in> set t. recorded include (snd kv) (path @ [fst kv]))"
| "recorded include (TArray xs) path =
     (\<Union>ix \<in> set (List.enumerate 0 xs). recorded include (snd ix) (path @ [show_nat (fst ix)]))"
| "recorded include v path = leaf_paths include v path"

lemma record_leaf_recorded:
  "record_leaf include meta v path origins k =
     (if k \<in> dotted ` leaf_paths include v path then Some meta else origins k)"
  by (auto simp: record_leaf_def leaf_paths_def Let_def)

lemma fold_recorded:
  assumes "\<And>x o1. x \<in> set xs \<Longrightarrow> f x o1 k = (if k \<in> S x then Some meta else o1 k)"
  shows "foldl (\<lambda>o1 x. f x o1) origins xs k = (if k \<in> (\<Union>x \<in> set xs. S x) then Some meta else origins k)"
  using assms by (induction xs arbitrary: origins) auto

lemma record_origins_recorded:
  "record_origins inc meta v path origins k =
     (if k \<in> dotted ` recorded inc v path then Some meta else origins k)"
proof (induction inc meta v path origins rule: record_origins.induct)
  case (1 inc meta t path origins)
  show ?case
    using fold_recorded [of t "\<lambda>kv. record_origins inc meta (snd kv) (path @ [fst kv])" k
        "\<lambda>kv. dotted ` recorded inc (snd kv) (path @ [fst kv])" meta origins] 1 by (simp add: image_UN)
next
  case (2 inc meta xs path origins)
  show ?case
    using fold_recorded [of "List.enumerate 0 xs" "\<lambda>ix. record_origins inc meta (snd ix) (path @ [show_nat (fst ix)])" k
        "\<lambda>ix. dotted ` recorded inc (snd ix) (path @ [show_nat (fst ix)])" meta origins] 2 by (simp add: image_UN)
qed (simp_all add: record_leaf_recorded)

fun dot_free :: "TomlValue \<Rightarrow> bool" where
  "dot_free (TTable t) \<longleftrightarrow> (\<forall>kv \<in> set t. 46 \<notin> set (fst kv) \<and> dot_free (snd kv))"
| "dot_free (TArray xs) \<longleftrightarrow> (\<forall>x \<in> set xs. dot_free x)"
| "dot_free v \<longleftrightarrow> True"

lemma show_nat_no_dot: "46 \<notin> set (show_nat n)"
proof (induction n rule: show_nat.induct)
  case (1 n)
  then show ?case by (subst show_nat.simps) auto
qed

lemma recorded_prefix: "r \<in> recorded inc v path \<Longrightarrow> r \<noteq> [] \<and> (\<exists>q. r = path @ q)"
proof (induction inc v path rule: recorded.induct)
  case (1 inc t path)
  then show ?case by fastforce
next
  case (2 inc xs path)
  then show ?case by fastforce
qed (auto simp: leaf_paths_def split: if_splits)

lemma recorded_dot_free:
  "r \<in> recorded inc v path \<Longrightarrow> dot_free v \<Longrightarrow> \<forall>k \<in> set path. 46 \<notin> set k \<Longrightarrow> \<forall>k \<in> set r. 46 \<notin> set k"
proof (induction inc v path rule: recorded.induct)
  case (1 inc t path)
  then show ?case by auto
next
  case (2 inc xs path)
  then obtain ix where ix: "ix \<in> set (List.enumerate 0 xs)" "r \<in> recorded inc (snd ix) (path @ [show_nat (fst ix)])" by auto
  then have "snd ix \<in> set xs" by (metis image_eqI list.set_map map_snd_enumerate)
  with 2 ix show_nat_no_dot show ?case by auto
qed (auto simp: leaf_paths_def lit_eval split: if_splits)

lemma split_dotted: "p \<noteq> [] \<Longrightarrow> \<forall>k \<in> set p. 46 \<notin> set k \<Longrightarrow> split_on 46 (dotted p) = p"
  unfolding dotted_def by (rule split_on_join) auto

lemma recorded_leaf:
  assumes "get_at v p = Some x" "as_table x = None" "as_array x = None" "ordinary (path @ p)" "inc (path @ p)"
  shows "path @ p \<in> recorded inc v path"
  using assms
proof (induction p arbitrary: v path)
  case Nil
  then show ?case
    using ordinary_not_structured [of path] by (cases v) (auto simp: leaf_paths_def ordinary_def)
next
  case (Cons k ks)
  then obtain t w where t: "v = TTable t" "map_of t k = Some w" "get_at w ks = Some x" unfolding get_at_Cons by blast
  with Cons.IH [of w "path @ [k]"] Cons.prems have "path @ k # ks \<in> recorded inc w (path @ [k])" by simp
  with t show ?case by (force dest: map_of_SomeD)
qed

lemma recorded_touches:
  assumes "path @ q \<in> recorded inc v path" "wf_toml v"
  shows "\<not> untouched v q"
  using assms
proof (induction q arbitrary: v path)
  case (Cons k ks)
  show ?case
  proof (cases v)
    case (TTable t)
    with Cons.prems obtain kv where kv: "kv \<in> set t" "path @ k # ks \<in> recorded inc (snd kv) (path @ [fst kv])" by auto
    with recorded_prefix [OF kv(2)] have "fst kv = k" by auto
    with kv Cons.prems TTable have "map_of t k = Some (snd kv)" by auto
    with Cons.IH [of "path @ [k]" "snd kv"] kv Cons.prems TTable \<open>fst kv = k\<close> show ?thesis by auto
  qed auto
qed auto

definition origin_fold :: "(rstr list \<Rightarrow> bool) \<Rightarrow> ConfigLayerEntry list \<Rightarrow> origins" where
  "origin_fold include ls =
     foldl (\<lambda>o1 l. record_origins include (metadata l) (normalized_with_key_aliases (le_config l) []) [] o1) Map.empty ls"

definition plain_layer :: "merge_env \<Rightarrow> ConfigLayerEntry \<Rightarrow> bool" where
  "plain_layer env l \<longleftrightarrow> canonical env [] (le_config l) \<and> wf_toml (le_config l) \<and> dot_free (le_config l)"

lemma origin_of_merged:
  assumes "\<forall>l \<in> set ls. plain_layer env l" "config_path p" "inc p"
    and "get_at (merge_layers env ls) p = Some v" "as_table v = None" "as_array v = None"
  shows "\<exists>l \<in> set ls. origin_fold inc ls (dotted p) = Some (metadata l) \<and> get_at (le_config l) p = Some v"
  using assms
proof (induction ls rule: rev_induct)
  case Nil
  then show ?case by (cases p) (auto simp: merge_layers_def config_path_def ordinary_def)
next
  case (snoc l ls)
  from snoc.prems(1) have pl: "canonical env [] (le_config l)" "wf_toml (le_config l)" "dot_free (le_config l)"
    by (auto simp: plain_layer_def)
  have can: "canonical env [] (merge_layers env ls)" using snoc.prems(1) by (intro canonical_merge_layers) (auto simp: plain_layer_def)
  have ord: "ordinary p" and free: "\<forall>k \<in> set p. 46 \<notin> set k" using snoc.prems(2) by (auto simp: config_path_def)
  have step: "origin_fold inc (ls @ [l]) (dotted p) =
      (if dotted p \<in> dotted ` recorded inc (le_config l) [] then Some (metadata l) else origin_fold inc ls (dotted p))"
    by (simp add: origin_fold_def record_origins_recorded canonical_normalized [OF pl(1)])
  from merged_value [OF can pl(1), of p v] ord snoc.prems(4,5) consider
    "get_at (le_config l) p = Some v" | "untouched (le_config l) p" "get_at (merge_layers env ls) p = Some v"
    by (auto simp: merge_layers_snoc merge_toml_values_def)
  then show ?case
  proof cases
    case 1
    with recorded_leaf [of "le_config l" p v "[]" inc] snoc.prems ord step show ?thesis by auto
  next
    case 2
    have "dotted p \<notin> dotted ` recorded inc (le_config l) []"
    proof
      assume "dotted p \<in> dotted ` recorded inc (le_config l) []"
      then obtain r where r: "r \<in> recorded inc (le_config l) []" "dotted p = dotted r" by auto
      with split_dotted [of r] split_dotted [OF _ free] recorded_prefix [OF r(1)] recorded_dot_free [OF r(1) pl(3)] ord
      have "r = p" by (auto simp: ordinary_def)
      with recorded_touches [of "[]" p inc "le_config l"] r pl 2 show False by simp
    qed
    with step snoc 2 show ?thesis by auto
  qed
qed

lemma starts_with_dotted:
  assumes "p \<noteq> []" "\<forall>k \<in> set p. 46 \<notin> set k" "46 \<notin> set name" "starts_with (dotted p) (name @ 46 # rest)"
  shows "hd p = name"
proof -
  from assms(4) obtain r where "dotted p = name @ 46 # rest @ r" by (auto simp: starts_with_prefix prefix_def)
  with split_dotted [OF assms(1,2)] split_on_append_sep [OF assms(3), of "rest @ r"] show ?thesis by (metis list.sel(1))
qed

lemma no_provider_path:
  assumes "config_path p" "q = lit ''features.network_proxy.credentials.'' \<or> (\<exists>name. q = credentials_prefix name)"
  shows "\<not> starts_with (dotted p) q"
proof
  assume s: "starts_with (dotted p) q"
  have "lit ''features.network_proxy.credentials.'' = lit ''features'' @ 46 # lit ''network_proxy.credentials.''"
    "credentials_prefix name = lit ''profiles'' @ 46 # name @ lit ''.features.network_proxy.credentials.''" for name
    by (simp_all add: credentials_prefix_def lit_eval)
  with assms(2) obtain h r where "q = h @ 46 # r" "h \<in> {lit ''features'', lit ''profiles''}" by blast
  with starts_with_dotted [of p h r] s assms(1) show False by (auto simp: config_path_def ordinary_def lit_eval)
qed

lemma origins_of_config_path:
  assumes "config_path p"
  shows "origins_with_path_filter env st inc (dotted p) = origin_fold inc (layers_low_to_high st) (dotted p)"
proof -
  let ?ls = "layers_low_to_high st"
  let ?configs = "map (\<lambda>l. (l, normalized_with_key_aliases (le_config l) [])) ?ls"
  have "\<forall>q \<in> set (lit ''features.network_proxy.credentials.'' # concat (map (\<lambda>lc. layer_provider_paths (snd lc)) ?configs)).
      \<not> starts_with (dotted p) q"
    using no_provider_path [OF assms] by (auto simp: layer_provider_paths_def split: option.splits)
  then have "\<not> list_ex (starts_with (dotted p))
      (lit ''features.network_proxy.credentials.'' # concat (map (\<lambda>lc. layer_provider_paths (snd lc)) ?configs))"
    by (auto simp: list_ex_iff)
  then show ?thesis
    by (simp add: origins_with_path_filter_def Let_def origin_fold_def foldl_map split: option.split)
qed

section \<open>Properties\<close>

definition default_stack :: "'r \<Rightarrow> 'rt \<Rightarrow> ('r, 'rt) ConfigLayerStack" where
  "default_stack requirements requirements_toml =
     \<lparr>st_model_provider_requirements = None, st_layers = [], st_requirements = requirements,
      st_requirements_toml = requirements_toml, st_ignore_exec_policy_rules = False, st_startup_warnings = None\<rparr>"

text \<open>The stacks the program has: those it builds, and what the operations make of them.\<close>

inductive built :: "merge_env \<Rightarrow> layer_lib \<Rightarrow> ('rt \<Rightarrow> rstr + TomlValue) \<Rightarrow> ('r, 'rt) ConfigLayerStack \<Rightarrow> bool" for env lb to_config where
  built_default: "built env lb to_config (default_stack r rt)"
| built_new: "stack_new env lb to_config layers r rt = Ok st \<Longrightarrow> built env lb to_config st"
| built_user: "built env lb to_config st \<Longrightarrow> with_user_config env lb st file config = Ok st' \<Longrightarrow> built env lb to_config st'"
| built_profile: "built env lb to_config st \<Longrightarrow> with_user_config_profile env lb st file profile config = Ok st' \<Longrightarrow>
    built env lb to_config st'"
| built_from: "built env lb to_config st \<Longrightarrow> built env lb to_config other \<Longrightarrow> built env lb to_config (with_user_layer_from st other)"
| built_ignored: "built env lb to_config st \<Longrightarrow>
    built env lb to_config (with_user_and_project_exec_policy_rules_ignored ignored st)"
| built_warnings: "built env lb to_config st \<Longrightarrow> built env lb to_config (with_startup_warnings warnings st)"

lemma stack_ok_frame:
  "stack_ok env lb (with_user_and_project_exec_policy_rules_ignored ignored st) = stack_ok env lb st"
  "stack_ok env lb (with_startup_warnings warnings st) = stack_ok env lb st"
  by (simp_all add: stack_ok_def with_user_and_project_exec_policy_rules_ignored_def with_startup_warnings_def)

lemma built_ok: "built env lb to_config st \<Longrightarrow> stack_ok env lb st"
proof (induction rule: built.induct)
  case (built_default r rt)
  show ?case by (simp add: stack_ok_def default_stack_def verify_layer_ordering_def)
next
  case (built_user st f config st')
  then show ?case unfolding with_user_config_def by (blast intro: with_user_config_profile_ok)
qed (auto intro: stack_new_ok with_user_config_profile_ok with_user_layer_from_ok
    simp: stack_ok_frame)

definition sample_layer_lib :: layer_lib where
  "sample_layer_lib =
     \<lparr>to_json = (\<lambda>_. None), json_to_vec = (\<lambda>_. None), sha256_hex = (\<lambda>_. []), read_filter = (\<lambda>_. Some Include),
      de_error_text = (\<lambda>_. [])\<rparr>"

definition user_layer :: ConfigLayerEntry where
  "user_layer = entry_new sample_layer_lib (User [RootDir, Normal (lit ''u'')] None)
     (TTable [(lit ''tools'', TTable [(lit ''search'', TString (lit ''on''))])])"

definition project_layer :: ConfigLayerEntry where
  "project_layer = entry_new sample_layer_lib (Project [RootDir, Normal (lit ''p'')])
     (TTable [(lit ''tools'', TTable [(lit ''view'', TString (lit ''off''))])])"

definition sample_stack :: "(unit, unit) ConfigLayerStack" where
  "sample_stack = (default_stack () ())\<lparr>st_model_provider_requirements := Some (TTable []), st_layers := [user_layer, project_layer]\<rparr>"

lemma sample_stack_new:
  "stack_new unix_env sample_layer_lib (\<lambda>_. Ok (TTable [])) [user_layer, project_layer] () () = Ok sample_stack"
  by code_simp

lemma sample_layers: "layers_low_to_high sample_stack = [] @ user_layer # [project_layer]"
  by code_simp

text \<open>
  C20. Precedence. If a layer sets a value and no enabled layer above it says anything about it, then the
  effective configuration has that value. The configurations are canonical; the paths are those outside
  the sections with rules of their own.
\<close>

theorem effective_value_precedence:
  assumes "layers_low_to_high st = lower @ layer # higher"
    and "\<forall>l \<in> set (layers_low_to_high st). canonical env [] (le_config l)" "config_path p"
    and "get_at (le_config layer) p = Some v" "as_table v = None"
    and "\<forall>l \<in> set higher. untouched (le_config l) p"
  shows "get_at (effective_config env st) p = Some v"
  using merge_layers_precedence [of lower layer higher env p v] assms
  by (simp add: effective_get_at config_path_def)

theorem effective_value_precedence_witness:
  "get_at (effective_config unix_env sample_stack) [lit ''tools'', lit ''search''] = Some (TString (lit ''on''))"
proof -
  have "\<forall>l \<in> set (layers_low_to_high sample_stack). canonical unix_env [] (le_config l)"
    "config_path [lit ''tools'', lit ''search'']"
    "get_at (le_config user_layer) [lit ''tools'', lit ''search''] = Some (TString (lit ''on''))"
    "as_table (TString (lit ''on'')) = None"
    "\<forall>l \<in> set [project_layer]. untouched (le_config l) [lit ''tools'', lit ''search'']"
    by code_simp+
  then show ?thesis by (rule effective_value_precedence [OF sample_layers])
qed



text \<open>
  C22. The layers of every stack the program builds and edits are in the order of their precedence, project
  layers from the root downwards, every enabled layer is valid, and the effective configuration never mixes
  the two representations of the environment filters.
\<close>

theorem stack_always_valid:
  assumes "built env lb to_config st" "\<forall>l \<in> set (st_layers st). wf_toml (le_config l)"
  shows "verify_layer_ordering (st_layers st) = Ok () \<and> validate_enabled_config_layers env lb (st_layers st) = Ok () \<and>
    policy_unmixed (effective_config env st)"
proof -
  have ok: "stack_ok env lb st" using assms(1) by (rule built_ok)
  then have "\<forall>l \<in> set (layers_low_to_high st). wf_toml (le_config l) \<and> policy_unmixed (le_config l)"
    using assms(2) validated_unmixed by (auto simp: stack_ok_def validate_iff layers_low_to_high_def)
  then have "policy_unmixed (effective_config env st)"
    by (simp add: effective_config_def Let_def policy_unmixed_apply policy_unmixed_merge_layers split: option.split)
  with ok show ?thesis by (simp add: stack_ok_def)
qed

theorem stack_always_valid_witness:
  "built unix_env sample_layer_lib (\<lambda>_. Ok (TTable [])) sample_stack \<and> policy_unmixed (effective_config unix_env sample_stack)"
proof -
  have "built unix_env sample_layer_lib (\<lambda>_. Ok (TTable [])) sample_stack" using sample_stack_new by (rule built_new)
  moreover have "\<forall>l \<in> set (st_layers sample_stack). wf_toml (le_config l)" by code_simp
  ultimately show ?thesis using stack_always_valid by blast
qed
end
