(* ===== verification/Shell_Environment.thy ===== *)
theory Shell_Environment
  imports Config_Layers
begin

text \<open>
  \<open>protocol/src/shell_environment.rs\<close> and the conversion in \<open>config/src/shell_environment_policy.rs\<close>: the
  environment of the commands the agent runs.

  A \<open>HashMap\<close> is an association list. Matching a pattern with wildcards, ignoring case, is what the crate
  \<open>wildmatch\<close> does; it is the argument \<open>matches\<close>. The platform is the flag of \<open>merge_env\<close>.
\<close>

section \<open>Restricted variables\<close>

definition CODEX_THREAD_ID_ENV_VAR :: rstr where
  "CODEX_THREAD_ID_ENV_VAR = lit ''CODEX_THREAD_ID''"

definition NON_INHERITABLE_ENV_VARS :: "rstr list" where
  "NON_INHERITABLE_ENV_VARS =
     [lit ''CODEX_EXEC_SERVER_NOISE_AUTH_TOKEN'', lit ''NODE_REPL_AUTH_TOKEN'', lit ''OPENAI_FEDERATION_RULE_ID'',
      lit ''OPENAI_IDENTITY_TOKEN_FILE'', lit ''OPENAI_WORKLOAD_IDENTITY_CONTEXT'']"

definition is_non_inheritable_env_var :: "rstr \<Rightarrow> bool" where
  "is_non_inheritable_env_var name \<longleftrightarrow> list_ex (\<lambda>restricted. eq_ignore_ascii_case restricted name) NON_INHERITABLE_ENV_VARS"

text \<open>
  A name of the operating system need not be Unicode. A \<open>Command\<close> has the changes that are made to the
  environment of the process: a new value, or none for a removal.
\<close>

datatype os_name = OsStr rstr | OsBytes "nat list"

type_synonym 'v command_envs = "(os_name \<times> 'v option) list"

fun restricted_name :: "os_name \<Rightarrow> bool" where
  "restricted_name (OsStr name) = is_non_inheritable_env_var name"
| "restricted_name (OsBytes _) = False"

definition env_remove :: "os_name \<Rightarrow> 'v command_envs \<Rightarrow> 'v command_envs" where
  "env_remove name envs = AList.update name None envs"

definition scrub_non_inheritable_env_vars :: "(os_name \<times> 'v) list \<Rightarrow> 'v command_envs \<Rightarrow> 'v command_envs" where
  "scrub_non_inheritable_env_vars process envs =
     (let configured_names = map fst envs;
          envs1 = fold (\<lambda>name. env_remove (OsStr name)) NON_INHERITABLE_ENV_VARS envs
      in fold (\<lambda>name e. if restricted_name name then env_remove name e else e) (map fst process @ configured_names) envs1)"

definition child_env :: "(os_name \<times> 'v) list \<Rightarrow> 'v command_envs \<Rightarrow> os_name \<rightharpoonup> 'v" where
  "child_env process envs name = (case map_of envs name of Some change \<Rightarrow> change | None \<Rightarrow> map_of process name)"

section \<open>Policies\<close>

datatype ShellEnvironmentPolicyInherit = Core | InheritAll | InheritNone

record ShellEnvironmentPolicy =
  inherit :: ShellEnvironmentPolicyInherit
  ignore_default_excludes :: bool
  exclude :: "rstr list"
  sets :: "(rstr \<times> rstr) list"
  include_only :: "rstr list"
  use_profile :: bool

record ShellEnvironmentPolicyToml =
  t_inherit :: "ShellEnvironmentPolicyInherit option"
  t_ignore_default_excludes :: "bool option"
  t_exclude :: "rstr list option"
  t_set :: "(rstr \<times> rstr) list option"
  t_include_only :: "rstr list option"
  t_filters :: "(rstr \<times> ShellEnvironmentPolicyFilter) list option"
  t_use_profile :: "bool option"

definition default_policy :: ShellEnvironmentPolicy where
  "default_policy = \<lparr>inherit = InheritAll, ignore_default_excludes = True, exclude = [], sets = [], include_only = [], use_profile = False\<rparr>"

definition unwrap_or :: "'a \<Rightarrow> 'a option \<Rightarrow> 'a" where
  "unwrap_or d x = (case x of Some v \<Rightarrow> v | None \<Rightarrow> d)"

definition split_filters :: "(rstr \<times> ShellEnvironmentPolicyFilter) list \<Rightarrow> rstr list \<times> rstr list" where
  "split_filters filters =
     foldl (\<lambda>(ex, inc) (pattern, f). case f of Include \<Rightarrow> (ex, inc @ [pattern]) | Exclude \<Rightarrow> (ex @ [pattern], inc)) ([], []) filters"

definition policy_from_toml :: "ShellEnvironmentPolicyToml \<Rightarrow> ShellEnvironmentPolicy" where
  "policy_from_toml toml =
     (let (ex, inc) = (case t_filters toml of
          Some filters \<Rightarrow> split_filters filters
        | None \<Rightarrow> (unwrap_or [] (t_exclude toml), unwrap_or [] (t_include_only toml)))
      in \<lparr>inherit = unwrap_or InheritAll (t_inherit toml), ignore_default_excludes = unwrap_or True (t_ignore_default_excludes toml),
          exclude = ex, sets = unwrap_or [] (t_set toml), include_only = inc, use_profile = unwrap_or False (t_use_profile toml)\<rparr>)"

section \<open>The environment of a command\<close>

definition UNIX_CORE_ENV_VARS :: "rstr list" where
  "UNIX_CORE_ENV_VARS =
     [lit ''PATH'', lit ''SHELL'', lit ''TMPDIR'', lit ''TEMP'', lit ''TMP'', lit ''HOME'', lit ''LANG'', lit ''LC_ALL'',
      lit ''LC_CTYPE'', lit ''LOGNAME'', lit ''USER'']"

definition WINDOWS_CORE_ENV_VARS :: "rstr list" where
  "WINDOWS_CORE_ENV_VARS =
     [lit ''PATH'', lit ''PATHEXT'', lit ''SHELL'', lit ''COMSPEC'', lit ''SYSTEMROOT'', lit ''WINDIR'', lit ''SYSTEMDRIVE'',
      lit ''USERNAME'', lit ''USERDOMAIN'', lit ''USERPROFILE'', lit ''HOMEDRIVE'', lit ''HOMEPATH'', lit ''PROGRAMFILES'',
      lit ''PROGRAMFILES(X86)'', lit ''PROGRAMW6432'', lit ''PROGRAMDATA'', lit ''LOCALAPPDATA'', lit ''APPDATA'',
      lit ''TEMP'', lit ''TMP'', lit ''TMPDIR'', lit ''POWERSHELL'', lit ''PWSH'']"

type_synonym env_map = "(rstr \<times> rstr) list"

definition collect_env :: "env_map \<Rightarrow> env_map" where
  "collect_env vars = foldl (\<lambda>m kv. AList.update (fst kv) (snd kv) m) [] vars"

definition retain_env :: "(rstr \<Rightarrow> bool) \<Rightarrow> env_map \<Rightarrow> env_map" where
  "retain_env P m = filter (\<lambda>kv. P (fst kv)) m"

definition is_core :: "merge_env \<Rightarrow> rstr \<Rightarrow> bool" where
  "is_core env k \<longleftrightarrow>
     list_ex (\<lambda>allowed. eq_ignore_ascii_case allowed k) (if windows env then WINDOWS_CORE_ENV_VARS else UNIX_CORE_ENV_VARS)"

definition starting_env :: "merge_env \<Rightarrow> env_map \<Rightarrow> ShellEnvironmentPolicyInherit \<Rightarrow> env_map" where
  "starting_env env vars inh =
     (case inh of
        InheritAll \<Rightarrow> collect_env vars
      | InheritNone \<Rightarrow> []
      | Core \<Rightarrow> collect_env (filter (\<lambda>kv. is_core env (fst kv)) vars))"

definition matches_any :: "(rstr \<Rightarrow> rstr \<Rightarrow> bool) \<Rightarrow> rstr list \<Rightarrow> rstr \<Rightarrow> bool" where
  "matches_any matches patterns name \<longleftrightarrow> list_ex (\<lambda>pattern. matches pattern name) patterns"

definition default_excludes :: "rstr list" where
  "default_excludes = [lit ''*KEY*'', lit ''*SECRET*'', lit ''*TOKEN*'']"

definition apply_sets :: "merge_env \<Rightarrow> env_map \<Rightarrow> env_map \<Rightarrow> env_map" where
  "apply_sets env assignments m =
     foldl (\<lambda>m kv.
         let m1 = (if windows env then retain_env (\<lambda>existing. \<not> eq_ignore_ascii_case existing (fst kv)) m else m)
         in AList.update (fst kv) (snd kv) m1) m assignments"

definition populate_env :: "merge_env \<Rightarrow> (rstr \<Rightarrow> rstr \<Rightarrow> bool) \<Rightarrow> env_map \<Rightarrow> ShellEnvironmentPolicy \<Rightarrow> rstr option \<Rightarrow> env_map" where
  "populate_env env matches vars policy thread_id =
     (let m1 = starting_env env vars (inherit policy);
          m2 = (if ignore_default_excludes policy then m1 else retain_env (\<lambda>k. \<not> matches_any matches default_excludes k) m1);
          m3 = (if exclude policy = [] then m2 else retain_env (\<lambda>k. \<not> matches_any matches (exclude policy) k) m2);
          m4 = apply_sets env (sets policy) m3;
          m5 = (if include_only policy = [] then m4 else retain_env (matches_any matches (include_only policy)) m4);
          m6 = (case thread_id of Some t \<Rightarrow> AList.update CODEX_THREAD_ID_ENV_VAR t m5 | None \<Rightarrow> m5)
      in retain_env (\<lambda>name. \<not> is_non_inheritable_env_var name) m6)"

definition create_env_from_vars :: "merge_env \<Rightarrow> (rstr \<Rightarrow> rstr \<Rightarrow> bool) \<Rightarrow> env_map \<Rightarrow> ShellEnvironmentPolicy \<Rightarrow> rstr option \<Rightarrow> env_map" where
  "create_env_from_vars env matches vars policy thread_id =
     (let m = populate_env env matches vars policy thread_id in
      if windows env \<and> \<not> list_ex (\<lambda>kv. eq_ignore_ascii_case (fst kv) (lit ''PATHEXT'')) m
      then AList.update (lit ''PATHEXT'') (lit ''.COM;.EXE;.BAT;.CMD'') m else m)"

section \<open>Specification\<close>

definition inherited :: "merge_env \<Rightarrow> env_map \<Rightarrow> ShellEnvironmentPolicy \<Rightarrow> rstr \<rightharpoonup> rstr" where
  "inherited env vars policy k =
     (case inherit policy of
        InheritAll \<Rightarrow> map_of (rev vars) k
      | InheritNone \<Rightarrow> None
      | Core \<Rightarrow> if is_core env k then map_of (rev vars) k else None)"

definition excluded :: "(rstr \<Rightarrow> rstr \<Rightarrow> bool) \<Rightarrow> ShellEnvironmentPolicy \<Rightarrow> rstr \<Rightarrow> bool" where
  "excluded matches policy k \<longleftrightarrow>
     \<not> ignore_default_excludes policy \<and> matches_any matches default_excludes k \<or> matches_any matches (exclude policy) k"

text \<open>What the documentation of the policy says, for one variable, on Unix.\<close>

definition env_of :: "merge_env \<Rightarrow> (rstr \<Rightarrow> rstr \<Rightarrow> bool) \<Rightarrow> env_map \<Rightarrow> ShellEnvironmentPolicy \<Rightarrow> rstr option \<Rightarrow> rstr \<rightharpoonup> rstr" where
  "env_of env matches vars policy thread_id k =
     (if is_non_inheritable_env_var k then None
      else if k = CODEX_THREAD_ID_ENV_VAR \<and> thread_id \<noteq> None then thread_id
      else if include_only policy \<noteq> [] \<and> \<not> matches_any matches (include_only policy) k then None
      else
        (case map_of (sets policy) k of
           Some v \<Rightarrow> Some v
         | None \<Rightarrow> if excluded matches policy k then None else inherited env vars policy k))"

lemma map_of_retain: "map_of (retain_env P m) k = (if P k then map_of m k else None)"
  by (induction m) (auto simp: retain_env_def)

lemma map_of_collect_env: "map_of (collect_env vars) = map_of (rev vars)"
proof -
  have "map_of (foldl (\<lambda>m kv. AList.update (fst kv) (snd kv) m) acc vs) = map_of acc ++ map_of (rev vs)" for acc vs :: env_map
    by (induction vs arbitrary: acc) (auto simp: update_conv' map_add_def fun_eq_iff split: option.splits)
  from this [of "[]"] show ?thesis by (simp add: collect_env_def)
qed

lemma map_of_filter_key:
  fixes m :: env_map
  shows "map_of (filter (\<lambda>kv. P (fst kv)) m) k = (if P k then map_of m k else None)"
  using map_of_retain [of P m k] by (simp add: retain_env_def)

lemma map_of_starting: "map_of (starting_env env vars (inherit policy)) k = inherited env vars policy k"
  by (simp add: starting_env_def inherited_def map_of_collect_env rev_filter map_of_filter_key
      split: ShellEnvironmentPolicyInherit.split)

lemma map_of_sets:
  assumes "\<not> windows env" "distinct (map fst assignments)"
  shows "map_of (apply_sets env assignments m) k = (case map_of assignments k of Some v \<Rightarrow> Some v | None \<Rightarrow> map_of m k)"
  using assms(2)
proof (induction assignments arbitrary: m)
  case (Cons kv kvs)
  then have "map_of kvs (fst kv) = None" by (simp add: map_of_eq_None_iff)
  with Cons.IH [of "AList.update (fst kv) (snd kv) m"] Cons.prems assms(1) show ?case
    by (auto simp: apply_sets_def update_conv' split: option.splits)
qed (simp add: apply_sets_def)

lemma matches_any_Nil [simp]: "matches_any matches [] k = False"
  by (simp add: matches_any_def)

lemma populate_env_meaning:
  assumes "\<not> windows env" "distinct (map fst (sets policy))"
  shows "map_of (populate_env env matches vars policy thread_id) k = env_of env matches vars policy thread_id k"
  by (auto simp: populate_env_def Let_def env_of_def map_of_retain map_of_sets [OF assms] map_of_starting excluded_def update_conv'
      split: option.split)

lemma restricted_not_populated: "is_non_inheritable_env_var k \<Longrightarrow> map_of (populate_env env matches vars policy thread_id) k = None"
  by (simp add: populate_env_def Let_def map_of_retain)

lemma restricted_constants: "name \<in> set NON_INHERITABLE_ENV_VARS \<Longrightarrow> restricted_name (OsStr name)"
  by (auto simp: is_non_inheritable_env_var_def list_ex_iff eq_ignore_ascii_case_def)

lemma fold_env_remove:
  "map_of (fold (\<lambda>name e. if P name then env_remove name e else e) names envs) k =
     (if k \<in> set names \<and> P k then Some None else map_of envs k)"
  by (induction names arbitrary: envs) (auto simp: env_remove_def update_conv')

lemma fold_remove_constants:
  "map_of (fold (\<lambda>name. env_remove (OsStr name)) names envs) k = (if k \<in> OsStr ` set names then Some None else map_of envs k)"
  by (induction names arbitrary: envs) (auto simp: env_remove_def update_conv')

lemma map_of_scrub:
  "map_of (scrub_non_inheritable_env_vars process envs) k =
     (if restricted_name k \<and> k \<in> fst ` set process \<union> fst ` set envs \<or> k \<in> OsStr ` set NON_INHERITABLE_ENV_VARS then Some None
      else map_of envs k)"
  by (auto simp: scrub_non_inheritable_env_vars_def Let_def fold_env_remove fold_remove_constants)

section \<open>Properties\<close>

text \<open>
  The environment of a command, on Unix: a variable is what the policy sets it to, or else what is
  inherited unless it is excluded, and it is left out if there is a list of variables to include that it
  is not on; the thread identifier is always there when the caller gives one, and restricted variables
  never are.
\<close>

theorem command_environment:
  assumes "\<not> windows env" "distinct (map fst (sets policy))"
  shows "map_of (create_env_from_vars env matches vars policy thread_id) k = env_of env matches vars policy thread_id k"
  using assms by (simp add: create_env_from_vars_def populate_env_meaning)

definition sample_policy :: ShellEnvironmentPolicy where
  "sample_policy = default_policy\<lparr>exclude := [lit ''A''], sets := [(lit ''B'', lit ''2'')]\<rparr>"

theorem command_environment_witness:
  "map_of (create_env_from_vars unix_env (=) [(lit ''A'', lit ''1''), (lit ''C'', lit ''3'')] sample_policy None) (lit ''A'') = None"
proof -
  have 1: "\<not> windows unix_env" "distinct (map fst (sets sample_policy))"
    by (simp_all add: unix_env_def sample_policy_def)
  show ?thesis unfolding command_environment [OF 1] by code_simp
qed

text \<open>
  C23. Restricted variables do not reach a child process: they are never in an environment that is built from
  a policy, on any platform, whatever the policy sets; and a command that is scrubbed passes none of them on,
  whether they come from the process or were set for the command, while all other variables stay as they are.
\<close>

theorem restricted_variables_not_inherited:
  "(is_non_inheritable_env_var k \<longrightarrow> map_of (create_env_from_vars env matches vars policy thread_id) k = None) \<and>
   child_env process (scrub_non_inheritable_env_vars process envs) name =
     (if restricted_name name then None else child_env process envs name)"
proof -
  have "\<not> is_non_inheritable_env_var (lit ''PATHEXT'')" by code_simp
  then have 1: "is_non_inheritable_env_var k \<longrightarrow> map_of (create_env_from_vars env matches vars policy thread_id) k = None"
    by (auto simp: create_env_from_vars_def Let_def update_conv' restricted_not_populated)
  have "map_of process name = None \<and> map_of envs name = None" if "name \<notin> fst ` set process \<union> fst ` set envs"
    using that by (simp add: map_of_eq_None_iff)
  then have 2: "child_env process (scrub_non_inheritable_env_vars process envs) name =
     (if restricted_name name then None else child_env process envs name)"
    using restricted_constants by (auto simp: child_env_def map_of_scrub split: option.splits)
  from 1 2 show ?thesis by blast
qed

theorem restricted_variables_not_inherited_witness:
  "child_env [(OsStr (lit ''node_repl_auth_token''), lit ''x'')]
     (scrub_non_inheritable_env_vars [(OsStr (lit ''node_repl_auth_token''), lit ''x'')] [(OsStr (lit ''A''), Some (lit ''y''))])
     (OsStr (lit ''node_repl_auth_token'')) = None"
proof -
  have "restricted_name (OsStr (lit ''node_repl_auth_token''))" by code_simp
  then show ?thesis by (simp add: restricted_variables_not_inherited [THEN conjunct2])
qed
end
