(* ===== verification/Path_Text.thy ===== *)
theory Path_Text
  imports Path_Uri
begin

text \<open>
  \<open>utils/path-uri/src/api_path_string.rs\<close>, \<open>config_path.rs\<close> and \<open>native_path_bytes.rs\<close>: paths as text. A
  \<open>LegacyAppPathString\<close> is its text. \<open>from_utf8_lossy\<close> and \<open>from_utf16_lossy\<close> are those of the standard
  library: what cannot be decoded becomes the replacement character.
\<close>

section \<open>Lossy decoding\<close>

definition REPLACEMENT_CHARACTER :: rchar where
  "REPLACEMENT_CHARACTER = 65533"

lemma utf8_step_Invalid: "utf8_step bs = Utf8Invalid k \<Longrightarrow> 1 \<le> k"
  by (auto simp: utf8_step_def split: list.splits option.splits if_splits)

function from_utf8_lossy :: "byte list \<Rightarrow> rstr" where
  "from_utf8_lossy bs =
     (if bs = [] then []
      else
        (case utf8_step bs of
           Utf8Char c n \<Rightarrow> c # from_utf8_lossy (drop n bs)
         | Utf8Invalid k \<Rightarrow> REPLACEMENT_CHARACTER # from_utf8_lossy (drop k bs)
         | Utf8Incomplete \<Rightarrow> [REPLACEMENT_CHARACTER]))"
  by pat_completeness auto

termination
  by (relation "measure length") (fastforce dest: utf8_step_Char utf8_step_Invalid)+

declare from_utf8_lossy.simps [simp del]

definition is_high_surrogate :: "nat \<Rightarrow> bool" where
  "is_high_surrogate u \<longleftrightarrow> 55296 \<le> u \<and> u \<le> 56319"

definition is_low_surrogate :: "nat \<Rightarrow> bool" where
  "is_low_surrogate u \<longleftrightarrow> 56320 \<le> u \<and> u \<le> 57343"

fun from_utf16_lossy :: "nat list \<Rightarrow> rstr" where
  "from_utf16_lossy [] = []"
| "from_utf16_lossy [u] = [if is_high_surrogate u \<or> is_low_surrogate u then REPLACEMENT_CHARACTER else u]"
| "from_utf16_lossy (u # v # us) =
     (if is_high_surrogate u then
        (if is_low_surrogate v then (65536 + (u - 55296) * 1024 + (v - 56320)) # from_utf16_lossy us
         else REPLACEMENT_CHARACTER # from_utf16_lossy (v # us))
      else if is_low_surrogate u then REPLACEMENT_CHARACTER # from_utf16_lossy (v # us)
      else u # from_utf16_lossy (v # us))"

section \<open>Rendering\<close>

datatype LegacyAppPathStringError =
    OpaqueFallback rstr
  | IncompatibleConvention rstr PathConvention
  | InvalidNativePath rstr "PathConvention option"
  | UnsupportedConfigPath rstr PathConvention
  | MissingBaseConvention rstr
  | MissingHomeDirectory rstr
  | MismatchedConvention rstr PathConvention rstr PathConvention
  | PathUriError PathUriParseError

definition decode_native_segment :: "uri_lib \<Rightarrow> rstr \<Rightarrow> rstr" where
  "decode_native_segment lb segment = from_utf8_lossy (percent_decode lb segment)"

definition render_posix_path :: "uri_lib \<Rightarrow> file_url \<Rightarrow> LegacyAppPathStringError + rstr" where
  "render_posix_path lb path =
     (if url_host path \<noteq> None then Err (IncompatibleConvention (url_as_str path) Posix)
      else Ok (concat (map (\<lambda>segment. 47 # decode_native_segment lb segment) (url_segments path))))"

definition is_drive_text :: "rstr \<Rightarrow> bool" where
  "is_drive_text drive = (case drive of [d, c] \<Rightarrow> is_ascii_alphabetic d \<and> c = 58 | _ \<Rightarrow> False)"

text \<open>What comes before the components: the UNC share or the drive.\<close>

definition render_anchor :: "uri_lib \<Rightarrow> file_url \<Rightarrow> (rstr \<times> rstr list) option" where
  "render_anchor lb path =
     (case url_segments path of
        [] \<Rightarrow> None
      | anchor # segments \<Rightarrow>
          (case url_host path of
             Some host \<Rightarrow>
               if decode_native_segment lb anchor = [] then None
               else Some ([92, 92] @ host @ [92] @ decode_native_segment lb anchor, segments)
           | None \<Rightarrow>
               if is_drive_text (decode_native_segment lb anchor) then Some (decode_native_segment lb anchor, segments) else None))"

definition render_windows_path :: "uri_lib \<Rightarrow> file_url \<Rightarrow> LegacyAppPathStringError + rstr" where
  "render_windows_path lb path =
     (case render_anchor lb path of
        None \<Rightarrow> Err (IncompatibleConvention (url_as_str path) Windows)
      | Some (anchor, segments) \<Rightarrow>
          (let rendered = anchor @ concat (map (\<lambda>segment. 92 # decode_native_segment lb segment) segments)
           in Ok (if length rendered = 2 \<and> rendered ! 1 = 58 then rendered @ [92] else rendered)))"

fun wide_units :: "byte list \<Rightarrow> nat list" where
  "wide_units (a # b # bytes) = (a + 256 * b) # wide_units bytes"
| "wide_units _ = []"

definition render_windows_opaque_fallback :: "byte list \<Rightarrow> rstr option" where
  "render_windows_opaque_fallback bytes =
     (if odd (length bytes) then None
      else
        (let wide = wide_units bytes in
         if is_windows_drive_absolute_path wide \<or> is_unc_path wide then Some (from_utf16_lossy wide) else None))"

definition render_opaque_fallback :: "file_url \<Rightarrow> byte list \<Rightarrow> PathConvention \<Rightarrow> LegacyAppPathStringError + rstr" where
  "render_opaque_fallback path bytes convention =
     (case (case convention of
              Posix \<Rightarrow> if starts_with bytes [47] then Some (from_utf8_lossy bytes) else None
            | Windows \<Rightarrow> render_windows_opaque_fallback bytes) of
        Some rendered \<Rightarrow> Ok rendered
      | None \<Rightarrow> Err (OpaqueFallback (url_as_str path)))"

definition from_path_uri :: "uri_lib \<Rightarrow> file_url \<Rightarrow> PathConvention \<Rightarrow> LegacyAppPathStringError + rstr" where
  "from_path_uri lb path convention =
     (case decode_bad_path_uri lb path of
        Some bytes \<Rightarrow> render_opaque_fallback path bytes convention
      | None \<Rightarrow>
          (case convention of Posix \<Rightarrow> render_posix_path lb path | Windows \<Rightarrow> render_windows_path lb path))"

definition inferred_native_path_string :: "uri_lib \<Rightarrow> file_url \<Rightarrow> rstr" where
  "inferred_native_path_string lb path =
     (case Option.bind (infer_convention lb path) (\<lambda>convention. ok_of (from_path_uri lb path convention)) of
        Some text \<Rightarrow> text
      | None \<Rightarrow> url_as_str path)"

section \<open>Reading\<close>

definition to_path_uri :: "uri_lib \<Rightarrow> rstr \<Rightarrow> PathConvention \<Rightarrow> LegacyAppPathStringError + file_url" where
  "to_path_uri lb path convention =
     (case from_absolute_native_path lb path convention of
        Some uri \<Rightarrow> Ok uri
      | None \<Rightarrow> Err (InvalidNativePath path (Some convention)))"

definition infer_absolute_path_convention :: "rstr \<Rightarrow> PathConvention option" where
  "infer_absolute_path_convention path =
     (if is_windows_drive_absolute_path path \<or> starts_with path [92, 92] then Some Windows
      else if starts_with path [47] then Some Posix
      else None)"

definition path_uri_from_text :: "uri_lib \<Rightarrow> rstr \<Rightarrow> LegacyAppPathStringError + file_url" where
  "path_uri_from_text lb path =
     (case infer_absolute_path_convention path of
        None \<Rightarrow> Err (InvalidNativePath path None)
      | Some convention \<Rightarrow>
          (case from_absolute_native_path lb path convention of
             Some uri \<Rightarrow> Ok uri
           | None \<Rightarrow> Err (InvalidNativePath path (Some convention))))"

definition to_inferred_path_uri :: "uri_lib \<Rightarrow> rstr \<Rightarrow> file_url option" where
  "to_inferred_path_uri lb path = ok_of (path_uri_from_text lb path)"

definition render_for_ui :: "uri_lib \<Rightarrow> rstr \<Rightarrow> rstr" where
  "render_for_ui lb path =
     (case to_inferred_path_uri lb path of Some uri \<Rightarrow> inferred_native_path_string lb uri | None \<Rightarrow> path)"

definition join_text :: "uri_lib \<Rightarrow> file_url \<Rightarrow> rstr \<Rightarrow> LegacyAppPathStringError + file_url" where
  "join_text lb base path = (case join_uri lb base path of Inr uri \<Rightarrow> Ok uri | Inl e \<Rightarrow> Err (PathUriError e))"

definition resolve_against :: "uri_lib \<Rightarrow> rstr \<Rightarrow> file_url \<Rightarrow> file_url option \<Rightarrow> LegacyAppPathStringError + file_url" where
  "resolve_against lb path cwd user_home_dir =
     (case infer_convention lb cwd of
        None \<Rightarrow> Err (MissingBaseConvention (url_as_str cwd))
      | Some convention \<Rightarrow>
          (case home_relative_suffix convention path of
             Some rest \<Rightarrow>
               (case user_home_dir of
                  None \<Rightarrow> Err (MissingHomeDirectory path)
                | Some home \<Rightarrow> join_text lb home (dropWhile (is_separator convention) rest))
           | None \<Rightarrow>
               if convention = Windows \<and> (starts_with path [47, 47] \<or> starts_with path [92, 92]) then to_path_uri lb path Windows
               else
                 (case infer_absolute_path_convention path of
                    Some path_convention \<Rightarrow>
                      if path_convention = convention then to_path_uri lb path convention
                      else if path_convention = Posix \<and> convention = Windows then join_text lb cwd path
                      else Err (MismatchedConvention path path_convention (url_as_str cwd) convention)
                  | None \<Rightarrow> join_text lb cwd path)))"

definition join_native_bytes :: "uri_lib \<Rightarrow> (byte list \<Rightarrow> rstr) \<Rightarrow> file_url \<Rightarrow> byte list \<Rightarrow> PathUriParseError + file_url" where
  "join_native_bytes lb encode_binary url path =
     (case from_utf8 path of
        Inr text \<Rightarrow> join_uri lb url text
      | Inl _ \<Rightarrow>
          if infer_convention lb url \<noteq> Some Posix \<or> is_opaque lb url \<or> 0 \<in> set path
          then Err (InvalidFileUriPath (url_as_str url))
          else
            (let base = (if starts_with path [47] then [] else names url);
                 segments = fold (\<lambda>component segments.
                     if component = [] \<or> component = lit ''.'' then segments
                     else if component = lit ''..'' then butlast segments
                     else segments @ [encode_binary component]) (split_on 47 path) base
             in case try_from_url lb (file_only (url\<lparr>url_segments := (if segments = [] then [[]] else segments)\<rparr>)) of
                  Inl e \<Rightarrow> Err e
                | Inr uri \<Rightarrow>
                    if infer_convention lb uri \<noteq> Some Posix then Err (InvalidFileUriPath (url_as_str uri)) else Ok uri))"

section \<open>Paths of the configuration\<close>

definition contains_glob_metacharacter :: "rstr \<Rightarrow> bool" where
  "contains_glob_metacharacter path \<longleftrightarrow> list_ex (\<lambda>c. c \<in> set [42, 63, 91, 93, 123, 125]) path"

definition without_drive :: "nat \<times> rstr \<Rightarrow> rstr" where
  "without_drive = (\<lambda>(index, segment).
     case segment of
       d # c # rest \<Rightarrow> if index = 0 \<and> is_ascii_alphabetic d \<and> c = 58 then rest else segment
     | _ \<Rightarrow> segment)"

definition has_windows_component_colon :: "rstr \<Rightarrow> bool" where
  "has_windows_component_colon path \<longleftrightarrow>
     list_ex (\<lambda>s. 58 \<in> set (without_drive s)) (List.enumerate 0 (path_segments Windows path))"

definition mixed_home_separators :: "rstr \<Rightarrow> bool" where
  "mixed_home_separators path =
     (case home_relative_suffix Windows path of
        None \<Rightarrow> False
      | Some rest \<Rightarrow>
          starts_with rest [47] \<and> starts_with (dropWhile (\<lambda>c. c = 47) rest) [92] \<or>
          starts_with rest [92] \<and> starts_with (dropWhile (\<lambda>c. c = 92) rest) [47])"

definition validate_config_path_text :: "rstr \<Rightarrow> PathConvention \<Rightarrow> LegacyAppPathStringError + unit" where
  "validate_config_path_text path convention =
     (let native_input = (case normalize_windows_device_path path of Some p \<Rightarrow> p | None \<Rightarrow> path) in
      if 0 \<in> set path \<or>
         convention = Windows \<and> has_windows_component_colon native_input \<or>
         convention = Windows \<and> mixed_home_separators path \<or>
         convention = Windows \<and> is_drive_text native_input
      then Err (UnsupportedConfigPath path convention) else Ok ())"

definition validate_config_path :: "uri_lib \<Rightarrow> file_url \<Rightarrow> PathConvention \<Rightarrow> LegacyAppPathStringError + unit" where
  "validate_config_path lb path convention =
     (if infer_convention lb path \<noteq> Some convention then Err (IncompatibleConvention (url_as_str path) convention)
      else if lexical_depth lb path = None \<or> 0 \<in> set (percent_decode lb (url_path path)) \<or>
              isl (from_utf8 (percent_decode lb (url_path path)))
      then Err (PathUriError (InvalidFileUriPath (url_as_str path)))
      else
        (case from_path_uri lb path convention of
           Inl e \<Rightarrow> Err e
         | Inr text \<Rightarrow> validate_config_path_text text convention))"

definition validate_glob_directory :: "uri_lib \<Rightarrow> file_url \<Rightarrow> PathConvention \<Rightarrow> LegacyAppPathStringError + unit" where
  "validate_glob_directory lb path convention =
     (case validate_config_path lb path convention of
        Inl e \<Rightarrow> Err e
      | Inr _ \<Rightarrow>
          (case from_path_uri lb path convention of
             Inl e \<Rightarrow> Err e
           | Inr text \<Rightarrow>
               if contains_glob_metacharacter text \<or> convention = Posix \<and> 92 \<in> set text
               then Err (UnsupportedConfigPath text convention) else Ok ()))"

text \<open>The directory a configuration path is relative to has to be a valid path, also inside a glob.\<close>

definition validate_base :: "uri_lib \<Rightarrow> rstr \<Rightarrow> PathConvention \<Rightarrow> file_url \<Rightarrow> LegacyAppPathStringError + unit" where
  "validate_base lb path convention base =
     (case validate_config_path lb base convention of
        Inl e \<Rightarrow> Err e
      | Inr _ \<Rightarrow> if contains_glob_metacharacter path then validate_glob_directory lb base convention else Ok ())"

definition resolve_config_base ::
    "uri_lib \<Rightarrow> rstr \<Rightarrow> PathConvention \<Rightarrow> file_url option \<Rightarrow> file_url option \<Rightarrow> LegacyAppPathStringError + file_url" where
  "resolve_config_base lb path convention base user_home_dir =
     (if home_relative_suffix convention path \<noteq> None then
        (case user_home_dir of
           None \<Rightarrow> Err (MissingHomeDirectory path)
         | Some home \<Rightarrow>
             (case validate_base lb path convention home of
                Inl e \<Rightarrow> Err e
              | Inr _ \<Rightarrow> resolve_against lb path home (Some home)))
      else
        (case to_path_uri lb path convention of
           Inr absolute \<Rightarrow> Ok absolute
         | Inl e \<Rightarrow>
             (case base of
                None \<Rightarrow> Err e
              | Some b \<Rightarrow>
                  (case validate_base lb path convention b of
                     Inl e' \<Rightarrow> Err e'
                   | Inr _ \<Rightarrow> resolve_against lb path b None))))"

definition resolve_config_path_uri ::
    "uri_lib \<Rightarrow> rstr \<Rightarrow> PathConvention \<Rightarrow> file_url option \<Rightarrow> file_url option \<Rightarrow> LegacyAppPathStringError + file_url" where
  "resolve_config_path_uri lb path convention base user_home_dir =
     (case validate_config_path_text path convention of
        Inl e \<Rightarrow> Err e
      | Inr _ \<Rightarrow>
          (case resolve_config_base lb path convention base user_home_dir of
             Inl e \<Rightarrow> Err e
           | Inr resolved \<Rightarrow>
               (case validate_config_path lb resolved convention of
                  Inl e \<Rightarrow> Err e
                | Inr _ \<Rightarrow> join_text lb resolved (lit ''.''))))"

definition to_config_path_string :: "uri_lib \<Rightarrow> file_url \<Rightarrow> PathConvention \<Rightarrow> LegacyAppPathStringError + rstr" where
  "to_config_path_string lb path convention =
     (case from_path_uri lb path convention of
        Inl e \<Rightarrow> Err e
      | Inr rendered \<Rightarrow> Ok (if url_host path \<noteq> None \<and> uri_parent lb path = None then rendered @ [92] else rendered))"

definition resolve_config_path ::
    "uri_lib \<Rightarrow> rstr \<Rightarrow> PathConvention \<Rightarrow> file_url option \<Rightarrow> file_url option \<Rightarrow> LegacyAppPathStringError + rstr" where
  "resolve_config_path lb path convention base user_home_dir =
     (case resolve_config_path_uri lb path convention base user_home_dir of
        Inl e \<Rightarrow> Err e
      | Inr uri \<Rightarrow> to_config_path_string lb uri convention)"

section \<open>Texts that survive\<close>

lemma from_utf8_lossy_encode: "list_all is_scalar t \<Longrightarrow> from_utf8_lossy (utf8_encode t) = t"
proof (induction t)
  case Nil
  show ?case by (simp add: utf8_encode_def from_utf8_lossy.simps)
next
  case (Cons c t)
  have split: "utf8_encode (c # t) = utf8_encode_char c @ utf8_encode t" by (simp add: utf8_encode_def)
  have step: "utf8_step (utf8_encode_char c @ utf8_encode t) = Utf8Char c (length (utf8_encode_char c))"
    using Cons.prems by (intro utf8_step_encode) simp
  show ?case using Cons step utf8_encode_char_not_Nil [of c] by (simp add: split from_utf8_lossy.simps [of "utf8_encode_char c @ utf8_encode t"])
qed

text \<open>
  Names that the crate \<open>url\<close> keeps as they are up to percent encoding: no separator, no control character it
  drops, no vertical bar, which it takes for the colon of a drive.
\<close>

definition ordinary_name :: "rstr \<Rightarrow> bool" where
  "ordinary_name s \<longleftrightarrow>
     s \<noteq> [] \<and> s \<noteq> lit ''.'' \<and> s \<noteq> lit ''..'' \<and> list_all is_scalar s \<and>
     list_all (\<lambda>c. c \<notin> set [0, 9, 10, 13, 47, 124]) s"

definition text_laws :: "uri_lib \<Rightarrow> bool" where
  "text_laws lb \<longleftrightarrow>
     (\<exists>enc. \<forall>s. ordinary_name s \<longrightarrow>
        (\<forall>segments. push_segment lb s segments = (if segments = [[]] then [enc s] else segments @ [enc s])) \<and>
        percent_decode lb (enc s) = utf8_encode s) \<and>
     (\<forall>bytes. b64_decode lb (b64_encode lb bytes) = Some bytes) \<and>
     (\<forall>bytes. bytes \<noteq> [] \<longrightarrow> b64_encode lb bytes \<noteq> [] \<and> 47 \<notin> set (b64_encode lb bytes))"

definition posix_text :: "rstr list \<Rightarrow> rstr" where
  "posix_text ns = concat (map (\<lambda>n. 47 # n) ns)"

lemma posix_text_join: "ns \<noteq> [] \<Longrightarrow> posix_text ns = 47 # join_with [47] ns"
  by (induction ns rule: induct_list012) (auto simp: posix_text_def)

lemma split_posix: "ns \<noteq> [] \<Longrightarrow> (\<And>n. n \<in> set ns \<Longrightarrow> 47 \<notin> set n) \<Longrightarrow> split_on 47 (join_with [47] ns) = ns"
  by (induction ns rule: induct_list012) (auto simp: split_on_none split_on_append_sep)

lemma resolve_ordinary:
  "list_all ordinary_name ns \<Longrightarrow>
   resolve_dots anchor normalized depth False ns = (normalized @ ns, depth + length ns, False)"
  by (induction ns arbitrary: normalized depth) (auto simp: ordinary_name_def)

lemma fold_push:
  assumes push: "\<And>s segments. ordinary_name s \<Longrightarrow> push_segment lb s segments = (if segments = [[]] then [enc s] else segments @ [enc s])"
    and ne: "\<And>s. ordinary_name s \<Longrightarrow> enc s \<noteq> []"
  shows "list_all ordinary_name ns \<Longrightarrow> segments \<noteq> [[]] \<Longrightarrow> fold (push_segment lb) ns segments = segments @ map enc ns"
    and "list_all ordinary_name (n # ns) \<Longrightarrow> fold (push_segment lb) (n # ns) [[]] = map enc (n # ns)"
proof -
  show many: "list_all ordinary_name ns \<Longrightarrow> segments \<noteq> [[]] \<Longrightarrow> fold (push_segment lb) ns segments = segments @ map enc ns"
    for ns segments by (induction ns arbitrary: segments) (auto simp: push ne append_eq_Cons_conv)
  assume "list_all ordinary_name (n # ns)"
  thus "fold (push_segment lb) (n # ns) [[]] = map enc (n # ns)" using many [of ns "[enc n]"] by (simp add: push ne)
qed

lemma decode_path:
  assumes laws: "uri_laws lb"
  shows "segments \<noteq> [] \<Longrightarrow> percent_decode lb (url_path (url\<lparr>url_segments := segments\<rparr>)) =
    concat (map (\<lambda>s. 47 # percent_decode lb s) segments)"
proof (induction segments rule: rev_nonempty_induct)
  case (single s)
  have "url_path (url\<lparr>url_segments := [s]\<rparr>) = [] @ 47 # s" by (simp add: url_path_def)
  thus ?case by (simp add: decode_slash [OF laws] decode_nil [OF laws] del: append_Nil)
next
  case (snoc s segments)
  thus ?case by (simp add: url_path_snoc decode_slash [OF laws])
qed

lemma opaque_bytes:
  assumes "text_laws lb" and "bytes \<noteq> []"
  shows "decode_bad_path_uri lb (from_opaque_path_bytes lb bytes) = Some bytes"
proof -
  have "url_as_str (from_opaque_path_bytes lb bytes) = BAD_PATH_URI_PREFIX @ b64_encode lb bytes"
    by (simp add: url_as_str_def from_opaque_path_bytes_def url_path_def BAD_PATH_URI_PREFIX_def lit_def)
  thus ?thesis using assms by (simp add: decode_bad_path_uri_def text_laws_def)
qed

lemma drive_iff:
  "is_windows_drive_uri_segment s \<longleftrightarrow>
   (\<exists>d. is_ascii_alphabetic d \<and> (s = [d, 58] \<or> s = [d, 37, 51, 65] \<or> s = [d, 37, 51, 97]))"
  by (auto simp: is_windows_drive_uri_segment_def split: list.split)

lemma upper_alphabetic: "is_ascii_alphabetic d \<Longrightarrow> is_ascii_alphabetic (to_ascii_upper d)"
  by (auto simp: is_ascii_alphabetic_def to_ascii_upper_def)

lemma upper_drive_drive:
  assumes "is_windows_drive_uri_segment s"
  shows "\<exists>t. upper_drive (s # segments) = t # segments \<and> is_windows_drive_uri_segment t"
proof -
  obtain d rest where d: "s = d # rest" using assms by (auto simp: drive_iff)
  have "is_windows_drive_uri_segment (to_ascii_upper d # rest)" using assms upper_alphabetic by (auto simp: drive_iff d)
  thus ?thesis using assms d by simp
qed

lemma drive_is_windows:
  assumes "url_host url = None" and "url_segments url = s # segments" and drive: "is_windows_drive_uri_segment s"
  shows "infer_convention lb url = Some Windows"
proof -
  obtain c rest where c: "s = c # rest" "c \<noteq> 37" using drive by (auto simp: drive_iff is_ascii_alphabetic_def)
  have "decode_bad_path_uri lb url = None"
  proof (rule ccontr)
    assume "decode_bad_path_uri lb url \<noteq> None"
    then obtain enc where "url_as_str url = BAD_PATH_URI_PREFIX @ enc"
      by (auto simp: decode_bad_path_uri_def strip_prefix_Some split: option.splits)
    thus False using assms c by (cases segments) (auto simp: url_as_str_def url_path_def BAD_PATH_URI_PREFIX_def lit_def)
  qed
  moreover have "names url = s # filter (\<lambda>t. t \<noteq> []) segments" using assms c by (simp add: names_def)
  ultimately show ?thesis using assms drive by (simp add: infer_convention_def)
qed

lemma ordinary_chars: "ordinary_name s \<Longrightarrow> 47 \<notin> set s \<and> 0 \<notin> set s \<and> list_all is_scalar s \<and> s \<noteq> []"
  by (auto simp: ordinary_name_def list_all_iff)

lemma utf8_encode_append: "utf8_encode (a @ b) = utf8_encode a @ utf8_encode b"
  by (simp add: utf8_encode_def)

lemma utf8_encode_zero: "0 \<notin> set s \<Longrightarrow> 0 \<notin> set (utf8_encode s)"
  by (induction s) (auto simp: utf8_encode_def utf8_encode_char_def split: if_splits)

lemma utf8_encode_eq_Nil: "utf8_encode s = [] \<longleftrightarrow> s = []"
  using utf8_encode_char_not_Nil by (cases s) (auto simp: utf8_encode_def)

lemma posix_text_scalar:
  assumes "list_all ordinary_name ns" and "ns \<noteq> []"
  shows "list_all is_scalar (posix_text ns)" and "0 \<notin> set (posix_text ns)" and "starts_with (utf8_encode (posix_text ns)) [47]"
proof -
  show "list_all is_scalar (posix_text ns)" "0 \<notin> set (posix_text ns)"
    using assms(1) by (induction ns) (auto simp: posix_text_def is_scalar_def dest: ordinary_chars)
  have "utf8_encode (posix_text ns) = 47 # utf8_encode (join_with [47] ns)"
    using posix_text_join [OF assms(2)] by (simp add: utf8_encode_def utf8_encode_char_def)
  thus "starts_with (utf8_encode (posix_text ns)) [47]" by (simp add: starts_with_def)
qed

lemma opaque_roundtrip:
  assumes "text_laws lb" and ns: "list_all ordinary_name ns" "ns \<noteq> []"
  shows "from_path_uri lb (from_opaque_path_bytes lb (utf8_encode (posix_text ns))) Posix = Ok (posix_text ns)"
proof -
  have "utf8_encode (posix_text ns) \<noteq> []" using posix_text_scalar(3) [OF ns] by (auto simp: starts_with_def)
  thus ?thesis
    using opaque_bytes [OF assms(1)] posix_text_scalar [OF ns] from_utf8_lossy_encode
    by (simp add: from_path_uri_def render_opaque_fallback_def)
qed

lemma encoded_segments:
  assumes laws: "uri_laws lb" "text_laws lb" and ns: "list_all ordinary_name ns" "ns \<noteq> []"
  obtains encs where "fold (push_segment lb) ns [[]] = encs" "map (percent_decode lb) encs = map utf8_encode ns" "[] \<notin> set encs" "encs \<noteq> []"
proof -
  obtain enc where enc: "\<And>s. ordinary_name s \<Longrightarrow> (\<forall>segments. push_segment lb s segments = (if segments = [[]] then [enc s] else segments @ [enc s]))"
    "\<And>s. ordinary_name s \<Longrightarrow> percent_decode lb (enc s) = utf8_encode s"
    using laws(2) by (auto simp: text_laws_def)
  have ne: "enc s \<noteq> []" if "ordinary_name s" for s
  proof
    assume "enc s = []"
    thus False using enc(2) [OF that] ordinary_chars [OF that] decode_nil [OF laws(1)] utf8_encode_eq_Nil [of s] by simp
  qed
  obtain n rest where n: "ns = n # rest" using ns(2) by (cases ns) auto
  have "fold (push_segment lb) ns [[]] = map enc ns"
    unfolding n using ns(1) enc(1) ne by (intro fold_push(2)) (auto simp: n)
  moreover have "map (percent_decode lb) (map enc ns) = map utf8_encode ns" using ns(1) enc(2) by (simp add: list_all_iff)
  moreover have "[] \<notin> set (map enc ns)" using ns(1) ne by (fastforce simp: list_all_iff)
  ultimately show ?thesis using that ns(2) by simp
qed

lemma parse_posix_text:
  assumes laws: "uri_laws lb" "text_laws lb" and ns: "list_all ordinary_name ns" "ns \<noteq> []"
  shows "\<exists>uri. parse_posix_path lb (posix_text ns) = Some uri \<and>
    (infer_convention lb uri = Some Posix \<longrightarrow> url_host uri = None \<and> \<not> is_opaque lb uri \<and> map (percent_decode lb) (url_segments uri) = map utf8_encode ns)"
proof -
  obtain encs where encs: "fold (push_segment lb) ns [[]] = encs" "map (percent_decode lb) encs = map utf8_encode ns" "[] \<notin> set encs" "encs \<noteq> []"
    using encoded_segments [OF laws ns] by blast
  define url where "url = \<lparr>url_host = None, url_segments = encs\<rparr>"
  have "percent_decode lb (url_path url) = concat (map (\<lambda>s. 47 # s) (map (percent_decode lb) encs))"
    using decode_path [OF laws(1) encs(4), of url] by (simp add: url_def comp_def)
  hence free: "nul_free lb url"
    using ns(1) encs(2) by (auto simp: nul_free_def list_all_iff dest!: ordinary_chars utf8_encode_zero)
  have stripped: "strip_prefix [47] (posix_text ns) = Some (join_with [47] ns)" using posix_text_join [OF ns(2)] by simp
  have zero: "0 \<notin> set (join_with [47] ns)" using posix_text_scalar(2) [OF ns] posix_text_join [OF ns(2)] by simp
  have split: "split_on 47 (join_with [47] ns) = ns" using ns ordinary_chars by (intro split_posix) (auto simp: list_all_iff)
  have parsed: "parse_posix_path lb (posix_text ns) = ok_of (try_from_url lb (file_only url))"
    using stripped zero by (simp add: parse_posix_path_def path_uri_from_segments_def split resolve_ordinary [OF ns(1)] encs(1) url_def)
  have part: "file_part (file_only url) = url" by (simp add: file_part_def file_only_def)
  obtain e es where e: "encs = e # es" "e \<noteq> []" using encs(3,4) by (cases encs) auto
  show ?thesis
  proof (cases "is_windows_drive_uri_segment e")
    case True
    obtain t where t: "upper_drive encs = t # es" "is_windows_drive_uri_segment t" using upper_drive_drive [OF True] e by auto
    have "try_from_url lb (file_only url) = Ok (url\<lparr>url_segments := t # es\<rparr>)"
      using free t(1) by (simp add: try_from_url_def validate_file_url_def validate_common_known_uri_def nul_free_def part
          without_localhost_authority_def with_normalized_windows_drive_letter_def) (simp add: file_only_def url_def)
    moreover have "infer_convention lb (url\<lparr>url_segments := t # es\<rparr>) = Some Windows"
      using t(2) by (intro drive_is_windows) (auto simp: url_def)
    ultimately show ?thesis using parsed by (simp add: ok_of_def)
  next
    case False
    have "names url = encs" using encs(3) by (simp add: names_def url_def filter_id_conv) metis
    hence "try_from_url lb (file_only url) = Ok url"
      using False e by (intro try_from_posix [OF laws(1) _ free]) (auto simp: url_def)
    thus ?thesis using parsed encs(2) nul_free_not_opaque [OF laws(1) free] by (simp add: ok_of_def url_def)
  qed
qed

lemma render_segments:
  assumes "map (percent_decode lb) segments = map utf8_encode ns" and "list_all ordinary_name ns"
  shows "concat (map (\<lambda>segment. 47 # decode_native_segment lb segment) segments) = posix_text ns"
proof -
  have "map (decode_native_segment lb) segments = map from_utf8_lossy (map (percent_decode lb) segments)"
    by (simp add: decode_native_segment_def)
  also have "\<dots> = ns" unfolding assms(1) using assms(2) by (auto simp: list_all_iff from_utf8_lossy_encode dest!: ordinary_chars intro!: map_idI)
  finally have "map (\<lambda>segment. 47 # decode_native_segment lb segment) segments = map (\<lambda>n. 47 # n) ns"
    by (metis (mono_tags, lifting) comp_def map_map map_eq_conv)
  thus ?thesis by (simp add: posix_text_def)
qed

section \<open>Concrete crates\<close>

text \<open>Functions that satisfy the laws, for concrete runs.\<close>

definition hex_digit :: "rchar \<Rightarrow> nat option" where
  "hex_digit c =
     (if 48 \<le> c \<and> c \<le> 57 then Some (c - 48)
      else if 65 \<le> c \<and> c \<le> 70 then Some (c - 55)
      else if 97 \<le> c \<and> c \<le> 102 then Some (c - 87)
      else None)"

fun escape_of :: "rstr \<Rightarrow> (nat \<times> rstr) option" where
  "escape_of (p # a # b # rest) =
     (if p = 37 then (case (hex_digit a, hex_digit b) of (Some x, Some y) \<Rightarrow> Some (16 * x + y, rest) | _ \<Rightarrow> None) else None)"
| "escape_of _ = None"

lemma escape_of_shorter: "escape_of s = Some (x, rest) \<Longrightarrow> length rest < length s"
  by (induction s rule: escape_of.induct) (auto split: if_splits option.splits)

function decode_escapes :: "rstr \<Rightarrow> byte list" where
  "decode_escapes s =
     (case escape_of s of
        Some (x, rest) \<Rightarrow> x # decode_escapes rest
      | None \<Rightarrow> (case s of [] \<Rightarrow> [] | c # rest \<Rightarrow> utf8_encode_char c @ decode_escapes rest))"
  by pat_completeness auto

termination
  by (relation "measure length") (auto dest: escape_of_shorter)

declare decode_escapes.simps [simp del]

lemma decode_escapes_Nil [simp]: "decode_escapes [] = []"
  by (simp add: decode_escapes.simps)

lemma escape_of_slash: "escape_of (47 # s) = None"
proof (cases s)
  case (Cons a r)
  thus ?thesis by (cases r) simp_all
qed simp

lemma escape_of_append:
  "escape_of (s @ 47 # t) = (case escape_of s of Some (x, rest) \<Rightarrow> Some (x, rest @ 47 # t) | None \<Rightarrow> None)"
  by (cases s rule: escape_of.cases; cases t) (auto simp: hex_digit_def escape_of_slash split: option.splits if_splits)

lemma decode_escapes_append: "decode_escapes (s @ 47 # t) = decode_escapes s @ 47 # decode_escapes t"
proof (induction s rule: decode_escapes.induct)
  case (1 s)
  show ?case
  proof (cases "escape_of s")
    case (Some e)
    obtain x rest where e: "e = (x, rest)" by (cases e)
    have "decode_escapes (rest @ 47 # t) = decode_escapes rest @ 47 # decode_escapes t" using "1.IH" Some e by blast
    thus ?thesis using Some e by (simp add: decode_escapes.simps [of s] decode_escapes.simps [of "s @ 47 # t"] escape_of_append)
  next
    case None
    show ?thesis
    proof (cases s)
      case Nil
      thus ?thesis by (simp add: decode_escapes.simps [of "47 # t"] escape_of_slash utf8_encode_char_def)
    next
      case (Cons c rest)
      have "decode_escapes (rest @ 47 # t) = decode_escapes rest @ 47 # decode_escapes t" using "1.IH" None Cons by blast
      thus ?thesis using None Cons
        by (simp add: decode_escapes.simps [of "c # rest"] decode_escapes.simps [of "c # rest @ 47 # t"] escape_of_append [of "c # rest", simplified])
    qed
  qed
qed

lemma escape_of_plain: "37 \<notin> set s \<Longrightarrow> escape_of s = None"
  by (induction s rule: escape_of.induct) auto

lemma decode_escapes_plain: "37 \<notin> set s \<Longrightarrow> decode_escapes s = utf8_encode s"
proof (induction s)
  case (Cons c s)
  thus ?case using escape_of_plain [OF Cons.prems] by (simp add: decode_escapes.simps [of "c # s"] utf8_encode_def)
qed (simp add: utf8_encode_def)

definition hex_char :: "nat \<Rightarrow> rchar" where
  "hex_char d = (if d < 10 then 48 + d else 55 + d)"

definition unreserved :: "byte \<Rightarrow> bool" where
  "unreserved c \<longleftrightarrow> is_ascii_alphabetic c \<or> is_ascii_digit c \<or> c = 45 \<or> c = 46 \<or> c = 95"

definition encode_byte :: "byte \<Rightarrow> rstr" where
  "encode_byte b = (if unreserved b then [b] else [37, hex_char (b div 16), hex_char (b mod 16)])"

definition percent_encode :: "rstr \<Rightarrow> rstr" where
  "percent_encode s = concat (map encode_byte (utf8_encode s))"

lemma hex_digit_char: "d < 16 \<Longrightarrow> hex_digit (hex_char d) = Some d"
  by (auto simp: hex_digit_def hex_char_def)

lemma unreserved_ascii: "unreserved b \<Longrightarrow> b < 128 \<and> b \<noteq> 37"
  by (auto simp: unreserved_def is_ascii_alphabetic_def is_ascii_digit_def)

lemma escape_of_other: "c \<noteq> 37 \<Longrightarrow> escape_of (c # s) = None"
  by (cases s; cases "tl s") auto

lemma decode_byte: "b < 256 \<Longrightarrow> decode_escapes (encode_byte b @ r) = b # decode_escapes r"
proof (cases "unreserved b")
  case True
  thus ?thesis using unreserved_ascii [OF True]
    by (simp add: encode_byte_def decode_escapes.simps [of "b # r"] escape_of_other utf8_encode_char_def)
next
  case False
  assume "b < 256"
  hence "hex_digit (hex_char (b div 16)) = Some (b div 16)" "hex_digit (hex_char (b mod 16)) = Some (b mod 16)"
    by (auto intro: hex_digit_char)
  thus ?thesis using False by (simp add: encode_byte_def decode_escapes.simps [of "37 # hex_char (b div 16) # hex_char (b mod 16) # r"])
qed

lemma decode_bytes: "(\<And>b. b \<in> set bs \<Longrightarrow> b < 256) \<Longrightarrow> decode_escapes (concat (map encode_byte bs)) = bs"
  by (induction bs) (auto simp: decode_byte)

lemma utf8_encode_bytes: "list_all is_scalar s \<Longrightarrow> b \<in> set (utf8_encode s) \<Longrightarrow> b < 256"
  by (induction s) (auto simp: utf8_encode_def utf8_encode_char_def is_scalar_def split: if_splits)

lemma percent_encode_plain: "plain_name s \<Longrightarrow> percent_encode s = s"
proof -
  assume plain: "plain_name s"
  hence "utf8_encode s = s" by (intro utf8_encode_ascii) (auto dest: plain_ascii)
  moreover have "concat (map encode_byte s) = s" if "list_all unreserved s" using that by (induction s) (auto simp: encode_byte_def)
  moreover have "list_all unreserved s" using plain by (auto simp: plain_name_def unreserved_def list_all_iff)
  ultimately show ?thesis by (simp add: percent_encode_def)
qed

text \<open>Any injective encoding of bytes without slashes serves for the opaque paths.\<close>

definition unary_encode :: "byte list \<Rightarrow> rstr" where
  "unary_encode bytes = concat (map (\<lambda>b. replicate b 65 @ [66]) bytes)"

fun unary_decode :: "nat \<Rightarrow> rstr \<Rightarrow> byte list" where
  "unary_decode n [] = []"
| "unary_decode n (c # s) = (if c = 66 then n # unary_decode 0 s else unary_decode (Suc n) s)"

lemma unary_decode_replicate: "unary_decode n (replicate b 65 @ 66 # s) = (n + b) # unary_decode 0 s"
  by (induction b arbitrary: n) auto

lemma unary_roundtrip: "unary_decode 0 (unary_encode bytes) = bytes"
  by (induction bytes) (auto simp: unary_encode_def unary_decode_replicate)

definition sample_lib :: uri_lib where
  "sample_lib =
     \<lparr>parse_url = (\<lambda>s. Err s), from_file_path = (\<lambda>_. None),
      push_segment = (\<lambda>s segments. if segments = [[]] then [percent_encode s] else segments @ [percent_encode s]),
      parse_host = Some, percent_decode = decode_escapes, b64_decode = (\<lambda>s. Some (unary_decode 0 s)), b64_encode = unary_encode\<rparr>"

lemma sample_lib_laws: "uri_laws sample_lib"
proof -
  have "decode_escapes (lit ''%00'') = [0]" by (simp add: lit_def decode_escapes.simps hex_digit_def)
  thus ?thesis by (simp add: uri_laws_def sample_lib_def decode_escapes_append decode_escapes_plain percent_encode_plain)
qed

lemma sample_lib_text_laws: "text_laws sample_lib"
proof -
  have "decode_escapes (percent_encode s) = utf8_encode s" if "ordinary_name s" for s
    unfolding percent_encode_def using utf8_encode_bytes ordinary_chars [OF that] by (intro decode_bytes) blast
  moreover have "unary_encode bytes \<noteq> [] \<and> 47 \<notin> set (unary_encode bytes)" if "bytes \<noteq> []" for bytes
    using that by (cases bytes) (auto simp: unary_encode_def)
  ultimately show ?thesis by (auto simp: text_laws_def sample_lib_def unary_roundtrip)
qed

section \<open>Properties\<close>

text \<open>
  C19. A POSIX path survives as a URI: an absolute path of ordinary names is read as a \<open>PathUri\<close>, and rendering
  that URI gives the same text. This holds also for paths such as \<open>/c:/src\<close> that look like Windows paths in
  URI form; these are kept as opaque bytes.
\<close>

theorem native_path_roundtrip:
  assumes "uri_laws lb" and "text_laws lb" and "list_all ordinary_name ns" and "ns \<noteq> []"
  shows "\<exists>uri. to_path_uri lb (posix_text ns) Posix = Ok uri \<and> from_path_uri lb uri Posix = Ok (posix_text ns)"
proof -
  obtain uri where uri: "parse_posix_path lb (posix_text ns) = Some uri"
    "infer_convention lb uri = Some Posix \<longrightarrow> url_host uri = None \<and> \<not> is_opaque lb uri \<and> map (percent_decode lb) (url_segments uri) = map utf8_encode ns"
    using parse_posix_text [OF assms] by blast
  show ?thesis
  proof (cases "infer_convention lb uri = Some Posix")
    case True
    hence "to_path_uri lb (posix_text ns) Posix = Ok uri" using uri by (simp add: to_path_uri_def from_absolute_native_path_def)
    moreover have "from_path_uri lb uri Posix = Ok (posix_text ns)"
      using uri(2) True render_segments [OF _ assms(3)] by (simp add: from_path_uri_def is_opaque_def render_posix_path_def)
    ultimately show ?thesis by blast
  next
    case False
    hence "to_path_uri lb (posix_text ns) Posix = Ok (from_opaque_path_bytes lb (utf8_encode (posix_text ns)))"
      using uri(1) by (simp add: to_path_uri_def from_absolute_native_path_def)
    thus ?thesis using opaque_roundtrip [OF assms(2-4)] by blast
  qed
qed

theorem native_path_roundtrip_witness:
  "\<exists>uri. to_path_uri sample_lib (posix_text [lit ''c:'', [233, 32, 37]]) Posix = Ok uri \<and>
     from_path_uri sample_lib uri Posix = Ok (posix_text [lit ''c:'', [233, 32, 37]])"
proof (rule native_path_roundtrip [OF sample_lib_laws sample_lib_text_laws])
  show "list_all ordinary_name [lit ''c:'', [233, 32, 37]]" by code_simp
qed simp

end
