(* ===== verification/Sandbox_Policy.thy ===== *)
theory Sandbox_Policy
  imports Path_Text "HOL-Library.Product_Lexorder"
begin

text \<open>
  \<open>protocol/src/permissions.rs\<close>: the file system permissions of a sandbox.

  A policy lists paths with an access mode; the entries that contain a path compete, the deepest one decides,
  and among entries of one depth a denial beats a write and a write beats a read. The paths are \<open>PathUri\<close>s,
  modelled in \<open>Path_Uri\<close>; \<open>native\<close> is the convention of a Unix host. The record \<open>sandbox_host\<close> holds what the
  code asks the machine: the home directory, the current directory, \<open>TMPDIR\<close> and the files.
\<close>

section \<open>Types\<close>

datatype FileSystemAccessMode = Read | Write | Deny

text \<open>The derived order is the precedence among equally specific entries.\<close>

fun access_rank :: "FileSystemAccessMode \<Rightarrow> nat" where
  "access_rank Read = 0"
| "access_rank Write = 1"
| "access_rank Deny = 2"

lemma access_rank_inj: "access_rank a = access_rank b \<Longrightarrow> a = b"
  by (cases a; cases b) auto

instantiation FileSystemAccessMode :: linorder
begin

definition less_eq_FileSystemAccessMode :: "FileSystemAccessMode \<Rightarrow> FileSystemAccessMode \<Rightarrow> bool" where
  "less_eq_FileSystemAccessMode a b \<longleftrightarrow> access_rank a \<le> access_rank b"

definition less_FileSystemAccessMode :: "FileSystemAccessMode \<Rightarrow> FileSystemAccessMode \<Rightarrow> bool" where
  "less_FileSystemAccessMode a b \<longleftrightarrow> access_rank a < access_rank b"

instance
  by standard (auto simp: less_eq_FileSystemAccessMode_def less_FileSystemAccessMode_def intro: access_rank_inj)

end

definition can_read :: "FileSystemAccessMode \<Rightarrow> bool" where
  "can_read access \<longleftrightarrow> access \<noteq> Deny"

definition can_write :: "FileSystemAccessMode \<Rightarrow> bool" where
  "can_write access \<longleftrightarrow> access = Write"

datatype FileSystemSpecialPath =
    Root
  | Minimal
  | ProjectRoots "rstr option"
  | Tmpdir
  | SlashTmp
  | UnknownPath rstr "rstr option"

datatype FileSystemPath =
    PathEntry file_url
  | GlobPattern rstr
  | Special FileSystemSpecialPath

datatype FileSystemSandboxEntryMissingPathBehavior = Skip

record FileSystemSandboxEntry =
  entry_path :: FileSystemPath
  entry_access :: FileSystemAccessMode
  missing_path_behavior :: "FileSystemSandboxEntryMissingPathBehavior option"

definition new_entry :: "FileSystemPath \<Rightarrow> FileSystemAccessMode \<Rightarrow> FileSystemSandboxEntry" where
  "new_entry path access = \<lparr>entry_path = path, entry_access = access, missing_path_behavior = None\<rparr>"

definition skip_missing_path :: "FileSystemPath \<Rightarrow> FileSystemAccessMode \<Rightarrow> FileSystemSandboxEntry" where
  "skip_missing_path path access = \<lparr>entry_path = path, entry_access = access, missing_path_behavior = Some Skip\<rparr>"

definition skips_missing_path :: "FileSystemSandboxEntry \<Rightarrow> bool" where
  "skips_missing_path entry \<longleftrightarrow> missing_path_behavior entry = Some Skip"

datatype FileSystemSandboxKind = Restricted | Unrestricted | ExternalSandboxKind

record FileSystemSandboxPolicy =
  sandbox_kind :: FileSystemSandboxKind
  glob_scan_max_depth :: "nat option"
  sandbox_entries :: "FileSystemSandboxEntry list"

record FileSystemSandboxPolicyContext =
  context_cwd :: file_url
  workspace_roots :: "file_url list"
  user_home_dir :: "file_url option"
  temporary_directories :: "file_url list option"

definition unrestricted :: FileSystemSandboxPolicy where
  "unrestricted = \<lparr>sandbox_kind = Unrestricted, glob_scan_max_depth = None, sandbox_entries = []\<rparr>"

definition external_sandbox :: FileSystemSandboxPolicy where
  "external_sandbox = \<lparr>sandbox_kind = ExternalSandboxKind, glob_scan_max_depth = None, sandbox_entries = []\<rparr>"

definition restricted :: "FileSystemSandboxEntry list \<Rightarrow> FileSystemSandboxPolicy" where
  "restricted entries = \<lparr>sandbox_kind = Restricted, glob_scan_max_depth = None, sandbox_entries = entries\<rparr>"

definition read_only_file_system_entries :: "FileSystemSandboxEntry list" where
  "read_only_file_system_entries = [new_entry (Special Root) Read]"

definition read_only :: FileSystemSandboxPolicy where
  "read_only = restricted read_only_file_system_entries"

definition remove_skip_missing_path_entries :: "FileSystemSandboxPolicy \<Rightarrow> FileSystemSandboxPolicy" where
  "remove_skip_missing_path_entries policy =
     policy\<lparr>sandbox_entries := filter (\<lambda>entry. \<not> skips_missing_path entry) (sandbox_entries policy)\<rparr>"

definition PROTECTED_METADATA_PATH_NAMES :: "rstr list" where
  "PROTECTED_METADATA_PATH_NAMES = [lit ''.git'', lit ''.agents'', lit ''.codex'']"

definition is_protected_metadata_name :: "rstr \<Rightarrow> bool" where
  "is_protected_metadata_name name \<longleftrightarrow> list_ex (\<lambda>metadata_name. name = metadata_name) PROTECTED_METADATA_PATH_NAMES"

section \<open>Equality of entries\<close>

text \<open>The derived equality compares paths as \<open>PathUri\<close> does.\<close>

fun path_eq :: "uri_lib \<Rightarrow> FileSystemPath \<Rightarrow> FileSystemPath \<Rightarrow> bool" where
  "path_eq lb (PathEntry a) (PathEntry b) \<longleftrightarrow> uri_eq lb a b"
| "path_eq lb (GlobPattern a) (GlobPattern b) \<longleftrightarrow> a = b"
| "path_eq lb (Special a) (Special b) \<longleftrightarrow> a = b"
| "path_eq lb _ _ \<longleftrightarrow> False"

definition entry_eq :: "uri_lib \<Rightarrow> FileSystemSandboxEntry \<Rightarrow> FileSystemSandboxEntry \<Rightarrow> bool" where
  "entry_eq lb a b \<longleftrightarrow>
     path_eq lb (entry_path a) (entry_path b) \<and> entry_access a = entry_access b \<and>
     missing_path_behavior a = missing_path_behavior b"

fun special_paths_share_target :: "FileSystemSpecialPath \<Rightarrow> FileSystemSpecialPath \<Rightarrow> bool" where
  "special_paths_share_target Root Root \<longleftrightarrow> True"
| "special_paths_share_target Minimal Minimal \<longleftrightarrow> True"
| "special_paths_share_target Tmpdir Tmpdir \<longleftrightarrow> True"
| "special_paths_share_target SlashTmp SlashTmp \<longleftrightarrow> True"
| "special_paths_share_target (ProjectRoots a) (ProjectRoots b) \<longleftrightarrow> a = b"
| "special_paths_share_target (UnknownPath a s) (UnknownPath b t) \<longleftrightarrow> a = b \<and> s = t"
| "special_paths_share_target _ _ \<longleftrightarrow> False"

fun special_path_matches_path_uri :: "uri_lib \<Rightarrow> FileSystemSpecialPath \<Rightarrow> file_url \<Rightarrow> bool" where
  "special_path_matches_path_uri lb Root path \<longleftrightarrow> lexical_depth lb path \<noteq> None \<and> uri_parent lb path = None"
| "special_path_matches_path_uri lb SlashTmp path \<longleftrightarrow>
     infer_convention lb path = Some Posix \<and> lexical_depth lb path = Some 1 \<and> uri_basename lb path = Some (lit ''tmp'')"
| "special_path_matches_path_uri lb _ path \<longleftrightarrow> False"

fun file_system_paths_share_target :: "uri_lib \<Rightarrow> FileSystemPath \<Rightarrow> FileSystemPath \<Rightarrow> PathConvention \<Rightarrow> bool" where
  "file_system_paths_share_target lb (PathEntry a) (PathEntry b) convention \<longleftrightarrow> uri_eq lb a b"
| "file_system_paths_share_target lb (Special a) (Special b) convention \<longleftrightarrow> special_paths_share_target a b"
| "file_system_paths_share_target lb (PathEntry path) (Special v) convention \<longleftrightarrow>
     infer_convention lb path = Some convention \<and> special_path_matches_path_uri lb v path"
| "file_system_paths_share_target lb (Special v) (PathEntry path) convention \<longleftrightarrow>
     infer_convention lb path = Some convention \<and> special_path_matches_path_uri lb v path"
| "file_system_paths_share_target lb (GlobPattern a) (GlobPattern b) convention \<longleftrightarrow> a = b"
| "file_system_paths_share_target lb _ _ convention \<longleftrightarrow> False"

section \<open>Full access\<close>

definition has_root_access :: "FileSystemSandboxPolicy \<Rightarrow> (FileSystemAccessMode \<Rightarrow> bool) \<Rightarrow> bool" where
  "has_root_access policy predicate \<longleftrightarrow>
     sandbox_kind policy = Restricted \<and>
     list_ex (\<lambda>entry. entry_path entry = Special Root \<and> predicate (entry_access entry)) (sandbox_entries policy)"

definition has_denied_read_restrictions_for_convention :: "FileSystemSandboxPolicy \<Rightarrow> PathConvention option \<Rightarrow> bool" where
  "has_denied_read_restrictions_for_convention policy convention \<longleftrightarrow>
     sandbox_kind policy = Restricted \<and>
     list_ex (\<lambda>entry. entry_access entry = Deny \<and> \<not> (entry_path entry = Special SlashTmp \<and> convention = Some Windows))
       (sandbox_entries policy)"

definition has_same_target_write_override :: "uri_lib \<Rightarrow> FileSystemSandboxPolicy \<Rightarrow> FileSystemSandboxEntry \<Rightarrow> PathConvention \<Rightarrow> bool" where
  "has_same_target_write_override lb policy entry convention \<longleftrightarrow>
     list_ex (\<lambda>candidate.
         can_write (entry_access candidate) \<and> entry_access candidate > entry_access entry \<and>
         file_system_paths_share_target lb (entry_path candidate) (entry_path entry) convention)
       (sandbox_entries policy)"

definition narrows_write :: "uri_lib \<Rightarrow> FileSystemSandboxPolicy \<Rightarrow> PathConvention \<Rightarrow> FileSystemSandboxEntry \<Rightarrow> bool" where
  "narrows_write lb policy convention entry \<longleftrightarrow>
     \<not> can_write (entry_access entry) \<and>
     (case entry_path entry of
        PathEntry _ \<Rightarrow> \<not> has_same_target_write_override lb policy entry convention
      | GlobPattern _ \<Rightarrow> True
      | Special v \<Rightarrow>
          (case v of
             Root \<Rightarrow> entry_access entry = Deny
           | Minimal \<Rightarrow> False
           | UnknownPath _ _ \<Rightarrow> False
           | SlashTmp \<Rightarrow> convention \<noteq> Windows \<and> \<not> has_same_target_write_override lb policy entry convention
           | _ \<Rightarrow> \<not> has_same_target_write_override lb policy entry convention))"

definition has_write_narrowing_entries :: "uri_lib \<Rightarrow> FileSystemSandboxPolicy \<Rightarrow> PathConvention \<Rightarrow> bool" where
  "has_write_narrowing_entries lb policy convention \<longleftrightarrow>
     sandbox_kind policy = Restricted \<and> list_ex (narrows_write lb policy convention) (sandbox_entries policy)"

definition has_full_disk_read_access_for_convention :: "FileSystemSandboxPolicy \<Rightarrow> PathConvention option \<Rightarrow> bool" where
  "has_full_disk_read_access_for_convention policy convention \<longleftrightarrow>
     sandbox_kind policy \<noteq> Restricted \<or>
     has_root_access policy can_read \<and> \<not> has_denied_read_restrictions_for_convention policy convention"

definition has_full_disk_write_access_for_convention :: "uri_lib \<Rightarrow> FileSystemSandboxPolicy \<Rightarrow> PathConvention option \<Rightarrow> bool" where
  "has_full_disk_write_access_for_convention lb policy convention \<longleftrightarrow>
     sandbox_kind policy \<noteq> Restricted \<or>
     (case convention of
        Some c \<Rightarrow> has_root_access policy can_write \<and> \<not> has_write_narrowing_entries lb policy c
      | None \<Rightarrow> False)"

definition has_denied_read_restrictions :: "FileSystemSandboxPolicy \<Rightarrow> bool" where
  "has_denied_read_restrictions policy = has_denied_read_restrictions_for_convention policy (Some native)"

definition has_full_disk_read_access :: "FileSystemSandboxPolicy \<Rightarrow> bool" where
  "has_full_disk_read_access policy = has_full_disk_read_access_for_convention policy (Some native)"

definition has_full_disk_write_access :: "uri_lib \<Rightarrow> FileSystemSandboxPolicy \<Rightarrow> bool" where
  "has_full_disk_write_access lb policy = has_full_disk_write_access_for_convention lb policy (Some native)"

definition has_full_disk_write_access_with_context ::
    "uri_lib \<Rightarrow> FileSystemSandboxPolicy \<Rightarrow> FileSystemSandboxPolicyContext \<Rightarrow> bool" where
  "has_full_disk_write_access_with_context lb policy ctx =
     has_full_disk_write_access_for_convention lb policy (infer_convention lb (context_cwd ctx))"

definition include_platform_defaults :: "FileSystemSandboxPolicy \<Rightarrow> bool" where
  "include_platform_defaults policy \<longleftrightarrow>
     \<not> has_full_disk_read_access policy \<and> sandbox_kind policy = Restricted \<and>
     list_ex (\<lambda>entry. entry_path entry = Special Minimal \<and> can_read (entry_access entry)) (sandbox_entries policy)"

section \<open>The access to a path\<close>

definition file_system_root :: "uri_lib \<Rightarrow> FileSystemSandboxPolicyContext \<Rightarrow> file_url option" where
  "file_system_root lb ctx =
     (if lexical_depth lb (context_cwd ctx) = None then None else last_opt (ancestors lb (context_cwd ctx)))"

definition option_list :: "'a option \<Rightarrow> 'a list" where
  "option_list v = (case v of Some x \<Rightarrow> [x] | None \<Rightarrow> [])"

fun entry_roots :: "uri_lib \<Rightarrow> FileSystemSandboxPolicyContext \<Rightarrow> FileSystemPath \<Rightarrow> file_url list" where
  "entry_roots lb ctx (PathEntry path) = [path]"
| "entry_roots lb ctx (GlobPattern _) = []"
| "entry_roots lb ctx (Special Root) = option_list (file_system_root lb ctx)"
| "entry_roots lb ctx (Special (ProjectRoots subpath)) =
     List.map_filter (\<lambda>root. case subpath of Some s \<Rightarrow> ok_of (join_uri lb root s) | None \<Rightarrow> Some root) (workspace_roots ctx)"
| "entry_roots lb ctx (Special Tmpdir) = (case temporary_directories ctx of Some dirs \<Rightarrow> dirs | None \<Rightarrow> [])"
| "entry_roots lb ctx (Special SlashTmp) =
     (if infer_convention lb (context_cwd ctx) = Some Posix then option_list (ok_of (join_uri lb (context_cwd ctx) (lit ''/tmp'')))
      else [])"
| "entry_roots lb ctx (Special Minimal) = []"
| "entry_roots lb ctx (Special (UnknownPath _ _)) = []"

definition resolved_entries ::
    "uri_lib \<Rightarrow> FileSystemSandboxPolicy \<Rightarrow> FileSystemSandboxPolicyContext \<Rightarrow> (file_url \<times> FileSystemAccessMode) list" where
  "resolved_entries lb policy ctx =
     concat (map (\<lambda>entry.
         map (\<lambda>path. (path, entry_access entry))
           (filter (\<lambda>path. infer_convention lb path = infer_convention lb (context_cwd ctx)) (entry_roots lb ctx (entry_path entry))))
       (sandbox_entries policy))"

fun with_depths ::
    "uri_lib \<Rightarrow> (file_url \<times> FileSystemAccessMode) list \<Rightarrow> (file_url \<times> FileSystemAccessMode \<times> nat) list option" where
  "with_depths lb [] = Some []"
| "with_depths lb ((root, access) # entries) =
     (case lexical_depth lb root of
        Some depth \<Rightarrow> map_option (\<lambda>rest. (root, access, depth) # rest) (with_depths lb entries)
      | None \<Rightarrow> if is_opaque lb root then with_depths lb entries else None)"

text \<open>\<open>Iterator::max_by_key\<close> keeps the later one of equal maxima.\<close>

fun max_by_key :: "('a \<Rightarrow> 'k::linorder) \<Rightarrow> 'a list \<Rightarrow> 'a option" where
  "max_by_key key [] = None"
| "max_by_key key (x # xs) = Some (fold (\<lambda>y best. if key best \<le> key y then y else best) xs x)"

definition resolve_access ::
    "uri_lib \<Rightarrow> FileSystemSandboxPolicy \<Rightarrow> file_url \<Rightarrow> FileSystemSandboxPolicyContext \<Rightarrow> FileSystemAccessMode" where
  "resolve_access lb policy path ctx =
     (if sandbox_kind policy \<noteq> Restricted then Write
      else
        (case infer_convention lb (context_cwd ctx) of
           None \<Rightarrow> Deny
         | Some convention \<Rightarrow>
             if infer_convention lb path \<noteq> Some convention \<or> lexical_depth lb path = None \<or>
                lexical_depth lb (context_cwd ctx) = None
             then Deny
             else
               (case with_depths lb (resolved_entries lb policy ctx) of
                  None \<Rightarrow> Deny
                | Some entries \<Rightarrow>
                    (case max_by_key (\<lambda>(_, access, depth). (depth, access))
                            (filter (\<lambda>(root, _, _). uri_starts_with lb path root) entries) of
                       Some (_, access, _) \<Rightarrow> access
                     | None \<Rightarrow> Deny))))"

fun first_some :: "('a \<Rightarrow> 'b option) \<Rightarrow> 'a list \<Rightarrow> 'b option" where
  "first_some f [] = None"
| "first_some f (x # xs) = (case f x of Some y \<Rightarrow> Some y | None \<Rightarrow> first_some f xs)"

text \<open>The protected metadata directory below a writable root that contains the path.\<close>

definition protecting_root :: "uri_lib \<Rightarrow> file_url \<Rightarrow> file_url \<Rightarrow> (file_url \<times> rstr) option" where
  "protecting_root lb path root =
     first_some (\<lambda>metadata_name.
         case join_descendant lb root metadata_name of
           Inl _ \<Rightarrow> None
         | Inr protected \<Rightarrow> if uri_starts_with lb path protected then Some (protected, metadata_name) else None)
       PROTECTED_METADATA_PATH_NAMES"

definition metadata_write_denial ::
    "uri_lib \<Rightarrow> FileSystemSandboxPolicy \<Rightarrow> file_url \<Rightarrow> FileSystemSandboxPolicyContext \<Rightarrow> rstr option" where
  "metadata_write_denial lb policy path ctx =
     (if sandbox_kind policy \<noteq> Restricted then None
      else
        (let entries = resolved_entries lb policy ctx in
         case first_some (\<lambda>(root, _). protecting_root lb path root) (filter (\<lambda>(_, access). can_write access) entries) of
           None \<Rightarrow> None
         | Some (protected, metadata_name) \<Rightarrow>
             if list_ex (\<lambda>(root, access). can_write access \<and> uri_starts_with lb path root \<and> uri_starts_with lb root protected) entries
             then None else Some metadata_name))"

definition can_write_path :: "uri_lib \<Rightarrow> FileSystemSandboxPolicy \<Rightarrow> file_url \<Rightarrow> FileSystemSandboxPolicyContext \<Rightarrow> bool" where
  "can_write_path lb policy path ctx \<longleftrightarrow>
     can_write (resolve_access lb policy path ctx) \<and>
     (has_full_disk_write_access_with_context lb policy ctx \<or> metadata_write_denial lb policy path ctx = None)"

definition has_configured_writable_roots :: "uri_lib \<Rightarrow> FileSystemSandboxPolicy \<Rightarrow> FileSystemSandboxPolicyContext \<Rightarrow> bool" where
  "has_configured_writable_roots lb policy ctx \<longleftrightarrow>
     \<not> has_full_disk_write_access_with_context lb policy ctx \<and>
     list_ex (\<lambda>(path, access). can_write access \<and> can_write_path lb policy path ctx) (resolved_entries lb policy ctx)"

section \<open>Keeping denials\<close>

definition push_missing :: "uri_lib \<Rightarrow> FileSystemSandboxEntry \<Rightarrow> FileSystemSandboxPolicy \<Rightarrow> FileSystemSandboxPolicy" where
  "push_missing lb deny_entry policy =
     (if list_ex (\<lambda>entry. entry_eq lb entry deny_entry) (sandbox_entries policy) then policy
      else policy\<lparr>sandbox_entries := sandbox_entries policy @ [deny_entry]\<rparr>)"

definition deny_entries :: "FileSystemSandboxPolicy \<Rightarrow> FileSystemSandboxEntry list" where
  "deny_entries policy = filter (\<lambda>entry. entry_access entry = Deny) (sandbox_entries policy)"

definition preserve_deny_read_restrictions_from ::
    "uri_lib \<Rightarrow> FileSystemSandboxPolicy \<Rightarrow> FileSystemSandboxPolicy \<Rightarrow> FileSystemSandboxPolicy" where
  "preserve_deny_read_restrictions_from lb policy existing =
     (let policy = (if sandbox_kind policy = Unrestricted \<and> deny_entries existing \<noteq> []
                    then restricted [new_entry (Special Root) Write] else policy)
      in if sandbox_kind policy \<noteq> Restricted then policy
         else fold (push_missing lb) (deny_entries existing)
           (if glob_scan_max_depth policy = None then policy\<lparr>glob_scan_max_depth := glob_scan_max_depth existing\<rparr> else policy))"

section \<open>Paths of the workspace\<close>

definition resolve_scoped_workspace_path :: "uri_lib \<Rightarrow> file_url \<Rightarrow> rstr \<Rightarrow> file_url option" where
  "resolve_scoped_workspace_path lb root subpath =
     (case infer_convention lb root of
        None \<Rightarrow> None
      | Some convention \<Rightarrow>
          if starts_with subpath [47] \<or> convention = Windows \<and> starts_with subpath [92] \<or>
             list_ex (\<lambda>segment. segment = lit ''.'' \<or> segment = lit ''..'') (path_segments convention subpath) \<or>
             convention = Windows \<and> list_ex (\<lambda>segment. 58 \<in> set segment) (path_segments convention subpath)
          then None
          else Option.bind (ok_of (join_uri lb root subpath)) (\<lambda>path. if uri_starts_with lb path root then Some path else None))"

section \<open>Permissions of the older form\<close>

record sandbox_host =
  home_dir :: "path_buf option"
  current_dir :: "path_buf option"
  tmpdir_var :: "rstr option"
  host_is_file :: "path_buf \<Rightarrow> bool"
  host_is_dir :: "path_buf \<Rightarrow> bool"
  host_exists :: "path_buf \<Rightarrow> bool"
  host_read :: "path_buf \<Rightarrow> rstr option"

datatype SandboxPolicy =
    DangerFullAccess
  | ReadOnly bool
  | ExternalSandbox bool
  | WorkspaceWrite "path_buf list" bool bool bool

fun has_full_network_access :: "SandboxPolicy \<Rightarrow> bool" where
  "has_full_network_access DangerFullAccess = True"
| "has_full_network_access (ExternalSandbox network_access) = network_access"
| "has_full_network_access (ReadOnly network_access) = network_access"
| "has_full_network_access (WorkspaceWrite _ network_access _ _) = network_access"

datatype NetworkSandboxPolicy = NetworkRestricted | NetworkEnabled

definition network_policy_of :: "SandboxPolicy \<Rightarrow> NetworkSandboxPolicy" where
  "network_policy_of policy = (if has_full_network_access policy then NetworkEnabled else NetworkRestricted)"

definition abs_join :: "sandbox_host \<Rightarrow> path_buf \<Rightarrow> rstr \<Rightarrow> path_buf" where
  "abs_join h base path = resolve_path_against_base (home_dir h) path base"

definition is_git_pointer_file :: "sandbox_host \<Rightarrow> path_buf \<Rightarrow> bool" where
  "is_git_pointer_file h path \<longleftrightarrow> host_is_file h path \<and> path_file_name path = Some (lit ''.git'')"

definition resolve_gitdir_from_file :: "sandbox_host \<Rightarrow> path_buf \<Rightarrow> path_buf option" where
  "resolve_gitdir_from_file h dot_git =
     (case host_read h dot_git of
        None \<Rightarrow> None
      | Some contents \<Rightarrow>
          (case split_once 58 (trim contents) of
             None \<Rightarrow> None
           | Some (key, gitdir_raw) \<Rightarrow>
               if trim key \<noteq> lit ''gitdir'' \<or> trim gitdir_raw = [] \<or> length dot_git \<le> 1 then None
               else
                 (let gitdir_path = resolve_path_against_base (home_dir h) (trim gitdir_raw) (butlast dot_git)
                  in if host_exists h gitdir_path then Some gitdir_path else None)))"

text \<open>\<open>adjust\<close> is the identity, or \<open>normalize_effective_absolute_path\<close> where the caller asks for it.\<close>

definition dedup_absolute_paths :: "(path_buf \<Rightarrow> path_buf) \<Rightarrow> path_buf list \<Rightarrow> path_buf list" where
  "dedup_absolute_paths adjust paths =
     fold (\<lambda>path deduped. if adjust path \<in> set deduped then deduped else deduped @ [adjust path]) paths []"

definition default_read_only_subpaths_for_writable_root :: "sandbox_host \<Rightarrow> path_buf \<Rightarrow> bool \<Rightarrow> path_buf list" where
  "default_read_only_subpaths_for_writable_root h writable_root protect_missing_dot_codex =
     (let top_level_git = abs_join h writable_root (lit ''.git'');
          top_level_agents = abs_join h writable_root (lit ''.agents'');
          top_level_codex = abs_join h writable_root (lit ''.codex'')
      in dedup_absolute_paths id
           ((if host_is_dir h top_level_git \<or> host_is_file h top_level_git then
               (if host_is_file h top_level_git \<and> is_git_pointer_file h top_level_git
                then option_list (resolve_gitdir_from_file h top_level_git) else []) @ [top_level_git]
             else []) @
            (if host_is_dir h top_level_agents then [top_level_agents] else []) @
            (if protect_missing_dot_codex \<or> host_is_dir h top_level_codex then [top_level_codex] else [])))"

definition append_default_read_only_entry_if_no_explicit_rule ::
    "uri_lib \<Rightarrow> FileSystemPath \<Rightarrow> FileSystemSandboxEntry list \<Rightarrow> FileSystemSandboxEntry list" where
  "append_default_read_only_entry_if_no_explicit_rule lb path entries =
     (if list_ex (\<lambda>entry. file_system_paths_share_target lb (entry_path entry) path native) entries then entries
      else entries @ [skip_missing_path path Read])"

definition append_default_read_only_path_if_no_explicit_rule ::
    "uri_lib \<Rightarrow> path_buf \<Rightarrow> FileSystemSandboxEntry list \<Rightarrow> FileSystemSandboxEntry list" where
  "append_default_read_only_path_if_no_explicit_rule lb path =
     append_default_read_only_entry_if_no_explicit_rule lb (PathEntry (from_abs_path lb path))"

definition append_default_read_only_project_root_subpath_if_no_explicit_rule ::
    "uri_lib \<Rightarrow> rstr \<Rightarrow> FileSystemSandboxEntry list \<Rightarrow> FileSystemSandboxEntry list" where
  "append_default_read_only_project_root_subpath_if_no_explicit_rule lb subpath =
     append_default_read_only_entry_if_no_explicit_rule lb (Special (ProjectRoots (Some subpath)))"

definition protect_subpaths :: "uri_lib \<Rightarrow> sandbox_host \<Rightarrow> bool \<Rightarrow> path_buf \<Rightarrow> FileSystemSandboxEntry list \<Rightarrow> FileSystemSandboxEntry list" where
  "protect_subpaths lb h protect_missing_dot_codex writable_root entries =
     fold (append_default_read_only_path_if_no_explicit_rule lb)
       (default_read_only_subpaths_for_writable_root h writable_root protect_missing_dot_codex) entries"

definition writable_entries :: "uri_lib \<Rightarrow> path_buf list \<Rightarrow> bool \<Rightarrow> bool \<Rightarrow> FileSystemSandboxEntry list" where
  "writable_entries lb writable_roots exclude_tmpdir_env_var exclude_slash_tmp =
     [new_entry (Special Root) Read, new_entry (Special (ProjectRoots None)) Write] @
     (if exclude_slash_tmp then [] else [new_entry (Special SlashTmp) Write]) @
     (if exclude_tmpdir_env_var then [] else [new_entry (Special Tmpdir) Write]) @
     map (\<lambda>path. new_entry (PathEntry (from_abs_path lb path)) Write) writable_roots"

definition workspace_write :: "uri_lib \<Rightarrow> sandbox_host \<Rightarrow> path_buf list \<Rightarrow> bool \<Rightarrow> bool \<Rightarrow> FileSystemSandboxPolicy" where
  "workspace_write lb h writable_roots exclude_tmpdir_env_var exclude_slash_tmp =
     restricted
       (fold (protect_subpaths lb h False) writable_roots
         (append_default_read_only_project_root_subpath_if_no_explicit_rule lb (lit ''.codex'')
           (append_default_read_only_project_root_subpath_if_no_explicit_rule lb (lit ''.agents'')
             (append_default_read_only_project_root_subpath_if_no_explicit_rule lb (lit ''.git'')
               (writable_entries lb writable_roots exclude_tmpdir_env_var exclude_slash_tmp)))))"

fun from_sandbox_policy :: "uri_lib \<Rightarrow> sandbox_host \<Rightarrow> SandboxPolicy \<Rightarrow> FileSystemSandboxPolicy" where
  "from_sandbox_policy lb h DangerFullAccess = unrestricted"
| "from_sandbox_policy lb h (ExternalSandbox _) = external_sandbox"
| "from_sandbox_policy lb h (ReadOnly _) = restricted [new_entry (Special Root) Read]"
| "from_sandbox_policy lb h (WorkspaceWrite writable_roots _ exclude_tmpdir_env_var exclude_slash_tmp) =
     workspace_write lb h writable_roots exclude_tmpdir_env_var exclude_slash_tmp"

definition abs_of :: "sandbox_host \<Rightarrow> rstr \<Rightarrow> path_buf option" where
  "abs_of h path = from_absolute_path (home_dir h) (current_dir h) path"

definition from_legacy_sandbox_policy_for_cwd :: "uri_lib \<Rightarrow> sandbox_host \<Rightarrow> SandboxPolicy \<Rightarrow> rstr \<Rightarrow> FileSystemSandboxPolicy" where
  "from_legacy_sandbox_policy_for_cwd lb h sandbox_policy cwd =
     (let policy = from_sandbox_policy lb h sandbox_policy in
      case sandbox_policy of
        WorkspaceWrite writable_roots _ _ _ \<Rightarrow>
          (let entries = (case abs_of h cwd of
                            Some cwd_root \<Rightarrow> protect_subpaths lb h True cwd_root (sandbox_entries policy)
                          | None \<Rightarrow> sandbox_entries policy)
           in policy\<lparr>sandbox_entries := fold (protect_subpaths lb h False) writable_roots entries\<rparr>)
      | _ \<Rightarrow> policy)"

definition from_legacy_sandbox_policy_preserving_deny_entries ::
    "uri_lib \<Rightarrow> sandbox_host \<Rightarrow> SandboxPolicy \<Rightarrow> rstr \<Rightarrow> FileSystemSandboxPolicy \<Rightarrow> FileSystemSandboxPolicy" where
  "from_legacy_sandbox_policy_preserving_deny_entries lb h sandbox_policy cwd existing =
     (let rebuilt = from_legacy_sandbox_policy_for_cwd lb h sandbox_policy cwd in
      if sandbox_kind rebuilt \<noteq> Restricted then rebuilt
      else fold (push_missing lb) (deny_entries existing) (rebuilt\<lparr>glob_scan_max_depth := glob_scan_max_depth existing\<rparr>))"

definition legacy_runtime_file_system_policy_for_cwd :: "uri_lib \<Rightarrow> sandbox_host \<Rightarrow> SandboxPolicy \<Rightarrow> rstr \<Rightarrow> FileSystemSandboxPolicy" where
  "legacy_runtime_file_system_policy_for_cwd lb h sandbox_policy cwd =
     (case sandbox_policy of
        WorkspaceWrite writable_roots _ exclude_tmpdir_env_var exclude_slash_tmp \<Rightarrow>
          (let entries = writable_entries lb writable_roots exclude_tmpdir_env_var exclude_slash_tmp;
               entries' = (case abs_of h cwd of
                             Some cwd_root \<Rightarrow> protect_subpaths lb h True cwd_root entries
                           | None \<Rightarrow> entries)
           in restricted (fold (protect_subpaths lb h False) writable_roots entries'))
      | _ \<Rightarrow> from_sandbox_policy lb h sandbox_policy)"

section \<open>Paths of the host\<close>

definition resolve_candidate_path :: "sandbox_host \<Rightarrow> rstr \<Rightarrow> rstr \<Rightarrow> path_buf option" where
  "resolve_candidate_path h path cwd =
     (if is_absolute (path_components path) then abs_of h path
      else map_option (\<lambda>base. abs_join h base path) (abs_of h cwd))"

definition local_temporary_directories :: "uri_lib \<Rightarrow> sandbox_host \<Rightarrow> file_url list" where
  "local_temporary_directories lb h =
     (case tmpdir_var h of
        None \<Rightarrow> []
      | Some dir \<Rightarrow> if dir = [] then [] else option_list (map_option (from_abs_path lb) (abs_of h dir)))"

definition with_local_policy_context ::
    "uri_lib \<Rightarrow> sandbox_host \<Rightarrow> rstr \<Rightarrow> rstr \<Rightarrow> (file_url \<Rightarrow> FileSystemSandboxPolicyContext \<Rightarrow> 'a) \<Rightarrow> 'a option" where
  "with_local_policy_context lb h path cwd evaluate =
     (case abs_of h cwd of
        None \<Rightarrow> None
      | Some cwd_path \<Rightarrow>
          (case resolve_candidate_path h path (path_string cwd_path) of
             None \<Rightarrow> None
           | Some candidate \<Rightarrow>
               (let cwd_uri = from_abs_path lb cwd_path in
                Some (evaluate (from_abs_path lb candidate)
                  \<lparr>context_cwd = cwd_uri, workspace_roots = [cwd_uri],
                   user_home_dir = from_host_native_path lb (home_dir h) (lit ''~''),
                   temporary_directories = Some (local_temporary_directories lb h)\<rparr>))))"

definition resolve_access_for_local_path_with_cwd ::
    "uri_lib \<Rightarrow> sandbox_host \<Rightarrow> FileSystemSandboxPolicy \<Rightarrow> rstr \<Rightarrow> rstr \<Rightarrow> FileSystemAccessMode" where
  "resolve_access_for_local_path_with_cwd lb h policy path cwd =
     (case with_local_policy_context lb h path cwd (resolve_access lb policy) of Some access \<Rightarrow> access | None \<Rightarrow> Deny)"

definition can_read_local_path_with_cwd :: "uri_lib \<Rightarrow> sandbox_host \<Rightarrow> FileSystemSandboxPolicy \<Rightarrow> rstr \<Rightarrow> rstr \<Rightarrow> bool" where
  "can_read_local_path_with_cwd lb h policy path cwd = can_read (resolve_access_for_local_path_with_cwd lb h policy path cwd)"

definition can_write_local_path_with_cwd :: "uri_lib \<Rightarrow> sandbox_host \<Rightarrow> FileSystemSandboxPolicy \<Rightarrow> rstr \<Rightarrow> rstr \<Rightarrow> bool" where
  "can_write_local_path_with_cwd lb h policy path cwd =
     (case with_local_policy_context lb h path cwd (can_write_path lb policy) of Some writable \<Rightarrow> writable | None \<Rightarrow> False)"

definition forbidden_agent_metadata_write ::
    "uri_lib \<Rightarrow> sandbox_host \<Rightarrow> rstr \<Rightarrow> rstr \<Rightarrow> FileSystemSandboxPolicy \<Rightarrow> rstr option" where
  "forbidden_agent_metadata_write lb h path cwd policy =
     (if sandbox_kind policy \<noteq> Restricted then None
      else
        (case with_local_policy_context lb h path cwd
                (\<lambda>uri ctx. if can_write_path lb policy uri ctx then None else metadata_write_denial lb policy uri ctx) of
           Some denial \<Rightarrow> denial
         | None \<Rightarrow> None))"

definition add_readable :: "uri_lib \<Rightarrow> sandbox_host \<Rightarrow> rstr \<Rightarrow> path_buf \<Rightarrow> FileSystemSandboxPolicy \<Rightarrow> FileSystemSandboxPolicy" where
  "add_readable lb h cwd path policy =
     (if can_read_local_path_with_cwd lb h policy (path_string path) cwd then policy
      else policy\<lparr>sandbox_entries := sandbox_entries policy @ [new_entry (PathEntry (from_abs_path lb path)) Read]\<rparr>)"

definition with_additional_readable_roots ::
    "uri_lib \<Rightarrow> sandbox_host \<Rightarrow> FileSystemSandboxPolicy \<Rightarrow> rstr \<Rightarrow> path_buf list \<Rightarrow> FileSystemSandboxPolicy" where
  "with_additional_readable_roots lb h policy cwd paths =
     (if has_full_disk_read_access policy then policy else fold (add_readable lb h cwd) paths policy)"

definition add_writable :: "uri_lib \<Rightarrow> sandbox_host \<Rightarrow> rstr \<Rightarrow> path_buf \<Rightarrow> FileSystemSandboxPolicy \<Rightarrow> FileSystemSandboxPolicy" where
  "add_writable lb h cwd path policy =
     (if can_write_local_path_with_cwd lb h policy (path_string path) cwd then policy
      else policy\<lparr>sandbox_entries := sandbox_entries policy @ [new_entry (PathEntry (from_abs_path lb path)) Write]\<rparr>)"

definition with_additional_writable_roots ::
    "uri_lib \<Rightarrow> sandbox_host \<Rightarrow> FileSystemSandboxPolicy \<Rightarrow> rstr \<Rightarrow> path_buf list \<Rightarrow> FileSystemSandboxPolicy" where
  "with_additional_writable_roots lb h policy cwd paths = fold (add_writable lb h cwd) paths policy"

definition add_legacy_root :: "uri_lib \<Rightarrow> sandbox_host \<Rightarrow> path_buf \<Rightarrow> FileSystemSandboxEntry list \<Rightarrow> FileSystemSandboxEntry list" where
  "add_legacy_root lb h path entries =
     protect_subpaths lb h False path
       (if list_ex (\<lambda>entry. can_write (entry_access entry) \<and>
              (case entry_path entry of PathEntry existing \<Rightarrow> uri_eq lb existing (from_abs_path lb path) | _ \<Rightarrow> False)) entries
        then entries else entries @ [new_entry (PathEntry (from_abs_path lb path)) Write])"

definition with_additional_legacy_workspace_writable_roots ::
    "uri_lib \<Rightarrow> sandbox_host \<Rightarrow> FileSystemSandboxPolicy \<Rightarrow> path_buf list \<Rightarrow> FileSystemSandboxPolicy" where
  "with_additional_legacy_workspace_writable_roots lb h policy paths =
     (if sandbox_kind policy \<noteq> Restricted then policy
      else policy\<lparr>sandbox_entries := fold (add_legacy_root lb h) paths (sandbox_entries policy)\<rparr>)"

section \<open>The deepest entry\<close>

lemma fold_max:
  "fold (\<lambda>y best. if key best \<le> key y then y else best) xs x \<in> set (x # xs) \<and>
   (\<forall>z\<in>set (x # xs). key z \<le> key (fold (\<lambda>y best. if key best \<le> key y then y else best) xs x))"
  for key :: "'a \<Rightarrow> 'k::linorder"
proof (induction xs arbitrary: x)
  case (Cons y ys)
  show ?case using Cons.IH [of "if key x \<le> key y then y else x"] by (auto split: if_splits intro: order_trans)
qed simp

lemma max_by_key_Some: "max_by_key key xs = Some m \<Longrightarrow> m \<in> set xs \<and> (\<forall>z\<in>set xs. key z \<le> key m)"
  using fold_max [of key "tl xs" "hd xs"] by (cases xs) auto

lemma max_by_key_None: "max_by_key key xs = None \<longleftrightarrow> xs = []"
  by (cases xs) auto

definition ambiguous :: "uri_lib \<Rightarrow> (file_url \<times> FileSystemAccessMode) list \<Rightarrow> bool" where
  "ambiguous lb entries \<longleftrightarrow> list_ex (\<lambda>(root, _). lexical_depth lb root = None \<and> \<not> is_opaque lb root) entries"

lemma with_depths_None: "with_depths lb entries = None \<longleftrightarrow> ambiguous lb entries"
  by (induction lb entries rule: with_depths.induct) (auto simp: ambiguous_def split: option.splits)

lemma with_depths_Some:
  "with_depths lb entries = Some deep \<Longrightarrow>
   (root, access, depth) \<in> set deep \<longleftrightarrow> (root, access) \<in> set entries \<and> lexical_depth lb root = Some depth"
  by (induction lb entries arbitrary: deep rule: with_depths.induct) (auto split: option.splits if_splits)

text \<open>The entry that governs a path: every other entry above the path is above it, and at one place the access
  that comes last in the order wins.\<close>

definition governs ::
    "uri_lib \<Rightarrow> file_url \<Rightarrow> (file_url \<times> FileSystemAccessMode) list \<Rightarrow> file_url \<Rightarrow> FileSystemAccessMode \<Rightarrow> bool" where
  "governs lb path entries r a \<longleftrightarrow>
     (r, a) \<in> set entries \<and> uri_starts_with lb path r \<and>
     (\<forall>(q, b)\<in>set entries. uri_starts_with lb path q \<longrightarrow> uri_starts_with lb r q \<and> (uri_starts_with lb q r \<longrightarrow> b \<le> a))"

definition posix_query :: "uri_lib \<Rightarrow> file_url \<Rightarrow> FileSystemSandboxPolicyContext \<Rightarrow> bool" where
  "posix_query lb path ctx \<longleftrightarrow> posix_lexical lb (context_cwd ctx) \<and> posix_lexical lb path"

lemma resolve_access_governs:
  assumes kind: "sandbox_kind policy = Restricted" and query: "posix_query lb path ctx"
    and clear: "\<not> ambiguous lb (resolved_entries lb policy ctx)"
    and some: "(q, b) \<in> set (resolved_entries lb policy ctx)" "uri_starts_with lb path q"
  shows "\<exists>r. governs lb path (resolved_entries lb policy ctx) r (resolve_access lb policy path ctx)"
proof -
  define entries where "entries = resolved_entries lb policy ctx"
  note path = query [unfolded posix_query_def, THEN conjunct2] and cwd = query [unfolded posix_query_def, THEN conjunct1]
  obtain deep where deep: "with_depths lb entries = Some deep" using clear with_depths_None by (cases "with_depths lb entries") (auto simp: entries_def)
  have depth: "lexical_depth lb u = Some (length (components lb u))" if "uri_starts_with lb path u" for u
    using lexical_depth_posix [OF posix.below_lexical [OF path that]] .
  define near where "near = filter (\<lambda>(root, _, _). uri_starts_with lb path root) deep"
  have near: "(u, m, d) \<in> set near \<longleftrightarrow> (u, m) \<in> set entries \<and> uri_starts_with lb path u \<and> d = length (components lb u)" for u m d
    using with_depths_Some [OF deep] depth [of u] by (auto simp: near_def)
  have "(q, b, length (components lb q)) \<in> set near" using near some by (simp add: entries_def)
  hence "near \<noteq> []" by auto
  then obtain r a d where best: "max_by_key (\<lambda>(_, access, depth). (depth, access)) near = Some (r, a, d)"
    using max_by_key_None by (metis prod_cases3 not_None_eq)
  have access: "resolve_access lb policy path ctx = a"
    using kind posix_lexicalD(1) [OF path] posix_lexicalD(1) [OF cwd] lexical_depth_posix [OF path] lexical_depth_posix [OF cwd] deep best
    by (simp add: resolve_access_def entries_def near_def)
  from max_by_key_Some [OF best] have r: "(r, a) \<in> set entries" "uri_starts_with lb path r" "d = length (components lb r)"
    and most: "\<And>u m e. (u, m, e) \<in> set near \<Longrightarrow> (e, m) \<le> (d, a)" using near by fastforce+
  have largest: "length (components lb u) < length (components lb r) \<or> length (components lb u) = length (components lb r) \<and> m \<le> a"
    if "(u, m) \<in> set entries" "uri_starts_with lb path u" for u m
    using most [of u m "length (components lb u)"] that near r(3) by (auto simp: less_eq_prod_def)
  have "governs lb path entries r a"
    unfolding governs_def using r posix.deepest_governs [OF path r(1,2) largest] by blast
  thus ?thesis using access by (auto simp: entries_def)
qed

lemma resolve_access_no_entry:
  assumes "sandbox_kind policy = Restricted" and "\<And>r a. (r, a) \<in> set (resolved_entries lb policy ctx) \<Longrightarrow> \<not> uri_starts_with lb path r"
  shows "resolve_access lb policy path ctx = Deny"
proof -
  have "filter (\<lambda>(root, _, _). uri_starts_with lb path root) deep = []"
    if "with_depths lb (resolved_entries lb policy ctx) = Some deep" for deep
    using assms(2) with_depths_Some [OF that] by (auto simp: filter_empty_conv)
  thus ?thesis using assms(1) by (auto simp: resolve_access_def split: option.splits)
qed

lemma resolve_access_ambiguous:
  "sandbox_kind policy = Restricted \<Longrightarrow> ambiguous lb (resolved_entries lb policy ctx) \<Longrightarrow> resolve_access lb policy path ctx = Deny"
  using with_depths_None [of lb "resolved_entries lb policy ctx"] by (auto simp: resolve_access_def split: option.splits)

section \<open>Entries with one target\<close>

lemma special_share_iff: "special_paths_share_target a b \<longleftrightarrow> a = b"
  by (cases a; cases b) auto

lemma uri_eq_sym_posix: "infer_convention lb b = Some Posix \<Longrightarrow> uri_eq lb a b \<Longrightarrow> a = b"
  by (auto simp: uri_eq_def windows_identity_path_bytes_def split: option.splits)

lemma root_posix:
  assumes "uri_laws lb" and "posix_lexical lb (context_cwd ctx)" and "nul_free lb (context_cwd ctx)"
  obtains root where "file_system_root lb ctx = Some root" "posix_lexical lb root" "components lb root = []"
proof -
  have "ancestors lb (context_cwd ctx) \<noteq> []" by (subst ancestors.simps) simp
  thus ?thesis using that posix_root [OF assms] lexical_depth_posix [OF assms(2)] by (simp add: file_system_root_def last_opt_def)
qed

lemma matched_special:
  assumes laws: "uri_laws lb" and cwd: "posix_lexical lb (context_cwd ctx)" "nul_free lb (context_cwd ctx)"
    and path: "infer_convention lb path = Some Posix" and matches: "special_path_matches_path_uri lb v path"
  shows "posix_lexical lb path \<and> (\<exists>root. entry_roots lb ctx (Special v) = [root] \<and> posix_lexical lb root \<and> components lb root = components lb path)"
  using matches
proof (cases v)
  case Root
  have lexical: "posix_lexical lb path" using matches path Root by (simp add: posix_lexical_def)
  have "names path = []"
    using matches Root posix_lexicalD [OF lexical] by (auto simp: uri_parent_def anchor_depth_def split: if_splits)
  thus ?thesis using lexical Root root_posix [OF laws cwd] by (metis components_def entry_roots.simps(3) list.simps(8) option.simps(5) option_list_def)
next
  case SlashTmp
  have name: "plain_name (lit ''tmp'')" by (simp add: plain_name_def lit_def is_ascii_alphabetic_def)
  have lexical: "posix_lexical lb path" using matches path SlashTmp by (simp add: posix_lexical_def)
  have "length (components lb path) = 1" using matches SlashTmp lexical_depth_posix [OF lexical] by simp
  moreover have "last (components lb path) = lit ''tmp''"
    using basename_plain(2) [OF laws _ name] matches SlashTmp by simp
  ultimately have "components lb path = [lit ''tmp'']" by (cases "components lb path") auto
  thus ?thesis using lexical SlashTmp join_slash_tmp [OF laws cwd(1)] posix_lexicalD(1) [OF cwd(1)]
    by (auto simp: ok_of_def option_list_def)
qed auto

lemma share_target_root:
  assumes laws: "uri_laws lb" and cwd: "posix_lexical lb (context_cwd ctx)" "nul_free lb (context_cwd ctx)"
    and share: "file_system_paths_share_target lb q p Posix"
    and root: "r \<in> set (entry_roots lb ctx p)" "posix_lexical lb r"
  shows "\<exists>c\<in>set (entry_roots lb ctx q). posix_lexical lb c \<and> components lb c = components lb r"
proof (cases q; cases p)
  fix a b assume "q = PathEntry a" "p = PathEntry b"
  thus ?thesis using share root uri_eq_sym_posix [OF posix_lexicalD(1) [OF root(2)]] by auto
next
  fix a v assume qp: "q = PathEntry a" "p = Special v"
  thus ?thesis using share root matched_special [OF laws cwd, of a v] by auto
next
  fix b v assume qp: "q = Special v" "p = PathEntry b"
  thus ?thesis using share root matched_special [OF laws cwd, of b v] by auto
next
  fix v w assume "q = Special v" "p = Special w"
  thus ?thesis using share root by (auto simp: special_share_iff)
qed (use share root in auto)

section \<open>Resolved entries\<close>

lemma resolved_iff:
  "(r, a) \<in> set (resolved_entries lb policy ctx) \<longleftrightarrow>
   (\<exists>entry\<in>set (sandbox_entries policy). a = entry_access entry \<and> r \<in> set (entry_roots lb ctx (entry_path entry)) \<and>
      infer_convention lb r = infer_convention lb (context_cwd ctx))"
  by (auto simp: resolved_entries_def)

text \<open>What parsing guarantees of a \<open>PathUri\<close>.\<close>

definition valid_uri :: "uri_lib \<Rightarrow> file_url \<Rightarrow> bool" where
  "valid_uri lb url \<longleftrightarrow> url_segments url \<noteq> [] \<and> (nul_free lb url \<or> is_opaque lb url)"

lemma valid_posix: "valid_uri lb url \<Longrightarrow> posix_lexical lb url \<Longrightarrow> nul_free lb url \<and> url_segments url \<noteq> []"
  using posix_lexicalD(2) by (auto simp: valid_uri_def)

lemma write_over_other: "can_write a \<Longrightarrow> \<not> can_write b \<Longrightarrow> a > b \<longleftrightarrow> b = Read"
  by (cases a; cases b) (auto simp: can_write_def less_FileSystemAccessMode_def)

section \<open>Full write access\<close>

lemma full_write_no_narrowing:
  assumes laws: "uri_laws lb" and cwd: "posix_lexical lb (context_cwd ctx)" "nul_free lb (context_cwd ctx)"
    and root: "has_root_access policy can_write" and narrow: "\<not> has_write_narrowing_entries lb policy Posix"
    and r: "(r, a) \<in> set (resolved_entries lb policy ctx)" "posix_lexical lb r" and other: "\<not> can_write a"
  shows "\<exists>c. (c, Write) \<in> set (resolved_entries lb policy ctx) \<and> posix_lexical lb c \<and> components lb c = components lb r \<and> a = Read"
proof -
  obtain entry where entry: "entry \<in> set (sandbox_entries policy)" "a = entry_access entry" "r \<in> set (entry_roots lb ctx (entry_path entry))"
    using r(1) by (auto simp: resolved_iff)
  have kind: "sandbox_kind policy = Restricted" using root by (simp add: has_root_access_def)
  hence no: "\<not> narrows_write lb policy Posix entry"
    using narrow entry(1) by (auto simp: has_write_narrowing_entries_def list_ex_iff)
  show ?thesis
  proof (cases "entry_path entry = Special Root")
    case True
    obtain e where e: "e \<in> set (sandbox_entries policy)" "entry_path e = Special Root" "entry_access e = Write"
      using root by (auto simp: has_root_access_def list_ex_iff can_write_def)
    have "a = Read" using no True other entry(2) by (cases a) (auto simp: narrows_write_def can_write_def)
    moreover have "(r, Write) \<in> set (resolved_entries lb policy ctx)"
      using e entry(3) True posix_lexicalD(1) [OF r(2)] posix_lexicalD(1) [OF cwd(1)] by (auto simp: resolved_iff intro!: bexI [of _ e])
    ultimately show ?thesis using r(2) by blast
  next
    case False
    hence "has_same_target_write_override lb policy entry Posix"
      using no other entry(2,3) by (auto simp: narrows_write_def split: FileSystemPath.splits FileSystemSpecialPath.splits)
    then obtain e where e: "e \<in> set (sandbox_entries policy)" "can_write (entry_access e)" "entry_access e > a"
        "file_system_paths_share_target lb (entry_path e) (entry_path entry) Posix"
      using entry(2) by (auto simp: has_same_target_write_override_def list_ex_iff)
    obtain c where c: "c \<in> set (entry_roots lb ctx (entry_path e))" "posix_lexical lb c" "components lb c = components lb r"
      using share_target_root [OF laws cwd e(4) entry(3) r(2)] by blast
    have "(c, Write) \<in> set (resolved_entries lb policy ctx)"
      using e(1,2) c posix_lexicalD(1) [OF c(2)] posix_lexicalD(1) [OF cwd(1)] by (auto simp: resolved_iff can_write_def intro!: bexI [of _ e])
    thus ?thesis using c e(2,3) write_over_other [OF e(2) other] by blast
  qed
qed

lemma full_write_resolves:
  assumes laws: "uri_laws lb" and query: "posix_query lb path ctx" and free: "nul_free lb (context_cwd ctx)"
    and full: "has_full_disk_write_access_with_context lb policy ctx" and clear: "\<not> ambiguous lb (resolved_entries lb policy ctx)"
  shows "resolve_access lb policy path ctx = Write"
proof (cases "sandbox_kind policy = Restricted")
  case False
  thus ?thesis by (simp add: resolve_access_def)
next
  case kind: True
  note path = query [unfolded posix_query_def, THEN conjunct2] and cwd = query [unfolded posix_query_def, THEN conjunct1]
  have root: "has_root_access policy can_write" and narrow: "\<not> has_write_narrowing_entries lb policy Posix"
    using full kind posix_lexicalD(1) [OF cwd]
    by (auto simp: has_full_disk_write_access_with_context_def has_full_disk_write_access_for_convention_def)
  obtain top where top: "file_system_root lb ctx = Some top" "posix_lexical lb top" "components lb top = []"
    using root_posix [OF laws cwd free] by blast
  obtain e where e: "e \<in> set (sandbox_entries policy)" "entry_path e = Special Root" "entry_access e = Write"
    using root by (auto simp: has_root_access_def list_ex_iff can_write_def)
  have "(top, Write) \<in> set (resolved_entries lb policy ctx)"
    using e top posix_lexicalD(1) [OF top(2)] posix_lexicalD(1) [OF cwd] by (auto simp: resolved_iff option_list_def intro!: bexI [of _ e])
  moreover have "uri_starts_with lb path top" using path top by (simp add: starts_with_posix)
  ultimately obtain r where r: "governs lb path (resolved_entries lb policy ctx) r (resolve_access lb policy path ctx)"
    using resolve_access_governs [OF kind query clear] by blast
  have lexical: "posix_lexical lb r" using r posix.below_lexical [OF path] by (auto simp: governs_def)
  show ?thesis
  proof (rule ccontr)
    assume "resolve_access lb policy path ctx \<noteq> Write"
    then obtain c where c: "(c, Write) \<in> set (resolved_entries lb policy ctx)" "posix_lexical lb c" "components lb c = components lb r"
        "resolve_access lb policy path ctx = Read"
      using full_write_no_narrowing [OF laws cwd free root narrow _ lexical] r by (auto simp: governs_def can_write_def)
    have "uri_starts_with lb path c" "uri_starts_with lb c r"
      using c r path lexical by (auto simp: governs_def starts_with_posix)
    hence "Write \<le> Read" using r c by (auto simp: governs_def)
    thus False by (simp add: less_eq_FileSystemAccessMode_def)
  qed
qed

section \<open>Protected metadata\<close>

lemma first_some_iff: "first_some f xs = None \<longleftrightarrow> (\<forall>x\<in>set xs. f x = None)"
  by (induction xs) (auto split: option.splits)

lemma first_some_Some: "first_some f xs = Some y \<Longrightarrow> \<exists>x\<in>set xs. f x = Some y"
  by (induction xs) (auto split: option.splits)

lemma metadata_plain: "n \<in> set PROTECTED_METADATA_PATH_NAMES \<Longrightarrow> plain_name n \<and> n \<noteq> []"
  by (auto simp: PROTECTED_METADATA_PATH_NAMES_def plain_name_def lit_def is_ascii_alphabetic_def is_ascii_digit_def)

text \<open>A path at or below the metadata directory \<open>n\<close> of a directory.\<close>

definition in_metadata :: "uri_lib \<Rightarrow> file_url \<Rightarrow> rstr \<Rightarrow> file_url \<Rightarrow> bool" where
  "in_metadata lb root n path \<longleftrightarrow> prefix (components lb root @ [n]) (components lb path)"

lemma protecting_root_None:
  assumes laws: "uri_laws lb" and path: "posix_lexical lb path" and root: "posix_lexical lb root" "valid_uri lb root"
    and n: "n \<in> set PROTECTED_METADATA_PATH_NAMES" "in_metadata lb root n path"
  shows "protecting_root lb path root \<noteq> None"
proof -
  obtain url where url: "join_descendant lb root n = Ok url" "posix_lexical lb url" "components lb url = components lb root @ [n]"
    using join_descendant_name [OF laws _ _ root(1)] metadata_plain [OF n(1)] valid_posix [OF root(2,1)] by blast
  have "uri_starts_with lb path url" using url n(2) path by (simp add: starts_with_posix in_metadata_def)
  thus ?thesis using n(1) url(1) by (auto simp: protecting_root_def first_some_iff intro!: bexI [of _ n])
qed

lemma protecting_root_Some:
  assumes laws: "uri_laws lb" and path: "posix_lexical lb path" and valid: "valid_uri lb root"
    and some: "protecting_root lb path root = Some (protected, n)"
  shows "n \<in> set PROTECTED_METADATA_PATH_NAMES" and "posix_lexical lb root" and "posix_lexical lb protected"
    and "components lb protected = components lb root @ [n]" and "in_metadata lb root n path"
proof -
  obtain x where x: "x \<in> set PROTECTED_METADATA_PATH_NAMES"
    "(case join_descendant lb root x of Inl _ \<Rightarrow> None
      | Inr u \<Rightarrow> if uri_starts_with lb path u then Some (u, x) else None) = Some (protected, n)"
    using first_some_Some [OF some [unfolded protecting_root_def]] by blast
  have n: "n \<in> set PROTECTED_METADATA_PATH_NAMES" "join_descendant lb root n = Ok protected" "uri_starts_with lb path protected"
    using x by (cases "join_descendant lb root x"; simp split: if_splits)+
  show lexical: "posix_lexical lb protected" by (rule posix.below_lexical [OF path n(3)])
  have "uri_starts_with lb protected root" using n(2) by (auto simp: join_descendant_def split: sum.splits if_splits)
  thus root: "posix_lexical lb root" by (rule posix.below_lexical [OF lexical])
  show "n \<in> set PROTECTED_METADATA_PATH_NAMES" by (rule n(1))
  obtain url where "join_descendant lb root n = Ok url" "components lb url = components lb root @ [n]"
    using join_descendant_name [OF laws _ _ root] metadata_plain [OF n(1)] valid_posix [OF valid root] by blast
  thus components: "components lb protected = components lb root @ [n]" using n(2) by simp
  show "in_metadata lb root n path" using n(3) path lexical components by (simp add: starts_with_posix in_metadata_def)
qed

lemma metadata_denied:
  assumes laws: "uri_laws lb" and kind: "sandbox_kind policy = Restricted" and path: "posix_lexical lb path"
    and valid: "\<forall>(q, _)\<in>set (resolved_entries lb policy ctx). valid_uri lb q"
    and root: "(r, Write) \<in> set (resolved_entries lb policy ctx)" "posix_lexical lb r"
    and n: "n \<in> set PROTECTED_METADATA_PATH_NAMES" "in_metadata lb r n path"
    and outside: "\<And>q s m. (q, Write) \<in> set (resolved_entries lb policy ctx) \<Longrightarrow> (s, Write) \<in> set (resolved_entries lb policy ctx) \<Longrightarrow>
      uri_starts_with lb path q \<Longrightarrow> m \<in> set PROTECTED_METADATA_PATH_NAMES \<Longrightarrow> \<not> in_metadata lb s m q"
  shows "\<exists>m\<in>set PROTECTED_METADATA_PATH_NAMES. metadata_write_denial lb policy path ctx = Some m"
proof -
  define entries where "entries = resolved_entries lb policy ctx"
  have "protecting_root lb path r \<noteq> None" using protecting_root_None [OF laws path root(2) _ n] valid root(1) by blast
  hence "first_some (\<lambda>(root, _). protecting_root lb path root) (filter (\<lambda>(_, access). can_write access) entries) \<noteq> None"
    using root(1) by (auto simp: first_some_iff can_write_def entries_def intro!: bexI [of _ "(r, Write)"] simp del: not_None_eq)
  then obtain protected m where found:
      "first_some (\<lambda>(root, _). protecting_root lb path root) (filter (\<lambda>(_, access). can_write access) entries) = Some (protected, m)"
    by auto
  obtain s where s: "(s, Write) \<in> set entries" "protecting_root lb path s = Some (protected, m)"
    using first_some_Some [OF found] by (auto simp: can_write_def)
  have "valid_uri lb s" using valid s(1) by (auto simp: entries_def)
  note prot = protecting_root_Some [OF laws path this s(2)]
  have "\<not> (can_write a \<and> uri_starts_with lb path q \<and> uri_starts_with lb q protected)" if "(q, a) \<in> set entries" for q a
  proof
    assume q: "can_write a \<and> uri_starts_with lb path q \<and> uri_starts_with lb q protected"
    have "posix_lexical lb q" using q posix.below_lexical [OF path] by blast
    hence "in_metadata lb s m q" using q prot by (simp add: starts_with_posix in_metadata_def)
    thus False using outside [of q s m] q that s(1) prot(1) by (auto simp: entries_def can_write_def)
  qed
  hence "\<not> list_ex (\<lambda>(root, access). can_write access \<and> uri_starts_with lb path root \<and> uri_starts_with lb root protected) entries"
    by (auto simp: list_ex_iff)
  hence "metadata_write_denial lb policy path ctx = Some m"
    using kind found by (simp add: metadata_write_denial_def entries_def Let_def)
  thus ?thesis using prot(1) by blast
qed

section \<open>Kept denials\<close>

lemma push_missing_keeps: "set (sandbox_entries policy) \<subseteq> set (sandbox_entries (push_missing lb e policy))"
  by (auto simp: push_missing_def)

lemma fold_push_keeps: "set (sandbox_entries policy) \<subseteq> set (sandbox_entries (fold (push_missing lb) es policy))"
  by (induction es arbitrary: policy) (auto dest: push_missing_keeps [THEN subsetD])

lemma fold_push_kind [simp]: "sandbox_kind (fold (push_missing lb) es policy) = sandbox_kind policy"
  by (induction es arbitrary: policy) (auto simp: push_missing_def)

lemma entry_eq_refl: "entry_eq lb e e"
  by (cases "entry_path e") (auto simp: entry_eq_def uri_eq_def)

lemma fold_push_has:
  "e \<in> set es \<Longrightarrow> \<exists>e'\<in>set (sandbox_entries (fold (push_missing lb) es policy)). entry_eq lb e' e"
proof (induction es arbitrary: policy)
  case (Cons d es)
  have "\<exists>e'\<in>set (sandbox_entries (push_missing lb d policy)). entry_eq lb e' d"
    by (auto simp: push_missing_def list_ex_iff entry_eq_refl)
  thus ?case using Cons fold_push_keeps [of "push_missing lb d policy" lb es] by auto
qed simp

lemma preserved_entry:
  assumes e: "e \<in> set (sandbox_entries existing)" "entry_access e = Deny" and kind: "sandbox_kind policy \<noteq> ExternalSandboxKind"
  shows "sandbox_kind (preserve_deny_read_restrictions_from lb policy existing) = Restricted"
    and "\<exists>e'\<in>set (sandbox_entries (preserve_deny_read_restrictions_from lb policy existing)). entry_eq lb e' e"
proof -
  have deny: "e \<in> set (deny_entries existing)" using e by (simp add: deny_entries_def)
  hence ne: "deny_entries existing \<noteq> []" by auto
  show "sandbox_kind (preserve_deny_read_restrictions_from lb policy existing) = Restricted"
    using kind ne by (cases "sandbox_kind policy") (simp_all add: preserve_deny_read_restrictions_from_def restricted_def Let_def)
  show "\<exists>e'\<in>set (sandbox_entries (preserve_deny_read_restrictions_from lb policy existing)). entry_eq lb e' e"
    using kind ne fold_push_has [OF deny]
    by (cases "sandbox_kind policy") (simp_all add: preserve_deny_read_restrictions_from_def restricted_def Let_def)
qed

lemma equal_entry_roots:
  assumes "entry_eq lb e' e" and "r \<in> set (entry_roots lb ctx (entry_path e))" and "posix_lexical lb r"
  shows "r \<in> set (entry_roots lb ctx (entry_path e'))"
  using assms uri_eq_sym_posix [OF posix_lexicalD(1) [OF assms(3)]]
  by (cases "entry_path e"; cases "entry_path e'") (auto simp: entry_eq_def)

section \<open>The workspace policy\<close>

lemma workspace_policy:
  "workspace_write lb h [] True True =
     restricted [new_entry (Special Root) Read, new_entry (Special (ProjectRoots None)) Write,
       skip_missing_path (Special (ProjectRoots (Some (lit ''.git'')))) Read,
       skip_missing_path (Special (ProjectRoots (Some (lit ''.agents'')))) Read,
       skip_missing_path (Special (ProjectRoots (Some (lit ''.codex'')))) Read]"
  by (simp add: workspace_write_def writable_entries_def append_default_read_only_project_root_subpath_if_no_explicit_rule_def
      append_default_read_only_entry_if_no_explicit_rule_def new_entry_def skip_missing_path_def lit_def)

lemma metadata_join:
  assumes "uri_laws lb" and "posix_lexical lb w" and "valid_uri lb w" and "n \<in> set PROTECTED_METADATA_PATH_NAMES"
  obtains u where "join_uri lb w n = Ok u" "posix_lexical lb u" "components lb u = components lb w @ [n]"
  using join_name [OF assms(1) _ _ assms(2)] metadata_plain [OF assms(4)] valid_posix [OF assms(3,2)] by blast

lemma workspace_entries:
  assumes laws: "uri_laws lb" and cwd: "posix_lexical lb (context_cwd ctx)" "nul_free lb (context_cwd ctx)"
    and roots: "workspace_roots ctx = [w]" and w: "posix_lexical lb w" "valid_uri lb w"
  obtains top g ag co where
    "resolved_entries lb (workspace_write lb h [] True True) ctx = [(top, Read), (w, Write), (g, Read), (ag, Read), (co, Read)]"
    "posix_lexical lb top" "components lb top = []"
    "posix_lexical lb g" "components lb g = components lb w @ [lit ''.git'']"
    "posix_lexical lb ag" "components lb ag = components lb w @ [lit ''.agents'']"
    "posix_lexical lb co" "components lb co = components lb w @ [lit ''.codex'']"
proof -
  obtain top where top: "file_system_root lb ctx = Some top" "posix_lexical lb top" "components lb top = []"
    using root_posix [OF laws cwd] by blast
  have mem: "lit ''.git'' \<in> set PROTECTED_METADATA_PATH_NAMES" "lit ''.agents'' \<in> set PROTECTED_METADATA_PATH_NAMES"
    "lit ''.codex'' \<in> set PROTECTED_METADATA_PATH_NAMES" by (simp_all add: PROTECTED_METADATA_PATH_NAMES_def)
  obtain g where g: "join_uri lb w (lit ''.git'') = Ok g" "posix_lexical lb g" "components lb g = components lb w @ [lit ''.git'']"
    using metadata_join [OF laws w mem(1)] by blast
  obtain ag where ag: "join_uri lb w (lit ''.agents'') = Ok ag" "posix_lexical lb ag" "components lb ag = components lb w @ [lit ''.agents'']"
    using metadata_join [OF laws w mem(2)] by blast
  obtain co where co: "join_uri lb w (lit ''.codex'') = Ok co" "posix_lexical lb co" "components lb co = components lb w @ [lit ''.codex'']"
    using metadata_join [OF laws w mem(3)] by blast
  have "resolved_entries lb (workspace_write lb h [] True True) ctx = [(top, Read), (w, Write), (g, Read), (ag, Read), (co, Read)]"
    using posix_lexicalD(1) [OF cwd(1)] posix_lexicalD(1) [OF top(2)] posix_lexicalD(1) [OF w(1)] posix_lexicalD(1) [OF g(2)]
      posix_lexicalD(1) [OF ag(2)] posix_lexicalD(1) [OF co(2)]
    by (simp add: workspace_policy resolved_entries_def restricted_def new_entry_def skip_missing_path_def roots top(1) g(1) ag(1) co(1)
        option_list_def map_filter_simps ok_of_def)
  thus ?thesis using that top g ag co by blast
qed

lemma workspace_resolves:
  assumes laws: "uri_laws lb" and query: "posix_query lb path ctx" and free: "nul_free lb (context_cwd ctx)"
    and roots: "workspace_roots ctx = [w]" and w: "posix_lexical lb w" "valid_uri lb w"
  shows "resolve_access lb (workspace_write lb h [] True True) path ctx = Write \<longleftrightarrow>
         uri_starts_with lb path w \<and> (\<forall>n\<in>set PROTECTED_METADATA_PATH_NAMES. \<not> in_metadata lb w n path)"
proof -
  define policy where "policy = workspace_write lb h [] True True"
  note path = query [unfolded posix_query_def, THEN conjunct2] and cwd = query [unfolded posix_query_def, THEN conjunct1]
  obtain top g ag co where entries:
      "resolved_entries lb policy ctx = [(top, Read), (w, Write), (g, Read), (ag, Read), (co, Read)]"
      and top: "posix_lexical lb top" "components lb top = []"
      and g: "posix_lexical lb g" "components lb g = components lb w @ [lit ''.git'']"
      and ag: "posix_lexical lb ag" "components lb ag = components lb w @ [lit ''.agents'']"
      and co: "posix_lexical lb co" "components lb co = components lb w @ [lit ''.codex'']"
    unfolding policy_def by (rule workspace_entries [OF laws cwd free roots w, where h = h])
  note lex = top(1) g(1) ag(1) co(1) and comps = top(2) g(2) ag(2) co(2)
  have kind: "sandbox_kind policy = Restricted" by (simp add: policy_def workspace_policy restricted_def)
  have clear: "\<not> ambiguous lb (resolved_entries lb policy ctx)"
    using lexical_depth_posix [OF lex(1)] lexical_depth_posix [OF lex(2)] lexical_depth_posix [OF lex(3)] lexical_depth_posix [OF lex(4)]
      lexical_depth_posix [OF w(1)] by (simp add: ambiguous_def entries)
  have "(top, Read) \<in> set (resolved_entries lb policy ctx)" "uri_starts_with lb path top"
    using path lex(1) comps(1) by (simp_all add: entries starts_with_posix)
  from resolve_access_governs [OF kind query clear this]
  obtain r where r: "governs lb path (resolved_entries lb policy ctx) r (resolve_access lb policy path ctx)" by blast
  have dirs: "\<exists>u. (u, Read) \<in> set (resolved_entries lb policy ctx) \<and> posix_lexical lb u \<and> components lb u = components lb w @ [n]"
    if "n \<in> set PROTECTED_METADATA_PATH_NAMES" for n
    using that lex comps by (auto simp: entries PROTECTED_METADATA_PATH_NAMES_def)
  have meta: "\<exists>u. (u, Read) \<in> set (resolved_entries lb policy ctx) \<and> uri_starts_with lb path u \<and> \<not> uri_starts_with lb w u"
    if n: "n \<in> set PROTECTED_METADATA_PATH_NAMES" "in_metadata lb w n path" for n
  proof -
    obtain u where u: "(u, Read) \<in> set (resolved_entries lb policy ctx)" "posix_lexical lb u" "components lb u = components lb w @ [n]"
      using dirs [OF n(1)] by blast
    have "\<not> prefix (components lb w @ [n]) (components lb w)" by (auto dest: prefix_length_le)
    thus ?thesis using u n(2) path w(1) by (auto simp: in_metadata_def starts_with_posix)
  qed
  have "resolve_access lb policy path ctx = Write \<longleftrightarrow>
      uri_starts_with lb path w \<and> (\<forall>n\<in>set PROTECTED_METADATA_PATH_NAMES. \<not> in_metadata lb w n path)"
  proof
    assume "resolve_access lb policy path ctx = Write"
    hence "r = w" "uri_starts_with lb path w" using r by (auto simp: governs_def entries)
    thus "uri_starts_with lb path w \<and> (\<forall>n\<in>set PROTECTED_METADATA_PATH_NAMES. \<not> in_metadata lb w n path)"
      using r meta by (fastforce simp: governs_def)
  next
    assume below: "uri_starts_with lb path w \<and> (\<forall>n\<in>set PROTECTED_METADATA_PATH_NAMES. \<not> in_metadata lb w n path)"
    show "resolve_access lb policy path ctx = Write"
    proof (rule ccontr)
      assume "resolve_access lb policy path ctx \<noteq> Write"
      hence read: "resolve_access lb policy path ctx = Read" "r \<in> {top, g, ag, co}" using r by (auto simp: governs_def entries)
      have "r = top" using read(2) below r path lex comps
        by (auto simp: governs_def PROTECTED_METADATA_PATH_NAMES_def in_metadata_def starts_with_posix)
      hence "uri_starts_with lb w r" using w(1) lex(1) comps(1) by (simp add: starts_with_posix)
      hence "Write \<le> Read" using r below read(1) by (auto simp: governs_def entries)
      thus False by (simp add: less_eq_FileSystemAccessMode_def)
    qed
  qed
  thus ?thesis by (simp add: policy_def)
qed

section \<open>Concrete policies\<close>

definition dir_at :: "string list \<Rightarrow> file_url" where
  "dir_at ns = \<lparr>url_host = None, url_segments = map lit ns\<rparr>"

definition sample_ctx :: FileSystemSandboxPolicyContext where
  "sample_ctx =
     \<lparr>context_cwd = dir_at [''a''], workspace_roots = [dir_at [''a'']], user_home_dir = None, temporary_directories = None\<rparr>"

definition nested_repository :: "FileSystemSandboxEntry list" where
  "nested_repository = [new_entry (PathEntry (dir_at [''a''])) Write, new_entry (PathEntry (dir_at [''a'', ''.git'', ''x''])) Write]"

definition deny_secret :: FileSystemSandboxPolicy where
  "deny_secret =
     restricted [new_entry (Special Root) Read, new_entry (PathEntry (dir_at [''a''])) Write,
       new_entry (PathEntry (dir_at [''a'', ''secret''])) Deny, new_entry (PathEntry (dir_at [''a'', ''secret''])) Write]"

definition all_but_read_tmp :: FileSystemSandboxPolicy where
  "all_but_read_tmp =
     restricted [new_entry (Special Root) Write, new_entry (Special SlashTmp) Read, new_entry (PathEntry (dir_at [''tmp''])) Write]"

definition reopened :: FileSystemSandboxPolicy where
  "reopened = restricted [new_entry (Special Root) Write, new_entry (PathEntry (dir_at [''a'', ''secret'', ''pub''])) Read]"

definition sample_host :: sandbox_host where
  "sample_host =
     \<lparr>home_dir = None, current_dir = None, tmpdir_var = None, host_is_file = (\<lambda>_. False), host_is_dir = (\<lambda>_. False),
      host_exists = (\<lambda>_. False), host_read = (\<lambda>_. None)\<rparr>"

definition workspace_only :: FileSystemSandboxPolicy where
  "workspace_only = restricted [new_entry (Special Root) Read, new_entry (Special (ProjectRoots None)) Write]"

section \<open>Theorems\<close>

text \<open>
  C4. For a restricted policy on a POSIX host whose entries have unambiguous paths: the access to a path is that
  of the entry nearest above it. Every other entry that contains the path contains the nearest one, and of the
  entries at the same place the last in the order \<open>Read < Write < Deny\<close> decides; a path no entry contains
  is denied.
\<close>

theorem nearest_entry_decides:
  assumes "sandbox_kind policy = Restricted" and "posix_query lb path ctx" and "\<not> ambiguous lb (resolved_entries lb policy ctx)"
  shows "if \<exists>(r, a)\<in>set (resolved_entries lb policy ctx). uri_starts_with lb path r
         then \<exists>r. governs lb path (resolved_entries lb policy ctx) r (resolve_access lb policy path ctx)
         else resolve_access lb policy path ctx = Deny"
proof (cases "\<exists>(r, a)\<in>set (resolved_entries lb policy ctx). uri_starts_with lb path r")
  case True
  thus ?thesis using resolve_access_governs [OF assms] by auto
next
  case False
  hence "resolve_access lb policy path ctx = Deny" by (intro resolve_access_no_entry [OF assms(1)]) auto
  thus ?thesis using False by auto
qed

theorem nearest_entry_decides_witness:
  "\<exists>r. governs sample_lib (dir_at [''a'', ''secret'', ''key'']) (resolved_entries sample_lib deny_secret sample_ctx) r Deny"
proof -
  have "sandbox_kind deny_secret = Restricted" by code_simp
  moreover have "posix_query sample_lib (dir_at [''a'', ''secret'', ''key'']) sample_ctx" by code_simp
  moreover have "\<not> ambiguous sample_lib (resolved_entries sample_lib deny_secret sample_ctx)" by code_simp
  moreover have "resolve_access sample_lib deny_secret (dir_at [''a'', ''secret'', ''key'']) sample_ctx = Deny" by code_simp
  moreover have "list_ex (\<lambda>(r, a). uri_starts_with sample_lib (dir_at [''a'', ''secret'', ''key'']) r) (resolved_entries sample_lib deny_secret sample_ctx)"
    by code_simp
  ultimately show ?thesis
    using nearest_entry_decides [of deny_secret sample_lib "dir_at [''a'', ''secret'', ''key'']" sample_ctx]
    by (simp add: list_ex_iff)
qed



text \<open>
  C12. Under a restricted policy without full write access, a path at or below \<open>.git\<close>, \<open>.agents\<close> or \<open>.codex\<close> of a
  writable root is not writable on a POSIX host, even where no entry mentions that directory, unless a writable
  root that contains the path lies itself inside such a directory.
\<close>

theorem protected_metadata_not_writable:
  assumes "uri_laws lb" and "sandbox_kind policy = Restricted" and "posix_lexical lb path"
    and "\<not> has_full_disk_write_access_with_context lb policy ctx"
    and "\<forall>(q, _)\<in>set (resolved_entries lb policy ctx). valid_uri lb q"
    and "(r, Write) \<in> set (resolved_entries lb policy ctx)" and "posix_lexical lb r"
    and "n \<in> set PROTECTED_METADATA_PATH_NAMES" and "in_metadata lb r n path"
    and "\<forall>(q, a)\<in>set (resolved_entries lb policy ctx). a = Write \<and> uri_starts_with lb path q \<longrightarrow>
           (\<forall>(s, b)\<in>set (resolved_entries lb policy ctx). b = Write \<longrightarrow>
              (\<forall>m\<in>set PROTECTED_METADATA_PATH_NAMES. \<not> in_metadata lb s m q))"
  shows "\<not> can_write_path lb policy path ctx \<and>
         (\<exists>m\<in>set PROTECTED_METADATA_PATH_NAMES. metadata_write_denial lb policy path ctx = Some m)"
proof -
  have "\<exists>m\<in>set PROTECTED_METADATA_PATH_NAMES. metadata_write_denial lb policy path ctx = Some m"
    using assms(10) by (intro metadata_denied [OF assms(1-3,5-9)]) fastforce
  thus ?thesis using assms(4) by (auto simp: can_write_path_def)
qed

theorem protected_metadata_not_writable_witness:
  "resolve_access sample_lib workspace_only (dir_at [''a'', ''.git'', ''hooks'']) sample_ctx = Write \<and>
   \<not> can_write_path sample_lib workspace_only (dir_at [''a'', ''.git'', ''hooks'']) sample_ctx"
proof
  let ?path = "dir_at [''a'', ''.git'', ''hooks'']"
  show "resolve_access sample_lib workspace_only ?path sample_ctx = Write" by code_simp
  have entries: "resolved_entries sample_lib workspace_only sample_ctx =
      [(\<lparr>url_host = None, url_segments = [[]]\<rparr>, Read), (dir_at [''a''], Write)]" by code_simp
  have "\<not> can_write_path sample_lib workspace_only ?path sample_ctx \<and>
      (\<exists>m\<in>set PROTECTED_METADATA_PATH_NAMES. metadata_write_denial sample_lib workspace_only ?path sample_ctx = Some m)"
  proof (rule protected_metadata_not_writable [OF sample_lib_laws, where r = "dir_at [''a'']" and n = "lit ''.git''"])
    show "sandbox_kind workspace_only = Restricted" by code_simp
    show "posix_lexical sample_lib ?path" by code_simp
    show "\<not> has_full_disk_write_access_with_context sample_lib workspace_only sample_ctx" by code_simp
    have "valid_uri sample_lib \<lparr>url_host = None, url_segments = [[]]\<rparr> \<and> valid_uri sample_lib (dir_at [''a''])" by code_simp
    thus "\<forall>(q, _)\<in>set (resolved_entries sample_lib workspace_only sample_ctx). valid_uri sample_lib q" by (simp add: entries)
    show "(dir_at [''a''], Write) \<in> set (resolved_entries sample_lib workspace_only sample_ctx)" by (simp add: entries)
    show "posix_lexical sample_lib (dir_at [''a''])" by code_simp
    show "lit ''.git'' \<in> set PROTECTED_METADATA_PATH_NAMES" by code_simp
    show "in_metadata sample_lib (dir_at [''a'']) (lit ''.git'') ?path" by code_simp
    have "list_all (\<lambda>m. \<not> in_metadata sample_lib (dir_at [''a'']) m (dir_at [''a''])) PROTECTED_METADATA_PATH_NAMES" by code_simp
    thus "\<forall>(q, a)\<in>set (resolved_entries sample_lib workspace_only sample_ctx). a = Write \<and> uri_starts_with sample_lib ?path q \<longrightarrow>
           (\<forall>(s, b)\<in>set (resolved_entries sample_lib workspace_only sample_ctx). b = Write \<longrightarrow>
              (\<forall>m\<in>set PROTECTED_METADATA_PATH_NAMES. \<not> in_metadata sample_lib s m q))"
      by (simp add: entries list_all_iff)
  qed
  thus "\<not> can_write_path sample_lib workspace_only ?path sample_ctx" by blast
qed



text \<open>
  Whether protected metadata of a writable root can be written depends on the order of the entries: only the
  first writable root whose metadata directory contains the path is examined. With the roots \<open>/a\<close> and
  \<open>/a/.git/x\<close> in this order the hooks of the repository \<open>/a/.git/x\<close> are writable, in the other order they are
  protected.
\<close>

theorem metadata_protection_depends_on_order:
  "can_write_path sample_lib (restricted nested_repository) (dir_at [''a'', ''.git'', ''x'', ''.git'', ''hooks'']) sample_ctx \<and>
   \<not> can_write_path sample_lib (restricted (rev nested_repository)) (dir_at [''a'', ''.git'', ''x'', ''.git'', ''hooks'']) sample_ctx"
proof
  show "can_write_path sample_lib (restricted nested_repository) (dir_at [''a'', ''.git'', ''x'', ''.git'', ''hooks'']) sample_ctx" by code_simp
  show "\<not> can_write_path sample_lib (restricted (rev nested_repository)) (dir_at [''a'', ''.git'', ''x'', ''.git'', ''hooks'']) sample_ctx"
    by code_simp
qed

text \<open>
  C14. The policy of the mode \<open>workspace-write\<close> without temporary directories and further roots, in a workspace on a
  POSIX host, lets exactly these paths be written: the workspace and what is below it, but not its directories
  \<open>.git\<close>, \<open>.agents\<close> and \<open>.codex\<close> and what is below them.
\<close>

theorem workspace_write_writes_workspace:
  assumes "uri_laws lb" and "posix_query lb path ctx" and "nul_free lb (context_cwd ctx)"
    and "workspace_roots ctx = [w]" and "posix_lexical lb w" and "valid_uri lb w"
  shows "can_write_path lb (from_sandbox_policy lb h (WorkspaceWrite [] network True True)) path ctx \<longleftrightarrow>
         uri_starts_with lb path w \<and> (\<forall>n\<in>set PROTECTED_METADATA_PATH_NAMES. \<not> in_metadata lb w n path)"
proof -
  define policy where "policy = workspace_write lb h [] True True"
  note path = assms(2) [unfolded posix_query_def, THEN conjunct2] and cwd = assms(2) [unfolded posix_query_def, THEN conjunct1]
  have "metadata_write_denial lb policy path ctx = None" if no: "\<forall>n\<in>set PROTECTED_METADATA_PATH_NAMES. \<not> in_metadata lb w n path"
  proof -
    have "protecting_root lb path w = None"
      using protecting_root_Some(1,5) [OF assms(1) path assms(6)] no by (cases "protecting_root lb path w") auto
    moreover obtain top g ag co where
      "resolved_entries lb policy ctx = [(top, Read), (w, Write), (g, Read), (ag, Read), (co, Read)]"
      unfolding policy_def by (rule workspace_entries [OF assms(1) cwd assms(3-6), where h = h])
    ultimately show ?thesis by (simp add: metadata_write_denial_def can_write_def)
  qed
  thus ?thesis using workspace_resolves [OF assms(1-6), of h] by (auto simp: can_write_path_def policy_def can_write_def)
qed

theorem workspace_write_writes_workspace_witness:
  "can_write_path sample_lib (from_sandbox_policy sample_lib sample_host (WorkspaceWrite [] False True True)) (dir_at [''a'', ''src'', ''.git'']) sample_ctx"
proof -
  have "uri_starts_with sample_lib (dir_at [''a'', ''src'', ''.git'']) (dir_at [''a''])" by code_simp
  moreover have "list_all (\<lambda>n. \<not> in_metadata sample_lib (dir_at [''a'']) n (dir_at [''a'', ''src'', ''.git''])) PROTECTED_METADATA_PATH_NAMES" by code_simp
  moreover have "posix_query sample_lib (dir_at [''a'', ''src'', ''.git'']) sample_ctx" by code_simp
  moreover have "nul_free sample_lib (context_cwd sample_ctx)" by code_simp
  moreover have "workspace_roots sample_ctx = [dir_at [''a'']]" by (simp add: sample_ctx_def)
  moreover have "posix_lexical sample_lib (dir_at [''a''])" by code_simp
  moreover have "valid_uri sample_lib (dir_at [''a''])" by code_simp
  ultimately show ?thesis
    using workspace_write_writes_workspace [OF sample_lib_laws, of "dir_at [''a'', ''src'', ''.git'']" sample_ctx "dir_at [''a'']" sample_host False]
    by (simp add: list_all_iff del: from_sandbox_policy.simps)
qed

end
