(* ===== verification/Deny_Read.thy ===== *)
theory Deny_Read
  imports Sandbox_Policy
begin

text \<open>
  \<open>protocol/src/permissions.rs\<close>, \<open>permissions/target.rs\<close> and \<open>permissions/deny_read_validator.rs\<close>: the denials of
  a policy as a matcher for single paths, the check that a selected policy keeps the denials an administrator
  requires, and the replacement of symbolic workspace entries by concrete ones. The crate \<open>globset\<close> is the
  parameter \<open>gl\<close>: whether a backslash escapes, whether case is ignored, and the pattern, to a matcher of bytes
  or an error.
\<close>

section \<open>Globs\<close>

type_synonym matcher = "byte list \<Rightarrow> bool"
type_synonym glob_builder = "bool \<Rightarrow> bool \<Rightarrow> rstr \<Rightarrow> rstr + matcher"

datatype glob_error =
    GlobWithoutHome rstr
  | GlobDirectory LegacyAppPathStringError
  | GlobUnresolved rstr
  | GlobInvalid rstr rstr

definition to_slashes :: "rstr \<Rightarrow> rstr" where
  "to_slashes s = map (\<lambda>c. if c = 92 then 47 else c) s"

definition build_glob_matcher :: "glob_builder \<Rightarrow> rstr \<Rightarrow> PathConvention \<Rightarrow> rstr + matcher" where
  "build_glob_matcher gl pattern convention =
     gl (convention = Posix) (convention = Windows) (if convention = Windows then to_slashes pattern else pattern)"

definition home_glob_suffix :: "bool \<Rightarrow> rstr \<Rightarrow> rstr option" where
  "home_glob_suffix is_windows pattern =
     (case strip_prefix [126, 47] pattern of
        Some s \<Rightarrow> Some s
      | None \<Rightarrow> if is_windows then strip_prefix [126, 92] pattern else None)"

definition trim_separators :: "bool \<Rightarrow> rstr \<Rightarrow> rstr" where
  "trim_separators is_windows s = dropWhile (\<lambda>c. c = 47 \<or> is_windows \<and> c = 92) s"

definition resolve_glob :: "uri_lib \<Rightarrow> FileSystemSandboxPolicyContext \<Rightarrow> rstr \<Rightarrow> glob_error + rstr" where
  "resolve_glob lb ctx pattern =
     (let is_windows = infer_convention lb (context_cwd ctx) = Some Windows;
          convention = (if is_windows then Windows else Posix) in
      case (case home_glob_suffix is_windows pattern of
              Some s \<Rightarrow> map_option (\<lambda>home. (home, trim_separators is_windows s)) (user_home_dir ctx)
            | None \<Rightarrow> Some (context_cwd ctx, pattern)) of
        None \<Rightarrow> Err (GlobWithoutHome pattern)
      | Some (root, rest) \<Rightarrow>
          (case (to_path_uri lb rest convention, validate_glob_directory lb root convention) of
             (Inl _, Inl e) \<Rightarrow> Err (GlobDirectory e)
           | _ \<Rightarrow>
               (case join_uri lb root rest of
                  Inr path \<Rightarrow> Ok (inferred_native_path_string lb path)
                | Inl _ \<Rightarrow> Err (GlobUnresolved rest))))"

fun collect_globs :: "('e + 'a) list \<Rightarrow> 'e + 'a list" where
  "collect_globs [] = Ok []"
| "collect_globs (Inl e # rs) = Err e"
| "collect_globs (Inr x # rs) = (case collect_globs rs of Inl e \<Rightarrow> Err e | Inr xs \<Rightarrow> Ok (x # xs))"

definition glob_pattern :: "FileSystemSandboxEntry \<Rightarrow> rstr option" where
  "glob_pattern entry = (case entry_path entry of GlobPattern pattern \<Rightarrow> Some pattern | _ \<Rightarrow> None)"

definition deny_read_globs :: "uri_lib \<Rightarrow> FileSystemSandboxPolicy \<Rightarrow> FileSystemSandboxPolicyContext \<Rightarrow> glob_error + rstr list" where
  "deny_read_globs lb policy ctx = collect_globs (map (resolve_glob lb ctx) (List.map_filter glob_pattern (deny_entries policy)))"

section \<open>The matcher\<close>

record PreparedReadDenyMatcher =
  denied_roots :: "file_url list"
  deny_read_matchers :: "matcher list"
  invalid_pattern :: bool

datatype InvalidDenyReadGlobBehavior = FailClosed | ReturnError

definition same_place :: "uri_lib \<Rightarrow> file_url \<Rightarrow> file_url \<Rightarrow> bool" where
  "same_place lb a b \<longleftrightarrow> uri_starts_with lb a b \<and> uri_starts_with lb b a"

definition context_denied_roots :: "uri_lib \<Rightarrow> FileSystemSandboxPolicy \<Rightarrow> FileSystemSandboxPolicyContext \<Rightarrow> file_url list" where
  "context_denied_roots lb policy ctx =
     map fst (filter (\<lambda>(root, access). access = Deny \<and>
         \<not> (case file_system_root lb ctx of Some root_dir \<Rightarrow> same_place lb root root_dir | None \<Rightarrow> False))
       (resolved_entries lb policy ctx))"

fun build_matchers :: "glob_builder \<Rightarrow> PathConvention \<Rightarrow> InvalidDenyReadGlobBehavior \<Rightarrow> rstr list \<Rightarrow> glob_error + matcher list \<times> bool" where
  "build_matchers gl convention behavior [] = Ok ([], False)"
| "build_matchers gl convention behavior (pattern # patterns) =
     (case build_glob_matcher gl pattern convention of
        Inr m \<Rightarrow>
          (case build_matchers gl convention behavior patterns of
             Inl e \<Rightarrow> Err e
           | Inr (ms, invalid) \<Rightarrow> Ok (m # ms, invalid))
      | Inl e \<Rightarrow>
          (case behavior of
             ReturnError \<Rightarrow> Err (GlobInvalid pattern e)
           | FailClosed \<Rightarrow>
               (case build_matchers gl convention behavior patterns of
                  Inl e' \<Rightarrow> Err e'
                | Inr (ms, _) \<Rightarrow> Ok (ms, True))))"

definition prepare_deny_read_matcher ::
    "glob_builder \<Rightarrow> uri_lib \<Rightarrow> FileSystemSandboxPolicy \<Rightarrow> FileSystemSandboxPolicyContext \<Rightarrow> InvalidDenyReadGlobBehavior \<Rightarrow>
     glob_error + PreparedReadDenyMatcher" where
  "prepare_deny_read_matcher gl lb policy ctx behavior =
     (let roots = context_denied_roots lb policy ctx in
      case infer_convention lb (context_cwd ctx) of
        None \<Rightarrow> Ok \<lparr>denied_roots = roots, deny_read_matchers = [], invalid_pattern = True\<rparr>
      | Some convention \<Rightarrow>
          (case deny_read_globs lb policy ctx of
             Inl e \<Rightarrow>
               (case behavior of
                  FailClosed \<Rightarrow> Ok \<lparr>denied_roots = roots, deny_read_matchers = [], invalid_pattern = True\<rparr>
                | ReturnError \<Rightarrow> Err e)
           | Inr patterns \<Rightarrow>
               (case build_matchers gl convention behavior patterns of
                  Inl e \<Rightarrow> Err e
                | Inr (ms, invalid) \<Rightarrow> Ok \<lparr>denied_roots = roots, deny_read_matchers = ms, invalid_pattern = invalid\<rparr>)))"

definition match_candidate :: "uri_lib \<Rightarrow> PathConvention \<Rightarrow> file_url \<Rightarrow> byte list" where
  "match_candidate lb convention path =
     (case convention of
        Posix \<Rightarrow> percent_decode lb (url_path path)
      | Windows \<Rightarrow> utf8_encode (to_slashes (inferred_native_path_string lb path)))"

definition matches_prepared_read_deny ::
    "uri_lib \<Rightarrow> file_url \<Rightarrow> FileSystemSandboxPolicyContext \<Rightarrow> PreparedReadDenyMatcher \<Rightarrow> bool" where
  "matches_prepared_read_deny lb path ctx m =
     (case infer_convention lb (context_cwd ctx) of
        None \<Rightarrow> True
      | Some convention \<Rightarrow>
          if infer_convention lb path \<noteq> Some convention \<or> lexical_depth lb path = None \<or>
             lexical_depth lb (context_cwd ctx) = None
          then True
          else if invalid_pattern m then True
          else list_ex (uri_starts_with lb path) (denied_roots m) \<or>
               list_ex (\<lambda>f. f (match_candidate lb convention path)) (deny_read_matchers m))"

text \<open>The matcher a caller holds; \<open>native_cwd\<close> is set only when it was built for paths of this host.\<close>

record ReadDenyMatcher =
  native_cwd :: "path_buf option"
  matcher_home_dir :: "file_url option"
  matcher_temporary_directories :: "file_url list"
  prepared :: PreparedReadDenyMatcher

definition executor_matcher :: "PreparedReadDenyMatcher \<Rightarrow> ReadDenyMatcher" where
  "executor_matcher m =
     \<lparr>native_cwd = None, matcher_home_dir = None, matcher_temporary_directories = [], prepared = m\<rparr>"

definition matcher_from_context ::
    "glob_builder \<Rightarrow> uri_lib \<Rightarrow> FileSystemSandboxPolicy \<Rightarrow> FileSystemSandboxPolicyContext \<Rightarrow> ReadDenyMatcher option" where
  "matcher_from_context gl lb policy ctx =
     (if list_ex (\<lambda>entry. entry_access entry = Deny) (sandbox_entries policy)
      then map_option executor_matcher (ok_of (prepare_deny_read_matcher gl lb policy ctx FailClosed)) else None)"

datatype matcher_error = InvalidReadDenyCwd | InvalidReadDenyGlob glob_error

definition matcher_build ::
    "glob_builder \<Rightarrow> uri_lib \<Rightarrow> sandbox_host \<Rightarrow> FileSystemSandboxPolicy \<Rightarrow> rstr \<Rightarrow> InvalidDenyReadGlobBehavior \<Rightarrow>
     matcher_error + ReadDenyMatcher option" where
  "matcher_build gl lb h policy cwd behavior =
     (if \<not> has_denied_read_restrictions policy then Ok None
      else
        (case abs_of h cwd of
           None \<Rightarrow> Err InvalidReadDenyCwd
         | Some cwd_path \<Rightarrow>
             (let cwd_uri = from_abs_path lb cwd_path;
                  home = from_host_native_path lb (home_dir h) (lit ''~'');
                  temporary = local_temporary_directories lb h in
              case prepare_deny_read_matcher gl lb policy
                     \<lparr>context_cwd = cwd_uri, workspace_roots = [cwd_uri], user_home_dir = home, temporary_directories = Some temporary\<rparr>
                     behavior of
                Inl e \<Rightarrow> Err (InvalidReadDenyGlob e)
              | Inr m \<Rightarrow>
                  Ok (Some \<lparr>native_cwd = Some cwd_path, matcher_home_dir = home, matcher_temporary_directories = temporary,
                            prepared = m\<rparr>))))"

definition try_new_for_local_paths ::
    "glob_builder \<Rightarrow> uri_lib \<Rightarrow> sandbox_host \<Rightarrow> FileSystemSandboxPolicy \<Rightarrow> rstr \<Rightarrow> matcher_error + ReadDenyMatcher option" where
  "try_new_for_local_paths gl lb h policy cwd = matcher_build gl lb h policy cwd ReturnError"

definition is_read_denied_uri :: "uri_lib \<Rightarrow> ReadDenyMatcher \<Rightarrow> file_url \<Rightarrow> FileSystemSandboxPolicyContext \<Rightarrow> bool" where
  "is_read_denied_uri lb m path ctx = matches_prepared_read_deny lb path ctx (prepared m)"

definition is_local_path_read_denied :: "uri_lib \<Rightarrow> sandbox_host \<Rightarrow> ReadDenyMatcher \<Rightarrow> rstr \<Rightarrow> bool" where
  "is_local_path_read_denied lb h m path =
     (case native_cwd m of
        None \<Rightarrow> True
      | Some cwd \<Rightarrow>
          (case resolve_candidate_path h path (path_string cwd) of
             None \<Rightarrow> True
           | Some candidate \<Rightarrow>
               (let cwd_uri = from_abs_path lb cwd in
                is_read_denied_uri lb m (from_abs_path lb candidate)
                  \<lparr>context_cwd = cwd_uri, workspace_roots = [cwd_uri], user_home_dir = matcher_home_dir m,
                   temporary_directories = Some (matcher_temporary_directories m)\<rparr>)))"

definition is_local_path_read_denied_with_canonical_path ::
    "uri_lib \<Rightarrow> sandbox_host \<Rightarrow> ReadDenyMatcher \<Rightarrow> rstr \<Rightarrow> rstr \<Rightarrow> bool" where
  "is_local_path_read_denied_with_canonical_path lb h m path canonical_path \<longleftrightarrow>
     is_local_path_read_denied lb h m path \<or> is_local_path_read_denied lb h m canonical_path"

section \<open>Required denials\<close>

definition has_context_read_denials :: "uri_lib \<Rightarrow> FileSystemSandboxPolicy \<Rightarrow> FileSystemSandboxPolicyContext \<Rightarrow> bool" where
  "has_context_read_denials lb policy ctx \<longleftrightarrow>
     sandbox_kind policy = Restricted \<and>
     list_ex (\<lambda>entry. entry_access entry = Deny \<and>
         \<not> (entry_path entry = Special SlashTmp \<and> infer_convention lb (context_cwd ctx) \<noteq> Some Posix))
       (sandbox_entries policy)"

record DenyReadValidator =
  required_entries :: "FileSystemSandboxEntry list"
  validator_matcher :: "PreparedReadDenyMatcher option"

datatype DenyReadViolation = MissingRequiredDeny | ReadablePath file_url

definition new_validator ::
    "glob_builder \<Rightarrow> uri_lib \<Rightarrow> FileSystemSandboxPolicy \<Rightarrow> FileSystemSandboxPolicyContext \<Rightarrow> glob_error + DenyReadValidator" where
  "new_validator gl lb required ctx =
     (if has_context_read_denials lb required ctx then
        (case prepare_deny_read_matcher gl lb required ctx ReturnError of
           Inl e \<Rightarrow> Err e
         | Inr m \<Rightarrow> Ok \<lparr>required_entries = sandbox_entries required, validator_matcher = Some m\<rparr>)
      else Ok \<lparr>required_entries = sandbox_entries required, validator_matcher = None\<rparr>)"

definition violating_path ::
    "uri_lib \<Rightarrow> FileSystemSandboxPolicyContext \<Rightarrow> PreparedReadDenyMatcher option \<Rightarrow> FileSystemSandboxEntry \<Rightarrow> file_url option" where
  "violating_path lb ctx m entry =
     (case entry_path entry of
        PathEntry path \<Rightarrow>
          if infer_convention lb path \<noteq> infer_convention lb (context_cwd ctx) then None
          else
            (case m of
               Some deny \<Rightarrow> if matches_prepared_read_deny lb path ctx deny then Some path else None
             | None \<Rightarrow> None)
      | _ \<Rightarrow> None)"

definition validate_selected ::
    "uri_lib \<Rightarrow> DenyReadValidator \<Rightarrow> FileSystemSandboxPolicy \<Rightarrow> FileSystemSandboxPolicyContext \<Rightarrow> DenyReadViolation + unit" where
  "validate_selected lb validator selected ctx =
     (case first_some (violating_path lb ctx (validator_matcher validator))
             (filter (\<lambda>entry. can_read (entry_access entry)) (sandbox_entries selected)) of
        Some path \<Rightarrow> Err (ReadablePath path)
      | None \<Rightarrow>
          if list_ex (\<lambda>entry. \<not> list_ex (\<lambda>e. entry_eq lb e entry) (sandbox_entries selected)) (required_entries validator)
          then Err MissingRequiredDeny else Ok ())"

datatype managed_error = BadGlob glob_error | Shadowed DenyReadViolation

definition validate_managed_deny_read ::
    "glob_builder \<Rightarrow> uri_lib \<Rightarrow> FileSystemSandboxPolicy \<Rightarrow> FileSystemSandboxPolicy \<Rightarrow> FileSystemSandboxPolicyContext \<Rightarrow> managed_error + unit" where
  "validate_managed_deny_read gl lb selected required ctx =
     (case new_validator gl lb required ctx of
        Inl e \<Rightarrow> Err (BadGlob e)
      | Inr validator \<Rightarrow>
          (case validate_selected lb validator selected ctx of
             Inl violation \<Rightarrow> Err (Shadowed violation)
           | Inr _ \<Rightarrow> Ok ()))"

datatype context_error = InvalidPath | NoTemporaryDirectories | BadTemporaryDirectories | ContextGlob glob_error

definition valid_in :: "uri_lib \<Rightarrow> PathConvention \<Rightarrow> file_url \<Rightarrow> bool" where
  "valid_in lb convention path \<longleftrightarrow> infer_convention lb path = Some convention \<and> lexical_depth lb path \<noteq> None"

definition validate_context_entry ::
    "uri_lib \<Rightarrow> PathConvention \<Rightarrow> FileSystemSandboxPolicyContext \<Rightarrow> FileSystemSandboxEntry \<Rightarrow> context_error option" where
  "validate_context_entry lb convention ctx entry =
     (case entry_path entry of
        PathEntry path \<Rightarrow> if valid_in lb convention path then None else Some InvalidPath
      | Special Tmpdir \<Rightarrow>
          (case temporary_directories ctx of
             None \<Rightarrow> Some NoTemporaryDirectories
           | Some dirs \<Rightarrow> if list_all (valid_in lb convention) dirs then None else Some BadTemporaryDirectories)
      | Special (ProjectRoots (Some subpath)) \<Rightarrow>
          if list_ex (\<lambda>root. isl (join_uri lb root subpath)) (workspace_roots ctx) then Some InvalidPath else None
      | GlobPattern pattern \<Rightarrow>
          if home_glob_suffix (convention = Windows) pattern \<noteq> None \<and>
             \<not> (case user_home_dir ctx of Some home \<Rightarrow> valid_in lb convention home | None \<Rightarrow> False)
          then Some InvalidPath else None
      | _ \<Rightarrow> None)"

definition validate_context_paths ::
    "uri_lib \<Rightarrow> FileSystemSandboxPolicy \<Rightarrow> FileSystemSandboxPolicyContext \<Rightarrow> context_error + unit" where
  "validate_context_paths lb policy ctx =
     (case infer_convention lb (context_cwd ctx) of
        None \<Rightarrow> Err InvalidPath
      | Some convention \<Rightarrow>
          if \<not> valid_in lb convention (context_cwd ctx) \<or> \<not> list_all (valid_in lb convention) (workspace_roots ctx)
          then Err InvalidPath
          else
            (case first_some (validate_context_entry lb convention ctx) (sandbox_entries policy) of
               Some e \<Rightarrow> Err e
             | None \<Rightarrow> Ok ()))"

definition try_new_with_context ::
    "glob_builder \<Rightarrow> uri_lib \<Rightarrow> FileSystemSandboxPolicy \<Rightarrow> FileSystemSandboxPolicyContext \<Rightarrow> context_error + ReadDenyMatcher option" where
  "try_new_with_context gl lb policy ctx =
     (if \<not> has_context_read_denials lb policy ctx then Ok None
      else
        (case validate_context_paths lb policy ctx of
           Inl e \<Rightarrow> Err e
         | Inr _ \<Rightarrow>
             (case prepare_deny_read_matcher gl lb policy ctx ReturnError of
                Inl e \<Rightarrow> Err (ContextGlob e)
              | Inr m \<Rightarrow> Ok (Some (executor_matcher m)))))"

definition can_read_path :: "uri_lib \<Rightarrow> FileSystemSandboxPolicy \<Rightarrow> file_url \<Rightarrow> FileSystemSandboxPolicyContext \<Rightarrow> bool" where
  "can_read_path lb policy path ctx = can_read (resolve_access lb policy path ctx)"

section \<open>Concrete workspace entries\<close>

definition PROJECT_ROOTS_GLOB_PATTERN_PREFIX :: rstr where
  "PROJECT_ROOTS_GLOB_PATTERN_PREFIX = lit ''codex-project-roots://''"

definition project_roots_glob_pattern :: "rstr \<Rightarrow> rstr" where
  "project_roots_glob_pattern subpath = PROJECT_ROOTS_GLOB_PATTERN_PREFIX @ subpath"

definition workspace_subpath :: "FileSystemPath \<Rightarrow> (rstr option \<times> bool) option" where
  "workspace_subpath path =
     (case path of
        Special (ProjectRoots subpath) \<Rightarrow> Some (subpath, False)
      | GlobPattern pattern \<Rightarrow> map_option (\<lambda>s. (Some s, True)) (strip_prefix PROJECT_ROOTS_GLOB_PATTERN_PREFIX pattern)
      | _ \<Rightarrow> None)"

definition expands_home :: "uri_lib \<Rightarrow> file_url list \<Rightarrow> rstr option \<Rightarrow> bool" where
  "expands_home lb roots subpath =
     (case subpath of
        None \<Rightarrow> False
      | Some s \<Rightarrow>
          list_ex (\<lambda>root. case infer_convention lb root of
              Some convention \<Rightarrow> home_relative_suffix convention s \<noteq> None
            | None \<Rightarrow> False) roots)"

definition materialize_at ::
    "uri_lib \<Rightarrow> FileSystemSandboxEntry \<Rightarrow> rstr option \<Rightarrow> bool \<Rightarrow> file_url \<Rightarrow> FileSystemSandboxEntry option" where
  "materialize_at lb entry subpath is_glob root =
     (let path =
            (if is_glob \<and> (case infer_convention lb root of
                              None \<Rightarrow> True
                            | Some convention \<Rightarrow> isl (validate_glob_directory lb root convention))
             then None
             else (case subpath of None \<Rightarrow> Some root | Some s \<Rightarrow> resolve_scoped_workspace_path lb root s))
      in case path of
           Some p \<Rightarrow>
             Some (entry\<lparr>entry_path := if is_glob then GlobPattern (inferred_native_path_string lb p) else PathEntry p\<rparr>)
         | None \<Rightarrow>
             if can_write (entry_access entry) then None
             else Some (entry\<lparr>entry_path := PathEntry root, entry_access := Deny\<rparr>))"

fun materialize_entries ::
    "uri_lib \<Rightarrow> file_url list \<Rightarrow> FileSystemSandboxEntry list \<Rightarrow> FileSystemSandboxEntry list option" where
  "materialize_entries lb roots [] = Some []"
| "materialize_entries lb roots (entry # entries) =
     (case workspace_subpath (entry_path entry) of
        None \<Rightarrow> map_option (\<lambda>rest. entry # rest) (materialize_entries lb roots entries)
      | Some (subpath, is_glob) \<Rightarrow>
          if entry_access entry = Deny \<and> expands_home lb roots subpath then None
          else map_option (\<lambda>rest. List.map_filter (materialize_at lb entry subpath is_glob) roots @ rest)
                 (materialize_entries lb roots entries))"

definition try_materialize_project_roots_with_path_uris ::
    "uri_lib \<Rightarrow> FileSystemSandboxPolicy \<Rightarrow> file_url list \<Rightarrow> FileSystemSandboxPolicy option" where
  "try_materialize_project_roots_with_path_uris lb policy roots =
     map_option (\<lambda>entries. policy\<lparr>sandbox_entries := entries\<rparr>) (materialize_entries lb roots (sandbox_entries policy))"

definition materialize_project_roots_with_path_uris :: "uri_lib \<Rightarrow> FileSystemSandboxPolicy \<Rightarrow> file_url list \<Rightarrow> FileSystemSandboxPolicy" where
  "materialize_project_roots_with_path_uris lb policy roots =
     (case try_materialize_project_roots_with_path_uris lb policy roots of Some p \<Rightarrow> p | None \<Rightarrow> restricted [])"

definition materialize_project_roots_with_workspace_roots ::
    "uri_lib \<Rightarrow> FileSystemSandboxPolicy \<Rightarrow> path_buf list \<Rightarrow> FileSystemSandboxPolicy" where
  "materialize_project_roots_with_workspace_roots lb policy roots =
     materialize_project_roots_with_path_uris lb policy (map (from_abs_path lb) roots)"

definition with_materialized_project_roots_for_path_uris ::
    "uri_lib \<Rightarrow> FileSystemSandboxPolicy \<Rightarrow> file_url list \<Rightarrow> FileSystemSandboxPolicy" where
  "with_materialized_project_roots_for_path_uris lb policy roots =
     (case try_materialize_project_roots_with_path_uris lb policy roots of
        None \<Rightarrow> restricted []
      | Some materialized \<Rightarrow> fold (push_missing lb) (sandbox_entries materialized) policy)"

definition with_materialized_project_roots_for_workspace_roots ::
    "uri_lib \<Rightarrow> FileSystemSandboxPolicy \<Rightarrow> path_buf list \<Rightarrow> FileSystemSandboxPolicy" where
  "with_materialized_project_roots_for_workspace_roots lb policy roots =
     with_materialized_project_roots_for_path_uris lb policy (map (from_abs_path lb) roots)"

definition workspace_write_with_path_uris :: "uri_lib \<Rightarrow> sandbox_host \<Rightarrow> file_url list \<Rightarrow> bool \<Rightarrow> bool \<Rightarrow> FileSystemSandboxPolicy" where
  "workspace_write_with_path_uris lb h roots exclude_tmpdir_env_var exclude_slash_tmp =
     with_materialized_project_roots_for_path_uris lb (workspace_write lb h [] exclude_tmpdir_env_var exclude_slash_tmp) roots"

section \<open>What the validator guarantees\<close>

lemma denied_root_iff:
  "d \<in> set (context_denied_roots lb policy ctx) \<longleftrightarrow>
   (d, Deny) \<in> set (resolved_entries lb policy ctx) \<and>
   \<not> (case file_system_root lb ctx of Some root_dir \<Rightarrow> same_place lb d root_dir | None \<Rightarrow> False)"
  by (cases "file_system_root lb ctx") (force simp: context_denied_roots_def)+

lemma prepared_roots:
  "prepare_deny_read_matcher gl lb policy ctx behavior = Inr m \<Longrightarrow> denied_roots m = context_denied_roots lb policy ctx"
  by (auto simp: prepare_deny_read_matcher_def Let_def split: option.splits sum.splits InvalidDenyReadGlobBehavior.splits)

lemma prepared_denies_below:
  assumes "d \<in> set (denied_roots m)" and "uri_starts_with lb path d"
  shows "matches_prepared_read_deny lb path ctx m"
  using assms by (auto simp: matches_prepared_read_deny_def list_ex_iff split: option.splits)

lemma denials_in_context:
  assumes "sandbox_kind policy = Restricted" and "(d, Deny) \<in> set (resolved_entries lb policy ctx)"
  shows "has_context_read_denials lb policy ctx"
proof -
  obtain e where e: "e \<in> set (sandbox_entries policy)" "entry_access e = Deny" "d \<in> set (entry_roots lb ctx (entry_path e))"
    using assms(2) by (auto simp: resolved_iff)
  have "\<not> (entry_path e = Special SlashTmp \<and> infer_convention lb (context_cwd ctx) \<noteq> Some Posix)" using e(3) by auto
  thus ?thesis using assms(1) e by (auto simp: has_context_read_denials_def list_ex_iff)
qed

text \<open>What an accepted selection guarantees: it keeps each required entry, and none of its readable concrete
  paths lies below a denied root.\<close>

lemma accepted_selection:
  assumes "validate_managed_deny_read gl lb selected required ctx = Inr ()" and "sandbox_kind required = Restricted"
    and "d \<in> set (context_denied_roots lb required ctx)"
  shows "\<forall>e\<in>set (sandbox_entries required). \<exists>e'\<in>set (sandbox_entries selected). entry_eq lb e' e"
    and "\<forall>e\<in>set (sandbox_entries selected). \<forall>p. can_read (entry_access e) \<and> entry_path e = PathEntry p \<and>
           infer_convention lb p = infer_convention lb (context_cwd ctx) \<longrightarrow> \<not> uri_starts_with lb p d"
proof -
  have "(d, Deny) \<in> set (resolved_entries lb required ctx)" using assms(3) by (simp add: denied_root_iff)
  from denials_in_context [OF assms(2) this] assms(1) obtain m
    where m: "prepare_deny_read_matcher gl lb required ctx ReturnError = Inr m"
      and ok: "validate_selected lb \<lparr>required_entries = sandbox_entries required, validator_matcher = Some m\<rparr> selected ctx = Inr ()"
    by (auto simp: validate_managed_deny_read_def new_validator_def split: sum.splits)
  from ok have none: "first_some (violating_path lb ctx (Some m))
        (filter (\<lambda>entry. can_read (entry_access entry)) (sandbox_entries selected)) = None"
    and kept: "\<not> list_ex (\<lambda>entry. \<not> list_ex (\<lambda>e. entry_eq lb e entry) (sandbox_entries selected)) (sandbox_entries required)"
    by (auto simp: validate_selected_def split: option.splits if_splits)
  show "\<forall>e\<in>set (sandbox_entries required). \<exists>e'\<in>set (sandbox_entries selected). entry_eq lb e' e"
    using kept by (auto simp: list_ex_iff)
  have "d \<in> set (denied_roots m)" using assms(3) prepared_roots [OF m] by simp
  thus "\<forall>e\<in>set (sandbox_entries selected). \<forall>p. can_read (entry_access e) \<and> entry_path e = PathEntry p \<and>
           infer_convention lb p = infer_convention lb (context_cwd ctx) \<longrightarrow> \<not> uri_starts_with lb p d"
    using none prepared_denies_below [of d m lb] by (fastforce simp: first_some_iff violating_path_def)
qed

lemma denied_unless_reopened:
  assumes "sandbox_kind policy = Restricted" and "posix_query lb path ctx"
    and "(d, Deny) \<in> set (resolved_entries lb policy ctx)" and "uri_starts_with lb path d"
    and "resolve_access lb policy path ctx \<noteq> Deny"
  obtains r a where "(r, a) \<in> set (resolved_entries lb policy ctx)" and "a \<noteq> Deny" and "uri_starts_with lb path r"
    and "uri_starts_with lb r d" and "\<not> uri_starts_with lb d r"
proof -
  have clear: "\<not> ambiguous lb (resolved_entries lb policy ctx)" using resolve_access_ambiguous [OF assms(1)] assms(5) by blast
  obtain r where r: "governs lb path (resolved_entries lb policy ctx) r (resolve_access lb policy path ctx)"
    using resolve_access_governs [OF assms(1,2) clear assms(3,4)] by blast
  have "\<not> Deny \<le> resolve_access lb policy path ctx"
    using assms(5) by (cases "resolve_access lb policy path ctx") (auto simp: less_eq_FileSystemAccessMode_def)
  thus ?thesis using r assms(3-5) that [of r "resolve_access lb policy path ctx"] by (auto simp: governs_def)
qed

section \<open>What materialization keeps\<close>

definition scoped_entry :: "uri_lib \<Rightarrow> file_url list \<Rightarrow> FileSystemSandboxEntry \<Rightarrow> bool" where
  "scoped_entry lb roots entry =
     (case workspace_subpath (entry_path entry) of
        None \<Rightarrow> True
      | Some (subpath, is_glob) \<Rightarrow>
          list_all (\<lambda>root.
            (case subpath of Some s \<Rightarrow> resolve_scoped_workspace_path lb root s \<noteq> None | None \<Rightarrow> True) \<and>
            (is_glob \<longrightarrow> (case infer_convention lb root of
                            Some convention \<Rightarrow> \<not> isl (validate_glob_directory lb root convention)
                          | None \<Rightarrow> False))) roots)"

lemma scoped_is_join: "resolve_scoped_workspace_path lb root s = Some p \<Longrightarrow> join_uri lb root s = Inr p"
  by (cases "join_uri lb root s") (auto simp: resolve_scoped_workspace_path_def ok_of_def split: option.splits if_splits)

definition entry_resolved :: "uri_lib \<Rightarrow> FileSystemSandboxPolicyContext \<Rightarrow> FileSystemSandboxEntry \<Rightarrow> (file_url \<times> FileSystemAccessMode) list" where
  "entry_resolved lb ctx entry =
     map (\<lambda>path. (path, entry_access entry))
       (filter (\<lambda>path. infer_convention lb path = infer_convention lb (context_cwd ctx)) (entry_roots lb ctx (entry_path entry)))"

lemma resolved_concat: "resolved_entries lb policy ctx = concat (map (entry_resolved lb ctx) (sandbox_entries policy))"
  by (simp add: resolved_entries_def entry_resolved_def [abs_def])

lemma materialized_entry:
  assumes "workspace_subpath (entry_path entry) = Some (subpath, is_glob)" and "scoped_entry lb (workspace_roots ctx) entry"
  shows "concat (map (entry_resolved lb ctx) (List.map_filter (materialize_at lb entry subpath is_glob) (workspace_roots ctx))) =
         entry_resolved lb ctx entry"
proof -
  define f where "f root = (case subpath of Some s \<Rightarrow> ok_of (join_uri lb root s) | None \<Rightarrow> Some root)" for root
  have at: "\<exists>p. f root = Some p \<and> materialize_at lb entry subpath is_glob root =
      Some (entry\<lparr>entry_path := if is_glob then GlobPattern (inferred_native_path_string lb p) else PathEntry p\<rparr>)"
    if "root \<in> set (workspace_roots ctx)" for root
    using assms(2) that scoped_is_join [of lb root]
    by (cases subpath) (auto simp: scoped_entry_def assms(1) list_all_iff materialize_at_def f_def ok_of_def split: option.splits)
  show ?thesis
  proof (cases is_glob)
    case True
    hence "entry_roots lb ctx (entry_path entry) = []"
      using assms(1) by (cases "entry_path entry") (auto simp: workspace_subpath_def split: FileSystemSpecialPath.splits)
    moreover have "concat (map (entry_resolved lb ctx) (List.map_filter (materialize_at lb entry subpath is_glob) rs)) = []"
      if "set rs \<subseteq> set (workspace_roots ctx)" for rs
      using that by (induction rs) (auto dest!: at simp: True entry_resolved_def)
    ultimately show ?thesis by (metis entry_resolved_def filter.simps(1) list.simps(8) subset_refl)
  next
    case False
    hence "entry_path entry = Special (ProjectRoots subpath)"
      using assms(1) by (auto simp: workspace_subpath_def split: FileSystemPath.splits FileSystemSpecialPath.splits)
    hence roots: "entry_roots lb ctx (entry_path entry) = List.map_filter f (workspace_roots ctx)" by (simp add: f_def [abs_def])
    have "concat (map (entry_resolved lb ctx) (List.map_filter (materialize_at lb entry subpath is_glob) rs)) =
        map (\<lambda>path. (path, entry_access entry))
          (filter (\<lambda>path. infer_convention lb path = infer_convention lb (context_cwd ctx)) (List.map_filter f rs))"
      if "set rs \<subseteq> set (workspace_roots ctx)" for rs
      using that by (induction rs) (auto dest!: at simp: False entry_resolved_def)
    thus ?thesis by (simp add: entry_resolved_def roots)
  qed
qed

lemma materialized_resolved:
  assumes "materialize_entries lb (workspace_roots ctx) entries = Some entries'"
    and "list_all (scoped_entry lb (workspace_roots ctx)) entries"
  shows "concat (map (entry_resolved lb ctx) entries') = concat (map (entry_resolved lb ctx) entries)"
  using assms
proof (induction entries arbitrary: entries')
  case (Cons entry entries)
  thus ?case
    by (cases "workspace_subpath (entry_path entry)")
      (auto split: if_splits simp del: map_append simp: map_append [of "entry_resolved lb ctx"] materialized_entry)
qed simp

section \<open>Theorems\<close>

definition no_globs :: glob_builder where
  "no_globs escape ignore_case pattern = Ok (\<lambda>_. False)"

definition company_rules :: FileSystemSandboxPolicy where
  "company_rules = restricted [new_entry (PathEntry (dir_at [''a'', ''secret''])) Deny]"

definition reads_everything :: FileSystemSandboxPolicy where
  "reads_everything =
     restricted [new_entry (Special Root) Read, new_entry (Special (ProjectRoots None)) Write,
       new_entry (PathEntry (dir_at [''a'', ''secret''])) Deny]"

definition source_only :: FileSystemSandboxPolicy where
  "source_only = restricted [new_entry (Special (ProjectRoots None)) Read, new_entry (Special (ProjectRoots (Some (lit ''src'')))) Write]"

definition denies_sibling :: FileSystemSandboxPolicy where
  "denies_sibling =
     restricted [new_entry (Special Root) Read, new_entry (Special (ProjectRoots (Some (lit ''../b'')))) Deny]"

text \<open>
  C11. A permission selection that passes the check against an administrator's required denials enforces them: on
  a POSIX host every path at or below a required denied root is denied by the selected policy, unless one of its
  readable symbolic entries (workspace, temporary directories, the root) has a directory strictly below that
  root; concrete paths and globs of the selection cannot reopen it.
\<close>

theorem validated_denials_hold:
  assumes ok: "validate_managed_deny_read gl lb selected required ctx = Inr ()"
    and kinds: "sandbox_kind selected = Restricted" "sandbox_kind required = Restricted"
    and query: "posix_query lb path ctx"
    and denied: "d \<in> set (context_denied_roots lb required ctx)" and below: "uri_starts_with lb path d"
    and symbolic: "\<forall>e\<in>set (sandbox_entries selected). \<forall>v. entry_path e = Special v \<and> can_read (entry_access e) \<longrightarrow>
      (\<forall>r\<in>set (entry_roots lb ctx (Special v)). uri_starts_with lb r d \<longrightarrow> uri_starts_with lb d r)"
  shows "resolve_access lb selected path ctx = Deny"
proof (rule ccontr)
  assume open_path: "resolve_access lb selected path ctx \<noteq> Deny"
  note cwd = query [unfolded posix_query_def, THEN conjunct1] and path = query [unfolded posix_query_def, THEN conjunct2]
  have d: "posix_lexical lb d" by (rule posix.below_lexical [OF path below])
  obtain e where e: "e \<in> set (sandbox_entries required)" "entry_access e = Deny" "d \<in> set (entry_roots lb ctx (entry_path e))"
    using denied by (auto simp: denied_root_iff resolved_iff)
  obtain e' where e': "e' \<in> set (sandbox_entries selected)" "entry_eq lb e' e"
    using accepted_selection(1) [OF ok kinds(2) denied] e(1) by blast
  have "(d, Deny) \<in> set (resolved_entries lb selected ctx)"
    using e' e(2) equal_entry_roots [OF e'(2) e(3) d] posix_lexicalD(1) [OF d] posix_lexicalD(1) [OF cwd]
    by (auto simp: resolved_iff entry_eq_def intro!: bexI [of _ e'])
  then obtain r a where r: "(r, a) \<in> set (resolved_entries lb selected ctx)" "a \<noteq> Deny" "uri_starts_with lb r d" "\<not> uri_starts_with lb d r"
    by (rule denied_unless_reopened [OF kinds(1) query _ below open_path])
  then obtain s where s: "s \<in> set (sandbox_entries selected)" "can_read (entry_access s)" "r \<in> set (entry_roots lb ctx (entry_path s))"
      "infer_convention lb r = infer_convention lb (context_cwd ctx)" by (auto simp: resolved_iff can_read_def)
  show False
  proof (cases "entry_path s")
    case (PathEntry p)
    thus False using accepted_selection(2) [OF ok kinds(2) denied] s r(3) by auto
  next
    case (GlobPattern g)
    thus False using s(3) by simp
  next
    case (Special v)
    thus False using symbolic s r(3,4) by auto
  qed
qed

theorem validated_denials_hold_witness:
  "resolve_access sample_lib reads_everything (dir_at [''a'', ''secret'', ''key'']) sample_ctx = Deny"
proof (rule validated_denials_hold [where gl = no_globs and required = company_rules and d = "dir_at [''a'', ''secret'']"])
  show "validate_managed_deny_read no_globs sample_lib reads_everything company_rules sample_ctx = Inr ()" by code_simp
  show "sandbox_kind reads_everything = Restricted" "sandbox_kind company_rules = Restricted" by code_simp+
  show "posix_query sample_lib (dir_at [''a'', ''secret'', ''key'']) sample_ctx" by code_simp
  have "List.member (context_denied_roots sample_lib company_rules sample_ctx) (dir_at [''a'', ''secret''])" by code_simp
  thus "dir_at [''a'', ''secret''] \<in> set (context_denied_roots sample_lib company_rules sample_ctx)" by simp
  show "uri_starts_with sample_lib (dir_at [''a'', ''secret'', ''key'']) (dir_at [''a'', ''secret''])" by code_simp
  have "list_all (\<lambda>r. \<not> uri_starts_with sample_lib r (dir_at [''a'', ''secret'']))
      (entry_roots sample_lib sample_ctx (Special Root) @ entry_roots sample_lib sample_ctx (Special (ProjectRoots None)))" by code_simp
  thus "\<forall>e\<in>set (sandbox_entries reads_everything). \<forall>v. entry_path e = Special v \<and> can_read (entry_access e) \<longrightarrow>
      (\<forall>r\<in>set (entry_roots sample_lib sample_ctx (Special v)). uri_starts_with sample_lib r (dir_at [''a'', ''secret'']) \<longrightarrow>
        uri_starts_with sample_lib (dir_at [''a'', ''secret'']) r)"
    by (auto simp: reads_everything_def restricted_def new_entry_def list_all_iff simp del: entry_roots.simps)
qed

text \<open>
  C18. Replacing the symbolic workspace entries of a policy by concrete ones for the workspace roots of a context
  changes no decision in that context, on every platform, when each subpath stays inside its root and each glob
  directory is valid (the replacement denies the root otherwise).
\<close>

theorem materialization_keeps_access:
  assumes "try_materialize_project_roots_with_path_uris lb policy (workspace_roots ctx) = Some concrete"
    and "list_all (scoped_entry lb (workspace_roots ctx)) (sandbox_entries policy)"
  shows "resolve_access lb concrete path ctx = resolve_access lb policy path ctx"
proof -
  obtain entries where entries: "materialize_entries lb (workspace_roots ctx) (sandbox_entries policy) = Some entries"
    and concrete: "concrete = policy\<lparr>sandbox_entries := entries\<rparr>"
    using assms(1) by (auto simp: try_materialize_project_roots_with_path_uris_def)
  have "resolved_entries lb concrete ctx = resolved_entries lb policy ctx"
    using materialized_resolved [OF entries assms(2)] by (simp add: resolved_concat concrete)
  moreover have "sandbox_kind concrete = sandbox_kind policy" by (simp add: concrete)
  ultimately show ?thesis unfolding resolve_access_def by (simp only:)
qed

theorem materialization_keeps_access_witness:
  "resolve_access sample_lib (restricted [new_entry (PathEntry (dir_at [''a''])) Read, new_entry (PathEntry (dir_at [''a'', ''src''])) Write])
     (dir_at [''a'', ''src'', ''lib.rs'']) sample_ctx = resolve_access sample_lib source_only (dir_at [''a'', ''src'', ''lib.rs'']) sample_ctx"
proof (rule materialization_keeps_access)
  show "try_materialize_project_roots_with_path_uris sample_lib source_only (workspace_roots sample_ctx) =
      Some (restricted [new_entry (PathEntry (dir_at [''a''])) Read, new_entry (PathEntry (dir_at [''a'', ''src''])) Write])" by code_simp
  show "list_all (scoped_entry sample_lib (workspace_roots sample_ctx)) (sandbox_entries source_only)" by code_simp
qed

text \<open>
  A denial of a directory outside the workspace, written relative to it (\<open>../b\<close> in the workspace \<open>/a\<close>), is lost
  when workspace entries are replaced by concrete ones: the replacement denies the workspace instead, and \<open>/b\<close>
  becomes readable.
\<close>

theorem materialization_loses_outside_denial:
  "resolve_access sample_lib denies_sibling (dir_at [''b'']) sample_ctx = Deny \<and>
   resolve_access sample_lib (materialize_project_roots_with_path_uris sample_lib denies_sibling (workspace_roots sample_ctx))
     (dir_at [''b'']) sample_ctx = Read"
proof
  show "resolve_access sample_lib denies_sibling (dir_at [''b'']) sample_ctx = Deny" by code_simp
  show "resolve_access sample_lib (materialize_project_roots_with_path_uris sample_lib denies_sibling (workspace_roots sample_ctx))
     (dir_at [''b'']) sample_ctx = Read" by code_simp
qed

end
