(* ===== verification/Permission_Profile.thy ===== *)
theory Permission_Profile
  imports Deny_Read
begin

text \<open>
  \<open>protocol/src/models.rs\<close> and \<open>sandboxing/src/policy_transforms.rs\<close>: permission profiles, the additional permissions
  a command may ask for, and how the two combine: merging, intersecting a grant with its request, and the
  policy a command runs under. A \<open>NonZeroUsize\<close> is a natural number, with \<open>nonzero\<close> for its constructor.
\<close>

section \<open>Types\<close>

datatype SandboxPermissions = UseDefault | RequireEscalated | WithAdditionalPermissions

definition requires_escalated_permissions :: "SandboxPermissions \<Rightarrow> bool" where
  "requires_escalated_permissions p \<longleftrightarrow> p = RequireEscalated"

definition requests_sandbox_override :: "SandboxPermissions \<Rightarrow> bool" where
  "requests_sandbox_override p \<longleftrightarrow> p \<noteq> UseDefault"

definition uses_additional_permissions :: "SandboxPermissions \<Rightarrow> bool" where
  "uses_additional_permissions p \<longleftrightarrow> p = WithAdditionalPermissions"

definition nonzero :: "nat \<Rightarrow> nat option" where
  "nonzero n = (if n = 0 then None else Some n)"

record FileSystemPermissions =
  permission_entries :: "FileSystemSandboxEntry list"
  permission_scan_depth :: "nat option"

record AdditionalPermissionProfile =
  network_permissions :: "bool option option"
  file_system_permissions :: "FileSystemPermissions option"

definition file_system_is_empty :: "FileSystemPermissions \<Rightarrow> bool" where
  "file_system_is_empty p \<longleftrightarrow> permission_entries p = []"

definition network_is_empty :: "bool option \<Rightarrow> bool" where
  "network_is_empty enabled \<longleftrightarrow> enabled = None"

definition profile_is_empty :: "AdditionalPermissionProfile \<Rightarrow> bool" where
  "profile_is_empty p \<longleftrightarrow> network_permissions p = None \<and> file_system_permissions p = None"

definition from_paths :: "FileSystemPath list option \<Rightarrow> FileSystemPath list option \<Rightarrow> FileSystemPermissions" where
  "from_paths reads writes =
     \<lparr>permission_entries =
        (case reads of Some paths \<Rightarrow> map (\<lambda>path. new_entry path Read) paths | None \<Rightarrow> []) @
        (case writes of Some paths \<Rightarrow> map (\<lambda>path. new_entry path Write) paths | None \<Rightarrow> []),
      permission_scan_depth = None\<rparr>"

definition from_read_write_roots :: "uri_lib \<Rightarrow> path_buf list option \<Rightarrow> path_buf list option \<Rightarrow> FileSystemPermissions" where
  "from_read_write_roots lb reads writes =
     from_paths (map_option (map (PathEntry \<circ> from_abs_path lb)) reads) (map_option (map (PathEntry \<circ> from_abs_path lb)) writes)"

definition from_read_write_path_uris :: "file_url list option \<Rightarrow> file_url list option \<Rightarrow> FileSystemPermissions" where
  "from_read_write_path_uris reads writes = from_paths (map_option (map PathEntry) reads) (map_option (map PathEntry) writes)"

datatype SandboxEnforcement = ManagedEnforcement | DisabledEnforcement | ExternalEnforcement

fun enforcement_of_sandbox_policy :: "SandboxPolicy \<Rightarrow> SandboxEnforcement" where
  "enforcement_of_sandbox_policy DangerFullAccess = DisabledEnforcement"
| "enforcement_of_sandbox_policy (ExternalSandbox _) = ExternalEnforcement"
| "enforcement_of_sandbox_policy (ReadOnly _) = ManagedEnforcement"
| "enforcement_of_sandbox_policy (WorkspaceWrite _ _ _ _) = ManagedEnforcement"

datatype ManagedFileSystemPermissions =
    ManagedRestricted "FileSystemSandboxEntry list" "nat option"
  | ManagedUnrestricted

datatype PermissionProfile =
    Managed ManagedFileSystemPermissions NetworkSandboxPolicy
  | DisabledProfile
  | ExternalProfile NetworkSandboxPolicy

section \<open>Profiles\<close>

text \<open>\<open>None\<close> is the panic for a policy of an external sandbox, which no caller passes.\<close>

definition managed_from_sandbox_policy :: "FileSystemSandboxPolicy \<Rightarrow> ManagedFileSystemPermissions option" where
  "managed_from_sandbox_policy policy =
     (case sandbox_kind policy of
        Restricted \<Rightarrow> Some (ManagedRestricted (sandbox_entries policy) (Option.bind (glob_scan_max_depth policy) nonzero))
      | Unrestricted \<Rightarrow> Some ManagedUnrestricted
      | ExternalSandboxKind \<Rightarrow> None)"

fun to_sandbox_policy :: "ManagedFileSystemPermissions \<Rightarrow> FileSystemSandboxPolicy" where
  "to_sandbox_policy (ManagedRestricted entries depth) =
     \<lparr>sandbox_kind = Restricted, glob_scan_max_depth = depth, sandbox_entries = entries\<rparr>"
| "to_sandbox_policy ManagedUnrestricted = unrestricted"

definition default_profile :: PermissionProfile where
  "default_profile = Managed (ManagedRestricted [] None) NetworkRestricted"

definition from_runtime_permissions_with_enforcement ::
    "SandboxEnforcement \<Rightarrow> FileSystemSandboxPolicy \<Rightarrow> NetworkSandboxPolicy \<Rightarrow> PermissionProfile option" where
  "from_runtime_permissions_with_enforcement enforcement policy network =
     (case sandbox_kind policy of
        ExternalSandboxKind \<Rightarrow> Some (ExternalProfile network)
      | kind \<Rightarrow>
          if kind = Unrestricted \<and> enforcement = DisabledEnforcement then Some DisabledProfile
          else map_option (\<lambda>fs. Managed fs network) (managed_from_sandbox_policy policy))"

definition from_runtime_permissions :: "FileSystemSandboxPolicy \<Rightarrow> NetworkSandboxPolicy \<Rightarrow> PermissionProfile option" where
  "from_runtime_permissions policy network =
     from_runtime_permissions_with_enforcement
       (case sandbox_kind policy of ExternalSandboxKind \<Rightarrow> ExternalEnforcement | _ \<Rightarrow> ManagedEnforcement) policy network"

fun enforcement :: "PermissionProfile \<Rightarrow> SandboxEnforcement" where
  "enforcement (Managed _ _) = ManagedEnforcement"
| "enforcement DisabledProfile = DisabledEnforcement"
| "enforcement (ExternalProfile _) = ExternalEnforcement"

fun file_system_sandbox_policy :: "PermissionProfile \<Rightarrow> FileSystemSandboxPolicy" where
  "file_system_sandbox_policy (Managed file_system _) = to_sandbox_policy file_system"
| "file_system_sandbox_policy DisabledProfile = unrestricted"
| "file_system_sandbox_policy (ExternalProfile _) = external_sandbox"

fun network_sandbox_policy :: "PermissionProfile \<Rightarrow> NetworkSandboxPolicy" where
  "network_sandbox_policy (Managed _ network) = network"
| "network_sandbox_policy DisabledProfile = NetworkEnabled"
| "network_sandbox_policy (ExternalProfile network) = network"

definition to_runtime_permissions :: "PermissionProfile \<Rightarrow> FileSystemSandboxPolicy \<times> NetworkSandboxPolicy" where
  "to_runtime_permissions profile = (file_system_sandbox_policy profile, network_sandbox_policy profile)"

definition read_only_profile :: "PermissionProfile option" where
  "read_only_profile = map_option (\<lambda>fs. Managed fs NetworkRestricted) (managed_from_sandbox_policy read_only)"

fun without_write :: "FileSystemAccessMode \<Rightarrow> FileSystemAccessMode" where
  "without_write Read = Read"
| "without_write Write = Read"
| "without_write Deny = Deny"

text \<open>The outer option is the panic of \<open>managed_from_sandbox_policy\<close>, the inner one the code's result.\<close>

definition intersect_with_read_only :: "PermissionProfile \<Rightarrow> PermissionProfile option option" where
  "intersect_with_read_only profile =
     (let policy = file_system_sandbox_policy profile in
      case sandbox_kind policy of
        ExternalSandboxKind \<Rightarrow> Some None
      | Unrestricted \<Rightarrow> map_option Some (from_runtime_permissions read_only NetworkRestricted)
      | Restricted \<Rightarrow>
          map_option Some (from_runtime_permissions
            (policy\<lparr>sandbox_entries := map (\<lambda>entry. entry\<lparr>entry_access := without_write (entry_access entry)\<rparr>) (sandbox_entries policy)\<rparr>)
            NetworkRestricted))"

definition workspace_write_with ::
    "uri_lib \<Rightarrow> sandbox_host \<Rightarrow> path_buf list \<Rightarrow> NetworkSandboxPolicy \<Rightarrow> bool \<Rightarrow> bool \<Rightarrow> PermissionProfile option" where
  "workspace_write_with lb h writable_roots network exclude_tmpdir_env_var exclude_slash_tmp =
     map_option (\<lambda>fs. Managed fs network)
       (managed_from_sandbox_policy (workspace_write lb h writable_roots exclude_tmpdir_env_var exclude_slash_tmp))"

definition workspace_write_profile :: "uri_lib \<Rightarrow> sandbox_host \<Rightarrow> PermissionProfile option" where
  "workspace_write_profile lb h = workspace_write_with lb h [] NetworkRestricted False False"

definition workspace_write_profile_with_path_uris ::
    "uri_lib \<Rightarrow> sandbox_host \<Rightarrow> file_url list \<Rightarrow> NetworkSandboxPolicy \<Rightarrow> bool \<Rightarrow> bool \<Rightarrow> PermissionProfile option" where
  "workspace_write_profile_with_path_uris lb h roots network exclude_tmpdir_env_var exclude_slash_tmp =
     map_option (\<lambda>fs. Managed fs network)
       (managed_from_sandbox_policy (workspace_write_with_path_uris lb h roots exclude_tmpdir_env_var exclude_slash_tmp))"

fun materialize_project_roots_with ::
    "(FileSystemSandboxPolicy \<Rightarrow> FileSystemSandboxPolicy) \<Rightarrow> PermissionProfile \<Rightarrow> PermissionProfile option" where
  "materialize_project_roots_with materialize (Managed file_system network) =
     map_option (\<lambda>fs. Managed fs network) (managed_from_sandbox_policy (materialize (to_sandbox_policy file_system)))"
| "materialize_project_roots_with materialize DisabledProfile = Some DisabledProfile"
| "materialize_project_roots_with materialize (ExternalProfile network) = Some (ExternalProfile network)"

definition from_legacy_sandbox_policy :: "uri_lib \<Rightarrow> sandbox_host \<Rightarrow> SandboxPolicy \<Rightarrow> PermissionProfile option" where
  "from_legacy_sandbox_policy lb h policy =
     from_runtime_permissions_with_enforcement (enforcement_of_sandbox_policy policy) (from_sandbox_policy lb h policy)
       (network_policy_of policy)"

definition profile_from_legacy_sandbox_policy_for_cwd ::
    "uri_lib \<Rightarrow> sandbox_host \<Rightarrow> SandboxPolicy \<Rightarrow> rstr \<Rightarrow> PermissionProfile option" where
  "profile_from_legacy_sandbox_policy_for_cwd lb h policy cwd =
     from_runtime_permissions_with_enforcement (enforcement_of_sandbox_policy policy)
       (from_legacy_sandbox_policy_for_cwd lb h policy cwd) (network_policy_of policy)"

text \<open>The shape of profiles in older session files, and the conversions between the forms.\<close>

definition profile_of_legacy :: "AdditionalPermissionProfile \<Rightarrow> PermissionProfile" where
  "profile_of_legacy p =
     Managed
       (case file_system_permissions p of
          None \<Rightarrow> ManagedRestricted [] None
        | Some fs \<Rightarrow> ManagedRestricted (permission_entries fs) (permission_scan_depth fs))
       (case Option.bind (network_permissions p) id of
          Some True \<Rightarrow> NetworkEnabled
        | _ \<Rightarrow> NetworkRestricted)"

definition network_permissions_of :: "NetworkSandboxPolicy \<Rightarrow> bool option" where
  "network_permissions_of network = Some (network = NetworkEnabled)"

definition permissions_of_policy :: "FileSystemSandboxPolicy \<Rightarrow> FileSystemPermissions" where
  "permissions_of_policy policy =
     \<lparr>permission_entries =
        (case sandbox_kind policy of Restricted \<Rightarrow> sandbox_entries policy | _ \<Rightarrow> [new_entry (Special Root) Write]),
      permission_scan_depth = Option.bind (glob_scan_max_depth policy) nonzero\<rparr>"

definition policy_of_permissions :: "FileSystemPermissions \<Rightarrow> FileSystemSandboxPolicy" where
  "policy_of_permissions p = (restricted (permission_entries p))\<lparr>glob_scan_max_depth := permission_scan_depth p\<rparr>"

section \<open>Additional permissions\<close>

datatype permission_error = GlobGrant | ForeignPath file_url | UnresolvedPermission

definition push_entry :: "uri_lib \<Rightarrow> FileSystemSandboxEntry \<Rightarrow> FileSystemSandboxEntry list \<Rightarrow> FileSystemSandboxEntry list" where
  "push_entry lb entry entries = (if list_ex (\<lambda>e. entry_eq lb e entry) entries then entries else entries @ [entry])"

definition is_glob_entry :: "FileSystemSandboxEntry \<Rightarrow> bool" where
  "is_glob_entry entry = (case entry_path entry of GlobPattern _ \<Rightarrow> True | _ \<Rightarrow> False)"

fun normalize_entries ::
    "uri_lib \<Rightarrow> FileSystemSandboxEntry list \<Rightarrow> FileSystemSandboxEntry list \<Rightarrow> permission_error + FileSystemSandboxEntry list" where
  "normalize_entries lb entries [] = Ok entries"
| "normalize_entries lb entries (entry # rest) =
     (if is_glob_entry entry \<and> entry_access entry \<noteq> Deny then Err GlobGrant
      else normalize_entries lb (push_entry lb entry entries) rest)"

definition unless_empty :: "FileSystemPermissions \<Rightarrow> FileSystemPermissions option" where
  "unless_empty p = (if file_system_is_empty p then None else Some p)"

definition normalize_additional_permissions ::
    "uri_lib \<Rightarrow> AdditionalPermissionProfile \<Rightarrow> permission_error + AdditionalPermissionProfile" where
  "normalize_additional_permissions lb p =
     (let network = (case network_permissions p of
                       Some enabled \<Rightarrow> if network_is_empty enabled then None else Some enabled
                     | None \<Rightarrow> None) in
      case file_system_permissions p of
        None \<Rightarrow> Ok \<lparr>network_permissions = network, file_system_permissions = None\<rparr>
      | Some fs \<Rightarrow>
          (case normalize_entries lb [] (permission_entries fs) of
             Inl e \<Rightarrow> Err e
           | Inr entries \<Rightarrow>
               Ok \<lparr>network_permissions = network, file_system_permissions = unless_empty (fs\<lparr>permission_entries := entries\<rparr>)\<rparr>))"

definition foreign_path :: "uri_lib \<Rightarrow> FileSystemSandboxPolicyContext \<Rightarrow> FileSystemSandboxEntry \<Rightarrow> file_url option" where
  "foreign_path lb ctx entry =
     (case entry_path entry of
        PathEntry path \<Rightarrow>
          if infer_convention lb path = None \<or> infer_convention lb path \<noteq> infer_convention lb (context_cwd ctx) \<or>
             isl (join_uri lb path (lit ''.''))
          then Some path else None
      | _ \<Rightarrow> None)"

definition normalize_additional_permissions_with_context ::
    "uri_lib \<Rightarrow> AdditionalPermissionProfile \<Rightarrow> FileSystemSandboxPolicyContext \<Rightarrow> permission_error + AdditionalPermissionProfile" where
  "normalize_additional_permissions_with_context lb p ctx =
     (case normalize_additional_permissions lb p of
        Inl e \<Rightarrow> Err e
      | Inr normalized \<Rightarrow>
          (case Option.bind (file_system_permissions normalized) (\<lambda>fs. first_some (foreign_path lb ctx) (permission_entries fs)) of
             Some path \<Rightarrow> Err (ForeignPath path)
           | None \<Rightarrow> Ok normalized))"

fun resolve_permission_path :: "uri_lib \<Rightarrow> FileSystemPath \<Rightarrow> FileSystemSandboxPolicyContext \<Rightarrow> file_url option" where
  "resolve_permission_path lb (PathEntry path) ctx = Some path"
| "resolve_permission_path lb (GlobPattern _) ctx = None"
| "resolve_permission_path lb (Special Root) ctx = file_system_root lb ctx"
| "resolve_permission_path lb (Special (ProjectRoots subpath)) ctx =
     (case workspace_roots ctx of
        [] \<Rightarrow> None
      | root # _ \<Rightarrow> (case subpath of Some s \<Rightarrow> ok_of (join_uri lb root s) | None \<Rightarrow> Some root))"
| "resolve_permission_path lb (Special Tmpdir) ctx =
     (case temporary_directories ctx of Some (dir # _) \<Rightarrow> Some dir | _ \<Rightarrow> None)"
| "resolve_permission_path lb (Special SlashTmp) ctx =
     (if infer_convention lb (context_cwd ctx) = Some Posix then ok_of (join_uri lb (context_cwd ctx) (lit ''/tmp'')) else None)"
| "resolve_permission_path lb (Special Minimal) ctx = None"
| "resolve_permission_path lb (Special (UnknownPath _ _)) ctx = None"

definition materialized_path_entry :: "FileSystemSandboxEntry \<Rightarrow> file_url \<Rightarrow> FileSystemSandboxEntry" where
  "materialized_path_entry entry path = entry\<lparr>entry_path := PathEntry path\<rparr>"

definition home_relative_glob :: "bool \<Rightarrow> rstr \<Rightarrow> rstr option" where
  "home_relative_glob is_windows pattern =
     (case strip_prefix [126, 47] pattern of
        Some s \<Rightarrow> Some s
      | None \<Rightarrow> if pattern = [126] then Some [] else if is_windows then strip_prefix [126, 92] pattern else None)"

definition materialize_cwd_dependent_entry ::
    "uri_lib \<Rightarrow> FileSystemSandboxEntry \<Rightarrow> FileSystemSandboxPolicyContext \<Rightarrow> FileSystemSandboxEntry option" where
  "materialize_cwd_dependent_entry lb entry ctx =
     (case entry_path entry of
        GlobPattern pattern \<Rightarrow>
          (let is_windows = infer_convention lb (context_cwd ctx) = Some Windows in
           case (case home_relative_glob is_windows pattern of
                   Some s \<Rightarrow> map_option (\<lambda>home. (home, trim_separators is_windows s)) (user_home_dir ctx)
                 | None \<Rightarrow> Some (context_cwd ctx, pattern)) of
             None \<Rightarrow> None
           | Some (root, rest) \<Rightarrow>
               map_option (\<lambda>path. entry\<lparr>entry_path := GlobPattern (inferred_native_path_string lb path)\<rparr>) (ok_of (join_uri lb root rest)))
      | _ \<Rightarrow> Some entry)"

definition materialize_context_entry ::
    "uri_lib \<Rightarrow> FileSystemSandboxPolicyContext \<Rightarrow> FileSystemSandboxEntry \<Rightarrow> FileSystemSandboxEntry list option" where
  "materialize_context_entry lb ctx entry =
     (case entry_path entry of
        Special (ProjectRoots subpath) \<Rightarrow>
          (let resolved = map (\<lambda>root. resolve_permission_path lb (entry_path entry) (ctx\<lparr>workspace_roots := [root]\<rparr>)) (workspace_roots ctx)
           in if entry_access entry = Deny \<and> (list_ex (\<lambda>p. p = None) resolved \<or> List.map_filter id resolved = []) then None
              else Some (map (materialized_path_entry entry) (List.map_filter id resolved)))
      | Special Tmpdir \<Rightarrow>
          (case temporary_directories ctx of
             None \<Rightarrow> if entry_access entry = Deny then None else Some [entry]
           | Some dirs \<Rightarrow> Some (map (materialized_path_entry entry) dirs))
      | Special Root \<Rightarrow> if resolve_permission_path lb (entry_path entry) ctx = None then None else Some [entry]
      | _ \<Rightarrow>
          (case materialize_cwd_dependent_entry lb entry ctx of
             None \<Rightarrow> if entry_access entry = Deny then None else Some []
           | Some e \<Rightarrow> Some [e]))"

fun materialize_context_dependent_entries ::
    "uri_lib \<Rightarrow> FileSystemSandboxEntry list \<Rightarrow> FileSystemSandboxPolicyContext \<Rightarrow> FileSystemSandboxEntry list option" where
  "materialize_context_dependent_entries lb [] ctx = Some []"
| "materialize_context_dependent_entries lb (entry # entries) ctx =
     (case materialize_context_entry lb ctx entry of
        None \<Rightarrow> None
      | Some es \<Rightarrow> map_option (\<lambda>rest. es @ rest) (materialize_context_dependent_entries lb entries ctx))"

definition materialize_additional_permissions_with_context ::
    "uri_lib \<Rightarrow> AdditionalPermissionProfile \<Rightarrow> FileSystemSandboxPolicyContext \<Rightarrow> permission_error + AdditionalPermissionProfile" where
  "materialize_additional_permissions_with_context lb p ctx =
     (case file_system_permissions p of
        None \<Rightarrow> normalize_additional_permissions_with_context lb p ctx
      | Some fs \<Rightarrow>
          (case materialize_context_dependent_entries lb (permission_entries fs) ctx of
             None \<Rightarrow> Err UnresolvedPermission
           | Some entries \<Rightarrow>
               normalize_additional_permissions_with_context lb
                 (p\<lparr>file_system_permissions := Some (fs\<lparr>permission_entries := entries\<rparr>)\<rparr>) ctx))"

section \<open>Merging\<close>

datatype GlobScanDepth = Bounded nat | Unbounded

definition effective_glob_scan_depth :: "FileSystemSandboxEntry list \<Rightarrow> nat option \<Rightarrow> GlobScanDepth option" where
  "effective_glob_scan_depth entries depth =
     (if list_ex (\<lambda>entry. entry_access entry = Deny \<and> is_glob_entry entry) entries
      then Some (case depth of Some d \<Rightarrow> Bounded d | None \<Rightarrow> Unbounded) else None)"

definition merge_glob_scan_max_depth ::
    "FileSystemSandboxEntry list \<Rightarrow> nat option \<Rightarrow> FileSystemSandboxEntry list \<Rightarrow> nat option \<Rightarrow> nat option" where
  "merge_glob_scan_max_depth left_entries left_depth right_entries right_depth =
     (case (effective_glob_scan_depth left_entries left_depth, effective_glob_scan_depth right_entries right_depth) of
        (Some Unbounded, _) \<Rightarrow> None
      | (_, Some Unbounded) \<Rightarrow> None
      | (Some (Bounded l), Some (Bounded r)) \<Rightarrow> Some (max l r)
      | (Some (Bounded d), None) \<Rightarrow> Some d
      | (None, Some (Bounded d)) \<Rightarrow> Some d
      | (None, None) \<Rightarrow> None)"

definition merge_permission_entries ::
    "uri_lib \<Rightarrow> FileSystemSandboxEntry list \<Rightarrow> FileSystemSandboxEntry list \<Rightarrow> FileSystemSandboxEntry list" where
  "merge_permission_entries lb base permissions = fold (push_entry lb) (base @ permissions) []"

definition unless_profile_empty :: "AdditionalPermissionProfile \<Rightarrow> AdditionalPermissionProfile option" where
  "unless_profile_empty p = (if profile_is_empty p then None else Some p)"

definition merge_permission_profiles ::
    "uri_lib \<Rightarrow> AdditionalPermissionProfile option \<Rightarrow> AdditionalPermissionProfile option \<Rightarrow> AdditionalPermissionProfile option" where
  "merge_permission_profiles lb base permissions =
     (case permissions of
        None \<Rightarrow> base
      | Some p \<Rightarrow>
          (case base of
             None \<Rightarrow> unless_profile_empty p
           | Some b \<Rightarrow>
               unless_profile_empty
                 \<lparr>network_permissions =
                    (if network_permissions b = Some (Some True) \<or> network_permissions p = Some (Some True)
                     then Some (Some True) else None),
                  file_system_permissions =
                    (case (file_system_permissions b, file_system_permissions p) of
                       (Some fb, Some fp) \<Rightarrow>
                         unless_empty
                           \<lparr>permission_entries = merge_permission_entries lb (permission_entries fb) (permission_entries fp),
                            permission_scan_depth =
                              Option.bind (merge_glob_scan_max_depth (permission_entries fb) (permission_scan_depth fb)
                                  (permission_entries fp) (permission_scan_depth fp)) nonzero\<rparr>
                     | (Some fb, None) \<Rightarrow> Some fb
                     | (None, Some fp) \<Rightarrow> Some fp
                     | (None, None) \<Rightarrow> None)\<rparr>))"

definition merge_file_system_policy_with_additional_permissions ::
    "uri_lib \<Rightarrow> FileSystemSandboxPolicy \<Rightarrow> FileSystemPermissions \<Rightarrow> FileSystemSandboxPolicy" where
  "merge_file_system_policy_with_additional_permissions lb policy p =
     (case sandbox_kind policy of
        Restricted \<Rightarrow>
          (fold (push_missing lb) (permission_entries p) policy)
            \<lparr>glob_scan_max_depth := merge_glob_scan_max_depth (sandbox_entries policy) (glob_scan_max_depth policy)
               (permission_entries p) (permission_scan_depth p)\<rparr>
      | _ \<Rightarrow> policy)"

definition effective_file_system_sandbox_policy ::
    "uri_lib \<Rightarrow> FileSystemSandboxPolicy \<Rightarrow> AdditionalPermissionProfile option \<Rightarrow> FileSystemSandboxPolicy" where
  "effective_file_system_sandbox_policy lb policy additional =
     (case additional of
        None \<Rightarrow> policy
      | Some p \<Rightarrow>
          (case file_system_permissions p of
             None \<Rightarrow> policy
           | Some fs \<Rightarrow>
               if file_system_is_empty fs then policy else merge_file_system_policy_with_additional_permissions lb policy fs))"

definition merge_network_access :: "bool \<Rightarrow> AdditionalPermissionProfile \<Rightarrow> bool" where
  "merge_network_access base p \<longleftrightarrow>
     base \<or> (case Option.bind (network_permissions p) id of Some enabled \<Rightarrow> enabled | None \<Rightarrow> False)"

definition effective_network_sandbox_policy ::
    "NetworkSandboxPolicy \<Rightarrow> AdditionalPermissionProfile option \<Rightarrow> NetworkSandboxPolicy" where
  "effective_network_sandbox_policy network additional =
     (case additional of
        Some p \<Rightarrow> if merge_network_access (network = NetworkEnabled) p then NetworkEnabled else NetworkRestricted
      | None \<Rightarrow> network)"

definition effective_permission_profile ::
    "uri_lib \<Rightarrow> PermissionProfile \<Rightarrow> AdditionalPermissionProfile option \<Rightarrow> PermissionProfile option" where
  "effective_permission_profile lb profile additional =
     (case to_runtime_permissions profile of
        (policy, network) \<Rightarrow>
          from_runtime_permissions_with_enforcement (enforcement profile)
            (effective_file_system_sandbox_policy lb policy additional) (effective_network_sandbox_policy network additional))"

definition should_require_platform_sandbox :: "uri_lib \<Rightarrow> FileSystemSandboxPolicy \<Rightarrow> NetworkSandboxPolicy \<Rightarrow> bool \<Rightarrow> bool" where
  "should_require_platform_sandbox lb policy network has_managed_network_requirements =
     (if has_managed_network_requirements then True
      else if network \<noteq> NetworkEnabled then sandbox_kind policy \<noteq> ExternalSandboxKind
      else
        (case sandbox_kind policy of
           Restricted \<Rightarrow> \<not> has_full_disk_write_access lb policy
         | _ \<Rightarrow> False))"

section \<open>A grant within its request\<close>

fun access_covers :: "FileSystemAccessMode \<Rightarrow> FileSystemAccessMode \<Rightarrow> bool" where
  "access_covers requested Read \<longleftrightarrow> can_read requested"
| "access_covers requested Write \<longleftrightarrow> can_write requested"
| "access_covers requested Deny \<longleftrightarrow> False"

definition is_root_entry :: "FileSystemSandboxEntry \<Rightarrow> bool" where
  "is_root_entry entry \<longleftrightarrow> entry_path entry = Special Root"

definition paths_overlap :: "uri_lib \<Rightarrow> file_url \<Rightarrow> file_url \<Rightarrow> bool" where
  "paths_overlap lb a b = (case overlaps lb a b of Some v \<Rightarrow> v | None \<Rightarrow> True)"

definition glob_static_prefix_path :: "uri_lib \<Rightarrow> rstr \<Rightarrow> FileSystemSandboxPolicyContext \<Rightarrow> file_url option" where
  "glob_static_prefix_path lb pattern ctx =
     (let is_windows = infer_convention lb (context_cwd ctx) = Some Windows;
          start = takeWhile (\<lambda>c. c \<noteq> 42 \<and> c \<noteq> 63 \<and> c \<noteq> 91 \<and> c \<noteq> 93) pattern;
          wildcard = length start < length pattern;
          in_segment = wildcard \<and> \<not> (start \<noteq> [] \<and> (last start = 47 \<or> is_windows \<and> last start = 92))
      in if wildcard \<and> start = [] then None
         else
           (case join_uri lb (context_cwd ctx) start of
              Inl _ \<Rightarrow> None
            | Inr path \<Rightarrow> if in_segment then uri_parent lb path else Some path))"

definition granted_file_system_entry_within_request ::
    "uri_lib \<Rightarrow> FileSystemPermissions \<Rightarrow> FileSystemSandboxPolicy \<Rightarrow> ReadDenyMatcher option \<Rightarrow> FileSystemSandboxEntry \<Rightarrow>
     FileSystemSandboxPolicyContext \<Rightarrow> bool" where
  "granted_file_system_entry_within_request lb requested requested_policy m entry ctx =
     (if \<not> can_read (entry_access entry) \<or>
         (entry_path entry = Special SlashTmp \<and> infer_convention lb (context_cwd ctx) \<noteq> Some Posix) then False
      else if infer_convention lb (context_cwd ctx) = Some Windows \<and> is_root_entry entry \<and>
         \<not> list_ex (\<lambda>e. is_root_entry e \<and> access_covers (entry_access e) (entry_access entry)) (permission_entries requested) then False
      else
        (case resolve_permission_path lb (entry_path entry) ctx of
           Some path \<Rightarrow>
             if infer_convention lb path \<noteq> infer_convention lb (context_cwd ctx) \<or>
                (case m of Some deny \<Rightarrow> is_read_denied_uri lb deny path ctx | None \<Rightarrow> False) then False
             else access_covers (resolve_access lb requested_policy path ctx) (entry_access entry)
         | None \<Rightarrow>
             list_ex (\<lambda>e. access_covers (entry_access e) (entry_access entry) \<and> path_eq lb (entry_path e) (entry_path entry))
               (permission_entries requested)))"

definition deny_entry_constrains_accepted_grant ::
    "uri_lib \<Rightarrow> FileSystemSandboxEntry \<Rightarrow> FileSystemSandboxEntry list \<Rightarrow> FileSystemSandboxPolicyContext \<Rightarrow> bool" where
  "deny_entry_constrains_accepted_grant lb deny accepted ctx =
     list_ex (\<lambda>entry.
         if is_root_entry entry then True
         else
           (case resolve_permission_path lb (entry_path entry) ctx of
              None \<Rightarrow> True
            | Some grant_path \<Rightarrow>
                (case (case entry_path deny of
                         GlobPattern pattern \<Rightarrow> glob_static_prefix_path lb pattern ctx
                       | _ \<Rightarrow> resolve_permission_path lb (entry_path deny) ctx) of
                   None \<Rightarrow> True
                 | Some deny_path \<Rightarrow> paths_overlap lb deny_path grant_path)))
       (filter (\<lambda>entry. can_read (entry_access entry)) accepted)"

text \<open>The entries that are kept, and the output list with them.\<close>

definition retain_constraining_deny_entries ::
    "uri_lib \<Rightarrow> FileSystemSandboxEntry list \<Rightarrow> FileSystemSandboxEntry list \<Rightarrow> FileSystemSandboxPolicyContext \<Rightarrow>
     FileSystemSandboxEntry list \<Rightarrow> FileSystemSandboxEntry list \<times> FileSystemSandboxEntry list" where
  "retain_constraining_deny_entries lb source accepted ctx output =
     (let kept = filter (\<lambda>entry. entry_access entry = Deny \<and> deny_entry_constrains_accepted_grant lb entry accepted ctx) source
      in (kept, fold (push_entry lb) kept output))"

definition intersect_file_systems ::
    "glob_builder \<Rightarrow> uri_lib \<Rightarrow> FileSystemPermissions \<Rightarrow> FileSystemPermissions \<Rightarrow> FileSystemSandboxPolicyContext \<Rightarrow>
     FileSystemPermissions option" where
  "intersect_file_systems gl lb requested granted ctx =
     (case materialize_context_dependent_entries lb (permission_entries requested) ctx of
        None \<Rightarrow> None
      | Some requested_entries \<Rightarrow>
          (case materialize_context_dependent_entries lb (permission_entries granted) ctx of
             None \<Rightarrow> None
           | Some granted_entries \<Rightarrow>
               (let requested_policy = restricted requested_entries;
                    m = matcher_from_context gl lb requested_policy ctx;
                    accepted = fold (push_entry lb)
                      (filter (\<lambda>entry. granted_file_system_entry_within_request lb requested requested_policy m entry ctx) granted_entries) [];
                    (requested_kept, entries) = retain_constraining_deny_entries lb requested_entries accepted ctx accepted;
                    (granted_kept, entries') = retain_constraining_deny_entries lb granted_entries accepted ctx entries
                in Some \<lparr>permission_entries = entries',
                         permission_scan_depth =
                           Option.bind (merge_glob_scan_max_depth requested_kept (permission_scan_depth requested)
                               granted_kept (permission_scan_depth granted)) nonzero\<rparr>)))"

definition intersect_permission_profiles_with_context ::
    "glob_builder \<Rightarrow> uri_lib \<Rightarrow> AdditionalPermissionProfile \<Rightarrow> AdditionalPermissionProfile \<Rightarrow> FileSystemSandboxPolicyContext \<Rightarrow>
     AdditionalPermissionProfile" where
  "intersect_permission_profiles_with_context gl lb requested granted ctx =
     \<lparr>network_permissions =
        (if network_permissions requested = Some (Some True) \<and> network_permissions granted = Some (Some True)
         then Some (Some True) else None),
      file_system_permissions =
        Option.bind
          (Option.bind (file_system_permissions requested) (\<lambda>fs.
             intersect_file_systems gl lb fs
               (case file_system_permissions granted of
                  Some p \<Rightarrow> p
                | None \<Rightarrow> \<lparr>permission_entries = [], permission_scan_depth = None\<rparr>) ctx))
          unless_empty\<rparr>"

section \<open>Pushing entries\<close>

lemma fold_push_entry_subset: "set (fold (push_entry lb) es init) \<subseteq> set init \<union> set es"
proof (induction es arbitrary: init)
  case (Cons e es)
  have "set (push_entry lb e init) \<subseteq> insert e (set init)" by (auto simp: push_entry_def)
  thus ?case using Cons [of "push_entry lb e init"] by auto
qed simp

lemma fold_push_entry_keeps: "set init \<subseteq> set (fold (push_entry lb) es init)"
proof (induction es arbitrary: init)
  case (Cons e es)
  have "set init \<subseteq> set (push_entry lb e init)" by (auto simp: push_entry_def)
  thus ?case using Cons [of "push_entry lb e init"] by auto
qed simp

lemma fold_push_entry_has: "e \<in> set es \<Longrightarrow> \<exists>e'\<in>set (fold (push_entry lb) es init). entry_eq lb e' e"
proof (induction es arbitrary: init)
  case (Cons x es)
  show ?case
  proof (cases "e = x")
    case True
    have "\<exists>e'\<in>set (push_entry lb x init). entry_eq lb e' x" by (auto simp: push_entry_def list_ex_iff entry_eq_refl)
    thus ?thesis using True fold_push_entry_keeps [of "push_entry lb x init" lb es] by auto
  qed (use Cons in auto)
qed simp

section \<open>Materialized entries\<close>

lemma concrete_entries_resolved:
  "concat (map (entry_resolved lb ctx) (map (materialized_path_entry entry) paths)) =
   map (\<lambda>path. (path, entry_access entry)) (filter (\<lambda>path. infer_convention lb path = infer_convention lb (context_cwd ctx)) paths)"
  by (induction paths) (auto simp: entry_resolved_def materialized_path_entry_def)

lemma map_filter_id: "List.map_filter id (map f xs) = List.map_filter f xs"
  by (induction xs) (auto split: option.splits)

lemma cwd_dependent_entry:
  assumes "materialize_cwd_dependent_entry lb entry ctx = Some e"
  shows "entry_resolved lb ctx e = entry_resolved lb ctx entry"
    and "\<not> is_glob_entry entry \<Longrightarrow> e = entry"
    and "is_glob_entry entry \<Longrightarrow> entry_roots lb ctx (entry_path e) = []"
  using assms
  by (auto simp: materialize_cwd_dependent_entry_def is_glob_entry_def entry_resolved_def Let_def
      split: FileSystemPath.splits option.splits prod.splits)

lemma special_root:
  "r \<in> set (entry_roots lb ctx (Special v)) \<Longrightarrow> \<nexists>subpath. v = ProjectRoots subpath \<Longrightarrow> v \<noteq> Tmpdir \<Longrightarrow>
   resolve_permission_path lb (Special v) ctx = Some r"
  by (cases v) (auto simp: option_list_def split: option.splits if_splits)

lemma materialized_context_entry:
  assumes "materialize_context_entry lb ctx entry = Some es"
  shows "concat (map (entry_resolved lb ctx) es) = entry_resolved lb ctx entry"
    and "e \<in> set es \<Longrightarrow> r \<in> set (entry_roots lb ctx (entry_path e)) \<Longrightarrow> resolve_permission_path lb (entry_path e) ctx = Some r"
proof -
  consider (roots) subpath where "entry_path entry = Special (ProjectRoots subpath)"
    | (tmpdir) "entry_path entry = Special Tmpdir" | (root) "entry_path entry = Special Root"
    | (other) "\<nexists>subpath. entry_path entry = Special (ProjectRoots subpath)" "entry_path entry \<noteq> Special Tmpdir" "entry_path entry \<noteq> Special Root"
    by blast
  hence "concat (map (entry_resolved lb ctx) es) = entry_resolved lb ctx entry \<and>
    (\<forall>e\<in>set es. \<forall>r\<in>set (entry_roots lb ctx (entry_path e)). resolve_permission_path lb (entry_path e) ctx = Some r)"
  proof cases
    case roots
    have "es = map (materialized_path_entry entry)
        (List.map_filter (\<lambda>root. case subpath of Some s \<Rightarrow> ok_of (join_uri lb root s) | None \<Rightarrow> Some root) (workspace_roots ctx))"
      using assms roots by (auto simp: materialize_context_entry_def map_filter_id Let_def split: if_splits)
    thus ?thesis by (simp only: concrete_entries_resolved) (auto simp: entry_resolved_def roots materialized_path_entry_def)
  next
    case tmpdir
    show ?thesis
    proof (cases "temporary_directories ctx")
      case None
      thus ?thesis using assms tmpdir by (auto simp: materialize_context_entry_def entry_resolved_def split: if_splits)
    next
      case (Some dirs)
      hence "es = map (materialized_path_entry entry) dirs" using assms tmpdir by (simp add: materialize_context_entry_def)
      thus ?thesis by (simp only: concrete_entries_resolved) (auto simp: entry_resolved_def tmpdir Some materialized_path_entry_def)
    qed
  next
    case root
    thus ?thesis using assms by (auto simp: materialize_context_entry_def option_list_def split: if_splits option.splits)
  next
    case other
    have es: "case materialize_cwd_dependent_entry lb entry ctx of None \<Rightarrow> entry_access entry \<noteq> Deny \<and> es = [] | Some e \<Rightarrow> es = [e]"
      using assms other by (auto simp: materialize_context_entry_def split: FileSystemPath.splits FileSystemSpecialPath.splits option.splits if_splits)
    show ?thesis
    proof (cases "materialize_cwd_dependent_entry lb entry ctx")
      case None
      have "is_glob_entry entry"
        using None by (auto simp: materialize_cwd_dependent_entry_def is_glob_entry_def split: FileSystemPath.splits)
      thus ?thesis using es None by (auto simp: is_glob_entry_def entry_resolved_def split: FileSystemPath.splits)
    next
      case (Some e)
      have "resolve_permission_path lb (entry_path e) ctx = Some r" if "r \<in> set (entry_roots lb ctx (entry_path e))" for r
      proof (cases "is_glob_entry entry")
        case True
        thus ?thesis using cwd_dependent_entry(3) [OF Some] that by simp
      next
        case False
        hence "e = entry" by (rule cwd_dependent_entry(2) [OF Some])
        thus ?thesis using that other False
          by (cases "entry_path entry") (auto simp: is_glob_entry_def intro: special_root)
      qed
      thus ?thesis using es Some cwd_dependent_entry(1) [OF Some] by simp
    qed
  qed
  thus "concat (map (entry_resolved lb ctx) es) = entry_resolved lb ctx entry"
    and "e \<in> set es \<Longrightarrow> r \<in> set (entry_roots lb ctx (entry_path e)) \<Longrightarrow> resolve_permission_path lb (entry_path e) ctx = Some r"
    by blast+
qed

lemma materialized_context:
  assumes "materialize_context_dependent_entries lb entries ctx = Some es"
  shows "resolved_entries lb (restricted es) ctx = resolved_entries lb (restricted entries) ctx"
    and "e \<in> set es \<Longrightarrow> r \<in> set (entry_roots lb ctx (entry_path e)) \<Longrightarrow> resolve_permission_path lb (entry_path e) ctx = Some r"
proof -
  have "concat (map (entry_resolved lb ctx) es) = concat (map (entry_resolved lb ctx) entries) \<and>
      (\<forall>e\<in>set es. \<forall>r\<in>set (entry_roots lb ctx (entry_path e)). resolve_permission_path lb (entry_path e) ctx = Some r)"
    using assms
  proof (induction entries arbitrary: es)
    case (Cons entry entries)
    then obtain xs ys where "materialize_context_entry lb ctx entry = Some xs" "materialize_context_dependent_entries lb entries ctx = Some ys"
      "es = xs @ ys" by (auto split: option.splits)
    thus ?case using materialized_context_entry [of lb ctx entry xs] Cons.IH [of ys] by auto
  qed simp
  thus "resolved_entries lb (restricted es) ctx = resolved_entries lb (restricted entries) ctx"
    and "e \<in> set es \<Longrightarrow> r \<in> set (entry_roots lb ctx (entry_path e)) \<Longrightarrow> resolve_permission_path lb (entry_path e) ctx = Some r"
    by (simp_all add: resolved_concat restricted_def)
qed

lemma resolve_access_cong:
  "sandbox_kind p = sandbox_kind q \<Longrightarrow> resolved_entries lb p ctx = resolved_entries lb q ctx \<Longrightarrow>
   resolve_access lb p path ctx = resolve_access lb q path ctx"
  unfolding resolve_access_def by (simp only:)


section \<open>Merged policies\<close>

lemma fold_push_missing_subset: "set (sandbox_entries (fold (push_missing lb) es policy)) \<subseteq> set (sandbox_entries policy) \<union> set es"
proof (induction es arbitrary: policy)
  case (Cons e es)
  have "set (sandbox_entries (push_missing lb e policy)) \<subseteq> insert e (set (sandbox_entries policy))" by (auto simp: push_missing_def)
  thus ?case using Cons [of "push_missing lb e policy"] by auto
qed simp

lemma merged_resolved:
  assumes "posix_lexical lb q" and "posix_lexical lb (context_cwd ctx)"
  shows "(q, b) \<in> set (resolved_entries lb (fold (push_missing lb) es policy) ctx) \<longleftrightarrow>
         (q, b) \<in> set (resolved_entries lb policy ctx) \<or> (q, b) \<in> set (resolved_entries lb (restricted es) ctx)" (is "?merged \<longleftrightarrow> ?parts")
proof
  assume ?merged
  thus ?parts using fold_push_missing_subset [of lb es policy] by (auto simp: resolved_iff restricted_def)
next
  assume ?parts
  thus ?merged
  proof
    assume "(q, b) \<in> set (resolved_entries lb policy ctx)"
    thus ?merged using fold_push_keeps [of policy lb es] by (auto simp: resolved_iff)
  next
    assume "(q, b) \<in> set (resolved_entries lb (restricted es) ctx)"
    then obtain e where e: "e \<in> set es" "b = entry_access e" "q \<in> set (entry_roots lb ctx (entry_path e))"
      "infer_convention lb q = infer_convention lb (context_cwd ctx)" by (auto simp: resolved_iff restricted_def)
    obtain e' where e': "e' \<in> set (sandbox_entries (fold (push_missing lb) es policy))" "entry_eq lb e' e"
      using fold_push_has [OF e(1)] by blast
    show ?merged using e' e equal_entry_roots [OF e'(2) e(3) assms(1)] by (auto simp: resolved_iff entry_eq_def intro!: bexI [of _ e'])
  qed
qed

text \<open>The entry that governs a path among the entries of two lists, from those that govern it in each.\<close>

lemma governs_union:
  assumes path: "posix_lexical lb path" and xs: "governs lb path xs s b" and ys: "governs lb path ys d a"
    and zs: "governs lb path zs r c"
    and union: "\<And>q e. uri_starts_with lb path q \<Longrightarrow> (q, e) \<in> set zs \<longleftrightarrow> (q, e) \<in> set xs \<or> (q, e) \<in> set ys"
  shows "c = (if uri_starts_with lb s d then if uri_starts_with lb d s then max a b else b else a)"
proof -
  have base: "(s, b) \<in> set zs" "uri_starts_with lb path s" and extra: "(d, a) \<in> set zs" "uri_starts_with lb path d"
    using xs ys union by (auto simp: governs_def)
  have chosen: "(r, c) \<in> set xs \<or> (r, c) \<in> set ys" "uri_starts_with lb path r" using zs union by (auto simp: governs_def)
  have nearest: "uri_starts_with lb r q \<and> (uri_starts_with lb q r \<longrightarrow> e \<le> c)" if "(q, e) \<in> set zs" "uri_starts_with lb path q" for q e
    using zs that by (fastforce simp: governs_def)
  note rs = nearest [OF base] and rd = nearest [OF extra]
  have from_xs: "(r, c) \<in> set xs \<Longrightarrow> uri_starts_with lb s r \<and> c \<le> b" and from_ys: "(r, c) \<in> set ys \<Longrightarrow> uri_starts_with lb d r \<and> c \<le> a"
    using xs ys chosen(2) rs rd by (auto simp: governs_def)
  have lex: "posix_lexical lb s" "posix_lexical lb d" using posix.below_lexical [OF path] base(2) extra(2) by blast+
  have "uri_starts_with lb s r \<and> c = b \<or> uri_starts_with lb d r \<and> c = a"
    using chosen(1) rs rd from_xs from_ys by (metis order.antisym)
  thus ?thesis
  proof
    assume *: "uri_starts_with lb s r \<and> c = b"
    hence "uri_starts_with lb s d" "uri_starts_with lb d s \<Longrightarrow> uri_starts_with lb d r"
      using posix.below_trans [OF lex(1), of r d] posix.below_trans [OF lex(2), of s r] rd by blast+
    thus ?thesis using * rd by (auto simp: max_def)
  next
    assume *: "uri_starts_with lb d r \<and> c = a"
    hence "uri_starts_with lb d s" "uri_starts_with lb s d \<Longrightarrow> uri_starts_with lb s r"
      using posix.below_trans [OF lex(2), of r s] posix.below_trans [OF lex(1), of d r] rs by blast+
    thus ?thesis using * rs by (auto simp: max_def)
  qed
qed

section \<open>Entries without writing\<close>

lemma without_write_mono: "a \<le> b \<Longrightarrow> without_write a \<le> without_write b"
  by (cases a; cases b) (auto simp: less_eq_FileSystemAccessMode_def)

lemma with_depths_map:
  "with_depths lb (map (\<lambda>(r, a). (r, f a)) entries) = map_option (map (\<lambda>(r, a, d). (r, f a, d))) (with_depths lb entries)"
  by (induction lb entries rule: with_depths.induct) (auto split: option.splits simp: option.map_comp comp_def)

lemma max_by_key_map:
  assumes "max_by_key (\<lambda>(_, access, depth). (depth, access)) xs = Some (r :: file_url, a, d :: nat)"
  shows "\<exists>r'. max_by_key (\<lambda>(_, access, depth). (depth, access)) (map (\<lambda>(r, a, d). (r, without_write a, d)) xs) = Some (r', without_write a, d)"
proof -
  let ?key = "\<lambda>(_ :: file_url, access, depth :: nat). (depth, access)" and ?ys = "map (\<lambda>(r, a, d). (r, without_write a, d)) xs"
  have m: "(r, a, d) \<in> set xs" "\<And>u b e. (u, b, e) \<in> set xs \<Longrightarrow> (e, b) \<le> (d, a)" using max_by_key_Some [OF assms] by fastforce+
  have "?ys \<noteq> []" using m(1) by auto
  then obtain r' a' d' where best: "max_by_key ?key ?ys = Some (r', a', d')"
    using max_by_key_None [of ?key ?ys] by (metis not_None_eq prod_cases3)
  have best_in: "(r', a', d') \<in> set ?ys" and best_max: "\<And>z. z \<in> set ?ys \<Longrightarrow> ?key z \<le> (d', a')"
    using max_by_key_Some [OF best] by auto
  obtain a0 where a0: "(r', a0, d') \<in> set xs" "a' = without_write a0" using best_in by auto
  have "(r, without_write a, d) \<in> set ?ys" using m(1) by force
  hence "(d, without_write a) \<le> (d', a')" using best_max by fastforce
  moreover have "(d', a') \<le> (d, without_write a)" using m(2) [OF a0(1)] a0(2) without_write_mono by (auto simp: less_eq_prod_def)
  ultimately have "(d', a') = (d, without_write a)" by (rule antisym [symmetric])
  thus ?thesis using best by auto
qed

lemma filter_map_roots:
  "filter (\<lambda>(root, _, _). P root) (map (\<lambda>(r, a, d). (r, f a, d)) xs) = map (\<lambda>(r, a, d). (r, f a, d)) (filter (\<lambda>(root, _, _). P root) xs)"
  by (induction xs) auto

lemma resolve_without_write:
  assumes "sandbox_kind policy = Restricted" and "sandbox_kind policy' = Restricted"
    and "resolved_entries lb policy' ctx = map (\<lambda>(r, a). (r, without_write a)) (resolved_entries lb policy ctx)"
  shows "resolve_access lb policy' path ctx = without_write (resolve_access lb policy path ctx)"
proof (cases "with_depths lb (resolved_entries lb policy ctx)")
  case None
  thus ?thesis using assms by (auto simp: resolve_access_def with_depths_map split: option.splits)
next
  case (Some deep)
  let ?near = "filter (\<lambda>(root, _, _). uri_starts_with lb path root) deep"
  show ?thesis
  proof (cases "max_by_key (\<lambda>(_, access, depth). (depth, access)) ?near")
    case None
    hence "?near = []" by (simp only: max_by_key_None)
    thus ?thesis using assms Some
      by (auto simp: resolve_access_def with_depths_map filter_map_roots split: option.splits)
  next
    case best: (Some m)
    obtain r a d where m: "m = (r, a, d)" by (cases m)
    thus ?thesis using assms Some best max_by_key_map [OF best [unfolded m]]
      by (auto simp: resolve_access_def with_depths_map filter_map_roots split: option.splits)
  qed
qed

lemma without_write_entries:
  "resolved_entries lb (policy\<lparr>sandbox_entries := map (\<lambda>e. e\<lparr>entry_access := without_write (entry_access e)\<rparr>) es\<rparr>) ctx =
   map (\<lambda>(r, a). (r, without_write a)) (resolved_entries lb (restricted es) ctx)"
  by (simp add: resolved_entries_def restricted_def map_concat comp_def)

lemma read_only_resolves:
  assumes "uri_laws lb" and "posix_query lb path ctx" and "nul_free lb (context_cwd ctx)"
    and kind: "sandbox_kind policy = Restricted" and "sandbox_entries policy = read_only_file_system_entries"
  shows "resolve_access lb policy path ctx = Read"
proof -
  note path = assms(2) [unfolded posix_query_def, THEN conjunct2] and cwd = assms(2) [unfolded posix_query_def, THEN conjunct1]
  obtain root where root: "file_system_root lb ctx = Some root" "posix_lexical lb root" "components lb root = []"
    by (rule root_posix [OF assms(1) cwd assms(3)])
  have entries: "resolved_entries lb policy ctx = [(root, Read)]"
    using posix_lexicalD(1) [OF root(2)] posix_lexicalD(1) [OF cwd] root(1)
    by (simp add: assms(5) resolved_entries_def read_only_file_system_entries_def new_entry_def option_list_def)
  have clear: "\<not> ambiguous lb (resolved_entries lb policy ctx)"
    using lexical_depth_posix [OF root(2)] by (simp add: entries ambiguous_def)
  have "uri_starts_with lb path root" using starts_with_posix [OF path root(2)] root(3) by simp
  thus ?thesis using resolve_access_governs [OF kind assms(2) clear, of root Read] by (auto simp: entries governs_def)
qed

section \<open>Intersections\<close>

lemma overlap_below:
  assumes "posix_lexical lb s" and "uri_starts_with lb s r"
  shows "paths_overlap lb s r"
  using assms(2) lexical_depth_posix [OF assms(1)] lexical_depth_posix [OF posix.below_lexical [OF assms]]
  by (simp add: paths_overlap_def overlaps_def)

lemma covered_readable: "access_covers requested granted \<Longrightarrow> requested \<noteq> Deny \<and> granted \<noteq> Deny"
  by (cases granted) (auto simp: can_read_def can_write_def)

text \<open>The parts of an intersection: what was accepted, and the list it ends with.\<close>

definition accepted_grants ::
    "glob_builder \<Rightarrow> uri_lib \<Rightarrow> FileSystemPermissions \<Rightarrow> FileSystemSandboxEntry list \<Rightarrow> FileSystemSandboxEntry list \<Rightarrow>
     FileSystemSandboxPolicyContext \<Rightarrow> FileSystemSandboxEntry list" where
  "accepted_grants gl lb requested requested_entries granted_entries ctx =
     fold (push_entry lb)
       (filter (\<lambda>entry. granted_file_system_entry_within_request lb requested (restricted requested_entries)
            (matcher_from_context gl lb (restricted requested_entries) ctx) entry ctx) granted_entries) []"

lemma intersected_entries:
  assumes "intersect_file_systems gl lb requested granted ctx = Some fs"
  obtains rq gr accepted where
    "materialize_context_dependent_entries lb (permission_entries requested) ctx = Some rq"
    "materialize_context_dependent_entries lb (permission_entries granted) ctx = Some gr"
    "accepted = accepted_grants gl lb requested rq gr ctx"
    "permission_entries fs = snd (retain_constraining_deny_entries lb gr accepted ctx
       (snd (retain_constraining_deny_entries lb rq accepted ctx accepted)))"
  using assms that
  by (auto simp: intersect_file_systems_def accepted_grants_def Let_def split: option.splits prod.splits)

lemma accepted_entry:
  assumes "e \<in> set (accepted_grants gl lb requested rq gr ctx)"
  shows "e \<in> set gr" and "granted_file_system_entry_within_request lb requested (restricted rq) (matcher_from_context gl lb (restricted rq) ctx) e ctx"
  using assms fold_push_entry_subset [of lb _ "[]"] by (fastforce simp: accepted_grants_def)+

lemma retained_subset:
  "set (snd (retain_constraining_deny_entries lb source accepted ctx init)) \<subseteq> set init \<union> {e. entry_access e = Deny}"
  using fold_push_entry_subset [of lb _ init] by (fastforce simp: retain_constraining_deny_entries_def Let_def)

lemma retained_keeps: "set init \<subseteq> set (snd (retain_constraining_deny_entries lb source accepted ctx init))"
  using fold_push_entry_keeps by (simp add: retain_constraining_deny_entries_def Let_def)

lemma retained_has:
  assumes "f \<in> set source" and "entry_access f = Deny" and "deny_entry_constrains_accepted_grant lb f accepted ctx"
  shows "\<exists>f'\<in>set (snd (retain_constraining_deny_entries lb source accepted ctx init)). entry_eq lb f' f"
  using assms fold_push_entry_has [of f] by (simp add: retain_constraining_deny_entries_def Let_def)

lemma deny_constraint:
  assumes "e \<in> set accepted" and "can_read (entry_access e)" and "resolve_permission_path lb (entry_path e) ctx = Some r"
    and "s \<in> set (entry_roots lb ctx (entry_path f))" and "resolve_permission_path lb (entry_path f) ctx = Some s"
    and "posix_lexical lb s" and "uri_starts_with lb s r"
  shows "deny_entry_constrains_accepted_grant lb f accepted ctx"
  using assms overlap_below [OF assms(6,7)]
  by (cases "entry_path f") (auto simp: deny_entry_constrains_accepted_grant_def list_ex_iff intro!: bexI [of _ e])

text \<open>The request and the grant themselves decide a path of the intersection: its governing entry is an accepted
  grant, and no denial of either side lies between.\<close>

lemma intersected_grant:
  assumes fs: "intersect_file_systems gl lb requested granted ctx = Some fs" and query: "posix_query lb q ctx"
    and readable: "resolve_access lb (restricted (permission_entries fs)) q ctx \<noteq> Deny"
  obtains r a where
    "(r, a) \<in> set (resolved_entries lb (restricted (permission_entries granted)) ctx)"
    and "resolve_access lb (restricted (permission_entries requested)) r ctx \<noteq> Deny" and "uri_starts_with lb q r"
    and "\<forall>p\<in>{requested, granted}. \<forall>s. (s, Deny) \<in> set (resolved_entries lb (restricted (permission_entries p)) ctx) \<and>
           uri_starts_with lb q s \<longrightarrow> \<not> uri_starts_with lb s r"
proof -
  note path = query [unfolded posix_query_def, THEN conjunct2] and cwd = query [unfolded posix_query_def, THEN conjunct1]
  obtain rq gr accepted where rq: "materialize_context_dependent_entries lb (permission_entries requested) ctx = Some rq"
    and gr: "materialize_context_dependent_entries lb (permission_entries granted) ctx = Some gr"
    and accepted: "accepted = accepted_grants gl lb requested rq gr ctx"
    and final: "permission_entries fs = snd (retain_constraining_deny_entries lb gr accepted ctx
       (snd (retain_constraining_deny_entries lb rq accepted ctx accepted)))"
    by (rule intersected_entries [OF fs])
  let ?result = "restricted (permission_entries fs)"
  have kind: "sandbox_kind ?result = Restricted" by (simp add: restricted_def)
  have clear: "\<not> ambiguous lb (resolved_entries lb ?result ctx)" using resolve_access_ambiguous [OF kind] readable by blast
  obtain q0 b0 where "(q0, b0) \<in> set (resolved_entries lb ?result ctx)" "uri_starts_with lb q q0"
    using resolve_access_no_entry [OF kind] readable by blast
  then obtain r where r: "governs lb q (resolved_entries lb ?result ctx) r (resolve_access lb ?result q ctx)"
    using resolve_access_governs [OF kind query clear] by blast
  define a where "a = resolve_access lb ?result q ctx"
  have a: "a \<noteq> Deny" "\<not> Deny \<le> a" using readable by (cases a; auto simp: a_def less_eq_FileSystemAccessMode_def)+
  have below: "uri_starts_with lb q r" using r by (simp add: governs_def)
  have lex: "posix_lexical lb r" by (rule posix.below_lexical [OF path below])
  obtain e where e: "e \<in> set (permission_entries fs)" "a = entry_access e" "r \<in> set (entry_roots lb ctx (entry_path e))"
    using r by (auto simp: governs_def resolved_iff restricted_def a_def)
  have e_acc: "e \<in> set accepted"
    using e(1,2) a(1) retained_subset [of lb gr accepted ctx] retained_subset [of lb rq accepted ctx accepted] unfolding final by blast
  have e_gr: "e \<in> set gr" and within: "granted_file_system_entry_within_request lb requested (restricted rq)
      (matcher_from_context gl lb (restricted rq) ctx) e ctx" using accepted_entry e_acc accepted by blast+
  have path_r: "resolve_permission_path lb (entry_path e) ctx = Some r" by (rule materialized_context(2) [OF gr e_gr e(3)])
  have "access_covers (resolve_access lb (restricted rq) r ctx) a"
    using within path_r e(2) by (auto simp: granted_file_system_entry_within_request_def split: if_splits)
  hence "resolve_access lb (restricted rq) r ctx \<noteq> Deny" by (blast dest: covered_readable)
  hence requested_r: "resolve_access lb (restricted (permission_entries requested)) r ctx \<noteq> Deny"
    using resolve_access_cong [OF _ materialized_context(1) [OF rq]] by (simp add: restricted_def)
  have "(r, a) \<in> set (resolved_entries lb (restricted gr) ctx)"
    using e e_gr posix_lexicalD(1) [OF lex] posix_lexicalD(1) [OF cwd] by (auto simp: resolved_iff restricted_def)
  hence granted_r: "(r, a) \<in> set (resolved_entries lb (restricted (permission_entries granted)) ctx)"
    using materialized_context(1) [OF gr] by simp
  have no_deny: "\<not> uri_starts_with lb s r"
    if f: "f \<in> set source" "entry_access f = Deny" "s \<in> set (entry_roots lb ctx (entry_path f))" and s: "uri_starts_with lb q s"
      and source: "source = rq \<or> source = gr" for s f source
  proof
    assume sr: "uri_starts_with lb s r"
    have lex_s: "posix_lexical lb s" by (rule posix.below_lexical [OF path s])
    have "resolve_permission_path lb (entry_path f) ctx = Some s"
      using source materialized_context(2) [OF rq, of f s] materialized_context(2) [OF gr, of f s] f by blast
    hence constraint: "deny_entry_constrains_accepted_grant lb f accepted ctx"
      using deny_constraint [OF e_acc _ path_r f(3) _ lex_s sr] a(1) e(2) by (simp add: can_read_def)
    have "\<exists>f'\<in>set (permission_entries fs). entry_eq lb f' f"
      using source f(1) retained_has [OF _ f(2) constraint] retained_keeps unfolding final by blast
    then obtain f' where f': "f' \<in> set (permission_entries fs)" "entry_eq lb f' f" by blast
    have "(s, Deny) \<in> set (resolved_entries lb ?result ctx)"
      using f' f(2) equal_entry_roots [OF f'(2) f(3) lex_s] posix_lexicalD(1) [OF lex_s] posix_lexicalD(1) [OF cwd]
      by (auto simp: resolved_iff entry_eq_def restricted_def intro!: bexI [of _ f'])
    thus False using r s sr a(2) by (auto simp: governs_def a_def)
  qed
  have "\<not> uri_starts_with lb s r"
    if p: "p \<in> {requested, granted}" and deny: "(s, Deny) \<in> set (resolved_entries lb (restricted (permission_entries p)) ctx)"
      and s: "uri_starts_with lb q s" for s p
  proof -
    obtain source where "source = rq \<or> source = gr" "(s, Deny) \<in> set (resolved_entries lb (restricted source) ctx)"
      using p deny materialized_context(1) [OF rq] materialized_context(1) [OF gr] by (metis insertE singletonD)
    thus ?thesis using no_deny s by (auto simp: resolved_iff restricted_def)
  qed
  thus ?thesis using that granted_r requested_r below by blast
qed

lemma granted_side:
  assumes query: "posix_query lb q ctx" and clear: "\<not> ambiguous lb (resolved_entries lb (restricted entries) ctx)"
    and r: "(r, a) \<in> set (resolved_entries lb (restricted entries) ctx)" "uri_starts_with lb q r"
    and no_deny: "\<And>s. (s, Deny) \<in> set (resolved_entries lb (restricted entries) ctx) \<Longrightarrow> uri_starts_with lb q s \<Longrightarrow> \<not> uri_starts_with lb s r"
  shows "resolve_access lb (restricted entries) q ctx \<noteq> Deny"
proof
  have kind: "sandbox_kind (restricted entries) = Restricted" by (simp add: restricted_def)
  assume deny: "resolve_access lb (restricted entries) q ctx = Deny"
  obtain s where "governs lb q (resolved_entries lb (restricted entries) ctx) s Deny"
    using resolve_access_governs [OF kind query clear r] deny by auto
  thus False using no_deny [of s] r by (auto simp: governs_def)
qed

lemma requested_side:
  assumes query: "posix_query lb q ctx" and r: "resolve_access lb (restricted entries) r ctx \<noteq> Deny" "uri_starts_with lb q r"
    and no_deny: "\<And>s. (s, Deny) \<in> set (resolved_entries lb (restricted entries) ctx) \<Longrightarrow> uri_starts_with lb q s \<Longrightarrow> \<not> uri_starts_with lb s r"
  shows "resolve_access lb (restricted entries) q ctx \<noteq> Deny"
proof
  let ?policy = "restricted entries" let ?entries = "resolved_entries lb ?policy ctx"
  note path = query [unfolded posix_query_def, THEN conjunct2] and cwd = query [unfolded posix_query_def, THEN conjunct1]
  have kind: "sandbox_kind ?policy = Restricted" by (simp add: restricted_def)
  have clear: "\<not> ambiguous lb ?entries" using resolve_access_ambiguous [OF kind] r(1) by blast
  have query_r: "posix_query lb r ctx" using posix.below_lexical [OF path r(2)] cwd by (simp add: posix_query_def)
  obtain t0 c0 where "(t0, c0) \<in> set ?entries" "uri_starts_with lb r t0" using resolve_access_no_entry [OF kind] r(1) by blast
  then obtain t where t: "governs lb r ?entries t (resolve_access lb ?policy r ctx)"
    using resolve_access_governs [OF kind query_r clear] by blast
  have t_above: "uri_starts_with lb q t" using t posix.below_trans [OF path r(2)] by (auto simp: governs_def)
  assume "resolve_access lb ?policy q ctx = Deny"
  moreover have "(t, resolve_access lb ?policy r ctx) \<in> set ?entries" using t by (simp add: governs_def)
  ultimately obtain s where s: "governs lb q ?entries s Deny"
    using resolve_access_governs [OF kind query clear _ t_above] by fastforce
  have "\<not> uri_starts_with lb s r" using no_deny s by (simp add: governs_def)
  hence "uri_starts_with lb r s"
    using s [unfolded governs_def] r(2) posix.below_line [OF path, of s r] posix.below_line [OF path, of r s] nat_le_linear by metis
  moreover have "uri_starts_with lb s t" using s t t_above by (auto simp: governs_def)
  ultimately have "Deny \<le> resolve_access lb ?policy r ctx" using t s by (auto simp: governs_def)
  thus False using r(1) by (cases "resolve_access lb ?policy r ctx") (auto simp: less_eq_FileSystemAccessMode_def)
qed

section \<open>Theorems\<close>

definition well_formed_profile :: "PermissionProfile \<Rightarrow> bool" where
  "well_formed_profile profile = (case profile of Managed (ManagedRestricted _ (Some depth)) _ \<Rightarrow> depth \<noteq> 0 | _ \<Rightarrow> True)"

definition grants :: "FileSystemSandboxEntry list \<Rightarrow> AdditionalPermissionProfile" where
  "grants entries =
     \<lparr>network_permissions = None, file_system_permissions = Some \<lparr>permission_entries = entries, permission_scan_depth = None\<rparr>\<rparr>"

definition workspace_request :: "FileSystemSandboxEntry list" where
  "workspace_request =
     [new_entry (PathEntry (dir_at [''a''])) Write, new_entry (PathEntry (dir_at [''a'', ''secret''])) Deny]"

definition careful_request :: "FileSystemSandboxEntry list" where
  "careful_request = [new_entry (PathEntry (dir_at [''a''])) Write, new_entry (PathEntry (dir_at [''a'', ''b''])) Read]"

text \<open>
  C10. What a permission grant gives stays within the request and within the grant: on a POSIX host, a path that is
  readable under the intersection of requested and granted permissions is readable under the requested ones and
  under the granted ones, whatever globs, workspace entries and temporary directories either side names.
\<close>

theorem intersection_reads_within_both:
  assumes "file_system_permissions (intersect_permission_profiles_with_context gl lb requested granted ctx) = Some fs"
    and "file_system_permissions requested = Some rq" and "file_system_permissions granted = Some gr"
    and "posix_query lb path ctx" and "\<not> ambiguous lb (resolved_entries lb (restricted (permission_entries gr)) ctx)"
    and "can_read_path lb (restricted (permission_entries fs)) path ctx"
  shows "can_read_path lb (restricted (permission_entries rq)) path ctx \<and> can_read_path lb (restricted (permission_entries gr)) path ctx"
proof -
  have fs: "intersect_file_systems gl lb rq gr ctx = Some fs"
    using assms(1-3) by (auto simp: intersect_permission_profiles_with_context_def unless_empty_def bind_eq_Some_conv split: if_splits)
  have readable: "resolve_access lb (restricted (permission_entries fs)) path ctx \<noteq> Deny"
    using assms(6) by (simp add: can_read_path_def can_read_def)
  obtain r a where r: "(r, a) \<in> set (resolved_entries lb (restricted (permission_entries gr)) ctx)"
    "resolve_access lb (restricted (permission_entries rq)) r ctx \<noteq> Deny" "uri_starts_with lb path r"
    "\<forall>p\<in>{rq, gr}. \<forall>s. (s, Deny) \<in> set (resolved_entries lb (restricted (permission_entries p)) ctx) \<and>
       uri_starts_with lb path s \<longrightarrow> \<not> uri_starts_with lb s r"
    by (rule intersected_grant [OF fs assms(4) readable])
  have "resolve_access lb (restricted (permission_entries rq)) path ctx \<noteq> Deny"
    by (rule requested_side [OF assms(4) r(2,3)]) (use r(4) in blast)
  moreover have "resolve_access lb (restricted (permission_entries gr)) path ctx \<noteq> Deny"
    by (rule granted_side [OF assms(4,5) r(1,3)]) (use r(4) in blast)
  ultimately show ?thesis by (simp add: can_read_path_def can_read_def)
qed

theorem intersection_reads_within_both_witness:
  "let fs = \<lparr>permission_entries = workspace_request, permission_scan_depth = None\<rparr> in
   file_system_permissions (intersect_permission_profiles_with_context no_globs sample_lib (grants workspace_request)
     (grants [new_entry (Special (ProjectRoots None)) Write]) sample_ctx) = Some fs \<and>
   can_read_path sample_lib (restricted (permission_entries fs)) (dir_at [''a'', ''b'']) sample_ctx \<and>
   can_read_path sample_lib (restricted workspace_request) (dir_at [''a'', ''b'']) sample_ctx"
proof -
  define fs where "fs = \<lparr>permission_entries = workspace_request, permission_scan_depth = None\<rparr>"
  have fs: "file_system_permissions (intersect_permission_profiles_with_context no_globs sample_lib (grants workspace_request)
      (grants [new_entry (Special (ProjectRoots None)) Write]) sample_ctx) = Some fs" unfolding fs_def by code_simp
  have readable: "can_read_path sample_lib (restricted (permission_entries fs)) (dir_at [''a'', ''b'']) sample_ctx"
    unfolding fs_def by code_simp
  have "can_read_path sample_lib (restricted (permission_entries \<lparr>permission_entries = workspace_request, permission_scan_depth = None\<rparr>))
          (dir_at [''a'', ''b'']) sample_ctx \<and>
        can_read_path sample_lib (restricted (permission_entries \<lparr>permission_entries = [new_entry (Special (ProjectRoots None)) Write],
          permission_scan_depth = None\<rparr>)) (dir_at [''a'', ''b'']) sample_ctx"
  proof (rule intersection_reads_within_both [OF fs _ _ _ _ readable])
    show "posix_query sample_lib (dir_at [''a'', ''b'']) sample_ctx" by code_simp
    show "\<not> ambiguous sample_lib (resolved_entries sample_lib (restricted (permission_entries
        \<lparr>permission_entries = [new_entry (Special (ProjectRoots None)) Write], permission_scan_depth = None\<rparr>)) sample_ctx)" by code_simp
  qed (simp_all add: grants_def)
  thus ?thesis using fs readable by (simp add: Let_def fs_def)
qed


text \<open>
  C16. How additional permissions and the policy of a command combine on a POSIX host: of the entry of the policy and
  the entry of the additional permissions that govern a path, the deeper one decides, and at one place the later
  in the order \<open>Read < Write < Deny\<close>.
\<close>

theorem additional_permissions_combine:
  assumes "sandbox_kind policy = Restricted" and "posix_query lb path ctx"
    and "file_system_permissions p = Some fs" and "permission_entries fs \<noteq> []"
    and "\<not> ambiguous lb (resolved_entries lb (effective_file_system_sandbox_policy lb policy (Some p)) ctx)"
    and "governs lb path (resolved_entries lb policy ctx) s b"
    and "governs lb path (resolved_entries lb (restricted (permission_entries fs)) ctx) d a"
  shows "resolve_access lb (effective_file_system_sandbox_policy lb policy (Some p)) path ctx =
         (if uri_starts_with lb s d then if uri_starts_with lb d s then max a b else b else a)"
proof -
  note path = assms(2) [unfolded posix_query_def, THEN conjunct2] and cwd = assms(2) [unfolded posix_query_def, THEN conjunct1]
  let ?merged = "effective_file_system_sandbox_policy lb policy (Some p)"
  define depth where "depth = merge_glob_scan_max_depth (sandbox_entries policy) (glob_scan_max_depth policy) (permission_entries fs) (permission_scan_depth fs)"
  have merged: "?merged = (fold (push_missing lb) (permission_entries fs) policy)\<lparr>glob_scan_max_depth := depth\<rparr>"
    using assms(1,3,4) by (simp add: effective_file_system_sandbox_policy_def merge_file_system_policy_with_additional_permissions_def
        file_system_is_empty_def depth_def)
  have kind: "sandbox_kind ?merged = Restricted" using assms(1) by (simp add: merged)
  have same: "resolved_entries lb ?merged ctx = resolved_entries lb (fold (push_missing lb) (permission_entries fs) policy) ctx"
    by (simp add: merged resolved_entries_def)
  have parts: "(q, c) \<in> set (resolved_entries lb ?merged ctx) \<longleftrightarrow>
      (q, c) \<in> set (resolved_entries lb policy ctx) \<or> (q, c) \<in> set (resolved_entries lb (restricted (permission_entries fs)) ctx)"
    if "uri_starts_with lb path q" for q c
    unfolding same by (rule merged_resolved [OF posix.below_lexical [OF path that] cwd])
  have base: "(s, b) \<in> set (resolved_entries lb ?merged ctx)" "uri_starts_with lb path s"
    using assms(6) parts by (auto simp: governs_def)
  obtain r where "governs lb path (resolved_entries lb ?merged ctx) r (resolve_access lb ?merged path ctx)"
    using resolve_access_governs [OF kind assms(2,5) base] by blast
  thus ?thesis by (rule governs_union [OF path assms(6,7) _ parts])
qed

theorem additional_permissions_combine_witness:
  "resolve_access sample_lib (effective_file_system_sandbox_policy sample_lib workspace_only
     (Some (grants [new_entry (PathEntry (dir_at [''b''])) Write]))) (dir_at [''b'', ''c'']) sample_ctx = Write"
proof -
  let ?fs = "\<lparr>permission_entries = [new_entry (PathEntry (dir_at [''b''])) Write], permission_scan_depth = None\<rparr>"
  let ?root = "\<lparr>url_host = None, url_segments = [[]]\<rparr>"
  have base: "resolved_entries sample_lib workspace_only sample_ctx = [(?root, Read), (dir_at [''a''], Write)]" by code_simp
  have extra: "resolved_entries sample_lib (restricted (permission_entries ?fs)) sample_ctx = [(dir_at [''b''], Write)]" by code_simp
  have below: "uri_starts_with sample_lib (dir_at [''b'', ''c'']) ?root" "\<not> uri_starts_with sample_lib (dir_at [''b'', ''c'']) (dir_at [''a''])"
    "uri_starts_with sample_lib (dir_at [''b'', ''c'']) (dir_at [''b''])" "uri_starts_with sample_lib ?root ?root"
    "uri_starts_with sample_lib (dir_at [''b'']) (dir_at [''b''])" "\<not> uri_starts_with sample_lib ?root (dir_at [''b''])" by code_simp+
  have "resolve_access sample_lib (effective_file_system_sandbox_policy sample_lib workspace_only
     (Some (grants [new_entry (PathEntry (dir_at [''b''])) Write]))) (dir_at [''b'', ''c'']) sample_ctx =
     (if uri_starts_with sample_lib ?root (dir_at [''b'']) then if uri_starts_with sample_lib (dir_at [''b'']) ?root then max Write Read else Read else Write)"
  proof (rule additional_permissions_combine)
    show "sandbox_kind workspace_only = Restricted" by code_simp
    show "posix_query sample_lib (dir_at [''b'', ''c'']) sample_ctx" by code_simp
    show "file_system_permissions (grants [new_entry (PathEntry (dir_at [''b''])) Write]) = Some ?fs" by (simp add: grants_def)
    show "permission_entries ?fs \<noteq> []" by simp
    show "\<not> ambiguous sample_lib (resolved_entries sample_lib (effective_file_system_sandbox_policy sample_lib workspace_only
      (Some (grants [new_entry (PathEntry (dir_at [''b''])) Write]))) sample_ctx)" by code_simp
    show "governs sample_lib (dir_at [''b'', ''c'']) (resolved_entries sample_lib workspace_only sample_ctx) ?root Read"
      by (simp add: governs_def base below)
    show "governs sample_lib (dir_at [''b'', ''c'']) (resolved_entries sample_lib (restricted (permission_entries ?fs)) sample_ctx) (dir_at [''b'']) Write"
      by (simp only: governs_def extra) (simp add: below)
  qed
  thus ?thesis by (simp add: below)
qed

text \<open>
  Additional permissions can take access away: a policy that lets \<open>/a\<close> be written, widened by reading \<open>/a/b\<close>, no
  longer lets \<open>/a/b\<close> be written.
\<close>

theorem additional_read_removes_write:
  "resolve_access sample_lib (restricted [new_entry (PathEntry (dir_at [''a''])) Write]) (dir_at [''a'', ''b'']) sample_ctx = Write \<and>
   resolve_access sample_lib (effective_file_system_sandbox_policy sample_lib (restricted [new_entry (PathEntry (dir_at [''a''])) Write])
     (Some (grants [new_entry (PathEntry (dir_at [''a'', ''b''])) Read]))) (dir_at [''a'', ''b'']) sample_ctx = Read"
proof
  show "resolve_access sample_lib (restricted [new_entry (PathEntry (dir_at [''a''])) Write]) (dir_at [''a'', ''b'']) sample_ctx = Write"
    by code_simp
  show "resolve_access sample_lib (effective_file_system_sandbox_policy sample_lib (restricted [new_entry (PathEntry (dir_at [''a''])) Write])
     (Some (grants [new_entry (PathEntry (dir_at [''a'', ''b''])) Read]))) (dir_at [''a'', ''b'']) sample_ctx = Read" by code_simp
qed



text \<open>
  A profile is what its runtime permissions and its enforcement say: taking it apart and putting it together
  gives it back, and the panic for external policies is not reached.
\<close>

theorem profile_roundtrip:
  assumes "well_formed_profile profile"
  shows "from_runtime_permissions_with_enforcement (enforcement profile) (fst (to_runtime_permissions profile))
           (snd (to_runtime_permissions profile)) = Some profile"
proof (cases profile)
  case (Managed file_system network)
  thus ?thesis using assms
    by (cases file_system) (auto simp: to_runtime_permissions_def from_runtime_permissions_with_enforcement_def well_formed_profile_def
        managed_from_sandbox_policy_def unrestricted_def nonzero_def split: option.splits bind_splits)
qed (auto simp: to_runtime_permissions_def from_runtime_permissions_with_enforcement_def unrestricted_def external_sandbox_def)

theorem profile_roundtrip_witness:
  "from_runtime_permissions_with_enforcement ManagedEnforcement
     \<lparr>sandbox_kind = Restricted, glob_scan_max_depth = Some 3, sandbox_entries = workspace_request\<rparr> NetworkEnabled =
   Some (Managed (ManagedRestricted workspace_request (Some 3)) NetworkEnabled)"
  using profile_roundtrip [of "Managed (ManagedRestricted workspace_request (Some 3)) NetworkEnabled"]
  by (simp add: well_formed_profile_def to_runtime_permissions_def)

end
