(* ===== verification/Patch_Safety.thy ===== *)
theory Patch_Safety
  imports Invocation Permission_Profile
begin

text \<open>
  \<open>core/src/safety.rs\<close>, with the approval modes of \<open>protocol/src/protocol.rs\<close> and the choice of a sandbox of
  \<open>sandboxing/src/manager.rs\<close>: whether a verified patch is applied at once, shown to the user or rejected. The
  action's changes are a list in the order the code meets them, and the operating system is a parameter. The
  theorems join the patch engine with the permissions.
\<close>

section \<open>Approval modes and sandboxes\<close>

record GranularApprovalConfig =
  sandbox_approval :: bool
  rules_approval :: bool
  skill_approval :: bool
  request_permissions :: bool
  mcp_elicitations :: bool

datatype AskForApproval = UnlessTrusted | OnRequest | Granular GranularApprovalConfig | Never

datatype SandboxType = NoSandbox | MacosSeatbelt | LinuxSeccomp | WindowsRestrictedToken | WindowsMxc

datatype WindowsSandboxLevel = DisabledLevel | RestrictedTokenLevel | ElevatedLevel

datatype target_os = MacOs | Linux | WindowsOs | OtherOs

datatype SandboxablePreference = Auto | Require | Forbid

fun get_platform_sandbox :: "target_os \<Rightarrow> bool \<Rightarrow> SandboxType option" where
  "get_platform_sandbox MacOs windows_sandbox_enabled = Some MacosSeatbelt"
| "get_platform_sandbox Linux windows_sandbox_enabled = Some LinuxSeccomp"
| "get_platform_sandbox WindowsOs windows_sandbox_enabled = (if windows_sandbox_enabled then Some WindowsRestrictedToken else None)"
| "get_platform_sandbox OtherOs windows_sandbox_enabled = None"

definition should_sandbox :: "uri_lib \<Rightarrow> PermissionProfile \<Rightarrow> SandboxablePreference \<Rightarrow> bool \<Rightarrow> bool" where
  "should_sandbox lb profile pref has_managed_network_requirements =
     (case pref of
        Forbid \<Rightarrow> False
      | Require \<Rightarrow> True
      | Auto \<Rightarrow>
          (case to_runtime_permissions profile of
             (policy, network) \<Rightarrow> should_require_platform_sandbox lb policy network has_managed_network_requirements))"

definition select_initial ::
    "target_os \<Rightarrow> uri_lib \<Rightarrow> PermissionProfile \<Rightarrow> SandboxablePreference \<Rightarrow> SandboxType \<Rightarrow> bool \<Rightarrow> SandboxType" where
  "select_initial os lb profile pref windows_sandbox_type has_managed_network_requirements =
     (if \<not> should_sandbox lb profile pref has_managed_network_requirements then NoSandbox
      else if os = WindowsOs \<and> windows_sandbox_type = WindowsMxc then WindowsMxc
      else (case get_platform_sandbox os (windows_sandbox_type \<noteq> NoSandbox) of Some t \<Rightarrow> t | None \<Rightarrow> NoSandbox))"

definition with_managed_mitm_ca_readable_root ::
    "uri_lib \<Rightarrow> sandbox_host \<Rightarrow> PermissionProfile \<Rightarrow> path_buf option \<Rightarrow> rstr \<Rightarrow> PermissionProfile option" where
  "with_managed_mitm_ca_readable_root lb h profile bundle cwd =
     (case bundle of
        None \<Rightarrow> Some profile
      | Some path \<Rightarrow>
          (case to_runtime_permissions profile of
             (policy, network) \<Rightarrow>
               from_runtime_permissions_with_enforcement (enforcement profile)
                 (with_additional_readable_roots lb h policy cwd [path]) network))"

section \<open>The safety of a patch\<close>

definition PATCH_REJECTED_OUTSIDE_PROJECT_REASON :: rstr where
  "PATCH_REJECTED_OUTSIDE_PROJECT_REASON = lit ''writing outside of the project; rejected by user approval settings''"

definition PATCH_REJECTED_READ_ONLY_REASON :: rstr where
  "PATCH_REJECTED_READ_ONLY_REASON = lit ''writing is blocked by read-only sandbox; rejected by user approval settings''"

datatype SafetyCheck = AutoApprove | AskUser | RejectPatch rstr

datatype PatchSandboxRoute = ExecutorManaged | Platform WindowsSandboxLevel

type_synonym patch_changes = "(file_url \<times> file_url ApplyPatchFileChange) list"

fun change_writable ::
    "uri_lib \<Rightarrow> FileSystemSandboxPolicy \<Rightarrow> FileSystemSandboxPolicyContext \<Rightarrow> file_url \<times> file_url ApplyPatchFileChange \<Rightarrow> bool" where
  "change_writable lb policy ctx (path, ChangeAdd _) = can_write_path lb policy path ctx"
| "change_writable lb policy ctx (path, ChangeDelete _) = can_write_path lb policy path ctx"
| "change_writable lb policy ctx (path, ChangeUpdate _ move_path _) \<longleftrightarrow>
     can_write_path lb policy path ctx \<and>
     (case move_path of Some dest \<Rightarrow> can_write_path lb policy dest ctx | None \<Rightarrow> True)"

definition is_write_patch_constrained_to_writable_paths ::
    "uri_lib \<Rightarrow> patch_changes \<Rightarrow> FileSystemSandboxPolicy \<Rightarrow> FileSystemSandboxPolicyContext \<Rightarrow> bool" where
  "is_write_patch_constrained_to_writable_paths lb chs policy ctx \<longleftrightarrow>
     has_full_disk_write_access_with_context lb policy ctx \<or> list_all (change_writable lb policy ctx) chs"

definition patch_rejection_reason ::
    "uri_lib \<Rightarrow> PermissionProfile \<Rightarrow> FileSystemSandboxPolicy \<Rightarrow> FileSystemSandboxPolicyContext \<Rightarrow> rstr" where
  "patch_rejection_reason lb profile policy ctx =
     (case profile of
        Managed _ _ \<Rightarrow>
          if \<not> has_full_disk_write_access_with_context lb policy ctx \<and> \<not> has_configured_writable_roots lb policy ctx
          then PATCH_REJECTED_READ_ONLY_REASON else PATCH_REJECTED_OUTSIDE_PROJECT_REASON
      | _ \<Rightarrow> PATCH_REJECTED_OUTSIDE_PROJECT_REASON)"

definition rejects_sandbox_approval :: "AskForApproval \<Rightarrow> bool" where
  "rejects_sandbox_approval approval =
     (case approval of Never \<Rightarrow> True | Granular config \<Rightarrow> \<not> sandbox_approval config | _ \<Rightarrow> False)"

definition sandbox_available :: "target_os \<Rightarrow> PatchSandboxRoute \<Rightarrow> bool" where
  "sandbox_available os route =
     (case route of
        ExecutorManaged \<Rightarrow> True
      | Platform level \<Rightarrow> get_platform_sandbox os (level \<noteq> DisabledLevel) \<noteq> None)"

definition assess_patch_safety ::
    "target_os \<Rightarrow> uri_lib \<Rightarrow> patch_changes \<Rightarrow> AskForApproval \<Rightarrow> PermissionProfile \<Rightarrow> FileSystemSandboxPolicy \<Rightarrow>
     FileSystemSandboxPolicyContext \<Rightarrow> PatchSandboxRoute \<Rightarrow> SafetyCheck" where
  "assess_patch_safety os lb chs approval profile policy ctx route =
     (if chs = [] then RejectPatch (lit ''empty patch'')
      else if approval = UnlessTrusted then AskUser
      else if is_write_patch_constrained_to_writable_paths lb chs policy ctx \<and>
           (enforcement profile \<noteq> ManagedEnforcement \<or> sandbox_available os route) then AutoApprove
      else if rejects_sandbox_approval approval then RejectPatch (patch_rejection_reason lb profile policy ctx)
      else AskUser)"

section \<open>The paths a patch changes\<close>

fun change_paths :: "'p \<times> 'p AppliedPatchFileChange \<Rightarrow> 'p set" where
  "change_paths (p, AppliedUpdate (Some dest) _ _ _) = {p, dest}"
| "change_paths (p, _) = {p}"

lemma replay_other: "\<forall>x\<in>set cs. q \<notin> change_paths x \<Longrightarrow> replay cs v q = v q"
proof (induction cs arbitrary: v)
  case (Cons x cs)
  have "replay1 x v q = v q" using Cons.prems by (cases x rule: change_paths.cases) auto
  thus ?case using Cons by (simp add: replay_def)
qed (simp add: replay_def)

definition records_within :: "'p set \<Rightarrow> 'p applied_patch_delta \<Rightarrow> 'p applied_patch_delta \<Rightarrow> bool" where
  "records_within A d d' \<longleftrightarrow> (\<forall>x\<in>set (changes d'). x \<in> set (changes d) \<or> change_paths x \<subseteq> A)"

lemma records_within_refl: "changes d' = changes d \<Longrightarrow> records_within A d d'"
  by (simp add: records_within_def)

lemma records_within_trans: "records_within A d d' \<Longrightarrow> records_within B d' d'' \<Longrightarrow> records_within (A \<union> B) d d''"
  by (fastforce simp: records_within_def)

lemma add_within: "apply_add_hunk h f p c s d = (r, d', s') \<Longrightarrow> records_within {p} d d'"
  by (auto simp: records_within_def apply_add_hunk_def Let_def push_change_def inexact_def split: sum.splits prod.splits)

lemma delete_within: "apply_delete_hunk h f p s d = (r, d', s') \<Longrightarrow> records_within {p} d d'"
  by (auto simp: records_within_def apply_delete_hunk_def Let_def push_change_def split: sum.splits prod.splits option.splits)

lemma move_within: "apply_move h f p q old new s d = (r, d', s') \<Longrightarrow> records_within {p, q} d d'"
  by (auto simp: records_within_def apply_move_def Let_def push_change_def inexact_def split: sum.splits prod.splits)

lemma update_in_place_within:
  assumes "apply_update_hunk h opts cwd p None chunks s d = Some (r, d', s')"
  shows "records_within {p} d d'"
proof (cases "derive_new_contents_from_chunks h s p chunks (update_file_mode opts) (follow_symlinks opts)")
  case None
  thus ?thesis using assms by (simp add: apply_update_hunk_def)
next
  case (Some x)
  show ?thesis
  proof (cases x)
    case (Inl e)
    thus ?thesis using assms Some by (auto simp: apply_update_hunk_def records_within_def)
  next
    case (Inr y)
    obtain old new where y: "y = (old, new)" by (cases y)
    obtain w s1 where w: "write_file h s p new (follow_symlinks opts) = (w, s1)" by (cases "write_file h s p new (follow_symlinks opts)")
    show ?thesis using assms Some Inr y w
      by (cases w) (auto simp: apply_update_hunk_def records_within_def push_change_def inexact_def)
  qed
qed

lemma hunk_within:
  assumes ver: "verified_as env h s0 m cwd hunk pc" and ap: "apply_hunk h opts cwd hunk s d = Some (r, d', s')"
  shows "records_within (set (touched pc)) d d'"
proof -
  obtain p c where pc: "pc = (p, c)" by (cases pc)
  have j: "path_join h cwd (hunk_source_path hunk) = Inr p" and vc: "verify_change env h s0 m cwd p hunk = Some (Inr c)"
    using ver by (auto simp: verified_as_def pc)
  show ?thesis
  proof (cases hunk)
    case (AddFile path contents)
    thus ?thesis using ap j vc add_within by (fastforce simp: apply_hunk_def verify_change_def pc)
  next
    case (DeleteFile path)
    thus ?thesis using ap j vc delete_within by (fastforce simp: apply_hunk_def verify_change_def pc split: sum.splits)
  next
    case (UpdateFile path dest chunks)
    have up: "apply_update_hunk h opts cwd p dest chunks s d = Some (r, d', s')" using ap j UpdateFile by (simp add: apply_hunk_def)
    show ?thesis
    proof (cases dest)
      case None
      have "set (touched pc) = {p}"
        using vc UpdateFile None by (auto simp: verify_change_def pc split: option.splits sum.splits)
      thus ?thesis using update_in_place_within [OF up [unfolded None]] by simp
    next
      case (Some t)
      obtain q where q: "path_join h cwd t = Inr q" "set (touched pc) = {p, q}"
        using vc UpdateFile Some by (auto simp: verify_change_def pc split: option.splits sum.splits)
      let ?d = "d\<lparr>exact := note_existing_path_delta_support h s p (follow_symlinks opts) (exact d)\<rparr>"
      have "d' = ?d \<or> (\<exists>old new. apply_move h (follow_symlinks opts) p q old new s ?d = (r, d', s'))"
        using up Some q(1) by (auto simp: apply_update_hunk_def Let_def split: option.splits sum.splits)
      hence "d' = ?d \<or> records_within {p, q} ?d d'" by (elim disjE exE) (simp, metis move_within)
      moreover have "records_within {p, q} ?d d' \<longleftrightarrow> records_within {p, q} d d'" by (simp add: records_within_def)
      moreover have "d' = ?d \<Longrightarrow> records_within {p, q} d d'" by (rule records_within_refl) simp
      ultimately show ?thesis unfolding q(2) by blast
    qed
  qed
qed

lemma loop_within:
  assumes "list_all2 (verified_as env h s0 m cwd) hs pcs" and "apply_hunks_loop h opts cwd hs a s d = Some (r, d', s')"
  shows "records_within (\<Union>pc\<in>set pcs. set (touched pc)) d d'"
  using assms
proof (induction hs arbitrary: pcs a s d)
  case Nil
  thus ?case by (auto intro: records_within_refl)
next
  case (Cons hunk hs)
  then obtain pc pcs' where pcs: "pcs = pc # pcs'" "verified_as env h s0 m cwd hunk pc" "list_all2 (verified_as env h s0 m cwd) hs pcs'"
    by (auto simp: list_all2_Cons1)
  obtain r1 d1 s1 where step: "apply_hunk h opts cwd hunk s d = Some (r1, d1, s1)"
    using Cons.prems(2) by (auto split: option.splits)
  have one: "records_within (set (touched pc)) d d1" by (rule hunk_within [OF pcs(2) step])
  show ?case
  proof (cases r1)
    case (Inl e)
    hence "d' = d1" using Cons.prems(2) step by simp
    thus ?thesis using one pcs(1) by (auto simp: records_within_def)
  next
    case (Inr u)
    hence "apply_hunks_loop h opts cwd hs (note_affected hunk a) s1 d1 = Some (r, d', s')" using Cons.prems(2) step by simp
    from Cons.IH [OF pcs(3) this] one show ?thesis unfolding pcs(1) by (auto intro: records_within_trans)
  qed
qed

text \<open>Whether it succeeds or not, applying a verified patch changes the verified paths only.\<close>

lemma verified_patch_frame:
  assumes fs: "text_fs h True view" and quiet: "quiet_output h view"
    and ver: "maybe_parse_apply_patch_verified_with_mode env h s argv cwd m = Some (VerifiedBody action)"
    and run: "apply_patch_with_options h (act_patch action) \<lparr>update_file_mode = act_mode action, follow_symlinks = True\<rparr>
           (act_cwd action) s = Some (r, s')"
    and ex: "exact (result_delta r)" and cr: "chr_cr \<notin> set (act_patch action)" and changed: "view s' q \<noteq> view s q"
  shows "\<exists>p c. act_changes action p = Some c \<and> q \<in> set (touched (p, c))"
proof -
  let ?opts = "\<lparr>update_file_mode = act_mode action, follow_symlinks = True\<rparr>"
  from verified_action [OF ver] obtain body args where v: "parse_patch body = Inr args" "act_patch action = args_patch args"
    "verify_hunks env h s m (act_cwd action) (args_hunks args) Map.empty = Some (Inr (act_changes action))" by blast
  from verify_hunks_list [OF v(3)] obtain pcs where pcs: "list_all2 (verified_as env h s m (act_cwd action)) (args_hunks args) pcs"
    "distinct (map fst pcs)" "act_changes action = map_of pcs" by auto
  from parse_patch_again [OF v(1)] v(2) cr obtain b where b: "parse_patch (act_patch action) = Inr b" "args_hunks b = args_hunks args" by auto
  have "apply_hunks_with_options h ?opts (act_cwd action) (args_hunks args) s = Some (r, s')"
    using run b by (simp add: apply_patch_with_options_def)
  from apply_hunks_with_options_files [OF quiet this] obtain x s1 where
    files: "apply_hunks_to_files h ?opts (act_cwd action) (args_hunks args) s delta_empty = Some (x, result_delta r, s1)" by blast
  have "records_within (\<Union>pc\<in>set pcs. set (touched pc)) delta_empty (result_delta r)"
    using files loop_within [OF pcs(1)] by (auto simp: apply_hunks_to_files_def split: if_splits intro: records_within_refl)
  hence within: "\<forall>x\<in>set (changes (result_delta r)). change_paths x \<subseteq> (\<Union>pc\<in>set pcs. set (touched pc))" by (simp add: records_within_def)
  have "commits view s delta_empty s' (result_delta r)" by (rule apply_patch_files [OF _ quiet run]) (simp add: fs)
  hence "view s' = replay (changes (result_delta r)) (view s)" using ex by (auto simp: commits_def)
  with changed obtain x where "x \<in> set (changes (result_delta r))" "q \<in> change_paths x" using replay_other by metis
  then obtain pc where pc: "pc \<in> set pcs" "q \<in> set (touched pc)" using within by blast
  hence "act_changes action (fst pc) = Some (snd pc)" using pcs(2,3) by simp
  thus ?thesis using pc(2) by (metis prod.collapse)
qed

lemma writable_touched: "change_writable lb policy ctx (p, c) \<Longrightarrow> q \<in> set (touched (p, c)) \<Longrightarrow> can_write_path lb policy q ctx"
  by (cases "(p, c)" rule: touched.cases) auto

section \<open>Theorems\<close>

type_synonym url_world = "(file_url \<Rightarrow> rstr option) \<times> (out_stream \<times> rstr) list"

definition url_host :: "uri_lib \<Rightarrow> (url_world, file_url) host" where
  "url_host lb =
     \<lparr>read_file_text = (\<lambda>s p f. case fst s p of Some t \<Rightarrow> Inr t | None \<Rightarrow> Inl no_such_file),
      write_file = (\<lambda>s p t f. (Inr (), ((fst s)(p \<mapsto> t), snd s))),
      remove_file = (\<lambda>s p f. case fst s p of
          Some t \<Rightarrow> (Inr (), ((fst s)(p := None), snd s)) | None \<Rightarrow> (Inl no_such_file, s)),
      create_directory = (\<lambda>s p f. (Inr (), s)),
      get_metadata = (\<lambda>s p f. case fst s p of
          Some t \<Rightarrow> Inr \<lparr>is_directory = False, is_file = True, is_symlink = False\<rparr>
        | None \<Rightarrow> Inl no_such_file),
      path_join = (\<lambda>base p. case join_uri lb base p of Inr q \<Rightarrow> Inr q | Inl _ \<Rightarrow> Inl []),
      path_parent = uri_parent lb,
      native_path = inferred_native_path_string lb,
      write_line = (\<lambda>s out l. (Inr (), (fst s, snd s @ [(out, l)])))\<rparr>"

lemma url_host_text_fs: "text_fs (url_host lb) f fst"
  by (auto simp: text_fs_def url_host_def plain_def no_such_file_def split: option.splits)

lemma url_host_quiet: "quiet_output (url_host lb) fst"
  by (simp add: quiet_output_def url_host_def)

definition url_invocation :: "(unit, file_url) invocation_env" where
  "url_invocation =
     \<lparr>load_grammar = Inr (), parse_bash = (\<lambda>_. None), query_matches = (\<lambda>_ _. []),
      infer_path_convention = infer_convention sample_lib, text_diff = (\<lambda>_ _ _. [])\<rparr>"

definition add_patch :: rstr where
  "add_patch = join_with [10] [lit ''*** Begin Patch'', lit ''*** Add File: n'', lit ''+x'', lit ''*** End Patch'']"

definition empty_world :: url_world where
  "empty_world = (\<lambda>_. None, [])"



text \<open>
  When the user asked never to be asked, a patch is never shown: it is applied or rejected, and a rejection that
  blames a read-only sandbox means that the policy has no writable root and no full write access.
\<close>

theorem never_ask_decides:
  "(case assess_patch_safety os lb chs Never profile policy ctx route of
      AskUser \<Rightarrow> False
    | AutoApprove \<Rightarrow> chs \<noteq> [] \<and> is_write_patch_constrained_to_writable_paths lb chs policy ctx
    | RejectPatch reason \<Rightarrow>
        (reason = PATCH_REJECTED_READ_ONLY_REASON \<longleftrightarrow>
           chs \<noteq> [] \<and> enforcement profile = ManagedEnforcement \<and> \<not> has_full_disk_write_access_with_context lb policy ctx \<and>
           \<not> has_configured_writable_roots lb policy ctx))"
proof -
  have texts: "lit ''empty patch'' \<noteq> PATCH_REJECTED_READ_ONLY_REASON" "PATCH_REJECTED_OUTSIDE_PROJECT_REASON \<noteq> PATCH_REJECTED_READ_ONLY_REASON"
    by code_simp+
  show ?thesis
    by (cases profile) (auto simp: assess_patch_safety_def rejects_sandbox_approval_def patch_rejection_reason_def texts)
qed

end
