(* ===== verification/Spec2Isabelle.thy ===== *)
theory Spec2Isabelle
  imports
    Invocation
    Turn_Diff
    Policy_Builder
    Policy_Amend
    Assistant_Text
    Utf8_Stream
    Head_Tail_Buffer
    Output_Truncation
    Context_Normalize
    Readiness
    Template
    Command_Safety
    Network_Proxy
    Shell_Environment
    Patch_Safety
begin

text \<open>
  \<^bold>\<open>A verification library for the Codex agent (codex-rs).\<close>

  Codex is a coding agent: a model writes messages, patches and shell commands, and the program
  turns them into effects. This library models the parts that decide what these effects are, as
  Isabelle functions that follow the Rust code branch by branch, and proves what makes each part
  correct. Nine subsystems are covered.

  \<^item> \<^emph>\<open>Patches\<close> (\<open>apply-patch\<close>): the call of a patch is recognized in a command and verified against
    the files; the text of a patch is parsed, also while it is still being streamed; the hunks are
    located in the files and applied; what was changed is reported as a delta, and from the deltas of
    a turn the program shows its net diff.
  \<^item> \<^emph>\<open>Execution policy\<close> (\<open>execpolicy\<close>): policy files define rules; a command is matched against
    them and is allowed, has to be confirmed, or is forbidden; rules the user accepts are appended
    to a policy file.
  \<^item> \<^emph>\<open>Assistant text\<close> (\<open>utils/stream-parser\<close>): the bytes the model streams are decoded, hidden
    citation tags are taken out and proposed plans are separated from the visible text.
  \<^item> \<^emph>\<open>Output\<close> (\<open>core/unified_exec\<close>, \<open>utils/string\<close>, \<open>utils/output-truncation\<close>): the output of
    commands and tools is cut to a budget before the model reads it.
  \<^item> \<^emph>\<open>Conversation history\<close> (\<open>protocol\<close>, \<open>core/context_manager\<close>): the recorded items are made into
    a prompt in which every call has an output and every output a call.
  \<^item> \<^emph>\<open>Shell commands\<close> (\<open>shell-command\<close>): scripts of plain commands are taken apart, and commands
    that are dangerous, also behind wrappers, are recognized.
  \<^item> \<^emph>\<open>Network policy\<close> (\<open>network-proxy\<close>): which hosts the commands of the agent may reach, within what
    an administrator allows, while the lists are edited and reloaded.
  \<^item> \<^emph>\<open>Permissions\<close> (\<open>protocol\<close>, \<open>sandboxing\<close>, \<open>utils/path-uri\<close>, \<open>core/src/safety.rs\<close>): which paths a command or
    a patch may read and write, from policies over path URIs, profiles and what a user grants on request,
    and whether a patch is applied without asking.
  \<^item> \<^emph>\<open>Configuration\<close> (\<open>config\<close>, \<open>protocol\<close>): layers of settings are merged, the program knows which layer
    each value comes from, and the environment of commands is built from the result.

  Two small utilities that the core relies on, the readiness flag and the prompt templates, complete it.

  \<^bold>\<open>Conventions.\<close> A \<open>String\<close> or \<open>&str\<close> is a list of Unicode code points (\<open>rstr\<close>); its byte
  length is \<open>len_utf8\<close>, and byte offsets are used where the code slices by bytes (\<open>Truncate\<close>). A
  byte is a number. \<open>usize\<close> is a natural number, bounded where the code saturates (\<open>sat_add\<close>,
  \<open>sat_mul\<close>). A \<open>Result\<close> is a sum whose left side is the error, with the error values and messages
  of the source. An outer \<open>option\<close> is a panic of the Rust code, or a loop that does not return; for
  every operation that has one it is proved when it is \<open>None\<close>. A \<open>&mut self\<close> method returns the
  state it leaves, on failing branches too. Structures are records, enumerations are datatypes, and
  names are those of the source where Isabelle allows it.

  Code outside the repository is a parameter. \<open>Apply_Patch.host\<close> holds the file system, path and
  writer operations that \<open>apply_patch\<close> calls, and \<open>text_fs\<close> what it relies on;
  \<open>Exec_Policy.multi_map\<close> and \<open>multi_map_ok\<close> do the same for the \<open>multimap\<close> crate,
  \<open>Policy_Builder.exec_lib\<close> and the argument \<open>starlark\<close> for \<open>shlex\<close> and the Starlark interpreter,
  \<open>Policy_Amend.policy_fs\<close> and \<open>policy_fs_ok\<close> for the locked policy file, and two arguments for
  \<open>serde_json\<close>; \<open>Readiness\<close> has the laws \<open>watch_laws\<close> of the \<open>tokio\<close> watch channel, \<open>Shell_Parse\<close> the
  \<open>tree-sitter\<close> parser as a function to syntax trees, \<open>Invocation.invocation_env\<close> the same parser with
  a query and the diff printer, \<open>Turn_Diff.diff_env\<close> the printing of diffs and paths, \<open>sha1\<close> and the
  order of hash maps (\<open>hash_ok\<close>: it visits exactly the keys), \<open>Path_Uri.uri_lib\<close> with \<open>uri_laws\<close> and
  \<open>text_laws\<close> the \<open>url\<close>, \<open>percent-encoding\<close> and \<open>base64\<close> crates, \<open>Sandbox_Policy.sandbox_host\<close> what the
  permissions ask the machine, \<open>Command_Safety.safety_env\<close> the splitting of
  command lines and URLs, \<open>Domain_Pattern.glob_lib\<close> and \<open>glob_laws\<close> the \<open>globset\<close> crate,
  \<open>Network_Config.proxy_env\<close> the rest of what the proxy calls, \<open>Config_Merge.merge_env\<close> and
  \<open>Config_Layers.layer_lib\<close> the case tables, \<open>serde_json\<close>, \<open>sha2\<close> and the reading of TOML values, and
  \<open>Context_Normalize\<close> the function
  \<open>Uuid::new_v5\<close>. Concrete instances (\<open>mem_host\<close>, \<open>log_map\<close>, \<open>mem_policy_fs\<close>, \<open>sample_lib\<close>,
  \<open>sample_env\<close>) meet these hypotheses and serve as the inputs of the witnesses.

  \<^bold>\<open>Theories.\<close>

  \<^item> \<open>Prelude\<close>: strings, lines, splitting, numbers, and the lemmas all theories share.
  \<^item> \<open>Patch_Hunks\<close> (\<open>apply-patch/src/parser.rs\<close>): markers, hunks, chunks and the invariant of the
    context indices. \<open>Streaming_Parser\<close> (\<open>streaming_parser.rs\<close>): the state machine
    \<open>process_line\<close>, \<open>push_delta\<close>, \<open>finish\<close>; a delta may be cut anywhere, and what is reported while
    streaming only ever grows (locale \<open>growth\<close>). \<open>Patch_Parser\<close>: boundary checks and
    \<open>parse_patch\<close>; every parsed hunk is well formed. \<open>Patch_Grammar\<close>: an abstract syntax of patches
    and their printer; printing and parsing are inverse.
  \<^item> \<open>Seek_Sequence\<close> (\<open>seek_sequence.rs\<close>): a chunk is found at the first match of the strictest
    comparison that has one. \<open>Text_File\<close> (\<open>text_file.rs\<close>): files with mixed line endings, round
    trip and replacements. \<open>File_Update\<close> (\<open>file_update.rs\<close>): the computed replacements are ordered
    and in range, so that nothing panics; a chunk whose old lines occur replaces exactly that
    block; two defects of the normalizing mode. \<open>Apply_Patch\<close> (\<open>lib.rs\<close>): all effects of
    \<open>apply_patch\<close>; if the reported delta claims to be exact, replaying it on the old files gives
    the new ones and undoing it on the new ones gives the old ones, also when the patch failed
    half way; the summary lists every hunk; a rename onto itself loses the file. \<open>Invocation\<close>
    (\<open>invocation.rs\<close>): from a command to its verified action, and that the contents shown for
    approval are those that are applied, with the exceptions that moves and carriage returns make.
    \<open>Turn_Diff\<close> (\<open>core/src/turn_diff_tracker.rs\<close>): what is shown for a turn is the diff of the files
    before it against the files after it, although the tracker reads none of them and reuses what it
    rendered before; a net rename without an edit is not shown.
  \<^item> \<open>Absolute_Path\<close> (\<open>utils/absolute-path\<close>, Unix): normalization of paths. \<open>Exec_Rule\<close>
    (\<open>decision.rs\<close>, \<open>rule.rs\<close>, \<open>error.rs\<close>, \<open>executable_name.rs\<close>): decisions as a linear order,
    prefix rules, network hosts; the trait \<open>Rule\<close> is the locale \<open>rule_trait\<close>, interpreted on prefix
    rules. \<open>Exec_Policy\<close> (\<open>policy.rs\<close>): the decision is the strictest of the matching rules, for
    one command and for many; adding rules or overlays never weakens a decision, adding arguments
    neither; the last network rule for a host wins. \<open>Policy_Builder\<close> (\<open>parser.rs\<close>): a policy that
    parses satisfies its own examples, and the builder keeps its invariant. \<open>Policy_Amend\<close>
    (\<open>amend.rs\<close>, \<open>sandbox_migration.rs\<close>): a rule is appended as one line, once.
  \<^item> \<open>Stream_Text\<close> (\<open>stream_text.rs\<close>): the trait \<open>StreamTextParser\<close> as the locale
    \<open>stream_text_parser\<close>, whose laws give that the chunking of the input cannot be observed.
    \<open>Inline_Hidden_Tag\<close> (\<open>inline_hidden_tag.rs\<close>, \<open>citation.rs\<close>) and \<open>Tagged_Line\<close>
    (\<open>tagged_line_parser.rs\<close>, \<open>proposed_plan.rs\<close>) interpret it and are equivalent to reference
    definitions on whole texts. \<open>Assistant_Text\<close> (\<open>assistant_text.rs\<close>) composes them;
    \<open>Utf8_Stream\<close> (\<open>utf8_stream.rs\<close>) feeds them bytes.
  \<^item> \<open>Head_Tail_Buffer\<close> (\<open>core/src/unified_exec/head_tail_buffer.rs\<close>): the buffer is a function of
    the output alone, within its budget, with an exact count of what was left out, and merging
    buffers is concatenation. \<open>Truncate\<close> (\<open>utils/string\<close>) and \<open>Output_Truncation\<close>
    (\<open>utils/output-truncation\<close>): texts are cut at character boundaries with both ends as long as
    the budget allows, and lists of items lose nothing silently.
  \<^item> \<open>Response_Item\<close> (\<open>protocol/src/models.rs\<close>): conversation items and their envelopes.
    \<open>Context_Normalize\<close> (\<open>normalize.rs\<close>, \<open>history.rs\<close>): what \<open>for_prompt\<close> computes, that calls and
    outputs are paired in it, and that dropping the oldest item keeps them paired.
  \<^item> \<open>Shell_Parse\<close> (\<open>bash.rs\<close>, \<open>shell_detect.rs\<close>): a script is accepted only if every word of it is
    literal. \<open>Command_Safety\<close> (\<open>command_safety\<close>): the classifier, for both platforms, reports exactly
    the commands that run a dangerous one, up to the depth of wrappers at which it gives up and
    reports.
  \<^item> \<open>Ip_Addr\<close> and \<open>Domain_Pattern\<close> (\<open>network-proxy/src/policy.rs\<close>): the ranges of addresses that are
    not public; a pattern allows another exactly when it covers all its hosts; compiled lists match what
    the patterns stand for. \<open>Network_Config\<close> (\<open>config.rs\<close>, \<open>state.rs\<close>): a validated configuration
    stays within its constraints, with one exception for hosts with ports. \<open>Network_Proxy\<close>
    (\<open>runtime.rs\<close>): the decision for a host in terms of the configuration; concurrent updates keep
    the policy valid and lose no change of it, but may lose entries of the log.
  \<^item> \<open>Path_Uri\<close> (\<open>utils/path-uri/src/lib.rs\<close>): paths as file URIs, with joining and containment; that
    containment is a tree on unambiguous POSIX paths is the locale \<open>containment\<close>, on which the permission
    proofs rest. \<open>Path_Text\<close> (\<open>api_path_string.rs\<close>, \<open>config_path.rs\<close>): native paths survive as URIs.
    \<open>Sandbox_Policy\<close> (\<open>protocol/src/permissions.rs\<close>): the nearest entry above a path decides; the shortcut
    for full write access is sound; the metadata of repositories is protected, with an exception that
    depends on the order of entries; denials survive new permissions; what the mode \<open>workspace-write\<close> lets be
    written. \<open>Deny_Read\<close> (\<open>permissions/target.rs\<close>, \<open>permissions/deny_read_validator.rs\<close>): a selection that
    passes the check enforces the denials of an administrator; workspace entries can be made concrete
    without changing a decision, unless they point outside. \<open>Permission_Profile\<close>
    (\<open>protocol/src/models.rs\<close>, \<open>sandboxing/src/policy_transforms.rs\<close>): a grant stays within its request for
    reading, but not for writing; how additional permissions combine with a policy; profiles restricted
    to reading. \<open>Patch_Safety\<close> (\<open>core/src/safety.rs\<close>): a patch that is applied without asking changes only
    files that the policy allows to write; this joins the permissions with \<open>Invocation\<close> and \<open>Apply_Patch\<close>.
  \<^item> \<open>Config_Merge\<close> (\<open>merge.rs\<close>, \<open>key_aliases.rs\<close>, \<open>overrides.rs\<close>): the merge of two layers, with what it keeps
    and what it replaces, and the rules for features, hosts, filters and credentials. \<open>Config_Layers\<close>
    (\<open>state.rs\<close>, \<open>config_layer_source.rs\<close>, \<open>fingerprint.rs\<close>): the highest layer that sets a value wins and is
    reported as its origin; stacks stay ordered and valid. \<open>Shell_Environment\<close>
    (\<open>protocol/src/shell_environment.rs\<close>): what the environment of a command contains, and what never
    gets into it.
  \<^item> \<open>Readiness\<close> (\<open>utils/readiness\<close>): threads as a step relation; the flag is set once and stays,
    registered waiters are released, one that registers too late is not. \<open>Template\<close>
    (\<open>utils/template\<close>): rendering replaces the placeholders and nothing else.

  \<^bold>\<open>Termination.\<close> All definitions are total functions except two loops that are partial functions into
  \<open>option\<close>: \<open>InlineHiddenTagParser::push_str\<close>, which with an empty delimiter would run forever and is
  proved to return for every delimiter \<open>new\<close> accepts, and the search of \<open>ReadinessFlag::subscribe\<close> for
  a free token, proved to return as long as a token is free. The stack of nodes in \<open>Shell_Parse\<close>,
  the scanner of \<open>Template\<close>, \<open>detect_shell_type\<close>, the merge of TOML values and the ancestors of a path URI
  terminate by a measure. The only counter is the one
  the code has itself: the wrapper depth of \<open>Command_Safety\<close>, which counts down from
  \<open>MAX_DANGEROUS_COMMAND_WRAPPER_DEPTH\<close>.

  \<^bold>\<open>Not modelled.\<close> The user interface, servers, network clients, sandboxes and storage (effects of
  the operating system and of remote services); the text of diffs (\<open>similar\<close>), the
  \<open>tree-sitter\<close> grammar and queries, regular expressions and floating point; the Windows branches of absolute
  paths and executable names; the concurrency of several processes beyond the file lock of \<open>amend.rs\<close>; of the
  permissions the enumeration of writable roots, which follows links on the disk, the conversion back to
  the older sandbox modes and the serialized forms. Candidates for extension are the summaries of commands
  (\<open>parse_command.rs\<close>), the token estimates and the rollback of the history and the MITM hooks of the
  proxy.
\<close>

end
